(* ===== verification/Prelude.thy ===== *)
theory Prelude
  imports Main "HOL-Library.Word" "HOL-Library.Monad_Syntax"
begin

text \<open>
  Shared vocabulary of the development: the machine types of the C sources, the option monad in
  which the models run, bounded buffer accesses, and the generic list and map lemmas that the
  component theories use.

  A run of a C function is a value of an option type. \<open>Some\<close> of a result says that the call
  returns and that every memory access and every assertion on the way is defined; \<open>None\<close> says
  that the call dereferences a pointer that is not valid, fails an assertion, leaves a buffer,
  or does not return. A theorem \<open>f x = Some y\<close> is therefore a total correctness statement.
\<close>

section \<open>Machine types\<close>

type_synonym uint8 = "8 word"
type_synonym uint16 = "16 word"
type_synonym uint32 = "32 word"
type_synonym uint64 = "64 word"

text \<open>Addresses of objects; the null pointer is address 0.\<close>

type_synonym addr = nat

abbreviation (input) NULL :: addr where
  "NULL \<equiv> 0"

text \<open>
  Function pointers and the \<open>void *\<close> user data are opaque numbers: the library stores them and
  passes them on, and what a call through them does is a parameter of the model.
\<close>

type_synonym fptr = nat
type_synonym udata = nat

text \<open>
  A C \<open>int\<close> is an \<open>int\<close> of HOL where the code only compares it; \<open>to_int32\<close> is the conversion
  the code performs where it narrows a wider value to \<open>int\<close>.
\<close>

definition to_int32 :: "uint64 \<Rightarrow> int" where
  "to_int32 x = sint (ucast x :: 32 word)"

abbreviation (input) INT_MAX :: int where
  "INT_MAX \<equiv> 2147483647"

section \<open>Collections of rules\<close>

named_theorems run_simps \<open>rules that step a model run through its monadic operations\<close>
named_theorems seg_simps \<open>rules on linked segments and rings\<close>
named_theorems frame_simps \<open>what an operation leaves unchanged\<close>

section \<open>Assertions in the option monad\<close>

definition c_assert :: "bool \<Rightarrow> unit option" where
  "c_assert b = (if b then Some () else None)"

lemma c_assert_simps [simp, run_simps]:
  "c_assert True = Some ()"
  "c_assert False = None"
  by (simp_all add: c_assert_def)

lemma c_assert_eq_Some [simp]: "c_assert b = Some u \<longleftrightarrow> b"
  by (simp add: c_assert_def)

lemma bind_c_assert [run_simps]: "(c_assert b \<bind> f) = (if b then f () else None)"
  by (simp add: c_assert_def)

lemma bind_eq_SomeE:
  assumes "(m \<bind> f) = Some y"
  obtains x where "m = Some x" and "f x = Some y"
  using assms by (cases m) auto

section \<open>Buffers\<close>

text \<open>
  A \<open>uint8_t *buf\<close> of \<open>size\<close> bytes is the list of its bytes. Writing \<open>ds\<close> at offset \<open>off\<close> is
  defined only inside the buffer, and so is reading a byte.
\<close>

definition buf_write :: "nat \<Rightarrow> 'a list \<Rightarrow> 'a list \<Rightarrow> 'a list option" where
  "buf_write off ds buf =
     (if off + length ds \<le> length buf
      then Some (take off buf @ ds @ drop (off + length ds) buf) else None)"

definition buf_read :: "'a list \<Rightarrow> nat \<Rightarrow> 'a option" where
  "buf_read buf i = (if i < length buf then Some (buf ! i) else None)"

lemma buf_write_inside [run_simps]:
  "off + length ds \<le> length buf \<Longrightarrow>
     buf_write off ds buf = Some (take off buf @ ds @ drop (off + length ds) buf)"
  by (simp add: buf_write_def)

lemma buf_read_inside [run_simps]: "i < length buf \<Longrightarrow> buf_read buf i = Some (buf ! i)"
  by (simp add: buf_read_def)

lemma length_buf_write: "buf_write off ds buf = Some b \<Longrightarrow> length b = length buf"
  by (auto simp: buf_write_def split: if_splits)

lemma buf_write_eq_Some:
  "buf_write off ds buf = Some b \<longleftrightarrow>
     off + length ds \<le> length buf \<and> b = take off buf @ ds @ drop (off + length ds) buf"
  by (auto simp: buf_write_def)

section \<open>C strings\<close>

text \<open>\<open>strncmp(s, t, n) == 0\<close> for a literal \<open>t\<close> of exactly \<open>n\<close> characters.\<close>

definition str_prefix :: "string \<Rightarrow> string \<Rightarrow> bool" where
  "str_prefix t s = (take (length t) s = t)"

lemma str_prefix_iff: "str_prefix t s \<longleftrightarrow> (\<exists>u. s = t @ u)"
  unfolding str_prefix_def by (metis append_eq_conv_conj append_take_drop_id)

text \<open>A string between single quotes, as the formats \<open>'%s'\<close> of the messages print it.\<close>

definition sq :: "string \<Rightarrow> string" where
  "sq s = CHR 0x27 # s @ [CHR 0x27]"

section \<open>Lists and maps\<close>

lemma map_upd_None_iff: "(m(a \<mapsto> v)) x = None \<longleftrightarrow> x \<noteq> a \<and> m x = None"
  by auto

lemma remove1_split: "a \<notin> set xs \<Longrightarrow> remove1 a (xs @ a # ys) = xs @ ys"
  by (simp add: remove1_append)

lemma last_in_Cons: "last (h # xs) \<in> set (h # xs)"
  by (rule last_in_set) simp

lemma in_concat_nth: "x \<in> set (concat B) \<longleftrightarrow> (\<exists>j < length B. x \<in> set (B ! j))"
proof -
  have "x \<in> set (concat B) \<longleftrightarrow> (\<exists>ys. ys \<in> set B \<and> x \<in> set ys)" by auto
  then show ?thesis unfolding in_set_conv_nth [of _ B] by blast
qed

lemma in_concat_update:
  assumes "i < length B"
  shows "x \<in> set (concat (B[i := ys])) \<longleftrightarrow>
     x \<in> set ys \<or> (\<exists>j < length B. j \<noteq> i \<and> x \<in> set (B ! j))"
  unfolding in_concat_nth using assms by (auto simp: nth_list_update)

lemma set_concat_push:
  assumes "i < length B"
  shows "set (concat (B[i := x # B ! i])) = insert x (set (concat B))"
proof (rule set_eqI)
  fix y
  have "y \<in> set (concat B) \<longleftrightarrow> (\<exists>j < length B. y \<in> set (B ! j))" by (rule in_concat_nth)
  then show "y \<in> set (concat (B[i := x # B ! i])) \<longleftrightarrow> y \<in> insert x (set (concat B))"
    unfolding in_concat_update [OF assms] using assms by auto
qed

lemma distinct_concat_nth:
  assumes "\<And>i. i < length B \<Longrightarrow> distinct (B ! i)"
    and "\<And>i j. i < length B \<Longrightarrow> j < length B \<Longrightarrow> i \<noteq> j \<Longrightarrow> set (B ! i) \<inter> set (B ! j) = {}"
  shows "distinct (concat B)"
  using assms
proof (induction B)
  case (Cons ys B)
  have "distinct (concat B)"
  proof (rule Cons.IH)
    show "distinct (B ! i)" if "i < length B" for i
      using Cons.prems(1) [of "Suc i"] that by simp
    show "set (B ! i) \<inter> set (B ! j) = {}" if "i < length B" "j < length B" "i \<noteq> j" for i j
      using Cons.prems(2) [of "Suc i" "Suc j"] that by simp
  qed
  moreover have "set ys \<inter> set (concat B) = {}"
  proof -
    have "set ys \<inter> set (B ! j) = {}" if "j < length B" for j
      using Cons.prems(2) [of 0 "Suc j"] that by simp
    then show ?thesis using in_concat_nth [of _ B] by blast
  qed
  moreover have "distinct ys" using Cons.prems(1) [of 0] by simp
  ultimately show ?case by simp
qed simp

end
