(* ===== verification/Compat.thy ===== *)
theory Compat
  imports Prelude
begin

text \<open>
  Model of the string helpers of \<open>src/compat.c\<close>. A C string is the list of its characters; a
  pointer into it is an index. \<open>strrpbrk\<close> walks from the end of the string to its start, \<open>stpcpy\<close>
  copies a string with its terminator into a buffer and returns where the terminator went.
\<close>

text \<open>The inner loop of \<open>strrpbrk\<close>: is the character one of the accepted ones?\<close>

fun accepts :: "string \<Rightarrow> char \<Rightarrow> bool" where
  "accepts [] c = False"
| "accepts (a # as) c = (if a = c then True else accepts as c)"

text \<open>The outer loop, with \<open>n\<close> characters still in front of the pointer.\<close>

fun strrpbrk_from :: "string \<Rightarrow> string \<Rightarrow> nat \<Rightarrow> nat option" where
  "strrpbrk_from s accept 0 = None"
| "strrpbrk_from s accept (Suc n) = (if accepts accept (s ! n) then Some n else strrpbrk_from s accept n)"

definition strrpbrk :: "string \<Rightarrow> string \<Rightarrow> nat option" where
  "strrpbrk s accept = strrpbrk_from s accept (length s)"

text \<open>
  \<open>stpcpy\<close> into the characters of a buffer from offset \<open>dest\<close> on; \<open>CHR 0x00\<close> is the terminator.
\<close>

fun stpcpy :: "string \<Rightarrow> nat \<Rightarrow> string \<Rightarrow> (nat \<times> string) option" where
  "stpcpy buf dest [] = do {
     buf \<leftarrow> buf_write dest [CHR 0x00] buf;
     Some (dest, buf)
   }"
| "stpcpy buf dest (c # src) = do {
     buf \<leftarrow> buf_write dest [c] buf;
     stpcpy buf (dest + 1) src
   }"

text \<open>The C string at the start of a buffer.\<close>

definition c_str :: "string \<Rightarrow> string" where
  "c_str buf = takeWhile (\<lambda>c. c \<noteq> CHR 0x00) buf"

section \<open>Formatting\<close>

text \<open>
  A list of variable arguments holds the arguments until it has been used. Where it is an array of the
  caller, as on x86-64, a call that walks through it leaves it indeterminate; where it is a pointer, the
  callee has a copy.
\<close>

datatype 'a va_list = Va 'a | Va_used

text \<open>
  \<open>vsnprintf\<close> of the C library: \<open>fmt\<close> gives the text for the arguments, or none for an error. The result is the
  length of the text, what is stored is cut to the size of the buffer, terminator included.
\<close>

definition vsnprintf :: "('a \<Rightarrow> string option) \<Rightarrow> bool \<Rightarrow> nat \<Rightarrow> 'a va_list \<Rightarrow> (int \<times> string \<times> 'a va_list) option" where
  "vsnprintf fmt copied n ap =
     (case ap of
        Va_used \<Rightarrow> None
      | Va a \<Rightarrow>
          (let ap = (if copied then ap else Va_used) in
           case fmt a of None \<Rightarrow> Some (-1, [], ap) | Some str \<Rightarrow> Some (int (length str), take (n - 1) str, ap)))"

text \<open>\<open>room n\<close> says whether \<open>malloc\<close> gives \<open>n\<close> bytes. The string is what \<open>*strp\<close> is set to, if it is.\<close>

definition vasprintf ::
  "('a \<Rightarrow> string option) \<Rightarrow> bool \<Rightarrow> (nat \<Rightarrow> bool) \<Rightarrow> 'a va_list \<Rightarrow> (int \<times> string option) option" where
  "vasprintf fmt copied room ap = do {
     (r, _, ap) \<leftarrow> vsnprintf fmt copied 0 ap;
     if r < 0 then Some (-1, None)
     else if \<not> room (nat r + 1) then Some (-1, None)
     else do {
       (r, str, ap) \<leftarrow> vsnprintf fmt copied (nat r + 1) ap;
       if r < 0 then Some (-1, None) else Some (r, Some str)
     }
   }"

definition asprintf :: "('a \<Rightarrow> string option) \<Rightarrow> bool \<Rightarrow> (nat \<Rightarrow> bool) \<Rightarrow> 'a \<Rightarrow> (int \<times> string option) option" where
  "asprintf fmt copied room a = vasprintf fmt copied room (Va a)"

section \<open>Lemmas\<close>

text \<open>Where the callee has a copy the whole text is returned; elsewhere the second use is undefined.\<close>

lemma asprintf_copied:
  "asprintf fmt True room a =
     Some (case fmt a of
       None \<Rightarrow> (-1, None)
     | Some str \<Rightarrow> if room (length str + 1) then (int (length str), Some str) else (-1, None))"
  by (simp add: asprintf_def vasprintf_def vsnprintf_def split: option.splits)

lemma asprintf_shared:
  "asprintf fmt False room a = None \<longleftrightarrow> (\<exists>str. fmt a = Some str \<and> room (length str + 1))"
  by (auto simp: asprintf_def vasprintf_def vsnprintf_def split: option.splits)

lemma accepts_iff: "accepts as c \<longleftrightarrow> c \<in> set as"
  by (induction as) auto

lemma strrpbrk_from_spec:
  "strrpbrk_from s accept n =
     (if \<exists>i < n. s ! i \<in> set accept then Some (GREATEST i. i < n \<and> s ! i \<in> set accept) else None)"
proof (induction n)
  case (Suc n)
  show ?case
  proof (cases "s ! n \<in> set accept")
    case True
    have "(GREATEST i. i < Suc n \<and> s ! i \<in> set accept) = n"
      by (rule Greatest_equality) (use True in auto)
    with True show ?thesis by (auto simp: accepts_iff)
  next
    case False
    then have "(i < Suc n \<and> s ! i \<in> set accept) \<longleftrightarrow> (i < n \<and> s ! i \<in> set accept)" for i
      by (auto simp: less_Suc_eq)
    with False Suc show ?thesis by (simp add: accepts_iff)
  qed
qed simp

lemma strrpbrk_Some:
  assumes "strrpbrk s accept = Some i"
  shows "i < length s" and "s ! i \<in> set accept" and "\<And>j. i < j \<Longrightarrow> j < length s \<Longrightarrow> s ! j \<notin> set accept"
proof -
  have "strrpbrk_from s accept n = Some i \<Longrightarrow>
      i < n \<and> s ! i \<in> set accept \<and> (\<forall>j. i < j \<longrightarrow> j < n \<longrightarrow> s ! j \<notin> set accept)" for n
    by (induction n) (auto simp: accepts_iff less_Suc_eq split: if_splits)
  with assms show "i < length s" "s ! i \<in> set accept"
    "\<And>j. i < j \<Longrightarrow> j < length s \<Longrightarrow> s ! j \<notin> set accept" by (auto simp: strrpbrk_def)
qed

lemma strrpbrk_None: "strrpbrk s accept = None \<longleftrightarrow> (\<forall>c \<in> set s. c \<notin> set accept)"
  by (force simp: strrpbrk_def strrpbrk_from_spec in_set_conv_nth [of _ s])

text \<open>The tail of a path behind its last separator has none left.\<close>

lemma strrpbrk_tail:
  assumes "strrpbrk s accept = Some i"
  shows "\<forall>c \<in> set (drop (Suc i) s). c \<notin> set accept"
  using strrpbrk_Some(3) [OF assms] by (auto simp: in_set_conv_nth [of _ "drop (Suc i) s"])

lemma stpcpy_run:
  assumes "dest + length src < length buf"
  shows "stpcpy buf dest src =
     Some (dest + length src, take dest buf @ src @ [CHR 0x00] @ drop (dest + length src + 1) buf)"
  using assms
proof (induction src arbitrary: buf dest)
  case Nil
  then show ?case by (simp add: buf_write_def)
next
  case (Cons c src)
  let ?b = "take dest buf @ [c] @ drop (dest + 1) buf"
  have "buf_write dest [c] buf = Some ?b" using Cons.prems by (simp add: buf_write_def)
  moreover have "stpcpy ?b (dest + 1) src = Some (dest + 1 + length src,
      take (dest + 1) ?b @ src @ [CHR 0x00] @ drop (dest + 1 + length src + 1) ?b)"
    by (rule Cons.IH) (use Cons.prems in simp)
  moreover have "take (dest + 1) ?b = take dest buf @ [c]" using Cons.prems by simp
  moreover have "drop (dest + 1 + length src + 1) ?b = drop (dest + length (c # src) + 1) buf"
    using Cons.prems by (simp add: add.commute)
  ultimately show ?case by simp
qed

lemma stpcpy_overflow:
  assumes "length buf \<le> dest + length src"
  shows "stpcpy buf dest src = None"
  using assms
  by (induction src arbitrary: buf dest) (auto simp: buf_write_def split: bind_splits)

lemma c_str_stpcpy:
  assumes "stpcpy buf 0 src = Some (n, buf')" and "CHR 0x00 \<notin> set src"
  shows "c_str buf' = src" and "n = length src" and "length buf' = length buf"
proof -
  have lt: "0 + length src < length buf" using assms(1) stpcpy_overflow [of buf 0 src] by fastforce
  from stpcpy_run [OF lt] assms(1) have "n = length src"
      "buf' = src @ [CHR 0x00] @ drop (length src + 1) buf" by simp_all
  with lt assms(2) show "c_str buf' = src" "n = length src" "length buf' = length buf"
    by (auto simp: c_str_def takeWhile_append)
qed

end
