(* ===== verification/Common.thy ===== *)
theory Common
  imports Prelude
begin

text \<open>
  Model of \<open>src/common.c\<close> and of the types it shares with every other part of the library
  (\<open>include/hs/common.h\<close>): log levels, error codes, the log handler, and the stack of masked
  error codes. \<open>hs_error\<close> is the function through which every failing operation of the library
  returns, so its contract (it returns its code and logs exactly when the code is not masked) is
  stated as a locale that the device theories use.
\<close>

section \<open>Levels and error codes\<close>

datatype hs_log_level = HS_LOG_DEBUG | HS_LOG_WARNING | HS_LOG_ERROR

datatype hs_error_code =
    HS_ERROR_MEMORY
  | HS_ERROR_NOT_FOUND
  | HS_ERROR_ACCESS
  | HS_ERROR_IO
  | HS_ERROR_SYSTEM
  | HS_ERROR_INVALID

text \<open>The values of the enumeration constants.\<close>

fun err_val :: "hs_error_code \<Rightarrow> int" where
  "err_val HS_ERROR_MEMORY = -1"
| "err_val HS_ERROR_NOT_FOUND = -2"
| "err_val HS_ERROR_ACCESS = -3"
| "err_val HS_ERROR_IO = -4"
| "err_val HS_ERROR_SYSTEM = -5"
| "err_val HS_ERROR_INVALID = -6"

definition HS_VERSION :: uint32 where
  "HS_VERSION = 900"

definition HS_VERSION_STRING :: string where
  "HS_VERSION_STRING = ''0.9.0''"

definition hs_version :: uint32 where
  "hs_version = HS_VERSION"

definition hs_version_string :: string where
  "hs_version_string = HS_VERSION_STRING"

definition generic_message :: "int \<Rightarrow> string" where
  "generic_message err =
     (if err \<ge> 0 then ''Success''
      else if err = err_val HS_ERROR_MEMORY then ''Memory error''
      else if err = err_val HS_ERROR_NOT_FOUND then ''Not found''
      else if err = err_val HS_ERROR_ACCESS then ''Permission error''
      else if err = err_val HS_ERROR_IO then ''I/O error''
      else if err = err_val HS_ERROR_SYSTEM then ''System error''
      else if err = err_val HS_ERROR_INVALID then ''Invalid data error''
      else ''Unknown error'')"

section \<open>State of the log\<close>

text \<open>
  What leaves the library through a log call: a line on stderr (the default handler) or a call
  of the user's handler with the level, the formatted message and the registered user data.
\<close>

datatype log_event =
    Stderr string
  | Handler_call fptr hs_log_level string udata

text \<open>
  \<open>handler\<close> is \<open>None\<close> for \<open>default_handler\<close>. \<open>mask\<close> is the static array of 32 codes with its fill
  count; \<open>env_debug\<close> is whether \<open>getenv("LIBHS_DEBUG")\<close> is set; \<open>out\<close> is everything logged so far,
  oldest first.
\<close>

record log_state =
  handler :: "fptr option"
  handler_udata :: udata
  mask :: "int list"
  mask_count :: nat
  env_debug :: bool
  out :: "log_event list"

definition init_log :: "bool \<Rightarrow> log_state" where
  "init_log debug = \<lparr>handler = None, handler_udata = 0, mask = replicate 32 0, mask_count = 0,
     env_debug = debug, out = []\<rparr>"

definition default_handler :: "hs_log_level \<Rightarrow> string \<Rightarrow> log_state \<Rightarrow> log_state" where
  "default_handler level msg L =
     (if level = HS_LOG_DEBUG \<and> \<not> env_debug L then L
      else L\<lparr>out := out L @ [Stderr (msg @ [CHR 0x0A])]\<rparr>)"

definition hs_log_redirect :: "fptr option \<Rightarrow> udata \<Rightarrow> log_state \<Rightarrow> log_state" where
  "hs_log_redirect f u L =
     (case f of
        Some p \<Rightarrow> L\<lparr>handler := Some p, handler_udata := u\<rparr>
      | None \<Rightarrow> L\<lparr>handler := None, handler_udata := 0\<rparr>)"

definition hs_error_mask :: "hs_error_code \<Rightarrow> log_state \<Rightarrow> log_state option" where
  "hs_error_mask err L = do {
     c_assert (mask_count L < length (mask L));
     Some (L\<lparr>mask := (mask L)[mask_count L := err_val err], mask_count := mask_count L + 1\<rparr>)
   }"

definition hs_error_unmask :: "log_state \<Rightarrow> log_state option" where
  "hs_error_unmask L = do {
     c_assert (mask_count L \<noteq> 0);
     Some (L\<lparr>mask_count := mask_count L - 1\<rparr>)
   }"

text \<open>\<open>logv\<close>: the message is formatted into a 512 byte buffer, so at most 511 characters survive.\<close>

definition logv :: "hs_log_level \<Rightarrow> string \<Rightarrow> log_state \<Rightarrow> log_state" where
  "logv level msg L =
     (let buf = take 511 msg in
      case handler L of
        None \<Rightarrow> default_handler level buf L
      | Some f \<Rightarrow> L\<lparr>out := out L @ [Handler_call f level buf (handler_udata L)]\<rparr>)"

definition hs_log :: "hs_log_level \<Rightarrow> string \<Rightarrow> log_state \<Rightarrow> log_state" where
  "hs_log level msg L = logv level msg L"

text \<open>The loop of \<open>hs_error\<close> over the mask, from index \<open>i\<close> on.\<close>

function mask_scan :: "int list \<Rightarrow> nat \<Rightarrow> nat \<Rightarrow> int \<Rightarrow> bool" where
  "mask_scan msk n i err =
     (if i < n then (if msk ! i = err then True else mask_scan msk n (Suc i) err) else False)"
  by pat_completeness auto
termination
  by (relation "measure (\<lambda>(msk, n, i, err). n - i)") auto

declare mask_scan.simps [simp del]

definition hs_error :: "hs_error_code \<Rightarrow> string option \<Rightarrow> log_state \<Rightarrow> int \<times> log_state" where
  "hs_error err msg L =
     (if mask_scan (mask L) (mask_count L) 0 (err_val err) then (err_val err, L)
      else (case msg of
              Some m \<Rightarrow> (err_val err, logv HS_LOG_ERROR m L)
            | None \<Rightarrow> (err_val err, hs_log HS_LOG_ERROR (generic_message (err_val err)) L)))"

section \<open>Lemmas\<close>

lemma err_val_neg [simp]: "err_val e < 0"
  by (cases e) simp_all

lemma err_val_range: "-6 \<le> err_val e \<and> err_val e \<le> -1"
  by (cases e) simp_all

lemma err_val_inject [simp]: "err_val e = err_val f \<longleftrightarrow> e = f"
  by (cases e; cases f) simp_all

lemma mask_scan_iff: "mask_scan msk n i err \<longleftrightarrow> (\<exists>k. i \<le> k \<and> k < n \<and> msk ! k = err)"
proof (induction msk n i err rule: mask_scan.induct)
  case (1 msk n i err)
  show ?case
  proof (cases "i < n \<and> msk ! i \<noteq> err")
    case True
    with 1 have "mask_scan msk n i err \<longleftrightarrow> (\<exists>k. Suc i \<le> k \<and> k < n \<and> msk ! k = err)"
      by (simp add: mask_scan.simps [of msk n i])
    also have "\<dots> \<longleftrightarrow> (\<exists>k. i \<le> k \<and> k < n \<and> msk ! k = err)"
      using True by (metis Suc_leD Suc_leI le_neq_implies_less)
    finally show ?thesis .
  next
    case False
    then show ?thesis by (auto simp: mask_scan.simps [of msk n i])
  qed
qed

text \<open>The codes that are masked, most recent last, and the invariant of the static array.\<close>

definition masked_codes :: "log_state \<Rightarrow> int list" where
  "masked_codes L = take (mask_count L) (mask L)"

definition log_inv :: "log_state \<Rightarrow> bool" where
  "log_inv L \<longleftrightarrow> length (mask L) = 32 \<and> mask_count L \<le> 32"

lemma mask_scan_masked:
  assumes "log_inv L"
  shows "mask_scan (mask L) (mask_count L) 0 err \<longleftrightarrow> err \<in> set (masked_codes L)"
  using assms by (auto simp: mask_scan_iff masked_codes_def log_inv_def in_set_conv_nth)

lemma init_log_inv [simp]: "log_inv (init_log d)"
  by (simp add: log_inv_def init_log_def)

lemma logv_frame [simp, frame_simps]:
  "mask (logv lv m L) = mask L" "mask_count (logv lv m L) = mask_count L"
  "handler (logv lv m L) = handler L" "handler_udata (logv lv m L) = handler_udata L"
  by (simp_all add: logv_def default_handler_def Let_def split: option.splits)

lemma hs_log_frame [simp, frame_simps]:
  "mask (hs_log lv m L) = mask L" "mask_count (hs_log lv m L) = mask_count L"
  by (simp_all add: hs_log_def)

lemma hs_error_code [simp]: "fst (hs_error e m L) = err_val e"
  by (simp add: hs_error_def split: option.splits)

lemma hs_error_frame [simp, frame_simps]:
  "mask (snd (hs_error e m L)) = mask L" "mask_count (snd (hs_error e m L)) = mask_count L"
  by (simp_all add: hs_error_def split: option.splits)

lemma hs_error_inv: "log_inv (snd (hs_error e m L)) = log_inv L"
  by (simp add: log_inv_def)

lemma hs_log_inv: "log_inv (hs_log lv m L) = log_inv L"
  by (simp add: log_inv_def)

lemma out_logv_error:
  "out (logv HS_LOG_ERROR m L) = out L @
     [case handler L of None \<Rightarrow> Stderr (take 511 m @ [CHR 0x0A])
      | Some f \<Rightarrow> Handler_call f HS_LOG_ERROR (take 511 m) (handler_udata L)]"
  by (simp add: logv_def default_handler_def Let_def split: option.splits)

lemma hs_error_mask_Some:
  "log_inv L \<Longrightarrow> mask_count L < 32 \<Longrightarrow>
     hs_error_mask e L = Some (L\<lparr>mask := (mask L)[mask_count L := err_val e],
                                 mask_count := mask_count L + 1\<rparr>)"
  by (simp add: hs_error_mask_def log_inv_def)

lemma hs_error_mask_inv: "hs_error_mask e L = Some L' \<Longrightarrow> log_inv L \<Longrightarrow> log_inv L'"
  by (auto simp: hs_error_mask_def log_inv_def bind_c_assert split: if_splits)

lemma hs_error_unmask_inv: "hs_error_unmask L = Some L' \<Longrightarrow> log_inv L \<Longrightarrow> log_inv L'"
  by (auto simp: hs_error_unmask_def log_inv_def bind_c_assert split: if_splits)

lemma masked_codes_mask:
  assumes "log_inv L" and "hs_error_mask e L = Some L'"
  shows "masked_codes L' = masked_codes L @ [err_val e]"
  using assms
  by (auto simp: hs_error_mask_def log_inv_def masked_codes_def bind_c_assert take_Suc_conv_app_nth
      split: if_splits)

lemma masked_codes_unmask:
  assumes "log_inv L" and "hs_error_unmask L = Some L'"
  shows "masked_codes L' = butlast (masked_codes L)"
  using assms
  by (auto simp: hs_error_unmask_def log_inv_def masked_codes_def bind_c_assert butlast_take
      split: if_splits)

section \<open>The contract of masking\<close>

text \<open>
  What the callers of \<open>hs_error_mask\<close> rely on: the masked codes form a stack, and an error whose
  code is on it is returned without a message.
\<close>

locale error_masking =
  fixes valid :: "'l \<Rightarrow> bool"
    and codes :: "'l \<Rightarrow> int list"
    and put_mask :: "hs_error_code \<Rightarrow> 'l \<Rightarrow> 'l option"
    and pop_mask :: "'l \<Rightarrow> 'l option"
    and report :: "hs_error_code \<Rightarrow> string option \<Rightarrow> 'l \<Rightarrow> int \<times> 'l"
    and emitted :: "'l \<Rightarrow> 'e list"
  assumes put_mask_codes: "valid l \<Longrightarrow> put_mask e l = Some l' \<Longrightarrow>
      valid l' \<and> codes l' = codes l @ [err_val e] \<and> emitted l' = emitted l"
    and pop_mask_codes: "valid l \<Longrightarrow> codes l \<noteq> [] \<Longrightarrow>
      \<exists>l'. pop_mask l = Some l' \<and> valid l' \<and> codes l' = butlast (codes l) \<and> emitted l' = emitted l"
    and report_code: "valid l \<Longrightarrow> fst (report e m l) = err_val e \<and> valid (snd (report e m l)) \<and>
      codes (snd (report e m l)) = codes l"
    and report_masked: "valid l \<Longrightarrow> err_val e \<in> set (codes l) \<Longrightarrow> emitted (snd (report e m l)) = emitted l"
begin

text \<open>Any number of reports of the masked code between mask and unmask leaves no trace.\<close>

fun report_all :: "(hs_error_code \<times> string option) list \<Rightarrow> 'l \<Rightarrow> 'l" where
  "report_all [] l = l"
| "report_all ((e, m) # es) l = report_all es (snd (report e m l))"

lemma report_all_masked:
  "valid l \<Longrightarrow> \<forall>(e, m) \<in> set es. err_val e \<in> set (codes l) \<Longrightarrow>
     valid (report_all es l) \<and> codes (report_all es l) = codes l \<and> emitted (report_all es l) = emitted l"
proof (induction es arbitrary: l)
  case (Cons em es)
  obtain e m where em: "em = (e, m)" by (cases em)
  let ?l = "snd (report e m l)"
  have "valid ?l" "codes ?l = codes l" "emitted ?l = emitted l"
    using Cons.prems em report_code [of l e m] report_masked [of l e m] by auto
  with Cons.IH [of ?l] Cons.prems em show ?case by simp
qed simp

lemma masked_region:
  assumes "valid l" and "put_mask e l = Some l1" and "\<forall>(e', m) \<in> set es. e' = e"
  shows "\<exists>l2. pop_mask (report_all es l1) = Some l2 \<and> valid l2 \<and> codes l2 = codes l \<and> emitted l2 = emitted l"
proof -
  have l1: "valid l1" "codes l1 = codes l @ [err_val e]" "emitted l1 = emitted l"
    using put_mask_codes [OF assms(1,2)] by simp_all
  moreover have "\<forall>(e', m) \<in> set es. err_val e' \<in> set (codes l1)" using assms(3) l1(2) by auto
  ultimately have r: "valid (report_all es l1)" "codes (report_all es l1) = codes l @ [err_val e]"
      "emitted (report_all es l1) = emitted l"
    using report_all_masked [of l1 es] by simp_all
  then show ?thesis using pop_mask_codes [of "report_all es l1"] by auto
qed

end

lemma mask_nonempty: "log_inv L \<Longrightarrow> masked_codes L \<noteq> [] \<longleftrightarrow> mask_count L \<noteq> 0"
  by (auto simp: masked_codes_def log_inv_def)

interpretation masking: error_masking log_inv masked_codes hs_error_mask hs_error_unmask hs_error out
proof unfold_locales
  fix l e l' assume "log_inv l" "hs_error_mask e l = Some l'"
  then show "log_inv l' \<and> masked_codes l' = masked_codes l @ [err_val e] \<and> out l' = out l"
    using hs_error_mask_inv masked_codes_mask
    by (auto simp: hs_error_mask_def bind_c_assert split: if_splits)
next
  fix l assume l: "log_inv l" "masked_codes l \<noteq> []"
  then have "hs_error_unmask l = Some (l\<lparr>mask_count := mask_count l - 1\<rparr>)"
    by (simp add: mask_nonempty hs_error_unmask_def)
  with hs_error_unmask_inv [OF this l(1)] masked_codes_unmask [OF l(1) this]
  show "\<exists>l'. hs_error_unmask l = Some l' \<and> log_inv l' \<and> masked_codes l' = butlast (masked_codes l) \<and> out l' = out l"
    by simp
next
  fix l e m assume "log_inv l"
  then show "fst (hs_error e m l) = err_val e \<and> log_inv (snd (hs_error e m l)) \<and>
      masked_codes (snd (hs_error e m l)) = masked_codes l"
    by (simp add: hs_error_inv masked_codes_def)
next
  fix l e m assume "log_inv l" "err_val e \<in> set (masked_codes l)"
  then show "out (snd (hs_error e m l)) = out l" by (simp add: hs_error_def mask_scan_masked)
qed

section \<open>Properties\<close>

text \<open>
  \<open>hs_error\<close> returns its own code, leaves handler and mask alone, and emits exactly one line or
  handler call (the message, or the generic text of the code, cut to 511 characters) unless the code
  is masked, when it emits nothing.
\<close>

theorem hs_error_contract:
  assumes "log_inv L"
  shows "hs_error e msg L =
     (err_val e,
      if err_val e \<in> set (masked_codes L) then L
      else L\<lparr>out := out L @
        (let t = take 511 (case msg of Some m \<Rightarrow> m | None \<Rightarrow> generic_message (err_val e)) in
         [case handler L of None \<Rightarrow> Stderr (t @ [CHR 0x0A])
          | Some f \<Rightarrow> Handler_call f HS_LOG_ERROR t (handler_udata L)])\<rparr>)"
  using assms
  by (simp add: hs_error_def mask_scan_masked hs_log_def logv_def default_handler_def Let_def split: option.splits)

theorem hs_error_contract_witness:
  "hs_error HS_ERROR_IO None (init_log False) =
     (-4, (init_log False)\<lparr>out := [Stderr (''I/O error'' @ [CHR 0x0A])]\<rparr>)"
  using hs_error_contract [OF init_log_inv [of False], of HS_ERROR_IO None]
  by (simp add: init_log_def masked_codes_def generic_message_def)

text \<open>
  Masking is a stack discipline: between \<open>hs_error_mask\<close> and \<open>hs_error_unmask\<close> any number of
  errors with the masked code are silent, and the unmask (always defined there) restores the masked
  codes and the output of before.
\<close>

theorem masked_errors_are_silent:
  assumes "log_inv L" and "mask_count L < 32"
  shows "\<exists>L1 L2. hs_error_mask e L = Some L1 \<and>
     hs_error_unmask (foldl (\<lambda>L m. snd (hs_error e m L)) L1 msgs) = Some L2 \<and>
     masked_codes L2 = masked_codes L \<and> out L2 = out L \<and> log_inv L2"
proof -
  obtain L1 where L1: "hs_error_mask e L = Some L1" using hs_error_mask_Some [OF assms] by blast
  have "masking.report_all (map (Pair e) ms) L = foldl (\<lambda>L m. snd (hs_error e m L)) L ms" for ms L
    by (induction ms arbitrary: L) simp_all
  with masking.masked_region [OF assms(1) L1, of "map (Pair e) msgs"] L1 show ?thesis by auto
qed

theorem masked_errors_are_silent_witness:
  "\<exists>L1 L2. hs_error_mask HS_ERROR_IO (init_log False) = Some L1 \<and>
     hs_error_unmask (foldl (\<lambda>L m. snd (hs_error HS_ERROR_IO m L)) L1 [None, Some ''x'']) = Some L2 \<and>
     masked_codes L2 = [] \<and> out L2 = [] \<and> log_inv L2"
  using masked_errors_are_silent [OF init_log_inv [of False], of HS_ERROR_IO "[None, Some ''x'']"]
  by (simp add: init_log_def masked_codes_def)

end
