(* ===== verification/Iteration.thy ===== *)
theory Iteration
  imports Prelude
begin

text \<open>
  The shape shared by the iteration macros of \<open>list.h\<close> and \<open>htable.h\<close>: a walk along \<open>next\<close>
  pointers from a head back to itself that reads the successor of the current node before it
  runs the body. The theorem of this theory says when such a walk is the plain iteration over the
  sequence of nodes: when the body leaves the nodes still to come chained to the head. Unlinking
  or freeing the current node is allowed, unlinking the next one is not.
\<close>

text \<open>What the body of a loop does next: go on, \<open>break\<close>, or \<open>return\<close> from the function.\<close>

datatype 'r flow = Continue | Break | Return 'r

text \<open>
  The loop \<open>for (...; cur != head; cur = next, next = cur->next)\<close>. \<open>nx\<close> selects the map of the
  \<open>next\<close> fields from the state; the value of \<open>cur\<close> at the exit is part of the result.
\<close>

partial_function (option) ring_loop ::
  "('s \<Rightarrow> addr \<Rightarrow> addr option) \<Rightarrow> (addr \<Rightarrow> 's \<Rightarrow> ('r flow \<times> 's) option) \<Rightarrow> addr \<Rightarrow> addr \<Rightarrow> addr
     \<Rightarrow> 's \<Rightarrow> (addr \<times> 'r flow \<times> 's) option" where
  "ring_loop nx body head cur nxt s =
     (if cur = head then Some (cur, Continue, s)
      else do {
        (fl, s) \<leftarrow> body cur s;
        case fl of
          Continue \<Rightarrow> do {
            nn \<leftarrow> nx s nxt;
            ring_loop nx body head nxt nn s
          }
        | Break \<Rightarrow> Some (cur, Break, s)
        | Return r \<Rightarrow> Some (cur, Return r, s)
      })"

text \<open>The iteration it implements.\<close>

fun flow_fold ::
  "(addr \<Rightarrow> 's \<Rightarrow> ('r flow \<times> 's) option) \<Rightarrow> addr \<Rightarrow> addr list \<Rightarrow> 's
     \<Rightarrow> (addr \<times> 'r flow \<times> 's) option" where
  "flow_fold body h [] s = Some (h, Continue, s)"
| "flow_fold body h (x # xs) s = do {
     (fl, s) \<leftarrow> body x s;
     case fl of
       Continue \<Rightarrow> flow_fold body h xs s
     | Break \<Rightarrow> Some (x, Break, s)
     | Return r \<Rightarrow> Some (x, Return r, s)
   }"

definition chain :: "(addr \<Rightarrow> addr option) \<Rightarrow> addr list \<Rightarrow> addr \<Rightarrow> bool" where
  "chain nx xs h \<longleftrightarrow> successively (\<lambda>p q. nx p = Some q) (xs @ [h]) \<and> h \<notin> set xs \<and> nx h \<noteq> None"

lemma chain_Nil [seg_simps]: "chain nx [] h \<longleftrightarrow> nx h \<noteq> None"
  by (simp add: chain_def)

lemma chain_Cons [seg_simps]:
  "chain nx (x # xs) h \<longleftrightarrow> x \<noteq> h \<and> nx x = Some (hd (xs @ [h])) \<and> chain nx xs h"
  by (cases xs) (auto simp: chain_def)

lemma chain_append: "chain nx (xs @ ys) h \<Longrightarrow> chain nx ys h"
  by (induction xs) (auto simp: seg_simps)

lemma chain_cong:
  assumes "\<And>x. x \<in> set (h # xs) \<Longrightarrow> nx' x = nx x"
  shows "chain nx' xs h = chain nx xs h"
  using assms by (induction xs) (auto simp: seg_simps)

theorem ring_loop_fold:
  assumes step: "\<And>x rest s s'. I (x # rest) s \<Longrightarrow> body x s = Some (Continue, s') \<Longrightarrow> I rest s'"
    and chn: "\<And>rest s. I rest s \<Longrightarrow> chain (nx s) rest h"
  shows "I xs s \<Longrightarrow> (xs \<noteq> [] \<Longrightarrow> nxt = hd (tl xs @ [h])) \<Longrightarrow>
     ring_loop nx body h (hd (xs @ [h])) nxt s = flow_fold body h xs s"
proof (induction xs arbitrary: s nxt)
  case Nil
  then show ?case by (simp add: ring_loop.simps)
next
  case (Cons x xs)
  have "x \<noteq> h" using chn [OF Cons.prems(1)] by (simp add: seg_simps)
  have nxt: "nxt = hd (xs @ [h])" using Cons.prems(2) by simp
  have rec: "(nx s' nxt \<bind> (\<lambda>nn. ring_loop nx body h nxt nn s')) = flow_fold body h xs s'"
    if b: "body x s = Some (Continue, s')" for s'
  proof -
    have i: "I xs s'" using step Cons.prems(1) b by blast
    have "\<exists>nn. nx s' nxt = Some nn \<and> (xs \<noteq> [] \<longrightarrow> nn = hd (tl xs @ [h]))"
      using chn [OF i] nxt by (cases xs) (auto simp: seg_simps)
    then obtain nn where "nx s' nxt = Some nn" and "xs \<noteq> [] \<Longrightarrow> nn = hd (tl xs @ [h])" by blast
    then show ?thesis using Cons.IH [OF i, of nn] nxt by simp
  qed
  show ?case
    using \<open>x \<noteq> h\<close> rec
    by (cases "body x s") (auto simp: ring_loop.simps [of nx body h x] split: flow.splits)
qed

text \<open>Iterations over a list of nodes whose body never stops.\<close>

lemma flow_fold_Continue:
  assumes "\<And>x rest s. I (x # rest) s \<Longrightarrow> \<exists>s'. body x s = Some (Continue, s') \<and> I rest s'"
  shows "I xs s \<Longrightarrow> \<exists>s'. flow_fold body h xs s = Some (h, Continue, s') \<and> I [] s'"
  using assms by (induction xs arbitrary: s) fastforce+

lemma flow_fold_node:
  "flow_fold body h xs s = Some (x, fl, s') \<Longrightarrow> if fl = Continue then x = h else x \<in> set xs"
  by (induction xs arbitrary: s) (fastforce split: flow.splits bind_splits if_splits)+

lemma flow_fold_inv:
  assumes "\<And>x rest s s'. I (x # rest) s \<Longrightarrow> body x s = Some (Continue, s') \<Longrightarrow> I rest s'"
  shows "I xs s \<Longrightarrow> flow_fold body h xs s = Some (x, Continue, s') \<Longrightarrow> I [] s'"
  using assms by (induction xs arbitrary: s) (fastforce split: flow.splits bind_splits)+

lemma flow_fold_append:
  "flow_fold body h (xs @ ys) s =
     do { (x, fl, s) \<leftarrow> flow_fold body h xs s;
          case fl of Continue \<Rightarrow> flow_fold body h ys s | _ \<Rightarrow> Some (x, fl, s) }"
  by (induction xs arbitrary: s) (auto split: flow.splits bind_splits)

lemma flow_fold_end: "map_option snd (flow_fold body h xs s) = map_option snd (flow_fold body h' xs s)"
  by (induction xs arbitrary: s) (auto split: flow.splits bind_splits)

text \<open>What the body preserves, the walk preserves, however the nodes are linked.\<close>

lemma ring_loop_preserves:
  assumes body: "\<And>x s fl s'. body x s = Some (fl, s') \<Longrightarrow> \<phi> s' = \<phi> s"
    and run: "ring_loop nx body head cur nxt s = Some z"
  shows "\<phi> (snd (snd z)) = \<phi> s"
proof -
  have "b = body \<longrightarrow> \<phi> (snd (snd z)) = \<phi> s"
    if "ring_loop nx b head cur nxt s = Some z" for b
  proof (rule ring_loop.raw_induct [where P = "\<lambda>nx b h c n s z. b = body \<longrightarrow> \<phi> (snd (snd z)) = \<phi> s", OF _ that], intro impI)
    fix rec nx b h c n s z
    assume ih: "\<And>nx b h c n s z. rec nx b h c n s = Some z \<Longrightarrow> b = body \<longrightarrow> \<phi> (snd (snd z)) = \<phi> s"
      and "b = body"
      and r: "(if c = h then Some (c, Continue, s)
        else b c s \<bind> (\<lambda>(fl, s). case fl of
            Continue \<Rightarrow> nx s n \<bind> (\<lambda>nn. rec nx b h n nn s)
          | Break \<Rightarrow> Some (c, Break, s) | Return r \<Rightarrow> Some (c, Return r, s))) = Some z"
    show "\<phi> (snd (snd z)) = \<phi> s"
    proof (cases "c = h")
      case False
      with r \<open>b = body\<close> obtain fl s1 where b1: "body c s = Some (fl, s1)"
          "(case fl of Continue \<Rightarrow> nx s1 n \<bind> (\<lambda>nn. rec nx body h n nn s1)
            | Break \<Rightarrow> Some (c, Break, s1) | Return r \<Rightarrow> Some (c, Return r, s1)) = Some z"
        by (auto elim: bind_eq_SomeE)
      have pres: "\<phi> s1 = \<phi> s" by (rule body [OF b1(1)])
      show ?thesis
      proof (cases fl)
        case Continue
        with b1(2) obtain nn where "rec nx body h n nn s1 = Some z" by (auto elim: bind_eq_SomeE)
        from ih [OF this] pres show ?thesis by simp
      qed (use b1(2) pres in auto)
    qed (use r in auto)
  qed
  with run show ?thesis by blast
qed

end
