(* ===== verification/HTable.thy ===== *)
theory HTable
  imports Common Iteration "HOL-Library.Sublist"
begin

text \<open>
  Model of \<open>src/htable.h\<close> and \<open>src/htable.c\<close>, the intrusive hash table in which the monitor keeps
  its devices. A bucket is a singly linked ring through a slot of the \<open>heads\<close> array: the slot is
  used as a node that has a \<open>next\<close> field and no key. The store has one map per field, and the
  slots are addresses \<open>heads\<close>, \<open>heads + 1\<close>, ... counted in pointers, as in the pointer arithmetic
  of \<open>hs_htable_foreach\<close>.

  \<open>htable_rep m t B\<close> says that the table \<open>t\<close> represents the list of buckets \<open>B\<close>. The operations
  refine operations on \<open>B\<close>, and the two iteration macros visit exactly the entries of the table
  and the entries with a given key.
\<close>

section \<open>The store and the table\<close>

record htable_mem =
  h_next :: "addr \<rightharpoonup> addr"
  h_key :: "addr \<rightharpoonup> uint32"

record hs_htable =
  ht_size :: uint32
  ht_heads :: addr

definition set_hnext :: "htable_mem \<Rightarrow> addr \<Rightarrow> addr \<Rightarrow> htable_mem option" where
  "set_hnext m p v =
     (case h_next m p of None \<Rightarrow> None | Some _ \<Rightarrow> Some (m\<lparr>h_next := (h_next m)(p \<mapsto> v)\<rparr>))"

definition set_hkey :: "htable_mem \<Rightarrow> addr \<Rightarrow> uint32 \<Rightarrow> htable_mem option" where
  "set_hkey m p k =
     (case h_key m p of None \<Rightarrow> None | Some _ \<Rightarrow> Some (m\<lparr>h_key := (h_key m)(p \<mapsto> k)\<rparr>))"

text \<open>A structure with an embedded \<open>_hs_htable_head\<close>, from \<open>calloc\<close>; and its release.\<close>

definition hnode_alloc :: "htable_mem \<Rightarrow> addr \<Rightarrow> htable_mem" where
  "hnode_alloc m p = \<lparr>h_next = (h_next m)(p \<mapsto> NULL), h_key = (h_key m)(p \<mapsto> 0)\<rparr>"

definition hnode_free :: "htable_mem \<Rightarrow> addr \<Rightarrow> htable_mem" where
  "hnode_free m p = \<lparr>h_next = (h_next m)(p := None), h_key = (h_key m)(p := None)\<rparr>"

text \<open>The \<open>heads\<close> array: \<open>n\<close> slots at \<open>p\<close>.\<close>

definition slots_alloc :: "htable_mem \<Rightarrow> addr \<Rightarrow> nat \<Rightarrow> htable_mem" where
  "slots_alloc m p n =
     m\<lparr>h_next := (\<lambda>a. if p \<le> a \<and> a < p + n then Some NULL else h_next m a)\<rparr>"

definition slots_free :: "htable_mem \<Rightarrow> addr \<Rightarrow> nat \<Rightarrow> htable_mem" where
  "slots_free m p n =
     m\<lparr>h_next := (\<lambda>a. if p \<le> a \<and> a < p + n then None else h_next m a)\<rparr>"

section \<open>Operations\<close>

function hs_htable_clear_from :: "hs_htable \<Rightarrow> nat \<Rightarrow> htable_mem \<Rightarrow> htable_mem option" where
  "hs_htable_clear_from t i m =
     (if i < unat (ht_size t)
      then do {
        m \<leftarrow> set_hnext m (ht_heads t + i) (ht_heads t + i);
        hs_htable_clear_from t (Suc i) m
      }
      else Some m)"
  by pat_completeness auto
termination
  by (relation "measure (\<lambda>(t, i, m). unat (ht_size t) - i)") auto

declare hs_htable_clear_from.simps [simp del]

definition hs_htable_clear :: "hs_htable \<Rightarrow> htable_mem \<Rightarrow> htable_mem option" where
  "hs_htable_clear t m = hs_htable_clear_from t 0 m"

text \<open>
  \<open>_hs_htable_init\<close>; \<open>p\<close> is what \<open>malloc\<close> returns for the array, null when it fails. The result is
  the returned code with the table, the store and the log.
\<close>

definition hs_htable_init ::
  "addr \<Rightarrow> hs_htable \<Rightarrow> uint32 \<Rightarrow> htable_mem \<Rightarrow> log_state
     \<Rightarrow> (int \<times> hs_htable \<times> htable_mem \<times> log_state) option" where
  "hs_htable_init p t sz m L =
     (let t = t\<lparr>ht_heads := p\<rparr> in
      if p = NULL then
        (let (r, L) = hs_error HS_ERROR_MEMORY None L in Some (r, t, m, L))
      else do {
        let t = t\<lparr>ht_size := sz\<rparr>;
        m \<leftarrow> hs_htable_clear t (slots_alloc m p (unat sz));
        Some (0, t, m, L)
      })"

definition hs_htable_release :: "hs_htable \<Rightarrow> htable_mem \<Rightarrow> htable_mem" where
  "hs_htable_release t m =
     (if ht_heads t = NULL then m else slots_free m (ht_heads t) (unat (ht_size t)))"

definition hs_htable_get_head :: "hs_htable \<Rightarrow> uint32 \<Rightarrow> addr option" where
  "hs_htable_get_head t key = do {
     c_assert (ht_size t \<noteq> 0);
     Some (ht_heads t + unat (key mod ht_size t))
   }"

definition hs_htable_add :: "hs_htable \<Rightarrow> uint32 \<Rightarrow> addr \<Rightarrow> htable_mem \<Rightarrow> htable_mem option" where
  "hs_htable_add t key n m = do {
     head \<leftarrow> hs_htable_get_head t key;
     m \<leftarrow> set_hkey m n key;
     nx \<leftarrow> h_next m head;
     m \<leftarrow> set_hnext m n nx;
     set_hnext m head n
   }"

definition hs_htable_insert :: "addr \<Rightarrow> addr \<Rightarrow> htable_mem \<Rightarrow> htable_mem option" where
  "hs_htable_insert prv n m = do {
     k \<leftarrow> h_key m prv;
     m \<leftarrow> set_hkey m n k;
     nx \<leftarrow> h_next m prv;
     m \<leftarrow> set_hnext m n nx;
     set_hnext m prv n
   }"

text \<open>The loop of \<open>_hs_htable_remove\<close> around the ring, looking for the predecessor.\<close>

partial_function (option) htable_remove_loop :: "addr \<Rightarrow> addr \<Rightarrow> htable_mem \<Rightarrow> htable_mem option"
where
  "htable_remove_loop head prv m =
     (if prv = head then Some m
      else do {
        pn \<leftarrow> h_next m prv;
        if pn = head then do {
          hn \<leftarrow> h_next m head;
          m \<leftarrow> set_hnext m prv hn;
          set_hnext m head NULL
        }
        else htable_remove_loop head pn m
      })"

definition hs_htable_remove :: "addr \<Rightarrow> htable_mem \<Rightarrow> htable_mem option" where
  "hs_htable_remove head m = do {
     prv \<leftarrow> h_next m head;
     htable_remove_loop head prv m
   }"

text \<open>Hash functions. A C string is the list of its characters without the terminator.\<close>

fun hash_str_from :: "uint32 \<Rightarrow> string \<Rightarrow> uint32" where
  "hash_str_from hash [] = hash"
| "hash_str_from hash (c # s) = hash_str_from (hash * 101 + of_nat (of_char c)) s"

definition hs_htable_hash_str :: "string \<Rightarrow> uint32" where
  "hs_htable_hash_str s = hash_str_from 0 s"

definition hs_htable_hash_ptr :: "uint64 \<Rightarrow> uint32" where
  "hs_htable_hash_ptr p = ucast (drop_bit 3 p)"

text \<open>
  \<open>hs_htable_foreach_hash\<close>: the guard on the size, the ring of the bucket, and the test of the
  key before the body. \<open>mem\<close> selects the store of the caller's state.
\<close>

definition hash_filter ::
  "('s \<Rightarrow> htable_mem) \<Rightarrow> uint32 \<Rightarrow> (addr \<Rightarrow> 's \<Rightarrow> ('r flow \<times> 's) option) \<Rightarrow> addr \<Rightarrow> 's
     \<Rightarrow> ('r flow \<times> 's) option" where
  "hash_filter mem k body cur s = do {
     ck \<leftarrow> h_key (mem s) cur;
     if ck = k then body cur s else Some (Continue, s)
   }"

definition hs_htable_foreach_hash ::
  "('s \<Rightarrow> htable_mem) \<Rightarrow> hs_htable \<Rightarrow> uint32 \<Rightarrow> (addr \<Rightarrow> 's \<Rightarrow> ('r flow \<times> 's) option) \<Rightarrow> 's
     \<Rightarrow> ('r flow \<times> 's) option" where
  "hs_htable_foreach_hash mem t k body s =
     (if ht_size t = 0 then Some (Continue, s)
      else do {
        head \<leftarrow> hs_htable_get_head t k;
        cur \<leftarrow> h_next (mem s) head;
        nxt \<leftarrow> h_next (mem s) cur;
        (cur, fl, s) \<leftarrow>
          ring_loop (\<lambda>s. h_next (mem s)) (hash_filter mem k body) head cur nxt s;
        Some (fl, s)
      })"

text \<open>
  \<open>hs_htable_foreach\<close>. The outer loop walks the slots with \<open>head\<close>, and \<open>cur\<close> follows it; its
  test compares the two, which is how a \<open>break\<close> out of the inner loop ends the outer one too.
\<close>

partial_function (option) htable_outer ::
  "('s \<Rightarrow> htable_mem) \<Rightarrow> hs_htable \<Rightarrow> (addr \<Rightarrow> 's \<Rightarrow> ('r flow \<times> 's) option) \<Rightarrow> addr \<Rightarrow> addr \<Rightarrow> 's
     \<Rightarrow> ('r flow \<times> 's) option" where
  "htable_outer mem t body head cur s =
     (if cur = head \<and> head < ht_heads t + unat (ht_size t)
      then do {
        cur \<leftarrow> h_next (mem s) cur;
        nxt \<leftarrow> h_next (mem s) cur;
        (cur, fl, s) \<leftarrow> ring_loop (\<lambda>s. h_next (mem s)) body head cur nxt s;
        case fl of
          Return r \<Rightarrow> Some (Return r, s)
        | Break \<Rightarrow> htable_outer mem t body (head + 1) (cur + 1) s
        | Continue \<Rightarrow> htable_outer mem t body (head + 1) (cur + 1) s
      }
      else Some (Continue, s))"

definition hs_htable_foreach ::
  "('s \<Rightarrow> htable_mem) \<Rightarrow> hs_htable \<Rightarrow> (addr \<Rightarrow> 's \<Rightarrow> ('r flow \<times> 's) option) \<Rightarrow> 's
     \<Rightarrow> ('r flow \<times> 's) option" where
  "hs_htable_foreach mem t body s = htable_outer mem t body (ht_heads t) (ht_heads t) s"

section \<open>Representation\<close>

abbreviation hlinks :: "htable_mem \<Rightarrow> addr list \<Rightarrow> bool" where
  "hlinks m zs \<equiv> successively (\<lambda>p q. h_next m p = Some q) zs"

definition hring :: "htable_mem \<Rightarrow> addr \<Rightarrow> addr list \<Rightarrow> bool" where
  "hring m h xs \<longleftrightarrow> hlinks m (h # xs @ [h]) \<and> distinct (h # xs)"

definition slots :: "hs_htable \<Rightarrow> addr set" where
  "slots t = {ht_heads t ..< ht_heads t + unat (ht_size t)}"

definition bucket_of :: "hs_htable \<Rightarrow> uint32 \<Rightarrow> nat" where
  "bucket_of t k = unat (k mod ht_size t)"

definition htable_rep :: "htable_mem \<Rightarrow> hs_htable \<Rightarrow> addr list list \<Rightarrow> bool" where
  "htable_rep m t B \<longleftrightarrow>
     length B = unat (ht_size t) \<and> ht_size t \<noteq> 0 \<and> ht_heads t \<noteq> NULL \<and>
     (\<forall>i < length B. hring m (ht_heads t + i) (B ! i) \<and>
        (\<forall>x \<in> set (B ! i). x \<noteq> NULL \<and> x \<notin> slots t \<and>
           (\<exists>k. h_key m x = Some k \<and> bucket_of t k = i)))"

lemma hlinks_cong:
  assumes "\<And>x. x \<in> set (butlast zs) \<Longrightarrow> h_next m' x = h_next m x"
  shows "hlinks m' zs = hlinks m zs"
  using assms by (induction zs rule: induct_list012) auto

lemma hring_split:
  "hring m h (xs @ ys) \<longleftrightarrow>
     hlinks m (h # xs) \<and> hlinks m (ys @ [h]) \<and>
     h_next m (last (h # xs)) = Some (hd (ys @ [h])) \<and> distinct (h # xs @ ys)"
  using successively_append_iff [of "\<lambda>p q. h_next m p = Some q" "h # xs" "ys @ [h]"]
  by (auto simp: hring_def)

lemma hring_next_head: "hring m h xs \<Longrightarrow> h_next m h = Some (hd (xs @ [h]))"
  using hring_split [of m h "[]" xs] by simp

lemma hring_next_node: "hring m h (xs @ x # ys) \<Longrightarrow> h_next m x = Some (hd (ys @ [h]))"
  using hring_split [of m h "xs @ [x]" ys] by simp

lemma hring_chain: "hring m h (ds @ xs) \<Longrightarrow> chain (h_next m) xs h"
  unfolding chain_def using hring_split [of m h ds xs]
  by (auto simp: hring_next_head)

lemma hring_distinct: "hring m h xs \<Longrightarrow> distinct xs \<and> h \<notin> set xs"
  by (simp add: hring_def)

lemma hring_cong:
  assumes "\<And>x. x \<in> set (h # xs) \<Longrightarrow> h_next m' x = h_next m x"
  shows "hring m' h xs = hring m h xs"
proof -
  have "hlinks m' (h # xs @ [h]) = hlinks m (h # xs @ [h])"
    using assms by (intro hlinks_cong) (auto dest!: in_set_butlastD)
  then show ?thesis by (simp only: hring_def)
qed

lemma hring_relink:
  assumes old: "hlinks m (h # xs)" "hlinks m (ys @ [h])" and d: "distinct (h # xs @ ys)"
    and joint: "h_next m' (last (h # xs)) = Some (hd (ys @ [h]))"
    and nxt: "\<And>a. a \<in> set (h # xs @ ys) \<Longrightarrow> a \<noteq> last (h # xs) \<Longrightarrow> h_next m' a = h_next m a"
  shows "hring m' h (xs @ ys)"
proof -
  have pin: "last (h # xs) \<in> set (h # xs)" by (rule last_in_Cons)
  have "hlinks m' (h # xs) = hlinks m (h # xs)"
  proof (rule hlinks_cong)
    fix x assume x: "x \<in> set (butlast (h # xs))"
    have "distinct (h # xs)" using d by simp
    then have "x \<noteq> last (h # xs)"
      using x by (metis append_butlast_last_id distinct_butlast list.distinct(1)
          not_distinct_conv_prefix)
    then show "h_next m' x = h_next m x" using in_set_butlastD [OF x] by (intro nxt) auto
  qed
  moreover have "hlinks m' (ys @ [h]) = hlinks m (ys @ [h])"
    using d pin by (intro hlinks_cong nxt) auto
  ultimately show ?thesis using old joint d unfolding hring_split by blast
qed

lemma slotsI: "i < unat (ht_size t) \<Longrightarrow> ht_heads t + i \<in> slots t"
  by (simp add: slots_def)

lemma bucket_of_less: "ht_size t \<noteq> 0 \<Longrightarrow> bucket_of t k < unat (ht_size t)"
  unfolding bucket_of_def by (simp add: word_mod_less_divisor unat_mono word_neq_0_conv)

lemma hs_htable_get_head_Some:
  "ht_size t \<noteq> 0 \<Longrightarrow> hs_htable_get_head t k = Some (ht_heads t + bucket_of t k)"
  by (simp add: hs_htable_get_head_def bucket_of_def)

lemma htable_repD:
  assumes "htable_rep m t B"
  shows "length B = unat (ht_size t)" and "ht_size t \<noteq> 0"
    and "i < length B \<Longrightarrow> hring m (ht_heads t + i) (B ! i)"
    and "i < length B \<Longrightarrow> x \<in> set (B ! i) \<Longrightarrow>
           x \<noteq> NULL \<and> x \<notin> slots t \<and> (\<exists>k. h_key m x = Some k \<and> bucket_of t k = i)"
  using assms unfolding htable_rep_def by blast+

lemma htable_rep_bucket:
  assumes "htable_rep m t B" and "x \<in> set (concat B)"
  obtains i k where "i < length B" and "x \<in> set (B ! i)" and "h_key m x = Some k"
    and "bucket_of t k = i"
  using assms htable_repD(4) by (fastforce simp: in_set_conv_nth [of _ B])

lemma htable_rep_bucket_unique:
  assumes "htable_rep m t B" and "i < length B" and "j < length B"
    and "x \<in> set (B ! i)" and "x \<in> set (B ! j)"
  shows "i = j"
  using htable_repD(4) [OF assms(1,2,4)] htable_repD(4) [OF assms(1,3,5)] by auto

section \<open>Refinement of the operations\<close>

lemma htable_rep_update:
  assumes rep: "htable_rep m t B" and i: "i < length B"
    and ring: "hring m' (ht_heads t + i) ys"
    and ys: "\<And>x. x \<in> set ys \<Longrightarrow> x \<noteq> NULL \<and> x \<notin> slots t \<and> (\<exists>k. h_key m' x = Some k \<and> bucket_of t k = i)"
    and nxt: "\<And>a. a \<noteq> ht_heads t + i \<Longrightarrow> a \<notin> set (B ! i) \<Longrightarrow> a \<notin> set ys \<Longrightarrow> h_next m' a = h_next m a"
    and key: "\<And>j x. j < length B \<Longrightarrow> j \<noteq> i \<Longrightarrow> x \<in> set (B ! j) \<Longrightarrow> h_key m' x = h_key m x"
  shows "htable_rep m' t (B[i := ys])"
proof -
  have other: "hring m' (ht_heads t + j) (B ! j)"
    if j: "j < length B" "j \<noteq> i" for j
  proof -
    have "h_next m' x = h_next m x" if x: "x \<in> set ((ht_heads t + j) # B ! j)" for x
    proof (rule nxt)
      have slot: "ht_heads t + j \<in> slots t"
        using j htable_repD(1) [OF rep] by (intro slotsI) simp
      show "x \<noteq> ht_heads t + i"
        using x j htable_repD(4) [OF rep j(1)] slotsI [of i t] i htable_repD(1) [OF rep] by auto
      show "x \<notin> set (B ! i)"
        using x slot htable_repD(4) [OF rep i] htable_rep_bucket_unique [OF rep j(1) i] j(2) by auto
      show "x \<notin> set ys"
        using x slot ys [of x] key [OF j, of x] htable_repD(4) [OF rep j(1), of x] j(2) by auto
    qed
    then show ?thesis using htable_repD(3) [OF rep j(1)] hring_cong [of _ _ m' m] by blast
  qed
  show ?thesis
    unfolding htable_rep_def
  proof (intro conjI allI impI ballI)
    fix j assume j: "j < length (B[i := ys])"
    show "hring m' (ht_heads t + j) (B[i := ys] ! j)"
      using j i ring other by (cases "j = i") auto
    fix x assume "x \<in> set (B[i := ys] ! j)"
    then have "x \<noteq> NULL \<and> x \<notin> slots t \<and> (\<exists>k. h_key m' x = Some k \<and> bucket_of t k = j)"
      using j i ys key [of j x] htable_repD(4) [OF rep, of j x] by (cases "j = i") auto
    then show "x \<noteq> NULL" "x \<notin> slots t" "\<exists>k. h_key m' x = Some k \<and> bucket_of t k = j" by blast+
  qed (use rep in \<open>simp_all add: htable_rep_def\<close>)
qed

definition hnode_allocated :: "htable_mem \<Rightarrow> addr \<Rightarrow> bool" where
  "hnode_allocated m n \<longleftrightarrow> n \<noteq> NULL \<and> h_next m n \<noteq> None \<and> h_key m n \<noteq> None"

lemma hs_htable_add_rep:
  fixes key :: uint32
  assumes rep: "htable_rep m t B" and n: "hnode_allocated m n" "n \<notin> slots t" "n \<notin> set (concat B)"
  defines "i \<equiv> bucket_of t key"
  shows "\<exists>m'. hs_htable_add t key n m = Some m' \<and> htable_rep m' t (B[i := n # B ! i]) \<and>
           h_key m' = (h_key m)(n \<mapsto> key) \<and>
           (\<forall>a. a \<noteq> n \<longrightarrow> a \<noteq> ht_heads t + i \<longrightarrow> h_next m' a = h_next m a)"
proof -
  let ?h = "ht_heads t + i" and ?q = "hd (B ! i @ [ht_heads t + i])"
  let ?m' = "\<lparr>h_next = (h_next m)(n \<mapsto> ?q, ?h \<mapsto> n), h_key = (h_key m)(n \<mapsto> key)\<rparr>"
  have sz: "ht_size t \<noteq> 0" and i: "i < length B"
    using htable_repD(1,2) [OF rep] bucket_of_less [of t key] by (simp_all add: i_def)
  have ring: "hring m ?h (B ! i)" by (rule htable_repD(3) [OF rep i])
  have slot: "?h \<in> slots t" using i htable_repD(1) [OF rep] by (intro slotsI) simp
  have nB: "n \<notin> set (B ! i)" "n \<noteq> ?h" using n i slot by auto
  have run: "hs_htable_add t key n m = Some ?m'"
    using n sz nB hring_next_head [OF ring]
    by (auto simp: hs_htable_add_def hs_htable_get_head_Some i_def set_hkey_def set_hnext_def
        hnode_allocated_def)
  have "hlinks ?m' (B ! i @ [?h]) = hlinks m (B ! i @ [?h])"
    using nB hring_distinct [OF ring] by (intro hlinks_cong) auto
  moreover have "hlinks m (B ! i @ [?h])"
    using hring_split [of m ?h "[]" "B ! i"] ring by simp
  ultimately have r': "hring ?m' ?h (n # B ! i)"
    using nB hring_distinct [OF ring] by (auto simp: hring_def successively_Cons)
  have "htable_rep ?m' t (B[i := n # B ! i])"
  proof (rule htable_rep_update [OF rep i r'])
    show "x \<noteq> NULL \<and> x \<notin> slots t \<and> (\<exists>k. h_key ?m' x = Some k \<and> bucket_of t k = i)"
      if "x \<in> set (n # B ! i)" for x
      using that n htable_repD(4) [OF rep i] nB by (auto simp: hnode_allocated_def i_def)
    show "h_key ?m' x = h_key m x" if "j < length B" "j \<noteq> i" "x \<in> set (B ! j)" for j x
      using that n by auto
  qed auto
  then show ?thesis using run by (intro exI [of _ ?m']) simp
qed

text \<open>The search for the predecessor, along the ring cut open at the node to remove.\<close>

lemma htable_remove_loop_run:
  assumes "chain (h_next m) (zs @ [p]) n"
  shows "htable_remove_loop n (hd (zs @ [p])) m =
     do { hn \<leftarrow> h_next m n; m \<leftarrow> set_hnext m p hn; set_hnext m n NULL }"
  using assms
proof (induction zs)
  case Nil
  then show ?case by (auto simp: htable_remove_loop.simps [of n p] seg_simps)
next
  case (Cons z zs)
  have "hd (zs @ [p]) \<noteq> n" using Cons.prems by (cases zs) (auto simp: seg_simps)
  moreover have "hd (zs @ [p, n]) = hd (zs @ [p])" by (cases zs) simp_all
  ultimately show ?case using Cons by (auto simp: htable_remove_loop.simps [of n z] seg_simps)
qed

lemma hring_cut:
  assumes r: "hring m h (xs @ n # ys)"
  shows "chain (h_next m) (ys @ h # xs) n"
proof -
  have "hlinks m (h # (xs @ [n]))" "hlinks m (ys @ [h])" "h_next m n \<noteq> None"
    using r hring_split [of m h "xs @ [n]" ys] hring_next_node [OF r] by simp_all
  then have "hlinks m ((ys @ [h]) @ (xs @ [n]))"
    using successively_append_iff [of "\<lambda>p q. h_next m p = Some q" "ys @ [h]" "xs @ [n]"]
    by (auto simp: successively_Cons)
  then show ?thesis using r \<open>h_next m n \<noteq> None\<close> by (auto simp: chain_def hring_def)
qed

lemma hs_htable_remove_ring:
  assumes r: "hring m h (xs @ n # ys)"
  defines "p \<equiv> last (h # xs)" and "q \<equiv> hd (ys @ [h])"
  shows "hs_htable_remove n m = Some (m\<lparr>h_next := (h_next m)(p \<mapsto> q, n \<mapsto> NULL)\<rparr>)"
    and "hring (m\<lparr>h_next := (h_next m)(p \<mapsto> q, n \<mapsto> NULL)\<rparr>) h (xs @ ys)"
proof -
  have d: "distinct (h # xs @ n # ys)" using r by (simp add: hring_def)
  have pin: "p \<in> set (h # xs)" unfolding p_def by (rule last_in_Cons)
  have np: "n \<noteq> p" using pin d by auto
  have nx: "h_next m n = Some q" using hring_next_node [OF r] by (simp add: q_def)
  have "h_next m p = Some n" using r hring_split [of m h xs "n # ys"] by (simp add: p_def)
  define zs where "zs = butlast (ys @ h # xs)"
  have "last (ys @ h # xs) = p" unfolding p_def by (subst last_append) simp
  then have zs: "zs @ [p] = ys @ h # xs"
    unfolding zs_def by (metis append_butlast_last_id append_is_Nil_conv list.distinct(1))
  have "hd (zs @ [p]) = q" unfolding zs q_def by (cases ys) simp_all
  moreover have "htable_remove_loop n (hd (zs @ [p])) m =
      do { hn \<leftarrow> h_next m n; m \<leftarrow> set_hnext m p hn; set_hnext m n NULL }"
    using htable_remove_loop_run hring_cut [OF r] zs by metis
  ultimately show "hs_htable_remove n m = Some (m\<lparr>h_next := (h_next m)(p \<mapsto> q, n \<mapsto> NULL)\<rparr>)"
    using nx np \<open>h_next m p = Some n\<close> by (simp add: hs_htable_remove_def set_hnext_def)
  show "hring (m\<lparr>h_next := (h_next m)(p \<mapsto> q, n \<mapsto> NULL)\<rparr>) h (xs @ ys)"
  proof (rule hring_relink [of m])
    show "hlinks m (h # xs)" using r hring_split by blast
    show "hlinks m (ys @ [h])" using r hring_split [of m h "xs @ [n]" ys] by simp
  qed (use d np in \<open>auto simp: p_def q_def\<close>)
qed

lemma hs_htable_remove_rep:
  assumes rep: "htable_rep m t B" and i: "i < length B" and B: "B ! i = xs @ n # ys"
  shows "\<exists>m'. hs_htable_remove n m = Some m' \<and> htable_rep m' t (B[i := xs @ ys]) \<and>
           h_key m' = h_key m \<and> h_next m' n = Some NULL \<and>
           (\<forall>a. a \<noteq> ht_heads t + i \<longrightarrow> a \<notin> set (B ! i) \<longrightarrow> h_next m' a = h_next m a)"
proof -
  let ?h = "ht_heads t + i"
  let ?m' = "m\<lparr>h_next := (h_next m)(last (?h # xs) \<mapsto> hd (ys @ [?h]), n \<mapsto> NULL)\<rparr>"
  have r: "hring m ?h (xs @ n # ys)" using htable_repD(3) [OF rep i] B by simp
  have pin: "last (?h # xs) \<in> set (?h # xs)" by (rule last_in_Cons)
  have nxt: "h_next ?m' a = h_next m a" if "a \<noteq> ?h" "a \<notin> set (B ! i)" for a
  proof -
    have "a \<noteq> last (?h # xs)" "a \<noteq> n" using that pin B by auto
    then show ?thesis by simp
  qed
  have "htable_rep ?m' t (B[i := xs @ ys])"
  proof (rule htable_rep_update [OF rep i hs_htable_remove_ring(2) [OF r]])
    show "x \<noteq> NULL \<and> x \<notin> slots t \<and> (\<exists>k. h_key ?m' x = Some k \<and> bucket_of t k = i)"
      if "x \<in> set (xs @ ys)" for x
      using that htable_repD(4) [OF rep i, of x] B by auto
  qed (use nxt in \<open>simp_all del: fun_upd_apply\<close>)
  then show ?thesis
    using nxt hs_htable_remove_ring(1) [OF r] by (intro exI [of _ ?m']) (simp del: last.simps)
qed

lemma hs_htable_clear_from_run:
  assumes "\<And>j. i \<le> j \<Longrightarrow> j < unat (ht_size t) \<Longrightarrow> h_next m (ht_heads t + j) \<noteq> None"
  shows "hs_htable_clear_from t i m =
     Some (m\<lparr>h_next := (\<lambda>a. if ht_heads t + i \<le> a \<and> a < ht_heads t + unat (ht_size t)
                           then Some a else h_next m a)\<rparr>)"
  using assms
proof (induction t i m rule: hs_htable_clear_from.induct)
  case (1 t i m)
  show ?case
  proof (cases "i < unat (ht_size t)")
    case False
    then show ?thesis
      by (simp add: hs_htable_clear_from.simps [of t i]) (rule htable_mem.equality, auto simp: fun_eq_iff)
  next
    case True
    let ?m = "m\<lparr>h_next := (h_next m)(ht_heads t + i \<mapsto> ht_heads t + i)\<rparr>"
    have "h_next m (ht_heads t + i) \<noteq> None" by (rule "1.prems") (use True in simp_all)
    then have upd: "set_hnext m (ht_heads t + i) (ht_heads t + i) = Some ?m"
      by (auto simp: set_hnext_def)
    have "hs_htable_clear_from t (Suc i) ?m =
        Some (?m\<lparr>h_next := (\<lambda>a. if ht_heads t + Suc i \<le> a \<and> a < ht_heads t + unat (ht_size t)
                              then Some a else h_next ?m a)\<rparr>)"
      by (rule "1.IH" [OF True upd]) (use "1.prems" in auto)
    with True upd show ?thesis
      by (simp add: hs_htable_clear_from.simps [of t i] fun_eq_iff)
  qed
qed

lemma hs_htable_init_rep:
  assumes "p \<noteq> NULL" and "sz \<noteq> 0"
  shows "\<exists>m'. hs_htable_init p t sz m L = Some (0, t\<lparr>ht_heads := p, ht_size := sz\<rparr>, m', L) \<and>
           htable_rep m' (t\<lparr>ht_heads := p, ht_size := sz\<rparr>) (replicate (unat sz) []) \<and>
           h_key m' = h_key m \<and>
           (\<forall>a. \<not> (p \<le> a \<and> a < p + unat sz) \<longrightarrow> h_next m' a = h_next m a)"
proof -
  let ?t = "t\<lparr>ht_heads := p, ht_size := sz\<rparr>" and ?m = "slots_alloc m p (unat sz)"
  let ?m' = "?m\<lparr>h_next := (\<lambda>a. if p \<le> a \<and> a < p + unat sz then Some a else h_next ?m a)\<rparr>"
  have "hs_htable_clear_from ?t 0 ?m = Some ?m'"
    using hs_htable_clear_from_run [of 0 ?t ?m] by (simp add: slots_alloc_def)
  then show ?thesis
    using assms by (auto simp: hs_htable_init_def hs_htable_clear_def htable_rep_def hring_def
        slots_alloc_def)
qed

section \<open>The iteration macros\<close>

lemma hs_htable_foreach_hash_loop:
  assumes sz: "ht_size t \<noteq> 0"
    and step: "\<And>x rest s s'. I (x # rest) s \<Longrightarrow> hash_filter mem k body x s = Some (Continue, s')
                 \<Longrightarrow> I rest s'"
    and chn: "\<And>rest s. I rest s \<Longrightarrow> chain (h_next (mem s)) rest (ht_heads t + bucket_of t k)"
    and start: "hring (mem s) (ht_heads t + bucket_of t k) xs" "I xs s"
  shows "hs_htable_foreach_hash mem t k body s =
     map_option snd (flow_fold (hash_filter mem k body) (ht_heads t + bucket_of t k) xs s)"
proof -
  let ?h = "ht_heads t + bucket_of t k"
  let ?n = "hd (xs @ [?h])"
  have n: "h_next (mem s) ?h = Some ?n" by (rule hring_next_head [OF start(1)])
  have c: "chain (h_next (mem s)) xs ?h" by (rule chn [OF start(2)])
  then obtain nn where nn: "h_next (mem s) ?n = Some nn" "xs \<noteq> [] \<Longrightarrow> nn = hd (tl xs @ [?h])"
    by (cases xs) (auto simp: seg_simps)
  have "ring_loop (\<lambda>s. h_next (mem s)) (hash_filter mem k body) ?h ?n nn s =
      flow_fold (hash_filter mem k body) ?h xs s"
    by (rule ring_loop_fold [where I = I, OF step chn start(2) nn(2)])
  then show ?thesis
    using sz n nn(1)
    by (cases "flow_fold (hash_filter mem k body) ?h xs s")
      (auto simp: hs_htable_foreach_hash_def hs_htable_get_head_Some)
qed

lemma hash_filter_simps:
  "h_key (mem s) x = Some k \<Longrightarrow> hash_filter mem k body x s = body x s"
  "h_key (mem s) x = Some k' \<Longrightarrow> k' \<noteq> k \<Longrightarrow> hash_filter mem k body x s = Some (Continue, s)"
  by (simp_all add: hash_filter_def)

lemma flow_fold_hash_filter:
  assumes hit: "\<And>x rest s s'. I (x # rest) s \<Longrightarrow> K x = k \<Longrightarrow> body x s = Some (Continue, s') \<Longrightarrow> I rest s'"
    and skip: "\<And>x rest s. I (x # rest) s \<Longrightarrow> K x \<noteq> k \<Longrightarrow> I rest s"
    and keys: "\<And>x rest s. I (x # rest) s \<Longrightarrow> h_key (mem s) x = Some (K x)"
  shows "I xs s \<Longrightarrow>
     flow_fold (hash_filter mem k body) h xs s = flow_fold body h (filter (\<lambda>x. K x = k) xs) s"
proof (induction xs arbitrary: s)
  case Nil
  then show ?case by simp
next
  case (Cons x xs)
  have key: "h_key (mem s) x = Some (K x)" by (rule keys [OF Cons.prems])
  show ?case
  proof (cases "K x = k")
    case True
    then have "flow_fold (hash_filter mem k body) h xs s' =
        flow_fold body h (filter (\<lambda>x. K x = k) xs) s'" if "body x s = Some (Continue, s')" for s'
      using that hit [OF Cons.prems] Cons.IH by blast
    with True key show ?thesis
      by (cases "body x s") (auto simp: hash_filter_simps split: flow.splits)
  next
    case False
    with key Cons.IH [OF skip [OF Cons.prems False]] show ?thesis
      by (simp add: hash_filter_simps)
  qed
qed

lemma hs_htable_foreach_hash_fold:
  assumes sz: "ht_size t \<noteq> 0"
    and hit: "\<And>x rest s s'. I (x # rest) s \<Longrightarrow> K x = k \<Longrightarrow> body x s = Some (Continue, s') \<Longrightarrow> I rest s'"
    and skip: "\<And>x rest s. I (x # rest) s \<Longrightarrow> K x \<noteq> k \<Longrightarrow> I rest s"
    and keys: "\<And>x rest s. I (x # rest) s \<Longrightarrow> h_key (mem s) x = Some (K x)"
    and chn: "\<And>rest s. I rest s \<Longrightarrow> chain (h_next (mem s)) rest (ht_heads t + bucket_of t k)"
    and start: "hring (mem s) (ht_heads t + bucket_of t k) xs" "I xs s"
  shows "hs_htable_foreach_hash mem t k body s =
     map_option snd (flow_fold body (ht_heads t + bucket_of t k) (filter (\<lambda>x. K x = k) xs) s)"
proof -
  have "hs_htable_foreach_hash mem t k body s =
      map_option snd (flow_fold (hash_filter mem k body) (ht_heads t + bucket_of t k) xs s)"
  proof (rule hs_htable_foreach_hash_loop [where I = I])
    fix x rest s s'
    assume i: "I (x # rest) s" and b: "hash_filter mem k body x s = Some (Continue, s')"
    show "I rest s'"
      using b keys [OF i] hit [OF i] skip [OF i]
      by (auto simp: hash_filter_def split: if_splits)
  qed (use sz chn start in auto)
  also have "flow_fold (hash_filter mem k body) (ht_heads t + bucket_of t k) xs s =
      flow_fold body (ht_heads t + bucket_of t k) (filter (\<lambda>x. K x = k) xs) s"
    by (rule flow_fold_hash_filter [where I = I and K = K, OF hit skip keys start(2)])
  finally show ?thesis .
qed

text \<open>
  A \<open>return\<close> in the body leaves the enclosing function; a \<open>break\<close> ends the iteration, as falling
  off its end does.
\<close>

definition loop_end :: "addr \<times> 'r flow \<times> 's \<Rightarrow> 'r flow \<times> 's" where
  "loop_end z = (case z of (x, fl, s) \<Rightarrow> (case fl of Return r \<Rightarrow> (Return r, s) | _ \<Rightarrow> (Continue, s)))"

lemma htable_inner_run:
  assumes step: "\<And>x rest s s'. I (x # rest) s \<Longrightarrow> body x s = Some (Continue, s') \<Longrightarrow> I rest s'"
    and chn: "\<And>rest s. I rest s \<Longrightarrow> chain (h_next (mem s)) rest h"
    and start: "hring (mem s) h xs" "I xs s"
  shows "\<exists>cur nxt. h_next (mem s) h = Some cur \<and> h_next (mem s) cur = Some nxt \<and>
     ring_loop (\<lambda>s. h_next (mem s)) body h cur nxt s = flow_fold body h xs s"
proof -
  let ?n = "hd (xs @ [h])"
  have "h_next (mem s) h = Some ?n" by (rule hring_next_head [OF start(1)])
  moreover obtain nn where nn: "h_next (mem s) ?n = Some nn" "xs \<noteq> [] \<Longrightarrow> nn = hd (tl xs @ [h])"
    using chn [OF start(2)] by (cases xs) (auto simp: seg_simps)
  moreover have "ring_loop (\<lambda>s. h_next (mem s)) body h ?n nn s = flow_fold body h xs s"
    by (rule ring_loop_fold [where I = I, OF step chn start(2) nn(2)])
  ultimately show ?thesis by blast
qed

lemma htable_outer_fold:
  assumes step: "\<And>i x rest s s'. J i (x # rest) s \<Longrightarrow> body x s = Some (Continue, s') \<Longrightarrow> J i rest s'"
    and chn: "\<And>i rest s. J i rest s \<Longrightarrow> chain (h_next (mem s)) rest (ht_heads t + i)"
    and nxt: "\<And>i s. J i [] s \<Longrightarrow> Suc i < length B \<Longrightarrow>
                J (Suc i) (B ! Suc i) s \<and> hring (mem s) (ht_heads t + Suc i) (B ! Suc i)"
    and len: "length B = unat (ht_size t)"
  shows "i < length B \<Longrightarrow> J i (B ! i) s \<Longrightarrow> hring (mem s) (ht_heads t + i) (B ! i) \<Longrightarrow>
     htable_outer mem t body (ht_heads t + i) (ht_heads t + i) s =
       map_option loop_end (flow_fold body h (concat (drop i B)) s)"
proof (induction "length B - i" arbitrary: i s)
  case 0
  then show ?case by simp
next
  case (Suc k)
  let ?h = "ht_heads t + i"
  have "\<exists>cur nxt. h_next (mem s) ?h = Some cur \<and> h_next (mem s) cur = Some nxt \<and>
     ring_loop (\<lambda>s. h_next (mem s)) body ?h cur nxt s = flow_fold body ?h (B ! i) s"
    by (rule htable_inner_run [where I = "J i"]) (use step chn Suc.prems in auto)
  then obtain cur n where cn: "h_next (mem s) ?h = Some cur" "h_next (mem s) cur = Some n"
      "ring_loop (\<lambda>s. h_next (mem s)) body ?h cur n s = flow_fold body ?h (B ! i) s"
    by blast
  have unfold: "htable_outer mem t body ?h ?h s = do {
      (x, fl, s) \<leftarrow> flow_fold body ?h (B ! i) s;
      case fl of Return r \<Rightarrow> Some (Return r, s)
      | _ \<Rightarrow> htable_outer mem t body (?h + 1) (x + 1) s }"
    using cn Suc.prems(1) len
    by (subst htable_outer.simps) (auto simp: split: flow.splits bind_splits)
  have split: "concat (drop i B) = B ! i @ concat (drop (Suc i) B)"
    using Suc.prems(1) by (simp add: Cons_nth_drop_Suc [symmetric])
  show ?case
  proof (cases "flow_fold body ?h (B ! i) s")
    case None
    then have "flow_fold body h (B ! i) s = None"
      using flow_fold_end [of body ?h "B ! i" s h] by simp
    with None unfold split show ?thesis by (simp add: flow_fold_append)
  next
    case (Some z)
    obtain x fl s' where z: "z = (x, fl, s')" by (cases z)
    obtain x' where h: "flow_fold body h (B ! i) s = Some (x', fl, s')"
      using flow_fold_end [of body ?h "B ! i" s h] Some z
      by (cases "flow_fold body h (B ! i) s") auto
    show ?thesis
    proof (cases "fl = Continue")
      case True
      with Some z have x: "x = ?h" using flow_fold_node by fastforce
      have "flow_fold body ?h (B ! i) s = Some (x, Continue, s')" using Some z True by simp
      with Suc.prems(2) have j: "J i [] s'" by (rule flow_fold_inv [where I = "J i", rotated]) (rule step)
      have "htable_outer mem t body (?h + 1) (?h + 1) s' =
          map_option loop_end (flow_fold body h (concat (drop (Suc i) B)) s')"
      proof (cases "Suc i < length B")
        case True
        have "k = length B - Suc i" using Suc.hyps(2) by simp
        from Suc.hyps(1) [OF this True, of s'] nxt [OF j True] show ?thesis by simp
      next
        case False
        then show ?thesis using len by (simp add: htable_outer.simps loop_end_def)
      qed
      with Some z True x h unfold split show ?thesis by (simp add: flow_fold_append)
    next
      case False
      with Some z have "x \<in> set (B ! i)" using flow_fold_node by fastforce
      then have "x \<noteq> ?h" using Suc.prems(3) hring_distinct by blast
      then have "htable_outer mem t body (?h + 1) (x + 1) s' = Some (Continue, s')"
        by (simp add: htable_outer.simps)
      with Some z False h unfold split show ?thesis
        by (cases fl) (simp_all add: flow_fold_append loop_end_def)
    qed
  qed
qed

lemma hs_htable_foreach_fold:
  assumes "\<And>i x rest s s'. J i (x # rest) s \<Longrightarrow> body x s = Some (Continue, s') \<Longrightarrow> J i rest s'"
    and "\<And>i rest s. J i rest s \<Longrightarrow> chain (h_next (mem s)) rest (ht_heads t + i)"
    and "\<And>i s. J i [] s \<Longrightarrow> Suc i < length B \<Longrightarrow>
           J (Suc i) (B ! Suc i) s \<and> hring (mem s) (ht_heads t + Suc i) (B ! Suc i)"
    and rep: "htable_rep (mem s) t B" and start: "J 0 (B ! 0) s"
  shows "hs_htable_foreach mem t body s = map_option loop_end (flow_fold body h (concat B) s)"
proof -
  have len: "length B = unat (ht_size t)" "0 < length B"
    using htable_repD(1,2) [OF rep] by (auto simp: unat_gt_0)
  then have ring: "hring (mem s) (ht_heads t + 0) (B ! 0)" by (intro htable_repD(3) [OF rep])
  from assms(1) assms(2) assms(3) len(1) len(2) start ring
  have "htable_outer mem t body (ht_heads t + 0) (ht_heads t + 0) s =
      map_option loop_end (flow_fold body h (concat (drop 0 B)) s)"
    by (rule htable_outer_fold [where J = J])
  then show ?thesis by (simp add: hs_htable_foreach_def)
qed

text \<open>Iteration with a body that does not touch the table.\<close>

lemma hs_htable_foreach_frame:
  assumes rep: "htable_rep (mem s) t B"
    and frame: "\<And>x s s'. body x s = Some (Continue, s') \<Longrightarrow> h_next (mem s') = h_next (mem s)"
  shows "hs_htable_foreach mem t body s = map_option loop_end (flow_fold body h (concat B) s)"
proof -
  let ?J = "\<lambda>i rest s'. h_next (mem s') = h_next (mem s) \<and> i < length B \<and> suffix rest (B ! i)"
  have ring: "hring (mem s') (ht_heads t + i) (B ! i)"
    if "h_next (mem s') = h_next (mem s)" "i < length B" for s' i
    using htable_repD(3) [OF rep that(2)] that(1) hring_cong [of _ _ "mem s'" "mem s"] by auto
  show ?thesis
  proof (rule hs_htable_foreach_fold [where J = ?J])
    show "chain (h_next (mem s')) rest (ht_heads t + i)" if "?J i rest s'" for i rest s'
      using that hring_chain ring by (metis suffix_def)
    show "?J (Suc i) (B ! Suc i) s' \<and> hring (mem s') (ht_heads t + Suc i) (B ! Suc i)"
      if "?J i [] s'" "Suc i < length B" for i s'
      using that ring [of s' "Suc i"] by simp
    show "?J 0 (B ! 0) s" using htable_repD(1,2) [OF rep] by (auto simp: unat_gt_0)
  qed (use frame rep in \<open>auto dest: suffix_ConsD\<close>)
qed

section \<open>Frame rules for the table\<close>

lemma htable_rep_cong:
  assumes rep: "htable_rep m t B"
    and nxt: "\<And>a. a \<in> slots t \<or> a \<in> set (concat B) \<Longrightarrow> h_next m' a = h_next m a"
    and key: "\<And>a. a \<in> set (concat B) \<Longrightarrow> h_key m' a = h_key m a"
  shows "htable_rep m' t B"
  unfolding htable_rep_def
proof (intro conjI allI impI ballI)
  fix i assume i: "i < length B"
  have "h_next m' a = h_next m a" if "a \<in> set ((ht_heads t + i) # B ! i)" for a
    using that i slotsI [of i t] htable_repD(1) [OF rep] by (intro nxt) auto
  then show "hring m' (ht_heads t + i) (B ! i)"
    using htable_repD(3) [OF rep i] hring_cong [of _ _ m' m] by blast
  fix x assume x: "x \<in> set (B ! i)"
  then have "h_key m' x = h_key m x" using i by (intro key) auto
  then show "\<exists>k. h_key m' x = Some k \<and> bucket_of t k = i" "x \<noteq> NULL" "x \<notin> slots t"
    using htable_repD(4) [OF rep i x] by auto
qed (use rep in \<open>simp_all add: htable_rep_def\<close>)

lemma htable_rep_hnode_free:
  "htable_rep m t B \<Longrightarrow> x \<notin> slots t \<Longrightarrow> x \<notin> set (concat B) \<Longrightarrow> htable_rep (hnode_free m x) t B"
  by (rule htable_rep_cong) (auto simp: hnode_free_def)

lemma htable_rep_hnode_alloc:
  "htable_rep m t B \<Longrightarrow> x \<notin> slots t \<Longrightarrow> x \<notin> set (concat B) \<Longrightarrow> htable_rep (hnode_alloc m x) t B"
  by (rule htable_rep_cong) (auto simp: hnode_alloc_def)

lemma htable_rep_distinct:
  assumes rep: "htable_rep m t B"
  shows "distinct (concat B)"
proof (rule distinct_concat_nth)
  show "distinct (B ! i)" if "i < length B" for i
    using htable_repD(3) [OF rep that] hring_distinct by blast
  show "set (B ! i) \<inter> set (B ! j) = {}" if "i < length B" "j < length B" "i \<noteq> j" for i j
    using htable_rep_bucket_unique [OF rep that(1,2)] that(3) by blast
qed

section \<open>The contract\<close>

text \<open>
  A table stands for the map from its nodes to their keys. The locale states what the operations do
  to that map; \<open>loose\<close> are the nodes that may be added.
\<close>

definition habs :: "htable_mem \<Rightarrow> addr list list \<Rightarrow> addr \<rightharpoonup> uint32" where
  "habs m B = (\<lambda>x. if x \<in> set (concat B) then h_key m x else None)"

definition htable_is :: "htable_mem \<Rightarrow> hs_htable \<Rightarrow> (addr \<rightharpoonup> uint32) \<Rightarrow> bool" where
  "htable_is m t f \<longleftrightarrow> (\<exists>B. htable_rep m t B \<and> f = habs m B)"

definition loose :: "htable_mem \<Rightarrow> hs_htable \<Rightarrow> addr \<Rightarrow> bool" where
  "loose m t n \<longleftrightarrow> hnode_allocated m n \<and> n \<notin> slots t"

locale node_table =
  fixes is_table :: "'m \<Rightarrow> 't \<Rightarrow> (addr \<rightharpoonup> uint32) \<Rightarrow> bool"
    and may_add :: "'m \<Rightarrow> 't \<Rightarrow> addr \<Rightarrow> bool"
    and add_node :: "'t \<Rightarrow> uint32 \<Rightarrow> addr \<Rightarrow> 'm \<Rightarrow> 'm option"
    and del_node :: "addr \<Rightarrow> 'm \<Rightarrow> 'm option"
  assumes add_node_map: "is_table m t f \<Longrightarrow> may_add m t n \<Longrightarrow> f n = None \<Longrightarrow>
      \<exists>m'. add_node t k n m = Some m' \<and> is_table m' t (f(n \<mapsto> k)) \<and> (\<forall>x. may_add m t x \<longrightarrow> may_add m' t x)"
    and del_node_map: "is_table m t f \<Longrightarrow> f n = Some k \<Longrightarrow>
      \<exists>m'. del_node n m = Some m' \<and> is_table m' t (f(n := None))"
begin

fun add_list :: "'t \<Rightarrow> (addr \<times> uint32) list \<Rightarrow> 'm \<Rightarrow> 'm option" where
  "add_list t [] m = Some m"
| "add_list t ((n, k) # ns) m = do { m \<leftarrow> add_node t k n m; add_list t ns m }"

fun del_list :: "addr list \<Rightarrow> 'm \<Rightarrow> 'm option" where
  "del_list [] m = Some m"
| "del_list (n # ns) m = do { m \<leftarrow> del_node n m; del_list ns m }"

lemma add_list_map:
  "is_table m t f \<Longrightarrow> \<forall>(n, k) \<in> set ns. may_add m t n \<and> f n = None \<Longrightarrow> distinct (map fst ns) \<Longrightarrow>
     \<exists>m'. add_list t ns m = Some m' \<and> is_table m' t (f ++ map_of ns)"
proof (induction ns arbitrary: m f)
  case (Cons nk ns)
  obtain n k where nk: "nk = (n, k)" by (cases nk)
  obtain m1 where m1: "add_node t k n m = Some m1" "is_table m1 t (f(n \<mapsto> k))" "\<forall>x. may_add m t x \<longrightarrow> may_add m1 t x"
    using add_node_map [of m t f n k] Cons.prems nk by auto
  have all: "\<forall>(x, k') \<in> set ns. may_add m1 t x \<and> (f(n \<mapsto> k)) x = None"
    using Cons.prems nk m1(3) by force
  have d: "distinct (map fst ns)" using Cons.prems(3) by simp
  obtain m2 where m2: "add_list t ns m1 = Some m2" "is_table m2 t (f(n \<mapsto> k) ++ map_of ns)"
    using Cons.IH [OF m1(2) all d] by blast
  then have "add_list t (nk # ns) m = Some m2" using nk m1(1) by simp
  moreover have eq: "f(n \<mapsto> k) ++ map_of ns = f ++ map_of (nk # ns)"
  proof
    fix x
    have "x \<notin> fst ` set ns" if "x = n" using that Cons.prems(3) nk by auto
    then show "(f(n \<mapsto> k) ++ map_of ns) x = (f ++ map_of (nk # ns)) x"
      using nk by (cases "x = n") (auto simp: map_add_def split: option.splits dest!: map_of_SomeD, force)
  qed
  moreover have "is_table m2 t (f ++ map_of (nk # ns))" using m2(2) unfolding eq .
  ultimately show ?case by blast
qed simp

lemma del_list_map:
  "is_table m t f \<Longrightarrow> distinct ns \<Longrightarrow> set ns \<subseteq> dom f \<Longrightarrow>
     \<exists>m'. del_list ns m = Some m' \<and> is_table m' t (f |` (- set ns))"
proof (induction ns arbitrary: m f)
  case Nil
  then show ?case by (simp add: restrict_map_def)
next
  case (Cons n ns)
  then obtain k where "f n = Some k" by auto
  then obtain m1 where m1: "del_node n m = Some m1" "is_table m1 t (f(n := None))"
    using del_node_map Cons.prems(1) by blast
  have sub: "set ns \<subseteq> dom (f(n := None))" and d: "distinct ns" using Cons.prems by auto
  obtain m2 where "del_list ns m1 = Some m2" "is_table m2 t (f(n := None) |` (- set ns))"
    using Cons.IH [OF m1(2) d sub] by blast
  moreover have "f(n := None) |` (- set ns) = f |` (- set (n # ns))"
    by (auto simp: restrict_map_def fun_eq_iff)
  ultimately show ?case using m1(1) by simp
qed

end

lemma habs_add:
  assumes i: "i < length B" and k: "h_key m' = (h_key m)(n \<mapsto> k)" and n: "n \<notin> set (concat B)"
  shows "habs m' (B[i := n # B ! i]) = (habs m B)(n \<mapsto> k)"
  unfolding habs_def set_concat_push [OF i] using n k by (auto simp: fun_eq_iff)

lemma concat_remove_node:
  assumes rep: "htable_rep m t B" and i: "i < length B" and B: "B ! i = xs @ n # ys"
  shows "set (concat (B[i := xs @ ys])) = set (concat B) - {n}"
proof -
  have n: "n \<notin> set (concat (B[i := xs @ ys]))"
  proof -
    have "n \<notin> set (B ! j)" if "j < length B" "j \<noteq> i" for j
      using htable_rep_bucket_unique [OF rep that(1) i, of n] that(2) B by auto
    moreover have "n \<notin> set (xs @ ys)" using hring_distinct htable_repD(3) [OF rep i] B by fastforce
    ultimately show ?thesis unfolding in_concat_update [OF i] by blast
  qed
  have "x \<in> set (concat (B[i := xs @ ys])) \<longleftrightarrow> x \<in> set (concat B)" if "x \<noteq> n" for x
    unfolding in_concat_update [OF i] in_concat_nth [of x B] using i B that by force
  with n show ?thesis by (intro set_eqI) (metis Diff_iff insertCI singletonD)
qed

interpretation table: node_table htable_is loose hs_htable_add hs_htable_remove
proof unfold_locales
  fix m t f n k assume "htable_is m t f" and n: "loose m t n" "f n = None"
  then obtain B where rep: "htable_rep m t B" and f: "f = habs m B" by (auto simp: htable_is_def)
  have nB: "n \<notin> set (concat B)"
  proof
    assume a: "n \<in> set (concat B)"
    then obtain k' where "h_key m n = Some k'" using htable_rep_bucket [OF rep a] by blast
    with a n(2) f show False by (simp add: habs_def del: set_concat)
  qed
  let ?i = "bucket_of t k"
  have i: "?i < length B" using htable_repD(1,2) [OF rep] bucket_of_less by simp
  obtain m' where m': "hs_htable_add t k n m = Some m'" "htable_rep m' t (B[?i := n # B ! ?i])"
      "h_key m' = (h_key m)(n \<mapsto> k)" "\<forall>a. a \<noteq> n \<longrightarrow> a \<noteq> ht_heads t + ?i \<longrightarrow> h_next m' a = h_next m a"
    using hs_htable_add_rep [OF rep, of n k] n nB by (auto simp: loose_def)
  have "h_next m' n \<noteq> None"
    using htable_repD(3) [OF m'(2), of ?i] i hring_next_node [of m' "ht_heads t + ?i" "[]" n "B ! ?i"] by simp
  then have "loose m' t x" if "loose m t x" for x
    using that m'(3,4) slotsI [of ?i t] i htable_repD(1) [OF rep] by (auto simp: loose_def hnode_allocated_def)
  moreover have "htable_is m' t (f(n \<mapsto> k))"
    using m'(2) habs_add [OF i m'(3) nB] f by (auto simp: htable_is_def)
  ultimately show "\<exists>m'. hs_htable_add t k n m = Some m' \<and> htable_is m' t (f(n \<mapsto> k)) \<and>
      (\<forall>x. loose m t x \<longrightarrow> loose m' t x)" using m'(1) by blast
next
  fix m t f n k assume "htable_is m t f" and n: "f n = Some k"
  then obtain B where rep: "htable_rep m t B" and f: "f = habs m B" by (auto simp: htable_is_def)
  then have "n \<in> set (concat B)" using n by (auto simp: habs_def split: if_splits)
  then obtain i where i: "i < length B" "n \<in> set (B ! i)" using in_concat_nth [of n B] by blast
  then obtain xs ys where B: "B ! i = xs @ n # ys" by (auto dest: split_list)
  obtain m' where m': "hs_htable_remove n m = Some m'" "htable_rep m' t (B[i := xs @ ys])" "h_key m' = h_key m"
    using hs_htable_remove_rep [OF rep i(1) B] by blast
  have "habs m' (B[i := xs @ ys]) = f(n := None)"
    unfolding f habs_def concat_remove_node [OF rep i(1) B] using m'(3) by (auto simp: fun_eq_iff)
  with m' show "\<exists>m'. hs_htable_remove n m = Some m' \<and> htable_is m' t (f(n := None))"
    by (auto simp: htable_is_def)
qed

section \<open>Collecting nodes\<close>

text \<open>Loop bodies that record the nodes they see; the second one breaks at the first node with a property.\<close>

definition collect :: "addr \<Rightarrow> htable_mem \<times> addr list \<Rightarrow> (unit flow \<times> htable_mem \<times> addr list) option" where
  "collect cur s = Some (Continue, fst s, snd s @ [cur])"

definition collect_until ::
  "(addr \<Rightarrow> bool) \<Rightarrow> addr \<Rightarrow> htable_mem \<times> addr list \<Rightarrow> (unit flow \<times> htable_mem \<times> addr list) option" where
  "collect_until P cur s = Some (if P cur then Break else Continue, fst s, snd s @ [cur])"

lemma collect_fold: "flow_fold collect h xs (m, acc) = Some (h, Continue, m, acc @ xs)"
  by (induction xs arbitrary: acc) (simp_all add: collect_def)

fun upto_first :: "('a \<Rightarrow> bool) \<Rightarrow> 'a list \<Rightarrow> 'a list" where
  "upto_first P [] = []"
| "upto_first P (x # xs) = (if P x then [x] else x # upto_first P xs)"

lemma collect_until_fold:
  "map_option loop_end (flow_fold (collect_until P) h xs (m, acc)) = Some (Continue, m, acc @ upto_first P xs)"
proof (induction xs arbitrary: acc)
  case (Cons a xs)
  show ?case using Cons [of "acc @ [a]"] by (simp add: collect_until_def) (simp add: loop_end_def)
qed (simp add: loop_end_def)

lemma foreach_hash_collect:
  assumes rep: "htable_rep m t B"
  shows "hs_htable_foreach_hash fst t k collect (m, []) =
     Some (Continue, m, filter (\<lambda>x. h_key m x = Some k) (B ! bucket_of t k))"
proof -
  let ?i = "bucket_of t k" and ?K = "\<lambda>x. the (h_key m x)"
  have i: "?i < length B" using htable_repD(1,2) [OF rep] bucket_of_less by simp
  have ring: "hring m (ht_heads t + ?i) (B ! ?i)" by (rule htable_repD(3) [OF rep i])
  have keys: "\<exists>k. h_key m x = Some k" if "x \<in> set (B ! ?i)" for x using htable_repD(4) [OF rep i that] by blast
  have "hs_htable_foreach_hash fst t k collect (m, []) = map_option snd
      (flow_fold collect (ht_heads t + ?i) (filter (\<lambda>x. ?K x = k) (B ! ?i)) (m, []))"
  proof (rule hs_htable_foreach_hash_fold [where I = "\<lambda>rest s'. fst s' = m \<and> suffix rest (B ! ?i)"])
    show "chain (h_next (fst s')) rest (ht_heads t + ?i)" if "fst s' = m \<and> suffix rest (B ! ?i)" for rest s'
      using that hring_chain ring by (metis suffix_def)
    show "h_key (fst s') x = Some (?K x)" if "fst s' = m \<and> suffix (x # rest) (B ! ?i)" for x rest s'
      using that keys [of x] by (auto simp: suffix_def)
  qed (use htable_repD(2) [OF rep] ring in \<open>auto simp: collect_def dest: suffix_ConsD\<close>)
  moreover have "filter (\<lambda>x. ?K x = k) (B ! ?i) = filter (\<lambda>x. h_key m x = Some k) (B ! ?i)"
    by (intro filter_cong refl) (use keys in fastforce)
  ultimately show ?thesis by (simp add: collect_fold)
qed

lemma key_bucket:
  assumes rep: "htable_rep m t B"
  shows "set (filter (\<lambda>x. h_key m x = Some k) (B ! bucket_of t k)) = {x. habs m B x = Some k}"
proof -
  have i: "bucket_of t k < length B" using htable_repD(1,2) [OF rep] bucket_of_less by simp
  have "x \<in> set (B ! bucket_of t k)" if "x \<in> set (concat B)" "h_key m x = Some k" for x
    using htable_rep_bucket [OF rep that(1)] that(2) by (metis option.inject)
  moreover have "x \<in> set (concat B)" if "x \<in> set (B ! bucket_of t k)" for x
    using that i in_concat_nth [of x B] by blast
  ultimately show ?thesis by (auto simp: habs_def simp del: set_concat)
qed

section \<open>Properties\<close>

text \<open>A table with two slots at 100 and 101, that holds the node 5 under the key 7, and a loose node 6.\<close>

definition ex_table :: hs_htable where
  "ex_table = \<lparr>ht_size = 2, ht_heads = 100\<rparr>"

definition ex_mem :: htable_mem where
  "ex_mem = \<lparr>h_next = [100 \<mapsto> 100, 101 \<mapsto> 5, 5 \<mapsto> 101, 6 \<mapsto> 0], h_key = [5 \<mapsto> 7, 6 \<mapsto> 0]\<rparr>"

lemma ex_mem_rep: "htable_rep ex_mem ex_table [[], [5]]"
  by (auto simp: htable_rep_def ex_mem_def ex_table_def hring_def slots_def bucket_of_def less_Suc_eq)

lemma ex_mem_is: "htable_is ex_mem ex_table [5 \<mapsto> 7]"
  unfolding htable_is_def using ex_mem_rep
  by (intro exI [of _ "[[], [5]]"]) (auto simp: habs_def ex_mem_def fun_eq_iff)

lemma ex_loose: "loose ex_mem ex_table 6"
  by (simp add: loose_def hnode_allocated_def ex_mem_def ex_table_def slots_def)



text \<open>
  \<open>hs_htable_foreach_hash\<close> visits exactly the nodes whose whole key is the one asked for, each once,
  though nodes with other keys share the bucket.
\<close>

theorem hs_htable_foreach_hash_exact:
  assumes "htable_rep m t B"
  shows "\<exists>xs. hs_htable_foreach_hash fst t k collect (m, []) = Some (Continue, m, xs) \<and> distinct xs \<and>
     set xs = {x. habs m B x = Some k}"
proof -
  have "bucket_of t k < length B" using htable_repD(1,2) [OF assms] bucket_of_less by simp
  then have "distinct (B ! bucket_of t k)" using htable_repD(3) [OF assms] hring_distinct by blast
  then have "distinct (filter (\<lambda>x. h_key m x = Some k) (B ! bucket_of t k))" by simp
  with foreach_hash_collect [OF assms] key_bucket [OF assms] show ?thesis by blast
qed

theorem hs_htable_foreach_hash_exact_witness:
  "\<exists>xs. hs_htable_foreach_hash fst ex_table 7 collect (ex_mem, []) = Some (Continue, ex_mem, xs) \<and> set xs = {5}"
proof -
  have "{x. habs ex_mem [[], [5]] x = Some 7} = {5}" by (auto simp: habs_def ex_mem_def)
  with hs_htable_foreach_hash_exact [OF ex_mem_rep, of 7] show ?thesis by auto
qed

text \<open>
  \<open>hs_htable_foreach\<close> visits every node of the table, bucket by bucket, and a \<open>break\<close> in the body of
  the inner loop ends the outer loop too: nothing after the node that breaks is visited.
\<close>

theorem hs_htable_foreach_break:
  assumes "htable_rep m t B"
  shows "hs_htable_foreach fst t (collect_until P) (m, []) = Some (Continue, m, upto_first P (concat B))"
proof -
  have "hs_htable_foreach fst t (collect_until P) (m, []) =
      map_option loop_end (flow_fold (collect_until P) 0 (concat B) (m, []))"
    by (rule hs_htable_foreach_frame) (use assms in \<open>auto simp: collect_until_def\<close>)
  then show ?thesis by (simp add: collect_until_fold)
qed

theorem hs_htable_foreach_break_witness:
  "hs_htable_foreach fst ex_table (collect_until (\<lambda>x. x = 5)) (ex_mem, []) = Some (Continue, ex_mem, [5])"
  using hs_htable_foreach_break [OF ex_mem_rep] by simp

end
