(* ===== verification/ListHead.thy ===== *)
theory ListHead
  imports Iteration
begin

text \<open>
  Model of \<open>src/list.h\<close>, the intrusive circular doubly linked list that holds the monitor's
  callbacks, the pending notifications and the controller and report queues. The structures
  live in a store with one map per field (\<open>prev\<close>, \<open>next\<close>), from addresses to addresses; an
  address outside the maps is not allocated, and reading or writing there is undefined.

  \<open>ring m h xs\<close> says that the head at \<open>h\<close> represents the sequence of nodes \<open>xs\<close>. Every operation
  is shown to be defined on rings and to refine the corresponding list operation, and to leave
  every other address alone. The locale \<open>intrusive_list\<close> states this contract; the monitor works
  from it.
\<close>

section \<open>The store\<close>

record list_mem =
  l_prev :: "addr \<rightharpoonup> addr"
  l_next :: "addr \<rightharpoonup> addr"

definition set_prev :: "list_mem \<Rightarrow> addr \<Rightarrow> addr \<Rightarrow> list_mem option" where
  "set_prev m p v =
     (case l_prev m p of None \<Rightarrow> None | Some _ \<Rightarrow> Some (m\<lparr>l_prev := (l_prev m)(p \<mapsto> v)\<rparr>))"

definition set_next :: "list_mem \<Rightarrow> addr \<Rightarrow> addr \<Rightarrow> list_mem option" where
  "set_next m p v =
     (case l_next m p of None \<Rightarrow> None | Some _ \<Rightarrow> Some (m\<lparr>l_next := (l_next m)(p \<mapsto> v)\<rparr>))"

text \<open>A structure that contains a list head, from \<open>calloc\<close>: both pointers are null.\<close>

definition list_alloc :: "list_mem \<Rightarrow> addr \<Rightarrow> list_mem" where
  "list_alloc m p = \<lparr>l_prev = (l_prev m)(p \<mapsto> NULL), l_next = (l_next m)(p \<mapsto> NULL)\<rparr>"

definition list_free :: "list_mem \<Rightarrow> addr \<Rightarrow> list_mem" where
  "list_free m p = \<lparr>l_prev = (l_prev m)(p := None), l_next = (l_next m)(p := None)\<rparr>"

definition list_allocated :: "list_mem \<Rightarrow> addr \<Rightarrow> bool" where
  "list_allocated m p = (p \<noteq> NULL \<and> l_prev m p \<noteq> None \<and> l_next m p \<noteq> None)"

section \<open>Operations\<close>

definition hs_list_init :: "list_mem \<Rightarrow> addr \<Rightarrow> list_mem option" where
  "hs_list_init m lst = do {
     m \<leftarrow> set_prev m lst lst;
     set_next m lst lst
   }"

definition hs_list_insert_internal :: "list_mem \<Rightarrow> addr \<Rightarrow> addr \<Rightarrow> addr \<Rightarrow> list_mem option" where
  "hs_list_insert_internal m prv nxt head = do {
     m \<leftarrow> set_next m prv head;
     m \<leftarrow> set_prev m head prv;
     m \<leftarrow> set_prev m nxt head;
     set_next m head nxt
   }"

definition hs_list_add :: "list_mem \<Rightarrow> addr \<Rightarrow> addr \<Rightarrow> list_mem option" where
  "hs_list_add m lst head = do {
     n \<leftarrow> l_next m lst;
     hs_list_insert_internal m lst n head
   }"

definition hs_list_add_tail :: "list_mem \<Rightarrow> addr \<Rightarrow> addr \<Rightarrow> list_mem option" where
  "hs_list_add_tail m lst head = do {
     p \<leftarrow> l_prev m lst;
     hs_list_insert_internal m p lst head
   }"

definition hs_list_remove :: "list_mem \<Rightarrow> addr \<Rightarrow> list_mem option" where
  "hs_list_remove m head = do {
     p \<leftarrow> l_prev m head;
     n \<leftarrow> l_next m head;
     m \<leftarrow> set_next m p n;
     n \<leftarrow> l_next m head;
     p \<leftarrow> l_prev m head;
     m \<leftarrow> set_prev m n p;
     m \<leftarrow> set_prev m head NULL;
     set_next m head NULL
   }"

definition hs_list_is_empty :: "list_mem \<Rightarrow> addr \<Rightarrow> bool option" where
  "hs_list_is_empty m head = do {
     n \<leftarrow> l_next m head;
     Some (n = head)
   }"

definition hs_list_is_singular :: "list_mem \<Rightarrow> addr \<Rightarrow> bool option" where
  "hs_list_is_singular m head = do {
     n \<leftarrow> l_next m head;
     if n = head then Some False
     else do {
       p \<leftarrow> l_prev m head;
       Some (n = p)
     }
   }"

definition hs_list_get_first :: "list_mem \<Rightarrow> addr \<Rightarrow> addr option" where
  "hs_list_get_first m head = do {
     e \<leftarrow> hs_list_is_empty m head;
     if e then Some NULL else l_next m head
   }"

definition hs_list_get_last :: "list_mem \<Rightarrow> addr \<Rightarrow> addr option" where
  "hs_list_get_last m head = do {
     e \<leftarrow> hs_list_is_empty m head;
     if e then Some NULL else l_prev m head
   }"

definition hs_list_splice_internal :: "list_mem \<Rightarrow> addr \<Rightarrow> addr \<Rightarrow> addr \<Rightarrow> list_mem option" where
  "hs_list_splice_internal m prv nxt head = do {
     e \<leftarrow> hs_list_is_empty m head;
     if e then Some m
     else do {
       n \<leftarrow> l_next m head;
       m \<leftarrow> set_prev m n prv;
       n \<leftarrow> l_next m head;
       m \<leftarrow> set_next m prv n;
       p \<leftarrow> l_prev m head;
       m \<leftarrow> set_next m p nxt;
       p \<leftarrow> l_prev m head;
       m \<leftarrow> set_prev m nxt p;
       hs_list_init m head
     }
   }"

definition hs_list_splice :: "list_mem \<Rightarrow> addr \<Rightarrow> addr \<Rightarrow> list_mem option" where
  "hs_list_splice m lst from = do {
     n \<leftarrow> l_next m lst;
     hs_list_splice_internal m lst n from
   }"

definition hs_list_splice_tail :: "list_mem \<Rightarrow> addr \<Rightarrow> addr \<Rightarrow> list_mem option" where
  "hs_list_splice_tail m lst from = do {
     p \<leftarrow> l_prev m lst;
     hs_list_splice_internal m p lst from
   }"

text \<open>
  \<open>_hs_list_foreach\<close>. The body of the macro is a function on the caller's state \<open>'s\<close>, of which
  \<open>mem\<close> selects the store.
\<close>

definition hs_list_foreach ::
  "('s \<Rightarrow> list_mem) \<Rightarrow> (addr \<Rightarrow> 's \<Rightarrow> ('r flow \<times> 's) option) \<Rightarrow> addr \<Rightarrow> 's
     \<Rightarrow> ('r flow \<times> 's) option" where
  "hs_list_foreach mem body head s = do {
     n \<leftarrow> l_next (mem s) head;
     if n = NULL then Some (Continue, s)
     else do {
       nn \<leftarrow> l_next (mem s) n;
       (cur, fl, s) \<leftarrow> ring_loop (\<lambda>s. l_next (mem s)) body head n nn s;
       Some (fl, s)
     }
   }"

section \<open>Rings\<close>

definition link :: "list_mem \<Rightarrow> addr \<Rightarrow> addr \<Rightarrow> bool" where
  "link m p q \<longleftrightarrow> l_next m p = Some q \<and> l_prev m q = Some p"

abbreviation links :: "list_mem \<Rightarrow> addr list \<Rightarrow> bool" where
  "links m zs \<equiv> successively (link m) zs"

definition ring :: "list_mem \<Rightarrow> addr \<Rightarrow> addr list \<Rightarrow> bool" where
  "ring m h xs \<longleftrightarrow> links m (h # xs @ [h]) \<and> distinct (h # xs) \<and> NULL \<notin> set (h # xs)"

definition same_outside :: "list_mem \<Rightarrow> list_mem \<Rightarrow> addr set \<Rightarrow> bool" where
  "same_outside m m' A \<longleftrightarrow>
     (\<forall>a. a \<notin> A \<longrightarrow> l_next m' a = l_next m a \<and> l_prev m' a = l_prev m a)"

lemma links_cong:
  assumes "\<And>x. x \<in> set (butlast zs) \<Longrightarrow> l_next m' x = l_next m x"
    and "\<And>x. x \<in> set (tl zs) \<Longrightarrow> l_prev m' x = l_prev m x"
  shows "links m' zs = links m zs"
  using assms
proof (induction zs rule: induct_list012)
  case (3 x y zs)
  have "link m' x y = link m x y"
    using 3(3) [of x] 3(4) [of y] by (simp add: link_def)
  moreover have "links m' (y # zs) = links m (y # zs)"
  proof (rule 3(2))
    fix z assume "z \<in> set (butlast (y # zs))"
    then show "l_next m' z = l_next m z" by (intro 3(3)) simp
  next
    fix z assume "z \<in> set (tl (y # zs))"
    then show "l_prev m' z = l_prev m z" by (intro 3(4)) simp
  qed
  ultimately show ?case by simp
qed simp_all

lemma ring_split:
  "ring m h (xs @ ys) \<longleftrightarrow>
     links m (h # xs) \<and> links m (ys @ [h]) \<and> link m (last (h # xs)) (hd (ys @ [h])) \<and>
     distinct (h # xs @ ys) \<and> NULL \<notin> set (h # xs @ ys)"
proof -
  have "links m (h # (xs @ ys) @ [h]) =
      (links m (h # xs) \<and> links m (ys @ [h]) \<and> link m (last (h # xs)) (hd (ys @ [h])))"
    using successively_append_iff [of "link m" "h # xs" "ys @ [h]"] by auto
  then show ?thesis unfolding ring_def by auto
qed

lemma ring_next_head: "ring m h xs \<Longrightarrow> l_next m h = Some (hd (xs @ [h]))"
  using ring_split [of m h "[]" xs] by (simp add: link_def)

lemma ring_prev_head: "ring m h xs \<Longrightarrow> l_prev m h = Some (last (h # xs))"
  using ring_split [of m h xs "[]"] by (simp add: link_def)

lemma ring_next_node: "ring m h (xs @ x # ys) \<Longrightarrow> l_next m x = Some (hd (ys @ [h]))"
  using ring_split [of m h "xs @ [x]" ys] by (simp add: link_def)

lemma ring_prev_node: "ring m h (xs @ x # ys) \<Longrightarrow> l_prev m x = Some (last (h # xs))"
  using ring_split [of m h xs "x # ys"] by (simp add: link_def)

lemma ring_allocated:
  assumes "ring m h xs" and "a \<in> set (h # xs)"
  shows "list_allocated m a"
proof (cases "a = h")
  case True
  with assms show ?thesis
    by (simp add: list_allocated_def ring_next_head ring_prev_head) (simp add: ring_def)
next
  case False
  with assms(2) obtain us vs where xs: "xs = us @ a # vs" by (auto dest: split_list)
  with assms(1) show ?thesis
    by (simp add: list_allocated_def ring_next_node ring_prev_node) (simp add: ring_def)
qed

lemma ring_same_outside:
  assumes "same_outside m m' A" and "A \<inter> set (h # xs) = {}"
  shows "ring m' h xs = ring m h xs"
proof -
  have "links m' (h # xs @ [h]) = links m (h # xs @ [h])"
    using assms by (intro links_cong) (auto simp: same_outside_def dest!: in_set_butlastD)
  then show ?thesis by (simp only: ring_def)
qed

lemma same_outside_trans:
  "same_outside m m' A \<Longrightarrow> same_outside m' m'' B \<Longrightarrow> same_outside m m'' (A \<union> B)"
  by (simp add: same_outside_def)

lemma same_outside_mono: "same_outside m m' A \<Longrightarrow> A \<subseteq> B \<Longrightarrow> same_outside m m' B"
  by (auto simp: same_outside_def)

section \<open>Refinement of the operations\<close>

lemma set_next_Some: "list_allocated m p \<Longrightarrow> set_next m p v = Some (m\<lparr>l_next := (l_next m)(p \<mapsto> v)\<rparr>)"
  by (auto simp: set_next_def list_allocated_def split: option.splits)

lemma set_prev_Some: "list_allocated m p \<Longrightarrow> set_prev m p v = Some (m\<lparr>l_prev := (l_prev m)(p \<mapsto> v)\<rparr>)"
  by (auto simp: set_prev_def list_allocated_def split: option.splits)

lemma list_allocated_upd [simp]:
  "list_allocated m p \<Longrightarrow>
     list_allocated (m\<lparr>l_next := (l_next m)(p \<mapsto> v)\<rparr>) a = list_allocated m a"
  "list_allocated m p \<Longrightarrow>
     list_allocated (m\<lparr>l_prev := (l_prev m)(p \<mapsto> v)\<rparr>) a = list_allocated m a"
  by (auto simp: list_allocated_def)

lemma ends_in_ring:
  "last (h # xs) \<in> set (h # xs @ ys)" "hd (ys @ [h]) \<in> set (h # xs @ ys)"
  by (auto simp: hd_append intro: last_in_set hd_in_set)

lemma last_not_butlast: "distinct (h # xs) \<Longrightarrow> last (h # xs) \<notin> set (butlast (h # xs))"
  by (metis append_butlast_last_id distinct_butlast list.distinct(1) not_distinct_conv_prefix)

lemma hd_not_tl: "distinct zs \<Longrightarrow> zs \<noteq> [] \<Longrightarrow> hd zs \<notin> set (tl zs)"
  by (cases zs) auto

lemma insert_internal_ring:
  assumes r: "ring m h (xs @ ys)" and n: "list_allocated m n" "n \<notin> set (h # xs @ ys)"
  defines "p \<equiv> last (h # xs)" and "q \<equiv> hd (ys @ [h])"
  shows "\<exists>m'. hs_list_insert_internal m p q n = Some m' \<and> ring m' h (xs @ n # ys) \<and>
           same_outside m m' (set (n # h # xs @ ys)) \<and> list_allocated m' = list_allocated m"
proof -
  let ?m' = "\<lparr>l_prev = (l_prev m)(n \<mapsto> p, q \<mapsto> n), l_next = (l_next m)(p \<mapsto> n, n \<mapsto> q)\<rparr>"
  have pq: "p \<in> set (h # xs @ ys)" "q \<in> set (h # xs @ ys)"
    unfolding p_def q_def by (rule ends_in_ring)+
  have alloc: "list_allocated m p" "list_allocated m q"
    using ring_allocated [OF r] pq by auto
  have run: "hs_list_insert_internal m p q n = Some ?m'"
    using alloc n
    by (auto simp: hs_list_insert_internal_def set_next_def set_prev_def list_allocated_def)
  have d: "distinct (h # xs @ ys)" and nz: "NULL \<notin> set (h # xs @ ys)"
    using r by (simp_all add: ring_def)
  have np: "n \<noteq> p" "n \<noteq> q" using n pq by auto
  have pin: "p \<in> set (h # xs)" and qin: "q \<in> set (ys @ [h])"
    unfolding p_def q_def by (rule last_in_Cons, rule hd_in_set) simp
  have "links ?m' (h # xs) = links m (h # xs)"
  proof (rule links_cong)
    fix x assume x: "x \<in> set (butlast (h # xs))"
    have "x \<noteq> p" using x last_not_butlast [of h xs] d by (auto simp: p_def)
    moreover have "x \<noteq> n" using in_set_butlastD [OF x] n by auto
    ultimately show "l_next ?m' x = l_next m x" by simp
  next
    fix x assume "x \<in> set (tl (h # xs))"
    then have "x \<noteq> q" "x \<noteq> n" using d n qin by auto
    then show "l_prev ?m' x = l_prev m x" by simp
  qed
  moreover have "links ?m' (ys @ [h]) = links m (ys @ [h])"
  proof (rule links_cong)
    fix x assume "x \<in> set (butlast (ys @ [h]))"
    then have "x \<noteq> p" "x \<noteq> n" using d n pin by auto
    then show "l_next ?m' x = l_next m x" by simp
  next
    fix x assume x: "x \<in> set (tl (ys @ [h]))"
    have "x \<noteq> q" using x hd_not_tl [of "ys @ [h]"] d by (auto simp: q_def)
    moreover have "x \<noteq> n" using x n by (cases ys) auto
    ultimately show "l_prev ?m' x = l_prev m x" by simp
  qed
  ultimately have "ring ?m' h (xs @ n # ys)"
    using r n d nz np unfolding ring_split
    by (auto simp: link_def successively_Cons p_def q_def list_allocated_def)
  moreover have "same_outside m ?m' (set (n # h # xs @ ys))"
    using pq by (auto simp: same_outside_def)
  moreover have "list_allocated ?m' = list_allocated m"
    using alloc n by (auto simp: list_allocated_def fun_eq_iff)
  ultimately show ?thesis using run by blast
qed

lemma ring_relink:
  assumes old: "links m (h # xs)" "links m (ys @ [h])"
    and d: "distinct (h # xs @ ys)" and nz: "NULL \<notin> set (h # xs @ ys)"
  defines "p \<equiv> last (h # xs)" and "q \<equiv> hd (ys @ [h])"
  assumes joint: "link m' p q"
    and nxt: "\<And>a. a \<in> set (h # xs @ ys) \<Longrightarrow> a \<noteq> p \<Longrightarrow> l_next m' a = l_next m a"
    and prv: "\<And>a. a \<in> set (h # xs @ ys) \<Longrightarrow> a \<noteq> q \<Longrightarrow> l_prev m' a = l_prev m a"
  shows "ring m' h (xs @ ys)"
proof -
  have pin: "p \<in> set (h # xs)" and qin: "q \<in> set (ys @ [h])"
    unfolding p_def q_def by (rule last_in_Cons, rule hd_in_set) simp
  have "links m' (h # xs) = links m (h # xs)"
  proof (rule links_cong)
    fix x assume x: "x \<in> set (butlast (h # xs))"
    then have "x \<noteq> p" using last_not_butlast [of h xs] d by (auto simp: p_def)
    then show "l_next m' x = l_next m x" using in_set_butlastD [OF x] by (intro nxt) auto
  next
    fix x assume "x \<in> set (tl (h # xs))"
    then show "l_prev m' x = l_prev m x" using d qin by (intro prv) auto
  qed
  moreover have "links m' (ys @ [h]) = links m (ys @ [h])"
  proof (rule links_cong)
    fix x assume "x \<in> set (butlast (ys @ [h]))"
    then show "l_next m' x = l_next m x" using d pin by (intro nxt) auto
  next
    fix x assume x: "x \<in> set (tl (ys @ [h]))"
    then have "x \<noteq> q" using hd_not_tl [of "ys @ [h]"] d by (auto simp: q_def)
    moreover have "x \<in> set (h # xs @ ys)" using x by (cases ys) auto
    ultimately show "l_prev m' x = l_prev m x" by (intro prv)
  qed
  ultimately show ?thesis
    using old joint d nz unfolding ring_split p_def q_def by blast
qed

lemma hs_list_add_ring:
  assumes "ring m h xs" and "list_allocated m n" and "n \<notin> set (h # xs)"
  shows "\<exists>m'. hs_list_add m h n = Some m' \<and> ring m' h (n # xs) \<and>
           same_outside m m' (set (n # h # xs)) \<and> list_allocated m' = list_allocated m"
  using insert_internal_ring [of m h "[]" xs n] assms
  by (simp add: hs_list_add_def ring_next_head)

lemma hs_list_add_tail_ring:
  assumes "ring m h xs" and "list_allocated m n" and "n \<notin> set (h # xs)"
  shows "\<exists>m'. hs_list_add_tail m h n = Some m' \<and> ring m' h (xs @ [n]) \<and>
           same_outside m m' (set (n # h # xs)) \<and> list_allocated m' = list_allocated m"
  using insert_internal_ring [of m h xs "[]" n] assms
  by (simp add: hs_list_add_tail_def ring_prev_head)

lemma hs_list_remove_ring:
  assumes r: "ring m h (xs @ n # ys)"
  shows "\<exists>m'. hs_list_remove m n = Some m' \<and> ring m' h (xs @ ys) \<and>
           l_prev m' n = Some NULL \<and> l_next m' n = Some NULL \<and>
           same_outside m m' (set (n # h # xs @ ys)) \<and> list_allocated m' = list_allocated m"
proof -
  define p where "p = last (h # xs)"
  define q where "q = hd (ys @ [h])"
  let ?m' = "\<lparr>l_prev = (l_prev m)(q \<mapsto> p, n \<mapsto> NULL), l_next = (l_next m)(p \<mapsto> q, n \<mapsto> NULL)\<rparr>"
  have pq: "p \<in> set (h # xs @ ys)" "q \<in> set (h # xs @ ys)"
    unfolding p_def q_def by (rule ends_in_ring)+
  have d: "distinct (h # xs @ n # ys)" and nz: "NULL \<notin> set (h # xs @ n # ys)"
    using r by (simp_all add: ring_def)
  have np: "n \<noteq> p" "n \<noteq> q" using pq d by auto
  have nn: "l_next m n = Some q" "l_prev m n = Some p"
    using ring_next_node [OF r] ring_prev_node [OF r] by (simp_all add: p_def q_def)
  have alloc: "list_allocated m p" "list_allocated m q" "list_allocated m n"
    using ring_allocated [OF r] pq by auto
  have run: "hs_list_remove m n = Some ?m'"
    using alloc nn np
    by (auto simp: hs_list_remove_def set_next_def set_prev_def list_allocated_def)
  have "ring ?m' h (xs @ ys)"
  proof (rule ring_relink [of m])
    show "links m (h # xs)" using r ring_split by blast
    show "links m (ys @ [h])" using r ring_split [of m h "xs @ [n]" ys] by simp
    show "link ?m' (last (h # xs)) (hd (ys @ [h]))"
      unfolding p_def [symmetric] q_def [symmetric] using np by (simp add: link_def)
    show "l_next ?m' a = l_next m a" if "a \<in> set (h # xs @ ys)" "a \<noteq> last (h # xs)" for a
      using that d by (auto simp: p_def)
    show "l_prev ?m' a = l_prev m a" if "a \<in> set (h # xs @ ys)" "a \<noteq> hd (ys @ [h])" for a
      using that d by (auto simp: q_def)
  qed (use d nz in auto)
  moreover have "same_outside m ?m' (set (n # h # xs @ ys))"
    using pq by (auto simp: same_outside_def)
  moreover have "list_allocated ?m' = list_allocated m"
    using alloc by (auto simp: list_allocated_def fun_eq_iff)
  ultimately show ?thesis using run by (intro exI [of _ ?m']) simp
qed

lemma hs_list_init_ring:
  assumes "list_allocated m h"
  shows "\<exists>m'. hs_list_init m h = Some m' \<and> ring m' h [] \<and> same_outside m m' {h} \<and>
           list_allocated m' = list_allocated m"
  using assms
  by (auto simp: hs_list_init_def set_next_def set_prev_def list_allocated_def ring_def link_def
      same_outside_def fun_eq_iff)

lemma hs_list_is_empty_ring: "ring m h xs \<Longrightarrow> hs_list_is_empty m h = Some (xs = [])"
  by (cases xs) (auto simp: hs_list_is_empty_def ring_next_head, simp add: ring_def)

lemma hs_list_is_singular_ring:
  assumes r: "ring m h xs"
  shows "hs_list_is_singular m h = Some (length xs = 1)"
proof -
  have ends: "l_next m h = Some (hd (xs @ [h]))" "l_prev m h = Some (last (h # xs))"
    using r by (simp_all add: ring_next_head ring_prev_head)
  have d: "distinct (h # xs)" using r by (simp add: ring_def)
  show ?thesis
  proof (cases xs)
    case Nil
    with ends show ?thesis by (simp add: hs_list_is_singular_def)
  next
    case (Cons x ys)
    with d have "last (x # ys) = x \<longleftrightarrow> ys = []" by auto
    with Cons ends d show ?thesis by (auto simp: hs_list_is_singular_def)
  qed
qed

lemma hs_list_get_first_ring:
  "ring m h xs \<Longrightarrow> hs_list_get_first m h = Some (case xs of [] \<Rightarrow> NULL | x # _ \<Rightarrow> x)"
  by (cases xs) (simp_all add: hs_list_get_first_def hs_list_is_empty_ring ring_next_head)

lemma hs_list_get_last_ring:
  "ring m h xs \<Longrightarrow> hs_list_get_last m h = Some (if xs = [] then NULL else last xs)"
  by (simp add: hs_list_get_last_def hs_list_is_empty_ring ring_prev_head)

lemma links_sub: "links m (us @ vs @ ws) \<Longrightarrow> links m vs"
  by (simp add: successively_append_iff)

lemma splice_internal_ring:
  assumes r: "ring m l (xs @ zs)" and f: "ring m f ys"
    and disj: "set (l # xs @ zs) \<inter> set (f # ys) = {}"
  defines "p \<equiv> last (l # xs)" and "q \<equiv> hd (zs @ [l])"
  shows "\<exists>m'. hs_list_splice_internal m p q f = Some m' \<and> ring m' l (xs @ ys @ zs) \<and>
           ring m' f [] \<and> same_outside m m' (set (l # xs @ zs) \<union> set (f # ys)) \<and>
           list_allocated m' = list_allocated m"
proof (cases "ys = []")
  case True
  with r f have "hs_list_splice_internal m p q f = Some m"
    by (simp add: hs_list_splice_internal_def hs_list_is_empty_ring)
  then show ?thesis using True r f by (simp add: same_outside_def)
next
  case False
  define a where "a = hd ys"
  define b where "b = last ys"
  let ?m' = "\<lparr>l_prev = (l_prev m)(a \<mapsto> p, q \<mapsto> b, f \<mapsto> f), l_next = (l_next m)(p \<mapsto> a, b \<mapsto> q, f \<mapsto> f)\<rparr>"
  have ab: "a \<in> set ys" "b \<in> set ys" using False by (simp_all add: a_def b_def)
  have pin: "p \<in> set (l # xs)" and qin: "q \<in> set (zs @ [l])"
    unfolding p_def q_def by (rule last_in_Cons, rule hd_in_set) simp
  have dl: "distinct (l # xs @ zs)" and df: "distinct (f # ys)"
    using r f by (simp_all add: ring_def)
  have ends: "l_next m f = Some a" "l_prev m f = Some b"
    using ring_next_head [OF f] ring_prev_head [OF f] False by (simp_all add: a_def b_def)
  have alloc: "list_allocated m p" "list_allocated m q" "list_allocated m f"
    "list_allocated m a" "list_allocated m b"
    using ring_allocated [OF r] ring_allocated [OF f] pin qin ab by auto
  have neqs: "a \<noteq> f" "b \<noteq> f" "p \<noteq> f" "q \<noteq> f" "p \<noteq> b" "q \<noteq> a"
    using ab df pin qin disj by auto
  have run: "hs_list_splice_internal m p q f = Some ?m'"
    using False ends alloc neqs hs_list_is_empty_ring [OF f]
    by (auto simp: hs_list_splice_internal_def hs_list_init_def set_next_def set_prev_def
        list_allocated_def)
  have out: "a \<notin> set (l # xs @ zs)" "b \<notin> set (l # xs @ zs)" "f \<notin> set (l # xs @ zs)"
    "p \<notin> set (f # ys)" "q \<notin> set (f # ys)"
    using ab disj pin qin by auto
  have "links ?m' (l # xs) = links m (l # xs)"
  proof (rule links_cong)
    fix x assume x: "x \<in> set (butlast (l # xs))"
    then have "x \<noteq> p" using last_not_butlast [of l xs] dl by (auto simp: p_def)
    moreover have "x \<noteq> b" "x \<noteq> f" using in_set_butlastD [OF x] out by auto
    ultimately show "l_next ?m' x = l_next m x" by simp
  next
    fix x assume "x \<in> set (tl (l # xs))"
    then show "l_prev ?m' x = l_prev m x" using dl qin out by auto
  qed
  moreover have "links ?m' ys = links m ys"
  proof (rule links_cong)
    fix x assume x: "x \<in> set (butlast ys)"
    then have "x \<noteq> b" using last_not_butlast [of "hd ys" "tl ys"] df False by (auto simp: b_def)
    moreover have "x \<noteq> p" "x \<noteq> f" using in_set_butlastD [OF x] out df by auto
    ultimately show "l_next ?m' x = l_next m x" by simp
  next
    fix x assume x: "x \<in> set (tl ys)"
    then have "x \<noteq> a" using hd_not_tl [of ys] df False by (auto simp: a_def)
    moreover have "x \<noteq> q" "x \<noteq> f" using list.set_sel(2) [OF False x] out df by auto
    ultimately show "l_prev ?m' x = l_prev m x" by simp
  qed
  moreover have "links ?m' (zs @ [l]) = links m (zs @ [l])"
  proof (rule links_cong)
    fix x assume "x \<in> set (butlast (zs @ [l]))"
    then show "l_next ?m' x = l_next m x" using dl pin out by auto
  next
    fix x assume x: "x \<in> set (tl (zs @ [l]))"
    then have "x \<noteq> q" using hd_not_tl [of "zs @ [l]"] dl by (auto simp: q_def)
    moreover have "x \<noteq> a" "x \<noteq> f" using x out by (cases zs; auto)+
    ultimately show "l_prev ?m' x = l_prev m x" by simp
  qed
  moreover have "links m ys"
    using f links_sub [of m "[f]" ys "[f]"] by (simp add: ring_def)
  moreover have "link ?m' p a" "link ?m' b q"
    using out df ab by (auto simp: link_def)
  ultimately have "links ?m' ((l # xs) @ ys @ (zs @ [l]))"
    using r False unfolding ring_split successively_append_iff
    by (simp add: p_def q_def a_def b_def)
  then have "ring ?m' l (xs @ ys @ zs)"
    using r f disj dl df by (auto simp: ring_def)
  moreover have "ring ?m' f []" using f by (simp add: ring_def link_def)
  moreover have "same_outside m ?m' (set (l # xs @ zs) \<union> set (f # ys))"
    using pin qin ab by (auto simp: same_outside_def)
  moreover have "list_allocated ?m' = list_allocated m"
    using alloc by (auto simp: list_allocated_def fun_eq_iff)
  ultimately show ?thesis using run by blast
qed

lemma hs_list_splice_ring:
  assumes "ring m l xs" and "ring m f ys" and "set (l # xs) \<inter> set (f # ys) = {}"
  shows "\<exists>m'. hs_list_splice m l f = Some m' \<and> ring m' l (ys @ xs) \<and> ring m' f [] \<and>
           same_outside m m' (set (l # xs) \<union> set (f # ys)) \<and> list_allocated m' = list_allocated m"
  using splice_internal_ring [of m l "[]" xs f ys] assms
  by (simp add: hs_list_splice_def ring_next_head)

lemma hs_list_splice_tail_ring:
  assumes "ring m l xs" and "ring m f ys" and "set (l # xs) \<inter> set (f # ys) = {}"
  shows "\<exists>m'. hs_list_splice_tail m l f = Some m' \<and> ring m' l (xs @ ys) \<and> ring m' f [] \<and>
           same_outside m m' (set (l # xs) \<union> set (f # ys)) \<and> list_allocated m' = list_allocated m"
  using splice_internal_ring [of m l xs "[]" f ys] assms
  by (simp add: hs_list_splice_tail_def ring_prev_head)

section \<open>The iteration macro\<close>

lemma ring_chain: "ring m h (ds @ xs) \<Longrightarrow> chain (l_next m) xs h"
  unfolding chain_def using ring_split [of m h ds xs]
  by (auto simp: link_def ring_next_head elim: successively_mono)

lemma hs_list_foreach_fold:
  assumes step: "\<And>x rest s s'. I (x # rest) s \<Longrightarrow> body x s = Some (Continue, s') \<Longrightarrow> I rest s'"
    and chn: "\<And>rest s. I rest s \<Longrightarrow> chain (l_next (mem s)) rest h"
    and start: "ring (mem s) h xs" "I xs s"
  shows "hs_list_foreach mem body h s = map_option snd (flow_fold body h xs s)"
proof -
  let ?n = "hd (xs @ [h])"
  have n: "l_next (mem s) h = Some ?n" by (rule ring_next_head [OF start(1)])
  have "?n \<in> set (h # xs)" by (cases xs) simp_all
  then have "list_allocated (mem s) ?n" by (rule ring_allocated [OF start(1)])
  then have nn: "?n \<noteq> NULL" "list_allocated (mem s) ?n" by (simp_all add: list_allocated_def)
  then obtain nn where nn2: "l_next (mem s) ?n = Some nn" by (auto simp: list_allocated_def)
  have "nn = hd (tl xs @ [h])" if "xs \<noteq> []"
    using chn [OF start(2)] nn2 that by (cases xs) (auto simp: seg_simps)
  with step chn start(2)
  have "ring_loop (\<lambda>s. l_next (mem s)) body h ?n nn s = flow_fold body h xs s"
    by (rule ring_loop_fold [where I = I])
  then show ?thesis
    using n nn nn2 by (cases "flow_fold body h xs s") (auto simp: hs_list_foreach_def)
qed

section \<open>The contract, and queues\<close>

text \<open>
  What a client of the list relies on: a representation predicate, the nodes that are allocated,
  and the effect of each operation on the represented sequence.
\<close>

fun push_all :: "('m \<Rightarrow> addr \<Rightarrow> addr \<Rightarrow> 'm option) \<Rightarrow> 'm \<Rightarrow> addr \<Rightarrow> addr list \<Rightarrow> 'm option" where
  "push_all put m h [] = Some m"
| "push_all put m h (n # ns) = do { m \<leftarrow> put m h n; push_all put m h ns }"

fun drain ::
  "('m \<Rightarrow> addr \<Rightarrow> addr option) \<Rightarrow> ('m \<Rightarrow> addr \<Rightarrow> 'm option) \<Rightarrow> nat \<Rightarrow> 'm \<Rightarrow> addr
     \<Rightarrow> (addr list \<times> 'm) option" where
  "drain get del 0 m h = Some ([], m)"
| "drain get del (Suc k) m h = do {
     x \<leftarrow> get m h;
     m \<leftarrow> del m x;
     (xs, m) \<leftarrow> drain get del k m h;
     Some (x # xs, m)
   }"

locale intrusive_list =
  fixes rep :: "'m \<Rightarrow> addr \<Rightarrow> addr list \<Rightarrow> bool"
    and allocated :: "'m \<Rightarrow> addr \<Rightarrow> bool"
    and put_tail :: "'m \<Rightarrow> addr \<Rightarrow> addr \<Rightarrow> 'm option"
    and put_head :: "'m \<Rightarrow> addr \<Rightarrow> addr \<Rightarrow> 'm option"
    and unlink :: "'m \<Rightarrow> addr \<Rightarrow> 'm option"
    and first :: "'m \<Rightarrow> addr \<Rightarrow> addr option"
  assumes rep_put_tail: "rep m h xs \<Longrightarrow> allocated m n \<Longrightarrow> n \<notin> set (h # xs) \<Longrightarrow>
      \<exists>m'. put_tail m h n = Some m' \<and> rep m' h (xs @ [n]) \<and> allocated m' = allocated m"
    and rep_put_head: "rep m h xs \<Longrightarrow> allocated m n \<Longrightarrow> n \<notin> set (h # xs) \<Longrightarrow>
      \<exists>m'. put_head m h n = Some m' \<and> rep m' h (n # xs) \<and> allocated m' = allocated m"
    and rep_unlink: "rep m h (xs @ n # ys) \<Longrightarrow>
      \<exists>m'. unlink m n = Some m' \<and> rep m' h (xs @ ys) \<and> allocated m' = allocated m"
    and rep_first: "rep m h (x # xs) \<Longrightarrow> first m h = Some x"
begin

lemma push_all_tail:
  assumes "rep m h xs" and "\<forall>n \<in> set ns. allocated m n" and "distinct (h # xs @ ns)"
  shows "\<exists>m'. push_all put_tail m h ns = Some m' \<and> rep m' h (xs @ ns) \<and>
           allocated m' = allocated m"
  using assms
proof (induction ns arbitrary: m xs)
  case Nil
  then show ?case by simp
next
  case (Cons n ns)
  then obtain m' where m': "put_tail m h n = Some m'" "rep m' h (xs @ [n])"
    "allocated m' = allocated m"
    using rep_put_tail [of m h xs n] by auto
  with Cons.IH [of m' "xs @ [n]"] Cons.prems show ?case by auto
qed

lemma drain_all:
  "rep m h xs \<Longrightarrow> \<exists>m'. drain first unlink (length xs) m h = Some (xs, m') \<and> rep m' h [] \<and>
     allocated m' = allocated m"
proof (induction xs arbitrary: m)
  case Nil
  then show ?case by simp
next
  case (Cons x xs)
  then obtain m' where "unlink m x = Some m'" "rep m' h xs" "allocated m' = allocated m"
    using rep_unlink [of m h "[]" x xs] by auto
  with Cons.IH [of m'] rep_first [OF Cons.prems] show ?case by auto
qed

text \<open>First in, first out: nodes appended one by one leave in the order in which they came.\<close>

lemma fifo:
  assumes "rep m h []" and "\<forall>n \<in> set ns. allocated m n" and "distinct (h # ns)"
  shows "\<exists>m' m''. push_all put_tail m h ns = Some m' \<and>
           drain first unlink (length ns) m' h = Some (ns, m'') \<and> rep m'' h []"
  using push_all_tail [of m h "[]" ns] drain_all assms by fastforce

text \<open>A node that is unlinked and put back in front comes out next.\<close>

lemma requeue_front:
  assumes "rep m h (xs @ n # ys)" and "allocated m n" and "distinct (h # xs @ n # ys)"
  shows "\<exists>m' m''. unlink m n = Some m' \<and> put_head m' h n = Some m'' \<and>
           rep m'' h (n # xs @ ys) \<and> first m'' h = Some n"
proof -
  obtain m' where m': "unlink m n = Some m'" "rep m' h (xs @ ys)" "allocated m' = allocated m"
    using rep_unlink [OF assms(1)] by blast
  then obtain m'' where "put_head m' h n = Some m''" "rep m'' h (n # xs @ ys)"
    using rep_put_head [of m' h "xs @ ys" n] assms by auto
  with m' rep_first show ?thesis by blast
qed

end

interpretation hl: intrusive_list ring list_allocated hs_list_add_tail hs_list_add hs_list_remove
  hs_list_get_first
proof unfold_locales
  show "\<exists>m'. hs_list_add_tail m h n = Some m' \<and> ring m' h (xs @ [n]) \<and>
      list_allocated m' = list_allocated m"
    if "ring m h xs" "list_allocated m n" "n \<notin> set (h # xs)" for m h xs n
    using hs_list_add_tail_ring [OF that] by blast
  show "\<exists>m'. hs_list_add m h n = Some m' \<and> ring m' h (n # xs) \<and>
      list_allocated m' = list_allocated m"
    if "ring m h xs" "list_allocated m n" "n \<notin> set (h # xs)" for m h xs n
    using hs_list_add_ring [OF that] by blast
  show "\<exists>m'. hs_list_remove m n = Some m' \<and> ring m' h (xs @ ys) \<and>
      list_allocated m' = list_allocated m"
    if "ring m h (xs @ n # ys)" for m h xs n ys
    using hs_list_remove_ring [OF that] by blast
  show "hs_list_get_first m h = Some x" if "ring m h (x # xs)" for m h x xs
    using hs_list_get_first_ring [OF that] by simp
qed

section \<open>Unlinking during an iteration\<close>

text \<open>The body of a loop that unlinks the nodes with a property.\<close>

definition unlink_if :: "(addr \<Rightarrow> bool) \<Rightarrow> addr \<Rightarrow> list_mem \<Rightarrow> (unit flow \<times> list_mem) option" where
  "unlink_if P cur m = (if P cur then do { m \<leftarrow> hs_list_remove m cur; Some (Continue, m) } else Some (Continue, m))"

lemma unlink_if_run:
  assumes "ring m h (ds @ x # rest)"
  shows "\<exists>m'. unlink_if P x m = Some (Continue, m') \<and> ring m' h ((if P x then ds else ds @ [x]) @ rest)"
  using assms hs_list_remove_ring [OF assms] by (auto simp: unlink_if_def)

lemma unlink_fold:
  "ring m h (ds @ xs) \<Longrightarrow> \<exists>m'. flow_fold (unlink_if P) h xs m = Some (h, Continue, m') \<and>
     ring m' h (ds @ filter (\<lambda>x. \<not> P x) xs)"
proof (induction xs arbitrary: m ds)
  case (Cons x xs)
  obtain m1 where m1: "unlink_if P x m = Some (Continue, m1)" "ring m1 h ((if P x then ds else ds @ [x]) @ xs)"
    using unlink_if_run [OF Cons.prems] by blast
  from Cons.IH [OF m1(2)] m1(1) show ?case by (auto split: if_splits)
qed simp

lemma unlink_loop:
  assumes r: "ring m h xs"
  shows "\<exists>m'. hs_list_foreach (\<lambda>m. m) (unlink_if P) h m = Some (Continue, m') \<and> ring m' h (filter (\<lambda>x. \<not> P x) xs)"
proof -
  have "hs_list_foreach (\<lambda>m. m) (unlink_if P) h m = map_option snd (flow_fold (unlink_if P) h xs m)"
  proof (rule hs_list_foreach_fold [where I = "\<lambda>rest m. \<exists>ds. ring m h (ds @ rest)"])
    fix x rest m m' assume "\<exists>ds. ring m h (ds @ x # rest)" and b: "unlink_if P x m = Some (Continue, m')"
    then obtain ds where "ring m h (ds @ x # rest)" by blast
    from unlink_if_run [OF this, of P] b show "\<exists>ds. ring m' h (ds @ rest)" by auto
  qed (use r in \<open>auto intro: ring_chain exI [of _ "[]"]\<close>)
  with unlink_fold [of m h "[]" xs P] r show ?thesis by auto
qed

section \<open>Properties\<close>

text \<open>A list with head 1 and nodes 2 and 3, and an unlinked node 4; a second list with head 5 and node 6.\<close>

definition ex_list :: list_mem where
  "ex_list = \<lparr>l_prev = [1 \<mapsto> 3, 2 \<mapsto> 1, 3 \<mapsto> 2, 4 \<mapsto> 0, 5 \<mapsto> 6, 6 \<mapsto> 5],
     l_next = [1 \<mapsto> 2, 2 \<mapsto> 3, 3 \<mapsto> 1, 4 \<mapsto> 0, 5 \<mapsto> 6, 6 \<mapsto> 5]\<rparr>"

lemma ex_list_ring: "ring ex_list 1 [2, 3]" "ring ex_list 5 [6]" "list_allocated ex_list 4"
  by (simp_all add: ring_def link_def ex_list_def list_allocated_def)



text \<open>
  Splicing moves all nodes of one list to the front, or to the end, of another in their order, and
  leaves the source empty, whether it was empty before or not.
\<close>

theorem hs_list_splice_refines:
  assumes "ring m l xs" and "ring m f ys" and "set (l # xs) \<inter> set (f # ys) = {}"
  shows "(\<exists>m'. hs_list_splice m l f = Some m' \<and> ring m' l (ys @ xs) \<and> ring m' f []) \<and>
     (\<exists>m'. hs_list_splice_tail m l f = Some m' \<and> ring m' l (xs @ ys) \<and> ring m' f [])"
  using hs_list_splice_ring [OF assms] hs_list_splice_tail_ring [OF assms] by blast

theorem hs_list_splice_refines_witness:
  "(\<exists>m'. hs_list_splice ex_list 1 5 = Some m' \<and> ring m' 1 [6, 2, 3] \<and> ring m' 5 []) \<and>
   (\<exists>m'. hs_list_splice_tail ex_list 1 5 = Some m' \<and> ring m' 1 [2, 3, 6] \<and> ring m' 5 [])"
  using hs_list_splice_refines [of ex_list 1 "[2, 3]" 5 "[6]"] ex_list_ring by simp

text \<open>
  \<open>_hs_list_foreach\<close> with a body that unlinks nodes visits every node once and ends with exactly the
  other nodes linked, in their order: unlinking the current node during the iteration is safe.
\<close>

theorem hs_list_foreach_unlink:
  assumes "ring m h xs"
  shows "\<exists>m'. hs_list_foreach (\<lambda>m. m) (unlink_if P) h m = Some (Continue, m') \<and>
     ring m' h (filter (\<lambda>x. \<not> P x) xs)"
  using assms by (rule unlink_loop)

theorem hs_list_foreach_unlink_witness:
  "\<exists>m'. hs_list_foreach (\<lambda>m. m) (unlink_if even) 1 ex_list = Some (Continue, m') \<and> ring m' 1 [3]"
  using hs_list_foreach_unlink [OF ex_list_ring(1), of even] by simp

text \<open>
  Nodes appended to an empty list one by one come out at its front in the order in which they were
  appended, and the list is empty again.
\<close>

theorem hs_list_fifo:
  assumes "ring m h []" and "\<forall>n \<in> set ns. list_allocated m n" and "distinct (h # ns)"
  shows "\<exists>m' m''. push_all hs_list_add_tail m h ns = Some m' \<and>
     drain hs_list_get_first hs_list_remove (length ns) m' h = Some (ns, m'') \<and> ring m'' h []"
  using assms by (rule hl.fifo)

theorem hs_list_fifo_witness:
  "\<exists>m m' m''. hs_list_remove ex_list 6 = Some m \<and> push_all hs_list_add_tail m 5 [6, 4] = Some m' \<and>
     drain hs_list_get_first hs_list_remove 2 m' 5 = Some ([6, 4], m'') \<and> ring m'' 5 []"
proof -
  obtain m where m: "hs_list_remove ex_list 6 = Some m" "ring m 5 []" "list_allocated m = list_allocated ex_list"
    using hs_list_remove_ring [of ex_list 5 "[]" 6 "[]"] ex_list_ring(2) by auto
  have "\<forall>n \<in> set [6, 4]. list_allocated m n"
    using m(3) ex_list_ring(3) ring_allocated [OF ex_list_ring(2), of 6] by simp
  with hs_list_fifo [OF m(2), of "[6, 4]"] m(1) show ?thesis by (auto simp: numeral_2_eq_2)
qed

end
