(* ===== verification/Device.thy ===== *)
theory Device
  imports ListHead HTable
begin

text \<open>
  Model of \<open>src/device.c\<close>, \<open>src/device_priv.h\<close> and the enumerations of \<open>include/hs/device.h\<close>, and
  the state of a process that uses the library. The state holds the objects the library
  allocates, each kind in a map from addresses: devices, monitors, registered callbacks, and the
  list and table nodes embedded in them. \<open>&dev->hnode\<close> and \<open>&callback->list\<close> are represented by the
  address of the enclosing object, so \<open>_hs_container_of\<close> is the identity on them. An address that
  is not in the map of its kind is not allocated or already freed.

  \<open>ext\<close> is everything outside the library: the operating system and the user's own data.
\<close>

section \<open>Types\<close>

datatype hs_device_status = HS_DEVICE_STATUS_DISCONNECTED | HS_DEVICE_STATUS_ONLINE

datatype hs_device_type = HS_DEVICE_TYPE_HID | HS_DEVICE_TYPE_SERIAL

text \<open>Which of the static \<open>struct _hs_device_vtable\<close> objects a device points to.\<close>

datatype vtable_id = Vtable_null | Hs_posix_device_vtable | Hs_linux_hid_vtable
  | Hs_win32_device_vtable | Hs_darwin_hid_vtable

record hs_device =
  d_monitor :: addr
  refcount :: uint32
  d_key :: "string option"
  d_type :: hs_device_type
  d_vtable :: vtable_id
  d_state :: hs_device_status
  d_location :: "string option"
  d_path :: "string option"
  d_vid :: uint16
  d_pid :: uint16
  d_manufacturer :: "string option"
  d_product :: "string option"
  d_serial :: "string option"
  d_iface :: uint8

text \<open>\<open>calloc(1, sizeof(*dev))\<close>\<close>

definition zero_device :: hs_device where
  "zero_device = \<lparr>d_monitor = NULL, refcount = 0, d_key = None, d_type = HS_DEVICE_TYPE_HID,
     d_vtable = Vtable_null, d_state = HS_DEVICE_STATUS_DISCONNECTED, d_location = None,
     d_path = None, d_vid = 0, d_pid = 0, d_manufacturer = None, d_product = None,
     d_serial = None, d_iface = 0\<rparr>"

text \<open>\<open>struct callback\<close> and \<open>struct hs_monitor\<close> of \<open>src/monitor.c\<close>, without the embedded list heads.\<close>

record hs_callback =
  cb_id :: int
  cb_f :: fptr
  cb_udata :: udata

record hs_monitor =
  callback_id :: int
  m_devices :: hs_htable

record 'w hs_state =
  lists :: list_mem
  nodes :: htable_mem
  devs :: "addr \<rightharpoonup> hs_device"
  cbs :: "addr \<rightharpoonup> hs_callback"
  mons :: "addr \<rightharpoonup> hs_monitor"
  logs :: log_state
  ext :: 'w

text \<open>The functions of a vtable, on handles of type \<open>'h\<close>.\<close>

record ('w, 'h) device_vtable =
  vt_open :: "addr \<Rightarrow> 'w hs_state \<Rightarrow> (int \<times> 'h option \<times> 'w hs_state) option"
  vt_close :: "'h \<Rightarrow> 'w hs_state \<Rightarrow> 'w hs_state option"
  vt_get_descriptor :: "'h \<Rightarrow> int"

section \<open>Operations\<close>

text \<open>A failing library call: \<open>return hs_error(err, ...)\<close>.\<close>

definition fail_with :: "hs_error_code \<Rightarrow> string option \<Rightarrow> 'w hs_state \<Rightarrow> int \<times> 'w hs_state" where
  "fail_with err msg s = (let (r, L) = hs_error err msg (logs s) in (r, s\<lparr>logs := L\<rparr>))"

definition log_msg :: "hs_log_level \<Rightarrow> string \<Rightarrow> 'w hs_state \<Rightarrow> 'w hs_state" where
  "log_msg level msg s = s\<lparr>logs := hs_log level msg (logs s)\<rparr>"

text \<open>A device object from \<open>calloc\<close> at address \<open>p\<close>, and its release.\<close>

definition device_alloc :: "addr \<Rightarrow> hs_device \<Rightarrow> 'w hs_state \<Rightarrow> 'w hs_state" where
  "device_alloc p d s = s\<lparr>devs := (devs s)(p \<mapsto> d), nodes := hnode_alloc (nodes s) p\<rparr>"

definition device_free :: "addr \<Rightarrow> 'w hs_state \<Rightarrow> 'w hs_state" where
  "device_free p s = s\<lparr>devs := (devs s)(p := None), nodes := hnode_free (nodes s) p\<rparr>"

definition hs_device_ref :: "addr \<Rightarrow> 'w hs_state \<Rightarrow> (addr \<times> 'w hs_state) option" where
  "hs_device_ref dev s = do {
     c_assert (dev \<noteq> NULL);
     d \<leftarrow> devs s dev;
     Some (dev, s\<lparr>devs := (devs s)(dev \<mapsto> d\<lparr>refcount := refcount d + 1\<rparr>)\<rparr>)
   }"

definition hs_device_unref :: "addr \<Rightarrow> 'w hs_state \<Rightarrow> 'w hs_state option" where
  "hs_device_unref dev s =
     (if dev = NULL then Some s
      else do {
        d \<leftarrow> devs s dev;
        if refcount d > 1
        then Some (s\<lparr>devs := (devs s)(dev \<mapsto> d\<lparr>refcount := refcount d - 1\<rparr>)\<rparr>)
        else Some (device_free dev s)
      })"

definition device_get :: "(hs_device \<Rightarrow> 'a) \<Rightarrow> addr \<Rightarrow> 'w hs_state \<Rightarrow> 'a option" where
  "device_get f dev s = do {
     c_assert (dev \<noteq> NULL);
     d \<leftarrow> devs s dev;
     Some (f d)
   }"

definition hs_device_get_status :: "addr \<Rightarrow> 'w hs_state \<Rightarrow> hs_device_status option" where
  "hs_device_get_status = device_get d_state"

definition hs_device_get_type :: "addr \<Rightarrow> 'w hs_state \<Rightarrow> hs_device_type option" where
  "hs_device_get_type = device_get d_type"

definition hs_device_get_location :: "addr \<Rightarrow> 'w hs_state \<Rightarrow> string option option" where
  "hs_device_get_location = device_get d_location"

definition hs_device_get_interface_number :: "addr \<Rightarrow> 'w hs_state \<Rightarrow> uint8 option" where
  "hs_device_get_interface_number = device_get d_iface"

definition hs_device_get_path :: "addr \<Rightarrow> 'w hs_state \<Rightarrow> string option option" where
  "hs_device_get_path = device_get d_path"

definition hs_device_get_vid :: "addr \<Rightarrow> 'w hs_state \<Rightarrow> uint16 option" where
  "hs_device_get_vid = device_get d_vid"

definition hs_device_get_pid :: "addr \<Rightarrow> 'w hs_state \<Rightarrow> uint16 option" where
  "hs_device_get_pid = device_get d_pid"

definition hs_device_get_manufacturer_string :: "addr \<Rightarrow> 'w hs_state \<Rightarrow> string option option" where
  "hs_device_get_manufacturer_string = device_get d_manufacturer"

definition hs_device_get_product_string :: "addr \<Rightarrow> 'w hs_state \<Rightarrow> string option option" where
  "hs_device_get_product_string = device_get d_product"

definition hs_device_get_serial_number_string :: "addr \<Rightarrow> 'w hs_state \<Rightarrow> string option option" where
  "hs_device_get_serial_number_string = device_get d_serial"

definition hs_device_get_monitor :: "addr \<Rightarrow> 'w hs_state \<Rightarrow> addr option" where
  "hs_device_get_monitor = device_get d_monitor"

text \<open>
  \<open>V\<close> is the contents of the vtables; \<open>hdev\<close> reads the \<open>dev\<close> field that every handle structure
  starts with. A call that leaves \<open>*rh\<close> unchanged returns no handle.
\<close>

definition hs_device_open ::
  "(vtable_id \<Rightarrow> ('w, 'h) device_vtable) \<Rightarrow> addr \<Rightarrow> 'w hs_state
     \<Rightarrow> (int \<times> 'h option \<times> 'w hs_state) option" where
  "hs_device_open V dev s = do {
     c_assert (dev \<noteq> NULL);
     d \<leftarrow> devs s dev;
     if d_state d \<noteq> HS_DEVICE_STATUS_ONLINE
     then do {
       p \<leftarrow> d_path d;
       let (r, s) = fail_with HS_ERROR_NOT_FOUND (Some (''Device '' @ sq p @ '' is not connected'')) s;
       Some (r, None, s)
     }
     else do {
       c_assert (d_vtable d \<noteq> Vtable_null);
       vt_open (V (d_vtable d)) dev s
     }
   }"

definition hs_handle_close ::
  "(vtable_id \<Rightarrow> ('w, 'h) device_vtable) \<Rightarrow> ('h \<Rightarrow> addr) \<Rightarrow> 'h option \<Rightarrow> 'w hs_state
     \<Rightarrow> 'w hs_state option" where
  "hs_handle_close V hdev h s =
     (case h of
        None \<Rightarrow> Some s
      | Some h \<Rightarrow> do {
          d \<leftarrow> devs s (hdev h);
          c_assert (d_vtable d \<noteq> Vtable_null);
          vt_close (V (d_vtable d)) h s
        })"

definition hs_handle_get_device :: "('h \<Rightarrow> addr) \<Rightarrow> 'h \<Rightarrow> addr" where
  "hs_handle_get_device hdev h = hdev h"

definition hs_handle_get_descriptor ::
  "(vtable_id \<Rightarrow> ('w, 'h) device_vtable) \<Rightarrow> ('h \<Rightarrow> addr) \<Rightarrow> 'h \<Rightarrow> 'w hs_state \<Rightarrow> int option" where
  "hs_handle_get_descriptor V hdev h s = do {
     d \<leftarrow> devs s (hdev h);
     c_assert (d_vtable d \<noteq> Vtable_null);
     Some (vt_get_descriptor (V (d_vtable d)) h)
   }"

section \<open>Lemmas\<close>

lemma fail_with_code [simp]: "fst (fail_with e m s) = err_val e"
  by (simp add: fail_with_def split: prod.splits) (metis fst_conv hs_error_code)

lemma fail_with_frame [simp, frame_simps]:
  "lists (snd (fail_with e m s)) = lists s" "nodes (snd (fail_with e m s)) = nodes s"
  "devs (snd (fail_with e m s)) = devs s" "cbs (snd (fail_with e m s)) = cbs s"
  "mons (snd (fail_with e m s)) = mons s" "ext (snd (fail_with e m s)) = ext s"
  by (simp_all add: fail_with_def split: prod.splits)

lemma fail_with_eq: "fail_with e m s = (err_val e, s\<lparr>logs := snd (hs_error e m (logs s))\<rparr>)"
  by (simp add: fail_with_def split: prod.splits) (metis fst_conv hs_error_code snd_conv)

lemma log_msg_frame [simp, frame_simps]:
  "lists (log_msg l m s) = lists s" "nodes (log_msg l m s) = nodes s"
  "devs (log_msg l m s) = devs s" "cbs (log_msg l m s) = cbs s"
  "mons (log_msg l m s) = mons s" "ext (log_msg l m s) = ext s"
  by (simp_all add: log_msg_def)

text \<open>Only the count of the device changes under \<open>hs_device_ref\<close>.\<close>

definition with_refcount :: "addr \<Rightarrow> (uint32 \<Rightarrow> uint32) \<Rightarrow> 'w hs_state \<Rightarrow> 'w hs_state" where
  "with_refcount dev f s =
     (case devs s dev of None \<Rightarrow> s
      | Some d \<Rightarrow> s\<lparr>devs := (devs s)(dev \<mapsto> d\<lparr>refcount := f (refcount d)\<rparr>)\<rparr>)"

lemma hs_device_ref_run:
  "dev \<noteq> NULL \<Longrightarrow> devs s dev = Some d \<Longrightarrow>
     hs_device_ref dev s = Some (dev, s\<lparr>devs := (devs s)(dev \<mapsto> d\<lparr>refcount := refcount d + 1\<rparr>)\<rparr>)"
  by (simp add: hs_device_ref_def)

lemma hs_device_unref_run:
  "dev \<noteq> NULL \<Longrightarrow> devs s dev = Some d \<Longrightarrow> refcount d > 1 \<Longrightarrow>
     hs_device_unref dev s = Some (s\<lparr>devs := (devs s)(dev \<mapsto> d\<lparr>refcount := refcount d - 1\<rparr>)\<rparr>)"
  "dev \<noteq> NULL \<Longrightarrow> devs s dev = Some d \<Longrightarrow> \<not> refcount d > 1 \<Longrightarrow>
     hs_device_unref dev s = Some (device_free dev s)"
  by (simp_all add: hs_device_unref_def)

lemma hs_device_unref_NULL [simp]: "hs_device_unref NULL s = Some s"
  by (simp add: hs_device_unref_def)

lemma word_inc_gt_1: "n \<noteq> 0 \<Longrightarrow> n + 1 \<noteq> 0 \<Longrightarrow> 1 < n + 1" for n :: uint32
  by uint_arith

lemma hs_device_ref_unref:
  assumes "dev \<noteq> NULL" and "devs s dev = Some d" and "refcount d \<noteq> 0" and "refcount d + 1 \<noteq> 0"
  shows "(hs_device_ref dev s \<bind> (\<lambda>(p, s'). hs_device_unref p s')) = Some s"
proof -
  have "1 < refcount d + 1" using assms(3,4) by (rule word_inc_gt_1)
  moreover have "(devs s)(dev \<mapsto> d) = devs s" using assms(2) by auto
  ultimately show ?thesis
    using assms by (simp add: hs_device_ref_run hs_device_unref_run)
qed

lemma devs_device_alloc [simp]: "devs (device_alloc p d s) = (devs s)(p \<mapsto> d)"
  by (simp add: device_alloc_def)

lemma device_free_frame [simp, frame_simps]:
  "lists (device_free p s) = lists s" "cbs (device_free p s) = cbs s"
  "mons (device_free p s) = mons s" "logs (device_free p s) = logs s"
  "ext (device_free p s) = ext s" "devs (device_free p s) = (devs s)(p := None)"
  "nodes (device_free p s) = hnode_free (nodes s) p"
  by (simp_all add: device_free_def)

end
