(* ===== verification/Monitor.thy ===== *)
theory Monitor
  imports Device
begin

text \<open>
  Model of \<open>src/monitor.c\<close> (and \<open>src/monitor_priv.h\<close>), the platform independent half of the device
  monitor: the list of registered callbacks and the table of known devices, on the stores of
  \<open>ListHead\<close> and \<open>HTable\<close>. The user's callback functions are a parameter: \<open>call f dev u s\<close> is the
  effect of calling the function \<open>f\<close> with a device and its user data in the state \<open>s\<close>.

  \<open>monitor_rep s mp C B\<close> says that the monitor at \<open>mp\<close> has the callbacks \<open>C\<close> (in the order of
  registration) and the devices of the buckets \<open>B\<close>. Every operation is shown to be defined on
  such states, to keep the representation, and to refine the operation on the registry, the map
  from the pair of key and interface number to the device.
\<close>

type_synonym 'w callback_fun = "fptr \<Rightarrow> addr \<Rightarrow> udata \<Rightarrow> 'w hs_state \<Rightarrow> (int \<times> 'w hs_state) option"

section \<open>Callbacks\<close>

text \<open>\<open>p\<close> is the result of \<open>calloc\<close> for the callback structure, null when it fails.\<close>

definition hs_monitor_register_callback ::
  "addr \<Rightarrow> addr \<Rightarrow> fptr \<Rightarrow> udata \<Rightarrow> 'w hs_state \<Rightarrow> (int \<times> 'w hs_state) option" where
  "hs_monitor_register_callback p monitor f u s = do {
     c_assert (monitor \<noteq> NULL);
     c_assert (f \<noteq> NULL);
     if p = NULL then Some (fail_with HS_ERROR_MEMORY None s)
     else do {
       let s = s\<lparr>lists := list_alloc (lists s) p, cbs := (cbs s)(p \<mapsto> \<lparr>cb_id = 0, cb_f = 0, cb_udata = 0\<rparr>)\<rparr>;
       mon \<leftarrow> mons s monitor;
       let cid = callback_id mon;
       c_assert (cid < INT_MAX);
       let s = s\<lparr>mons := (mons s)(monitor \<mapsto> mon\<lparr>callback_id := cid + 1\<rparr>),
                 cbs := (cbs s)(p \<mapsto> \<lparr>cb_id = cid, cb_f = f, cb_udata = u\<rparr>)\<rparr>;
       l \<leftarrow> hs_list_add_tail (lists s) monitor p;
       Some (cid, s\<lparr>lists := l\<rparr>)
     }
   }"

definition callback_free :: "addr \<Rightarrow> 'w hs_state \<Rightarrow> 'w hs_state" where
  "callback_free p s = s\<lparr>cbs := (cbs s)(p := None), lists := list_free (lists s) p\<rparr>"

definition drop_callback :: "addr \<Rightarrow> 'w hs_state \<Rightarrow> 'w hs_state option" where
  "drop_callback p s = do {
     l \<leftarrow> hs_list_remove (lists s) p;
     Some (callback_free p (s\<lparr>lists := l\<rparr>))
   }"

definition deregister_body :: "int \<Rightarrow> addr \<Rightarrow> 'w hs_state \<Rightarrow> (unit flow \<times> 'w hs_state) option" where
  "deregister_body cid cur s = do {
     cb \<leftarrow> cbs s cur;
     if cb_id cb = cid then do {
       s \<leftarrow> drop_callback cur s;
       Some (Break, s)
     }
     else Some (Continue, s)
   }"

definition hs_monitor_deregister_callback :: "addr \<Rightarrow> int \<Rightarrow> 'w hs_state \<Rightarrow> 'w hs_state option" where
  "hs_monitor_deregister_callback monitor cid s = do {
     c_assert (monitor \<noteq> NULL);
     c_assert (cid \<ge> 0);
     (fl, s) \<leftarrow> hs_list_foreach lists (deregister_body cid) monitor s;
     Some s
   }"

definition trigger_body ::
  "'w callback_fun \<Rightarrow> addr \<Rightarrow> addr \<Rightarrow> 'w hs_state \<Rightarrow> (int flow \<times> 'w hs_state) option" where
  "trigger_body call dev cur s = do {
     cb \<leftarrow> cbs s cur;
     (r, s) \<leftarrow> call (cb_f cb) dev (cb_udata cb) s;
     if r < 0 then Some (Return r, s)
     else if r \<noteq> 0 then do {
       l \<leftarrow> hs_list_remove (lists s) cur;
       Some (Continue, callback_free cur (s\<lparr>lists := l\<rparr>))
     }
     else Some (Continue, s)
   }"

definition trigger_callbacks ::
  "'w callback_fun \<Rightarrow> addr \<Rightarrow> 'w hs_state \<Rightarrow> (int \<times> 'w hs_state) option" where
  "trigger_callbacks call dev s = do {
     d \<leftarrow> devs s dev;
     mon \<leftarrow> mons s (d_monitor d);
     (fl, s) \<leftarrow> hs_list_foreach lists (trigger_body call dev) (d_monitor d) s;
     case fl of
       Return r \<Rightarrow> Some (r, s)
     | _ \<Rightarrow> Some (0, s)
   }"

section \<open>The monitor\<close>

text \<open>
  \<open>p\<close> is the result of \<open>malloc\<close> for the heads of the device table. The platform code has allocated
  the monitor with \<open>calloc\<close>, so its list head and its table are zero.
\<close>

definition hs_monitor_init :: "addr \<Rightarrow> addr \<Rightarrow> 'w hs_state \<Rightarrow> (int \<times> 'w hs_state) option" where
  "hs_monitor_init p monitor s = do {
     mon \<leftarrow> mons s monitor;
     l \<leftarrow> hs_list_init (lists s) monitor;
     (r, t, m, L) \<leftarrow> hs_htable_init p (m_devices mon) 64 (nodes s) (logs s);
     let s = s\<lparr>lists := l, nodes := m, logs := L, mons := (mons s)(monitor \<mapsto> mon\<lparr>m_devices := t\<rparr>)\<rparr>;
     if r < 0 then Some (r, s) else Some (0, s)
   }"

definition release_callback_body :: "addr \<Rightarrow> 'w hs_state \<Rightarrow> (unit flow \<times> 'w hs_state) option" where
  "release_callback_body cur s = do {
     cb \<leftarrow> cbs s cur;
     Some (Continue, callback_free cur s)
   }"

definition release_device_body :: "addr \<Rightarrow> 'w hs_state \<Rightarrow> (unit flow \<times> 'w hs_state) option" where
  "release_device_body cur s = do {
     d \<leftarrow> devs s cur;
     let s = s\<lparr>devs := (devs s)(cur \<mapsto> d\<lparr>d_monitor := NULL\<rparr>)\<rparr>;
     s \<leftarrow> hs_device_unref cur s;
     Some (Continue, s)
   }"

definition hs_monitor_release :: "addr \<Rightarrow> 'w hs_state \<Rightarrow> 'w hs_state option" where
  "hs_monitor_release monitor s = do {
     mon \<leftarrow> mons s monitor;
     (fl, s) \<leftarrow> hs_list_foreach lists release_callback_body monitor s;
     (fl, s) \<leftarrow> hs_htable_foreach nodes (m_devices mon) release_device_body s;
     Some (s\<lparr>nodes := hs_htable_release (m_devices mon) (nodes s)\<rparr>)
   }"

definition add_search_body :: "string \<Rightarrow> uint8 \<Rightarrow> addr \<Rightarrow> 'w hs_state \<Rightarrow> (int flow \<times> 'w hs_state) option"
where
  "add_search_body key iface cur s = do {
     d2 \<leftarrow> devs s cur;
     k2 \<leftarrow> d_key d2;
     if k2 = key \<and> d_iface d2 = iface then Some (Return 0, s) else Some (Continue, s)
   }"

definition hs_monitor_add ::
  "'w callback_fun \<Rightarrow> addr \<Rightarrow> addr \<Rightarrow> 'w hs_state \<Rightarrow> (int \<times> 'w hs_state) option" where
  "hs_monitor_add call monitor dev s = do {
     mon \<leftarrow> mons s monitor;
     d \<leftarrow> devs s dev;
     key \<leftarrow> d_key d;
     (fl, s) \<leftarrow> hs_htable_foreach_hash nodes (m_devices mon) (hs_htable_hash_str key)
                  (add_search_body key (d_iface d)) s;
     case fl of
       Return r \<Rightarrow> Some (r, s)
     | _ \<Rightarrow> do {
         d \<leftarrow> devs s dev;
         let s = s\<lparr>devs := (devs s)(dev \<mapsto> d\<lparr>d_monitor := monitor,
                                         d_state := HS_DEVICE_STATUS_ONLINE\<rparr>)\<rparr>;
         (p, s) \<leftarrow> hs_device_ref dev s;
         m \<leftarrow> hs_htable_add (m_devices mon) (hs_htable_hash_str key) dev (nodes s);
         trigger_callbacks call dev (s\<lparr>nodes := m\<rparr>)
       }
   }"

definition remove_body ::
  "'w callback_fun \<Rightarrow> string \<Rightarrow> addr \<Rightarrow> 'w hs_state \<Rightarrow> (unit flow \<times> 'w hs_state) option" where
  "remove_body call key cur s = do {
     d \<leftarrow> devs s cur;
     k \<leftarrow> d_key d;
     if k = key then do {
       let s = s\<lparr>devs := (devs s)(cur \<mapsto> d\<lparr>d_state := HS_DEVICE_STATUS_DISCONNECTED\<rparr>)\<rparr>;
       (r, s) \<leftarrow> trigger_callbacks call cur s;
       m \<leftarrow> hs_htable_remove cur (nodes s);
       s \<leftarrow> hs_device_unref cur (s\<lparr>nodes := m\<rparr>);
       Some (Continue, s)
     }
     else Some (Continue, s)
   }"

definition hs_monitor_remove ::
  "'w callback_fun \<Rightarrow> addr \<Rightarrow> string \<Rightarrow> 'w hs_state \<Rightarrow> 'w hs_state option" where
  "hs_monitor_remove call monitor key s = do {
     mon \<leftarrow> mons s monitor;
     (fl, s) \<leftarrow> hs_htable_foreach_hash nodes (m_devices mon) (hs_htable_hash_str key)
                  (remove_body call key) s;
     Some s
   }"

definition list_body ::
  "'w callback_fun \<Rightarrow> fptr \<Rightarrow> udata \<Rightarrow> addr \<Rightarrow> 'w hs_state \<Rightarrow> (int flow \<times> 'w hs_state) option" where
  "list_body call f u cur s = do {
     (r, s) \<leftarrow> call f cur u s;
     if r \<noteq> 0 then Some (Return r, s) else Some (Continue, s)
   }"

definition hs_monitor_list ::
  "'w callback_fun \<Rightarrow> addr \<Rightarrow> fptr \<Rightarrow> udata \<Rightarrow> 'w hs_state \<Rightarrow> (int \<times> 'w hs_state) option" where
  "hs_monitor_list call monitor f u s = do {
     c_assert (monitor \<noteq> NULL);
     c_assert (f \<noteq> NULL);
     mon \<leftarrow> mons s monitor;
     (fl, s) \<leftarrow> hs_htable_foreach nodes (m_devices mon) (list_body call f u) s;
     case fl of
       Return r \<Rightarrow> Some (r, s)
     | _ \<Rightarrow> Some (0, s)
   }"

section \<open>What a callback may do\<close>

text \<open>
  \<open>same_devs\<close>: the same device objects, up to their reference counts, and none of them lost its
  last reference. A well-behaved callback returns, and leaves the library's structures alone; it
  may log, change the outside world, and take or drop references of its own.
\<close>

definition same_device :: "hs_device \<Rightarrow> hs_device \<Rightarrow> bool" where
  "same_device d d' \<longleftrightarrow> d' = d\<lparr>refcount := refcount d'\<rparr> \<and> (refcount d \<noteq> 0 \<longrightarrow> refcount d' \<noteq> 0)"

definition same_devs :: "(addr \<rightharpoonup> hs_device) \<Rightarrow> (addr \<rightharpoonup> hs_device) \<Rightarrow> bool" where
  "same_devs D D' \<longleftrightarrow> (\<forall>x. rel_option same_device (D x) (D' x))"

definition cb_frame :: "'w hs_state \<Rightarrow> 'w hs_state \<Rightarrow> bool" where
  "cb_frame s s' \<longleftrightarrow> lists s' = lists s \<and> nodes s' = nodes s \<and> cbs s' = cbs s \<and> mons s' = mons s \<and>
     same_devs (devs s) (devs s')"

definition well_behaved :: "'w callback_fun \<Rightarrow> bool" where
  "well_behaved call \<longleftrightarrow> (\<forall>f dev u s. \<exists>r s'. call f dev u s = Some (r, s') \<and> cb_frame s s')"

text \<open>
  What a notification may change: the list and the callback objects of one monitor (the addresses
  \<open>A\<close>), reference counts, the log and the outside world.
\<close>

definition trig_frame :: "addr set \<Rightarrow> 'w hs_state \<Rightarrow> 'w hs_state \<Rightarrow> bool" where
  "trig_frame A s s' \<longleftrightarrow> nodes s' = nodes s \<and> mons s' = mons s \<and> same_devs (devs s) (devs s') \<and>
     same_outside (lists s) (lists s') A \<and> (\<forall>a. a \<notin> A \<longrightarrow> cbs s' a = cbs s a)"

text \<open>
  The course of a notification over the callbacks still to be called: it stops at the first
  negative result; a callback that returns a positive value is dropped. The relation records the
  returned value and the callbacks that stay registered.
\<close>

inductive notified ::
  "'w callback_fun \<Rightarrow> addr \<Rightarrow> addr list \<Rightarrow> 'w hs_state \<Rightarrow> int \<Rightarrow> addr list \<Rightarrow> 'w hs_state \<Rightarrow> bool"
  for call :: "'w callback_fun" and dev :: addr where
  notified_done: "notified call dev [] s 0 [] s"
| notified_stop: "cbs s c = Some cb \<Longrightarrow> call (cb_f cb) dev (cb_udata cb) s = Some (r, s') \<Longrightarrow> r < 0 \<Longrightarrow>
     notified call dev (c # cs) s r (c # cs) s'"
| notified_keep: "cbs s c = Some cb \<Longrightarrow> call (cb_f cb) dev (cb_udata cb) s = Some (0, s') \<Longrightarrow>
     notified call dev cs s' r cs' s'' \<Longrightarrow> notified call dev (c # cs) s r (c # cs') s''"
| notified_drop: "cbs s c = Some cb \<Longrightarrow> call (cb_f cb) dev (cb_udata cb) s = Some (q, s') \<Longrightarrow> q > 0 \<Longrightarrow>
     hs_list_remove (lists s') c = Some l \<Longrightarrow>
     notified call dev cs (callback_free c (s'\<lparr>lists := l\<rparr>)) r cs' s'' \<Longrightarrow>
     notified call dev (c # cs) s r cs' s''"

inductive_cases notified_NilE: "notified call dev [] s r cs' s'"
inductive_cases notified_ConsE: "notified call dev (c # cs) s r cs' s'"

lemma notified_subset: "notified call dev cs s r cs' s' \<Longrightarrow> set cs' \<subseteq> set cs \<and> r \<le> 0"
  by (induction rule: notified.induct) auto

lemma same_device_refl [simp]: "same_device d d"
  by (simp add: same_device_def)

lemma same_device_trans: "same_device d e \<Longrightarrow> same_device e f \<Longrightarrow> same_device d f"
  by (cases d; cases e; cases f) (auto simp: same_device_def)

lemma same_devs_refl [simp]: "same_devs D D"
  by (simp add: same_devs_def option.rel_refl)

lemma same_devs_trans: "same_devs D E \<Longrightarrow> same_devs E F \<Longrightarrow> same_devs D F"
  unfolding same_devs_def
proof
  fix x
  assume "\<forall>x. rel_option same_device (D x) (E x)" and "\<forall>x. rel_option same_device (E x) (F x)"
  then have "rel_option same_device (D x) (E x)" "rel_option same_device (E x) (F x)" by auto
  then show "rel_option same_device (D x) (F x)"
    by (cases "D x"; cases "E x"; cases "F x") (auto intro: same_device_trans)
qed

lemma same_devsD:
  assumes "same_devs D D'" and "D x = Some d"
  obtains d' where "D' x = Some d'" and "d' = d\<lparr>refcount := refcount d'\<rparr>"
    and "refcount d \<noteq> 0 \<Longrightarrow> refcount d' \<noteq> 0"
proof -
  have "rel_option same_device (D x) (D' x)" using assms(1) by (simp add: same_devs_def)
  with assms(2) that show ?thesis by (cases "D' x") (auto simp: same_device_def)
qed

lemma same_devs_None:
  assumes "same_devs D D'"
  shows "D' x = None \<longleftrightarrow> D x = None"
proof -
  have "rel_option same_device (D x) (D' x)" using assms by (simp add: same_devs_def)
  then show ?thesis by (cases "D x"; cases "D' x") auto
qed

lemma trig_frame_refl [simp]: "trig_frame A s s"
  by (simp add: trig_frame_def same_outside_def)

lemma trig_frame_trans: "trig_frame A s s' \<Longrightarrow> trig_frame A s' s'' \<Longrightarrow> trig_frame A s s''"
  by (auto simp: trig_frame_def same_outside_def intro: same_devs_trans)

lemma cb_frame_trig_frame: "cb_frame s s' \<Longrightarrow> trig_frame A s s'"
  by (simp add: cb_frame_def trig_frame_def same_outside_def)

lemma trig_frame_mono: "trig_frame A s s' \<Longrightarrow> A \<subseteq> B \<Longrightarrow> trig_frame B s s'"
  by (auto simp: trig_frame_def same_outside_def)

section \<open>Callbacks: representation\<close>

definition cb_rep :: "'w hs_state \<Rightarrow> addr \<Rightarrow> addr list \<Rightarrow> bool" where
  "cb_rep s mp C \<longleftrightarrow> ring (lists s) mp C \<and> (\<forall>c \<in> set C. cbs s c \<noteq> None)"

lemma list_free_same_outside: "same_outside m (list_free m p) {p}"
  by (simp add: same_outside_def list_free_def)

lemma ring_list_free: "p \<notin> set (h # xs) \<Longrightarrow> ring (list_free m p) h xs = ring m h xs"
  by (rule ring_same_outside [OF list_free_same_outside]) auto

lemma callback_free_frame [simp, frame_simps]:
  "nodes (callback_free p s) = nodes s" "devs (callback_free p s) = devs s"
  "mons (callback_free p s) = mons s" "logs (callback_free p s) = logs s"
  "ext (callback_free p s) = ext s" "cbs (callback_free p s) = (cbs s)(p := None)"
  "lists (callback_free p s) = list_free (lists s) p"
  by (simp_all add: callback_free_def)

text \<open>Unlinking and freeing one callback.\<close>

lemma drop_callback_run:
  assumes rep: "cb_rep s mp (ds @ c # rest)"
  shows "\<exists>l. hs_list_remove (lists s) c = Some l \<and>
     cb_rep (callback_free c (s\<lparr>lists := l\<rparr>)) mp (ds @ rest) \<and>
     trig_frame (set (mp # ds @ c # rest)) s (callback_free c (s\<lparr>lists := l\<rparr>))"
proof -
  have r: "ring (lists s) mp (ds @ c # rest)" using rep by (simp add: cb_rep_def)
  then obtain l where l: "hs_list_remove (lists s) c = Some l" "ring l mp (ds @ rest)"
      "same_outside (lists s) l (set (c # mp # ds @ rest))"
    using hs_list_remove_ring by blast
  have c: "c \<notin> set (mp # ds @ rest)" using r by (auto simp: ring_def)
  have "same_outside (lists s) (list_free l c) (set (mp # ds @ c # rest))"
    using l(3) by (auto simp: same_outside_def list_free_def)
  moreover have "cb_rep (callback_free c (s\<lparr>lists := l\<rparr>)) mp (ds @ rest)"
    using rep l(2) c by (auto simp: cb_rep_def ring_list_free)
  ultimately show ?thesis using l(1) by (auto simp: trig_frame_def)
qed

lemma cb_rep_frame: "cb_frame s s' \<Longrightarrow> cb_rep s' mp C = cb_rep s mp C"
  by (simp add: cb_rep_def cb_frame_def)

lemma well_behavedD:
  assumes "well_behaved call"
  obtains r s' where "call f dev u s = Some (r, s')" and "cb_frame s s'"
  using assms unfolding well_behaved_def by blast

text \<open>One round of the loop of \<open>trigger_callbacks\<close>, by the sign of the callback's result.\<close>

lemma trigger_body_run:
  assumes wb: "well_behaved call" and rep: "cb_rep s mp (ds @ c # rest)"
  obtains (stop) cb r s1 where "cbs s c = Some cb" "call (cb_f cb) dev (cb_udata cb) s = Some (r, s1)"
      "r < 0" "trigger_body call dev c s = Some (Return r, s1)" "cb_frame s s1"
  | (keep) cb s1 where "cbs s c = Some cb" "call (cb_f cb) dev (cb_udata cb) s = Some (0, s1)"
      "trigger_body call dev c s = Some (Continue, s1)" "cb_frame s s1"
  | (drop) cb q s1 l where "cbs s c = Some cb" "call (cb_f cb) dev (cb_udata cb) s = Some (q, s1)"
      "q > 0" "hs_list_remove (lists s1) c = Some l"
      "trigger_body call dev c s = Some (Continue, callback_free c (s1\<lparr>lists := l\<rparr>))"
      "cb_rep (callback_free c (s1\<lparr>lists := l\<rparr>)) mp (ds @ rest)"
      "trig_frame (set (mp # ds @ c # rest)) s (callback_free c (s1\<lparr>lists := l\<rparr>))"
proof -
  obtain cb where cb: "cbs s c = Some cb" using rep by (auto simp: cb_rep_def)
  obtain r s1 where c: "call (cb_f cb) dev (cb_udata cb) s = Some (r, s1)" "cb_frame s s1"
    by (rule well_behavedD [OF wb])
  have rep1: "cb_rep s1 mp (ds @ c # rest)" using rep c(2) by (simp add: cb_rep_frame)
  consider "r < 0" | "r = 0" | "r > 0" by linarith
  then show thesis
  proof cases
    case 1
    with cb c show thesis by (intro stop) (simp_all add: trigger_body_def)
  next
    case 2
    with cb c show thesis by (intro keep) (simp_all add: trigger_body_def)
  next
    case 3
    obtain l where l: "hs_list_remove (lists s1) c = Some l"
        "cb_rep (callback_free c (s1\<lparr>lists := l\<rparr>)) mp (ds @ rest)"
        "trig_frame (set (mp # ds @ c # rest)) s1 (callback_free c (s1\<lparr>lists := l\<rparr>))"
      using drop_callback_run [OF rep1] by blast
    with cb c 3 show thesis
      by (intro drop) (auto simp: trigger_body_def intro: trig_frame_trans cb_frame_trig_frame)
  qed
qed

lemma trigger_fold:
  assumes wb: "well_behaved call"
  shows "cb_rep s mp (ds @ C) \<Longrightarrow>
     \<exists>r C' s' x fl. notified call dev C s r C' s' \<and> cb_rep s' mp (ds @ C') \<and>
       trig_frame (set (mp # ds @ C)) s s' \<and>
       flow_fold (trigger_body call dev) h C s = Some (x, fl, s') \<and>
       fl = (if r < 0 then Return r else Continue) \<and> (0 \<le> r \<longrightarrow> r = 0)"
proof (induction C arbitrary: ds s)
  case Nil
  then show ?case
    by (intro exI [of _ "0 :: int"] exI [of _ "[]"] exI [of _ s]) (auto intro: notified_done)
next
  case (Cons c C)
  show ?case
  proof (cases rule: trigger_body_run [OF wb Cons.prems, of dev, case_names stop keep drop])
    case (stop cb r s1)
    from stop(1-3) have "notified call dev (c # C) s r (c # C) s1" by (rule notified_stop)
    with stop Cons.prems show ?thesis
      by (intro exI [of _ r] exI [of _ "c # C"] exI [of _ s1])
        (auto intro: cb_frame_trig_frame simp: cb_rep_frame)
  next
    case (keep cb s1)
    then have "cb_rep s1 mp ((ds @ [c]) @ C)" using Cons.prems by (simp add: cb_rep_frame)
    from Cons.IH [OF this] obtain r C' s' x fl where ih: "notified call dev C s1 r C' s'"
        "cb_rep s' mp ((ds @ [c]) @ C')" "trig_frame (set (mp # (ds @ [c]) @ C)) s1 s'"
        "flow_fold (trigger_body call dev) h C s1 = Some (x, fl, s')"
        "fl = (if r < 0 then Return r else Continue)" "0 \<le> r \<longrightarrow> r = 0"
      by blast
    have "trig_frame (set (mp # ds @ c # C)) s s'"
      using ih(3) keep(4) by (auto intro: trig_frame_trans cb_frame_trig_frame)
    moreover from keep(1,2) ih(1) have "notified call dev (c # C) s r (c # C') s'"
      by (rule notified_keep)
    ultimately show ?thesis
      using keep(3) ih by (intro exI [of _ r] exI [of _ "c # C'"] exI [of _ s']) auto
  next
    case (drop cb q s1 l)
    let ?s2 = "callback_free c (s1\<lparr>lists := l\<rparr>)"
    from Cons.IH [OF drop(6)] obtain r C' s' x fl where ih: "notified call dev C ?s2 r C' s'"
        "cb_rep s' mp (ds @ C')" "trig_frame (set (mp # ds @ C)) ?s2 s'"
        "flow_fold (trigger_body call dev) h C ?s2 = Some (x, fl, s')"
        "fl = (if r < 0 then Return r else Continue)" "0 \<le> r \<longrightarrow> r = 0"
      by blast
    have "trig_frame (set (mp # ds @ c # C)) ?s2 s'"
      using ih(3) by (rule trig_frame_mono) auto
    with drop(7) have "trig_frame (set (mp # ds @ c # C)) s s'" by (rule trig_frame_trans)
    moreover from drop(1-4) ih(1) have "notified call dev (c # C) s r C' s'"
      by (rule notified_drop)
    ultimately show ?thesis
      using drop(5) ih by (intro exI [of _ r] exI [of _ C'] exI [of _ s']) auto
  qed
qed

lemma trigger_callbacks_run:
  assumes wb: "well_behaved call" and rep: "cb_rep s mp C"
    and dev: "devs s dev = Some d" "d_monitor d = mp" and mon: "mons s mp = Some mon"
  shows "\<exists>r C' s'. trigger_callbacks call dev s = Some (r, s') \<and> notified call dev C s r C' s' \<and>
     cb_rep s' mp C' \<and> trig_frame (set (mp # C)) s s'"
proof -
  let ?I = "\<lambda>rest s. \<exists>ds. cb_rep s mp (ds @ rest)"
  have "hs_list_foreach lists (trigger_body call dev) mp s =
      map_option snd (flow_fold (trigger_body call dev) mp C s)"
  proof (rule hs_list_foreach_fold [where I = ?I])
    fix x rest s s' assume "?I (x # rest) s" and b: "trigger_body call dev x s = Some (Continue, s')"
    then obtain ds where ds: "cb_rep s mp (ds @ x # rest)" by blast
    show "?I rest s'"
      by (cases rule: trigger_body_run [OF wb ds, of dev, case_names stop keep drop])
        (use b ds in \<open>auto simp: cb_rep_frame intro: exI [of _ "ds @ [x]"]\<close>)
  next
    fix rest s assume "?I rest s"
    then show "chain (l_next (lists s)) rest mp" by (auto simp: cb_rep_def intro: ring_chain)
  qed (use rep in \<open>auto simp: cb_rep_def intro: exI [of _ "[]"]\<close>)
  moreover obtain r C' s' x fl where "notified call dev C s r C' s'" "cb_rep s' mp C'"
      "trig_frame (set (mp # C)) s s'"
      "flow_fold (trigger_body call dev) mp C s = Some (x, fl, s')"
      "fl = (if r < 0 then Return r else Continue)" "0 \<le> r \<longrightarrow> r = 0"
    using trigger_fold [OF wb, of s mp "[]" C dev mp] rep by auto
  ultimately show ?thesis
    using dev mon by (intro exI [of _ r] exI [of _ C'] exI [of _ s'])
      (auto simp: trigger_callbacks_def)
qed

text \<open>
  Which callbacks stay: a subsequence of the old ones, each with the contents it had; and no
  device object appears.
\<close>

definition cb_sub :: "'w hs_state \<Rightarrow> addr list \<Rightarrow> 'w hs_state \<Rightarrow> addr list \<Rightarrow> bool" where
  "cb_sub s C s' C' \<longleftrightarrow> subseq C' C \<and> (\<forall>c \<in> set C'. cbs s' c = cbs s c) \<and>
     dom (devs s') \<subseteq> dom (devs s)"

lemma cb_sub_refl [simp]: "cb_sub s C s C"
  by (simp add: cb_sub_def)

lemma subseq_set: "subseq xs ys \<Longrightarrow> x \<in> set xs \<Longrightarrow> x \<in> set ys"
  by (auto dest: list_emb_set)

lemma well_behaved_call: "well_behaved call \<Longrightarrow> call f dev u s = Some (r, s') \<Longrightarrow> cb_frame s s'"
  by (auto elim: well_behavedD [of call f dev u s])

lemma cb_sub_trans: "cb_sub s C s' C' \<Longrightarrow> cb_sub s' C' s'' C'' \<Longrightarrow> cb_sub s C s'' C''"
  unfolding cb_sub_def by (metis subseq_order.trans subseq_set subset_trans)

lemma notified_cbs:
  assumes wb: "well_behaved call"
  shows "notified call dev cs s r cs' s' \<Longrightarrow> distinct cs \<Longrightarrow>
     subseq cs' cs \<and> (\<forall>c \<in> set cs'. cbs s' c = cbs s c) \<and> (\<forall>a. a \<notin> set cs \<longrightarrow> cbs s' a = cbs s a)"
proof (induction rule: notified.induct)
  case (notified_stop s c cb r s' cs)
  then have "cbs s' = cbs s" using well_behaved_call [OF wb] by (auto simp: cb_frame_def)
  then show ?case by simp
next
  case (notified_keep s c cb s' cs r cs' s'')
  then have "cbs s' = cbs s" using well_behaved_call [OF wb] by (auto simp: cb_frame_def)
  with notified_keep show ?case by auto
next
  case (notified_drop s c cb q s' l cs r cs' s'')
  then have "cbs s' = cbs s" using well_behaved_call [OF wb] by (auto simp: cb_frame_def)
  moreover have "c \<notin> set cs'" using notified_drop by (auto dest: subseq_set)
  ultimately show ?case using notified_drop by (auto intro: list_emb_Cons)
qed simp

lemma trig_frame_dom: "trig_frame A s s' \<Longrightarrow> dom (devs s') = dom (devs s)"
  using same_devs_None [of "devs s" "devs s'"] by (auto simp: trig_frame_def dom_def)

lemma notified_cb_sub:
  assumes "well_behaved call" and "notified call dev C s r C' s'" and "cb_rep s mp C" and "trig_frame A s s'"
  shows "cb_sub s C s' C'"
  using notified_cbs [OF assms(1,2)] assms(3) trig_frame_dom [OF assms(4)]
  by (simp add: cb_sub_def cb_rep_def ring_def)

end
