(* ===== verification/Registry.thy ===== *)
theory Registry
  imports Monitor
begin

text \<open>
  The device half of the monitor: the representation of the table of known devices by the registry,
  the map from the pair of key and interface number to the device, and the refinement of
  \<open>_hs_monitor_add\<close>, \<open>_hs_monitor_remove\<close>, \<open>hs_monitor_list\<close>, \<open>_hs_monitor_init\<close> and
  \<open>_hs_monitor_release\<close> to operations on that map and on the sequence of callbacks.
\<close>

section \<open>Devices: representation\<close>

text \<open>A device is identified by its key and its interface number.\<close>

definition ident :: "'w hs_state \<Rightarrow> addr \<Rightarrow> string option \<times> uint8" where
  "ident s x = (case devs s x of None \<Rightarrow> (None, 0) | Some d \<Rightarrow> (d_key d, d_iface d))"

definition dev_ok :: "'w hs_state \<Rightarrow> addr \<Rightarrow> addr \<Rightarrow> bool" where
  "dev_ok s mp x \<longleftrightarrow> (\<exists>d k. devs s x = Some d \<and> d_key d = Some k \<and>
     h_key (nodes s) x = Some (hs_htable_hash_str k) \<and> d_monitor d = mp \<and>
     d_state d = HS_DEVICE_STATUS_ONLINE \<and> refcount d \<noteq> 0)"

definition dev_rep :: "'w hs_state \<Rightarrow> addr \<Rightarrow> hs_htable \<Rightarrow> addr list list \<Rightarrow> bool" where
  "dev_rep s mp t B \<longleftrightarrow> htable_rep (nodes s) t B \<and> (\<forall>x \<in> set (concat B). dev_ok s mp x) \<and>
     inj_on (ident s) (set (concat B))"

definition monitor_rep :: "'w hs_state \<Rightarrow> addr \<Rightarrow> addr list \<Rightarrow> addr list list \<Rightarrow> bool" where
  "monitor_rep s mp C B \<longleftrightarrow>
     cb_rep s mp C \<and> (\<exists>mon. mons s mp = Some mon \<and> dev_rep s mp (m_devices mon) B)"

text \<open>The registry: which device stands for which key and interface.\<close>

definition registry :: "'w hs_state \<Rightarrow> addr list list \<Rightarrow> (string option \<times> uint8) \<rightharpoonup> addr" where
  "registry s B = map_of (map (\<lambda>x. (ident s x, x)) (concat B))"

lemma ident_same_devs: "same_devs (devs s) (devs s') \<Longrightarrow> ident s' x = ident s x"
proof -
  assume same: "same_devs (devs s) (devs s')"
  show ?thesis
  proof (cases "devs s x")
    case None
    then have "devs s' x = None" using same_devs_None [OF same, of x] by blast
    with None show ?thesis by (simp add: ident_def)
  next
    case (Some d)
    from same Some obtain d' where "devs s' x = Some d'" "d' = d\<lparr>refcount := refcount d'\<rparr>"
      by (rule same_devsD)
    moreover from this(2) have "d_key d' = d_key d \<and> d_iface d' = d_iface d"
      by (metis hs_device.select_convs hs_device.surjective hs_device.update_convs(2))
    ultimately show ?thesis using Some by (simp add: ident_def)
  qed
qed

lemma same_device_fields:
  "d' = d\<lparr>refcount := n\<rparr> \<Longrightarrow> d_key d' = d_key d \<and> d_iface d' = d_iface d \<and>
     d_monitor d' = d_monitor d \<and> d_state d' = d_state d"
  by simp

lemma dev_ok_frame:
  assumes "dev_ok s mp x" and "nodes s' = nodes s" and "same_devs (devs s) (devs s')"
  shows "dev_ok s' mp x"
proof -
  obtain d k where d: "devs s x = Some d" "d_key d = Some k"
      "h_key (nodes s) x = Some (hs_htable_hash_str k)" "d_monitor d = mp"
      "d_state d = HS_DEVICE_STATUS_ONLINE" "refcount d \<noteq> 0"
    using assms(1) by (auto simp: dev_ok_def)
  from assms(3) d(1) obtain d' where d': "devs s' x = Some d'"
      "d' = d\<lparr>refcount := refcount d'\<rparr>" "refcount d' \<noteq> 0"
    using d(6) by (metis same_devsD)
  with d same_device_fields [OF d'(2)] assms(2) show ?thesis by (auto simp: dev_ok_def)
qed

lemma dev_rep_frame:
  assumes "dev_rep s mp t B" and "nodes s' = nodes s" and "same_devs (devs s) (devs s')"
  shows "dev_rep s' mp t B"
  using assms dev_ok_frame [OF _ assms(2,3)] ident_same_devs [OF assms(3)]
  by (auto simp: dev_rep_def inj_on_def)

lemma dev_rep_trig_frame: "trig_frame A s s' \<Longrightarrow> dev_rep s mp t B \<Longrightarrow> dev_rep s' mp t B"
  by (auto simp: trig_frame_def intro: dev_rep_frame)

lemma registry_frame:
  "same_devs (devs s) (devs s') \<Longrightarrow> registry s' B = registry s B"
  by (simp add: registry_def ident_same_devs)

lemma registry_Some:
  assumes inj: "inj_on (ident s) (set (concat B))"
  shows "registry s B i = Some x \<longleftrightarrow> x \<in> set (concat B) \<and> ident s x = i"
proof -
  have out: "y \<in> set (concat B) \<and> ident s y = i" if "registry s B i = Some y" for y
    using that unfolding registry_def by (auto dest!: map_of_SomeD)
  have "registry s B i \<noteq> None" if "x \<in> set (concat B)" "ident s x = i"
  proof -
    have "(i, x) \<in> set (map (\<lambda>x. (ident s x, x)) (concat B))" using that by auto
    then have "\<exists>y. registry s B i = Some y" unfolding registry_def by (rule weak_map_of_SomeI)
    then show ?thesis by blast
  qed
  moreover have "y = x" if "registry s B i = Some y" "x \<in> set (concat B)" "ident s x = i" for y
    using out [OF that(1)] that(2,3) inj unfolding inj_on_def by blast
  ultimately show ?thesis using out by (cases "registry s B i") auto
qed

lemma registry_eqI:
  assumes "inj_on (ident s) (set (concat B))"
    and "\<And>i x. f i = Some x \<longleftrightarrow> x \<in> set (concat B) \<and> ident s x = i"
  shows "registry s B = f"
proof
  fix i
  show "registry s B i = f i"
    using assms(2) [of i] registry_Some [OF assms(1), of i]
    by (cases "registry s B i"; cases "f i") auto
qed

text \<open>A part of the registered devices, seen in a later state.\<close>

lemma dev_rep_part:
  assumes rep: "dev_rep s mp t B" and tab: "htable_rep (nodes s') t B'"
    and sub: "set (concat B') \<subseteq> set (concat B)"
    and same: "\<And>y. y \<in> set (concat B') \<Longrightarrow>
        h_key (nodes s') y = h_key (nodes s) y \<and> rel_option same_device (devs s y) (devs s' y)"
  shows "dev_rep s' mp t B'" and "\<And>y. y \<in> set (concat B') \<Longrightarrow> ident s' y = ident s y"
proof -
  have *: "dev_ok s' mp y \<and> ident s' y = ident s y" if y: "y \<in> set (concat B')" for y
  proof -
    have "dev_ok s mp y" using rep y sub by (auto simp: dev_rep_def)
    then obtain d k where d: "devs s y = Some d" "d_key d = Some k"
        "h_key (nodes s) y = Some (hs_htable_hash_str k)" "d_monitor d = mp"
        "d_state d = HS_DEVICE_STATUS_ONLINE" "refcount d \<noteq> 0"
      by (auto simp: dev_ok_def)
    obtain d' where d': "devs s' y = Some d'" "same_device d d'"
      using same [OF y] d(1) by (cases "devs s' y") auto
    have eq: "d' = d\<lparr>refcount := refcount d'\<rparr>" and "refcount d' \<noteq> 0"
      using d'(2) d(6) by (auto simp: same_device_def)
    with d d' same [OF y] same_device_fields [OF eq] show ?thesis
      by (auto simp: dev_ok_def ident_def)
  qed
  then show "\<And>y. y \<in> set (concat B') \<Longrightarrow> ident s' y = ident s y" by blast
  have "inj_on (ident s) (set (concat B'))"
    using rep sub by (auto simp: dev_rep_def intro: inj_on_subset)
  then have "inj_on (ident s') (set (concat B'))" using * by (simp add: inj_on_def)
  then show "dev_rep s' mp t B'" using * tab by (simp add: dev_rep_def)
qed

section \<open>Adding a device\<close>

lemma search_fold:
  assumes "\<And>x. x \<in> set xs \<Longrightarrow> \<exists>d k. devs s x = Some d \<and> d_key d = Some k"
  shows "map_option snd (flow_fold (add_search_body key iface) h xs s) =
     Some (if \<exists>x \<in> set xs. ident s x = (Some key, iface) then Return 0 else Continue, s)"
  using assms
proof (induction xs)
  case (Cons x xs)
  then obtain d k where d: "devs s x = Some d" "d_key d = Some k" by fastforce
  show ?case
  proof (cases "k = key \<and> d_iface d = iface")
    case True
    with d show ?thesis by (simp add: add_search_body_def ident_def)
  next
    case False
    with d have "ident s x \<noteq> (Some key, iface)" by (auto simp: ident_def)
    with d False Cons show ?thesis by (simp add: add_search_body_def)
  qed
qed simp

text \<open>The search of \<open>_hs_monitor_add\<close> decides whether the registry has the key and interface.\<close>

lemma add_search_run:
  assumes rep: "dev_rep s mp t B"
  shows "hs_htable_foreach_hash nodes t (hs_htable_hash_str key) (add_search_body key iface) s =
     Some (if registry s B (Some key, iface) \<noteq> None then Return 0 else Continue, s)"
proof -
  let ?k = "hs_htable_hash_str key"
  let ?i = "bucket_of t ?k" and ?K = "\<lambda>x. the (h_key (nodes s) x)"
  have tab: "htable_rep (nodes s) t B" using rep by (simp add: dev_rep_def)
  have i: "?i < length B" using htable_repD(1,2) [OF tab] bucket_of_less by simp
  have ring: "hring (nodes s) (ht_heads t + ?i) (B ! ?i)" by (rule htable_repD(3) [OF tab i])
  have "hs_htable_foreach_hash nodes t ?k (add_search_body key iface) s = map_option snd
      (flow_fold (add_search_body key iface) (ht_heads t + ?i) (filter (\<lambda>x. ?K x = ?k) (B ! ?i)) s)"
  proof (rule hs_htable_foreach_hash_fold [where I = "\<lambda>rest s'. s' = s \<and> suffix rest (B ! ?i)"])
    show "chain (h_next (nodes s')) rest (ht_heads t + ?i)"
      if "s' = s \<and> suffix rest (B ! ?i)" for rest s'
      using that hring_chain ring by (metis suffix_def)
    show "h_key (nodes s') x = Some (?K x)" if "s' = s \<and> suffix (x # rest) (B ! ?i)" for x rest s'
      using that htable_repD(4) [OF tab i, of x] by (auto simp: suffix_def)
  qed (use htable_repD(2) [OF tab] ring in
        \<open>auto simp: add_search_body_def dest: suffix_ConsD split: bind_splits if_splits\<close>)
  also have "\<dots> = Some (if \<exists>x \<in> set (filter (\<lambda>x. ?K x = ?k) (B ! ?i)). ident s x = (Some key, iface)
      then Return 0 else Continue, s)"
    using rep i by (intro search_fold) (fastforce simp: dev_rep_def dev_ok_def)
  also have "(\<exists>x \<in> set (filter (\<lambda>x. ?K x = ?k) (B ! ?i)). ident s x = (Some key, iface)) \<longleftrightarrow>
      registry s B (Some key, iface) \<noteq> None" (is "?L \<longleftrightarrow> ?R")
  proof
    assume ?L
    then show ?R using registry_Some [of s B "(Some key, iface)"] rep i
      by (fastforce simp: dev_rep_def)
  next
    assume ?R
    then obtain x where x: "x \<in> set (concat B)" "ident s x = (Some key, iface)"
      using registry_Some rep by (fastforce simp: dev_rep_def)
    then have "h_key (nodes s) x = Some ?k"
      using rep by (fastforce simp: dev_rep_def dev_ok_def ident_def)
    moreover from this x(1) have "x \<in> set (B ! ?i)"
      using htable_rep_bucket [OF tab x(1)] by (metis option.inject)
    ultimately show ?L using x(2) by auto
  qed
  finally show ?thesis .
qed

text \<open>
  A device that may be added: allocated, with a key, not in the table, and its reference count
  leaves room for the reference of the monitor.
\<close>

definition addable :: "'w hs_state \<Rightarrow> hs_htable \<Rightarrow> addr list list \<Rightarrow> addr \<Rightarrow> hs_device \<Rightarrow> bool" where
  "addable s t B dev d \<longleftrightarrow> devs s dev = Some d \<and> d_key d \<noteq> None \<and> refcount d + 1 \<noteq> 0 \<and>
     hnode_allocated (nodes s) dev \<and> dev \<notin> slots t \<and> dev \<notin> set (concat B)"

text \<open>The state in which \<open>_hs_monitor_add\<close> calls the callbacks.\<close>

lemma dev_rep_add:
  assumes rep: "dev_rep s mp t B" and ok: "addable s t B dev d" and key: "d_key d = Some key"
    and new: "registry s B (Some key, d_iface d) = None"
  defines "d1 \<equiv> d\<lparr>d_monitor := mp, d_state := HS_DEVICE_STATUS_ONLINE, refcount := refcount d + 1\<rparr>"
    and "i \<equiv> bucket_of t (hs_htable_hash_str key)"
  shows "\<exists>m. hs_htable_add t (hs_htable_hash_str key) dev (nodes s) = Some m \<and>
     dev_rep (s\<lparr>devs := (devs s)(dev \<mapsto> d1), nodes := m\<rparr>) mp t (B[i := dev # B ! i])"
proof -
  have tab: "htable_rep (nodes s) t B" using rep by (simp add: dev_rep_def)
  obtain m where m: "hs_htable_add t (hs_htable_hash_str key) dev (nodes s) = Some m"
      "htable_rep m t (B[i := dev # B ! i])"
      "h_key m = (h_key (nodes s))(dev \<mapsto> hs_htable_hash_str key)"
    using hs_htable_add_rep [OF tab, of dev "hs_htable_hash_str key"] ok
    unfolding i_def addable_def by blast
  let ?s = "s\<lparr>devs := (devs s)(dev \<mapsto> d1), nodes := m\<rparr>"
  have i: "i < length B" using htable_repD(1,2) [OF tab] bucket_of_less by (simp add: i_def)
  have B': "set (concat (B[i := dev # B ! i])) = insert dev (set (concat B))"
    by (rule set_concat_push [OF i])
  have old: "dev_ok ?s mp x \<and> ident ?s x = ident s x" if "x \<in> set (concat B)" for x
    using that rep ok m(3) by (fastforce simp: dev_rep_def dev_ok_def ident_def addable_def)
  have self: "dev_ok ?s mp dev" "ident ?s dev = (Some key, d_iface d)"
    using ok key m(3) by (auto simp: dev_ok_def d1_def addable_def ident_def)
  have "ident s x \<noteq> (Some key, d_iface d)" if "x \<in> set (concat B)" for x
    using that new registry_Some [of s B "(Some key, d_iface d)" x] rep by (auto simp: dev_rep_def)
  then have "ident ?s dev \<notin> ident ?s ` set (concat B)"
    unfolding self(2) using old by (force simp del: set_concat)
  moreover have "inj_on (ident ?s) (set (concat B))"
    using old rep by (simp add: dev_rep_def inj_on_def)
  ultimately have "inj_on (ident ?s) (set (concat (B[i := dev # B ! i])))"
    unfolding B' by (simp only: inj_on_insert) blast
  moreover have "\<forall>x \<in> set (concat (B[i := dev # B ! i])). dev_ok ?s mp x"
    unfolding B' using old self by blast
  ultimately show ?thesis using m(1,2) unfolding dev_rep_def by auto
qed

lemma registry_add:
  assumes rep: "dev_rep s mp t B" and rep': "dev_rep s' mp t (B[i := dev # B ! i])" and i: "i < length B"
    and self: "ident s' dev = j" and old: "\<And>x. x \<in> set (concat B) \<Longrightarrow> ident s' x = ident s x"
    and new: "registry s B j = None"
  shows "registry s' (B[i := dev # B ! i]) = (registry s B)(j \<mapsto> dev)"
proof (rule registry_eqI)
  show "inj_on (ident s') (set (concat (B[i := dev # B ! i])))" using rep' by (simp add: dev_rep_def)
  have inj: "inj_on (ident s) (set (concat B))" using rep by (simp add: dev_rep_def)
  have B': "x \<in> set (concat (B[i := dev # B ! i])) \<longleftrightarrow> x = dev \<or> x \<in> set (concat B)" for x
    by (simp only: set_concat_push [OF i] insert_iff)
  fix i' x
  show "((registry s B)(j \<mapsto> dev)) i' = Some x \<longleftrightarrow>
      x \<in> set (concat (B[i := dev # B ! i])) \<and> ident s' x = i'"
  proof (cases "i' = j")
    case True
    have "ident s x \<noteq> j" if "x \<in> set (concat B)" for x
      using that new registry_Some [OF inj, of j x] by auto
    with True self old show ?thesis unfolding B' by (auto simp del: set_concat)
  next
    case False
    with registry_Some [OF inj, of i' x] self old show ?thesis
      unfolding B' by (auto simp del: set_concat)
  qed
qed

theorem hs_monitor_add_known:
  assumes rep: "monitor_rep s mp C B" and dev: "devs s dev = Some d" "d_key d = Some key"
    and known: "registry s B (Some key, d_iface d) \<noteq> None"
  shows "hs_monitor_add call mp dev s = Some (0, s)"
proof -
  obtain mon where mon: "mons s mp = Some mon" "dev_rep s mp (m_devices mon) B"
    using rep by (auto simp: monitor_rep_def)
  from mon dev known add_search_run [OF mon(2), of key "d_iface d"] show ?thesis
    by (simp add: hs_monitor_add_def)
qed

theorem hs_monitor_add_new:
  assumes wb: "well_behaved call" and rep: "monitor_rep s mp C B" and mon: "mons s mp = Some mon"
    and ok: "addable s (m_devices mon) B dev d" and key: "d_key d = Some key"
    and new: "registry s B (Some key, d_iface d) = None"
  defines "i \<equiv> bucket_of (m_devices mon) (hs_htable_hash_str key)"
    and "d1 \<equiv> d\<lparr>d_monitor := mp, d_state := HS_DEVICE_STATUS_ONLINE, refcount := refcount d + 1\<rparr>"
  shows "\<exists>r m C' s'. hs_monitor_add call mp dev s = Some (r, s') \<and>
     notified call dev C (s\<lparr>devs := (devs s)(dev \<mapsto> d1), nodes := m\<rparr>) r C' s' \<and>
     monitor_rep s' mp C' (B[i := dev # B ! i]) \<and> mons s' = mons s \<and> cb_sub s C s' C' \<and>
     registry s' (B[i := dev # B ! i]) = (registry s B)((Some key, d_iface d) \<mapsto> dev)"
proof -
  let ?t = "m_devices mon" and ?k = "hs_htable_hash_str key"
  have dr: "dev_rep s mp ?t B" and cr: "cb_rep s mp C" using rep mon by (auto simp: monitor_rep_def)
  obtain m where m: "hs_htable_add ?t ?k dev (nodes s) = Some m"
      "dev_rep (s\<lparr>devs := (devs s)(dev \<mapsto> d1), nodes := m\<rparr>) mp ?t (B[i := dev # B ! i])"
    using dev_rep_add [OF dr ok key new] unfolding i_def d1_def by blast
  let ?s1 = "s\<lparr>devs := (devs s)(dev \<mapsto> d1), nodes := m\<rparr>"
  have "cb_rep ?s1 mp C" using cr by (simp add: cb_rep_def)
  moreover have "devs ?s1 dev = Some d1" "d_monitor d1 = mp" "mons ?s1 mp = Some mon"
    using mon by (simp_all add: d1_def)
  ultimately obtain r C' s' where tr: "trigger_callbacks call dev ?s1 = Some (r, s')"
      "notified call dev C ?s1 r C' s'" "cb_rep s' mp C'" "trig_frame (set (mp # C)) ?s1 s'"
    using trigger_callbacks_run [OF wb] by blast
  have dev: "devs s dev = Some d" "dev \<noteq> 0" using ok by (auto simp: addable_def hnode_allocated_def)
  have "hs_monitor_add call mp dev s = Some (r, s')"
    using mon dev key new m(1) tr(1) add_search_run [OF dr, of key "d_iface d"]
    by (simp add: hs_monitor_add_def hs_device_ref_def d1_def)
  moreover have dr': "dev_rep s' mp ?t (B[i := dev # B ! i])"
    using tr(4) m(2) by (rule dev_rep_trig_frame)
  moreover have mons: "mons s' = mons s" using tr(4) by (simp add: trig_frame_def)
  moreover have "registry s' (B[i := dev # B ! i]) = (registry s B)((Some key, d_iface d) \<mapsto> dev)"
  proof (rule registry_add [OF dr dr'])
    have same: "ident s' x = ident ?s1 x" for x
      using tr(4) by (intro ident_same_devs) (simp add: trig_frame_def)
    show "ident s' dev = (Some key, d_iface d)" using key unfolding same by (simp add: ident_def d1_def)
    show "ident s' x = ident s x" if "x \<in> set (concat B)" for x
      using that ok unfolding same by (auto simp: ident_def addable_def)
    show "i < length B"
      using dr htable_repD(1,2) bucket_of_less unfolding dev_rep_def i_def by metis
  qed (rule new)
  moreover have "cb_sub s C s' C'"
    using notified_cb_sub [OF wb tr(2) _ tr(4), of mp] cr dev(1) by (auto simp: cb_rep_def cb_sub_def)
  ultimately show ?thesis using tr mon by (auto simp: monitor_rep_def)
qed

section \<open>Removing the devices of a key\<close>

text \<open>Dropping the reference of the monitor: the device stays as it is, or is freed.\<close>

lemma hs_device_unref_cases:
  assumes "x \<noteq> NULL" and "devs s x = Some d"
  obtains s' where "hs_device_unref x s = Some s'" "lists s' = lists s" "cbs s' = cbs s"
    "mons s' = mons s" "\<And>y. y \<noteq> x \<Longrightarrow> devs s' y = devs s y"
    "nodes s' = nodes s \<or> nodes s' = hnode_free (nodes s) x"
proof (cases "refcount d > 1")
  case True
  let ?s = "s\<lparr>devs := (devs s)(x \<mapsto> d\<lparr>refcount := refcount d - 1\<rparr>)\<rparr>"
  show thesis by (rule that [of ?s]) (use assms True in \<open>simp_all add: hs_device_unref_run\<close>)
next
  case False
  show thesis
    by (rule that [of "device_free x s"]) (use assms False in \<open>simp_all add: hs_device_unref_run\<close>)
qed

lemma set_concat_shrink:
  assumes "i < length B" and "set ys \<subseteq> set (B ! i)"
  shows "set (concat (B[i := ys])) \<subseteq> set (concat B)"
  using assms in_concat_update [OF assms(1)] in_concat_nth [of _ B] by blast

lemma removed_node:
  assumes tab: "htable_rep m t B" and i: "i < length B" and B: "B ! i = ds @ x # rest"
  shows "x \<noteq> NULL" "x \<notin> slots t" "x \<in> set (concat B)" "x \<notin> set (concat (B[i := ds @ rest]))"
    "set (concat (B[i := ds @ rest])) \<subseteq> set (concat B)"
proof -
  show "x \<noteq> NULL" "x \<notin> slots t" using htable_repD(4) [OF tab i, of x] B by auto
  have "x \<notin> set (B ! j)" if "j < length B" "j \<noteq> i" for j
    using htable_rep_bucket_unique [OF tab that(1) i, of x] that(2) B by auto
  moreover have "x \<notin> set (ds @ rest)"
    using hring_distinct htable_repD(3) [OF tab i] B by fastforce
  ultimately show "x \<notin> set (concat (B[i := ds @ rest]))" unfolding in_concat_update [OF i] by blast
  show "x \<in> set (concat B)" using i B in_concat_nth by fastforce
  show "set (concat (B[i := ds @ rest])) \<subseteq> set (concat B)"
    using B by (intro set_concat_shrink [OF i]) auto
qed

text \<open>Unlinking a device and dropping the monitor's reference, in a state \<open>s2\<close> after the callbacks.\<close>

lemma unlink_unref:
  assumes dr: "dev_rep s mp t B" and i: "i < length B" and B: "B ! i = ds @ x # rest"
    and s2: "nodes s2 = nodes s" "devs s2 x = Some d2"
      "\<And>y. y \<noteq> x \<Longrightarrow> rel_option same_device (devs s y) (devs s2 y)"
  obtains m s' where "hs_htable_remove x (nodes s2) = Some m"
    "hs_device_unref x (s2\<lparr>nodes := m\<rparr>) = Some s'"
    "lists s' = lists s2" "cbs s' = cbs s2" "mons s' = mons s2" "dev_rep s' mp t (B[i := ds @ rest])"
    "\<forall>y \<in> set (concat (B[i := ds @ rest])). ident s' y = ident s y" "dom (devs s') \<subseteq> dom (devs s2)"
proof -
  let ?B = "B[i := ds @ rest]"
  have tab: "htable_rep (nodes s) t B" using dr by (simp add: dev_rep_def)
  note x = removed_node [OF tab i B]
  obtain m where m: "hs_htable_remove x (nodes s) = Some m" "htable_rep m t ?B" "h_key m = h_key (nodes s)"
    using hs_htable_remove_rep [OF tab i B] by blast
  obtain s' where s': "hs_device_unref x (s2\<lparr>nodes := m\<rparr>) = Some s'" "lists s' = lists s2"
      "cbs s' = cbs s2" "mons s' = mons s2" "\<And>y. y \<noteq> x \<Longrightarrow> devs s' y = devs s2 y"
      "nodes s' = m \<or> nodes s' = hnode_free m x"
    by (rule hs_device_unref_cases [of x "s2\<lparr>nodes := m\<rparr>" d2]) (use x s2 in auto)
  have tab': "htable_rep (nodes s') t ?B"
    using s'(6) m(2) htable_rep_hnode_free [OF m(2) x(2,4)] by auto
  have same: "h_key (nodes s') y = h_key (nodes s) y \<and> rel_option same_device (devs s y) (devs s' y)"
    if "y \<in> set (concat ?B)" for y
  proof -
    have "y \<noteq> x" using that x(4) by blast
    then show ?thesis using s'(5,6) s2(3) m(3) by (auto simp: hnode_free_def)
  qed
  note part = dev_rep_part [OF dr tab' x(5) same]
  have "dom (devs s') \<subseteq> dom (devs s2)" using s'(5) s2(2) by (metis domI domIff subsetI)
  then show thesis
    by (intro that [of m s']) (use m s' s2 part in \<open>simp_all del: set_concat\<close>)
qed

text \<open>One device of the bucket whose key matches: notified, unlinked and released.\<close>

lemma remove_hit:
  assumes wb: "well_behaved call" and rep: "monitor_rep s mp C B" and mon: "mons s mp = Some mon"
    and i: "i < length B" and B: "B ! i = ds @ x # rest" and hit: "fst (ident s x) = Some key"
  shows "\<exists>s' C'. remove_body call key x s = Some (Continue, s') \<and> mons s' = mons s \<and>
     monitor_rep s' mp C' (B[i := ds @ rest]) \<and> cb_sub s C s' C' \<and>
     (\<forall>y \<in> set (concat (B[i := ds @ rest])). ident s' y = ident s y)"
proof -
  let ?t = "m_devices mon"
  have dr: "dev_rep s mp ?t B" and cr: "cb_rep s mp C" using rep mon by (auto simp: monitor_rep_def)
  have "x \<in> set (concat B)" using i B in_concat_nth by fastforce
  then obtain d where d: "devs s x = Some d" "d_key d = Some key" "d_monitor d = mp"
    using dr hit by (fastforce simp: dev_rep_def dev_ok_def ident_def)
  let ?d1 = "d\<lparr>d_state := HS_DEVICE_STATUS_DISCONNECTED\<rparr>"
  let ?s1 = "s\<lparr>devs := (devs s)(x \<mapsto> ?d1)\<rparr>"
  have "cb_rep ?s1 mp C" "devs ?s1 x = Some ?d1" "d_monitor ?d1 = mp" "mons ?s1 mp = Some mon"
    using cr d mon by (simp_all add: cb_rep_def)
  then obtain r C' s2 where tr: "trigger_callbacks call x ?s1 = Some (r, s2)"
      "notified call x C ?s1 r C' s2" "cb_rep s2 mp C'" "trig_frame (set (mp # C)) ?s1 s2"
    using trigger_callbacks_run [OF wb] by blast
  have s2: "nodes s2 = nodes s" "mons s2 = mons s" and sd: "same_devs (devs ?s1) (devs s2)"
    using tr(4) by (simp_all add: trig_frame_def)
  obtain d2 where d2: "devs s2 x = Some d2" by (rule same_devsD [OF sd, of x ?d1]) simp
  have other: "rel_option same_device (devs s y) (devs s2 y)" if "y \<noteq> x" for y
  proof -
    have "rel_option same_device (devs ?s1 y) (devs s2 y)" using sd unfolding same_devs_def by blast
    with that show ?thesis by simp
  qed
  obtain m s' where s': "hs_htable_remove x (nodes s2) = Some m"
      "hs_device_unref x (s2\<lparr>nodes := m\<rparr>) = Some s'" "lists s' = lists s2" "cbs s' = cbs s2"
      "mons s' = mons s2" "dev_rep s' mp ?t (B[i := ds @ rest])"
      "\<forall>y \<in> set (concat (B[i := ds @ rest])). ident s' y = ident s y" "dom (devs s') \<subseteq> dom (devs s2)"
    by (rule unlink_unref [OF dr i B s2(1) d2 other])
  have "remove_body call key x s = Some (Continue, s')"
    using d tr(1) s'(1,2) by (simp add: remove_body_def)
  moreover have "cb_rep s' mp C'" using tr(3) s' by (simp add: cb_rep_def)
  moreover have "dom (devs s') \<subseteq> dom (devs s)"
    using s'(8) trig_frame_dom [OF tr(4)] d(1) by (simp add: insert_absorb domI)
  then have "cb_sub s C s' C'"
    using notified_cb_sub [OF wb tr(2) _ tr(4), of mp] cr s'(4) by (simp add: cb_rep_def cb_sub_def)
  ultimately show ?thesis
    using s' s2 mon by (auto simp: monitor_rep_def simp del: set_concat)
qed

text \<open>One round of the loop of \<open>_hs_monitor_remove\<close>, over the node \<open>x\<close> of the bucket.\<close>

lemma remove_round:
  fixes key :: string
  assumes wb: "well_behaved call" and rep: "monitor_rep s mp C B" and mon: "mons s mp = Some mon"
    and i: "i < length B" and B: "B ! i = ds @ x # rest"
  defines "es \<equiv> (if fst (ident s x) = Some key then ds else ds @ [x])"
  shows "\<exists>s' C'. hash_filter nodes (hs_htable_hash_str key) (remove_body call key) x s = Some (Continue, s') \<and>
     mons s' = mons s \<and> monitor_rep s' mp C' (B[i := es @ rest]) \<and> cb_sub s C s' C' \<and>
     (\<forall>y \<in> set (concat (B[i := es @ rest])). ident s' y = ident s y)"
proof -
  have "dev_rep s mp (m_devices mon) B" using rep mon by (auto simp: monitor_rep_def)
  moreover have "x \<in> set (concat B)" using i B in_concat_nth by fastforce
  ultimately obtain d k where d: "devs s x = Some d" "d_key d = Some k"
      "h_key (nodes s) x = Some (hs_htable_hash_str k)"
    by (fastforce simp: dev_rep_def dev_ok_def)
  have id: "fst (ident s x) = Some k" using d by (simp add: ident_def)
  show ?thesis
  proof (cases "k = key")
    case True
    with id have hit: "fst (ident s x) = Some key" by simp
    then have "es = ds" by (simp add: es_def)
    with remove_hit [OF wb rep mon i B hit] d(3) True show ?thesis by (simp add: hash_filter_def)
  next
    case False
    then have "es @ rest = B ! i" using id B by (simp add: es_def)
    then have "B[i := es @ rest] = B" by simp
    moreover have "hash_filter nodes (hs_htable_hash_str key) (remove_body call key) x s = Some (Continue, s)"
      using d False by (simp add: hash_filter_def remove_body_def)
    ultimately show ?thesis using rep by (intro exI [of _ s] exI [of _ C]) auto
  qed
qed

definition other_key :: "'w hs_state \<Rightarrow> string \<Rightarrow> addr list \<Rightarrow> addr list" where
  "other_key s key xs = filter (\<lambda>x. fst (ident s x) \<noteq> Some key) xs"

lemma remove_fold:
  assumes wb: "well_behaved call" and i: "i < length B"
  shows "monitor_rep s mp C B \<Longrightarrow> mons s mp = Some mon \<Longrightarrow> B ! i = ds @ xs \<Longrightarrow> length B = n \<Longrightarrow>
     \<exists>s' C'. flow_fold (hash_filter nodes (hs_htable_hash_str key) (remove_body call key)) h xs s =
         Some (h, Continue, s') \<and> mons s' = mons s \<and> cb_sub s C s' C' \<and>
       monitor_rep s' mp C' (B[i := ds @ other_key s key xs]) \<and>
       (\<forall>y \<in> set (concat (B[i := ds @ other_key s key xs])). ident s' y = ident s y)"
  using i
proof (induction xs arbitrary: s C B ds)
  case Nil
  then have "B[i := ds @ other_key s key []] = B" by (auto simp: other_key_def)
  with Nil show ?case by (intro exI [of _ s] exI [of _ C]) auto
next
  case (Cons x xs)
  define es where "es = (if fst (ident s x) = Some key then ds else ds @ [x])"
  obtain s1 C1 where r: "hash_filter nodes (hs_htable_hash_str key) (remove_body call key) x s =
        Some (Continue, s1)" "mons s1 = mons s" "monitor_rep s1 mp C1 (B[i := es @ xs])"
      "cb_sub s C s1 C1" "\<forall>y \<in> set (concat (B[i := es @ xs])). ident s1 y = ident s y"
    using remove_round [OF wb Cons.prems(1,2,5,3), of key] unfolding es_def by blast
  have B1: "B[i := es @ xs] ! i = es @ xs" "i < length (B[i := es @ xs])" using Cons.prems by simp_all
  then have "set xs \<subseteq> set (concat (B[i := es @ xs]))" using in_concat_nth by fastforce
  then have ids: "ident s1 y = ident s y" if "y \<in> set xs" for y using r(5) that by blast
  then have fl: "other_key s1 key xs = other_key s key xs"
    unfolding other_key_def by (intro filter_cong) auto
  have eq: "B[i := es @ xs, i := es @ other_key s1 key xs] =
      B[i := ds @ other_key s key (x # xs)]"
    unfolding fl by (simp add: es_def other_key_def)
  have sub: "set (concat (B[i := ds @ other_key s key (x # xs)])) \<subseteq>
      set (concat (B[i := es @ xs]))"
    unfolding eq [symmetric] using B1 by (intro set_concat_shrink) (auto simp: other_key_def)
  have "mons s1 mp = Some mon" using r(2) Cons.prems(2) by simp
  from Cons.IH [OF r(3) this B1(1) _ B1(2)] Cons.prems(4)
  obtain s' C' where "flow_fold (hash_filter nodes (hs_htable_hash_str key) (remove_body call key)) h xs s1 =
        Some (h, Continue, s')" "mons s' = mons s1" "cb_sub s1 C1 s' C'"
      "monitor_rep s' mp C' (B[i := ds @ other_key s key (x # xs)])"
      "\<forall>y \<in> set (concat (B[i := ds @ other_key s key (x # xs)])). ident s' y = ident s1 y"
    unfolding eq by auto
  moreover from this(5) r(5) sub have
      "\<forall>y \<in> set (concat (B[i := ds @ other_key s key (x # xs)])). ident s' y = ident s y"
    by (intro ballI) (metis subsetD)
  ultimately show ?case using r(1,2,4)
    by (intro exI [of _ s'] exI [of _ C']) (auto intro: cb_sub_trans)
qed

lemma other_key_elsewhere:
  assumes dr: "dev_rep s mp t B" and j: "j < length B" "j \<noteq> bucket_of t (hs_htable_hash_str key)"
  shows "other_key s key (B ! j) = B ! j"
  unfolding other_key_def
proof (rule filter_True, rule ballI)
  fix x assume x: "x \<in> set (B ! j)"
  have tab: "htable_rep (nodes s) t B" using dr by (simp add: dev_rep_def)
  have "x \<in> set (concat B)" using x j(1) in_concat_nth [of x B] by blast
  then obtain d k where d: "devs s x = Some d" "d_key d = Some k"
      "h_key (nodes s) x = Some (hs_htable_hash_str k)"
    using dr by (fastforce simp: dev_rep_def dev_ok_def)
  moreover have "bucket_of t (hs_htable_hash_str k) = j" using htable_repD(4) [OF tab j(1) x] d by auto
  ultimately show "fst (ident s x) \<noteq> Some key" using j(2) by (auto simp: ident_def)
qed

theorem hs_monitor_remove_run:
  assumes wb: "well_behaved call" and rep: "monitor_rep s mp C B"
  shows "\<exists>s' C'. hs_monitor_remove call mp key s = Some s' \<and> mons s' = mons s \<and> cb_sub s C s' C' \<and>
     monitor_rep s' mp C' (map (other_key s key) B) \<and>
     (\<forall>y \<in> set (concat (map (other_key s key) B)). ident s' y = ident s y)"
proof -
  obtain mon where mon: "mons s mp = Some mon" "dev_rep s mp (m_devices mon) B"
    using rep by (auto simp: monitor_rep_def)
  let ?t = "m_devices mon" and ?k = "hs_htable_hash_str key"
  let ?i = "bucket_of ?t ?k" and ?f = "hash_filter nodes ?k (remove_body call key)"
  have tab: "htable_rep (nodes s) ?t B" using mon by (simp add: dev_rep_def)
  have i: "?i < length B" using htable_repD(1,2) [OF tab] bucket_of_less by simp
  let ?I = "\<lambda>rest s'. \<exists>C' B' ds. monitor_rep s' mp C' B' \<and> mons s' mp = Some mon \<and> length B' = length B \<and>
     B' ! ?i = ds @ rest"
  have eq: "hs_htable_foreach_hash nodes ?t ?k (remove_body call key) s =
      map_option snd (flow_fold ?f (ht_heads ?t + ?i) (B ! ?i) s)"
  proof (rule hs_htable_foreach_hash_loop [where I = ?I])
    show "hring (nodes s) (ht_heads ?t + ?i) (B ! ?i)" by (rule htable_repD(3) [OF tab i])
    show "?I (B ! ?i) s" using rep mon(1) by (intro exI [of _ C] exI [of _ B] exI [of _ "[]"]) simp
    show "ht_size ?t \<noteq> 0" by (rule htable_repD(2) [OF tab])
    show "chain (h_next (nodes s')) rest (ht_heads ?t + ?i)" if "?I rest s'" for rest s'
    proof -
      from that obtain C' B' ds where "monitor_rep s' mp C' B'" "mons s' mp = Some mon"
          "length B' = length B" "B' ! ?i = ds @ rest" by blast
      then have "hring (nodes s') (ht_heads ?t + ?i) (ds @ rest)"
        using i htable_repD(3) [of "nodes s'" ?t B' ?i] by (auto simp: monitor_rep_def dev_rep_def)
      then show ?thesis by (rule hring_chain)
    qed
    show "?I rest s'" if "?I (x # rest) s1" and b: "?f x s1 = Some (Continue, s')" for x rest s1 s'
    proof -
      from that(1) obtain C1 B1 ds where 1: "monitor_rep s1 mp C1 B1" "mons s1 mp = Some mon"
          "length B1 = length B" "B1 ! ?i = ds @ x # rest" by blast
      let ?es = "if fst (ident s1 x) = Some key then ds else ds @ [x]"
      obtain C' where "mons s' = mons s1" "monitor_rep s' mp C' (B1[?i := ?es @ rest])"
        using remove_round [OF wb 1(1,2) _ 1(4), of key] b i 1(3) by auto
      then show ?thesis using 1 i by (intro exI [of _ C'] exI [of _ "B1[?i := ?es @ rest]"] exI [of _ ?es]) auto
    qed
  qed
  have up: "map (other_key s key) B = B[?i := [] @ other_key s key (B ! ?i)]"
  proof (rule nth_equalityI)
    fix j assume "j < length (map (other_key s key) B)"
    then show "map (other_key s key) B ! j = B[?i := [] @ other_key s key (B ! ?i)] ! j"
      using other_key_elsewhere [OF mon(2), of j key] by (cases "j = ?i") auto
  qed simp
  obtain s' C' where "flow_fold ?f (ht_heads ?t + ?i) (B ! ?i) s = Some (ht_heads ?t + ?i, Continue, s')"
      "mons s' = mons s" "cb_sub s C s' C'" "monitor_rep s' mp C' (map (other_key s key) B)"
      "\<forall>y \<in> set (concat (map (other_key s key) B)). ident s' y = ident s y"
    using remove_fold [OF wb i rep mon(1), of "[]" "B ! ?i" _ key "ht_heads ?t + ?i"] unfolding up by auto
  with eq mon(1) show ?thesis
    by (intro exI [of _ s'] exI [of _ C']) (simp add: hs_monitor_remove_def del: set_concat)
qed

text \<open>In terms of the registry: every interface of the key disappears, nothing else changes.\<close>

lemma registry_other_key:
  assumes dr: "dev_rep s mp t B" and dr': "dev_rep s' mp t (map (other_key s key) B)"
    and old: "\<forall>y \<in> set (concat (map (other_key s key) B)). ident s' y = ident s y"
  shows "registry s' (map (other_key s key) B) = (\<lambda>(k, i). if k = Some key then None else registry s B (k, i))"
proof (rule registry_eqI)
  show "inj_on (ident s') (set (concat (map (other_key s key) B)))" using dr' by (simp add: dev_rep_def)
  have inj: "inj_on (ident s) (set (concat B))" using dr by (simp add: dev_rep_def)
  have B': "x \<in> set (concat (map (other_key s key) B)) \<longleftrightarrow> x \<in> set (concat B) \<and> fst (ident s x) \<noteq> Some key" for x
    by (auto simp: other_key_def)
  fix j x
  show "(case j of (k, i) \<Rightarrow> if k = Some key then None else registry s B (k, i)) = Some x \<longleftrightarrow>
      x \<in> set (concat (map (other_key s key) B)) \<and> ident s' x = j"
  proof (cases "x \<in> set (concat (map (other_key s key) B))")
    case True
    with old have "ident s' x = ident s x" by blast
    with True B' [of x] registry_Some [OF inj, of j x] show ?thesis
      by (cases j) (auto simp del: set_concat)
  next
    case False
    with B' [of x] registry_Some [OF inj, of j x] show ?thesis
      by (cases j) (auto simp del: set_concat)
  qed
qed

end
