(* ===== verification/Lifecycle.thy ===== *)
theory Lifecycle
  imports Registry
begin

text \<open>
  The rest of the monitor's life: initialisation, registering and deregistering callbacks with
  their identifiers, listing the devices, and the release of everything the monitor holds. The
  last section is a step relation over the operations a program may apply to one monitor, with the
  invariant of every reachable state.
\<close>

section \<open>Specifications\<close>

text \<open>What \<open>hs_monitor_list\<close> does with the sequence of devices: stop at the first non-zero result.\<close>

fun visit ::
  "'w callback_fun \<Rightarrow> fptr \<Rightarrow> udata \<Rightarrow> addr list \<Rightarrow> 'w hs_state \<Rightarrow> (int \<times> 'w hs_state) option" where
  "visit call f u [] s = Some (0, s)"
| "visit call f u (x # xs) s = do {
     (r, s) \<leftarrow> call f x u s;
     if r \<noteq> 0 then Some (r, s) else visit call f u xs s
   }"

text \<open>What the release of the monitor leaves of a device.\<close>

definition dropped :: "hs_device \<Rightarrow> hs_device option" where
  "dropped d = (if refcount d > 1 then Some (d\<lparr>d_monitor := NULL, refcount := refcount d - 1\<rparr>) else None)"

text \<open>The identifiers of the registered callbacks: increasing, and below the next one.\<close>

definition cb_ids :: "'w hs_state \<Rightarrow> addr list \<Rightarrow> int list" where
  "cb_ids s C = map (\<lambda>c. case cbs s c of None \<Rightarrow> -1 | Some cb \<Rightarrow> cb_id cb) C"

definition ids_ok :: "'w hs_state \<Rightarrow> addr \<Rightarrow> addr list \<Rightarrow> bool" where
  "ids_ok s mp C \<longleftrightarrow> (\<exists>mon. mons s mp = Some mon \<and> 0 \<le> callback_id mon \<and>
     sorted_wrt (<) (cb_ids s C @ [callback_id mon]) \<and> (\<forall>n \<in> set (cb_ids s C). 0 \<le> n))"

section \<open>Listing\<close>

lemma list_fold_visit:
  "map_option loop_end (flow_fold (list_body call f u) h xs s) \<bind>
     (\<lambda>(fl, s). case fl of Return r \<Rightarrow> Some (r, s) | _ \<Rightarrow> Some (0, s)) = visit call f u xs s"
  by (induction xs arbitrary: s) (auto simp: loop_end_def list_body_def split: bind_splits)

lemma hs_monitor_list_visit:
  assumes wb: "well_behaved call" and rep: "monitor_rep s mp C B" and "mp \<noteq> NULL" and "f \<noteq> NULL"
  shows "hs_monitor_list call mp f u s = visit call f u (concat B) s"
proof -
  obtain mon where mon: "mons s mp = Some mon" "htable_rep (nodes s) (m_devices mon) B"
    using rep by (auto simp: monitor_rep_def dev_rep_def)
  have "h_next (nodes s2) = h_next (nodes s1)" if "list_body call f u x s1 = Some (Continue, s2)" for x s1 s2
    using that wb by (auto simp: list_body_def split: bind_splits if_splits
        elim!: well_behavedD [of call f x u s1] simp: cb_frame_def)
  with hs_htable_foreach_frame [of nodes s "m_devices mon" B "list_body call f u" 0] mon(2)
  have "hs_htable_foreach nodes (m_devices mon) (list_body call f u) s =
      map_option loop_end (flow_fold (list_body call f u) 0 (concat B) s)" by blast
  then show ?thesis
    using assms(3,4) mon list_fold_visit [of call f u 0 "concat B" s] by (simp add: hs_monitor_list_def)
qed

section \<open>Registering and deregistering\<close>

lemma same_outside_alloc: "same_outside m (list_alloc m p) {p}"
  by (simp add: same_outside_def list_alloc_def)

lemma register_run:
  assumes rep: "monitor_rep s mp C B" and mon: "mons s mp = Some mon" and ids: "ids_ok s mp C"
    and args: "mp \<noteq> NULL" "f \<noteq> NULL" "p \<noteq> NULL" "p \<notin> set (mp # C)" and room: "callback_id mon < INT_MAX"
  shows "\<exists>s'. hs_monitor_register_callback p mp f u s = Some (callback_id mon, s') \<and>
     monitor_rep s' mp (C @ [p]) B \<and> ids_ok s' mp (C @ [p]) \<and>
     cbs s' = (cbs s)(p \<mapsto> \<lparr>cb_id = callback_id mon, cb_f = f, cb_udata = u\<rparr>) \<and>
     mons s' = (mons s)(mp \<mapsto> mon\<lparr>callback_id := callback_id mon + 1\<rparr>) \<and>
     devs s' = devs s \<and> nodes s' = nodes s"
proof -
  have "ring (lists s) mp C" using rep by (simp add: monitor_rep_def cb_rep_def)
  then have "ring (list_alloc (lists s) p) mp C"
    using args by (subst ring_same_outside [OF same_outside_alloc]) auto
  moreover have "list_allocated (list_alloc (lists s) p) p"
    using args by (simp add: list_allocated_def list_alloc_def)
  ultimately obtain l where l: "hs_list_add_tail (list_alloc (lists s) p) mp p = Some l" "ring l mp (C @ [p])"
    using hs_list_add_tail_ring args by metis
  let ?s' = "s\<lparr>lists := l, cbs := (cbs s)(p \<mapsto> \<lparr>cb_id = callback_id mon, cb_f = f, cb_udata = u\<rparr>),
     mons := (mons s)(mp \<mapsto> mon\<lparr>callback_id := callback_id mon + 1\<rparr>)\<rparr>"
  have run: "hs_monitor_register_callback p mp f u s = Some (callback_id mon, ?s')"
    using args mon room l(1) by (simp add: hs_monitor_register_callback_def Let_def)
  have "cb_rep ?s' mp (C @ [p])" using rep l(2) by (auto simp: monitor_rep_def cb_rep_def)
  moreover have "dev_rep s mp (m_devices mon) B" using rep mon by (auto simp: monitor_rep_def)
  then have "dev_rep ?s' mp (m_devices mon) B" by (rule dev_rep_frame) simp_all
  moreover have "cb_ids ?s' (C @ [p]) = cb_ids s C @ [callback_id mon]"
    using args by (auto simp: cb_ids_def)
  ultimately show ?thesis
    using run ids mon by (intro exI [of _ ?s'])
      (auto simp: monitor_rep_def ids_ok_def sorted_wrt_append)
qed

lemma register_no_memory:
  assumes "mp \<noteq> NULL" and "f \<noteq> NULL"
  shows "hs_monitor_register_callback NULL mp f u s = Some (fail_with HS_ERROR_MEMORY None s)"
  using assms by (simp add: hs_monitor_register_callback_def)

lemma deregister_fold:
  assumes "\<forall>c \<in> set C. cbs s c \<noteq> None"
  shows "if cid \<in> set (cb_ids s C)
     then \<exists>xs c ys cb. C = xs @ c # ys \<and> cbs s c = Some cb \<and> cb_id cb = cid \<and> cid \<notin> set (cb_ids s xs) \<and>
       map_option snd (flow_fold (deregister_body cid) h C s) = map_option (Pair Break) (drop_callback c s)
     else map_option snd (flow_fold (deregister_body cid) h C s) = Some (Continue, s)"
  using assms
proof (induction C)
  case Nil
  then show ?case by (simp add: cb_ids_def)
next
  case (Cons c C)
  then obtain cb where cb: "cbs s c = Some cb" by auto
  show ?case
  proof (cases "cb_id cb = cid")
    case True
    with cb have "map_option snd (flow_fold (deregister_body cid) h (c # C) s) =
        map_option (Pair Break) (drop_callback c s)"
      by (cases "drop_callback c s") (simp_all add: deregister_body_def)
    with True cb show ?thesis
      by (auto simp: cb_ids_def intro!: exI [of _ "[]"])
  next
    case False
    then have step: "flow_fold (deregister_body cid) h (c # C) s = flow_fold (deregister_body cid) h C s"
      using cb by (simp add: deregister_body_def)
    have mem: "cid \<in> set (cb_ids s (c # C)) \<longleftrightarrow> cid \<in> set (cb_ids s C)" using cb False by (simp add: cb_ids_def)
    have ext: "cid \<notin> set (cb_ids s xs) \<Longrightarrow> cid \<notin> set (cb_ids s (c # xs))" for xs
      using cb False by (simp add: cb_ids_def)
    show ?thesis
    proof (cases "cid \<in> set (cb_ids s C)")
      case True
      with Cons.IH Cons.prems obtain xs c' ys cb' where "C = xs @ c' # ys" "cbs s c' = Some cb'"
          "cb_id cb' = cid" "cid \<notin> set (cb_ids s xs)"
          "map_option snd (flow_fold (deregister_body cid) h C s) = map_option (Pair Break) (drop_callback c' s)"
        by auto
      with ext [of xs] have "\<exists>xs d ys cb. c # C = xs @ d # ys \<and> cbs s d = Some cb \<and> cb_id cb = cid \<and>
          cid \<notin> set (cb_ids s xs) \<and>
          map_option snd (flow_fold (deregister_body cid) h C s) = map_option (Pair Break) (drop_callback d s)"
        by (intro exI [of _ "c # xs"] exI [of _ c'] exI [of _ ys] exI [of _ cb']) simp
      with True step mem show ?thesis by simp
    next
      case False
      with Cons step mem show ?thesis by simp
    qed
  qed
qed

lemma deregister_body_frame:
  "deregister_body cid x s = Some (Continue, s') \<Longrightarrow> s' = s"
  by (auto simp: deregister_body_def split: bind_splits if_splits)

lemma deregister_loop:
  assumes rep: "cb_rep s mp C"
  shows "hs_list_foreach lists (deregister_body cid) mp s = map_option snd (flow_fold (deregister_body cid) mp C s)"
proof (rule hs_list_foreach_fold [where I = "\<lambda>rest s'. s' = s \<and> (\<exists>ds. C = ds @ rest)"])
  show "chain (l_next (lists s')) rest mp" if "s' = s \<and> (\<exists>ds. C = ds @ rest)" for rest s'
    using that rep by (auto simp: cb_rep_def intro: ring_chain)
  show "s'' = s \<and> (\<exists>ds. C = ds @ rest)" if "s' = s \<and> (\<exists>ds. C = ds @ x # rest)"
    "deregister_body cid x s' = Some (Continue, s'')" for x rest s' s''
    using that deregister_body_frame by (metis append.assoc append_Cons append_Nil)
qed (use rep in \<open>auto simp: cb_rep_def\<close>)

lemma cb_ids_append: "cb_ids s (xs @ ys) = cb_ids s xs @ cb_ids s ys"
  by (simp add: cb_ids_def)

lemma cb_ids_cong: "(\<And>c. c \<in> set C \<Longrightarrow> cbs s' c = cbs s c) \<Longrightarrow> cb_ids s' C = cb_ids s C"
  by (simp add: cb_ids_def)

lemma deregister_run:
  assumes rep: "monitor_rep s mp C B" and ids: "ids_ok s mp C" and args: "mp \<noteq> NULL" "0 \<le> cid"
  shows "\<exists>C' s'. hs_monitor_deregister_callback mp cid s = Some s' \<and> monitor_rep s' mp C' B \<and>
     ids_ok s' mp C' \<and> cb_ids s' C' = remove1 cid (cb_ids s C) \<and> set C' \<subseteq> set C \<and> mons s' = mons s \<and>
     same_devs (devs s) (devs s') \<and> (\<forall>c. c \<notin> set C \<longrightarrow> cbs s' c = cbs s c)"
proof -
  have cr: "cb_rep s mp C" using rep by (simp add: monitor_rep_def)
  then have all: "\<forall>c \<in> set C. cbs s c \<noteq> None" by (simp add: cb_rep_def)
  show ?thesis
  proof (cases "cid \<in> set (cb_ids s C)")
    case False
    then have "hs_monitor_deregister_callback mp cid s = Some s"
      using deregister_fold [OF all, of cid mp] deregister_loop [OF cr, of cid] args
      by (auto simp: hs_monitor_deregister_callback_def)
    then show ?thesis
      using False rep ids by (intro exI [of _ C] exI [of _ s]) (simp add: remove1_idem)
  next
    case True
    then obtain xs c ys cb where C: "C = xs @ c # ys" "cbs s c = Some cb" "cb_id cb = cid" "cid \<notin> set (cb_ids s xs)"
        "map_option snd (flow_fold (deregister_body cid) mp C s) = map_option (Pair Break) (drop_callback c s)"
      using deregister_fold [OF all, of cid mp] by auto
    obtain l where l: "hs_list_remove (lists s) c = Some l" "cb_rep (callback_free c (s\<lparr>lists := l\<rparr>)) mp (xs @ ys)"
        "trig_frame (set (mp # C)) s (callback_free c (s\<lparr>lists := l\<rparr>))"
      using drop_callback_run [of s mp xs c ys] cr C(1) by auto
    let ?s' = "callback_free c (s\<lparr>lists := l\<rparr>)"
    have run: "hs_monitor_deregister_callback mp cid s = Some ?s'"
      using deregister_loop [OF cr, of cid] C(5) l(1) args
      by (simp add: hs_monitor_deregister_callback_def drop_callback_def)
    have "c \<notin> set (xs @ ys)" using cr C(1) by (auto simp: cb_rep_def ring_def)
    then have same: "cb_ids ?s' (xs @ ys) = cb_ids s (xs @ ys)" by (intro cb_ids_cong) auto
    have sp: "cb_ids ?s' (xs @ ys) = cb_ids s xs @ cb_ids s ys" using same by (simp only: cb_ids_append)
    have eq: "cb_ids s C = cb_ids s xs @ cid # cb_ids s ys" using C by (simp add: cb_ids_def)
    have rem: "cb_ids ?s' (xs @ ys) = remove1 cid (cb_ids s C)"
      unfolding same eq using C(4) by (simp add: remove1_append cb_ids_def)
    have "ids_ok ?s' mp (xs @ ys)"
      using ids unfolding ids_ok_def eq sp by (auto simp: sorted_wrt_append)
    moreover have "monitor_rep ?s' mp (xs @ ys) B"
      using rep l(2,3) dev_rep_trig_frame [OF l(3)] by (auto simp: monitor_rep_def)
    ultimately show ?thesis
      using run rem C(1) by (intro exI [of _ "xs @ ys"] exI [of _ ?s']) auto
  qed
qed

section \<open>Initialisation and release\<close>

lemma init_run:
  assumes mon: "mons s mp = Some mon" and l: "list_allocated (lists s) mp" and p: "p \<noteq> NULL"
    and zero: "callback_id mon = 0"
  shows "\<exists>s'. hs_monitor_init p mp s = Some (0, s') \<and> monitor_rep s' mp [] (replicate 64 []) \<and>
     ids_ok s' mp [] \<and> devs s' = devs s \<and> cbs s' = cbs s \<and> ext s' = ext s \<and>
     mons s' = (mons s)(mp \<mapsto> mon\<lparr>m_devices := (m_devices mon)\<lparr>ht_heads := p, ht_size := 64\<rparr>\<rparr>)"
proof -
  obtain l' where l': "hs_list_init (lists s) mp = Some l'" "ring l' mp []"
    using hs_list_init_ring [OF l] by blast
  let ?t = "(m_devices mon)\<lparr>ht_heads := p, ht_size := 64\<rparr>"
  obtain m where m: "hs_htable_init p (m_devices mon) 64 (nodes s) (logs s) = Some (0, ?t, m, logs s)"
      "htable_rep m ?t (replicate 64 [])"
    using hs_htable_init_rep [OF p, of 64 "m_devices mon" "nodes s" "logs s"] by auto
  show ?thesis
    using mon zero l' m
    by (auto simp: hs_monitor_init_def monitor_rep_def cb_rep_def dev_rep_def ids_ok_def cb_ids_def
        concat_replicate_trivial)
qed

lemma registry_empty: "registry s (replicate n []) = Map.empty"
  by (simp add: registry_def concat_replicate_trivial)

lemma init_no_memory:
  assumes mon: "mons s mp = Some mon" and l: "list_allocated (lists s) mp"
  shows "\<exists>s'. hs_monitor_init NULL mp s = Some (err_val HS_ERROR_MEMORY, s') \<and>
     logs s' = snd (hs_error HS_ERROR_MEMORY None (logs s)) \<and> ht_heads (m_devices (the (mons s' mp))) = NULL"
proof -
  obtain l' where "hs_list_init (lists s) mp = Some l'" using hs_list_init_ring [OF l] by blast
  with mon show ?thesis
    by (cases "hs_error HS_ERROR_MEMORY None (logs s)")
      (auto simp: hs_monitor_init_def hs_htable_init_def dest: arg_cong [of _ _ fst])
qed

lemma release_callbacks_run:
  assumes "distinct (mp # C)" and "chain (l_next (lists s)) C mp" and "\<forall>c \<in> set C. cbs s c \<noteq> None"
  shows "\<exists>l. flow_fold release_callback_body mp C s =
     Some (mp, Continue, s\<lparr>lists := l, cbs := (\<lambda>c. if c \<in> set C then None else cbs s c)\<rparr>)"
  using assms
proof (induction C arbitrary: s)
  case Nil
  then show ?case by (auto intro: exI [of _ "lists s"])
next
  case (Cons c C)
  then obtain cb where "cbs s c = Some cb" by auto
  then have b: "release_callback_body c s = Some (Continue, callback_free c s)"
    by (simp add: release_callback_body_def)
  have "chain (l_next (list_free (lists s) c)) C mp = chain (l_next (lists s)) C mp"
    using Cons.prems(1) by (intro chain_cong) (auto simp: list_free_def)
  then have "chain (l_next (list_free (lists s) c)) C mp" using Cons.prems(2) by (simp add: seg_simps)
  moreover have "\<forall>a \<in> set C. cbs (callback_free c s) a \<noteq> None" using Cons.prems by auto
  ultimately obtain l where "flow_fold release_callback_body mp C (callback_free c s) = Some (mp, Continue,
      (callback_free c s)\<lparr>lists := l, cbs := (\<lambda>a. if a \<in> set C then None else cbs (callback_free c s) a)\<rparr>)"
    using Cons.IH [of "callback_free c s"] Cons.prems(1) by auto
  moreover have "(\<lambda>a. if a \<in> set C then None else cbs (callback_free c s) a) =
      (\<lambda>a. if a \<in> set (c # C) then None else cbs s a)" by auto
  ultimately show ?case using b by (auto simp: callback_free_def intro: exI [of _ l])
qed

lemma release_device_body_run:
  assumes "x \<noteq> NULL" and "devs s x = Some d"
  shows "\<exists>s'. release_device_body x s = Some (Continue, s') \<and> devs s' = (devs s)(x := dropped d) \<and>
     lists s' = lists s \<and> cbs s' = cbs s \<and> mons s' = mons s \<and>
     (\<forall>a. a \<noteq> x \<longrightarrow> h_next (nodes s') a = h_next (nodes s) a)"
  using assms
  by (simp add: release_device_body_def hs_device_unref_def dropped_def device_free_def hnode_free_def)

lemma release_devices_fold:
  assumes "distinct xs" and "\<forall>x \<in> set xs. x \<noteq> NULL \<and> devs s x \<noteq> None"
  shows "\<exists>s'. flow_fold release_device_body h xs s = Some (h, Continue, s') \<and>
     devs s' = (\<lambda>x. if x \<in> set xs then devs s x \<bind> dropped else devs s x) \<and>
     lists s' = lists s \<and> cbs s' = cbs s \<and> mons s' = mons s \<and>
     (\<forall>a. a \<notin> set xs \<longrightarrow> h_next (nodes s') a = h_next (nodes s) a)"
  using assms
proof (induction xs arbitrary: s)
  case Nil
  then show ?case by simp
next
  case (Cons x xs)
  then obtain d where d: "x \<noteq> NULL" "devs s x = Some d" by auto
  then obtain s1 where s1: "release_device_body x s = Some (Continue, s1)" "devs s1 = (devs s)(x := dropped d)"
      "lists s1 = lists s" "cbs s1 = cbs s" "mons s1 = mons s"
      "\<forall>a. a \<noteq> x \<longrightarrow> h_next (nodes s1) a = h_next (nodes s) a"
    using release_device_body_run by blast
  have "\<forall>y \<in> set xs. y \<noteq> NULL \<and> devs s1 y \<noteq> None" using Cons.prems s1(2) by auto
  with Cons.IH [of s1] Cons.prems obtain s' where s': "flow_fold release_device_body h xs s1 = Some (h, Continue, s')"
      "devs s' = (\<lambda>y. if y \<in> set xs then devs s1 y \<bind> dropped else devs s1 y)"
      "lists s' = lists s1" "cbs s' = cbs s1" "mons s' = mons s1"
      "\<forall>a. a \<notin> set xs \<longrightarrow> h_next (nodes s') a = h_next (nodes s1) a"
    by auto
  have "devs s' = (\<lambda>y. if y \<in> set (x # xs) then devs s y \<bind> dropped else devs s y)"
    using Cons.prems s'(2) s1(2) d by (auto simp: fun_eq_iff)
  with s1 s' show ?case by (intro exI [of _ s']) auto
qed

lemma release_devices_loop:
  assumes tab: "htable_rep (nodes s) t B" and devs: "\<forall>x \<in> set (concat B). devs s x \<noteq> None"
  shows "hs_htable_foreach nodes t release_device_body s =
     map_option loop_end (flow_fold release_device_body h (concat B) s)"
proof -
  let ?R = "\<lambda>i rest. set rest \<union> (\<Union>j \<in> {i<..<length B}. set (B ! j))"
  let ?J = "\<lambda>i rest s'. i < length B \<and> suffix rest (B ! i) \<and> (\<forall>x \<in> ?R i rest. devs s' x \<noteq> None) \<and>
     (\<forall>a \<in> slots t \<union> ?R i rest. h_next (nodes s') a = h_next (nodes s) a)"
  have heads: "ht_heads t + i \<in> slots t" if "i < length B" for i
    using that htable_repD(1) [OF tab] by (intro slotsI) simp
  have ring: "hring (nodes s') (ht_heads t + i) (B ! i)" if "i < length B"
    "\<forall>a \<in> slots t \<union> set (B ! i). h_next (nodes s') a = h_next (nodes s) a" for i s'
    using that heads htable_repD(3) [OF tab that(1)] hring_cong [of "ht_heads t + i" "B ! i" "nodes s'" "nodes s"]
    by auto
  show ?thesis
  proof (rule hs_htable_foreach_fold [where J = ?J and mem = nodes])
    show "chain (h_next (nodes s')) rest (ht_heads t + i)" if J: "?J i rest s'" for i rest s'
    proof -
      obtain ds where ds: "B ! i = ds @ rest" using J by (auto simp: suffix_def)
      have "chain (h_next (nodes s)) rest (ht_heads t + i)"
        using htable_repD(3) [OF tab, of i] J ds hring_chain by metis
      then show ?thesis
        using J heads [of i] chain_cong [of "ht_heads t + i" rest "h_next (nodes s')" "h_next (nodes s)"] by auto
    qed
    show "?J (Suc i) (B ! Suc i) s' \<and> hring (nodes s') (ht_heads t + Suc i) (B ! Suc i)"
      if J: "?J i [] s'" and i: "Suc i < length B" for i s'
    proof -
      have "?R (Suc i) (B ! Suc i) \<subseteq> ?R i []" using i by fastforce
      then have "?J (Suc i) (B ! Suc i) s'" using J i by (auto simp: subset_iff)
      then show ?thesis using ring [of "Suc i" s'] by blast
    qed
    show "?J i rest s2" if J: "?J i (x # rest) s1" and b: "release_device_body x s1 = Some (Continue, s2)"
      for i x rest s1 s2
    proof -
      obtain ds where ds: "B ! i = ds @ x # rest" using J by (auto simp: suffix_def)
      have i: "i < length B" using J by blast
      note x = removed_node [OF tab i ds]
      have "x \<notin> ?R i rest" using x(4) unfolding in_concat_update [OF i] by auto
      moreover obtain d where "devs s1 x = Some d" using J by auto
      ultimately have run: "devs s2 = (devs s1)(x := dropped d)"
          "\<forall>a. a \<noteq> x \<longrightarrow> h_next (nodes s2) a = h_next (nodes s1) a"
        using release_device_body_run [of x s1 d] b x(1) by auto
      have "h_next (nodes s2) a = h_next (nodes s) a" if a: "a \<in> slots t \<union> ?R i rest" for a
      proof -
        have "a \<noteq> x" using a x(2) \<open>x \<notin> ?R i rest\<close> by blast
        moreover have "a \<in> slots t \<union> ?R i (x # rest)" using a by auto
        ultimately show ?thesis using J run(2) by simp
      qed
      moreover have "devs s2 a \<noteq> None" if a: "a \<in> ?R i rest" for a
      proof -
        have "a \<noteq> x" using a \<open>x \<notin> ?R i rest\<close> by blast
        moreover have "a \<in> ?R i (x # rest)" using a by auto
        ultimately show ?thesis using J run(1) by simp
      qed
      ultimately show ?thesis using i ds by (auto simp: suffix_def)
    qed
    show "?J 0 (B ! 0) s" using htable_repD(1,2) [OF tab] devs by (auto simp: unat_gt_0 in_concat_nth)
  qed (rule tab)
qed

lemma release_run:
  assumes rep: "monitor_rep s mp C B" and mon: "mons s mp = Some mon"
  shows "\<exists>s'. hs_monitor_release mp s = Some s' \<and> (\<forall>c \<in> set C. cbs s' c = None) \<and>
     devs s' = (\<lambda>x. if x \<in> set (concat B) then devs s x \<bind> dropped else devs s x) \<and>
     (\<forall>a \<in> slots (m_devices mon). h_next (nodes s') a = None)"
proof -
  have cr: "cb_rep s mp C" and dr: "dev_rep s mp (m_devices mon) B" using rep mon by (auto simp: monitor_rep_def)
  then have tab: "htable_rep (nodes s) (m_devices mon) B" by (simp add: dev_rep_def)
  have devs: "\<forall>x \<in> set (concat B). devs s x \<noteq> None" using dr by (fastforce simp: dev_rep_def dev_ok_def)
  have C: "distinct (mp # C)" "chain (l_next (lists s)) C mp" "\<forall>c \<in> set C. cbs s c \<noteq> None"
    using cr ring_chain [of "lists s" mp "[]" C] by (auto simp: cb_rep_def ring_def)
  let ?I = "\<lambda>rest s'. distinct (mp # rest) \<and> chain (l_next (lists s')) rest mp"
  have "hs_list_foreach lists release_callback_body mp s = map_option snd (flow_fold release_callback_body mp C s)"
  proof (rule hs_list_foreach_fold [where I = ?I])
    fix x rest s1 s2 assume I: "?I (x # rest) s1" and b: "release_callback_body x s1 = Some (Continue, s2)"
    then have "lists s2 = list_free (lists s1) x" by (auto simp: release_callback_body_def split: bind_splits)
    moreover have "chain (l_next (list_free (lists s1) x)) rest mp = chain (l_next (lists s1)) rest mp"
      using I by (intro chain_cong) (auto simp: list_free_def)
    ultimately show "?I rest s2" using I by (simp add: seg_simps)
  qed (use C cr in \<open>auto simp: cb_rep_def\<close>)
  then obtain l where 1: "hs_list_foreach lists release_callback_body mp s =
      Some (Continue, s\<lparr>lists := l, cbs := (\<lambda>c. if c \<in> set C then None else cbs s c)\<rparr>)"
    using release_callbacks_run [OF C] by auto
  let ?s1 = "s\<lparr>lists := l, cbs := (\<lambda>c. if c \<in> set C then None else cbs s c)\<rparr>"
  have "\<forall>x \<in> set (concat B). x \<noteq> NULL \<and> devs ?s1 x \<noteq> None"
    using devs tab htable_rep_bucket htable_repD(4) [OF tab] by (auto simp del: set_concat simp: in_concat_nth)
  with release_devices_fold [OF htable_rep_distinct [OF tab], of ?s1 0]
  obtain s2 where "flow_fold release_device_body 0 (concat B) ?s1 = Some (0, Continue, s2)"
      "devs s2 = (\<lambda>x. if x \<in> set (concat B) then devs ?s1 x \<bind> dropped else devs ?s1 x)" "cbs s2 = cbs ?s1"
    by blast
  moreover have "hs_htable_foreach nodes (m_devices mon) release_device_body ?s1 =
      map_option loop_end (flow_fold release_device_body 0 (concat B) ?s1)"
    by (rule release_devices_loop) (use tab devs in simp_all)
  ultimately show ?thesis
    using mon 1 tab by (simp add: hs_monitor_release_def loop_end_def hs_htable_release_def
        htable_rep_def slots_free_def slots_def cong: if_cong)
qed

section \<open>The life of a monitor\<close>

lemma sorted_wrt_subseq: "subseq xs ys \<Longrightarrow> sorted_wrt P ys \<Longrightarrow> sorted_wrt P xs"
  by (induction rule: list_emb.induct) (auto dest: subseq_set)

lemma ids_ok_cb_sub:
  assumes ids: "ids_ok s mp C" and sub: "cb_sub s C s' C'" and mons: "mons s' = mons s"
  shows "ids_ok s' mp C'"
proof -
  have eq: "cb_ids s' C' = cb_ids s C'" using sub by (intro cb_ids_cong) (simp add: cb_sub_def)
  have "subseq (cb_ids s C') (cb_ids s C)" using sub by (simp add: cb_ids_def cb_sub_def subseq_map)
  then show ?thesis
    using ids mons eq
    by (auto simp: ids_ok_def sorted_wrt_append dest: subseq_set intro: sorted_wrt_subseq)
qed

text \<open>No device object lies in the array of the table, a separate object.\<close>

definition apart :: "'w hs_state \<Rightarrow> addr \<Rightarrow> bool" where
  "apart s mp \<longleftrightarrow> (\<exists>mon. mons s mp = Some mon \<and> dom (devs s) \<inter> slots (m_devices mon) = {})"

definition monitor_inv :: "addr \<Rightarrow> 'w hs_state \<Rightarrow> bool" where
  "monitor_inv mp s \<longleftrightarrow> mp \<noteq> NULL \<and> apart s mp \<and> (\<exists>C B. monitor_rep s mp C B \<and> ids_ok s mp C)"

text \<open>
  What a program and the platform code may do with the monitor at \<open>mp\<close>. The guards are the
  conditions of use: memory comes from the allocator, an arriving device is a new object with a
  key and one reference, and the last reference of an online device is not the caller's to drop.
\<close>

inductive mon_step :: "'w callback_fun \<Rightarrow> addr \<Rightarrow> 'w hs_state \<Rightarrow> 'w hs_state \<Rightarrow> bool"
  for call :: "'w callback_fun" and mp :: addr where
  step_register: "f \<noteq> NULL \<Longrightarrow> l_next (lists s) p = None \<Longrightarrow>
     hs_monitor_register_callback p mp f u s = Some (r, s') \<Longrightarrow> mon_step call mp s s'"
| step_deregister: "0 \<le> cid \<Longrightarrow>
     hs_monitor_deregister_callback mp cid s = Some s' \<Longrightarrow> mon_step call mp s s'"
| step_arrive: "p \<noteq> NULL \<Longrightarrow> devs s p = None \<Longrightarrow> h_next (nodes s) p = None \<Longrightarrow> d_key d \<noteq> None \<Longrightarrow>
     refcount d = 1 \<Longrightarrow> hs_monitor_add call mp p (device_alloc p d s) = Some (r, s') \<Longrightarrow> mon_step call mp s s'"
| step_depart: "hs_monitor_remove call mp key s = Some s' \<Longrightarrow> mon_step call mp s s'"
| step_list: "f \<noteq> NULL \<Longrightarrow> hs_monitor_list call mp f u s = Some (r, s') \<Longrightarrow> mon_step call mp s s'"
| step_ref: "devs s x = Some d \<Longrightarrow> refcount d + 1 \<noteq> 0 \<Longrightarrow>
     hs_device_ref x s = Some (x', s') \<Longrightarrow> mon_step call mp s s'"
| step_unref: "devs s x = Some d \<Longrightarrow> 1 < refcount d \<or> d_state d \<noteq> HS_DEVICE_STATUS_ONLINE \<Longrightarrow>
     hs_device_unref x s = Some s' \<Longrightarrow> mon_step call mp s s'"

inductive_cases mon_stepE: "mon_step call mp s s'"

lemma ring_l_next: "ring (lists s) mp C \<Longrightarrow> c \<in> set (mp # C) \<Longrightarrow> l_next (lists s) c \<noteq> None"
  using ring_allocated [of "lists s" mp C c] by (simp add: list_allocated_def)

lemma dev_rep_h_next:
  assumes "dev_rep s mp t B" and "a \<in> slots t \<or> a \<in> set (concat B)"
  shows "h_next (nodes s) a \<noteq> None"
proof -
  have tab: "htable_rep (nodes s) t B" using assms(1) by (simp add: dev_rep_def)
  have "\<exists>i < length B. a \<in> set ((ht_heads t + i) # B ! i)"
  proof (cases "a \<in> slots t")
    case True
    then have "a = ht_heads t + (a - ht_heads t)" "a - ht_heads t < length B"
      using htable_repD(1) [OF tab] by (auto simp: slots_def)
    then show ?thesis by (metis list.set_intros(1))
  next
    case False
    then show ?thesis using assms(2) in_concat_nth [of a B] by auto
  qed
  then obtain i where i: "i < length B" "a \<in> set ((ht_heads t + i) # B ! i)" by blast
  have r: "hring (nodes s) (ht_heads t + i) (B ! i)" by (rule htable_repD(3) [OF tab i(1)])
  show ?thesis
  proof (cases "a = ht_heads t + i")
    case True
    then show ?thesis using hring_next_head [OF r] by simp
  next
    case False
    then obtain xs ys where "B ! i = xs @ a # ys" using i(2) by (auto dest: split_list)
    then show ?thesis using hring_next_node [of "nodes s" "ht_heads t + i" xs a ys] r by simp
  qed
qed

lemma monitor_invI:
  "mp \<noteq> NULL \<Longrightarrow> apart s mp \<Longrightarrow> monitor_rep s mp C B \<Longrightarrow> ids_ok s mp C \<Longrightarrow> monitor_inv mp s"
  by (auto simp: monitor_inv_def)

lemma monitor_invE:
  assumes "monitor_inv mp s"
  obtains mon C B where "mp \<noteq> NULL" "mons s mp = Some mon" "monitor_rep s mp C B" "ids_ok s mp C"
    "cb_rep s mp C" "dev_rep s mp (m_devices mon) B" "dom (devs s) \<inter> slots (m_devices mon) = {}"
proof -
  obtain C B where a: "mp \<noteq> NULL" "apart s mp" "monitor_rep s mp C B" "ids_ok s mp C"
    using assms by (auto simp: monitor_inv_def)
  then obtain mon where mon: "mons s mp = Some mon" "dom (devs s) \<inter> slots (m_devices mon) = {}"
    by (auto simp: apart_def)
  show thesis by (rule that [of mon C B]) (use a mon in \<open>auto simp: monitor_rep_def\<close>)
qed

lemma apart_mono: "apart s mp \<Longrightarrow> mons s' = mons s \<Longrightarrow> dom (devs s') \<subseteq> dom (devs s) \<Longrightarrow> apart s' mp"
  unfolding apart_def by (metis Int_mono subset_empty subset_refl)

lemma monitor_inv_sub:
  assumes "mp \<noteq> NULL" and "apart s mp" and "ids_ok s mp C" and "cb_sub s C s' C'" and "mons s' = mons s"
    and "monitor_rep s' mp C' B'"
  shows "monitor_inv mp s'"
proof (rule monitor_invI [OF assms(1) _ assms(6)])
  show "ids_ok s' mp C'" by (rule ids_ok_cb_sub [OF assms(3,4,5)])
  show "apart s' mp" using assms(2,4,5) by (auto simp: cb_sub_def intro: apart_mono)
qed

lemma monitor_inv_frame:
  assumes inv: "monitor_inv mp s" and f: "cb_frame s s'"
  shows "monitor_inv mp s'"
  using inv
proof (rule monitor_invE)
  fix mon C B
  assume a: "mp \<noteq> NULL" "mons s mp = Some mon" "ids_ok s mp C" "cb_rep s mp C" "dev_rep s mp (m_devices mon) B"
  have tf: "trig_frame {} s s'" using f by (rule cb_frame_trig_frame)
  then have "monitor_rep s' mp C B"
    using a f dev_rep_trig_frame [OF tf] by (auto simp: monitor_rep_def cb_rep_frame trig_frame_def)
  moreover have "cb_sub s C s' C" using f trig_frame_dom [OF tf] by (simp add: cb_sub_def cb_frame_def)
  moreover have "mons s' = mons s" "apart s mp" using f inv by (simp_all add: cb_frame_def monitor_inv_def)
  ultimately show ?thesis using a by (auto intro: monitor_inv_sub)
qed

lemma monitor_inv_register:
  assumes inv: "monitor_inv mp s" and f: "f \<noteq> NULL" and p: "l_next (lists s) p = None"
    and run: "hs_monitor_register_callback p mp f u s = Some (r, s')"
  shows "monitor_inv mp s'"
proof (cases "p = NULL")
  case True
  with run f inv have "s' = snd (fail_with HS_ERROR_MEMORY None s)"
    by (auto simp: monitor_inv_def register_no_memory dest: arg_cong [of _ _ snd])
  then have "cb_frame s s'" by (simp add: cb_frame_def)
  with inv show ?thesis by (rule monitor_inv_frame)
next
  case False
  show ?thesis
    using inv
  proof (rule monitor_invE)
    fix mon C B
    assume a: "mp \<noteq> NULL" "mons s mp = Some mon" "monitor_rep s mp C B" "ids_ok s mp C" "cb_rep s mp C"
      "dom (devs s) \<inter> slots (m_devices mon) = {}"
    have "p \<notin> set (mp # C)" using ring_l_next [of s mp C p] a(5) p by (auto simp: cb_rep_def)
    moreover have "callback_id mon < INT_MAX"
      using run a(1,2) f False by (auto simp: hs_monitor_register_callback_def bind_c_assert Let_def split: if_splits)
    ultimately obtain s2 where s2: "hs_monitor_register_callback p mp f u s = Some (callback_id mon, s2)"
        "monitor_rep s2 mp (C @ [p]) B" "ids_ok s2 mp (C @ [p])"
        "mons s2 = (mons s)(mp \<mapsto> mon\<lparr>callback_id := callback_id mon + 1\<rparr>)" "devs s2 = devs s"
      using register_run [OF a(3,2,4,1) f False] by blast
    moreover have "apart s2 mp" using s2(4,5) a(6) by (simp add: apart_def)
    ultimately show ?thesis using run a(1) by (auto intro: monitor_invI)
  qed
qed

lemma monitor_inv_deregister:
  assumes inv: "monitor_inv mp s" and cid: "0 \<le> cid"
  shows "\<exists>s'. hs_monitor_deregister_callback mp cid s = Some s' \<and> monitor_inv mp s'"
  using inv
proof (rule monitor_invE)
  fix mon C B
  assume a: "mp \<noteq> NULL" "monitor_rep s mp C B" "ids_ok s mp C"
  obtain C' s' where s': "hs_monitor_deregister_callback mp cid s = Some s'" "monitor_rep s' mp C' B"
      "ids_ok s' mp C'" "mons s' = mons s" "same_devs (devs s) (devs s')"
    using deregister_run [OF a(2,3,1) cid] by blast
  have "dom (devs s') = dom (devs s)" using same_devs_None [OF s'(5)] by (auto simp: dom_def)
  then have "apart s' mp" using inv s'(4) apart_mono [of s mp s'] by (simp add: monitor_inv_def)
  with s' a(1) show ?thesis by (auto intro: monitor_invI)
qed

lemma monitor_rep_alloc:
  assumes mon: "mons s mp = Some mon" and rep: "monitor_rep s mp C B" and ids: "ids_ok s mp C"
    and ap: "dom (devs s) \<inter> slots (m_devices mon) = {}"
    and p: "p \<noteq> NULL" "devs s p = None" "h_next (nodes s) p = None"
  shows "monitor_rep (device_alloc p d s) mp C B \<and> ids_ok (device_alloc p d s) mp C \<and>
     p \<notin> slots (m_devices mon) \<and> p \<notin> set (concat B) \<and> hnode_allocated (nodes (device_alloc p d s)) p \<and>
     apart (device_alloc p d s) mp"
proof -
  let ?s = "device_alloc p d s"
  have cr: "cb_rep s mp C" and dr: "dev_rep s mp (m_devices mon) B" using rep mon by (auto simp: monitor_rep_def)
  have np: "p \<notin> slots (m_devices mon)" "p \<notin> set (concat B)" using dev_rep_h_next [OF dr] p(3) by blast+
  have tab: "htable_rep (nodes ?s) (m_devices mon) B"
    using dr np htable_rep_hnode_alloc by (simp add: dev_rep_def device_alloc_def)
  have "h_key (nodes ?s) y = h_key (nodes s) y \<and> rel_option same_device (devs s y) (devs ?s y)"
    if "y \<in> set (concat B)" for y
  proof -
    have "y \<noteq> p" using that np(2) by blast
    then show ?thesis by (simp add: device_alloc_def hnode_alloc_def option.rel_refl)
  qed
  with dr tab subset_refl have "dev_rep ?s mp (m_devices mon) B" by (rule dev_rep_part(1))
  moreover have "cb_rep ?s mp C" "ids_ok ?s mp C" "apart ?s mp"
    using mon cr ids ap np(1) by (simp_all add: cb_rep_def ids_ok_def cb_ids_def device_alloc_def apart_def)
  ultimately show ?thesis
    using mon np p(1)
    by (auto simp: monitor_rep_def device_alloc_def hnode_allocated_def hnode_alloc_def simp del: set_concat)
qed

lemma monitor_inv_alloc:
  assumes inv: "monitor_inv mp s" and p: "p \<noteq> NULL" "devs s p = None" "h_next (nodes s) p = None"
  shows "\<exists>C B mon. mons s mp = Some mon \<and> monitor_rep (device_alloc p d s) mp C B \<and> ids_ok (device_alloc p d s) mp C \<and>
     p \<notin> slots (m_devices mon) \<and> p \<notin> set (concat B) \<and> hnode_allocated (nodes (device_alloc p d s)) p \<and>
     apart (device_alloc p d s) mp"
  using inv by (rule monitor_invE) (use monitor_rep_alloc [OF _ _ _ _ p] in blast)

lemma monitor_inv_arrive:
  assumes wb: "well_behaved call" and inv: "monitor_inv mp s"
    and p: "p \<noteq> NULL" "devs s p = None" "h_next (nodes s) p = None" and d: "d_key d \<noteq> None" "refcount d = 1"
  shows "\<exists>r s'. hs_monitor_add call mp p (device_alloc p d s) = Some (r, s') \<and> monitor_inv mp s'"
proof -
  let ?s = "device_alloc p d s"
  obtain C B mon where a: "mons s mp = Some mon" "monitor_rep ?s mp C B" "ids_ok ?s mp C"
      "p \<notin> slots (m_devices mon)" "p \<notin> set (concat B)" "hnode_allocated (nodes ?s) p" "apart ?s mp"
    using monitor_inv_alloc [OF inv p] by blast
  have mon: "mons ?s mp = Some mon" "devs ?s p = Some d" using a(1) by (simp_all add: device_alloc_def)
  have mp: "mp \<noteq> NULL" using inv by (simp add: monitor_inv_def)
  obtain key where key: "d_key d = Some key" using d by blast
  show ?thesis
  proof (cases "registry ?s B (Some key, d_iface d) = None")
    case False
    then have "hs_monitor_add call mp p ?s = Some (0, ?s)"
      by (rule hs_monitor_add_known [OF a(2) mon(2) key])
    then show ?thesis using a mp by (auto intro: monitor_invI)
  next
    case True
    have "addable ?s (m_devices mon) B p d" using a mon d by (simp add: addable_def)
    with hs_monitor_add_new [OF wb a(2) mon(1) _ key True] obtain r C' s' B' where
        "hs_monitor_add call mp p ?s = Some (r, s')" "monitor_rep s' mp C' B'" "mons s' = mons ?s"
        "cb_sub ?s C s' C'" by blast
    then show ?thesis using monitor_inv_sub [OF mp a(7,3)] by blast
  qed
qed

lemma monitor_inv_depart:
  assumes wb: "well_behaved call" and inv: "monitor_inv mp s"
  shows "\<exists>s'. hs_monitor_remove call mp key s = Some s' \<and> monitor_inv mp s'"
  using inv
proof (rule monitor_invE)
  fix mon C B
  assume a: "mp \<noteq> NULL" "monitor_rep s mp C B" "ids_ok s mp C"
  have ap: "apart s mp" using inv by (simp add: monitor_inv_def)
  show ?thesis using hs_monitor_remove_run [OF wb a(2), of key] monitor_inv_sub [OF a(1) ap a(3)] by blast
qed

lemma visit_frame:
  assumes wb: "well_behaved call"
  shows "\<exists>r s'. visit call f u xs s = Some (r, s') \<and> cb_frame s s'"
proof (induction xs arbitrary: s)
  case Nil
  then show ?case by (simp add: cb_frame_def)
next
  case (Cons x xs)
  obtain r s1 where c: "call f x u s = Some (r, s1)" "cb_frame s s1" by (rule well_behavedD [OF wb])
  obtain r' s' where "visit call f u xs s1 = Some (r', s')" "cb_frame s1 s'" using Cons.IH by blast
  moreover from this(2) c(2) have "cb_frame s s'" by (auto simp: cb_frame_def intro: same_devs_trans)
  ultimately show ?case using c by (cases "r = 0") auto
qed

lemma monitor_inv_list:
  assumes wb: "well_behaved call" and inv: "monitor_inv mp s" and f: "f \<noteq> NULL"
  shows "\<exists>r s'. hs_monitor_list call mp f u s = Some (r, s') \<and> monitor_inv mp s'"
  using inv
proof (rule monitor_invE)
  fix mon C B
  assume a: "mp \<noteq> NULL" "monitor_rep s mp C B"
  then show ?thesis
    using visit_frame [OF wb, of f u "concat B" s] monitor_inv_frame [OF inv]
    by (auto simp: hs_monitor_list_visit [OF wb a(2,1) f])
qed

lemma same_devs_upd:
  assumes "D x = Some d" and "n \<noteq> 0"
  shows "same_devs D (D(x \<mapsto> d\<lparr>refcount := n\<rparr>))"
  using assms by (simp add: same_devs_def same_device_def option.rel_refl)

lemma monitor_inv_refcount:
  assumes "monitor_inv mp s" and "devs s x = Some d" and "n \<noteq> 0"
  shows "monitor_inv mp (s\<lparr>devs := (devs s)(x \<mapsto> d\<lparr>refcount := n\<rparr>)\<rparr>)"
  using assms(1) by (rule monitor_inv_frame) (use assms(2,3) in \<open>simp add: cb_frame_def same_devs_upd\<close>)

text \<open>Dropping a reference: either one of several, or the last one of a device that is not online.\<close>

lemma monitor_rep_free:
  assumes mon: "mons s mp = Some mon" and rep: "monitor_rep s mp C B" and ids: "ids_ok s mp C"
    and ap: "dom (devs s) \<inter> slots (m_devices mon) = {}" and x: "x \<in> dom (devs s)" "x \<notin> set (concat B)"
  shows "monitor_rep (device_free x s) mp C B \<and> ids_ok (device_free x s) mp C \<and> apart (device_free x s) mp"
proof -
  let ?s = "device_free x s"
  have cr: "cb_rep s mp C" and dr: "dev_rep s mp (m_devices mon) B" using rep mon by (auto simp: monitor_rep_def)
  have ns: "x \<notin> slots (m_devices mon)" using ap x(1) by auto
  have tab: "htable_rep (nodes ?s) (m_devices mon) B"
    using dr htable_rep_hnode_free [OF _ ns x(2)] by (simp add: dev_rep_def)
  have "h_key (nodes ?s) y = h_key (nodes s) y \<and> rel_option same_device (devs s y) (devs ?s y)"
    if "y \<in> set (concat B)" for y
  proof -
    have "y \<noteq> x" using that x(2) by blast
    then show ?thesis by (simp add: hnode_free_def option.rel_refl)
  qed
  with dr tab subset_refl have "dev_rep ?s mp (m_devices mon) B" by (rule dev_rep_part(1))
  then show ?thesis
    using mon cr ids ap by (auto simp: monitor_rep_def cb_rep_def ids_ok_def cb_ids_def apart_def)
qed

lemma monitor_inv_free:
  assumes inv: "monitor_inv mp s" and x: "devs s x = Some d" and off: "d_state d \<noteq> HS_DEVICE_STATUS_ONLINE"
  shows "monitor_inv mp (device_free x s)"
  using inv
proof (rule monitor_invE)
  fix mon C B
  assume a: "mp \<noteq> NULL" "mons s mp = Some mon" "monitor_rep s mp C B" "ids_ok s mp C"
    "dom (devs s) \<inter> slots (m_devices mon) = {}" and dr: "dev_rep s mp (m_devices mon) B"
  have "x \<notin> set (concat B)" using dr off x by (fastforce simp: dev_rep_def dev_ok_def)
  with monitor_rep_free [OF a(2-5), of x] x a(1) show ?thesis by (auto intro: monitor_invI)
qed

lemma monitor_inv_unref:
  assumes inv: "monitor_inv mp s" and x: "devs s x = Some d"
    and own: "1 < refcount d \<or> d_state d \<noteq> HS_DEVICE_STATUS_ONLINE"
  shows "\<exists>s'. hs_device_unref x s = Some s' \<and> monitor_inv mp s'"
proof (cases "x = NULL \<or> 1 < refcount d")
  case True
  have "refcount d - 1 \<noteq> 0" if "1 < refcount d" using that by auto
  with True show ?thesis
    using inv x monitor_inv_refcount [OF inv x] by (cases "x = NULL") (auto simp: hs_device_unref_run)
next
  case False
  with x own monitor_inv_free [OF inv x] show ?thesis by (auto simp: hs_device_unref_run)
qed

theorem mon_step_inv:
  assumes wb: "well_behaved call"
  shows "mon_step call mp s s' \<Longrightarrow> monitor_inv mp s \<Longrightarrow> monitor_inv mp s'"
proof (induction rule: mon_step.induct)
  case (step_ref s x d x' s')
  then have "s' = s\<lparr>devs := (devs s)(x \<mapsto> d\<lparr>refcount := refcount d + 1\<rparr>)\<rparr>"
    by (auto simp: hs_device_ref_def bind_c_assert split: if_splits)
  with step_ref show ?case by (auto intro: monitor_inv_refcount)
next
  case (step_register f s p u r s')
  then show ?case by (auto intro: monitor_inv_register)
next
  case (step_deregister cid s s')
  then show ?case using monitor_inv_deregister [of mp s cid] by auto
next
  case (step_arrive p s d r s')
  then show ?case using monitor_inv_arrive [OF wb, of mp s p d] by auto
next
  case (step_depart key s s')
  then show ?case using monitor_inv_depart [OF wb, of mp s key] by auto
next
  case (step_list f u s r s')
  then show ?case using monitor_inv_list [OF wb, of mp s f u] by auto
next
  case (step_unref s x d s')
  then show ?case using monitor_inv_unref [of mp s x d] by auto
qed

lemma mon_reach_inv:
  assumes wb: "well_behaved call" and "(mon_step call mp)\<^sup>*\<^sup>* s s'" and "monitor_inv mp s"
  shows "monitor_inv mp s'"
  using assms(2,3) by (induction rule: rtranclp_induct) (auto intro: mon_step_inv [OF wb])

end
