(* ===== verification/MonitorProperties.thy ===== *)
theory MonitorProperties
  imports Lifecycle
begin

text \<open>
  The properties of the devices and of the device monitor, over the lemmas of \<open>Device\<close>, \<open>Monitor\<close>,
  \<open>Registry\<close> and \<open>Lifecycle\<close>. The first section is a small state at which the properties are
  applied: the monitor 10 has the callback 20 and the device 5, whose table slot is at 100; the
  device 6 is loose. The outside world records the calls of the user's functions.
\<close>

section \<open>An example\<close>

type_synonym call_trace = "(fptr \<times> addr \<times> udata) list"

definition ex_device :: "string \<Rightarrow> addr \<Rightarrow> hs_device_status \<Rightarrow> hs_device" where
  "ex_device key mp st = zero_device\<lparr>d_monitor := mp, refcount := 1, d_key := Some key, d_state := st,
     d_path := Some ''/dev/x'', d_vtable := Hs_posix_device_vtable\<rparr>"

definition ex_mon :: hs_monitor where
  "ex_mon = \<lparr>callback_id = 1, m_devices = \<lparr>ht_size = 1, ht_heads = 100\<rparr>\<rparr>"

definition ex_state :: "call_trace hs_state" where
  "ex_state =
     \<lparr>lists = \<lparr>l_prev = [10 \<mapsto> 20, 20 \<mapsto> 10], l_next = [10 \<mapsto> 20, 20 \<mapsto> 10]\<rparr>,
      nodes = \<lparr>h_next = [100 \<mapsto> 5, 5 \<mapsto> 100, 6 \<mapsto> 0], h_key = [5 \<mapsto> 97, 6 \<mapsto> 0]\<rparr>,
      devs = [5 \<mapsto> ex_device ''a'' 10 HS_DEVICE_STATUS_ONLINE,
              6 \<mapsto> ex_device ''b'' 0 HS_DEVICE_STATUS_DISCONNECTED],
      cbs = [20 \<mapsto> \<lparr>cb_id = 0, cb_f = 7, cb_udata = 3\<rparr>],
      mons = [10 \<mapsto> ex_mon],
      logs = init_log False, ext = []\<rparr>"

lemma ex_state_sel [simp]:
  "lists ex_state = \<lparr>l_prev = [10 \<mapsto> 20, 20 \<mapsto> 10], l_next = [10 \<mapsto> 20, 20 \<mapsto> 10]\<rparr>"
  "nodes ex_state = \<lparr>h_next = [100 \<mapsto> 5, 5 \<mapsto> 100, 6 \<mapsto> 0], h_key = [5 \<mapsto> 97, 6 \<mapsto> 0]\<rparr>"
  "devs ex_state = [5 \<mapsto> ex_device ''a'' 10 HS_DEVICE_STATUS_ONLINE,
     6 \<mapsto> ex_device ''b'' 0 HS_DEVICE_STATUS_DISCONNECTED]"
  "cbs ex_state = [20 \<mapsto> \<lparr>cb_id = 0, cb_f = 7, cb_udata = 3\<rparr>]"
  "mons ex_state = [10 \<mapsto> ex_mon]" "ext ex_state = []"
  by (simp_all add: ex_state_def)

lemma ex_device_sel [simp]:
  "d_monitor (ex_device k mp st) = mp" "refcount (ex_device k mp st) = 1"
  "d_key (ex_device k mp st) = Some k" "d_state (ex_device k mp st) = st" "d_iface (ex_device k mp st) = 0"
  "d_path (ex_device k mp st) = Some ''/dev/x''" "d_vtable (ex_device k mp st) = Hs_posix_device_vtable"
  "d_type (ex_device k mp st) = HS_DEVICE_TYPE_HID"
  by (simp_all add: ex_device_def zero_device_def)

lemma ex_mon_sel [simp]:
  "callback_id ex_mon = 1" "m_devices ex_mon = \<lparr>ht_size = 1, ht_heads = 100\<rparr>"
  by (simp_all add: ex_mon_def)

lemma ex_hash: "hs_htable_hash_str ''a'' = 97" "hs_htable_hash_str ''b'' = 98"
  by (simp_all add: hs_htable_hash_str_def)

lemma ex_monitor_rep: "monitor_rep ex_state 10 [20] [[5]]"
proof -
  have "ring (lists ex_state) 10 [20]" by (simp add: ring_def link_def)
  moreover have "htable_rep (nodes ex_state) (m_devices ex_mon) [[5]]"
    by (auto simp: htable_rep_def hring_def slots_def bucket_of_def)
  moreover have "dev_ok ex_state 10 5" by (simp add: dev_ok_def ex_hash)
  ultimately show ?thesis by (simp add: monitor_rep_def cb_rep_def dev_rep_def)
qed

lemma ex_ids_ok: "ids_ok ex_state 10 [20]"
  by (simp add: ids_ok_def cb_ids_def)

lemma ex_cb_ids: "cb_ids ex_state [20] = [0]"
  by (simp add: cb_ids_def)

lemma ex_registry: "registry ex_state [[5]] = [(Some ''a'', 0) \<mapsto> 5]"
  by (simp add: registry_def ident_def)

lemma ex_monitor_inv: "monitor_inv 10 ex_state"
proof (rule monitor_invI [OF _ _ ex_monitor_rep ex_ids_ok])
  show "apart ex_state 10" by (auto simp: apart_def slots_def)
qed simp

text \<open>The user's functions: each call is recorded, and returns what \<open>res\<close> says.\<close>

definition recorder :: "(fptr \<Rightarrow> addr \<Rightarrow> int) \<Rightarrow> call_trace callback_fun" where
  "recorder res f dev u s = Some (res f dev, s\<lparr>ext := ext s @ [(f, dev, u)]\<rparr>)"

lemma recorder_well_behaved [simp]: "well_behaved (recorder res)"
  by (simp add: well_behaved_def recorder_def cb_frame_def)

section \<open>Devices\<close>

fun ref_times :: "nat \<Rightarrow> addr \<Rightarrow> 'w hs_state \<Rightarrow> 'w hs_state option" where
  "ref_times 0 dev s = Some s"
| "ref_times (Suc n) dev s = do { (p, s) \<leftarrow> hs_device_ref dev s; ref_times n p s }"

fun unref_times :: "nat \<Rightarrow> addr \<Rightarrow> 'w hs_state \<Rightarrow> 'w hs_state option" where
  "unref_times 0 dev s = Some s"
| "unref_times (Suc n) dev s = do { s \<leftarrow> hs_device_unref dev s; unref_times n dev s }"

lemma ref_times_run:
  assumes "dev \<noteq> NULL"
  shows "devs s dev = Some d \<Longrightarrow>
     ref_times n dev s = Some (s\<lparr>devs := (devs s)(dev \<mapsto> d\<lparr>refcount := refcount d + of_nat n\<rparr>)\<rparr>)"
proof (induction n arbitrary: s d)
  case 0
  then have "(devs s)(dev \<mapsto> d) = devs s" by auto
  then show ?case by simp
next
  case (Suc n)
  then show ?case using assms
    by (simp add: hs_device_ref_run Suc.IH [where d = "d\<lparr>refcount := refcount d + 1\<rparr>"] algebra_simps fun_upd_def cong: if_cong)
qed

lemma unref_times_run:
  assumes "dev \<noteq> NULL"
  shows "devs s dev = Some d \<Longrightarrow> n < unat (refcount d) \<Longrightarrow>
     unref_times n dev s = Some (s\<lparr>devs := (devs s)(dev \<mapsto> d\<lparr>refcount := refcount d - of_nat n\<rparr>)\<rparr>)"
proof (induction n arbitrary: s d)
  case 0
  then have "(devs s)(dev \<mapsto> d) = devs s" by auto
  then show ?case by simp
next
  case (Suc n)
  then have gt: "1 < refcount d" by (simp add: word_less_nat_alt)
  have "unat (refcount d - 1) = unat (refcount d) - 1" using gt by unat_arith
  then have "n < unat (refcount (d\<lparr>refcount := refcount d - 1\<rparr>))" using Suc.prems by simp
  then show ?case using Suc.prems assms gt
    by (simp add: hs_device_unref_run Suc.IH [where d = "d\<lparr>refcount := refcount d - 1\<rparr>"] algebra_simps fun_upd_def cong: if_cong)
qed

lemma unref_times_Suc: "unref_times (Suc k) dev s = (unref_times k dev s \<bind> hs_device_unref dev)"
proof (induction k arbitrary: s)
  case 0
  then show ?case by (cases "hs_device_unref dev s") simp_all
next
  case (Suc k)
  then show ?case unfolding unref_times.simps(2) [of "Suc k"] unref_times.simps(2) [of k]
    by (cases "hs_device_unref dev s") auto
qed

text \<open>
  C34: reference counting. A device with one reference survives any number of \<open>hs_device_ref\<close> calls
  that the 32-bit counter can hold and as many \<open>hs_device_unref\<close> calls, after which the state is the
  one of before; one more \<open>hs_device_unref\<close> frees this device, with the table node in it, and touches
  no other object; after that a further access is undefined.
\<close>

theorem refcount_discipline:
  assumes "devs s dev = Some d" and "dev \<noteq> NULL" and "refcount d = 1" and "n < 2 ^ 32 - 1"
  shows "(ref_times n dev s \<bind> unref_times n dev) = Some s \<and>
     (ref_times n dev s \<bind> unref_times (n + 1) dev) = Some (device_free dev s) \<and>
     devs (device_free dev s) = (devs s)(dev := None) \<and>
     hs_device_unref dev (device_free dev s) = None \<and> hs_device_ref dev (device_free dev s) = None"
proof -
  let ?d = "d\<lparr>refcount := 1 + of_nat n\<rparr>"
  let ?s = "s\<lparr>devs := (devs s)(dev \<mapsto> ?d)\<rparr>"
  have run: "ref_times n dev s = Some ?s" using ref_times_run [OF assms(2,1), of n] assms(3) by simp
  have cnt: "unat (1 + of_nat n :: uint32) = Suc n"
    using assms(4) by (simp add: unat_word_ariths unat_of_nat take_bit_eq_mod)
  have same: "(devs s)(dev \<mapsto> d\<lparr>refcount := 1\<rparr>) = devs s" using assms(1,3) by auto
  have restored: "unref_times n dev ?s = Some s"
    using unref_times_run [OF assms(2), of ?s ?d n] cnt same by simp
  have last: "hs_device_unref dev s = Some (device_free dev s)"
    using assms(1-3) by (simp add: hs_device_unref_def)
  show ?thesis unfolding run using restored last assms(2)
    by (simp add: unref_times_Suc hs_device_unref_def hs_device_ref_def del: unref_times.simps(2))
qed

theorem refcount_discipline_witness:
  "(ref_times 3 5 ex_state \<bind> unref_times 3 5) = Some ex_state \<and>
   (ref_times 3 5 ex_state \<bind> unref_times 4 5) = Some (device_free 5 ex_state)"
  using refcount_discipline [of ex_state 5 _ 3] by simp

text \<open>
  Opening a device that is not online fails with \<open>HS_ERROR_NOT_FOUND\<close> before the driver is called:
  no handle is produced and, but for the log, the state is unchanged.
\<close>

theorem hs_device_open_offline:
  assumes "dev \<noteq> NULL" and "devs s dev = Some d" and "d_state d = HS_DEVICE_STATUS_DISCONNECTED"
    and "d_path d = Some p"
  shows "\<exists>L. hs_device_open V dev s = Some (-2, None, s\<lparr>logs := L\<rparr>) \<and>
     L = snd (hs_error HS_ERROR_NOT_FOUND (Some (''Device '' @ sq p @ '' is not connected'')) (logs s))"
  using assms by (simp add: hs_device_open_def fail_with_eq)

theorem hs_device_open_offline_witness:
  "\<exists>L. hs_device_open (\<lambda>v. undefined) 6 ex_state = Some (-2, None :: unit option, ex_state\<lparr>logs := L\<rparr>)"
  using hs_device_open_offline [of 6 ex_state "ex_device ''b'' 0 HS_DEVICE_STATUS_DISCONNECTED" "''/dev/x''" "\<lambda>v. undefined"] by auto

section \<open>Callbacks\<close>

text \<open>
  What is to be called, and what stays registered, when the callback at \<open>c\<close> returns \<open>res c\<close>; and the
  value the notification returns.
\<close>

fun called :: "(addr \<Rightarrow> int) \<Rightarrow> addr list \<Rightarrow> addr list" where
  "called res [] = []"
| "called res (c # cs) = c # (if res c < 0 then [] else called res cs)"

fun kept :: "(addr \<Rightarrow> int) \<Rightarrow> addr list \<Rightarrow> addr list" where
  "kept res [] = []"
| "kept res (c # cs) =
     (if res c < 0 then c # cs else if res c = 0 then c # kept res cs else kept res cs)"

fun first_error :: "(addr \<Rightarrow> int) \<Rightarrow> addr list \<Rightarrow> int" where
  "first_error res [] = 0"
| "first_error res (c # cs) = (if res c < 0 then res c else first_error res cs)"

definition cb_at :: "'w hs_state \<Rightarrow> addr \<Rightarrow> hs_callback" where
  "cb_at s c = the (cbs s c)"

lemma called_cong: "(\<And>c. c \<in> set C \<Longrightarrow> f c = g c) \<Longrightarrow> called f C = called g C"
  by (induction C) auto

lemma kept_cong: "(\<And>c. c \<in> set C \<Longrightarrow> f c = g c) \<Longrightarrow> kept f C = kept g C"
  by (induction C) auto

lemma first_error_cong: "(\<And>c. c \<in> set C \<Longrightarrow> f c = g c) \<Longrightarrow> first_error f C = first_error g C"
  by (induction C) auto

lemma set_called: "c \<in> set (called f C) \<Longrightarrow> c \<in> set C"
  by (induction C) (auto split: if_splits)

lemma notified_recorder:
  fixes s :: "call_trace hs_state"
  assumes "notified (recorder R) dev C s r C' s'" and "distinct C" and "\<forall>c \<in> set C. cbs s c \<noteq> None"
  defines "res \<equiv> \<lambda>s c. R (cb_f (cb_at s c)) dev"
  shows "C' = kept (res s) C \<and> r = first_error (res s) C \<and>
     ext s' = ext s @ map (\<lambda>c. (cb_f (cb_at s c), dev, cb_udata (cb_at s c))) (called (res s) C)"
  using assms(1-3) unfolding res_def
proof (induction rule: notified.induct)
  case (notified_done s)
  then show ?case by simp
next
  case (notified_stop s c cb r s' cs)
  then show ?case by (auto simp: recorder_def cb_at_def)
next
  case (notified_keep s c cb s' cs r cs' s'')
  then have s': "s' = s\<lparr>ext := ext s @ [(cb_f cb, dev, cb_udata cb)]\<rparr>" "R (cb_f cb) dev = 0"
    by (auto simp: recorder_def)
  then have "cb_at s' = cb_at s" by (simp add: cb_at_def fun_eq_iff)
  with notified_keep s' show ?case by (simp add: cb_at_def)
next
  case (notified_drop s c cb q s' l cs r cs' s'')
  let ?s = "callback_free c (s'\<lparr>lists := l\<rparr>)"
  have s': "s' = s\<lparr>ext := ext s @ [(cb_f cb, dev, cb_udata cb)]\<rparr>" "R (cb_f cb) dev = q"
    using notified_drop by (auto simp: recorder_def)
  have same: "cb_at ?s a = cb_at s a" if "a \<in> set cs" for a
    using that notified_drop.prems(1) s'(1) by (auto simp: cb_at_def)
  have "\<forall>a \<in> set cs. cbs ?s a \<noteq> None" using notified_drop.prems s'(1) by auto
  with notified_drop have ih: "cs' = kept (\<lambda>c. R (cb_f (cb_at ?s c)) dev) cs"
      "r = first_error (\<lambda>c. R (cb_f (cb_at ?s c)) dev) cs"
      "ext s'' = ext ?s @ map (\<lambda>c. (cb_f (cb_at ?s c), dev, cb_udata (cb_at ?s c)))
         (called (\<lambda>c. R (cb_f (cb_at ?s c)) dev) cs)"
    by auto
  have "map (\<lambda>c. (cb_f (cb_at ?s c), dev, cb_udata (cb_at ?s c))) (called (\<lambda>c. R (cb_f (cb_at ?s c)) dev) cs) =
      map (\<lambda>c. (cb_f (cb_at s c), dev, cb_udata (cb_at s c))) (called (\<lambda>c. R (cb_f (cb_at s c)) dev) cs)"
    using same by (intro map_cong called_cong) (simp_all add: set_called)
  moreover have "cs' = kept (\<lambda>c. R (cb_f (cb_at s c)) dev) cs"
    unfolding ih(1) using same by (intro kept_cong) simp
  moreover have "r = first_error (\<lambda>c. R (cb_f (cb_at s c)) dev) cs"
    unfolding ih(2) using same by (intro first_error_cong) simp
  ultimately show ?case using ih(3) notified_drop.hyps s' by (simp add: cb_at_def)
qed

text \<open>
  C23: a notification calls the registered functions one by one in the order of their registration,
  each with the device and its own user data; it stops at the first negative result, which it
  returns; a function with a positive result is deregistered and the notification goes on; every
  other callback stays registered.
\<close>

theorem trigger_callbacks_order:
  fixes s :: "call_trace hs_state"
  assumes "cb_rep s mp C" and "devs s dev = Some d" and "d_monitor d = mp" and "mons s mp = Some mon"
  shows "let res = \<lambda>c. R (cb_f (cb_at s c)) dev in
     \<exists>s'. trigger_callbacks (recorder R) dev s = Some (first_error res C, s') \<and> cb_rep s' mp (kept res C) \<and>
       ext s' = ext s @ map (\<lambda>c. (cb_f (cb_at s c), dev, cb_udata (cb_at s c))) (called res C)"
proof -
  obtain r C' s' where t: "trigger_callbacks (recorder R) dev s = Some (r, s')"
      "notified (recorder R) dev C s r C' s'" "cb_rep s' mp C'"
    using trigger_callbacks_run [OF recorder_well_behaved assms(1-4)] by blast
  have "distinct C" "\<forall>c \<in> set C. cbs s c \<noteq> None" using assms(1) by (simp_all add: cb_rep_def ring_def)
  with notified_recorder [OF t(2)] t(1,3) show ?thesis unfolding Let_def by blast
qed

theorem trigger_callbacks_order_witness:
  "\<exists>s'. trigger_callbacks (recorder (\<lambda>f dev. 1)) 5 ex_state = Some (0, s') \<and> cb_rep s' 10 [] \<and>
     ext s' = [(7, 5, 3)]"
proof -
  have "cb_rep ex_state 10 [20]" using ex_monitor_rep by (simp add: monitor_rep_def)
  from trigger_callbacks_order [OF this, of 5 _ _ "\<lambda>f dev. 1"] show ?thesis by (auto simp: cb_at_def)
qed

section \<open>Registered callbacks\<close>

text \<open>
  \<open>hs_monitor_register_callback\<close> returns an identifier that no registered callback has and puts
  the callback last; \<open>hs_monitor_deregister_callback\<close> with this identifier removes it again, and the
  other callbacks and all devices stay as they were.
\<close>

theorem register_deregister_roundtrip:
  assumes "monitor_rep s mp C B" and "ids_ok s mp C" and "mons s mp = Some mon"
    and "mp \<noteq> NULL" and "f \<noteq> NULL" and "p \<noteq> NULL" and "p \<notin> set (mp # C)" and "callback_id mon < INT_MAX"
  shows "\<exists>s' s'' C''. hs_monitor_register_callback p mp f u s = Some (callback_id mon, s') \<and>
     callback_id mon \<notin> set (cb_ids s C) \<and> monitor_rep s' mp (C @ [p]) B \<and>
     cb_ids s' (C @ [p]) = cb_ids s C @ [callback_id mon] \<and>
     hs_monitor_deregister_callback mp (callback_id mon) s' = Some s'' \<and>
     monitor_rep s'' mp C'' B \<and> ids_ok s'' mp C'' \<and> cb_ids s'' C'' = cb_ids s C \<and>
     same_devs (devs s) (devs s'')"
proof -
  obtain s' where s': "hs_monitor_register_callback p mp f u s = Some (callback_id mon, s')"
      "monitor_rep s' mp (C @ [p]) B" "ids_ok s' mp (C @ [p])" "devs s' = devs s"
      "cbs s' = (cbs s)(p \<mapsto> \<lparr>cb_id = callback_id mon, cb_f = f, cb_udata = u\<rparr>)"
    using register_run [OF assms(1,3,2,4-8)] by blast
  have ids: "cb_ids s' (C @ [p]) = cb_ids s C @ [callback_id mon]"
    using s'(5) assms(7) by (auto simp: cb_ids_def)
  have id: "0 \<le> callback_id mon" "callback_id mon \<notin> set (cb_ids s C)"
    using assms(2,3) by (auto simp: ids_ok_def sorted_wrt_append)
  obtain C'' s'' where s'': "hs_monitor_deregister_callback mp (callback_id mon) s' = Some s''"
      "monitor_rep s'' mp C'' B" "ids_ok s'' mp C''" "same_devs (devs s') (devs s'')"
      "cb_ids s'' C'' = remove1 (callback_id mon) (cb_ids s' (C @ [p]))"
    using deregister_run [OF s'(2,3) assms(4) id(1)] by blast
  have "cb_ids s'' C'' = cb_ids s C" using s''(5) id(2) by (simp add: ids remove1_append)
  with s' s'' ids id show ?thesis by auto
qed

theorem register_deregister_roundtrip_witness:
  "\<exists>s' s'' C''. hs_monitor_register_callback 21 10 8 0 ex_state = Some (1, s') \<and>
     hs_monitor_deregister_callback 10 1 s' = Some s'' \<and> cb_ids s'' C'' = [0] \<and> monitor_rep s'' 10 C'' [[5]]"
  using register_deregister_roundtrip [OF ex_monitor_rep ex_ids_ok, of ex_mon 8 21 0]
  by (auto simp: ex_cb_ids)

text \<open>
  \<open>hs_monitor_deregister_callback\<close> is defined for every identifier that is not negative: it drops
  the callback with this identifier, if there is one, and no other.
\<close>

theorem deregister_by_id:
  assumes "monitor_rep s mp C B" and "ids_ok s mp C" and "mp \<noteq> NULL" and "0 \<le> cid"
  shows "\<exists>C' s'. hs_monitor_deregister_callback mp cid s = Some s' \<and> monitor_rep s' mp C' B \<and> ids_ok s' mp C' \<and>
     cb_ids s' C' = filter (\<lambda>n. n \<noteq> cid) (cb_ids s C) \<and> registry s' B = registry s B"
proof -
  have "sorted_wrt (<) (cb_ids s C)" using assms(2) by (auto simp: ids_ok_def sorted_wrt_append)
  then have "distinct (cb_ids s C)" by (simp add: strict_sorted_iff)
  then have "remove1 cid (cb_ids s C) = filter (\<lambda>n. n \<noteq> cid) (cb_ids s C)" by (rule distinct_remove1_removeAll [THEN trans]) (simp add: removeAll_filter_not_eq eq_commute)
  with deregister_run [OF assms] registry_frame [of s _ B] show ?thesis by metis
qed

theorem deregister_by_id_witness:
  "\<exists>C' s'. hs_monitor_deregister_callback 10 0 ex_state = Some s' \<and> cb_ids s' C' = [] \<and> monitor_rep s' 10 C' [[5]]"
  using deregister_by_id [OF ex_monitor_rep ex_ids_ok, of 0] by (auto simp: ex_cb_ids)

section \<open>Known devices\<close>

text \<open>
  Adding a device whose key and interface number are already known changes nothing and calls no
  callback: \<open>_hs_monitor_add\<close> returns 0 in the same state, so a device is announced once however often
  the platform reports it.
\<close>

theorem monitor_add_known:
  assumes "monitor_rep s mp C B" and "devs s dev = Some d" and "d_key d = Some key"
    and "registry s B (Some key, d_iface d) \<noteq> None"
  shows "hs_monitor_add call mp dev s = Some (0, s)"
  using assms by (rule hs_monitor_add_known)

theorem monitor_add_known_witness:
  "hs_monitor_add (recorder (\<lambda>f dev. 1)) 10 5 ex_state = Some (0, ex_state)"
  by (rule monitor_add_known [OF ex_monitor_rep, of _ "ex_device ''a'' 10 HS_DEVICE_STATUS_ONLINE" "''a''"])
    (simp_all add: ex_registry)

text \<open>
  C1: adding a new device inserts it in the registry under its key and interface number, online, with
  one more reference and with its monitor set; the callbacks are notified in that state, after the
  insertion, and the result of the notification is the result of \<open>_hs_monitor_add\<close>.
\<close>

theorem monitor_add_refines:
  assumes "well_behaved call" and "monitor_rep s mp C B" and "mons s mp = Some mon"
    and "addable s (m_devices mon) B dev d" and "d_key d = Some key"
    and "registry s B (Some key, d_iface d) = None"
  shows "\<exists>r C' B' s1 s'. hs_monitor_add call mp dev s = Some (r, s') \<and> notified call dev C s1 r C' s' \<and>
     devs s1 = (devs s)(dev \<mapsto> d\<lparr>d_monitor := mp, d_state := HS_DEVICE_STATUS_ONLINE, refcount := refcount d + 1\<rparr>) \<and>
     ext s1 = ext s \<and> monitor_rep s' mp C' B' \<and> subseq C' C \<and>
     registry s' B' = (registry s B)((Some key, d_iface d) \<mapsto> dev)"
proof -
  from hs_monitor_add_new [OF assms] obtain r m C' s' where
      "hs_monitor_add call mp dev s = Some (r, s')"
      "notified call dev C (s\<lparr>devs := (devs s)(dev \<mapsto> d\<lparr>d_monitor := mp, d_state := HS_DEVICE_STATUS_ONLINE,
         refcount := refcount d + 1\<rparr>), nodes := m\<rparr>) r C' s'"
      "monitor_rep s' mp C' (B[bucket_of (m_devices mon) (hs_htable_hash_str key) :=
         dev # B ! bucket_of (m_devices mon) (hs_htable_hash_str key)])" "cb_sub s C s' C'"
      "registry s' (B[bucket_of (m_devices mon) (hs_htable_hash_str key) :=
         dev # B ! bucket_of (m_devices mon) (hs_htable_hash_str key)]) = (registry s B)((Some key, d_iface d) \<mapsto> dev)"
    by blast
  then show ?thesis unfolding cb_sub_def
    by (intro exI conjI) (assumption | erule conjunct1 | simp)+
qed

lemma ex_addable: "addable ex_state (m_devices ex_mon) [[5]] 6 (ex_device ''b'' 0 HS_DEVICE_STATUS_DISCONNECTED)"
  by (auto simp: addable_def hnode_allocated_def slots_def)

theorem monitor_add_refines_witness:
  "\<exists>r C' B' s'. hs_monitor_add (recorder (\<lambda>f dev. 0)) 10 6 ex_state = Some (r, s') \<and> monitor_rep s' 10 C' B' \<and>
     registry s' B' = [(Some ''a'', 0) \<mapsto> 5, (Some ''b'', 0) \<mapsto> 6]"
  using monitor_add_refines [OF recorder_well_behaved ex_monitor_rep _ ex_addable, of "''b''" "\<lambda>f dev. 0"]
  by (auto simp: ex_registry)

lemma monitor_rep_devs:
  "monitor_rep s mp C B \<Longrightarrow> mons s mp = Some mon \<Longrightarrow> dev_rep s mp (m_devices mon) B"
  by (auto simp: monitor_rep_def)

text \<open>
  C2: \<open>_hs_monitor_remove\<close> returns for every key: it takes all interfaces of the device with this key
  out of the registry, leaves every other entry, and no callback is registered that was not before.
\<close>

theorem monitor_remove_refines:
  assumes "well_behaved call" and "monitor_rep s mp C B"
  shows "\<exists>s' C' B'. hs_monitor_remove call mp key s = Some s' \<and> monitor_rep s' mp C' B' \<and> subseq C' C \<and>
     registry s' B' = (\<lambda>(k, i). if k = Some key then None else registry s B (k, i))"
proof -
  obtain s' C' where s': "hs_monitor_remove call mp key s = Some s'" "mons s' = mons s" "cb_sub s C s' C'"
      "monitor_rep s' mp C' (map (other_key s key) B)"
      "\<forall>y \<in> set (concat (map (other_key s key) B)). ident s' y = ident s y"
    using hs_monitor_remove_run [OF assms, of key] by blast
  obtain mon where "mons s mp = Some mon" using assms(2) by (auto simp: monitor_rep_def)
  then have "dev_rep s mp (m_devices mon) B" "dev_rep s' mp (m_devices mon) (map (other_key s key) B)"
    using assms(2) s'(2,4) by (auto intro: monitor_rep_devs)
  then have "registry s' (map (other_key s key) B) = (\<lambda>(k, i). if k = Some key then None else registry s B (k, i))"
    using s'(5) by (rule registry_other_key)
  with s' show ?thesis unfolding cb_sub_def by blast
qed

theorem monitor_remove_refines_witness:
  "\<exists>s' C' B'. hs_monitor_remove (recorder (\<lambda>f dev. 0)) 10 ''a'' ex_state = Some s' \<and> monitor_rep s' 10 C' B' \<and>
     registry s' B' = Map.empty"
proof -
  have "(\<lambda>(k, i). if k = Some ''a'' then None else registry ex_state [[5]] (k, i)) = Map.empty"
    by (auto simp: ex_registry fun_eq_iff)
  with monitor_remove_refines [OF recorder_well_behaved ex_monitor_rep, of "\<lambda>f dev. 0" "''a''"] show ?thesis
    by auto
qed

text \<open>
  Arrival and departure are inverse: a device with a new key that is added and whose key is then
  removed leaves the registry as it was, whatever the callbacks return.
\<close>

theorem monitor_add_remove_roundtrip:
  assumes "well_behaved call" and "monitor_rep s mp C B" and "mons s mp = Some mon"
    and "addable s (m_devices mon) B dev d" and "d_key d = Some key" and "\<forall>i. registry s B (Some key, i) = None"
  shows "\<exists>r s' s'' C'' B''. hs_monitor_add call mp dev s = Some (r, s') \<and>
     hs_monitor_remove call mp key s' = Some s'' \<and> monitor_rep s'' mp C'' B'' \<and>
     registry s'' B'' = registry s B"
proof -
  let ?B = "B[bucket_of (m_devices mon) (hs_htable_hash_str key) :=
    dev # B ! bucket_of (m_devices mon) (hs_htable_hash_str key)]"
  obtain r C' s' where a: "hs_monitor_add call mp dev s = Some (r, s')" "monitor_rep s' mp C' ?B" "mons s' = mons s"
      "registry s' ?B = (registry s B)((Some key, d_iface d) \<mapsto> dev)"
    using hs_monitor_add_new [OF assms(1-5) spec [OF assms(6)]] by blast
  obtain s'' C'' where b: "hs_monitor_remove call mp key s' = Some s''" "mons s'' = mons s'"
      "monitor_rep s'' mp C'' (map (other_key s' key) ?B)"
      "\<forall>y \<in> set (concat (map (other_key s' key) ?B)). ident s'' y = ident s' y"
    using hs_monitor_remove_run [OF assms(1) a(2), of key] by blast
  have "dev_rep s' mp (m_devices mon) ?B" "dev_rep s'' mp (m_devices mon) (map (other_key s' key) ?B)"
    using a(2,3) b(2,3) assms(3) by (auto intro: monitor_rep_devs)
  then have "registry s'' (map (other_key s' key) ?B) =
      (\<lambda>(k, i). if k = Some key then None else registry s' ?B (k, i))"
    using b(4) by (rule registry_other_key)
  also have "\<dots> = registry s B" using a(4) assms(6) by (auto simp: fun_eq_iff)
  finally show ?thesis using a(1) b(1,3) by blast
qed

theorem monitor_add_remove_roundtrip_witness:
  "\<exists>r s' s'' C'' B''. hs_monitor_add (recorder (\<lambda>f dev. 1)) 10 6 ex_state = Some (r, s') \<and>
     hs_monitor_remove (recorder (\<lambda>f dev. 1)) 10 ''b'' s' = Some s'' \<and> monitor_rep s'' 10 C'' B'' \<and>
     registry s'' B'' = [(Some ''a'', 0) \<mapsto> 5]"
  using monitor_add_remove_roundtrip [OF recorder_well_behaved ex_monitor_rep _ ex_addable, of "''b''" "\<lambda>f dev. 1"]
  by (auto simp: ex_registry)

lemma visit_recorder:
  "visit (recorder R) f u xs s =
     Some (case filter (\<lambda>x. R f x \<noteq> 0) xs of [] \<Rightarrow> 0 | x # _ \<Rightarrow> R f x,
           s\<lparr>ext := ext s @ map (\<lambda>x. (f, x, u)) (upto_first (\<lambda>x. R f x \<noteq> 0) xs)\<rparr>)"
  by (induction xs arbitrary: s) (simp_all add: recorder_def)

lemma ran_registry:
  assumes "monitor_rep s mp C B"
  shows "set (concat B) = ran (registry s B) \<and> distinct (concat B)"
proof -
  obtain t where dr: "dev_rep s mp t B" using assms by (auto simp: monitor_rep_def)
  then have "registry s B i = Some x \<longleftrightarrow> x \<in> set (concat B) \<and> ident s x = i" for i x
    by (intro registry_Some) (simp add: dev_rep_def)
  then have "set (concat B) = ran (registry s B)" by (auto simp: ran_def simp del: set_concat)
  moreover have "distinct (concat B)" using dr htable_rep_distinct by (auto simp: dev_rep_def)
  ultimately show ?thesis by blast
qed

text \<open>
  \<open>hs_monitor_list\<close> calls the function for the devices of the registry, each exactly once, and
  stops at the first that gives a non-zero result, which it returns; otherwise it returns 0. Nothing
  else happens: the state of the library is unchanged.
\<close>

theorem monitor_list_visits:
  fixes s :: "call_trace hs_state"
  assumes "monitor_rep s mp C B" and "mp \<noteq> NULL" and "f \<noteq> NULL"
  shows "\<exists>xs. distinct xs \<and> set xs = ran (registry s B) \<and>
     hs_monitor_list (recorder R) mp f u s =
       Some (case filter (\<lambda>x. R f x \<noteq> 0) xs of [] \<Rightarrow> 0 | x # _ \<Rightarrow> R f x,
             s\<lparr>ext := ext s @ map (\<lambda>x. (f, x, u)) (upto_first (\<lambda>x. R f x \<noteq> 0) xs)\<rparr>)"
proof (intro exI conjI)
  show "distinct (concat B)" "set (concat B) = ran (registry s B)" using ran_registry [OF assms(1)] by auto
  show "hs_monitor_list (recorder R) mp f u s =
      Some (case filter (\<lambda>x. R f x \<noteq> 0) (concat B) of [] \<Rightarrow> 0 | x # _ \<Rightarrow> R f x,
            s\<lparr>ext := ext s @ map (\<lambda>x. (f, x, u)) (upto_first (\<lambda>x. R f x \<noteq> 0) (concat B))\<rparr>)"
    using hs_monitor_list_visit [OF recorder_well_behaved assms] by (simp add: visit_recorder)
qed

theorem monitor_list_visits_witness:
  "hs_monitor_list (recorder (\<lambda>f dev. 0)) 10 8 2 ex_state = Some (0, ex_state\<lparr>ext := [(8, 5, 2)]\<rparr>)"
proof -
  have ran: "ran (registry ex_state [[5]]) = {5}" by (simp add: ex_registry)
  have "(10 :: nat) \<noteq> 0" "(8 :: nat) \<noteq> 0" by simp_all
  from monitor_list_visits [OF ex_monitor_rep this, of "\<lambda>f dev. 0" 2]
  obtain xs where xs: "distinct xs" "set xs = ran (registry ex_state [[5]])"
      "hs_monitor_list (recorder (\<lambda>f dev. 0)) 10 8 2 ex_state =
       Some (case filter (\<lambda>x. (0::int) \<noteq> 0) xs of [] \<Rightarrow> 0 | x # _ \<Rightarrow> 0,
         ex_state\<lparr>ext := ext ex_state @ map (\<lambda>x. (8, x, 2)) (upto_first (\<lambda>x. (0::int) \<noteq> 0) xs)\<rparr>)"
    by (elim exE conjE)
  then have "length xs = 1" using ran distinct_card [of xs] by simp
  then obtain a where "xs = [a]" by (auto simp: length_Suc_conv)
  with xs(2,3) ran show ?thesis by simp
qed

section \<open>The life of a monitor\<close>

text \<open>A monitor just allocated by \<open>calloc\<close>.\<close>

definition ex_fresh :: "call_trace hs_state" where
  "ex_fresh = ex_state\<lparr>lists := \<lparr>l_prev = [10 \<mapsto> 0], l_next = [10 \<mapsto> 0]\<rparr>,
     nodes := \<lparr>h_next = Map.empty, h_key = Map.empty\<rparr>, devs := Map.empty, cbs := Map.empty,
     mons := [10 \<mapsto> \<lparr>callback_id = 0, m_devices = \<lparr>ht_size = 0, ht_heads = 0\<rparr>\<rparr>]\<rparr>"

lemma ex_fresh_sel:
  "mons ex_fresh 10 = Some \<lparr>callback_id = 0, m_devices = \<lparr>ht_size = 0, ht_heads = 0\<rparr>\<rparr>"
  "list_allocated (lists ex_fresh) 10" "devs ex_fresh = Map.empty"
  by (simp_all add: ex_fresh_def list_allocated_def)

text \<open>
  \<open>_hs_monitor_init\<close> on a zeroed monitor makes it a monitor with no callback and no known device
  when the table can be allocated; when it cannot, the result is \<open>HS_ERROR_MEMORY\<close>, reported once.
\<close>

theorem monitor_init_empty:
  assumes "mons s mp = Some mon" and "list_allocated (lists s) mp" and "callback_id mon = 0"
  shows "\<exists>r s'. hs_monitor_init p mp s = Some (r, s') \<and>
     (p \<noteq> NULL \<longrightarrow> r = 0 \<and> devs s' = devs s \<and>
        (\<exists>B. monitor_rep s' mp [] B \<and> ids_ok s' mp [] \<and> registry s' B = Map.empty)) \<and>
     (p = NULL \<longrightarrow> r = -1 \<and> logs s' = snd (hs_error HS_ERROR_MEMORY None (logs s)))"
proof (cases "p = NULL")
  case True
  then show ?thesis using init_no_memory [OF assms(1,2)] by auto
next
  case False
  obtain s' where "hs_monitor_init p mp s = Some (0, s')" "monitor_rep s' mp [] (replicate 64 [])"
      "ids_ok s' mp []" "devs s' = devs s"
    using init_run [OF assms(1,2) False assms(3)] by blast
  with False registry_empty [of s' 64] show ?thesis by blast
qed

theorem monitor_init_empty_witness:
  "\<exists>s' B. hs_monitor_init 1000 10 ex_fresh = Some (0, s') \<and> monitor_rep s' 10 [] B \<and> registry s' B = Map.empty"
  using monitor_init_empty [OF ex_fresh_sel(1,2), of 1000] by auto

text \<open>
  C36: \<open>_hs_monitor_release\<close> is defined on every monitor: it frees all callbacks and the table, gives
  back the monitor's reference of every known device (a device nobody else refers to is freed, any
  other keeps its remaining references and loses its monitor), and touches no other device.
\<close>

theorem monitor_release_frees:
  assumes "monitor_rep s mp C B" and "mons s mp = Some mon"
  shows "\<exists>s'. hs_monitor_release mp s = Some s' \<and> (\<forall>c \<in> set C. cbs s' c = None) \<and>
     (\<forall>a \<in> slots (m_devices mon). h_next (nodes s') a = None) \<and>
     (\<forall>x. devs s' x =
        (if x \<in> ran (registry s B)
         then devs s x \<bind> (\<lambda>d. if refcount d > 1 then Some (d\<lparr>d_monitor := NULL, refcount := refcount d - 1\<rparr>)
                                 else None)
         else devs s x))"
proof -
  have eq: "set (concat B) = ran (registry s B)" using ran_registry [OF assms(1)] by blast
  obtain s' where s': "hs_monitor_release mp s = Some s'" "\<forall>c \<in> set C. cbs s' c = None"
      "devs s' = (\<lambda>x. if x \<in> set (concat B) then devs s x \<bind> dropped else devs s x)"
      "\<forall>a \<in> slots (m_devices mon). h_next (nodes s') a = None"
    using release_run [OF assms] by blast
  have "dropped = (\<lambda>d. if refcount d > 1 then Some (d\<lparr>d_monitor := NULL, refcount := refcount d - 1\<rparr>) else None)"
    by (simp add: dropped_def fun_eq_iff)
  with s' show ?thesis by (intro exI [of _ s'] conjI) (simp_all add: eq del: set_concat)
qed

theorem monitor_release_frees_witness:
  "\<exists>s'. hs_monitor_release 10 ex_state = Some s' \<and> cbs s' 20 = None \<and> devs s' 5 = None \<and>
     devs s' 6 = devs ex_state 6 \<and> h_next (nodes s') 100 = None"
  using monitor_release_frees [OF ex_monitor_rep, of ex_mon] by (auto simp: ex_registry slots_def)

lemma init_monitor_inv:
  assumes "mons s mp = Some mon" and "list_allocated (lists s) mp" and "callback_id mon = 0"
    and "p \<noteq> NULL" and "\<forall>a. p \<le> a \<and> a < p + 64 \<longrightarrow> devs s a = None"
    and "hs_monitor_init p mp s = Some (0, s')"
  shows "monitor_inv mp s'"
proof -
  have run: "monitor_rep s' mp [] (replicate 64 [])" "ids_ok s' mp []" "devs s' = devs s"
    using init_run [OF assms(1,2,4,3)] assms(6) by auto
  have "mons s' mp = Some (mon\<lparr>m_devices := (m_devices mon)\<lparr>ht_heads := p, ht_size := 64\<rparr>\<rparr>)"
    using assms(1,4,6) by (auto simp: hs_monitor_init_def hs_htable_init_def Let_def bind_eq_Some_conv split: if_splits)
  then have "apart s' mp" using run(3) assms(5) by (auto simp: apart_def slots_def)
  moreover have "mp \<noteq> NULL" using assms(2) by (simp add: list_allocated_def)
  ultimately show ?thesis using run by (auto intro: monitor_invI)
qed

text \<open>
  C3: in every state a monitor can reach from its initialisation through any sequence of registrations,
  deregistrations, arrivals, departures, listings and reference operations, its structures are
  intact: the identifiers of the callbacks are distinct, and each entry of the registry is a live
  device with that key and interface number, online, that belongs to this monitor.
\<close>

theorem monitor_reachable:
  assumes "well_behaved call" and "mons s0 mp = Some mon" and "list_allocated (lists s0) mp"
    and "callback_id mon = 0" and "p \<noteq> NULL" and "\<forall>a. p \<le> a \<and> a < p + 64 \<longrightarrow> devs s0 a = None"
    and "hs_monitor_init p mp s0 = Some (0, s)" and "(mon_step call mp)\<^sup>*\<^sup>* s s'"
  shows "\<exists>C B. monitor_rep s' mp C B \<and> distinct (cb_ids s' C) \<and>
     (\<forall>key i x. registry s' B (key, i) = Some x \<longrightarrow>
        (\<exists>d. devs s' x = Some d \<and> d_key d = key \<and> d_iface d = i \<and> d_monitor d = mp \<and>
             d_state d = HS_DEVICE_STATUS_ONLINE \<and> refcount d \<noteq> 0))"
proof -
  have "monitor_inv mp s'"
    using mon_reach_inv [OF assms(1,8)] init_monitor_inv [OF assms(2-7)] by blast
  then obtain t C B where i: "monitor_rep s' mp C B" "ids_ok s' mp C" "dev_rep s' mp t B"
    by (rule monitor_invE) blast
  have "sorted_wrt (<) (cb_ids s' C)" using i(2) by (auto simp: ids_ok_def sorted_wrt_append)
  then have "distinct (cb_ids s' C)" by (simp add: strict_sorted_iff)
  moreover have "inj_on (ident s') (set (concat B))" using i(3) by (simp add: dev_rep_def)
  then have "registry s' B j = Some x \<Longrightarrow> dev_ok s' mp x \<and> ident s' x = j" for j x
    using i(3) registry_Some unfolding dev_rep_def by metis
  then have "\<exists>d. devs s' x = Some d \<and> d_key d = key \<and> d_iface d = n \<and> d_monitor d = mp \<and>
      d_state d = HS_DEVICE_STATUS_ONLINE \<and> refcount d \<noteq> 0" if "registry s' B (key, n) = Some x" for key n x
    using that unfolding dev_ok_def ident_def by fastforce
  ultimately show ?thesis using i(1) by blast
qed

theorem monitor_reachable_witness:
  "\<exists>s s' C B. hs_monitor_init 1000 10 ex_fresh = Some (0, s) \<and>
     hs_monitor_remove (recorder (\<lambda>f dev. 0)) 10 ''a'' s = Some s' \<and> monitor_rep s' 10 C B \<and> distinct (cb_ids s' C)"
proof -
  obtain s where s: "hs_monitor_init 1000 10 ex_fresh = Some (0, s)"
    using init_run [OF ex_fresh_sel(1,2), of 1000] by auto
  have fresh: "\<forall>a. 1000 \<le> a \<and> a < 1000 + 64 \<longrightarrow> devs ex_fresh a = None" by (simp add: ex_fresh_sel)
  have "monitor_inv 10 s"
    by (rule init_monitor_inv [OF ex_fresh_sel(1,2) _ _ fresh s]) simp_all
  then obtain s' where s': "hs_monitor_remove (recorder (\<lambda>f dev. 0)) 10 ''a'' s = Some s'"
    using monitor_inv_depart [OF recorder_well_behaved] by blast
  then have "(mon_step (recorder (\<lambda>f dev. 0)) 10)\<^sup>*\<^sup>* s s'" by (intro r_into_rtranclp step_depart)
  then have "\<exists>C B. monitor_rep s' 10 C B \<and> distinct (cb_ids s' C)"
    using monitor_reachable [OF recorder_well_behaved ex_fresh_sel(1,2) _ _ fresh s, of "\<lambda>f dev. 0" s'] by auto
  with s s' show ?thesis by blast
qed



end
