(* ===== verification/Platform.thy ===== *)
theory Platform
  imports Device
begin

text \<open>
  Model of \<open>src/platform.c\<close>: descriptor sets and the adjustment of timeouts. The clock
  (\<open>hs_millis\<close>) is the one of the platform and comes in as an argument. A descriptor set is the
  fixed array of 64 descriptors and 64 identifiers with its fill count; the operations refine
  appending to, and filtering, the list of its entries.
\<close>

section \<open>Timeouts\<close>

definition hs_adjust_timeout ::
  "('s \<Rightarrow> (uint64 \<times> 's) option) \<Rightarrow> int \<Rightarrow> uint64 \<Rightarrow> 's \<Rightarrow> (int \<times> 's) option" where
  "hs_adjust_timeout millis timeout start s =
     (if timeout < 0 then Some (-1, s)
      else do {
        (now, s) \<leftarrow> millis s;
        if now > start + of_int timeout then Some (0, s)
        else Some (to_int32 (start + of_int timeout - now), s)
      })"

section \<open>Descriptor sets\<close>

record 'd descriptor_set =
  ds_count :: uint32
  ds_desc :: "'d list"
  ds_id :: "int list"

definition hs_descriptor_set_clear :: "'d descriptor_set \<Rightarrow> 'd descriptor_set" where
  "hs_descriptor_set_clear dset = dset\<lparr>ds_count := 0\<rparr>"

definition arr_set :: "'a list \<Rightarrow> nat \<Rightarrow> 'a \<Rightarrow> 'a list option" where
  "arr_set xs i x = (if i < length xs then Some (xs[i := x]) else None)"

text \<open>\<open>valid\<close> is the platform's test of a descriptor: non-negative, or not null on Windows.\<close>

definition hs_descriptor_set_add ::
  "('d \<Rightarrow> bool) \<Rightarrow> 'd descriptor_set \<Rightarrow> 'd \<Rightarrow> int \<Rightarrow> 'd descriptor_set option" where
  "hs_descriptor_set_add valid dset desc n = do {
     c_assert (unat (ds_count dset) < length (ds_desc dset));
     c_assert (valid desc);
     ds \<leftarrow> arr_set (ds_desc dset) (unat (ds_count dset)) desc;
     ids \<leftarrow> arr_set (ds_id dset) (unat (ds_count dset)) n;
     Some (dset\<lparr>ds_desc := ds, ds_id := ids, ds_count := ds_count dset + 1\<rparr>)
   }"

text \<open>The loop of \<open>hs_descriptor_set_remove\<close> at index \<open>i\<close>, with \<open>count\<close> entries kept so far.\<close>

function descriptor_set_remove_from ::
  "int \<Rightarrow> nat \<Rightarrow> nat \<Rightarrow> nat \<Rightarrow> 'd list \<Rightarrow> int list \<Rightarrow> (nat \<times> 'd list \<times> int list) option" where
  "descriptor_set_remove_from n tot i count ds ids =
     (if i < tot then do {
        k \<leftarrow> buf_read ids i;
        if k \<noteq> n then do {
          d \<leftarrow> buf_read ds i;
          ds \<leftarrow> arr_set ds count d;
          ids \<leftarrow> arr_set ids count k;
          descriptor_set_remove_from n tot (Suc i) (Suc count) ds ids
        }
        else descriptor_set_remove_from n tot (Suc i) count ds ids
      }
      else Some (count, ds, ids))"
  by pat_completeness auto
termination
  by (relation "measure (\<lambda>(n, tot, i, count, ds, ids). tot - i)") auto

declare descriptor_set_remove_from.simps [simp del]

definition hs_descriptor_set_remove :: "'d descriptor_set \<Rightarrow> int \<Rightarrow> 'd descriptor_set option" where
  "hs_descriptor_set_remove dset n = do {
     (count, ds, ids) \<leftarrow> descriptor_set_remove_from n (unat (ds_count dset)) 0 0 (ds_desc dset) (ds_id dset);
     Some (dset\<lparr>ds_desc := ds, ds_id := ids, ds_count := of_nat count\<rparr>)
   }"

section \<open>Representation of descriptor sets\<close>

definition ds_ok :: "'d descriptor_set \<Rightarrow> bool" where
  "ds_ok dset \<longleftrightarrow> length (ds_desc dset) = 64 \<and> length (ds_id dset) = 64 \<and> unat (ds_count dset) \<le> 64"

definition entries :: "'d descriptor_set \<Rightarrow> ('d \<times> int) list" where
  "entries dset = take (unat (ds_count dset)) (zip (ds_desc dset) (ds_id dset))"

lemma length_entries: "ds_ok dset \<Longrightarrow> length (entries dset) = unat (ds_count dset)"
  by (simp add: ds_ok_def entries_def)

lemma unat_Suc_count: "n < 64 \<Longrightarrow> unat (c + 1 :: uint32) = unat c + 1" if "unat c = n" for c
  using that by (subst unat_add_lem [THEN iffD1]) simp_all

lemma hs_descriptor_set_clear_entries:
  "ds_ok dset \<Longrightarrow> ds_ok (hs_descriptor_set_clear dset) \<and> entries (hs_descriptor_set_clear dset) = []"
  by (simp add: hs_descriptor_set_clear_def ds_ok_def entries_def)

lemma hs_descriptor_set_add_entries:
  assumes ok: "ds_ok dset" and room: "length (entries dset) < 64" and v: "valid desc"
  shows "\<exists>dset'. hs_descriptor_set_add valid dset desc n = Some dset' \<and> ds_ok dset' \<and>
     entries dset' = entries dset @ [(desc, n)]"
proof -
  let ?c = "unat (ds_count dset)"
  have c: "?c < 64" using room length_entries [OF ok] by simp
  then have c1: "unat (ds_count dset + 1) = ?c + 1" by (intro unat_Suc_count) simp_all
  have "take (?c + 1) (zip ((ds_desc dset)[?c := desc]) ((ds_id dset)[?c := n])) =
      take ?c (zip (ds_desc dset) (ds_id dset)) @ [(desc, n)]"
    using ok c by (simp add: ds_ok_def take_Suc_conv_app_nth take_zip)
  then show ?thesis
    using ok c v c1 by (auto simp: hs_descriptor_set_add_def ds_ok_def arr_set_def entries_def)
qed

lemma hs_descriptor_set_add_full:
  assumes "ds_ok dset" and "length (entries dset) = 64"
  shows "hs_descriptor_set_add valid dset desc n = None"
  using assms by (simp add: hs_descriptor_set_add_def length_entries ds_ok_def)

text \<open>Invariant of the compaction loop: the entries kept are in front, those to come untouched.\<close>

lemma descriptor_set_remove_from_run:
  assumes "length ds = 64" "length ids = 64" "count \<le> i" "i \<le> tot" "tot \<le> 64"
  shows "\<exists>ds' ids' c. descriptor_set_remove_from n tot i count ds ids = Some (c, ds', ids') \<and>
     length ds' = 64 \<and> length ids' = 64 \<and> c \<le> tot \<and>
     take c (zip ds' ids') =
       take count (zip ds ids) @ filter (\<lambda>(d, k). k \<noteq> n) (drop i (take tot (zip ds ids)))"
  using assms
proof (induction n tot i count ds ids rule: descriptor_set_remove_from.induct)
  case (1 n tot i count ds ids)
  show ?case
  proof (cases "i < tot")
    case False
    then have "descriptor_set_remove_from n tot i count ds ids = Some (count, ds, ids)"
      by (simp add: descriptor_set_remove_from.simps [of n tot i])
    with False "1.prems" show ?thesis
      by (intro exI [of _ ds] exI [of _ ids] exI [of _ count]) simp
  next
    case True
    let ?z = "zip ds ids"
    have split: "drop i (take tot ?z) = (ds ! i, ids ! i) # drop (Suc i) (take tot ?z)"
      using True "1.prems" by (simp add: Cons_nth_drop_Suc [symmetric])
    show ?thesis
    proof (cases "ids ! i = n")
      case skip: True
      have "descriptor_set_remove_from n tot i count ds ids = descriptor_set_remove_from n tot (Suc i) count ds ids"
        using True skip "1.prems" by (simp add: descriptor_set_remove_from.simps [of n tot i] buf_read_def)
      moreover note "1.IH"(2) [OF True, of "ids ! i"]
      ultimately show ?thesis
        using skip split True "1.prems" by (simp add: buf_read_def)
    next
      case keep: False
      let ?ds = "ds[count := ds ! i]" and ?ids = "ids[count := ids ! i]"
      have run: "descriptor_set_remove_from n tot i count ds ids =
          descriptor_set_remove_from n tot (Suc i) (Suc count) ?ds ?ids"
        using True keep "1.prems"
        by (simp add: descriptor_set_remove_from.simps [of n tot i] buf_read_def arr_set_def)
      have zip: "zip ?ds ?ids = ?z[count := (ds ! i, ids ! i)]" by (simp add: zip_update)
      have t: "take (Suc count) (zip ?ds ?ids) = take count ?z @ [(ds ! i, ids ! i)]"
        using True "1.prems" by (simp add: zip take_Suc_conv_app_nth)
      have d: "drop (Suc i) (take tot (zip ?ds ?ids)) = drop (Suc i) (take tot ?z)"
        using "1.prems" by (simp add: zip drop_take drop_update_cancel)
      have "\<exists>ds' ids' c. descriptor_set_remove_from n tot (Suc i) (Suc count) ?ds ?ids = Some (c, ds', ids') \<and>
          length ds' = 64 \<and> length ids' = 64 \<and> c \<le> tot \<and>
          take c (zip ds' ids') = take (Suc count) (zip ?ds ?ids) @
            filter (\<lambda>(d, k). k \<noteq> n) (drop (Suc i) (take tot (zip ?ds ?ids)))"
        by (rule "1.IH"(1) [OF True]) (use True keep "1.prems" in \<open>simp_all add: buf_read_def arr_set_def\<close>)
      then show ?thesis unfolding run t d split using keep by simp
    qed
  qed
qed

lemma hs_descriptor_set_remove_entries:
  assumes ok: "ds_ok dset"
  shows "\<exists>dset'. hs_descriptor_set_remove dset n = Some dset' \<and> ds_ok dset' \<and>
     entries dset' = filter (\<lambda>(d, k). k \<noteq> n) (entries dset)"
proof -
  obtain ds ids c where r: "descriptor_set_remove_from n (unat (ds_count dset)) 0 0 (ds_desc dset) (ds_id dset) =
        Some (c, ds, ids)" "length ds = 64" "length ids = 64" "c \<le> unat (ds_count dset)"
      "take c (zip ds ids) = filter (\<lambda>(d, k). k \<noteq> n) (entries dset)"
    using descriptor_set_remove_from_run [of "ds_desc dset" "ds_id dset" 0 0 "unat (ds_count dset)" n] ok
    by (auto simp: ds_ok_def entries_def)
  have "unat (of_nat c :: uint32) = c"
    using r(4) ok by (simp add: ds_ok_def unat_of_nat)
  with r ok show ?thesis by (auto simp: hs_descriptor_set_remove_def ds_ok_def entries_def)
qed

section \<open>Bounds of adjusted timeouts\<close>

lemma to_int32_small:
  assumes x: "unat x < 2 ^ 31"
  shows "to_int32 x = int (unat x)"
proof -
  have "unat (ucast x :: 32 word) = unat x" using x by (simp add: unsigned_ucast_eq take_bit_nat_eq_self)
  then have u: "uint (ucast x :: 32 word) = int (unat x)" by (simp only: uint_nat)
  have "int (unat x) < 2 ^ 31" using x by (metis of_nat_less_iff of_nat_numeral of_nat_power)
  moreover have "- (2 ^ 31) \<le> int (unat x)" by (rule order_trans [of _ 0]) simp_all
  ultimately have "signed_take_bit 31 (int (unat x)) = int (unat x)"
    by (rule signed_take_bit_int_eq_self [rotated])
  then show ?thesis unfolding to_int32_def sint_uint u by simp
qed

lemma hs_adjust_timeout_run:
  assumes m: "millis s = Some (now, s')" and t: "0 \<le> timeout" "timeout \<le> INT_MAX" and le: "start \<le> now"
    and nowrap: "unat start + nat timeout < 2 ^ 64"
  shows "hs_adjust_timeout millis timeout start s =
     Some (max 0 (timeout - (int (unat now) - int (unat start))), s')"
proof -
  let ?dl = "start + of_int timeout"
  have "unat (of_int timeout :: uint64) = nat timeout"
    using t by (simp add: unsigned_of_int take_bit_int_eq_self)
  then have dl: "unat ?dl = unat start + nat timeout"
    using nowrap by (simp add: unat_word_ariths)
  have le': "unat start \<le> unat now" using le by (simp add: word_le_nat_alt)
  show ?thesis
  proof (cases "now > ?dl")
    case True
    then have "unat start + nat timeout < unat now" by (simp add: word_less_nat_alt dl)
    then have "max 0 (timeout - (int (unat now) - int (unat start))) = 0"
      using t by (intro max_absorb1) linarith
    with True m t show ?thesis by (simp add: hs_adjust_timeout_def)
  next
    case False
    then have le2: "now \<le> ?dl" by simp
    then have "unat (?dl - now) = unat start + nat timeout - unat now" by (simp add: unat_sub dl)
    moreover have "nat timeout < 2 ^ 31" using t by simp
    then have "unat start + nat timeout - unat now < 2 ^ 31" using le' by arith
    moreover have "unat now \<le> unat start + nat timeout" using le2 by (simp add: word_le_nat_alt dl)
    ultimately have "to_int32 (?dl - now) = int (unat start + nat timeout - unat now)"
      and "unat now \<le> unat start + nat timeout" by (simp_all only: to_int32_small)
    moreover from this(2) have
      "int (unat start + nat timeout - unat now) = timeout - (int (unat now) - int (unat start))"
      "0 \<le> timeout - (int (unat now) - int (unat start))" using t(1) by linarith+
    ultimately have "to_int32 (?dl - now) = max 0 (timeout - (int (unat now) - int (unat start)))"
      by (simp only: max_absorb2)
    with False m t show ?thesis by (simp add: hs_adjust_timeout_def)
  qed
qed

lemma hs_adjust_timeout_negative: "timeout < 0 \<Longrightarrow> hs_adjust_timeout millis timeout start s = Some (-1, s)"
  by (simp add: hs_adjust_timeout_def)

end
