(* ===== verification/Strings.thy ===== *)
theory Strings
  imports Prelude
begin

text \<open>
  What the platform code uses of the conversions of the C library: characters and their classes,
  \<open>strtoul\<close>, the integers of \<open>printf\<close> and \<open>scanf\<close>, and \<open>strstr\<close>.
\<close>

section \<open>Characters\<close>

definition is_digit :: "char \<Rightarrow> bool" where
  "is_digit c \<longleftrightarrow> 48 \<le> (of_char c :: nat) \<and> (of_char c :: nat) \<le> 57"

definition is_space :: "char \<Rightarrow> bool" where
  "is_space c \<longleftrightarrow> (of_char c :: nat) = 32 \<or> 9 \<le> (of_char c :: nat) \<and> (of_char c :: nat) \<le> 13"

section \<open>Numbers in strings\<close>

text \<open>
  \<open>strtoul\<close> with base 10 or 16, for a 64-bit \<open>unsigned long\<close>: white space, a sign, the prefix of base
  16 when a digit follows it, and digits; the flag says that \<open>errno\<close> is set to \<open>ERANGE\<close>.
\<close>

definition digit_val :: "char \<Rightarrow> nat" where
  "digit_val c =
     (let n = of_char c in
      if 48 \<le> n \<and> n \<le> 57 then n - 48 else if 97 \<le> n \<and> n \<le> 102 then n - 87
      else if 65 \<le> n \<and> n \<le> 70 then n - 55 else 255)"

fun digits_nat :: "nat \<Rightarrow> nat \<Rightarrow> string \<Rightarrow> nat" where
  "digits_nat b v [] = v"
| "digits_nat b v (c # cs) = digits_nat b (v * b + digit_val c) cs"

definition hex_prefix :: "string \<Rightarrow> string" where
  "hex_prefix s =
     (if length s > 2 \<and> s ! 0 = CHR ''0'' \<and> (s ! 1 = CHR ''x'' \<or> s ! 1 = CHR ''X'') \<and> digit_val (s ! 2) < 16
      then drop 2 s else s)"

definition strtoul :: "string \<Rightarrow> nat \<Rightarrow> uint64 \<times> bool" where
  "strtoul s b =
     (let s = dropWhile is_space s;
          neg = (s \<noteq> [] \<and> hd s = CHR ''-'');
          s = (if s \<noteq> [] \<and> (hd s = CHR ''-'' \<or> hd s = CHR ''+'') then tl s else s);
          s = (if b = 16 then hex_prefix s else s);
          v = digits_nat b 0 (takeWhile (\<lambda>c. digit_val c < b) s) in
      if v \<ge> 2 ^ 64 then (- 1, True) else (if neg then - of_nat v else of_nat v, False))"

section \<open>Formatted output and input\<close>

text \<open>\<open>%u\<close> and \<open>%x\<close>, and the padding of \<open>%0wu\<close> and \<open>%0wx\<close> with zeros to the width \<open>w\<close>.\<close>

definition digit_char :: "nat \<Rightarrow> char" where
  "digit_char n = char_of (if n < 10 then n + 48 else n + 87)"

function show_nat :: "nat \<Rightarrow> nat \<Rightarrow> string" where
  "show_nat b n = (if n < b \<or> b < 2 then [digit_char n] else show_nat b (n div b) @ [digit_char (n mod b)])"
  by auto
termination by (relation "measure snd") auto

declare show_nat.simps [simp del]

definition zero_pad :: "nat \<Rightarrow> string \<Rightarrow> string" where
  "zero_pad w str = replicate (w - length str) (CHR ''0'') @ str"

text \<open>
  A directive for an integer of base \<open>b\<close> and at most \<open>w\<close> characters: white space, a sign, the prefix of
  base 16, digits. \<open>None\<close> is a failure to match; otherwise the value and what is left of the input.
\<close>

definition scan_int :: "nat \<Rightarrow> nat \<Rightarrow> string \<Rightarrow> (int \<times> string) option" where
  "scan_int b w str =
     (let str = dropWhile is_space str;
          field = take w str;
          neg = (field \<noteq> [] \<and> hd field = CHR ''-'');
          num = (if field \<noteq> [] \<and> (hd field = CHR ''-'' \<or> hd field = CHR ''+'') then tl field else field);
          num = (if b = 16 \<and> (str_prefix ''0x'' num \<or> str_prefix ''0X'' num) then drop 2 num else num);
          ds = takeWhile (\<lambda>c. digit_val c < b) num;
          v = int (digits_nat b 0 ds) in
      if ds = [] then None
      else Some (if neg then - v else v, drop (length field - length num + length ds) str))"

text \<open>The literal characters of a format.\<close>

definition scan_lit :: "string \<Rightarrow> string \<Rightarrow> string option" where
  "scan_lit lit str = (if str_prefix lit str then Some (drop (length lit) str) else None)"

text \<open>\<open>strstr\<close>: the rest of the string from the first occurrence on.\<close>

fun strstr :: "string \<Rightarrow> string \<Rightarrow> string option" where
  "strstr pat [] = (if pat = [] then Some [] else None)"
| "strstr pat (c # cs) = (if str_prefix pat (c # cs) then Some (c # cs) else strstr pat cs)"

section \<open>Lemmas\<close>

lemma digit_char_code: "n < 16 \<Longrightarrow> of_char (digit_char n) = (if n < 10 then n + 48 else n + 87 :: nat)"
  by (simp add: digit_char_def)

lemma digit_val_char: "n < 16 \<Longrightarrow> digit_val (digit_char n) = n"
  by (simp add: digit_val_def digit_char_code)

lemma show_nat_not_Nil [simp]: "show_nat b n \<noteq> []"
  by (subst show_nat.simps) simp

lemma digits_nat_append: "digits_nat b v (xs @ ys) = digits_nat b (digits_nat b v xs) ys"
  by (induction xs arbitrary: v) simp_all

text \<open>Reading back what has been printed.\<close>

lemma digits_nat_show:
  assumes "2 \<le> b" and "b \<le> 16"
  shows "digits_nat b 0 (show_nat b n) = n"
proof (induction n rule: less_induct)
  case (less n)
  show ?case
  proof (cases "n < b")
    case True
    with assms show ?thesis by (subst show_nat.simps) (simp add: digit_val_char)
  next
    case False
    with assms have "digits_nat b 0 (show_nat b (n div b)) = n div b" by (intro less) simp
    moreover have "n mod b < 16" using assms by (simp add: order.strict_trans2 [of _ b])
    ultimately show ?thesis
      using False assms by (subst show_nat.simps) (simp add: digits_nat_append digit_val_char)
  qed
qed

lemma show_nat_digits:
  assumes "2 \<le> b" and "b \<le> 16"
  shows "c \<in> set (show_nat b n) \<Longrightarrow> digit_val c < b"
proof (induction n arbitrary: c rule: less_induct)
  case (less n)
  have "n mod b < b" using assms by simp
  then have last: "digit_val (digit_char (n mod b)) < b"
    using assms(2) digit_val_char [of "n mod b"] by linarith
  show ?case
  proof (cases "n < b")
    case True
    with less.prems assms show ?thesis by (subst (asm) show_nat.simps) (simp add: digit_val_char)
  next
    case False
    with less.prems assms have "c \<in> set (show_nat b (n div b)) \<or> c = digit_char (n mod b)"
      by (subst (asm) show_nat.simps) auto
    with less.IH [of "n div b"] False assms last show ?thesis by auto
  qed
qed

lemma show_nat_length: "2 \<le> b \<Longrightarrow> n < b ^ k \<Longrightarrow> 0 < k \<Longrightarrow> length (show_nat b n) \<le> k"
proof (induction k arbitrary: n)
  case (Suc k)
  show ?case
  proof (cases "n < b")
    case True
    then show ?thesis by (subst show_nat.simps) simp
  next
    case False
    have "k \<noteq> 0" using False Suc.prems by (intro notI) simp
    moreover have "n div b < b ^ k" using Suc.prems by (simp add: less_mult_imp_div_less mult.commute)
    ultimately have "length (show_nat b (n div b)) \<le> k" using Suc by simp
    with False show ?thesis by (subst show_nat.simps) simp
  qed
qed simp

lemma length_zero_pad [simp]: "length (zero_pad w str) = max w (length str)"
  by (simp add: zero_pad_def max_def)

lemma strstr_None: "strstr pat str = None \<Longrightarrow> \<nexists>a b. str = a @ pat @ b"
proof (induction str)
  case (Cons c cs)
  then have p: "\<not> str_prefix pat (c # cs)" "strstr pat cs = None" by (auto split: if_splits)
  show ?case
  proof (rule notI, elim exE)
    fix a b assume e: "c # cs = a @ pat @ b"
    show False
    proof (cases a)
      case Nil
      with e p(1) show False by (simp add: str_prefix_iff)
    next
      case (Cons x a')
      with e have "cs = a' @ pat @ b" by simp
      with Cons.IH [OF p(2)] show False by blast
    qed
  qed
qed (auto split: if_splits)

lemma strstr_Some: "strstr pat str = Some r \<Longrightarrow> \<exists>a. str = a @ r \<and> str_prefix pat r"
proof (induction str)
  case Nil
  then show ?case by (auto simp: str_prefix_def split: if_splits)
next
  case (Cons c cs)
  show ?case
  proof (cases "str_prefix pat (c # cs)")
    case True
    with Cons.prems show ?thesis by (intro exI [of _ "[]"]) auto
  next
    case False
    with Cons obtain a where "cs = a @ r" "str_prefix pat r" by auto
    then show ?thesis by (intro exI [of _ "c # a"]) simp
  qed
qed

end
