(* ===== verification/Posix.thy ===== *)
theory Posix
  imports Platform Strings
begin

text \<open>
  The interface of the POSIX system as the library uses it, and the model of
  \<open>src/platform_posix.c\<close>. The system is a record of functions on the outside world \<open>'w\<close>: each call
  gives an error number or a result, and a new world. What the proofs rely on is stated as
  hypotheses on this record. A call restarted on \<open>EINTR\<close> is a loop that may not end; it is shown to
  return when the system interrupts a call only finitely often.
\<close>

section \<open>The system\<close>

datatype errno = EINTR | EACCES | EIO | ENXIO | ENODEV | ENOENT | ENOTDIR | EBUSY | EAGAIN | ENOMEM
  | EINVAL | EOTHER nat

datatype open_flag = O_RDWR | O_CLOEXEC | O_NOCTTY | O_NONBLOCK

text \<open>
  \<open>struct termios\<close>. The speed bits are kept in fields of their own, set by \<open>cfsetispeed\<close> and
  \<open>cfsetospeed\<close>.
\<close>

record termios =
  c_iflag :: uint32
  c_oflag :: uint32
  c_cflag :: uint32
  c_lflag :: uint32
  c_vmin :: uint8
  c_vtime :: uint8
  c_ispeed :: uint32
  c_ospeed :: uint32

record 'w posix_os =
  os_open :: "string \<Rightarrow> open_flag list \<Rightarrow> 'w \<Rightarrow> (errno + int) \<times> 'w"
  os_close :: "int \<Rightarrow> 'w \<Rightarrow> 'w"
  os_poll :: "(int \<times> uint16) list \<Rightarrow> int \<Rightarrow> 'w \<Rightarrow> (errno + (int \<times> uint16 list)) \<times> 'w"
  os_read :: "int \<Rightarrow> nat \<Rightarrow> 'w \<Rightarrow> (errno + uint8 list) \<times> 'w"
  os_write :: "int \<Rightarrow> uint8 list \<Rightarrow> 'w \<Rightarrow> (errno + int) \<times> 'w"
  os_hidiocgrdescsize :: "int \<Rightarrow> 'w \<Rightarrow> (errno + int) \<times> 'w"
  os_hidiocgrdesc :: "int \<Rightarrow> uint32 \<Rightarrow> 'w \<Rightarrow> (errno + uint8 list) \<times> 'w"
  os_hidiocgfeature :: "int \<Rightarrow> uint8 list \<Rightarrow> 'w \<Rightarrow> (errno + uint8 list) \<times> 'w"
  os_hidiocsfeature :: "int \<Rightarrow> uint8 list \<Rightarrow> 'w \<Rightarrow> (errno + int) \<times> 'w"
  os_tcgetattr :: "int \<Rightarrow> 'w \<Rightarrow> (errno + termios) \<times> 'w"
  os_tcsetattr :: "int \<Rightarrow> termios \<Rightarrow> 'w \<Rightarrow> (errno + unit) \<times> 'w"
  os_tiocsdtr :: "int \<Rightarrow> 'w \<Rightarrow> 'w"
  os_usleep :: "nat \<Rightarrow> 'w \<Rightarrow> 'w"
  os_clock :: "'w \<Rightarrow> (int \<times> int) option \<times> 'w"
  os_strerror :: "errno \<Rightarrow> string"
  os_uname_release :: string

text \<open>A system call from a state of the library.\<close>

definition sys :: "('w \<Rightarrow> 'a \<times> 'w) \<Rightarrow> 'w hs_state \<Rightarrow> 'a \<times> 'w hs_state" where
  "sys f s = (case f (ext s) of (a, w) \<Rightarrow> (a, s\<lparr>ext := w\<rparr>))"

definition sys_do :: "('w \<Rightarrow> 'w) \<Rightarrow> 'w hs_state \<Rightarrow> 'w hs_state" where
  "sys_do f s = s\<lparr>ext := f (ext s)\<rparr>"

text \<open>
  The idiom \<open>restart: r = call; if (r < 0 && errno == EINTR) goto restart;\<close>.
\<close>

partial_function (option) retry_eintr ::
  "('s \<Rightarrow> ((errno + 'a) \<times> 's) option) \<Rightarrow> 's \<Rightarrow> ((errno + 'a) \<times> 's) option" where
  "retry_eintr call s = do {
     (r, s) \<leftarrow> call s;
     if r = Inl EINTR then retry_eintr call s else Some (r, s)
   }"

section \<open>Model of \<open>platform_posix.c\<close>\<close>

definition POLLIN :: uint16 where "POLLIN = 0x1"
definition POLLOUT :: uint16 where "POLLOUT = 0x4"
definition POLLERR :: uint16 where "POLLERR = 0x8"
definition POLLHUP :: uint16 where "POLLHUP = 0x10"
definition POLLNVAL :: uint16 where "POLLNVAL = 0x20"

definition timespec_millis :: "int \<Rightarrow> int \<Rightarrow> uint64" where
  "timespec_millis tv_sec tv_nsec = of_int tv_sec * 1000 + of_int tv_nsec div 10000000"

definition hs_millis :: "'w posix_os \<Rightarrow> 'w hs_state \<Rightarrow> (uint64 \<times> 'w hs_state) option" where
  "hs_millis os s = (case sys (os_clock os) s of
     (None, s) \<Rightarrow> None
   | (Some (tv_sec, tv_nsec), s) \<Rightarrow> Some (timespec_millis tv_sec tv_nsec, s))"

text \<open>One \<open>poll\<close> with the rest of the timeout, as the restarted loops call it.\<close>

definition poll_once ::
  "'w posix_os \<Rightarrow> (int \<times> uint16) list \<Rightarrow> int \<Rightarrow> uint64 \<Rightarrow> 'w hs_state
     \<Rightarrow> ((errno + (int \<times> uint16 list)) \<times> 'w hs_state) option" where
  "poll_once os pfd timeout start s = do {
     (t, s) \<leftarrow> hs_adjust_timeout (hs_millis os) timeout start s;
     Some (sys (os_poll os pfd t) s)
   }"

unbundle bit_operations_syntax

text \<open>The search for the first descriptor with an event.\<close>

fun poll_result :: "uint16 list \<Rightarrow> int list \<Rightarrow> int option" where
  "poll_result (e # es) (n # ids) =
     (if e AND (POLLIN OR POLLERR OR POLLHUP OR POLLNVAL) \<noteq> 0 then Some n else poll_result es ids)"
| "poll_result _ _ = None"

definition hs_poll :: "'w posix_os \<Rightarrow> int descriptor_set \<Rightarrow> int \<Rightarrow> 'w hs_state \<Rightarrow> (int \<times> 'w hs_state) option" where
  "hs_poll os dset timeout s = do {
     c_assert (ds_count dset \<noteq> 0);
     c_assert (ds_count dset \<le> 64);
     let n = unat (ds_count dset);
     let pfd = map (\<lambda>d. (d, POLLIN)) (take n (ds_desc dset));
     let timeout = (if timeout < 0 then -1 else timeout);
     (start, s) \<leftarrow> hs_millis os s;
     (r, s) \<leftarrow> retry_eintr (poll_once os pfd timeout start) s;
     case r of
       Inl e \<Rightarrow> Some (fail_with HS_ERROR_SYSTEM (Some (''poll() failed: '' @ os_strerror os e)) s)
     | Inr (k, revents) \<Rightarrow>
         (if k = 0 then Some (0, s)
          else do {
            n \<leftarrow> poll_result (take n revents) (take n (ds_id dset));
            Some (n, s)
          })
   }"

text \<open>
  \<open>sscanf(release, "%u.%u.%u.%u", ...)\<close>: fields are read until one does not match; the rest keeps
  its initial zero. \<open>%u\<close> skips white space, accepts a sign, and reads decimal digits.
\<close>

fun digits_val :: "uint32 \<Rightarrow> string \<Rightarrow> uint32" where
  "digits_val v [] = v"
| "digits_val v (c # cs) = digits_val (v * 10 + of_nat (of_char c - 48)) cs"

definition scan_uint :: "string \<Rightarrow> (uint32 \<times> string) option" where
  "scan_uint s =
     (let s = dropWhile is_space s;
          neg = (s \<noteq> [] \<and> hd s = CHR ''-'');
          s = (if s \<noteq> [] \<and> (hd s = CHR ''-'' \<or> hd s = CHR ''+'') then tl s else s);
          ds = takeWhile is_digit s;
          v = digits_val 0 ds in
      if ds = [] then None else Some (if neg then - v else v, dropWhile is_digit s))"

fun scan_dotted :: "nat \<Rightarrow> string \<Rightarrow> uint32 list" where
  "scan_dotted 0 s = []"
| "scan_dotted (Suc n) s =
     (case scan_uint s of
        None \<Rightarrow> replicate (Suc n) 0
      | Some (v, rest) \<Rightarrow>
          v # (if rest \<noteq> [] \<and> hd rest = CHR ''.'' then scan_dotted n (tl rest) else replicate n 0))"

definition version_number :: "uint32 list \<Rightarrow> uint32" where
  "version_number vs =
     (let major = vs ! 0; minor = vs ! 1; release = vs ! 2; patch = vs ! 3;
          (release, patch) = (if major \<ge> 3 then (0, release) else (release, patch)) in
      major * 10000000 + minor * 100000 + release * 1000 + patch)"

text \<open>\<open>version\<close> is the static variable; the result is the returned value, which is also stored.\<close>

definition hs_linux_version :: "'w posix_os \<Rightarrow> uint32 \<Rightarrow> uint32" where
  "hs_linux_version os version =
     (if version \<noteq> 0 then version else version_number (scan_dotted 4 (os_uname_release os)))"

section \<open>What is assumed of the system\<close>

text \<open>
  A measure \<open>\<mu>\<close> of the interruptions still to come: every \<open>EINTR\<close> uses one up, and reading the clock
  adds none.
\<close>

definition finite_interrupts :: "'w posix_os \<Rightarrow> ('w \<Rightarrow> nat) \<Rightarrow> bool" where
  "finite_interrupts os \<mu> \<longleftrightarrow>
     (\<forall>p fl w. fst (os_open os p fl w) = Inl EINTR \<longrightarrow> \<mu> (snd (os_open os p fl w)) < \<mu> w) \<and>
     (\<forall>pfd t w. fst (os_poll os pfd t w) = Inl EINTR \<longrightarrow> \<mu> (snd (os_poll os pfd t w)) < \<mu> w) \<and>
     (\<forall>fd b w. fst (os_write os fd b w) = Inl EINTR \<longrightarrow> \<mu> (snd (os_write os fd b w)) < \<mu> w) \<and>
     (\<forall>fd b w. fst (os_hidiocgfeature os fd b w) = Inl EINTR \<longrightarrow> \<mu> (snd (os_hidiocgfeature os fd b w)) < \<mu> w) \<and>
     (\<forall>fd b w. fst (os_hidiocsfeature os fd b w) = Inl EINTR \<longrightarrow> \<mu> (snd (os_hidiocsfeature os fd b w)) < \<mu> w) \<and>
     (\<forall>w. \<mu> (snd (os_clock os w)) \<le> \<mu> w)"

definition clock_works :: "'w posix_os \<Rightarrow> bool" where
  "clock_works os \<longleftrightarrow> (\<forall>w. fst (os_clock os w) \<noteq> None)"

text \<open>
  \<open>poll\<close> as documented: a positive result counts the entries with events, there is an entry per
  descriptor, and only requested events and the three error events are reported.
\<close>

definition poll_ok :: "'w posix_os \<Rightarrow> bool" where
  "poll_ok os \<longleftrightarrow> (\<forall>pfd t w k es. fst (os_poll os pfd t w) = Inr (k, es) \<longrightarrow>
     length es = length pfd \<and> k = int (length (filter (\<lambda>e. e \<noteq> 0) es)) \<and>
     (\<forall>i < length es. es ! i AND NOT (snd (pfd ! i) OR POLLERR OR POLLHUP OR POLLNVAL) = 0))"

definition read_ok :: "'w posix_os \<Rightarrow> bool" where
  "read_ok os \<longleftrightarrow> (\<forall>fd n w ds. fst (os_read os fd n w) = Inr ds \<longrightarrow> length ds \<le> n)"

section \<open>Lemmas\<close>

lemma sys_eq: "sys f s = (fst (f (ext s)), s\<lparr>ext := snd (f (ext s))\<rparr>)"
  by (simp add: sys_def split: prod.splits)

lemma retry_eintr_origin:
  assumes step: "\<And>s r s'. call s = Some (r, s') \<Longrightarrow> r \<noteq> Inl EINTR \<Longrightarrow> Q r"
    and run: "retry_eintr call s = Some z"
  shows "Q (fst z)"
proof -
  have "call = call \<longrightarrow> Q (fst z)"
  proof (rule retry_eintr.raw_induct [where P = "\<lambda>c s z. c = call \<longrightarrow> Q (fst z)", OF _ run], intro impI)
    fix rec c s z
    assume ih: "\<And>c s z. rec c s = Some z \<Longrightarrow> c = call \<longrightarrow> Q (fst z)" and "c = call"
      and b: "(c s \<bind> (\<lambda>(r, s). if r = Inl EINTR then rec c s else Some (r, s))) = Some z"
    then obtain r s' where "call s = Some (r, s')"
        "(if r = Inl EINTR then rec call s' else Some (r, s')) = Some z" by (auto elim: bind_eq_SomeE)
    then show "Q (fst z)" using ih [of call s' z] step by (auto split: if_splits)
  qed
  then show ?thesis by simp
qed

text \<open>The loop returns when a measure of the state falls with every interruption.\<close>

lemma retry_eintr_returns:
  assumes def: "\<And>s. P s \<Longrightarrow> \<exists>r s'. call s = Some (r, s') \<and> P s' \<and> (r = Inl EINTR \<longrightarrow> \<mu> s' < (\<mu> s :: nat))"
  shows "P s \<Longrightarrow> \<exists>r s'. retry_eintr call s = Some (r, s') \<and> r \<noteq> Inl EINTR \<and> P s'"
proof (induction "\<mu> s" arbitrary: s rule: less_induct)
  case less
  obtain r s' where c: "call s = Some (r, s')" "P s'" "r = Inl EINTR \<longrightarrow> \<mu> s' < \<mu> s"
    using def [OF less.prems] by blast
  show ?case
  proof (cases "r = Inl EINTR")
    case True
    with less.hyps [of s'] c have "\<exists>r s''. retry_eintr call s' = Some (r, s'') \<and> r \<noteq> Inl EINTR \<and> P s''" by blast
    with True c show ?thesis by (subst retry_eintr.simps) simp
  next
    case False
    with c show ?thesis by (subst retry_eintr.simps) simp
  qed
qed

lemma retry_eintr_now: "call s = Some (r, s') \<Longrightarrow> r \<noteq> Inl EINTR \<Longrightarrow> retry_eintr call s = Some (r, s')"
  by (simp add: retry_eintr.simps)

lemma retry_eintr_again: "call s = Some (Inl EINTR, s') \<Longrightarrow> retry_eintr call s = retry_eintr call s'"
  by (simp add: retry_eintr.simps [of call s])

text \<open>The calls change nothing of the library's own state.\<close>

definition os_frame :: "'w hs_state \<Rightarrow> 'w hs_state \<Rightarrow> bool" where
  "os_frame s s' \<longleftrightarrow> s' = s\<lparr>ext := ext s'\<rparr>"

lemma os_frame_refl [simp]: "os_frame s s"
  by (simp add: os_frame_def)

lemma os_frame_trans: "os_frame s s' \<Longrightarrow> os_frame s' s'' \<Longrightarrow> os_frame s s''"
  unfolding os_frame_def by (metis hs_state.surjective hs_state.update_convs(7))

lemma os_frame_sys [simp]: "os_frame s (snd (sys f s))"
  by (simp add: os_frame_def sys_eq)

lemma os_frame_fields:
  "os_frame s s' \<Longrightarrow> lists s' = lists s \<and> nodes s' = nodes s \<and> devs s' = devs s \<and> cbs s' = cbs s \<and>
     mons s' = mons s \<and> logs s' = logs s"
  unfolding os_frame_def by (metis hs_state.ext_inject hs_state.surjective hs_state.update_convs(7))

lemma hs_millis_run:
  assumes "clock_works os"
  shows "\<exists>now. hs_millis os s = Some (now, s\<lparr>ext := snd (os_clock os (ext s))\<rparr>)"
  using assms by (auto simp: hs_millis_def sys_eq clock_works_def split: option.splits)

lemma hs_adjust_timeout_frame:
  assumes "clock_works os"
  shows "\<exists>t w. hs_adjust_timeout (hs_millis os) timeout start s = Some (t, s\<lparr>ext := w\<rparr>) \<and>
     (w = ext s \<or> w = snd (os_clock os (ext s)))"
proof (cases "timeout < 0")
  case True
  then show ?thesis by (intro exI [of _ "-1"] exI [of _ "ext s"]) (simp add: hs_adjust_timeout_def)
next
  case False
  with hs_millis_run [OF assms, of s] show ?thesis by (auto simp: hs_adjust_timeout_def)
qed

lemma poll_once_run:
  assumes fin: "finite_interrupts os \<mu>" and clk: "clock_works os"
  shows "\<exists>r s'. poll_once os pfd timeout start s = Some (r, s') \<and> os_frame s s' \<and>
     (r = Inl EINTR \<longrightarrow> \<mu> (ext s') < \<mu> (ext s)) \<and> (\<exists>t w. r = fst (os_poll os pfd t w))"
proof -
  obtain t w where t: "hs_adjust_timeout (hs_millis os) timeout start s = Some (t, s\<lparr>ext := w\<rparr>)"
      "w = ext s \<or> w = snd (os_clock os (ext s))"
    using hs_adjust_timeout_frame [OF clk] by blast
  have "\<mu> w \<le> \<mu> (ext s)" using t(2) fin by (auto simp: finite_interrupts_def)
  moreover have "fst (os_poll os pfd t w) = Inl EINTR \<Longrightarrow> \<mu> (snd (os_poll os pfd t w)) < \<mu> w"
    using fin by (simp add: finite_interrupts_def)
  ultimately show ?thesis
    using t(1) by (auto simp: poll_once_def sys_eq os_frame_def intro: exI [of _ t] exI [of _ w])
qed

lemma poll_loop_run:
  assumes fin: "finite_interrupts os \<mu>" and clk: "clock_works os"
  shows "\<exists>r s'. retry_eintr (poll_once os pfd timeout start) s = Some (r, s') \<and> r \<noteq> Inl EINTR \<and> os_frame s s'"
proof (rule retry_eintr_returns [where \<mu> = "\<lambda>s. \<mu> (ext s)" and P = "os_frame s"])
  fix s1 assume "os_frame s s1"
  with poll_once_run [OF fin clk, of pfd timeout start s1]
  show "\<exists>r s'. poll_once os pfd timeout start s1 = Some (r, s') \<and> os_frame s s' \<and>
      (r = Inl EINTR \<longrightarrow> \<mu> (ext s') < \<mu> (ext s1))" by (blast intro: os_frame_trans)
qed simp

section \<open>Polling\<close>

lemma poll_result_Some:
  assumes "length es = length ids" and "\<exists>e \<in> set es. e AND (POLLIN OR POLLERR OR POLLHUP OR POLLNVAL) \<noteq> 0"
  shows "\<exists>i < length es. es ! i AND (POLLIN OR POLLERR OR POLLHUP OR POLLNVAL) \<noteq> 0 \<and>
     (\<forall>j < i. es ! j AND (POLLIN OR POLLERR OR POLLHUP OR POLLNVAL) = 0) \<and> poll_result es ids = Some (ids ! i)"
  using assms
proof (induction es ids rule: poll_result.induct)
  case (1 e es n ids)
  show ?case
  proof (cases "e AND (POLLIN OR POLLERR OR POLLHUP OR POLLNVAL) = 0")
    case True
    with 1 obtain i where "i < length es" "es ! i AND (POLLIN OR POLLERR OR POLLHUP OR POLLNVAL) \<noteq> 0"
        "\<forall>j < i. es ! j AND (POLLIN OR POLLERR OR POLLHUP OR POLLNVAL) = 0" "poll_result es ids = Some (ids ! i)"
      by auto
    with True show ?thesis by (intro exI [of _ "Suc i"]) (auto simp: less_Suc_eq_0_disj)
  next
    case False
    then show ?thesis by (intro exI [of _ 0]) simp
  qed
qed auto

lemma and_not_zero: "e AND NOT m = 0 \<Longrightarrow> e AND m = e" for e m :: "'a::len word"
  by (metis and.commute and.right_neutral bit.conj_cancel_right bit.conj_disj_distrib bit.disj_cancel_right
      or.right_neutral)

text \<open>
  The descriptor a set of answers names: the first one with an event.
\<close>

definition first_event :: "uint16 list \<Rightarrow> nat \<Rightarrow> bool" where
  "first_event es i \<longleftrightarrow> i < length es \<and> es ! i \<noteq> 0 \<and> (\<forall>j < i. es ! j = 0)"

lemma poll_answer:
  assumes ok: "poll_ok os" and ans: "fst (os_poll os (map (\<lambda>d. (d, POLLIN)) ds) t w) = Inr (k, es)" and "k \<noteq> 0"
    and len: "length ids = length ds"
  shows "\<exists>i < length ids. poll_result es ids = Some (ids ! i) \<and> first_event es i"
proof -
  let ?pfd = "map (\<lambda>d. (d, POLLIN)) ds" and ?m = "POLLIN OR POLLERR OR POLLHUP OR POLLNVAL"
  have len': "length es = length ?pfd" and cnt: "k = int (length (filter (\<lambda>e. e \<noteq> 0) es))"
    and rep: "\<forall>i < length es. es ! i AND NOT (snd (?pfd ! i) OR POLLERR OR POLLHUP OR POLLNVAL) = 0"
    using ok ans unfolding poll_ok_def by blast+
  have same: "es ! i AND ?m = es ! i" if "i < length es" for i
    using rep that len' and_not_zero [of "es ! i" ?m] by simp
  have "filter (\<lambda>e. e \<noteq> 0) es \<noteq> []" using cnt \<open>k \<noteq> 0\<close> by auto
  then obtain i where i: "i < length es" "es ! i \<noteq> 0" by (auto simp: filter_empty_conv in_set_conv_nth)
  then have "\<exists>e \<in> set es. e AND ?m \<noteq> 0" using same [OF i(1)] nth_mem by metis
  then obtain n where n: "n < length es" "es ! n AND ?m \<noteq> 0" "\<forall>j < n. es ! j AND ?m = 0"
      "poll_result es ids = Some (ids ! n)"
    using poll_result_Some [of es ids] len len' by auto
  have "first_event es n" using n same unfolding first_event_def by (metis less_trans)
  with n len len' show ?thesis by auto
qed

text \<open>
  What a poll gives: a timeout, an error, or the identifier of the first descriptor with an event in
  an answer of the system for exactly the descriptors of the set.
\<close>

definition poll_outcome :: "'w posix_os \<Rightarrow> int descriptor_set \<Rightarrow> int \<Rightarrow> bool" where
  "poll_outcome os dset r \<longleftrightarrow> r = err_val HS_ERROR_SYSTEM \<or>
     (\<exists>t w k es. fst (os_poll os (map (\<lambda>(d, n). (d, POLLIN)) (entries dset)) t w) = Inr (k, es) \<and>
        (if k = 0 then r = 0 else \<exists>i < length (entries dset). first_event es i \<and> r = snd (entries dset ! i)))"

lemma hs_poll_run:
  assumes fin: "finite_interrupts os \<mu>" and clk: "clock_works os" and pok: "poll_ok os"
    and ok: "ds_ok dset" and ne: "entries dset \<noteq> []"
  shows "\<exists>r s'. hs_poll os dset timeout s = Some (r, s') \<and> poll_outcome os dset r"
proof -
  let ?n = "unat (ds_count dset)"
  let ?ds = "take ?n (ds_desc dset)" and ?ids = "take ?n (ds_id dset)"
  let ?pfd = "map (\<lambda>d. (d, POLLIN)) ?ds" and ?t = "if timeout < 0 then -1 else timeout"
  have n: "?n \<le> 64" "length (ds_desc dset) = 64" "length (ds_id dset) = 64" using ok by (simp_all add: ds_ok_def)
  have cnt: "ds_count dset \<noteq> 0" "ds_count dset \<le> 64"
    using ne length_entries [OF ok] n(1) by (auto simp: word_le_nat_alt entries_def)
  have ids: "?ids = map snd (entries dset)" and ds: "?ds = map fst (entries dset)"
    using n by (simp_all add: entries_def take_zip [symmetric] take_map [symmetric])
  have pfd: "?pfd = map (\<lambda>(d, n). (d, POLLIN)) (entries dset)" unfolding ds by (simp add: case_prod_unfold comp_def)
  obtain start s1 where s1: "hs_millis os s = Some (start, s1)" using hs_millis_run [OF clk] by blast
  obtain r s2 where r: "retry_eintr (poll_once os ?pfd ?t start) s1 = Some (r, s2)"
    using poll_loop_run [OF fin clk] by blast
  have "\<exists>t w. fst (r, s2) = fst (os_poll os ?pfd t w)"
  proof (rule retry_eintr_origin [OF _ r])
    fix sa ra sb assume "poll_once os ?pfd ?t start sa = Some (ra, sb)"
    then show "\<exists>t w. ra = fst (os_poll os ?pfd t w)"
      using poll_once_run [OF fin clk, of ?pfd ?t start sa] by auto
  qed
  then obtain t w where tw: "fst (os_poll os ?pfd t w) = r" by auto
  show ?thesis
  proof (cases r)
    case (Inl e)
    with s1 r cnt show ?thesis
      by (simp add: hs_poll_def Let_def fail_with_eq poll_outcome_def)
  next
    case (Inr a)
    obtain k es where a: "a = (k, es)" by (cases a)
    have len: "length es = ?n" using pok tw Inr a n unfolding poll_ok_def by fastforce
    show ?thesis
    proof (cases "k = 0")
      case True
      then have "poll_outcome os dset 0" using tw Inr a unfolding poll_outcome_def pfd by auto
      with True s1 r cnt Inr a show ?thesis by (simp add: hs_poll_def Let_def)
    next
      case False
      obtain i where i: "i < length ?ids" "poll_result es ?ids = Some (?ids ! i)" "first_event es i"
        using poll_answer [OF pok _ False, of ?ds t w es ?ids] tw Inr a n by auto
      then have "i < length (entries dset)" "?ids ! i = snd (entries dset ! i)" unfolding ids by simp_all
      moreover have "fst (os_poll os (map (\<lambda>(d, n). (d, POLLIN)) (entries dset)) t w) = Inr (k, es)"
        using tw Inr a unfolding pfd by simp
      ultimately have "poll_outcome os dset (?ids ! i)"
        using False i(3) unfolding poll_outcome_def by (intro disjI2 exI conjI) auto
      moreover have "hs_poll os dset timeout s = Some (?ids ! i, s2)"
        using s1 r cnt Inr a False len i(2) by (simp add: hs_poll_def Let_def)
      ultimately show ?thesis by blast
    qed
  qed
qed

section \<open>The clock\<close>

lemma timespec_millis_value:
  assumes "0 \<le> tv_sec" "tv_sec < 2 ^ 50" "0 \<le> tv_nsec" "tv_nsec < 1000000000"
  shows "uint (timespec_millis tv_sec tv_nsec) = tv_sec * 1000 + tv_nsec div 10000000"
proof -
  have d: "0 \<le> tv_nsec div 10000000" "tv_nsec div 10000000 < 100" using assms by auto
  have "uint (word_of_int tv_nsec div 10000000 :: uint64) = tv_nsec div 10000000"
    using assms by (simp add: uint_div uint_word_of_int)
  moreover have "uint (word_of_int tv_sec * 1000 :: uint64) = tv_sec * 1000"
    using assms by (simp add: uint_word_ariths uint_word_of_int)
  ultimately show ?thesis
    using assms d unfolding timespec_millis_def
    by (simp add: uint_word_ariths)
qed

end
