(* ===== verification/Driver.thy ===== *)
theory Driver
  imports Posix
begin

text \<open>
  The contract of the device drivers behind \<open>hs_device_open\<close> and \<open>hs_handle_close\<close>: opening takes
  exactly one reference on the device when it succeeds and none when it fails, and closing gives
  that reference back. The locale states it; the drivers of the platforms (POSIX ttys, Linux
  hidraw, Windows files, the IOKit devices of macOS) are interpretations of it.
\<close>

text \<open>What a driver leaves alone: everything but devices, the log and the outside world.\<close>

definition lib_frame :: "'w hs_state \<Rightarrow> 'w hs_state \<Rightarrow> bool" where
  "lib_frame s s' \<longleftrightarrow> lists s' = lists s \<and> nodes s' = nodes s \<and> cbs s' = cbs s \<and> mons s' = mons s"

text \<open>A device that can be opened: a valid object with a path and room for one more reference.\<close>

definition usable :: "'w hs_state \<Rightarrow> addr \<Rightarrow> hs_device \<Rightarrow> bool" where
  "usable s dev d \<longleftrightarrow> dev \<noteq> NULL \<and> devs s dev = Some d \<and> refcount d \<noteq> 0 \<and> refcount d + 1 \<noteq> 0 \<and>
     d_path d \<noteq> None"

lemma lib_frame_refl [simp]: "lib_frame s s"
  by (simp add: lib_frame_def)

lemma lib_frame_trans: "lib_frame s s' \<Longrightarrow> lib_frame s' s'' \<Longrightarrow> lib_frame s s''"
  by (simp add: lib_frame_def)

lemma lib_frame_simps [simp, frame_simps]:
  "lib_frame s (snd (fail_with e m s'')) = lib_frame s s''"
  "lib_frame s (log_msg l t s'') = lib_frame s s''"
  "lib_frame s (s''\<lparr>ext := w\<rparr>) = lib_frame s s''"
  "lib_frame s (s''\<lparr>devs := D\<rparr>) = lib_frame s s''"
  "lib_frame s (s''\<lparr>logs := L\<rparr>) = lib_frame s s''"
  "lib_frame (s\<lparr>ext := w\<rparr>) s'' = lib_frame s s''"
  "lib_frame (s\<lparr>devs := D\<rparr>) s'' = lib_frame s s''"
  "lib_frame (s\<lparr>logs := L\<rparr>) s'' = lib_frame s s''"
  by (simp_all add: lib_frame_def)

lemma os_frame_lib_frame: "os_frame s s' \<Longrightarrow> lib_frame s s' \<and> devs s' = devs s"
  using os_frame_fields by (auto simp: lib_frame_def)

text \<open>Opening and immediately giving the reference back restores the devices.\<close>

lemma unref_after_ref:
  assumes u: "usable s dev d" and s': "devs s' = (devs s)(dev \<mapsto> d\<lparr>refcount := refcount d + 1\<rparr>)" "lib_frame s s'"
  shows "\<exists>s''. hs_device_unref dev s' = Some s'' \<and> devs s'' = devs s \<and> lib_frame s s''"
proof -
  have d: "dev \<noteq> 0" "devs s dev = Some d" "1 < refcount d + 1" using u word_inc_gt_1 by (auto simp: usable_def)
  then have "hs_device_unref dev s' = Some (s'\<lparr>devs := (devs s)(dev \<mapsto> d)\<rparr>)"
    using s'(1) by (simp add: hs_device_unref_def)
  moreover have "(devs s)(dev \<mapsto> d) = devs s" using d(2) by auto
  ultimately show ?thesis using s'(2) by simp
qed

text \<open>Closing that does nothing but act on the world.\<close>

lemma unref_after_world:
  "\<exists>s1. hs_device_unref p (s\<lparr>ext := w\<rparr>) = hs_device_unref p s1 \<and> lib_frame s s1 \<and> devs s1 = devs s"
  by (rule exI [of _ "s\<lparr>ext := w\<rparr>"]) simp

text \<open>
  Several handles on one device: \<open>k\<close> opens in a row, all successful, and the closing of a list of
  handles.
\<close>

fun open_times ::
  "(addr \<Rightarrow> 'w hs_state \<Rightarrow> (int \<times> 'h option \<times> 'w hs_state) option) \<Rightarrow> nat \<Rightarrow> addr \<Rightarrow> 'w hs_state
     \<Rightarrow> ('h list \<times> 'w hs_state) option" where
  "open_times drv_open 0 dev s = Some ([], s)"
| "open_times drv_open (Suc k) dev s = do {
     (r, ho, s) \<leftarrow> drv_open dev s;
     h \<leftarrow> ho;
     (hs, s) \<leftarrow> open_times drv_open k dev s;
     Some (h # hs, s)
   }"

fun close_list :: "('h \<Rightarrow> 'w hs_state \<Rightarrow> 'w hs_state option) \<Rightarrow> 'h list \<Rightarrow> 'w hs_state \<Rightarrow> 'w hs_state option" where
  "close_list drv_close [] s = Some s"
| "close_list drv_close (h # hs) s = do { s \<leftarrow> drv_close h s; close_list drv_close hs s }"

text \<open>
  \<open>sound\<close> holds of the handles the driver gives out, and whatever happens to them. Closing one may log messages
  and act on the world before the reference is dropped.
\<close>

locale device_driver =
  fixes hdev :: "'h \<Rightarrow> addr"
    and sound :: "'h \<Rightarrow> bool"
    and drv_open :: "addr \<Rightarrow> 'w hs_state \<Rightarrow> (int \<times> 'h option \<times> 'w hs_state) option"
    and drv_close :: "'h \<Rightarrow> 'w hs_state \<Rightarrow> 'w hs_state option"
  assumes open_ref: "usable s dev d \<Longrightarrow> drv_open dev s = Some (r, Some h, s') \<Longrightarrow>
      r = 0 \<and> hdev h = dev \<and> sound h \<and> lib_frame s s' \<and> devs s' = (devs s)(dev \<mapsto> d\<lparr>refcount := refcount d + 1\<rparr>)"
    and open_fail: "usable s dev d \<Longrightarrow> drv_open dev s = Some (r, None, s') \<Longrightarrow>
      r < 0 \<and> lib_frame s s' \<and> devs s' = devs s"
    and close_unref: "sound h \<Longrightarrow>
      \<exists>s1. drv_close h s = hs_device_unref (hdev h) s1 \<and> lib_frame s s1 \<and> devs s1 = devs s"
begin

text \<open>An open handle gives its reference back, and nothing else changes in the library.\<close>

lemma close_ref:
  assumes u: "usable s dev d" and h: "hdev h = dev" "sound h" and s1: "lib_frame s s1"
    "devs s1 = (devs s)(dev \<mapsto> d\<lparr>refcount := refcount d + 1\<rparr>)"
  shows "\<exists>s2. drv_close h s1 = Some s2 \<and> devs s2 = devs s \<and> lib_frame s s2"
proof -
  obtain s3 where s3: "drv_close h s1 = hs_device_unref dev s3" "lib_frame s1 s3" "devs s3 = devs s1"
    using close_unref [OF h(2), of s1] h(1) by auto
  have "devs s3 = (devs s)(dev \<mapsto> d\<lparr>refcount := refcount d + 1\<rparr>)" "lib_frame s s3"
    using s1 s3(2,3) by (auto intro: lib_frame_trans)
  from unref_after_ref [OF u this] s3(1) show ?thesis by auto
qed

lemma open_close:
  assumes u: "usable s dev d" and o: "drv_open dev s = Some (r, Some h, s1)"
  shows "\<exists>s2. drv_close h s1 = Some s2 \<and> devs s2 = devs s \<and> lib_frame s s2"
  using open_ref [OF u o] close_ref [OF u] by blast

lemma open_times_refs:
  assumes "dev \<noteq> NULL" "devs s dev = Some d" "refcount d \<noteq> 0" "d_path d \<noteq> None"
    and "unat (refcount d) + k < 2 ^ 32" and "open_times drv_open k dev s = Some (hs, s')"
  shows "length hs = k \<and> (\<forall>h \<in> set hs. hdev h = dev \<and> sound h) \<and> lib_frame s s' \<and>
     devs s' = (devs s)(dev \<mapsto> d\<lparr>refcount := refcount d + of_nat k\<rparr>)"
  using assms
proof (induction k arbitrary: s d hs)
  case 0
  then show ?case by auto
next
  case (Suc k)
  from Suc.prems(6) obtain r h s1 hs1 where o: "drv_open dev s = Some (r, Some h, s1)"
      "open_times drv_open k dev s1 = Some (hs1, s')" "hs = h # hs1"
    by (auto elim!: bind_eq_SomeE)
  have inc: "unat (refcount d + 1) = unat (refcount d) + 1"
    using Suc.prems(5) by (simp add: unat_word_ariths)
  then have "refcount d + 1 \<noteq> 0" by (metis add_is_0 unat_0 zero_neq_one)
  then have "usable s dev d" using Suc.prems by (simp add: usable_def)
  then have s1: "hdev h = dev" "sound h" "lib_frame s s1" "devs s1 = (devs s)(dev \<mapsto> d\<lparr>refcount := refcount d + 1\<rparr>)"
    using open_ref [OF _ o(1)] by auto
  have "length hs1 = k \<and> (\<forall>h \<in> set hs1. hdev h = dev \<and> sound h) \<and> lib_frame s1 s' \<and>
      devs s' = (devs s1)(dev \<mapsto> (d\<lparr>refcount := refcount d + 1\<rparr>)\<lparr>refcount :=
        refcount (d\<lparr>refcount := refcount d + 1\<rparr>) + of_nat k\<rparr>)"
    by (rule Suc.IH) (use Suc.prems s1 o(2) inc \<open>refcount d + 1 \<noteq> 0\<close> in simp_all)
  then show ?case using s1 o(3) by (auto simp: add.assoc intro: lib_frame_trans)
qed

lemma close_list_refs:
  assumes "dev \<noteq> NULL" "\<forall>h \<in> set hs. hdev h = dev \<and> sound h" "devs s dev = Some d" "unat (refcount d) = n + length hs" "n \<noteq> 0"
  shows "\<exists>s'. close_list drv_close hs s = Some s' \<and> lib_frame s s' \<and> devs s' = (devs s)(dev \<mapsto> d\<lparr>refcount := of_nat n\<rparr>)"
  using assms
proof (induction hs arbitrary: s d)
  case Nil
  then have "n = unat (refcount d)" by simp
  then have "d\<lparr>refcount := of_nat n\<rparr> = d" by simp
  with Nil show ?case by auto
next
  case (Cons h hs)
  let ?d = "d\<lparr>refcount := refcount d - 1\<rparr>"
  obtain s1 where s1: "drv_close h s = hs_device_unref dev s1" "lib_frame s s1" "devs s1 = devs s"
    using close_unref [of h s] Cons.prems(2) by auto
  let ?s = "s1\<lparr>devs := (devs s)(dev \<mapsto> ?d)\<rparr>"
  have gt: "1 < refcount d" using Cons.prems(4,5) by (simp add: word_less_nat_alt)
  have "unat (refcount d - 1) = n + length hs"
    using Cons.prems(4) gt by (simp add: unat_sub word_le_nat_alt)
  then have "\<exists>s'. close_list drv_close hs ?s = Some s' \<and> lib_frame ?s s' \<and>
      devs s' = (devs ?s)(dev \<mapsto> ?d\<lparr>refcount := of_nat n\<rparr>)"
    by (intro Cons.IH) (use Cons.prems in simp_all)
  then obtain s' where "close_list drv_close hs ?s = Some s'" "lib_frame s s'"
      "devs s' = (devs s)(dev \<mapsto> d\<lparr>refcount := of_nat n\<rparr>)" using s1(2) by (auto intro: lib_frame_trans)
  moreover have "drv_close h s = Some ?s"
    using s1 gt Cons.prems(1,3) by (simp add: hs_device_unref_def)
  ultimately show ?case by (auto simp: fun_eq_iff)
qed

text \<open>Closing them all, in whatever order, restores every device.\<close>

lemma open_times_close:
  assumes d: "dev \<noteq> NULL" "devs s dev = Some d" "refcount d \<noteq> 0" "d_path d \<noteq> None"
    and k: "unat (refcount d) + k < 2 ^ 32" and o: "open_times drv_open k dev s = Some (hs, s1)" and p: "set hs' = set hs" "length hs' = length hs"
  shows "\<exists>s2. close_list drv_close hs' s1 = Some s2 \<and> devs s2 = devs s \<and> lib_frame s s2"
proof -
  let ?d = "d\<lparr>refcount := refcount d + of_nat k\<rparr>"
  have r: "length hs = k" "\<forall>h \<in> set hs. hdev h = dev \<and> sound h" "lib_frame s s1" "devs s1 = (devs s)(dev \<mapsto> ?d)"
    using open_times_refs [OF d k o] by simp_all
  have "unat (of_nat k :: uint32) = k" using k by (simp add: unat_of_nat)
  then have "unat (refcount ?d) = unat (refcount d) + length hs'"
    using k r(1) p(2) by (simp add: unat_word_ariths)
  moreover have "unat (refcount d) \<noteq> 0" using d(3) by (simp add: unat_eq_0)
  ultimately obtain s2 where "close_list drv_close hs' s1 = Some s2" "lib_frame s1 s2"
      "devs s2 = (devs s1)(dev \<mapsto> ?d\<lparr>refcount := of_nat (unat (refcount d))\<rparr>)"
    using close_list_refs [of dev hs' s1 ?d "unat (refcount d)"] d(1) r(2,4) p(1) by auto
  moreover have "(devs s)(dev \<mapsto> d) = devs s" using d(2) by auto
  ultimately show ?thesis using r(3,4) by (auto intro: lib_frame_trans)
qed

end

end
