(* ===== verification/DevicePosix.thy ===== *)
theory DevicePosix
  imports Driver
begin

text \<open>
  Model of \<open>src/device_posix.c\<close>, the driver of tty devices: opening restarts on \<open>EINTR\<close> and, on
  macOS, retries four times while the device is busy; every other error number is mapped to an
  error code of the library. A handle is the value of the handle structure, \<open>mem\<close> says whether
  \<open>calloc\<close> for it succeeded.
\<close>

record posix_handle =
  ph_dev :: addr
  ph_fd :: int

text \<open>The loop around \<open>open\<close>; \<open>apple\<close> is whether the code is compiled for macOS.\<close>

partial_function (option) open_retry ::
  "bool \<Rightarrow> 'w posix_os \<Rightarrow> string \<Rightarrow> open_flag list \<Rightarrow> nat \<Rightarrow> 'w hs_state \<Rightarrow> ((errno + int) \<times> 'w hs_state) option"
where
  "open_retry apple os path flags retry s =
     (case sys (os_open os path flags) s of
        (Inr fd, s) \<Rightarrow> Some (Inr fd, s)
      | (Inl e, s) \<Rightarrow>
          if e = EINTR then open_retry apple os path flags retry s
          else if apple \<and> e = EBUSY \<and> retry \<noteq> 0
          then open_retry apple os path flags (retry - 1) (sys_do (os_usleep os 20000) s)
          else Some (Inl e, s))"

text \<open>The switch on \<open>errno\<close>, the same in \<open>device_posix.c\<close> and \<open>hid_linux.c\<close>.\<close>

definition open_error :: "'w posix_os \<Rightarrow> string \<Rightarrow> errno \<Rightarrow> 'w hs_state \<Rightarrow> int \<times> 'w hs_state" where
  "open_error os path e s =
     (if e = EACCES
      then fail_with HS_ERROR_ACCESS (Some (''Permission denied for device '' @ sq path)) s
      else if e = EIO \<or> e = ENXIO \<or> e = ENODEV
      then fail_with HS_ERROR_IO (Some (''I/O error while opening device '' @ sq path)) s
      else if e = ENOENT \<or> e = ENOTDIR
      then fail_with HS_ERROR_NOT_FOUND (Some (''Device '' @ sq path @ '' not found'')) s
      else fail_with HS_ERROR_SYSTEM
             (Some (''open('' @ sq path @ '') failed: '' @ os_strerror os e)) s)"

definition close_posix_device :: "'w posix_os \<Rightarrow> posix_handle \<Rightarrow> 'w hs_state \<Rightarrow> 'w hs_state option" where
  "close_posix_device os h s = hs_device_unref (ph_dev h) (sys_do (os_close os (ph_fd h)) s)"

text \<open>
  At \<open>error:\<close> the handle is closed through the vtable of its device, which is this driver's; a null
  handle is ignored there.
\<close>

definition open_posix_device ::
  "bool \<Rightarrow> 'w posix_os \<Rightarrow> bool \<Rightarrow> addr \<Rightarrow> 'w hs_state \<Rightarrow> (int \<times> posix_handle option \<times> 'w hs_state) option" where
  "open_posix_device apple os mem dev s =
     (if \<not> mem then (let (r, s) = fail_with HS_ERROR_MEMORY None s in Some (r, None, s))
      else do {
        (p, s) \<leftarrow> hs_device_ref dev s;
        d \<leftarrow> devs s dev;
        path \<leftarrow> d_path d;
        (fd, s) \<leftarrow> open_retry apple os path [O_RDWR, O_CLOEXEC, O_NOCTTY, O_NONBLOCK] 4 s;
        case fd of
          Inl e \<Rightarrow> do {
            let (r, s) = open_error os path e s;
            s \<leftarrow> close_posix_device os \<lparr>ph_dev = p, ph_fd = -1\<rparr> s;
            Some (r, None, s)
          }
        | Inr fd \<Rightarrow> do {
            let s = (if apple \<and> d_type d = HS_DEVICE_TYPE_SERIAL then sys_do (os_tiocsdtr os fd) s else s);
            Some (0, Some \<lparr>ph_dev = p, ph_fd = fd\<rparr>, s)
          }
      })"

definition get_posix_descriptor :: "posix_handle \<Rightarrow> int" where
  "get_posix_descriptor h = ph_fd h"

definition hs_posix_device_vtable ::
  "bool \<Rightarrow> 'w posix_os \<Rightarrow> bool \<Rightarrow> ('w, posix_handle) device_vtable" where
  "hs_posix_device_vtable apple os mem =
     \<lparr>vt_open = open_posix_device apple os mem, vt_close = close_posix_device os,
      vt_get_descriptor = get_posix_descriptor\<rparr>"

section \<open>Lemmas\<close>

lemma sys_do_eq: "sys_do f s = s\<lparr>ext := f (ext s)\<rparr>"
  by (simp add: sys_do_def)

text \<open>The loop touches only the outside world, and never reports an interruption.\<close>

lemma open_retry_result:
  assumes "open_retry apple os path flags retry s = Some z"
  shows "os_frame s (snd z) \<and> fst z \<noteq> Inl EINTR"
proof (rule open_retry.raw_induct [where P = "\<lambda>a k p fl r s z. os_frame s (snd z) \<and> fst z \<noteq> Inl EINTR", OF _ assms])
  fix rec :: "bool \<Rightarrow> 'a posix_os \<Rightarrow> string \<Rightarrow> open_flag list \<Rightarrow> nat \<Rightarrow> 'a hs_state \<Rightarrow> ((errno + int) \<times> 'a hs_state) option"
  fix a os p fl r s z
  assume ih: "\<And>a os p fl r s z. rec a os p fl r s = Some z \<Longrightarrow> os_frame s (snd z) \<and> fst z \<noteq> Inl EINTR"
    and b: "(case sys (os_open os p fl) s of
        (Inr fd, s) \<Rightarrow> Some (Inr fd, s)
      | (Inl e, s) \<Rightarrow>
          if e = EINTR then rec a os p fl r s
          else if a \<and> e = EBUSY \<and> r \<noteq> 0 then rec a os p fl (r - 1) (sys_do (os_usleep os 20000) s)
          else Some (Inl e, s)) = Some z"
  have f: "os_frame s (s\<lparr>ext := w\<rparr>)" for w by (simp add: os_frame_def)
  show "os_frame s (snd z) \<and> fst z \<noteq> Inl EINTR"
    using b by (auto simp: sys_eq sys_do_eq f split: sum.splits if_splits
        dest!: ih intro: os_frame_trans [OF f])
qed

text \<open>It returns: busy answers use up the retries, interruptions the measure.\<close>

lemma open_retry_returns:
  assumes fin: "finite_interrupts os \<mu>"
  shows "\<exists>r s'. open_retry apple os path flags retry s = Some (r, s')"
proof (induction retry arbitrary: s rule: less_induct)
  case outer: (less retry)
  show ?case
  proof (induction "\<mu> (ext s)" arbitrary: s rule: less_induct)
    case (less s)
    let ?c = "os_open os path flags (ext s)"
    have dec: "fst ?c = Inl EINTR \<Longrightarrow> \<mu> (snd ?c) < \<mu> (ext s)" using fin by (simp add: finite_interrupts_def)
    show ?case
    proof (cases "fst ?c")
      case (Inr fd)
      then show ?thesis by (simp add: open_retry.simps [of apple os path flags retry s] sys_eq)
    next
      case (Inl e)
      consider "e = EINTR" | "e \<noteq> EINTR" "apple \<and> e = EBUSY \<and> retry \<noteq> 0"
        | "e \<noteq> EINTR" "\<not> (apple \<and> e = EBUSY \<and> retry \<noteq> 0)" by blast
      then show ?thesis
      proof cases
        case 1
        then show ?thesis using Inl less.hyps [of "s\<lparr>ext := snd ?c\<rparr>"] dec
          by (simp add: open_retry.simps [of apple os path flags retry s] sys_eq)
      next
        case 2
        then show ?thesis using Inl outer [of "retry - 1"]
          by (subst open_retry.simps) (simp add: sys_eq)
      next
        case 3
        then show ?thesis using Inl by (subst open_retry.simps) (auto simp: sys_eq)
      qed
    qed
  qed
qed

text \<open>The error code of an error number of \<open>open\<close>.\<close>

definition open_code :: "errno \<Rightarrow> hs_error_code" where
  "open_code e =
     (if e = EACCES then HS_ERROR_ACCESS
      else if e \<in> {EIO, ENXIO, ENODEV} then HS_ERROR_IO
      else if e \<in> {ENOENT, ENOTDIR} then HS_ERROR_NOT_FOUND
      else HS_ERROR_SYSTEM)"

lemma open_error_code:
  "fst (open_error os path e s) = err_val (open_code e)" "lib_frame s' (snd (open_error os path e s)) = lib_frame s' s"
  "devs (snd (open_error os path e s)) = devs s"
  by (simp_all add: open_error_def open_code_def)

lemma word_add_1_minus_1 [simp]: "d\<lparr>refcount := refcount d + 1\<rparr>\<lparr>refcount := refcount d\<rparr> = d"
  by simp

text \<open>The outcomes of \<open>open_posix_device\<close>.\<close>

lemma open_posix_device_cases:
  assumes u: "usable s dev d" and run: "open_posix_device apple os mem dev s = Some (r, ho, s')"
  obtains (opened) fd where "r = 0" "ho = Some \<lparr>ph_dev = dev, ph_fd = fd\<rparr>" "lib_frame s s'"
      "devs s' = (devs s)(dev \<mapsto> d\<lparr>refcount := refcount d + 1\<rparr>)"
  | (failed) e where "r = err_val e" "ho = None" "lib_frame s s'" "devs s' = devs s"
proof (cases mem)
  case False
  with run failed [of HS_ERROR_MEMORY] show thesis by (auto simp: open_posix_device_def fail_with_eq)
next
  case True
  obtain path where path: "d_path d = Some path" using u by (auto simp: usable_def)
  let ?s1 = "s\<lparr>devs := (devs s)(dev \<mapsto> d\<lparr>refcount := refcount d + 1\<rparr>)\<rparr>"
  have ref: "hs_device_ref dev s = Some (dev, ?s1)" using u by (simp add: usable_def hs_device_ref_run)
  obtain x s2 where o: "open_retry apple os path [O_RDWR, O_CLOEXEC, O_NOCTTY, O_NONBLOCK] 4 ?s1 = Some (x, s2)"
    using run True ref path by (auto simp: open_posix_device_def elim!: bind_eq_SomeE)
  have s2: "lib_frame s s2" "devs s2 = devs ?s1"
    using open_retry_result [OF o] os_frame_lib_frame [of ?s1 s2] by simp_all
  show thesis
  proof (cases x)
    case (Inl e)
    obtain c s3 where c: "open_error os path e s2 = (c, s3)" by (cases "open_error os path e s2")
    have "lib_frame s s3" "devs s3 = devs ?s1" 
      using open_error_code(2) [of s os path e s2] open_error_code(3) [of os path e s2] c s2 by simp_all
    then obtain s4 where s4: "hs_device_unref dev (sys_do (os_close os (-1)) s3) = Some s4" "devs s4 = devs s" "lib_frame s s4"
      using unref_after_ref [OF u, of "sys_do (os_close os (-1)) s3"] by (auto simp: sys_do_eq)
    moreover have "c = err_val (open_code e)" using open_error_code(1) [of os path e s2] c by simp
    ultimately show thesis
      using failed [of "open_code e"] run True ref path o Inl c
      by (auto simp: open_posix_device_def close_posix_device_def)
  next
    case (Inr fd)
    with run True ref path o have "r = 0" "ho = Some \<lparr>ph_dev = dev, ph_fd = fd\<rparr>"
        "s' = (if apple \<and> d_type d = HS_DEVICE_TYPE_SERIAL then sys_do (os_tiocsdtr os fd) s2 else s2)"
      by (auto simp: open_posix_device_def Let_def)
    with opened s2 show thesis by (simp add: sys_do_eq split: if_splits)
  qed
qed

interpretation posix: device_driver ph_dev "\<lambda>_. True" "open_posix_device apple os mem" "close_posix_device os"
proof unfold_locales
  fix s dev d r h s' assume u: "usable s dev d" and "open_posix_device apple os mem dev s = Some (r, Some h, s')"
  then show "r = 0 \<and> ph_dev h = dev \<and> True \<and> lib_frame s s' \<and> devs s' = (devs s)(dev \<mapsto> d\<lparr>refcount := refcount d + 1\<rparr>)"
    by (cases rule: open_posix_device_cases [consumes 2]) auto
next
  fix s dev d r s' assume u: "usable s dev d" and "open_posix_device apple os mem dev s = Some (r, None, s')"
  then show "r < 0 \<and> lib_frame s s' \<and> devs s' = devs s"
    by (cases rule: open_posix_device_cases [consumes 2]) auto
next
  fix h s
  show "\<exists>s1. close_posix_device os h s = hs_device_unref (ph_dev h) s1 \<and> lib_frame s s1 \<and> devs s1 = devs s"
    unfolding close_posix_device_def sys_do_eq by (rule unref_after_world)
qed

text \<open>Opening always returns, when the system interrupts a call only finitely often.\<close>

lemma open_posix_device_returns:
  assumes fin: "finite_interrupts os \<mu>" and u: "usable s dev d"
  shows "\<exists>r ho s'. open_posix_device apple os mem dev s = Some (r, ho, s')"
proof (cases mem)
  case False
  then show ?thesis by (simp add: open_posix_device_def fail_with_eq)
next
  case True
  obtain path where path: "d_path d = Some path" using u by (auto simp: usable_def)
  let ?s1 = "s\<lparr>devs := (devs s)(dev \<mapsto> d\<lparr>refcount := refcount d + 1\<rparr>)\<rparr>"
  have ref: "hs_device_ref dev s = Some (dev, ?s1)" using u by (simp add: usable_def hs_device_ref_run)
  obtain x s2 where o: "open_retry apple os path [O_RDWR, O_CLOEXEC, O_NOCTTY, O_NONBLOCK] 4 ?s1 = Some (x, s2)"
    using open_retry_returns [OF fin] by blast
  show ?thesis
  proof (cases x)
    case (Inl e)
    obtain c s3 where c: "open_error os path e s2 = (c, s3)" by (cases "open_error os path e s2")
    have "lib_frame ?s1 s2 \<and> devs s2 = devs ?s1" using open_retry_result [OF o] os_frame_lib_frame [of ?s1 s2] by simp
    then have "devs s3 dev = Some (d\<lparr>refcount := refcount d + 1\<rparr>)" using open_error_code(3) [of os path e s2] c by simp
    with True ref path o Inl c show ?thesis
      by (simp add: open_posix_device_def close_posix_device_def hs_device_unref_def sys_do_eq)
  next
    case (Inr fd)
    with True ref path o show ?thesis by (simp add: open_posix_device_def Let_def)
  qed
qed

end
