(* ===== verification/SerialPosix.thy ===== *)
theory SerialPosix
  imports DevicePosix
begin

text \<open>
  Model of \<open>src/serial_posix.c\<close> and of the flags of \<open>include/hs/serial.h\<close>. The bit masks of
  \<open>struct termios\<close> are those of Linux. A buffer argument is the list of its bytes; the result of a
  read is the returned count with the new contents of the buffer.
\<close>

unbundle bit_operations_syntax

section \<open>Flags\<close>

definition HS_SERIAL_MASK_CSIZE :: uint32 where "HS_SERIAL_MASK_CSIZE = 0x3"
definition HS_SERIAL_MASK_PARITY :: uint32 where "HS_SERIAL_MASK_PARITY = 0xC"
definition HS_SERIAL_MASK_FLOW :: uint32 where "HS_SERIAL_MASK_FLOW = 0x60"
definition HS_SERIAL_CSIZE_7BITS :: uint32 where "HS_SERIAL_CSIZE_7BITS = 0x1"
definition HS_SERIAL_CSIZE_6BITS :: uint32 where "HS_SERIAL_CSIZE_6BITS = 0x2"
definition HS_SERIAL_CSIZE_5BITS :: uint32 where "HS_SERIAL_CSIZE_5BITS = 0x3"
definition HS_SERIAL_PARITY_ODD :: uint32 where "HS_SERIAL_PARITY_ODD = 0x4"
definition HS_SERIAL_PARITY_EVEN :: uint32 where "HS_SERIAL_PARITY_EVEN = 0x8"
definition HS_SERIAL_STOP_2BITS :: uint32 where "HS_SERIAL_STOP_2BITS = 0x10"
definition HS_SERIAL_FLOW_XONXOFF :: uint32 where "HS_SERIAL_FLOW_XONXOFF = 0x20"
definition HS_SERIAL_FLOW_RTSCTS :: uint32 where "HS_SERIAL_FLOW_RTSCTS = 0x40"
definition HS_SERIAL_CLOSE_NOHUP :: uint32 where "HS_SERIAL_CLOSE_NOHUP = 0x80"

definition CSIZE :: uint32 where "CSIZE = 0x30"
definition CS5 :: uint32 where "CS5 = 0"
definition CS6 :: uint32 where "CS6 = 0x10"
definition CS7 :: uint32 where "CS7 = 0x20"
definition CS8 :: uint32 where "CS8 = 0x30"
definition CSTOPB :: uint32 where "CSTOPB = 0x40"
definition PARENB :: uint32 where "PARENB = 0x100"
definition PARODD :: uint32 where "PARODD = 0x200"
definition HUPCL :: uint32 where "HUPCL = 0x400"
definition CLOCAL :: uint32 where "CLOCAL = 0x800"
definition CRTSCTS :: uint32 where "CRTSCTS = 0x80000000"
definition IXON :: uint32 where "IXON = 0x400"
definition IXOFF :: uint32 where "IXOFF = 0x1000"

lemmas serial_flags = HS_SERIAL_MASK_CSIZE_def HS_SERIAL_MASK_PARITY_def HS_SERIAL_MASK_FLOW_def
  HS_SERIAL_CSIZE_7BITS_def HS_SERIAL_CSIZE_6BITS_def HS_SERIAL_CSIZE_5BITS_def
  HS_SERIAL_PARITY_ODD_def HS_SERIAL_PARITY_EVEN_def HS_SERIAL_STOP_2BITS_def
  HS_SERIAL_FLOW_XONXOFF_def HS_SERIAL_FLOW_RTSCTS_def HS_SERIAL_CLOSE_NOHUP_def

lemmas termios_flags = CSIZE_def CS5_def CS6_def CS7_def CS8_def CSTOPB_def PARENB_def PARODD_def
  HUPCL_def CLOCAL_def CRTSCTS_def IXON_def IXOFF_def

section \<open>Operations\<close>

text \<open>\<open>cfmakeraw\<close> of the C library, on the flags.\<close>

definition cfmakeraw :: "termios \<Rightarrow> termios" where
  "cfmakeraw tio = tio\<lparr>c_iflag := c_iflag tio AND NOT 0x5EB, c_oflag := c_oflag tio AND NOT 0x1,
     c_lflag := c_lflag tio AND NOT 0x804B, c_cflag := (c_cflag tio AND NOT 0x130) OR CS8,
     c_vmin := 1, c_vtime := 0\<rparr>"

text \<open>The switch on the rate, to the \<open>B...\<close> constants; any other rate fails the assertion.\<close>

definition baud_constant :: "uint32 \<Rightarrow> uint32 option" where
  "baud_constant rate =
     (if rate = 110 then Some 3
      else if rate = 134 then Some 4
      else if rate = 150 then Some 5
      else if rate = 200 then Some 6
      else if rate = 300 then Some 7
      else if rate = 600 then Some 8
      else if rate = 1200 then Some 9
      else if rate = 1800 then Some 10
      else if rate = 2400 then Some 11
      else if rate = 4800 then Some 12
      else if rate = 9600 then Some 13
      else if rate = 19200 then Some 14
      else if rate = 38400 then Some 15
      else if rate = 57600 then Some 0x1001
      else if rate = 115200 then Some 0x1002
      else None)"

definition set_csize :: "uint32 \<Rightarrow> uint32 \<Rightarrow> uint32" where
  "set_csize flags cf =
     (let cf = cf AND NOT CSIZE; k = flags AND HS_SERIAL_MASK_CSIZE in
      if k = HS_SERIAL_CSIZE_5BITS then cf OR CS5
      else if k = HS_SERIAL_CSIZE_6BITS then cf OR CS6
      else if k = HS_SERIAL_CSIZE_7BITS then cf OR CS7
      else cf OR CS8)"

definition set_parity :: "uint32 \<Rightarrow> uint32 \<Rightarrow> uint32 option" where
  "set_parity flags cf =
     (let cf = cf AND NOT (PARENB OR PARODD); k = flags AND HS_SERIAL_MASK_PARITY in
      if k = 0 then Some cf
      else if k = HS_SERIAL_PARITY_ODD then Some (cf OR (PARENB OR PARODD))
      else if k = HS_SERIAL_PARITY_EVEN then Some (cf OR PARENB)
      else None)"

definition set_stop :: "uint32 \<Rightarrow> uint32 \<Rightarrow> uint32" where
  "set_stop flags cf =
     (let cf = cf AND NOT CSTOPB in
      if flags AND HS_SERIAL_STOP_2BITS \<noteq> 0 then cf OR CSTOPB else cf)"

definition set_flow :: "uint32 \<Rightarrow> uint32 \<Rightarrow> uint32 \<Rightarrow> (uint32 \<times> uint32) option" where
  "set_flow flags cf ifl =
     (let cf = cf AND NOT CRTSCTS; ifl = ifl AND NOT (IXON OR IXOFF); k = flags AND HS_SERIAL_MASK_FLOW in
      if k = 0 then Some (cf, ifl)
      else if k = HS_SERIAL_FLOW_XONXOFF then Some (cf, ifl OR (IXON OR IXOFF))
      else if k = HS_SERIAL_FLOW_RTSCTS then Some (cf OR CRTSCTS, ifl)
      else None)"

definition set_hup :: "uint32 \<Rightarrow> uint32 \<Rightarrow> uint32" where
  "set_hup flags cf =
     (let cf = cf AND NOT HUPCL in
      if flags AND HS_SERIAL_CLOSE_NOHUP = 0 then cf OR HUPCL else cf)"

text \<open>The settings the function computes from the ones it reads.\<close>

definition new_settings :: "uint32 \<Rightarrow> uint32 \<Rightarrow> termios \<Rightarrow> termios option" where
  "new_settings rate flags tio = do {
     let tio = cfmakeraw tio;
     let tio = tio\<lparr>c_vmin := 1, c_vtime := 0, c_cflag := c_cflag tio OR CLOCAL\<rparr>;
     b \<leftarrow> baud_constant rate;
     let tio = tio\<lparr>c_ispeed := b, c_ospeed := b\<rparr>;
     cf \<leftarrow> set_parity flags (set_csize flags (c_cflag tio));
     (cf, ifl) \<leftarrow> set_flow flags (set_stop flags cf) (c_iflag tio);
     Some (tio\<lparr>c_cflag := set_hup flags cf, c_iflag := ifl\<rparr>)
   }"

definition serial_handle :: "posix_handle \<Rightarrow> 'w hs_state \<Rightarrow> hs_device option" where
  "serial_handle h s = do {
     d \<leftarrow> devs s (ph_dev h);
     c_assert (d_type d = HS_DEVICE_TYPE_SERIAL);
     Some d
   }"

definition hs_serial_set_attributes ::
  "'w posix_os \<Rightarrow> posix_handle \<Rightarrow> uint32 \<Rightarrow> uint32 \<Rightarrow> 'w hs_state \<Rightarrow> (int \<times> 'w hs_state) option" where
  "hs_serial_set_attributes os h rate flags s = do {
     d \<leftarrow> serial_handle h s;
     case sys (os_tcgetattr os (ph_fd h)) s of
       (Inl e, s) \<Rightarrow> Some (fail_with HS_ERROR_SYSTEM
         (Some (''Unable to read serial port settings: '' @ os_strerror os e)) s)
     | (Inr tio, s) \<Rightarrow> do {
         tio \<leftarrow> new_settings rate flags tio;
         case sys (os_tcsetattr os (ph_fd h) tio) s of
           (Inl e, s) \<Rightarrow> Some (fail_with HS_ERROR_SYSTEM
             (Some (''Unable to change serial port settings: '' @ os_strerror os e)) s)
         | (Inr _, s) \<Rightarrow> Some (0, s)
       }
   }"

text \<open>
  Waiting for input, the same in \<open>serial_posix.c\<close> and \<open>hid_linux.c\<close>: \<open>Inl r\<close> when the function returns
  \<open>r\<close> at once, \<open>Inr ()\<close> when it goes on to read.
\<close>

definition wait_input ::
  "'w posix_os \<Rightarrow> int \<Rightarrow> string \<Rightarrow> int \<Rightarrow> 'w hs_state \<Rightarrow> ((int + unit) \<times> 'w hs_state) option" where
  "wait_input os fd path timeout s =
     (if timeout = 0 then Some (Inr (), s)
      else do {
        (start, s) \<leftarrow> hs_millis os s;
        (r, s) \<leftarrow> retry_eintr (poll_once os [(fd, POLLIN)] timeout start) s;
        case r of
          Inl e \<Rightarrow> (let (r, s) = fail_with HS_ERROR_SYSTEM
              (Some (''poll('' @ sq path @ '') failed: '' @ os_strerror os e)) s in Some (Inl r, s))
        | Inr (k, es) \<Rightarrow> Some (if k = 0 then Inl 0 else Inr (), s)
      })"

definition read_error :: "'w posix_os \<Rightarrow> string \<Rightarrow> errno \<Rightarrow> 'w hs_state \<Rightarrow> int \<times> 'w hs_state" where
  "read_error os path e s =
     (if e = EAGAIN then (0, s)
      else if e = EIO \<or> e = ENXIO
      then fail_with HS_ERROR_IO (Some (''I/O error while reading from '' @ sq path)) s
      else fail_with HS_ERROR_SYSTEM (Some (''read('' @ sq path @ '') failed: '' @ os_strerror os e)) s)"

definition hs_serial_read ::
  "'w posix_os \<Rightarrow> posix_handle \<Rightarrow> uint8 list \<Rightarrow> nat \<Rightarrow> int \<Rightarrow> 'w hs_state
     \<Rightarrow> (int \<times> uint8 list \<times> 'w hs_state) option" where
  "hs_serial_read os h buf n timeout s = do {
     d \<leftarrow> serial_handle h s;
     path \<leftarrow> d_path d;
     c_assert (n \<noteq> 0);
     (go, s) \<leftarrow> wait_input os (ph_fd h) path timeout s;
     case go of
       Inl r \<Rightarrow> Some (r, buf, s)
     | Inr _ \<Rightarrow> (case sys (os_read os (ph_fd h) n) s of
           (Inl e, s) \<Rightarrow> (let (r, s) = read_error os path e s in Some (r, buf, s))
         | (Inr ds, s) \<Rightarrow> do {
             buf \<leftarrow> buf_write 0 ds buf;
             Some (int (length ds), buf, s)
           })
   }"

definition write_error :: "'w posix_os \<Rightarrow> string \<Rightarrow> string \<Rightarrow> errno \<Rightarrow> 'w hs_state \<Rightarrow> int \<times> 'w hs_state" where
  "write_error os what path e s =
     (if e = EIO \<or> e = ENXIO
      then fail_with HS_ERROR_IO (Some (''I/O error while writing to '' @ sq path)) s
      else fail_with HS_ERROR_SYSTEM (Some (what @ ''('' @ sq path @ '') failed: '' @ os_strerror os e)) s)"

definition hs_serial_write ::
  "'w posix_os \<Rightarrow> posix_handle \<Rightarrow> uint8 list \<Rightarrow> nat \<Rightarrow> 'w hs_state \<Rightarrow> (int \<times> 'w hs_state) option" where
  "hs_serial_write os h buf n s = do {
     d \<leftarrow> serial_handle h s;
     if n = 0 then Some (0, s)
     else do {
       path \<leftarrow> d_path d;
       (r, s) \<leftarrow> retry_eintr (\<lambda>s. Some (sys (os_poll os [(ph_fd h, POLLOUT)] (-1)) s)) s;
       case r of
         Inl e \<Rightarrow> Some (write_error os ''poll'' path e s)
       | Inr (k, es) \<Rightarrow> do {
           c_assert (k = 1);
           c_assert (n \<le> length buf);
           case sys (os_write os (ph_fd h) (take n buf)) s of
             (Inl e, s) \<Rightarrow> Some (write_error os ''write'' path e s)
           | (Inr r, s) \<Rightarrow> Some (r, s)
         }
     }
   }"

section \<open>Bit fields\<close>

lemma field_self:
  fixes x m k :: "'a::len word"
  assumes "k AND m = k"
  shows "((x AND NOT m) OR k) AND m = k"
  using assms by (simp add: bit.conj_disj_distrib2 and.assoc)

lemma field_other:
  fixes x m m' k :: "'a::len word"
  assumes "m AND m' = 0" and "k AND m' = 0"
  shows "((x AND NOT m) OR k) AND m' = x AND m'"
proof -
  have "m' = (m OR NOT m) AND m'" by simp
  also have "\<dots> = NOT m AND m'" unfolding bit.conj_disj_distrib2 using assms(1) by simp
  finally have "NOT m AND m' = m'" by simp
  then show ?thesis using assms(2) by (simp add: bit.conj_disj_distrib2 and.assoc)
qed

lemma clear_self: "(x AND NOT m) AND m = 0" for x m :: "'a::len word"
  by (simp add: and.assoc)

lemma clear_other: "m AND m' = 0 \<Longrightarrow> (x AND NOT m) AND m' = x AND m'" for x m m' :: "'a::len word"
  using field_other [of m m' 0 x] by simp

lemma or_other: "k AND m' = 0 \<Longrightarrow> (x OR k) AND m' = x AND m'" for x m' k :: "'a::len word"
  by (simp add: bit.conj_disj_distrib2)

lemma sub_mask: "k AND M = k \<Longrightarrow> M AND m = 0 \<Longrightarrow> k AND m = 0" for k M m :: "'a::len word"
  by (metis and.assoc and_zero_eq)

text \<open>What the fields of the control flags mean, as the flags of the library's interface ask for it.\<close>

definition csize_bits :: "uint32 \<Rightarrow> uint32" where
  "csize_bits flags =
     (let k = flags AND HS_SERIAL_MASK_CSIZE in if k = 3 then CS5 else if k = 2 then CS6 else if k = 1 then CS7 else CS8)"

definition parity_bits :: "uint32 \<Rightarrow> uint32 option" where
  "parity_bits flags =
     (let k = flags AND HS_SERIAL_MASK_PARITY in
      if k = 0 then Some 0 else if k = 4 then Some (PARENB OR PARODD) else if k = 8 then Some PARENB else None)"

definition flow_bits :: "uint32 \<Rightarrow> (uint32 \<times> uint32) option" where
  "flow_bits flags =
     (let k = flags AND HS_SERIAL_MASK_FLOW in
      if k = 0 then Some (0, 0) else if k = 0x20 then Some (0, IXON OR IXOFF) else if k = 0x40 then Some (CRTSCTS, 0)
      else None)"

text \<open>Each step of the settings writes its own field of the control flags and no other.\<close>

lemma set_csize_field:
  "set_csize flags cf AND CSIZE = csize_bits flags"
  "CSIZE AND m = 0 \<Longrightarrow> set_csize flags cf AND m = cf AND m"
proof -
  have k: "CS5 AND CSIZE = CS5" "CS6 AND CSIZE = CS6" "CS7 AND CSIZE = CS7" "CS8 AND CSIZE = CS8"
    by (simp_all add: termios_flags)
  show "set_csize flags cf AND CSIZE = csize_bits flags"
    by (auto simp: set_csize_def csize_bits_def Let_def field_self k serial_flags)
  show "set_csize flags cf AND m = cf AND m" if "CSIZE AND m = 0"
    using that k [THEN sub_mask, OF that] by (auto simp: set_csize_def Let_def field_other)
qed

lemma set_parity_field:
  assumes "set_parity flags cf = Some cf'"
  shows "Some (cf' AND (PARENB OR PARODD)) = parity_bits flags"
    and "(PARENB OR PARODD) AND m = 0 \<Longrightarrow> cf' AND m = cf AND m"
proof -
  have k: "(PARENB OR PARODD) AND (PARENB OR PARODD) = PARENB OR PARODD" "PARENB AND (PARENB OR PARODD) = PARENB"
    by (simp_all add: termios_flags)
  show "Some (cf' AND (PARENB OR PARODD)) = parity_bits flags"
    using assms by (auto simp: set_parity_def parity_bits_def Let_def field_self clear_self k serial_flags
        simp del: bit.de_Morgan_disj split: if_splits)
  show "cf' AND m = cf AND m" if "(PARENB OR PARODD) AND m = 0"
    using assms that k(2) [THEN sub_mask, OF that]
    by (auto simp: set_parity_def Let_def field_other clear_other simp del: bit.de_Morgan_disj split: if_splits)
qed

lemma set_parity_defined: "set_parity flags cf = None \<longleftrightarrow> parity_bits flags = None"
  by (simp add: set_parity_def parity_bits_def Let_def serial_flags)

lemma set_stop_field:
  "set_stop flags cf AND CSTOPB = (if flags AND HS_SERIAL_STOP_2BITS = 0 then 0 else CSTOPB)"
  "CSTOPB AND m = 0 \<Longrightarrow> set_stop flags cf AND m = cf AND m"
  by (auto simp: set_stop_def Let_def field_self clear_self field_other clear_other)

lemma set_flow_field:
  assumes "set_flow flags cf ifl = Some (cf', ifl')"
  shows "Some (cf' AND CRTSCTS, ifl' AND (IXON OR IXOFF)) = flow_bits flags"
    and "CRTSCTS AND m = 0 \<Longrightarrow> cf' AND m = cf AND m"
    and "(IXON OR IXOFF) AND m = 0 \<Longrightarrow> ifl' AND m = ifl AND m"
  using assms
  by (auto simp: set_flow_def flow_bits_def Let_def field_self clear_self field_other clear_other serial_flags
      simp del: bit.de_Morgan_disj split: if_splits)

lemma set_flow_defined: "set_flow flags cf ifl = None \<longleftrightarrow> flow_bits flags = None"
  by (simp add: set_flow_def flow_bits_def Let_def serial_flags)

lemma set_hup_field:
  "set_hup flags cf AND HUPCL = (if flags AND HS_SERIAL_CLOSE_NOHUP = 0 then HUPCL else 0)"
  "HUPCL AND m = 0 \<Longrightarrow> set_hup flags cf AND m = cf AND m"
  by (auto simp: set_hup_def Let_def field_self clear_self field_other clear_other)

lemma disjoint_fields:
  "(PARENB OR PARODD) AND CSIZE = 0" "CSTOPB AND CSIZE = 0" "CRTSCTS AND CSIZE = 0" "HUPCL AND CSIZE = 0"
  "CSTOPB AND (PARENB OR PARODD) = 0" "CRTSCTS AND (PARENB OR PARODD) = 0" "HUPCL AND (PARENB OR PARODD) = 0"
  "CRTSCTS AND CSTOPB = 0" "HUPCL AND CSTOPB = 0" "HUPCL AND CRTSCTS = 0"
  "CSIZE AND CLOCAL = 0" "(PARENB OR PARODD) AND CLOCAL = 0" "CSTOPB AND CLOCAL = 0" "CRTSCTS AND CLOCAL = 0"
  "HUPCL AND CLOCAL = 0"
  by (simp_all add: termios_flags)

text \<open>The settings written are exactly the ones asked for.\<close>

lemma new_settings_defined:
  "new_settings rate flags tio = None \<longleftrightarrow>
    baud_constant rate = None \<or> parity_bits flags = None \<or> flow_bits flags = None"
proof (cases "set_parity flags (set_csize flags (c_cflag (cfmakeraw tio) OR CLOCAL))")
  case None
  then have "parity_bits flags = None" by (simp only: set_parity_defined)
  with None show ?thesis by (simp add: new_settings_def Let_def)
next
  case (Some cf)
  then have p: "parity_bits flags \<noteq> None" using set_parity_defined by (metis option.distinct(1))
  show ?thesis
  proof (cases "set_flow flags (set_stop flags cf) (c_iflag (cfmakeraw tio))")
    case None
    then have "flow_bits flags = None" by (simp only: set_flow_defined)
    with Some None show ?thesis by (simp add: new_settings_def Let_def)
  next
    case flow: (Some a)
    then have "flow_bits flags \<noteq> None" using set_flow_defined by (metis option.distinct(1))
    with p Some flow show ?thesis
      by (cases a; cases "baud_constant rate") (simp_all add: new_settings_def Let_def)
  qed
qed

lemma new_settings_fields:
  assumes "new_settings rate flags tio = Some tio'"
  shows "c_cflag tio' AND CSIZE = csize_bits flags"
    and "Some (c_cflag tio' AND (PARENB OR PARODD)) = parity_bits flags"
    and "c_cflag tio' AND CSTOPB = (if flags AND HS_SERIAL_STOP_2BITS = 0 then 0 else CSTOPB)"
    and "Some (c_cflag tio' AND CRTSCTS, c_iflag tio' AND (IXON OR IXOFF)) = flow_bits flags"
    and "c_cflag tio' AND HUPCL = (if flags AND HS_SERIAL_CLOSE_NOHUP = 0 then HUPCL else 0)"
    and "c_cflag tio' AND CLOCAL = CLOCAL"
    and "c_vmin tio' = 1 \<and> c_vtime tio' = 0 \<and> Some (c_ispeed tio') = baud_constant rate \<and> c_ospeed tio' = c_ispeed tio'"
proof -
  obtain b cf cf' ifl where b: "baud_constant rate = Some b"
    and p: "set_parity flags (set_csize flags (c_cflag (cfmakeraw tio) OR CLOCAL)) = Some cf"
    and f: "set_flow flags (set_stop flags cf) (c_iflag (cfmakeraw tio)) = Some (cf', ifl)"
    and t: "tio' = (cfmakeraw tio)\<lparr>c_vmin := 1, c_vtime := 0, c_ispeed := b, c_ospeed := b,
        c_cflag := set_hup flags cf', c_iflag := ifl\<rparr>"
    using assms by (auto simp: new_settings_def Let_def elim!: bind_eq_SomeE)
  note d = disjoint_fields and pf = set_parity_field [OF p] and ff = set_flow_field [OF f]
  show "c_cflag tio' AND CSIZE = csize_bits flags"
    by (simp add: t set_hup_field(2) ff(2) set_stop_field(2) pf(2) set_csize_field(1) d)
  show "Some (c_cflag tio' AND (PARENB OR PARODD)) = parity_bits flags"
    by (simp add: t set_hup_field(2) ff(2) set_stop_field(2) pf(1) d)
  show "c_cflag tio' AND CSTOPB = (if flags AND HS_SERIAL_STOP_2BITS = 0 then 0 else CSTOPB)"
    by (simp add: t set_hup_field(2) ff(2) set_stop_field(1) d)
  show "Some (c_cflag tio' AND CRTSCTS, c_iflag tio' AND (IXON OR IXOFF)) = flow_bits flags"
    by (simp add: t set_hup_field(2) ff(1) d)
  show "c_cflag tio' AND HUPCL = (if flags AND HS_SERIAL_CLOSE_NOHUP = 0 then HUPCL else 0)"
    by (simp add: t set_hup_field(1))
  show "c_cflag tio' AND CLOCAL = CLOCAL"
  proof -
    have "c_cflag tio' AND CLOCAL = (c_cflag (cfmakeraw tio) OR CLOCAL) AND CLOCAL"
      by (simp add: t set_hup_field(2) ff(2) set_stop_field(2) pf(2) set_csize_field(2) d)
    then show ?thesis by (simp add: bit.conj_disj_distrib2)
  qed
  show "c_vmin tio' = 1 \<and> c_vtime tio' = 0 \<and> Some (c_ispeed tio') = baud_constant rate \<and> c_ospeed tio' = c_ispeed tio'"
    by (simp add: t b)
qed

section \<open>Reading and writing\<close>

text \<open>What an I/O call leaves alone.\<close>

definition io_frame :: "'w hs_state \<Rightarrow> 'w hs_state \<Rightarrow> bool" where
  "io_frame s s' \<longleftrightarrow> lib_frame s s' \<and> devs s' = devs s"

lemma io_frame_refl [simp]: "io_frame s s"
  by (simp add: io_frame_def)

lemma io_frame_trans: "io_frame s s' \<Longrightarrow> io_frame s' s'' \<Longrightarrow> io_frame s s''"
  by (auto simp: io_frame_def intro: lib_frame_trans)

lemma io_frame_os: "os_frame s s' \<Longrightarrow> io_frame s s'"
  using os_frame_lib_frame by (auto simp: io_frame_def)

lemma io_frame_simps [simp, frame_simps]:
  "io_frame s (s''\<lparr>ext := w\<rparr>) = io_frame s s''"
  "io_frame s (snd (fail_with e m s'')) = io_frame s s''"
  "io_frame s (s''\<lparr>logs := L\<rparr>) = io_frame s s''"
  "io_frame s (log_msg l t s'') = io_frame s s''"
  by (simp_all add: io_frame_def)

lemma wait_input_run:
  assumes fin: "finite_interrupts os \<mu>" and clk: "clock_works os"
  shows "\<exists>go s'. wait_input os fd path timeout s = Some (go, s') \<and> io_frame s s' \<and>
     (\<forall>r. go = Inl r \<longrightarrow> r \<in> {0, err_val HS_ERROR_SYSTEM})"
proof (cases "timeout = 0")
  case True
  then show ?thesis by (simp add: wait_input_def)
next
  case False
  obtain start where st: "hs_millis os s = Some (start, s\<lparr>ext := snd (os_clock os (ext s))\<rparr>)"
    using hs_millis_run [OF clk] by blast
  obtain r s2 where r: "retry_eintr (poll_once os [(fd, POLLIN)] timeout start) (s\<lparr>ext := snd (os_clock os (ext s))\<rparr>) = Some (r, s2)"
      "os_frame (s\<lparr>ext := snd (os_clock os (ext s))\<rparr>) s2"
    using poll_loop_run [OF fin clk] by blast
  have "io_frame s s2" using io_frame_os [OF r(2)] by (simp add: io_frame_def)
  with False st r(1) show ?thesis
    by (cases r) (auto simp: wait_input_def fail_with_eq split: prod.splits)
qed

lemma read_error_run:
  "fst (read_error os path e s) \<in> {0, err_val HS_ERROR_IO, err_val HS_ERROR_SYSTEM}"
  "io_frame s0 (snd (read_error os path e s)) = io_frame s0 s"
  by (simp_all add: read_error_def)

lemma write_error_run:
  "fst (write_error os what path e s) \<in> {err_val HS_ERROR_IO, err_val HS_ERROR_SYSTEM}"
  "io_frame s0 (snd (write_error os what path e s)) = io_frame s0 s"
  by (simp_all add: write_error_def)

text \<open>
  A read stores what it delivers at the start of the buffer, leaves the rest, and returns the number
  of bytes, 0 for nothing in time, or an error.
\<close>

lemma hs_serial_read_run:
  assumes fin: "finite_interrupts os \<mu>" and clk: "clock_works os" and rok: "read_ok os"
    and h: "serial_handle h s = Some d" "d_path d \<noteq> None" and n: "n \<noteq> 0" "n \<le> length buf"
  shows "\<exists>r ds s'. hs_serial_read os h buf n timeout s = Some (r, ds @ drop (length ds) buf, s') \<and>
     io_frame s s' \<and> length ds \<le> n \<and>
     (r = int (length ds) \<or> ds = [] \<and> r \<in> {err_val HS_ERROR_IO, err_val HS_ERROR_SYSTEM})"
proof -
  obtain path where path: "d_path d = Some path" using h(2) by blast
  obtain go s1 where go: "wait_input os (ph_fd h) path timeout s = Some (go, s1)" "io_frame s s1"
      "\<forall>r. go = Inl r \<longrightarrow> r \<in> {0, err_val HS_ERROR_SYSTEM}"
    using wait_input_run [OF fin clk] by blast
  show ?thesis
  proof (cases go)
    case (Inl r)
    with go h n path show ?thesis
      by (intro exI [of _ r] exI [of _ "[]"] exI [of _ s1]) (auto simp: hs_serial_read_def)
  next
    case (Inr u)
    let ?c = "os_read os (ph_fd h) n (ext s1)" and ?s2 = "s1\<lparr>ext := snd (os_read os (ph_fd h) n (ext s1))\<rparr>"
    show ?thesis
    proof (cases "fst ?c")
      case (Inl e)
      with go Inr h n path read_error_run(1) [of os path e ?s2] read_error_run(2) [of s os path e ?s2] show ?thesis
        by (intro exI [of _ "fst (read_error os path e ?s2)"] exI [of _ "[]"] exI [of _ "snd (read_error os path e ?s2)"])
          (auto simp: hs_serial_read_def sys_eq split: prod.splits)
    next
      case ds: (Inr ds)
      then have "length ds \<le> n" using rok by (simp add: read_ok_def)
      with go Inr ds h n path show ?thesis
        by (intro exI [of _ "int (length ds)"] exI [of _ ds] exI [of _ ?s2])
          (auto simp: hs_serial_read_def sys_eq buf_write_def)
    qed
  qed
qed

text \<open>\<open>poll\<close> without a timeout answers for its one descriptor.\<close>

definition poll_blocks :: "'w posix_os \<Rightarrow> bool" where
  "poll_blocks os \<longleftrightarrow> (\<forall>fd ev w k es. fst (os_poll os [(fd, ev)] (-1) w) = Inr (k, es) \<longrightarrow> k = 1)"

lemma hs_serial_write_run:
  assumes fin: "finite_interrupts os \<mu>" and blk: "poll_blocks os"
    and h: "serial_handle h s = Some d" "d_path d \<noteq> None" and n: "n \<le> length buf"
  shows "\<exists>r s'. hs_serial_write os h buf n s = Some (r, s') \<and> io_frame s s' \<and>
     (r = 0 \<or> r \<in> {err_val HS_ERROR_IO, err_val HS_ERROR_SYSTEM} \<or>
      (\<exists>w. fst (os_write os (ph_fd h) (take n buf) w) = Inr r))"
proof (cases "n = 0")
  case True
  with h show ?thesis by (simp add: hs_serial_write_def)
next
  case False
  obtain path where path: "d_path d = Some path" using h(2) by blast
  let ?call = "\<lambda>s. Some (sys (os_poll os [(ph_fd h, POLLOUT)] (-1)) s)"
  have "\<exists>r s'. retry_eintr ?call s = Some (r, s') \<and> r \<noteq> Inl EINTR \<and> io_frame s s'"
  proof (rule retry_eintr_returns [where \<mu> = "\<lambda>s. \<mu> (ext s)" and P = "io_frame s"])
    fix s1 assume "io_frame s s1"
    with fin show "\<exists>r s'. ?call s1 = Some (r, s') \<and> io_frame s s' \<and> (r = Inl EINTR \<longrightarrow> \<mu> (ext s') < \<mu> (ext s1))"
      by (auto simp: sys_eq finite_interrupts_def)
  qed simp
  then obtain x s1 where x: "retry_eintr ?call s = Some (x, s1)" "io_frame s s1" by blast
  show ?thesis
  proof (cases x)
    case (Inl e)
    with x h False path write_error_run(1) [of os "''poll''" path e s1] write_error_run(2) [of s os "''poll''" path e s1]
    show ?thesis
      by (cases "write_error os ''poll'' path e s1") (auto simp: hs_serial_write_def)
  next
    case (Inr a)
    obtain k es where a: "a = (k, es)" by (cases a)
    have "\<forall>k es. fst (x, s1) = Inr (k, es) \<longrightarrow> k = 1"
      by (rule retry_eintr_origin [OF _ x(1)]) (use blk in \<open>auto simp: poll_blocks_def sys_eq\<close>)
    then have k: "k = 1" using Inr a by auto
    let ?c = "os_write os (ph_fd h) (take n buf) (ext s1)"
    show ?thesis
    proof (cases "fst ?c")
      case e: (Inl e)
      let ?s2 = "s1\<lparr>ext := snd ?c\<rparr>"
      from x h False path Inr a k n e write_error_run(1) [of os "''write''" path e ?s2]
        write_error_run(2) [of s os "''write''" path e ?s2]
      show ?thesis
        by (cases "write_error os ''write'' path e ?s2") (auto simp: hs_serial_write_def sys_eq)
    next
      case r: (Inr r)
      from x h False path Inr a k n r show ?thesis by (auto simp: hs_serial_write_def sys_eq)
    qed
  qed
qed

end
