(* ===== verification/PosixProperties.thy ===== *)
theory PosixProperties
  imports SerialPosix
begin

text \<open>
  The properties of the descriptor sets, of polling and the clock, of the POSIX driver and of serial
  input and output, over the lemmas of \<open>Platform\<close>, \<open>Posix\<close>, \<open>Driver\<close>, \<open>DevicePosix\<close> and
  \<open>SerialPosix\<close>. They are applied to the example system of the first section, which interrupts its
  calls as many times as the counter in its state says.
\<close>

unbundle bit_operations_syntax

section \<open>An example\<close>

definition interrupted :: "'a \<Rightarrow> nat \<Rightarrow> (errno + 'a) \<times> nat" where
  "interrupted a w = (if w > 0 then (Inl EINTR, w - 1) else (Inr a, w))"

definition answer :: "int \<times> uint16 \<Rightarrow> uint16" where
  "answer pe = (if snd pe = 0 then POLLERR else snd pe)"

definition ex_termios :: termios where
  "ex_termios = \<lparr>c_iflag = 0, c_oflag = 0, c_cflag = 0, c_lflag = 0, c_vmin = 0, c_vtime = 0,
     c_ispeed = 0, c_ospeed = 0\<rparr>"

definition ex_os :: "nat posix_os" where
  "ex_os =
     \<lparr>os_open = (\<lambda>path flags. interrupted 3),
      os_close = (\<lambda>fd w. w),
      os_poll = (\<lambda>pfd t. interrupted (int (length pfd), map answer pfd)),
      os_read = (\<lambda>fd n w. (Inr (take n [1, 2, 3]), w)),
      os_write = (\<lambda>fd bs. interrupted (int (length bs))),
      os_hidiocgrdescsize = (\<lambda>fd w. (Inr 4, w)),
      os_hidiocgrdesc = (\<lambda>fd n w. (Inr (replicate (unat n) 0), w)),
      os_hidiocgfeature = (\<lambda>fd bs. interrupted bs),
      os_hidiocsfeature = (\<lambda>fd bs. interrupted (int (length bs))),
      os_tcgetattr = (\<lambda>fd w. (Inr ex_termios, w)),
      os_tcsetattr = (\<lambda>fd tio w. (Inr (), w)),
      os_tiocsdtr = (\<lambda>fd w. w),
      os_usleep = (\<lambda>n w. w),
      os_clock = (\<lambda>w. (Some (5, 20000000), w)),
      os_strerror = (\<lambda>e. ''error''),
      os_uname_release = ''2.6.30''\<rparr>"

lemma ex_os_sel [simp]:
  "os_open ex_os = (\<lambda>path flags. interrupted 3)" "os_close ex_os = (\<lambda>fd w. w)"
  "os_poll ex_os = (\<lambda>pfd t. interrupted (int (length pfd), map answer pfd))"
  "os_read ex_os = (\<lambda>fd n w. (Inr (take n [1, 2, 3]), w))"
  "os_write ex_os = (\<lambda>fd bs. interrupted (int (length bs)))"
  "os_hidiocgrdescsize ex_os = (\<lambda>fd w. (Inr 4, w))"
  "os_hidiocgrdesc ex_os = (\<lambda>fd n w. (Inr (replicate (unat n) 0), w))"
  "os_hidiocgfeature ex_os = (\<lambda>fd bs. interrupted bs)"
  "os_hidiocsfeature ex_os = (\<lambda>fd bs. interrupted (int (length bs)))"
  "os_tcgetattr ex_os = (\<lambda>fd w. (Inr ex_termios, w))" "os_tcsetattr ex_os = (\<lambda>fd tio w. (Inr (), w))"
  "os_clock ex_os = (\<lambda>w. (Some (5, 20000000), w))" "os_uname_release ex_os = ''2.6.30''"
  by (simp_all add: ex_os_def)

lemma interrupted_sel [simp]:
  "fst (interrupted a w) = (if w > 0 then Inl EINTR else Inr a)" "snd (interrupted a w) = w - 1"
  by (auto simp: interrupted_def)

lemma ex_finite: "finite_interrupts ex_os (\<lambda>w. w)"
  by (simp add: finite_interrupts_def)

lemma ex_clock: "clock_works ex_os"
  by (simp add: clock_works_def)

lemma ex_read: "read_ok ex_os"
  by (simp add: read_ok_def)

text \<open>A device of each kind: 5 is a serial device, 8 is a HID device.\<close>

definition ex_dev :: "hs_device_type \<Rightarrow> vtable_id \<Rightarrow> hs_device" where
  "ex_dev t v = zero_device\<lparr>refcount := 1, d_key := Some ''k'', d_type := t, d_vtable := v,
     d_state := HS_DEVICE_STATUS_ONLINE, d_path := Some ''/dev/x''\<rparr>"

lemma ex_dev_sel [simp]:
  "refcount (ex_dev t v) = 1" "d_type (ex_dev t v) = t" "d_vtable (ex_dev t v) = v"
  "d_state (ex_dev t v) = HS_DEVICE_STATUS_ONLINE" "d_path (ex_dev t v) = Some ''/dev/x''"
  by (simp_all add: ex_dev_def)

definition ex_world :: "nat \<Rightarrow> nat hs_state" where
  "ex_world w =
     \<lparr>lists = \<lparr>l_prev = Map.empty, l_next = Map.empty\<rparr>, nodes = \<lparr>h_next = Map.empty, h_key = Map.empty\<rparr>,
      devs = [5 \<mapsto> ex_dev HS_DEVICE_TYPE_SERIAL Hs_posix_device_vtable,
              8 \<mapsto> ex_dev HS_DEVICE_TYPE_HID Hs_linux_hid_vtable],
      cbs = Map.empty, mons = Map.empty, logs = init_log False, ext = w\<rparr>"

lemma ex_world_sel [simp]:
  "devs (ex_world w) = [5 \<mapsto> ex_dev HS_DEVICE_TYPE_SERIAL Hs_posix_device_vtable,
     8 \<mapsto> ex_dev HS_DEVICE_TYPE_HID Hs_linux_hid_vtable]"
  "ext (ex_world w) = w"
  by (simp_all add: ex_world_def)

lemma ex_usable:
  "usable (ex_world w) 5 (ex_dev HS_DEVICE_TYPE_SERIAL Hs_posix_device_vtable)"
  "usable (ex_world w) 8 (ex_dev HS_DEVICE_TYPE_HID Hs_linux_hid_vtable)"
  by (simp_all add: usable_def)

section \<open>Descriptor sets, timeouts and polling\<close>

text \<open>A set with the descriptors 3 and 4, under the identifiers 7 and 9.\<close>

definition ex_set :: "int descriptor_set" where
  "ex_set = \<lparr>ds_count = 2, ds_desc = 3 # 4 # replicate 62 0, ds_id = 7 # 9 # replicate 62 0\<rparr>"

lemma ex_set_ok: "ds_ok ex_set" "entries ex_set = [(3, 7), (4, 9)]"
  by (simp_all add: ex_set_def ds_ok_def entries_def)

text \<open>
  C38: the descriptor set operations refine operations on the list of the set's entries, and stay inside
  the two arrays of 64 elements: clearing empties the list, adding appends one entry while there is
  room and fails the assertion when there is none, and removing an identifier filters out all its
  entries and keeps the others in their order.
\<close>

theorem descriptor_set_refines:
  assumes "ds_ok dset" and "valid desc"
  shows "entries (hs_descriptor_set_clear dset) = [] \<and>
     (if length (entries dset) < 64
      then \<exists>dset'. hs_descriptor_set_add valid dset desc n = Some dset' \<and> ds_ok dset' \<and>
        entries dset' = entries dset @ [(desc, n)]
      else hs_descriptor_set_add valid dset desc n = None) \<and>
     (\<exists>dset'. hs_descriptor_set_remove dset n = Some dset' \<and> ds_ok dset' \<and>
        entries dset' = filter (\<lambda>(d, k). k \<noteq> n) (entries dset))"
proof -
  have "length (entries dset) \<le> 64" using assms(1) length_entries [OF assms(1)] by (simp add: ds_ok_def)
  then show ?thesis
    using hs_descriptor_set_clear_entries [OF assms(1)] hs_descriptor_set_add_entries [of dset valid desc n] assms
      hs_descriptor_set_add_full [OF assms(1), of valid desc n] hs_descriptor_set_remove_entries [OF assms(1), of n]
    by auto
qed

theorem descriptor_set_refines_witness:
  "(\<exists>dset'. hs_descriptor_set_add (\<lambda>d. 0 \<le> d) ex_set 5 7 = Some dset' \<and> entries dset' = [(3, 7), (4, 9), (5, 7)]) \<and>
   (\<exists>dset'. hs_descriptor_set_remove ex_set 7 = Some dset' \<and> entries dset' = [(4, 9)])"
  using descriptor_set_refines [OF ex_set_ok(1), of "\<lambda>d. 0 \<le> d" 5 7] by (auto simp: ex_set_ok)

text \<open>
  C39: \<open>hs_adjust_timeout\<close> gives the rest of a timeout: the timeout less the milliseconds since \<open>start\<close>,
  at least 0 and never more than the timeout, without a wrap-around or a truncation to \<open>int\<close> that
  would make it negative; a negative timeout stays infinite (-1) and does not read the clock.
\<close>

theorem adjust_timeout_bounds:
  assumes "millis s = Some (now, s')" and "timeout \<le> INT_MAX" and "start \<le> now"
    and "unat start + nat timeout < 2 ^ 64"
  shows "hs_adjust_timeout millis timeout start s =
     (if timeout < 0 then Some (-1, s)
      else Some (max 0 (timeout - (int (unat now) - int (unat start))), s'))"
proof (cases "timeout < 0")
  case True
  then show ?thesis by (simp add: hs_adjust_timeout_negative)
next
  case False
  then have "0 \<le> timeout" by simp
  then show ?thesis
    using hs_adjust_timeout_run [of millis s now s' timeout start] assms False by simp
qed

theorem adjust_timeout_bounds_witness:
  "hs_adjust_timeout (\<lambda>s. Some (1030, s)) 100 1000 () = Some (70, ())"
  using adjust_timeout_bounds [of "\<lambda>s. Some (1030, s)" "()" 1030 "()" 100 1000] by simp


lemma ex_poll: "poll_ok ex_os"
proof -
  have "(if e = 0 then POLLERR else e) AND NOT (e OR POLLERR OR POLLHUP OR POLLNVAL) = 0" for e
    by (auto simp: and.assoc [symmetric] bit.conj_cancel_right)
  then show ?thesis by (auto simp: poll_ok_def answer_def POLLERR_def split: if_splits)
qed


section \<open>The clock\<close>

text \<open>
  C40: \<open>hs_millis\<close> divides the nanoseconds by 10000000: its value grows with time, never runs ahead of
  the milliseconds it is documented to give, and is behind them by up to 900 whenever the fraction
  of the second is a millisecond or more.
\<close>

theorem hs_millis_lag:
  assumes "0 \<le> sec" and "sec < 2 ^ 50" and "0 \<le> nsec" and "nsec < 1000000000"
    and "0 \<le> sec'" and "sec' < 2 ^ 50" and "0 \<le> nsec'" and "nsec' < 1000000000"
    and "sec * 1000000000 + nsec \<le> sec' * 1000000000 + nsec'"
  shows "uint (timespec_millis sec nsec) \<le> uint (timespec_millis sec' nsec') \<and>
     sec * 1000 + nsec div 1000000 - 900 \<le> uint (timespec_millis sec nsec) \<and>
     uint (timespec_millis sec nsec) \<le> sec * 1000 + nsec div 1000000 \<and>
     (uint (timespec_millis sec nsec) = sec * 1000 + nsec div 1000000 \<longleftrightarrow> nsec < 1000000)"
proof -
  define m where "m = nsec div 1000000"
  have m: "0 \<le> m" "m < 1000" "nsec div 10000000 = m div 10" "m = 0 \<longleftrightarrow> nsec < 1000000"
    using assms(3,4) by (auto simp: m_def zdiv_zmult2_eq [symmetric])
  have v: "uint (timespec_millis sec nsec) = sec * 1000 + m div 10"
    "uint (timespec_millis sec' nsec') = sec' * 1000 + nsec' div 10000000"
    using timespec_millis_value assms(1-8) m(3) by simp_all
  have f: "0 \<le> nsec' div 10000000" "nsec div 10000000 < 100" using assms(3,4,7,8) by auto
  have "sec * 1000 + nsec div 10000000 \<le> sec' * 1000 + nsec' div 10000000"
  proof (cases "sec = sec'")
    case True
    then have "nsec \<le> nsec'" using assms(9) by simp
    then have "nsec div 10000000 \<le> nsec' div 10000000" by (rule zdiv_mono1) simp
    with True show ?thesis by simp
  next
    case False
    then have "sec + 1 \<le> sec'" using assms(3,8,9) by linarith
    then show ?thesis using f by linarith
  qed
  moreover have "m - 900 \<le> m div 10" "m div 10 \<le> m" "m div 10 = m \<longleftrightarrow> m = 0" using m by auto
  ultimately show ?thesis unfolding v m_def [symmetric] using m by auto
qed

theorem hs_millis_lag_witness:
  "uint (timespec_millis 5 999000000) = 5099 \<and> uint (timespec_millis 5 999000000) \<noteq> 5999"
  using hs_millis_lag [of 5 999000000 5 999000000] timespec_millis_value [of 5 999000000] by simp

section \<open>Opening and closing\<close>

text \<open>
  \<open>open_posix_device\<close> returns however often \<open>open\<close> is interrupted. It succeeds with one more
  reference on the device, held by the handle, or fails with one of the error codes, no handle, and
  every reference given back; a failing \<open>open\<close> is reported under the code of its error number.
\<close>

theorem posix_open_outcome:
  assumes "finite_interrupts os \<mu>" and "usable s dev d" and "d_path d = Some path"
  shows "\<exists>r ho s'. open_posix_device apple os mem dev s = Some (r, ho, s') \<and> lib_frame s s' \<and>
     (case ho of
        Some h \<Rightarrow> r = 0 \<and> ph_dev h = dev \<and> devs s' = (devs s)(dev \<mapsto> d\<lparr>refcount := refcount d + 1\<rparr>)
      | None \<Rightarrow> (\<exists>e. r = err_val e) \<and> devs s' = devs s) \<and>
     (\<forall>e. mem \<and> fst (os_open os path [O_RDWR, O_CLOEXEC, O_NOCTTY, O_NONBLOCK] (ext s)) = Inl e \<and>
        e \<notin> {EINTR, EBUSY} \<longrightarrow> r = err_val (open_code e) \<and> ho = None)"
proof -
  obtain r ho s' where run: "open_posix_device apple os mem dev s = Some (r, ho, s')"
    using open_posix_device_returns [OF assms(1,2)] by blast
  have "r = err_val (open_code e) \<and> ho = None"
    if e: "mem" "fst (os_open os path [O_RDWR, O_CLOEXEC, O_NOCTTY, O_NONBLOCK] (ext s)) = Inl e" "e \<notin> {EINTR, EBUSY}" for e
  proof -
    let ?fl = "[O_RDWR, O_CLOEXEC, O_NOCTTY, O_NONBLOCK]"
    let ?s1 = "s\<lparr>devs := (devs s)(dev \<mapsto> d\<lparr>refcount := refcount d + 1\<rparr>)\<rparr>"
    let ?s2 = "?s1\<lparr>ext := snd (os_open os path ?fl (ext s))\<rparr>"
    have "hs_device_ref dev s = Some (dev, ?s1)" using assms(2) by (simp add: usable_def hs_device_ref_run)
    moreover have "open_retry apple os path ?fl 4 ?s1 = Some (Inl e, ?s2)"
      using e by (subst open_retry.simps) (simp add: sys_eq)
    moreover obtain c s3 where "open_error os path e ?s2 = (c, s3)" by (cases "open_error os path e ?s2")
    moreover from this have "c = err_val (open_code e)" using open_error_code(1) [of os path e ?s2] by simp
    ultimately show ?thesis
      using run e(1) assms(2,3) by (auto simp: open_posix_device_def elim!: bind_eq_SomeE)
  qed
  with run show ?thesis
    by (cases rule: open_posix_device_cases [OF assms(2) run]) auto
qed

theorem posix_open_outcome_witness:
  "\<exists>r ho s'. open_posix_device False ex_os True 5 (ex_world 4) = Some (r, ho, s') \<and>
     (ho = None \<longrightarrow> devs s' = devs (ex_world 4))"
proof -
  obtain r ho s' where "open_posix_device False ex_os True 5 (ex_world 4) = Some (r, ho, s')"
      "case ho of
        Some h \<Rightarrow> r = 0 \<and> ph_dev h = 5 \<and> devs s' = (devs (ex_world 4))(5 \<mapsto> (ex_dev HS_DEVICE_TYPE_SERIAL
          Hs_posix_device_vtable)\<lparr>refcount := refcount (ex_dev HS_DEVICE_TYPE_SERIAL Hs_posix_device_vtable) + 1\<rparr>)
      | None \<Rightarrow> (\<exists>e. r = err_val e) \<and> devs s' = devs (ex_world 4)"
    using posix_open_outcome [OF ex_finite ex_usable(1), of "''/dev/x''" False True 4] by auto
  then show ?thesis by (cases ho) auto
qed



section \<open>Serial ports\<close>

text \<open>
  \<open>hs_serial_set_attributes\<close> passes to \<open>tcsetattr\<close> the settings it was asked for, each in its own
  bits: the character size, parity, stop bits, flow control and hang-up behaviour of the flags, the
  speed in both directions, and one byte at a time without a timer; it fails an assertion exactly on
  an unknown rate or a contradictory flag field.
\<close>

theorem serial_settings_exact:
  assumes "serial_handle h s = Some d" and "fst (os_tcgetattr os (ph_fd h) (ext s)) = Inr tio"
  shows "(hs_serial_set_attributes os h rate flags s = None \<longleftrightarrow>
        baud_constant rate = None \<or> parity_bits flags = None \<or> flow_bits flags = None) \<and>
     (\<forall>tio'. new_settings rate flags tio = Some tio' \<longrightarrow>
        c_cflag tio' AND CSIZE = csize_bits flags \<and>
        Some (c_cflag tio' AND (PARENB OR PARODD)) = parity_bits flags \<and>
        c_cflag tio' AND CSTOPB = (if flags AND HS_SERIAL_STOP_2BITS = 0 then 0 else CSTOPB) \<and>
        Some (c_cflag tio' AND CRTSCTS, c_iflag tio' AND (IXON OR IXOFF)) = flow_bits flags \<and>
        c_cflag tio' AND HUPCL = (if flags AND HS_SERIAL_CLOSE_NOHUP = 0 then HUPCL else 0) \<and>
        c_vmin tio' = 1 \<and> c_vtime tio' = 0 \<and>
        Some (c_ispeed tio') = baud_constant rate \<and> c_ospeed tio' = c_ispeed tio' \<and>
        (let (x, w) = os_tcsetattr os (ph_fd h) tio' (snd (os_tcgetattr os (ph_fd h) (ext s))) in
         x = Inr () \<longrightarrow> hs_serial_set_attributes os h rate flags s = Some (0, s\<lparr>ext := w\<rparr>)))"
proof -
  let ?s1 = "s\<lparr>ext := snd (os_tcgetattr os (ph_fd h) (ext s))\<rparr>"
  have get: "sys (os_tcgetattr os (ph_fd h)) s = (Inr tio, ?s1)" by (simp add: sys_eq assms(2))
  have run: "hs_serial_set_attributes os h rate flags s = (new_settings rate flags tio \<bind> (\<lambda>tio.
      case sys (os_tcsetattr os (ph_fd h) tio) ?s1 of
        (Inl e, s) \<Rightarrow> Some (fail_with HS_ERROR_SYSTEM
          (Some (''Unable to change serial port settings: '' @ os_strerror os e)) s)
      | (Inr _, s) \<Rightarrow> Some (0, s)))"
    by (simp add: hs_serial_set_attributes_def assms(1) get)
  then have none: "hs_serial_set_attributes os h rate flags s = None \<longleftrightarrow> new_settings rate flags tio = None"
    by (cases "new_settings rate flags tio") (auto split: sum.splits prod.splits)
  have written: "let (x, w) = os_tcsetattr os (ph_fd h) tio' (snd (os_tcgetattr os (ph_fd h) (ext s))) in
      x = Inr () \<longrightarrow> hs_serial_set_attributes os h rate flags s = Some (0, s\<lparr>ext := w\<rparr>)"
    if "new_settings rate flags tio = Some tio'" for tio'
    using that by (auto simp: run sys_eq split: prod.splits)
  show ?thesis
  proof (rule conjI [OF none [unfolded new_settings_defined]], intro allI impI)
    fix tio' assume t: "new_settings rate flags tio = Some tio'"
    note f = new_settings_fields [OF t]
    from f(7) have "c_vmin tio' = 1" "c_vtime tio' = 0" "Some (c_ispeed tio') = baud_constant rate"
      "c_ospeed tio' = c_ispeed tio'" by blast+
    note g = this
    show "c_cflag tio' AND CSIZE = csize_bits flags \<and>
        Some (c_cflag tio' AND (PARENB OR PARODD)) = parity_bits flags \<and>
        c_cflag tio' AND CSTOPB = (if flags AND HS_SERIAL_STOP_2BITS = 0 then 0 else CSTOPB) \<and>
        Some (c_cflag tio' AND CRTSCTS, c_iflag tio' AND (IXON OR IXOFF)) = flow_bits flags \<and>
        c_cflag tio' AND HUPCL = (if flags AND HS_SERIAL_CLOSE_NOHUP = 0 then HUPCL else 0) \<and>
        c_vmin tio' = 1 \<and> c_vtime tio' = 0 \<and>
        Some (c_ispeed tio') = baud_constant rate \<and> c_ospeed tio' = c_ispeed tio' \<and>
        (let (x, w) = os_tcsetattr os (ph_fd h) tio' (snd (os_tcgetattr os (ph_fd h) (ext s))) in
         x = Inr () \<longrightarrow> hs_serial_set_attributes os h rate flags s = Some (0, s\<lparr>ext := w\<rparr>))"
      by (intro conjI f(1-5) g written [OF t])
  qed
qed

theorem serial_settings_exact_witness:
  "\<exists>s'. hs_serial_set_attributes ex_os \<lparr>ph_dev = 5, ph_fd = 3\<rparr> 9600 (HS_SERIAL_PARITY_EVEN OR HS_SERIAL_CSIZE_7BITS)
     (ex_world 0) = Some (0, s')"
proof -
  have h: "serial_handle \<lparr>ph_dev = 5, ph_fd = 3\<rparr> (ex_world 0) =
      Some (ex_dev HS_DEVICE_TYPE_SERIAL Hs_posix_device_vtable)" by (simp add: serial_handle_def)
  have g: "fst (os_tcgetattr ex_os (ph_fd \<lparr>ph_dev = 5, ph_fd = 3\<rparr>) (ext (ex_world 0))) = Inr ex_termios" by simp
  let ?fl = "HS_SERIAL_PARITY_EVEN OR HS_SERIAL_CSIZE_7BITS"
  have def: "baud_constant 9600 \<noteq> None" "parity_bits ?fl \<noteq> None" "flow_bits ?fl \<noteq> None"
    by (simp_all add: baud_constant_def parity_bits_def flow_bits_def serial_flags)
  note spec = serial_settings_exact [OF h g, of 9600 ?fl]
  from spec def have "hs_serial_set_attributes ex_os \<lparr>ph_dev = 5, ph_fd = 3\<rparr> 9600 ?fl (ex_world 0) \<noteq> None" by blast
  moreover from this obtain tio' where "new_settings 9600 ?fl ex_termios = Some tio'"
    by (auto simp: hs_serial_set_attributes_def h sys_eq elim: bind_eq_SomeE)
  ultimately show ?thesis using spec by simp
qed

text \<open>
  \<open>hs_serial_read\<close> returns, and never writes outside the \<open>size\<close> bytes it is given: the bytes that
  arrived are at the start of the buffer, their number is the result, the rest of the buffer is
  untouched; a timeout gives 0 and an error one of two codes, with the buffer as it was.
\<close>

theorem serial_read_outcome:
  assumes "finite_interrupts os \<mu>" and "clock_works os" and "read_ok os"
    and "serial_handle h s = Some d" and "d_path d \<noteq> None" and "n \<noteq> 0" and "n \<le> length buf"
  shows "\<exists>r ds s'. hs_serial_read os h buf n timeout s = Some (r, ds @ drop (length ds) buf, s') \<and>
     io_frame s s' \<and> length ds \<le> n \<and>
     (r = int (length ds) \<or> ds = [] \<and> r \<in> {err_val HS_ERROR_IO, err_val HS_ERROR_SYSTEM})"
  using assms by (rule hs_serial_read_run)

theorem serial_read_outcome_witness:
  "\<exists>r ds s'. hs_serial_read ex_os \<lparr>ph_dev = 5, ph_fd = 3\<rparr> [9, 9, 9, 9] 2 50 (ex_world 3) =
     Some (r, ds @ drop (length ds) [9, 9, 9, 9], s') \<and> length ds \<le> 2"
proof -
  have h: "serial_handle \<lparr>ph_dev = 5, ph_fd = 3\<rparr> (ex_world 3) =
      Some (ex_dev HS_DEVICE_TYPE_SERIAL Hs_posix_device_vtable)" by (simp add: serial_handle_def)
  from serial_read_outcome [OF ex_finite ex_clock ex_read h, of 2 "[9, 9, 9, 9]" 50] show ?thesis by auto
qed

text \<open>
  \<open>hs_serial_write\<close> returns: 0 for an empty buffer, without a call to the system, and otherwise what
  \<open>write\<close> returned for the first \<open>size\<close> bytes of the buffer or one of two error codes.
\<close>

theorem serial_write_outcome:
  assumes "finite_interrupts os \<mu>" and "poll_blocks os"
    and "serial_handle h s = Some d" and "d_path d \<noteq> None" and "n \<le> length buf"
  shows "(n = 0 \<longrightarrow> hs_serial_write os h buf n s = Some (0, s)) \<and>
     (\<exists>r s'. hs_serial_write os h buf n s = Some (r, s') \<and> io_frame s s' \<and>
       (r = 0 \<or> r \<in> {err_val HS_ERROR_IO, err_val HS_ERROR_SYSTEM} \<or>
        (\<exists>w. fst (os_write os (ph_fd h) (take n buf) w) = Inr r)))"
  using hs_serial_write_run [OF assms] assms(3) by (simp add: hs_serial_write_def)

theorem serial_write_outcome_witness:
  "hs_serial_write ex_os \<lparr>ph_dev = 5, ph_fd = 3\<rparr> [1, 2] 0 (ex_world 3) = Some (0, ex_world 3) \<and>
   (\<exists>r s'. hs_serial_write ex_os \<lparr>ph_dev = 5, ph_fd = 3\<rparr> [1, 2] 2 (ex_world 3) = Some (r, s'))"
proof -
  have h: "serial_handle \<lparr>ph_dev = 5, ph_fd = 3\<rparr> (ex_world 3) =
      Some (ex_dev HS_DEVICE_TYPE_SERIAL Hs_posix_device_vtable)" by (simp add: serial_handle_def)
  have b: "poll_blocks ex_os" by (auto simp: poll_blocks_def split: if_splits)
  from serial_write_outcome [OF ex_finite b h, of 0 "[1, 2]"] serial_write_outcome [OF ex_finite b h, of 2 "[1, 2]"]
  show ?thesis by auto
qed

end
