(* ===== verification/HidLinux.thy ===== *)
theory HidLinux
  imports SerialPosix
begin

text \<open>
  Model of \<open>src/hid_linux.c\<close>, the hidraw driver and the HID input and output functions of Linux.
  The parser of report descriptors is shown to stay inside the descriptor and to compute what a
  parser over the sequence of items computes; the driver is an interpretation of the device
  contract; reads and feature reports keep to the caller's buffer.
\<close>

unbundle bit_operations_syntax

record hid_handle =
  lh_dev :: addr
  lh_fd :: int
  lh_numbered :: bool
  lh_usage_page :: uint16
  lh_usage :: uint16
  lh_buf :: "uint8 list"

text \<open>The static variables of \<open>hs_linux_version\<close> and \<open>detect_kernel26_byte_bug\<close>.\<close>

record linux_statics =
  st_version :: uint32
  st_init :: bool
  st_bug :: bool

definition detect_kernel26_byte_bug :: "'w posix_os \<Rightarrow> linux_statics \<Rightarrow> bool \<times> linux_statics" where
  "detect_kernel26_byte_bug os st =
     (if st_init st then (st_bug st, st)
      else
        (let v = hs_linux_version os (st_version st);
             bug = (v \<ge> 20628000 \<and> hs_linux_version os v < 20634000) in
         (bug, st\<lparr>st_version := v, st_bug := bug, st_init := True\<rparr>)))"

section \<open>The report descriptor\<close>

text \<open>The little-endian value of a short item of \<open>sz\<close> bytes at offset \<open>i\<close>.\<close>

definition item_data :: "uint8 list \<Rightarrow> nat \<Rightarrow> nat \<Rightarrow> uint32 option" where
  "item_data val i sz =
     (if sz = 1 then do {
        a \<leftarrow> buf_read val (i + 1);
        Some (ucast a)
      }
      else if sz = 2 then do {
        b \<leftarrow> buf_read val (i + 2);
        a \<leftarrow> buf_read val (i + 1);
        Some (push_bit 8 (ucast b) OR ucast a)
      }
      else if sz = 4 then do {
        d \<leftarrow> buf_read val (i + 4);
        c \<leftarrow> buf_read val (i + 3);
        b \<leftarrow> buf_read val (i + 2);
        a \<leftarrow> buf_read val (i + 1);
        Some (((push_bit 24 (ucast d) OR push_bit 16 (ucast c)) OR push_bit 8 (ucast b)) OR ucast a)
      }
      else Some 0)"

text \<open>The switch on the type of a short item, on the collection depth and the handle.\<close>

definition hid_item :: "uint8 \<Rightarrow> uint32 \<Rightarrow> uint32 \<times> hid_handle \<Rightarrow> uint32 \<times> hid_handle" where
  "hid_item type data dh =
     (case dh of (depth, h) \<Rightarrow>
        if type = 0xA0 then (depth + 1, h)
        else if type = 0xC0 then (depth - 1, h)
        else if type = 0x84 then (depth, h\<lparr>lh_numbered := True\<rparr>)
        else if type = 0x04 then (depth, if depth = 0 then h\<lparr>lh_usage_page := ucast data\<rparr> else h)
        else if type = 0x08 then (depth, if depth = 0 then h\<lparr>lh_usage := ucast data\<rparr> else h)
        else (depth, h))"

definition item_size :: "uint8 \<Rightarrow> nat" where
  "item_size type = (if type AND 3 = 3 then 4 else unat (type AND 3))"

text \<open>
  The loop of \<open>parse_descriptor\<close> at offset \<open>i\<close>; \<open>sz\<close> is the variable \<open>size\<close>, which keeps its value
  between rounds. The result is the handle and whether the descriptor was well formed.
\<close>

function parse_items ::
  "uint8 list \<Rightarrow> nat \<Rightarrow> nat \<Rightarrow> nat \<Rightarrow> uint32 \<times> hid_handle \<Rightarrow> (hid_handle \<times> bool) option" where
  "parse_items val rsize i sz dh =
     (if i < rsize then do {
        type \<leftarrow> buf_read val i;
        if type = 0xFE then do {
          sz \<leftarrow> (if i + 1 < rsize then do { n \<leftarrow> buf_read val (i + 1); Some (unat n + 2) } else Some sz);
          parse_items val rsize (i + (sz + 1)) sz dh
        }
        else if i + item_size type \<ge> rsize then Some (snd dh, False)
        else do {
          data \<leftarrow> item_data val i (item_size type);
          parse_items val rsize (i + (item_size type + 1)) (item_size type) (hid_item (type AND 0xFC) data dh)
        }
      }
      else Some (snd dh, True))"
  by pat_completeness auto
termination
  by (relation "measure (\<lambda>(val, rsize, i, sz, dh). rsize - i)") auto

declare parse_items.simps [simp del]

definition parse_descriptor ::
  "string \<Rightarrow> hid_handle \<Rightarrow> uint32 \<Rightarrow> uint8 list \<Rightarrow> 'w hs_state \<Rightarrow> (hid_handle \<times> 'w hs_state) option" where
  "parse_descriptor path h rsize val s = do {
     (h, ok) \<leftarrow> parse_items val (unat rsize) 0 0 (0, h);
     Some (h, if ok then s
              else log_msg HS_LOG_WARNING (''Invalid HID descriptor for device '' @ sq path) s)
   }"

section \<open>The driver\<close>

definition close_hidraw_device :: "'w posix_os \<Rightarrow> hid_handle \<Rightarrow> 'w hs_state \<Rightarrow> 'w hs_state option" where
  "close_hidraw_device os h s = hs_device_unref (lh_dev h) (sys_do (os_close os (lh_fd h)) s)"

definition zero_hid_handle :: hid_handle where
  "zero_hid_handle = \<lparr>lh_dev = NULL, lh_fd = 0, lh_numbered = False, lh_usage_page = 0, lh_usage = 0, lh_buf = []\<rparr>"

text \<open>\<open>error:\<close> closes the handle and returns the code.\<close>

definition hidraw_fail ::
  "'w posix_os \<Rightarrow> hid_handle \<Rightarrow> int \<times> 'w hs_state \<Rightarrow> (int \<times> hid_handle option \<times> 'w hs_state) option" where
  "hidraw_fail os h rs = do {
     s \<leftarrow> close_hidraw_device os h (snd rs);
     Some (fst rs, None, s)
   }"

text \<open>What \<open>open_hidraw_device\<close> does once \<open>open\<close> succeeded: get the report descriptor and parse it.\<close>

definition hidraw_setup ::
  "'w posix_os \<Rightarrow> string \<Rightarrow> hid_handle \<Rightarrow> 'w hs_state \<Rightarrow> (int \<times> hid_handle option \<times> 'w hs_state) option" where
  "hidraw_setup os path h s =
     (case sys (os_hidiocgrdescsize os (lh_fd h)) s of
        (Inl e, s) \<Rightarrow> hidraw_fail os h (fail_with HS_ERROR_SYSTEM
          (Some (''ioctl('' @ sq path @ '', HIDIOCGRDESCSIZE) failed: '' @ os_strerror os e)) s)
      | (Inr n, s) \<Rightarrow> (case sys (os_hidiocgrdesc os (lh_fd h) (of_int n)) s of
          (Inl e, s) \<Rightarrow> hidraw_fail os h (fail_with HS_ERROR_SYSTEM
            (Some (''ioctl('' @ sq path @ '', HIDIOCGRDESC) failed: '' @ os_strerror os e)) s)
        | (Inr val, s) \<Rightarrow> do {
            (h, s) \<leftarrow> parse_descriptor path h (of_int n) val s;
            Some (0, Some h, s)
          }))"

definition open_hidraw_device ::
  "'w posix_os \<Rightarrow> bool \<Rightarrow> addr \<Rightarrow> 'w hs_state \<Rightarrow> (int \<times> hid_handle option \<times> 'w hs_state) option" where
  "open_hidraw_device os mem dev s =
     (if \<not> mem then (let (r, s) = fail_with HS_ERROR_MEMORY None s in Some (r, None, s))
      else do {
        (p, s) \<leftarrow> hs_device_ref dev s;
        d \<leftarrow> devs s dev;
        path \<leftarrow> d_path d;
        let h = zero_hid_handle\<lparr>lh_dev := p\<rparr>;
        (fd, s) \<leftarrow> open_retry False os path [O_RDWR, O_CLOEXEC, O_NONBLOCK] 0 s;
        case fd of
          Inl e \<Rightarrow> hidraw_fail os (h\<lparr>lh_fd := -1\<rparr>) (open_error os path e s)
        | Inr fd \<Rightarrow> hidraw_setup os path (h\<lparr>lh_fd := fd\<rparr>) s
      })"

definition get_hidraw_descriptor :: "hid_handle \<Rightarrow> int" where
  "get_hidraw_descriptor h = lh_fd h"

definition hs_linux_hid_vtable :: "'w posix_os \<Rightarrow> bool \<Rightarrow> ('w, hid_handle) device_vtable" where
  "hs_linux_hid_vtable os mem =
     \<lparr>vt_open = open_hidraw_device os mem, vt_close = close_hidraw_device os,
      vt_get_descriptor = get_hidraw_descriptor\<rparr>"

section \<open>Reports\<close>

definition hid_device :: "addr \<Rightarrow> 'w hs_state \<Rightarrow> hs_device option" where
  "hid_device dev s = do {
     d \<leftarrow> devs s dev;
     c_assert (d_type d = HS_DEVICE_TYPE_HID);
     Some d
   }"

record hs_hid_descriptor =
  hd_usage_page :: uint16
  hd_usage :: uint16

definition hs_hid_parse_descriptor ::
  "hid_handle \<Rightarrow> 'w hs_state \<Rightarrow> (int \<times> hs_hid_descriptor) option" where
  "hs_hid_parse_descriptor h s = do {
     d \<leftarrow> hid_device (lh_dev h) s;
     Some (0, \<lparr>hd_usage_page = lh_usage_page h, hd_usage = lh_usage h\<rparr>)
   }"

text \<open>
  The three ways in which \<open>hs_hid_read\<close> reads, each with the switch on \<open>errno\<close> that follows: a report
  with its number, into the caller's buffer; an unnumbered report, behind a zero byte; and, with the
  kernel bug, a report that has an extra byte in front, through the intermediate buffer of the
  handle. \<open>mem\<close> is the result of \<open>malloc\<close> for that buffer, whose length is \<open>buf_size\<close>; the bytes it
  starts with do not matter.
\<close>

definition read_numbered ::
  "'w posix_os \<Rightarrow> int \<Rightarrow> string \<Rightarrow> uint8 list \<Rightarrow> nat \<Rightarrow> 'w hs_state \<Rightarrow> (int \<times> uint8 list \<times> 'w hs_state) option"
where
  "read_numbered os fd path buf n s =
     (case sys (os_read os fd n) s of
        (Inl e, s) \<Rightarrow> (let (r, s) = read_error os path e s in Some (r, buf, s))
      | (Inr ds, s) \<Rightarrow> do {
          buf \<leftarrow> buf_write 0 ds buf;
          Some (int (length ds), buf, s)
        })"

definition read_unnumbered ::
  "'w posix_os \<Rightarrow> int \<Rightarrow> string \<Rightarrow> uint8 list \<Rightarrow> nat \<Rightarrow> 'w hs_state \<Rightarrow> (int \<times> uint8 list \<times> 'w hs_state) option"
where
  "read_unnumbered os fd path buf n s =
     (case sys (os_read os fd (n - 1)) s of
        (Inl e, s) \<Rightarrow> (let (r, s) = read_error os path e s in Some (r, buf, s))
      | (Inr ds, s) \<Rightarrow>
          (if ds = [] then Some (0, buf, s)
           else do {
             buf \<leftarrow> buf_write 1 ds buf;
             buf \<leftarrow> buf_write 0 [0] buf;
             Some (int (length ds) + 1, buf, s)
           }))"

definition read_workaround ::
  "'w posix_os \<Rightarrow> bool \<Rightarrow> string \<Rightarrow> hid_handle \<Rightarrow> uint8 list \<Rightarrow> nat \<Rightarrow> 'w hs_state
     \<Rightarrow> (int \<times> uint8 list \<times> hid_handle \<times> 'w hs_state) option" where
  "read_workaround os mem path h buf n s =
     (if n + 1 > length (lh_buf h) \<and> \<not> mem
      then (let (r, s) = fail_with HS_ERROR_MEMORY None s in Some (r, buf, h\<lparr>lh_buf := []\<rparr>, s))
      else do {
        let h = (if n + 1 > length (lh_buf h) then h\<lparr>lh_buf := replicate (n + 1) 0\<rparr> else h);
        case sys (os_read os (lh_fd h) (n + 1)) s of
          (Inl e, s) \<Rightarrow> (let (r, s) = read_error os path e s in Some (r, buf, h, s))
        | (Inr ds, s) \<Rightarrow> do {
            hb \<leftarrow> buf_write 0 ds (lh_buf h);
            let h = h\<lparr>lh_buf := hb\<rparr>;
            if ds = [] then Some (0, buf, h, s)
            else do {
              buf \<leftarrow> buf_write 0 (take (length ds - 1) (drop 1 hb)) buf;
              Some (int (length ds) - 1, buf, h, s)
            }
          }
      })"

text \<open>
  \<open>hs_hid_read\<close>: the result is the returned value with the caller's buffer, the handle, the static
  variables and the state.
\<close>

definition hs_hid_read ::
  "'w posix_os \<Rightarrow> bool \<Rightarrow> linux_statics \<Rightarrow> hid_handle \<Rightarrow> uint8 list \<Rightarrow> nat \<Rightarrow> int \<Rightarrow> 'w hs_state
     \<Rightarrow> (int \<times> uint8 list \<times> hid_handle \<times> linux_statics \<times> 'w hs_state) option" where
  "hs_hid_read os mem st h buf n timeout s = do {
     d \<leftarrow> hid_device (lh_dev h) s;
     path \<leftarrow> d_path d;
     c_assert (n \<noteq> 0);
     (go, s) \<leftarrow> wait_input os (lh_fd h) path timeout s;
     case go of
       Inl r \<Rightarrow> Some (r, buf, h, st, s)
     | Inr _ \<Rightarrow>
         (if lh_numbered h then
            (let (bug, st) = detect_kernel26_byte_bug os st in
             if bug then do {
               (r, buf, h, s) \<leftarrow> read_workaround os mem path h buf n s;
               Some (r, buf, h, st, s)
             }
             else do {
               (r, buf, s) \<leftarrow> read_numbered os (lh_fd h) path buf n s;
               Some (r, buf, h, st, s)
             })
          else do {
            (r, buf, s) \<leftarrow> read_unnumbered os (lh_fd h) path buf n s;
            Some (r, buf, h, st, s)
          })
   }"

definition hs_hid_write ::
  "'w posix_os \<Rightarrow> hid_handle \<Rightarrow> uint8 list \<Rightarrow> nat \<Rightarrow> 'w hs_state \<Rightarrow> (int \<times> 'w hs_state) option" where
  "hs_hid_write os h buf n s = do {
     d \<leftarrow> hid_device (lh_dev h) s;
     if n < 2 then Some (0, s)
     else do {
       path \<leftarrow> d_path d;
       c_assert (n \<le> length buf);
       (r, s) \<leftarrow> retry_eintr (\<lambda>s. Some (sys (os_write os (lh_fd h) (take n buf)) s)) s;
       case r of
         Inl e \<Rightarrow> Some (write_error os ''write'' path e s)
       | Inr r \<Rightarrow> Some (r, s)
     }
   }"

text \<open>The switch on \<open>errno\<close> after a feature ioctl.\<close>

definition feature_error ::
  "'w posix_os \<Rightarrow> string \<Rightarrow> string \<Rightarrow> string \<Rightarrow> errno \<Rightarrow> 'w hs_state \<Rightarrow> int \<times> 'w hs_state" where
  "feature_error os what req path e s =
     (if e = EIO \<or> e = ENXIO
      then fail_with HS_ERROR_IO (Some (''I/O error while '' @ what @ sq path)) s
      else fail_with HS_ERROR_SYSTEM
        (Some (''ioctl('' @ sq path @ '', '' @ req @ '') failed: '' @ os_strerror os e)) s)"

definition hs_hid_get_feature_report ::
  "'w posix_os \<Rightarrow> hid_handle \<Rightarrow> uint8 \<Rightarrow> uint8 list \<Rightarrow> nat \<Rightarrow> 'w hs_state
     \<Rightarrow> (int \<times> uint8 list \<times> 'w hs_state) option" where
  "hs_hid_get_feature_report os h report_id buf n s = do {
     d \<leftarrow> hid_device (lh_dev h) s;
     path \<leftarrow> d_path d;
     c_assert (n \<noteq> 0);
     buf \<leftarrow> (if n \<ge> 2 then buf_write 1 [report_id] buf else Some buf);
     (r, s) \<leftarrow> retry_eintr (\<lambda>s. Some (sys (os_hidiocgfeature os (lh_fd h) (take (n - 1) (drop 1 buf))) s)) s;
     case r of
       Inl e \<Rightarrow> (let (r, s) = feature_error os ''reading from '' ''HIDIOCGFEATURE'' path e s in Some (r, buf, s))
     | Inr ds \<Rightarrow> do {
         buf \<leftarrow> buf_write 1 ds buf;
         buf \<leftarrow> buf_write 0 [report_id] buf;
         Some (int (length ds) + 1, buf, s)
       }
   }"

definition hs_hid_send_feature_report ::
  "'w posix_os \<Rightarrow> hid_handle \<Rightarrow> uint8 list \<Rightarrow> nat \<Rightarrow> 'w hs_state \<Rightarrow> (int \<times> 'w hs_state) option" where
  "hs_hid_send_feature_report os h buf n s = do {
     d \<leftarrow> hid_device (lh_dev h) s;
     if n < 2 then Some (0, s)
     else do {
       path \<leftarrow> d_path d;
       c_assert (n \<le> length buf);
       (r, s) \<leftarrow> retry_eintr (\<lambda>s. Some (sys (os_hidiocsfeature os (lh_fd h) (take n buf)) s)) s;
       case r of
         Inl e \<Rightarrow> Some (feature_error os ''writing to '' ''HIDIOCSFEATURE'' path e s)
       | Inr r \<Rightarrow> Some (r, s)
     }
   }"

section \<open>The items of a descriptor\<close>

text \<open>Reference: the sequence of short items of a descriptor, and whether it is well formed.\<close>

definition le_value :: "uint8 list \<Rightarrow> uint32" where
  "le_value bs = foldr (\<lambda>b v. push_bit 8 v OR ucast b) bs 0"

function hid_items :: "uint8 list \<Rightarrow> (uint8 \<times> uint32) list \<times> bool" where
  "hid_items [] = ([], True)"
| "hid_items (b # bs) =
     (if b = 0xFE then hid_items (drop (unat (hd (bs @ [0])) + 2) bs)
      else if length bs < item_size b then ([], False)
      else (case hid_items (drop (item_size b) bs) of
         (its, ok) \<Rightarrow> ((b AND 0xFC, le_value (take (item_size b) bs)) # its, ok)))"
  by pat_completeness auto
termination
  by (relation "measure length") auto

lemma item_size_cases: "item_size b \<in> {0, 1, 2, 4}"
proof -
  have "b AND 3 \<le> 3" by (rule word_and_le1)
  then have "unat (b AND 3) \<le> 3" by (simp add: word_le_nat_alt)
  then consider "unat (b AND 3) = 0" | "unat (b AND 3) = 1" | "unat (b AND 3) = 2" | "unat (b AND 3) = 3"
    by linarith
  then show ?thesis
  proof cases
    case 4
    then have "unat (b AND 3) = unat (3 :: uint8)" by simp
    then have "b AND 3 = 3" by (simp only: word_unat_eq_iff)
    then show ?thesis by (simp add: item_size_def)
  qed (auto simp: item_size_def)
qed

lemma le_value_2: "le_value [a, b] = push_bit 8 (ucast b) OR ucast a"
  by (simp add: le_value_def)

lemma le_value_4:
  "le_value [a, b, c, d] =
     ((push_bit 24 (ucast d) OR push_bit 16 (ucast c)) OR push_bit 8 (ucast b)) OR ucast a"
  by (simp add: le_value_def push_bit_or)

lemma item_data_value:
  assumes "i + sz < length val" and "sz \<in> {0, 1, 2, 4}"
  shows "item_data val i sz = Some (le_value (take sz (drop (i + 1) val)))"
proof -
  have "take (Suc k) (drop j val) = val ! j # take k (drop (Suc j) val)" if "j < length val" for j k
    using that by (simp add: Cons_nth_drop_Suc [symmetric])
  then show ?thesis
    using assms
    by (auto simp: item_data_def buf_read_def le_value_2 le_value_4 numeral_eq_Suc) (simp_all add: le_value_def)
qed

text \<open>The parser visits the items in order, and never reads outside the descriptor.\<close>

lemma parse_items_run:
  assumes "rsize \<le> length val"
  shows "parse_items val rsize i sz dh =
     (case hid_items (drop i (take rsize val)) of
        (its, ok) \<Rightarrow> Some (snd (foldl (\<lambda>dh it. hid_item (fst it) (snd it) dh) dh its), ok))"
  using assms
proof (induction val rsize i sz dh rule: parse_items.induct)
  case (1 val rsize i sz dh)
  let ?v = "take rsize val"
  show ?case
  proof (cases "i < rsize")
    case False
    then show ?thesis by (simp add: parse_items.simps [of val rsize i])
  next
    case True
    let ?t = "val ! i"
    have rd: "buf_read val i = Some ?t" using True "1.prems" by (simp add: buf_read_def)
    have cons: "drop i ?v = ?t # drop (Suc i) ?v"
      using True "1.prems" by (simp add: Cons_nth_drop_Suc [symmetric])
    have len: "length (drop (Suc i) ?v) = rsize - Suc i" using "1.prems" by simp
    show ?thesis
    proof (cases "?t = 0xFE")
      case long: True
      define n where "n = (if i + 1 < rsize then unat (val ! (i + 1)) + 2 else sz)"
      have n: "(if i + 1 < rsize then do { n \<leftarrow> buf_read val (i + 1); Some (unat n + 2) } else Some sz) = Some n"
        using "1.prems" by (simp add: n_def buf_read_def)
      have "hid_items (drop i ?v) = hid_items (drop (i + (n + 1)) ?v)"
      proof (cases "i + 1 < rsize")
        case True
        then have "hd (drop (Suc i) ?v @ [0]) = val ! (i + 1)"
          using "1.prems" by (simp add: hd_append hd_drop_conv_nth)
        with True long cons show ?thesis by (simp add: n_def add.commute add.left_commute)
      next
        case False
        with True have "drop (Suc i) ?v = []" "drop (i + (n + 1)) ?v = []" by simp_all
        with long cons show ?thesis by simp
      qed
      moreover have "parse_items val rsize i sz dh = parse_items val rsize (i + (n + 1)) n dh"
        using True rd long n by (simp add: parse_items.simps [of val rsize i])
      ultimately show ?thesis using "1.IH"(1) [OF True rd long n "1.prems"] by simp
    next
      case short: False
      let ?z = "item_size ?t"
      show ?thesis
      proof (cases "i + ?z \<ge> rsize")
        case bad: True
        then have "length (drop (Suc i) ?v) < ?z" using len True by linarith
        with bad True rd short cons show ?thesis by (simp add: parse_items.simps [of val rsize i])
      next
        case ok: False
        have z: "?z \<in> {0, 1, 2, 4}" by (rule item_size_cases)
        have data: "item_data val i ?z = Some (le_value (take ?z (drop (i + 1) val)))"
          using ok "1.prems" z by (intro item_data_value) simp_all
        have tk: "take ?z (drop (Suc i) ?v) = take ?z (drop (i + 1) val)"
          using ok by (simp add: drop_take min_def)
        have "\<not> length (drop (Suc i) ?v) < ?z" using len ok by linarith
        then have "hid_items (drop i ?v) = (case hid_items (drop (i + (?z + 1)) ?v) of
            (its, b) \<Rightarrow> ((?t AND 0xFC, le_value (take ?z (drop (i + 1) val))) # its, b))"
          using short cons tk by (simp add: add.commute add.left_commute)
        moreover have "parse_items val rsize i sz dh = parse_items val rsize (i + (?z + 1)) ?z
            (hid_item (?t AND 0xFC) (le_value (take ?z (drop (i + 1) val))) dh)"
          using True rd short ok data by (simp add: parse_items.simps [of val rsize i])
        ultimately show ?thesis
          using "1.IH"(2) [OF True rd short ok data "1.prems"] by (simp split: prod.splits)
      qed
    qed
  qed
qed

text \<open>What the handle knows afterwards, in terms of the items: numbered reports, and the usage at depth 0.\<close>

lemma hid_item_fields:
  "lh_dev (snd (hid_item t v dh)) = lh_dev (snd dh)" "lh_fd (snd (hid_item t v dh)) = lh_fd (snd dh)"
  "lh_buf (snd (hid_item t v dh)) = lh_buf (snd dh)"
  "lh_numbered (snd (hid_item t v dh)) = (lh_numbered (snd dh) \<or> t = 0x84)"
  by (auto simp: hid_item_def split: prod.splits)

lemma foldl_hid_item:
  "lh_dev (snd (foldl (\<lambda>dh it. hid_item (fst it) (snd it) dh) dh its)) = lh_dev (snd dh)"
  "lh_fd (snd (foldl (\<lambda>dh it. hid_item (fst it) (snd it) dh) dh its)) = lh_fd (snd dh)"
  "lh_buf (snd (foldl (\<lambda>dh it. hid_item (fst it) (snd it) dh) dh its)) = lh_buf (snd dh)"
  "lh_numbered (snd (foldl (\<lambda>dh it. hid_item (fst it) (snd it) dh) dh its)) =
     (lh_numbered (snd dh) \<or> 0x84 \<in> fst ` set its)"
  by (induction its arbitrary: dh) (auto simp: hid_item_fields)

lemma parse_descriptor_run:
  assumes "unat rsize \<le> length val"
  shows "\<exists>h' s'. parse_descriptor path h rsize val s = Some (h', s') \<and> io_frame s s' \<and>
     lh_dev h' = lh_dev h \<and> lh_fd h' = lh_fd h \<and> lh_buf h' = lh_buf h \<and>
     lh_numbered h' = (lh_numbered h \<or> 0x84 \<in> fst ` set (fst (hid_items (take (unat rsize) val)))) \<and>
     logs s' = (if snd (hid_items (take (unat rsize) val)) then logs s
                else hs_log HS_LOG_WARNING (''Invalid HID descriptor for device '' @ sq path) (logs s))"
  using parse_items_run [OF assms, of 0 0 "(0, h)"]
  by (auto simp: parse_descriptor_def foldl_hid_item log_msg_def io_frame_def split: prod.splits)

section \<open>The driver is one\<close>

text \<open>\<open>HIDIOCGRDESC\<close> fills in as many bytes as it is asked for.\<close>

definition rdesc_ok :: "'w posix_os \<Rightarrow> bool" where
  "rdesc_ok os \<longleftrightarrow> (\<forall>fd n w ds. fst (os_hidiocgrdesc os fd n w) = Inr ds \<longrightarrow> unat n \<le> length ds)"

lemma hidraw_fail_run:
  assumes u: "usable s dev d" and h: "lh_dev h = dev" and r: "fst rs < 0"
    and s1: "devs (snd rs) = (devs s)(dev \<mapsto> d\<lparr>refcount := refcount d + 1\<rparr>)" "lib_frame s (snd rs)"
  shows "\<exists>r s'. hidraw_fail os h rs = Some (r, None, s') \<and> r < 0 \<and> lib_frame s s' \<and> devs s' = devs s"
proof -
  obtain s' where "hs_device_unref dev (sys_do (os_close os (lh_fd h)) (snd rs)) = Some s'" "devs s' = devs s" "lib_frame s s'"
    using unref_after_ref [OF u, of "sys_do (os_close os (lh_fd h)) (snd rs)"] s1 by (auto simp: sys_do_eq)
  with h r show ?thesis by (simp add: hidraw_fail_def close_hidraw_device_def)
qed

lemma fail_with_parts: "fst (fail_with e m s) < 0" "devs (snd (fail_with e m s)) = devs s"
  by simp_all

lemma parse_items_fields:
  "parse_items val rsize i sz dh = Some (h, ok) \<Longrightarrow>
     lh_dev h = lh_dev (snd dh) \<and> lh_fd h = lh_fd (snd dh) \<and> lh_buf h = lh_buf (snd dh)"
proof (induction val rsize i sz dh rule: parse_items.induct)
  case (1 val rsize i sz dh)
  show ?case
  proof (cases "i < rsize")
    case False
    with "1.prems" show ?thesis by (simp add: parse_items.simps [of val rsize i])
  next
    case True
    with "1.prems" obtain t where t: "buf_read val i = Some t"
      by (auto simp: parse_items.simps [of val rsize i] elim: bind_eq_SomeE)
    let ?n = "if i + 1 < rsize then do { n \<leftarrow> buf_read val (i + 1); Some (unat n + 2) } else Some sz"
    consider "t = 0xFE" | "t \<noteq> 0xFE" "i + item_size t \<ge> rsize" | "t \<noteq> 0xFE" "\<not> i + item_size t \<ge> rsize"
      by blast
    then show ?thesis
    proof cases
      case 1
      with True t "1.prems" have "(?n \<bind> (\<lambda>n. parse_items val rsize (i + (n + 1)) n dh)) = Some (h, ok)"
        by (simp add: parse_items.simps [of val rsize i])
      then obtain n where "?n = Some n" "parse_items val rsize (i + (n + 1)) n dh = Some (h, ok)"
        by (rule bind_eq_SomeE)
      with "1.IH"(1) [OF True t 1] show ?thesis by blast
    next
      case 2
      with True t "1.prems" show ?thesis by (simp add: parse_items.simps [of val rsize i])
    next
      case 3
      with True t "1.prems" have "(item_data val i (item_size t) \<bind> (\<lambda>data.
          parse_items val rsize (i + (item_size t + 1)) (item_size t) (hid_item (t AND 0xFC) data dh))) = Some (h, ok)"
        by (simp add: parse_items.simps [of val rsize i])
      then obtain v where v: "item_data val i (item_size t) = Some v"
          "parse_items val rsize (i + (item_size t + 1)) (item_size t) (hid_item (t AND 0xFC) v dh) = Some (h, ok)"
        by (rule bind_eq_SomeE)
      from "1.IH"(2) [OF True t 3 v] show ?thesis by (simp add: hid_item_fields)
    qed
  qed
qed

lemma parse_descriptor_fields:
  "parse_descriptor path h rsize val s = Some (h', s') \<Longrightarrow>
     io_frame s s' \<and> lh_dev h' = lh_dev h \<and> lh_fd h' = lh_fd h \<and> lh_buf h' = lh_buf h"
  by (auto simp: parse_descriptor_def elim!: bind_eq_SomeE dest: parse_items_fields)

lemma hidraw_setup_result:
  assumes u: "usable s dev d" and h: "lh_dev h = dev"
    and s1: "devs s1 = (devs s)(dev \<mapsto> d\<lparr>refcount := refcount d + 1\<rparr>)" "lib_frame s s1"
    and run: "hidraw_setup os path h s1 = Some (r, ho, s')"
  shows "lib_frame s s' \<and> (case ho of None \<Rightarrow> r < 0 \<and> devs s' = devs s
      | Some h' \<Rightarrow> r = 0 \<and> lh_dev h' = dev \<and> devs s' = (devs s)(dev \<mapsto> d\<lparr>refcount := refcount d + 1\<rparr>))"
proof -
  have fail: "lib_frame s s' \<and> ho = None \<and> r < 0 \<and> devs s' = devs s"
    if "hidraw_fail os h rs = Some (r, ho, s')" "fst rs < 0" "devs (snd rs) = devs s1" "lib_frame s (snd rs)" for rs
    using that hidraw_fail_run [OF u h, of rs os] s1 by auto
  let ?s2 = "s1\<lparr>ext := snd (os_hidiocgrdescsize os (lh_fd h) (ext s1))\<rparr>"
  show ?thesis
  proof (cases "fst (os_hidiocgrdescsize os (lh_fd h) (ext s1))")
    case (Inl e)
    with run fail s1 show ?thesis by (fastforce simp: hidraw_setup_def sys_eq)
  next
    case (Inr n)
    show ?thesis
    proof (cases "fst (os_hidiocgrdesc os (lh_fd h) (of_int n) (ext ?s2))")
      case e: (Inl e)
      with run fail s1 Inr show ?thesis by (fastforce simp: hidraw_setup_def sys_eq)
    next
      case val: (Inr val)
      with run Inr obtain h' where "ho = Some h'" "r = 0"
          "parse_descriptor path h (of_int n) val
             (s1\<lparr>ext := snd (os_hidiocgrdesc os (lh_fd h) (of_int n) (ext ?s2))\<rparr>) = Some (h', s')"
        by (auto simp: hidraw_setup_def sys_eq elim!: bind_eq_SomeE)
      with parse_descriptor_fields [OF this(3)] s1 h show ?thesis
        by (auto simp: io_frame_def intro: lib_frame_trans)
    qed
  qed
qed

lemma hidraw_setup_returns:
  assumes rd: "rdesc_ok os" and u: "usable s dev d" and h: "lh_dev h = dev"
    and s1: "devs s1 = (devs s)(dev \<mapsto> d\<lparr>refcount := refcount d + 1\<rparr>)" "lib_frame s s1"
  shows "hidraw_setup os path h s1 \<noteq> None"
proof -
  have fail: "hidraw_fail os h rs \<noteq> None"
    if "fst rs < 0" "devs (snd rs) = devs s1" "lib_frame s (snd rs)" for rs
    using that hidraw_fail_run [OF u h, of rs os] s1 by auto
  have "parse_descriptor path h (of_int n) val s2 \<noteq> None"
    if "fst (os_hidiocgrdesc os (lh_fd h) (of_int n) w) = Inr val" for n val s2 w
    using parse_descriptor_run [of "of_int n" val path h s2] that rd by (force simp: rdesc_ok_def)
  note parse = this
  let ?s2 = "s1\<lparr>ext := snd (os_hidiocgrdescsize os (lh_fd h) (ext s1))\<rparr>"
  show ?thesis
  proof (cases "fst (os_hidiocgrdescsize os (lh_fd h) (ext s1))")
    case (Inl e)
    with fail s1 show ?thesis by (simp add: hidraw_setup_def sys_eq)
  next
    case (Inr n)
    show ?thesis
    proof (cases "fst (os_hidiocgrdesc os (lh_fd h) (of_int n) (ext ?s2))")
      case e: (Inl e)
      with fail s1 Inr show ?thesis by (simp add: hidraw_setup_def sys_eq)
    next
      case val: (Inr val)
      then obtain h' s' where "parse_descriptor path h (of_int n) val
          (s1\<lparr>ext := snd (os_hidiocgrdesc os (lh_fd h) (of_int n) (ext ?s2))\<rparr>) = Some (h', s')"
        using parse by fastforce
      with Inr val show ?thesis by (simp add: hidraw_setup_def sys_eq)
    qed
  qed
qed

lemma open_hidraw_device_result:
  assumes u: "usable s dev d" and run: "open_hidraw_device os mem dev s = Some (r, ho, s')"
  shows "lib_frame s s' \<and> (case ho of None \<Rightarrow> r < 0 \<and> devs s' = devs s
      | Some h' \<Rightarrow> r = 0 \<and> lh_dev h' = dev \<and> devs s' = (devs s)(dev \<mapsto> d\<lparr>refcount := refcount d + 1\<rparr>))"
proof (cases mem)
  case False
  with run show ?thesis by (auto simp: open_hidraw_device_def fail_with_eq)
next
  case True
  obtain path where path: "d_path d = Some path" using u by (auto simp: usable_def)
  let ?s1 = "s\<lparr>devs := (devs s)(dev \<mapsto> d\<lparr>refcount := refcount d + 1\<rparr>)\<rparr>"
  have ref: "hs_device_ref dev s = Some (dev, ?s1)" using u by (simp add: usable_def hs_device_ref_run)
  obtain x s2 where o: "open_retry False os path [O_RDWR, O_CLOEXEC, O_NONBLOCK] 0 ?s1 = Some (x, s2)"
    using run True ref path by (auto simp: open_hidraw_device_def Let_def elim!: bind_eq_SomeE)
  have s2: "lib_frame s s2" "devs s2 = devs ?s1"
    using open_retry_result [OF o] os_frame_lib_frame [of ?s1 s2] by simp_all
  show ?thesis
  proof (cases x)
    case (Inl e)
    have "hidraw_fail os (zero_hid_handle\<lparr>lh_dev := dev, lh_fd := -1\<rparr>) (open_error os path e s2) = Some (r, ho, s')"
      using run True ref path o Inl by (simp add: open_hidraw_device_def Let_def)
    then show ?thesis
      using hidraw_fail_run [OF u, of "zero_hid_handle\<lparr>lh_dev := dev, lh_fd := -1\<rparr>" "open_error os path e s2" os]
        s2 by (auto simp: open_error_code)
  next
    case (Inr fd)
    have "hidraw_setup os path (zero_hid_handle\<lparr>lh_dev := dev, lh_fd := fd\<rparr>) s2 = Some (r, ho, s')"
      using run True ref path o Inr by (simp add: open_hidraw_device_def Let_def)
    with u s2 show ?thesis by (intro hidraw_setup_result) simp_all
  qed
qed

lemma open_hidraw_device_returns:
  assumes fin: "finite_interrupts os \<mu>" and rd: "rdesc_ok os" and u: "usable s dev d"
  shows "\<exists>r ho s'. open_hidraw_device os mem dev s = Some (r, ho, s')"
proof (cases mem)
  case False
  then show ?thesis by (simp add: open_hidraw_device_def fail_with_eq)
next
  case True
  obtain path where path: "d_path d = Some path" using u by (auto simp: usable_def)
  let ?s1 = "s\<lparr>devs := (devs s)(dev \<mapsto> d\<lparr>refcount := refcount d + 1\<rparr>)\<rparr>"
  have ref: "hs_device_ref dev s = Some (dev, ?s1)" using u by (simp add: usable_def hs_device_ref_run)
  obtain x s2 where o: "open_retry False os path [O_RDWR, O_CLOEXEC, O_NONBLOCK] 0 ?s1 = Some (x, s2)"
    using open_retry_returns [OF fin] by blast
  have s2: "lib_frame s s2" "devs s2 = devs ?s1"
    using open_retry_result [OF o] os_frame_lib_frame [of ?s1 s2] by simp_all
  show ?thesis
  proof (cases x)
    case (Inl e)
    then show ?thesis
      using hidraw_fail_run [OF u, of "zero_hid_handle\<lparr>lh_dev := dev, lh_fd := -1\<rparr>" "open_error os path e s2" os]
        s2 True ref path o by (auto simp: open_error_code open_hidraw_device_def Let_def)
  next
    case (Inr fd)
    then show ?thesis
      using hidraw_setup_returns [OF rd u, of "zero_hid_handle\<lparr>lh_dev := dev, lh_fd := fd\<rparr>" s2 path]
        s2 True ref path o by (auto simp: open_hidraw_device_def Let_def)
  qed
qed

interpretation hidraw: device_driver lh_dev "\<lambda>_. True" "open_hidraw_device os mem" "close_hidraw_device os"
proof unfold_locales
  fix s dev d r h s' assume u: "usable s dev d" and "open_hidraw_device os mem dev s = Some (r, Some h, s')"
  from open_hidraw_device_result [OF this]
  show "r = 0 \<and> lh_dev h = dev \<and> True \<and> lib_frame s s' \<and> devs s' = (devs s)(dev \<mapsto> d\<lparr>refcount := refcount d + 1\<rparr>)"
    by simp
next
  fix s dev d r s' assume u: "usable s dev d" and "open_hidraw_device os mem dev s = Some (r, None, s')"
  from open_hidraw_device_result [OF this] show "r < 0 \<and> lib_frame s s' \<and> devs s' = devs s" by simp
next
  fix h s
  show "\<exists>s1. close_hidraw_device os h s = hs_device_unref (lh_dev h) s1 \<and> lib_frame s s1 \<and> devs s1 = devs s"
    unfolding close_hidraw_device_def sys_do_eq by (rule unref_after_world)
qed

section \<open>Reading and writing\<close>

text \<open>
  In each way to read the caller gets a report that starts with its number: the report number itself
  for numbered reports, after the byte the kernel bug puts in front of it has been dropped, or a
  zero byte for unnumbered ones. \<open>report_of\<close> is the report for the bytes the system delivered.
\<close>

definition report_of :: "bool \<Rightarrow> bool \<Rightarrow> uint8 list \<Rightarrow> uint8 list" where
  "report_of numbered bug ds =
     (if ds = [] then [] else if numbered then (if bug then tl ds else ds) else 0 # ds)"

text \<open>The outcome of a read: a report at the start of the buffer, or an error and nothing.\<close>

definition read_outcome :: "bool \<Rightarrow> bool \<Rightarrow> nat \<Rightarrow> uint8 list \<Rightarrow> int \<times> uint8 list \<Rightarrow> bool" where
  "read_outcome numbered bug n buf rb \<longleftrightarrow>
     (\<exists>ds. length (report_of numbered bug ds) \<le> n \<and> rb = (int (length (report_of numbered bug ds)),
        report_of numbered bug ds @ drop (length (report_of numbered bug ds)) buf)) \<or>
     fst rb \<in> {err_val HS_ERROR_IO, err_val HS_ERROR_SYSTEM, err_val HS_ERROR_MEMORY} \<and> snd rb = buf"

lemma read_outcome_none [simp]:
  "read_outcome numbered bug n buf (0, buf)"
  unfolding read_outcome_def by (rule disjI1, rule exI [of _ "[]"]) (simp add: report_of_def)

lemma read_outcome_error: "r \<in> {0, -4, -5, -1} \<Longrightarrow> read_outcome numbered bug n buf (r, buf)"
  by (cases "r = 0") (simp, simp add: read_outcome_def)

lemma read_outcomeI:
  "rep = report_of numbered bug ds \<Longrightarrow> length rep \<le> n \<Longrightarrow>
     read_outcome numbered bug n buf (int (length rep), rep @ drop (length rep) buf)"
  unfolding read_outcome_def by auto

lemma os_read_length: "read_ok os \<Longrightarrow> fst (os_read os fd k w) = Inr ds \<Longrightarrow> length ds \<le> k"
  by (simp add: read_ok_def)

lemma read_error_outcome:
  "\<exists>r s'. read_error os path e s = (r, s') \<and> r \<in> {0, -4, -5, -1} \<and> io_frame s s'"
  using read_error_run(1) [of os path e s] read_error_run(2) [of s os path e s]
  by (cases "read_error os path e s") auto

lemma read_numbered_run:
  assumes "read_ok os" and "n \<le> length buf"
  shows "\<exists>r buf' s'. read_numbered os fd path buf n s = Some (r, buf', s') \<and> io_frame s s' \<and>
     read_outcome True False n buf (r, buf')"
proof (cases "fst (os_read os fd n (ext s))")
  case (Inl e)
  then show ?thesis
    using read_error_outcome [of os path e "s\<lparr>ext := snd (os_read os fd n (ext s))\<rparr>"]
    by (auto simp: read_numbered_def sys_eq io_frame_def intro: read_outcome_error)
next
  case (Inr ds)
  then have "length ds \<le> n" using assms(1) by (rule os_read_length [rotated])
  then have "read_outcome True False n buf (int (length ds), ds @ drop (length ds) buf)"
    by (intro read_outcomeI [of _ _ _ ds]) (auto simp: report_of_def)
  with Inr \<open>length ds \<le> n\<close> assms(2) show ?thesis by (simp add: read_numbered_def sys_eq buf_write_def)
qed

lemma read_unnumbered_run:
  assumes "read_ok os" and "n \<noteq> 0" and "n \<le> length buf"
  shows "\<exists>r buf' s'. read_unnumbered os fd path buf n s = Some (r, buf', s') \<and> io_frame s s' \<and>
     read_outcome False bug n buf (r, buf')"
proof (cases "fst (os_read os fd (n - 1) (ext s))")
  case (Inl e)
  then show ?thesis
    using read_error_outcome [of os path e "s\<lparr>ext := snd (os_read os fd (n - 1) (ext s))\<rparr>"]
    by (auto simp: read_unnumbered_def sys_eq io_frame_def intro: read_outcome_error)
next
  case (Inr ds)
  then have len: "length ds \<le> n - 1" using assms(1) by (rule os_read_length [rotated])
  show ?thesis
  proof (cases "ds = []")
    case True
    with Inr show ?thesis by (simp add: read_unnumbered_def sys_eq)
  next
    case False
    obtain b bs where buf: "buf = b # bs" using assms(2,3) by (cases buf) auto
    have "read_outcome False bug n buf (int (length (0 # ds)), (0 # ds) @ drop (length (0 # ds)) buf)"
      by (rule read_outcomeI [of _ _ _ ds]) (use False len assms(2) in \<open>auto simp: report_of_def\<close>)
    moreover have "length ds \<le> length bs" using len assms(2,3) buf by simp
    ultimately show ?thesis
      using Inr False buf by (simp add: read_unnumbered_def sys_eq buf_write_def add.commute)
  qed
qed

lemma read_workaround_run:
  assumes "read_ok os" and "n \<le> length buf"
  shows "\<exists>r buf' h' s'. read_workaround os mem path h buf n s = Some (r, buf', h', s') \<and> io_frame s s' \<and>
     lh_dev h' = lh_dev h \<and> lh_fd h' = lh_fd h \<and> read_outcome True True n buf (r, buf')"
proof (cases "n + 1 > length (lh_buf h) \<and> \<not> mem")
  case True
  then show ?thesis
    by (auto simp: read_workaround_def fail_with_eq io_frame_def intro: read_outcome_error)
next
  case room: False
  define h1 where "h1 = (if n + 1 > length (lh_buf h) then h\<lparr>lh_buf := replicate (n + 1) 0\<rparr> else h)"
  have h1: "lh_dev h1 = lh_dev h" "lh_fd h1 = lh_fd h" "n + 1 \<le> length (lh_buf h1)" by (auto simp: h1_def)
  show ?thesis
  proof (cases "fst (os_read os (lh_fd h) (n + 1) (ext s))")
    case (Inl e)
    with room h1 show ?thesis
      using read_error_outcome [of os path e "s\<lparr>ext := snd (os_read os (lh_fd h) (n + 1) (ext s))\<rparr>"]
      by (auto simp: read_workaround_def h1_def [symmetric] sys_eq io_frame_def intro: read_outcome_error)
  next
    case (Inr ds)
    then have len: "length ds \<le> n + 1" using assms(1) by (rule os_read_length [rotated])
    then have hb: "buf_write 0 ds (lh_buf h1) = Some (ds @ drop (length ds) (lh_buf h1))"
      using h1(3) by (simp add: buf_write_def)
    show ?thesis
    proof (cases ds)
      case Nil
      with room h1 Inr show ?thesis
        by (simp add: read_workaround_def h1_def [symmetric] sys_eq buf_write_def)
    next
      case (Cons d ds')
      have "read_outcome True True n buf (int (length ds'), ds' @ drop (length ds') buf)"
        by (rule read_outcomeI [of _ _ _ ds]) (use Cons len in \<open>auto simp: report_of_def\<close>)
      with room h1 Inr hb Cons len assms(2) show ?thesis
        by (simp add: read_workaround_def h1_def [symmetric] sys_eq buf_write_def)
    qed
  qed
qed

lemma hs_hid_read_run:
  assumes fin: "finite_interrupts os \<mu>" and clk: "clock_works os" and rok: "read_ok os"
    and h: "hid_device (lh_dev h) s = Some d" "d_path d \<noteq> None" and n: "n \<noteq> 0" "n \<le> length buf"
  shows "\<exists>r buf' h' st' s'. hs_hid_read os mem st h buf n timeout s = Some (r, buf', h', st', s') \<and> io_frame s s' \<and>
     lh_dev h' = lh_dev h \<and> lh_fd h' = lh_fd h \<and>
     read_outcome (lh_numbered h) (fst (detect_kernel26_byte_bug os st)) n buf (r, buf')"
proof -
  obtain path where path: "d_path d = Some path" using h(2) by blast
  obtain go s1 where go: "wait_input os (lh_fd h) path timeout s = Some (go, s1)" "io_frame s s1"
      "\<forall>r. go = Inl r \<longrightarrow> r \<in> {0, err_val HS_ERROR_SYSTEM}"
    using wait_input_run [OF fin clk] by blast
  obtain bug st' where bug: "detect_kernel26_byte_bug os st = (bug, st')" by (cases "detect_kernel26_byte_bug os st")
  note base = h(1) path n(1) go(1,2) bug
  show ?thesis
  proof (cases go)
    case (Inl r)
    with go(3) base show ?thesis by (auto simp: hs_hid_read_def intro: read_outcome_error)
  next
    case (Inr u)
    consider "\<not> lh_numbered h" | "lh_numbered h" "bug" | "lh_numbered h" "\<not> bug" by blast
    then show ?thesis
    proof cases
      case 1
      with read_unnumbered_run [OF rok n, of "lh_fd h" path s1 bug] Inr base show ?thesis
        by (auto simp: hs_hid_read_def intro: io_frame_trans)
    next
      case 2
      with read_workaround_run [OF rok n(2), of mem path h s1] Inr base show ?thesis
        by (auto simp: hs_hid_read_def intro: io_frame_trans)
    next
      case 3
      with read_numbered_run [OF rok n(2), of "lh_fd h" path s1] Inr base show ?thesis
        by (auto simp: hs_hid_read_def intro: io_frame_trans)
    qed
  qed
qed

text \<open>A restarted call: it ends, and its result is one the system gave.\<close>

lemma retry_sys_run:
  assumes dec: "\<And>w. fst (f w) = Inl EINTR \<Longrightarrow> \<mu> (snd (f w)) < (\<mu> w :: nat)"
  obtains r s' w where "retry_eintr (\<lambda>s. Some (sys f s)) s = Some (r, s')" "r = fst (f w)" "r \<noteq> Inl EINTR" "io_frame s s'"
proof -
  have "\<exists>r s'. retry_eintr (\<lambda>s. Some (sys f s)) s = Some (r, s') \<and> r \<noteq> Inl EINTR \<and> io_frame s s'"
  proof (rule retry_eintr_returns [where \<mu> = "\<lambda>s. \<mu> (ext s)" and P = "io_frame s"])
    fix s1 assume "io_frame s s1"
    with dec show "\<exists>r s'. Some (sys f s1) = Some (r, s') \<and> io_frame s s' \<and> (r = Inl EINTR \<longrightarrow> \<mu> (ext s') < \<mu> (ext s1))"
      by (auto simp: sys_eq)
  qed simp
  then obtain r s' where r: "retry_eintr (\<lambda>s. Some (sys f s)) s = Some (r, s')" "r \<noteq> Inl EINTR" "io_frame s s'" by blast
  have "\<exists>w. fst (r, s') = fst (f w)"
    by (rule retry_eintr_origin [OF _ r(1)]) (auto simp: sys_eq)
  with r show thesis by (auto intro: that)
qed

lemma hs_hid_write_run:
  assumes fin: "finite_interrupts os \<mu>" and h: "hid_device (lh_dev h) s = Some d" "d_path d \<noteq> None"
    and n: "n \<le> length buf"
  shows "\<exists>r s'. hs_hid_write os h buf n s = Some (r, s') \<and> io_frame s s' \<and>
     (if n < 2 then r = 0 else r \<in> {err_val HS_ERROR_IO, err_val HS_ERROR_SYSTEM} \<or>
        (\<exists>w. fst (os_write os (lh_fd h) (take n buf) w) = Inr r))"
proof (cases "n < 2")
  case True
  with h show ?thesis by (simp add: hs_hid_write_def)
next
  case False
  obtain path where path: "d_path d = Some path" using h(2) by blast
  obtain x s1 w where x: "retry_eintr (\<lambda>s. Some (sys (os_write os (lh_fd h) (take n buf)) s)) s = Some (x, s1)"
      "x = fst (os_write os (lh_fd h) (take n buf) w)" "io_frame s s1"
    by (rule retry_sys_run [of "os_write os (lh_fd h) (take n buf)" \<mu> s])
      (use fin in \<open>auto simp: finite_interrupts_def\<close>)
  show ?thesis
  proof (cases x)
    case (Inl e)
    with x(1,3) False h path n write_error_run(1) [of os "''write''" path e s1] write_error_run(2) [of s os "''write''" path e s1]
    show ?thesis by (cases "write_error os ''write'' path e s1") (auto simp: hs_hid_write_def)
  next
    case (Inr r)
    then have "fst (os_write os (lh_fd h) (take n buf) w) = Inr r" using x(2) by simp
    with x(1,3) Inr False h path n show ?thesis by (auto simp: hs_hid_write_def)
  qed
qed

lemma feature_error_run:
  "fst (feature_error os what req path e s) \<in> {err_val HS_ERROR_IO, err_val HS_ERROR_SYSTEM}"
  "io_frame s0 (snd (feature_error os what req path e s)) = io_frame s0 s"
  by (simp_all add: feature_error_def)

lemma hs_hid_send_feature_report_run:
  assumes fin: "finite_interrupts os \<mu>" and h: "hid_device (lh_dev h) s = Some d" "d_path d \<noteq> None"
    and n: "n \<le> length buf"
  shows "\<exists>r s'. hs_hid_send_feature_report os h buf n s = Some (r, s') \<and> io_frame s s' \<and>
     (if n < 2 then r = 0 else r \<in> {err_val HS_ERROR_IO, err_val HS_ERROR_SYSTEM} \<or>
        (\<exists>w. fst (os_hidiocsfeature os (lh_fd h) (take n buf) w) = Inr r))"
proof (cases "n < 2")
  case True
  with h show ?thesis by (simp add: hs_hid_send_feature_report_def)
next
  case False
  obtain path where path: "d_path d = Some path" using h(2) by blast
  obtain x s1 w where x: "retry_eintr (\<lambda>s. Some (sys (os_hidiocsfeature os (lh_fd h) (take n buf)) s)) s = Some (x, s1)"
      "x = fst (os_hidiocsfeature os (lh_fd h) (take n buf) w)" "io_frame s s1"
    by (rule retry_sys_run [of "os_hidiocsfeature os (lh_fd h) (take n buf)" \<mu> s])
      (use fin in \<open>auto simp: finite_interrupts_def\<close>)
  let ?f = "\<lambda>e. feature_error os ''writing to '' ''HIDIOCSFEATURE'' path e s1"
  show ?thesis
  proof (cases x)
    case (Inl e)
    with x(1,3) False h path n feature_error_run(1) [of os "''writing to ''" "''HIDIOCSFEATURE''" path e s1]
      feature_error_run(2) [of s os "''writing to ''" "''HIDIOCSFEATURE''" path e s1]
    show ?thesis by (cases "?f e") (auto simp: hs_hid_send_feature_report_def)
  next
    case (Inr r)
    then have "fst (os_hidiocsfeature os (lh_fd h) (take n buf) w) = Inr r" using x(2) by simp
    with x(1,3) Inr False h path n show ?thesis by (auto simp: hs_hid_send_feature_report_def)
  qed
qed

text \<open>\<open>HIDIOCGFEATURE\<close> delivers no more than it is asked for.\<close>

definition gfeature_ok :: "'w posix_os \<Rightarrow> bool" where
  "gfeature_ok os \<longleftrightarrow> (\<forall>fd b w ds. fst (os_hidiocgfeature os fd b w) = Inr ds \<longrightarrow> length ds \<le> length b)"

lemma hs_hid_get_feature_report_run:
  assumes fin: "finite_interrupts os \<mu>" and ok: "gfeature_ok os"
    and h: "hid_device (lh_dev h) s = Some d" "d_path d \<noteq> None" and n: "n \<noteq> 0" "n \<le> length buf"
  shows "\<exists>r buf' s'. hs_hid_get_feature_report os h rid buf n s = Some (r, buf', s') \<and> io_frame s s' \<and>
     length buf' = length buf \<and> drop n buf' = drop n buf \<and>
     (r \<in> {err_val HS_ERROR_IO, err_val HS_ERROR_SYSTEM} \<or>
      (\<exists>ds. r = int (length ds) + 1 \<and> r \<le> int n \<and> take (nat r) buf' = rid # ds))"
proof -
  obtain path where path: "d_path d = Some path" using h(2) by blast
  define b1 where "b1 = (if n \<ge> 2 then take 1 buf @ [rid] @ drop 2 buf else buf)"
  have b1: "(if n \<ge> 2 then buf_write 1 [rid] buf else Some buf) = Some b1" "length b1 = length buf" "drop n b1 = drop n buf"
  proof -
    have "\<exists>a b bs m. buf = a # b # bs \<and> n = Suc (Suc m)" if "2 \<le> n"
      using n(2) that by (metis Suc_le_length_iff add_2_eq_Suc le_Suc_ex)
    then show "(if n \<ge> 2 then buf_write 1 [rid] buf else Some buf) = Some b1" "length b1 = length buf" "drop n b1 = drop n buf"
      using n by (auto simp: b1_def buf_write_def)
  qed
  let ?b = "take (n - 1) (drop 1 b1)"
  obtain x s1 w where x: "retry_eintr (\<lambda>s. Some (sys (os_hidiocgfeature os (lh_fd h) ?b) s)) s = Some (x, s1)"
      "x = fst (os_hidiocgfeature os (lh_fd h) ?b w)" "io_frame s s1"
    by (rule retry_sys_run [of "os_hidiocgfeature os (lh_fd h) ?b" \<mu> s])
      (use fin in \<open>auto simp: finite_interrupts_def\<close>)
  let ?f = "\<lambda>e. feature_error os ''reading from '' ''HIDIOCGFEATURE'' path e s1"
  show ?thesis
  proof (cases x)
    case (Inl e)
    with x(1,3) h path n b1 feature_error_run(1) [of os "''reading from ''" "''HIDIOCGFEATURE''" path e s1]
      feature_error_run(2) [of s os "''reading from ''" "''HIDIOCGFEATURE''" path e s1]
    show ?thesis by (cases "?f e") (auto simp: hs_hid_get_feature_report_def)
  next
    case (Inr ds)
    then have "length ds \<le> length ?b" using x(2) ok unfolding gfeature_ok_def by metis
    then have len: "length ds \<le> n - 1" using b1(2) n by simp
    obtain c cs where c: "b1 = c # cs" using n b1(2) by (cases b1) auto
    have w1: "buf_write 1 ds b1 = Some (c # ds @ drop (length ds) cs)"
      using len n b1(2) c by (simp add: buf_write_def)
    have w2: "buf_write 0 [rid] (c # ds @ drop (length ds) cs) = Some (rid # ds @ drop (length ds) cs)"
      by (simp add: buf_write_def)
    have "length (rid # ds @ drop (length ds) cs) = length buf" using len n b1(2) c by simp
    moreover have "drop n (rid # ds @ drop (length ds) cs) = drop n buf"
      using len n b1(3) c by (cases n) auto
    moreover have "take (nat (int (length ds) + 1)) (rid # ds @ drop (length ds) cs) = rid # ds"
      by (simp add: nat_add_distrib)
    moreover have "int (length ds) + 1 \<le> int n" using len n by linarith
    ultimately show ?thesis
      using x(1,3) h path n b1(1) Inr w1 w2 by (auto simp: hs_hid_get_feature_report_def)
  qed
qed

end
