(* ===== verification/HidProperties.thy ===== *)
theory HidProperties
  imports HidLinux PosixProperties
begin

text \<open>
  The properties of the Linux HID driver: the parser of report descriptors against its reference,
  the outcome of reads and feature reports, and several handles on one device.
\<close>

section \<open>Report descriptors\<close>

text \<open>
  A descriptor: usage page 1 and usage 6 outside any collection, a collection with a report number 2,
  and a usage page 7 inside it; then an item whose data byte is missing.
\<close>

definition ex_report :: "uint8 list" where
  "ex_report = [0x05, 0x01, 0x09, 0x06, 0xA1, 0x01, 0x85, 0x02, 0x05, 0x07, 0xC0]"

text \<open>
  C22: for a descriptor of any length and any bytes, \<open>parse_descriptor\<close> ends and reads no byte outside
  it; the handle it leaves is the result of folding the items of the descriptor, as a parser over the
  remaining bytes finds them, over the handle, and the warning is logged exactly when that parser
  finds an item that is cut off.
\<close>

theorem parse_descriptor_reference:
  assumes "unat rsize \<le> length val"
  shows "parse_descriptor path h rsize val s =
     (case hid_items (take (unat rsize) val) of
        (its, ok) \<Rightarrow> Some (snd (foldl (\<lambda>dh it. hid_item (fst it) (snd it) dh) (0, h) its),
          if ok then s else log_msg HS_LOG_WARNING (''Invalid HID descriptor for device '' @ sq path) s))"
  using parse_items_run [OF assms, of 0 0 "(0, h)"]
  by (simp add: parse_descriptor_def split: prod.splits)

lemma ex_items:
  "hid_items ex_report = ([(0x04, 1), (0x08, 6), (0xA0, 1), (0x84, 2), (0x04, 7), (0xC0, 0)], True)"
  by (simp add: ex_report_def item_size_def le_value_def)

theorem parse_descriptor_reference_witness:
  "\<exists>h. parse_descriptor ''/dev/x'' zero_hid_handle 11 ex_report (ex_world 0) = Some (h, ex_world 0) \<and>
     lh_usage_page h = 1 \<and> lh_usage h = 6 \<and> lh_numbered h"
proof -
  have n: "unat (11 :: uint32) \<le> length ex_report" by (simp add: ex_report_def)
  have t: "take (unat (11 :: uint32)) ex_report = ex_report" by (simp add: ex_report_def)
  from parse_descriptor_reference [OF n, of "''/dev/x''" zero_hid_handle "ex_world 0"]
  show ?thesis unfolding t ex_items by (simp add: hid_item_def)
qed

section \<open>Reports\<close>

lemma ex_hid: "hid_device 8 (ex_world w) = Some (ex_dev HS_DEVICE_TYPE_HID Hs_linux_hid_vtable)"
  by (simp add: hid_device_def)

lemma zero_hid_handle_sel [simp]:
  "lh_dev (zero_hid_handle\<lparr>lh_dev := p, lh_fd := fd, lh_numbered := b\<rparr>) = p"
  "lh_fd (zero_hid_handle\<lparr>lh_dev := p, lh_fd := fd, lh_numbered := b\<rparr>) = fd"
  "lh_numbered (zero_hid_handle\<lparr>lh_dev := p, lh_fd := fd, lh_numbered := b\<rparr>) = b"
  by simp_all



text \<open>
  Feature reports stay inside the caller's buffer. \<open>hs_hid_get_feature_report\<close> returns an error or
  the length of the report with its number in front, at most \<open>size\<close>, and changes no byte after the
  first \<open>size\<close>; \<open>hs_hid_send_feature_report\<close> sends nothing when there is no data after the number, and
  otherwise returns an error or what the ioctl gave for exactly the first \<open>size\<close> bytes.
\<close>

theorem hid_feature_reports:
  assumes "finite_interrupts os \<mu>" and "gfeature_ok os"
    and "hid_device (lh_dev h) s = Some d" and "d_path d \<noteq> None" and "n \<noteq> 0" and "n \<le> length buf"
  shows "(\<exists>r buf' s'. hs_hid_get_feature_report os h rid buf n s = Some (r, buf', s') \<and> io_frame s s' \<and>
       length buf' = length buf \<and> drop n buf' = drop n buf \<and>
       (r \<in> {err_val HS_ERROR_IO, err_val HS_ERROR_SYSTEM} \<or>
        (\<exists>ds. r = int (length ds) + 1 \<and> r \<le> int n \<and> take (nat r) buf' = rid # ds))) \<and>
     (\<exists>r s'. hs_hid_send_feature_report os h buf n s = Some (r, s') \<and> io_frame s s' \<and>
       (if n < 2 then r = 0 else r \<in> {err_val HS_ERROR_IO, err_val HS_ERROR_SYSTEM} \<or>
          (\<exists>w. fst (os_hidiocsfeature os (lh_fd h) (take n buf) w) = Inr r)))"
  using hs_hid_get_feature_report_run [OF assms] hs_hid_send_feature_report_run [OF assms(1,3,4,6)] by blast

theorem hid_feature_reports_witness:
  "\<exists>r buf' s'. hs_hid_get_feature_report ex_os (zero_hid_handle\<lparr>lh_dev := 8, lh_fd := 3, lh_numbered := True\<rparr>) 7
     [1, 2, 3, 4] 3 (ex_world 2) = Some (r, buf', s') \<and> drop 3 buf' = [4]"
proof -
  have "gfeature_ok ex_os" by (simp add: gfeature_ok_def)
  from hid_feature_reports [OF ex_finite this, of "zero_hid_handle\<lparr>lh_dev := 8, lh_fd := 3, lh_numbered := True\<rparr>"
      "ex_world 2" _ 3 "[1, 2, 3, 4]" 7]
  show ?thesis by (auto simp: ex_hid)
qed

section \<open>Handles\<close>

text \<open>
  Any number of handles may be open on one HID device: each holds one reference, and closing them
  all, in whatever order, is defined and leaves every device with the reference count it had.
\<close>

theorem hidraw_handles_roundtrip:
  assumes "dev \<noteq> NULL" and "devs s dev = Some d" and "refcount d \<noteq> 0" and "d_path d \<noteq> None"
    and "unat (refcount d) + k < 2 ^ 32"
    and "open_times (open_hidraw_device os mem) k dev s = Some (hs, s1)"
    and "set hs' = set hs" and "length hs' = length hs"
  shows "devs s1 = (devs s)(dev \<mapsto> d\<lparr>refcount := refcount d + of_nat k\<rparr>) \<and>
     (\<exists>s2. close_list (close_hidraw_device os) hs' s1 = Some s2 \<and> devs s2 = devs s \<and> lib_frame s s2)"
  using hidraw.open_times_refs [OF assms(1-6)] hidraw.open_times_close [OF assms] by blast

lemma ex_hidraw_opens:
  assumes "usable s 8 d" and "ext s = 0"
  shows "\<exists>h s1. open_hidraw_device ex_os True 8 s = Some (0, Some h, s1) \<and> ext s1 = 0"
proof -
  obtain path where d: "devs s 8 = Some d" "d_path d = Some path" using assms(1) by (auto simp: usable_def)
  let ?s1 = "s\<lparr>devs := (devs s)(8 \<mapsto> d\<lparr>refcount := refcount d + 1\<rparr>)\<rparr>"
  let ?h = "zero_hid_handle\<lparr>lh_dev := 8, lh_fd := 3\<rparr>"
  have "open_retry False ex_os path fl 0 ?s1 = Some (Inr 3, ?s1)" for fl
    using assms(2) by (subst open_retry.simps) (simp add: sys_def interrupted_def)
  moreover obtain h' s' where "parse_descriptor path ?h 4 (replicate 4 0) ?s1 = Some (h', s')" "ext s' = 0"
    using parse_items_run [of 4 "replicate 4 0" 0 0 "(0, ?h)"] assms(2)
    by (auto simp: parse_descriptor_def log_msg_def split: prod.splits)
  ultimately show ?thesis
    using d assms(2) by (simp add: open_hidraw_device_def hs_device_ref_def hidraw_setup_def sys_def)
qed

theorem hidraw_handles_roundtrip_witness:
  "\<exists>h h' s1 s2. open_times (open_hidraw_device ex_os True) 2 8 (ex_world 0) = Some ([h, h'], s1) \<and>
     close_list (close_hidraw_device ex_os) [h', h] s1 = Some s2 \<and> devs s2 = devs (ex_world 0)"
proof -
  obtain h s1 where 1: "open_hidraw_device ex_os True 8 (ex_world 0) = Some (0, Some h, s1)" "ext s1 = 0"
    using ex_hidraw_opens [OF ex_usable(2)] by auto
  have "usable s1 8 ((ex_dev HS_DEVICE_TYPE_HID Hs_linux_hid_vtable)\<lparr>refcount := 1 + 1\<rparr>)"
    using hidraw.open_ref [OF ex_usable(2) 1(1)] by (simp add: usable_def)
  then obtain h' s2 where 2: "open_hidraw_device ex_os True 8 s1 = Some (0, Some h', s2)"
    using ex_hidraw_opens 1(2) by blast
  have o: "open_times (open_hidraw_device ex_os True) 2 8 (ex_world 0) = Some ([h, h'], s2)"
    using 1(1) 2 by (simp add: numeral_2_eq_2)
  from hidraw_handles_roundtrip [OF _ _ _ _ _ o, of _ "[h', h]"] o show ?thesis by auto
qed

end
