(* ===== verification/DeviceFeed.thy ===== *)
theory DeviceFeed
  imports Lifecycle
begin

text \<open>
  The interface between the platform independent monitor and the code that feeds it: every platform
  announces devices with \<open>_hs_monitor_add\<close> and withdraws keys with \<open>_hs_monitor_remove\<close>. The locale
  states what the platform code may rely on; the monitor of \<open>monitor.c\<close> is its interpretation. The
  lemma proved from the contract says that a sequence of announcements and withdrawals leaves
  exactly the devices known that a set of identities updated event by event contains.
\<close>

section \<open>Feeding a monitor\<close>

type_synonym identity = "string option \<times> uint8"

datatype feed_event = Arrive identity | Depart string

fun known_after :: "identity set \<Rightarrow> feed_event \<Rightarrow> identity set" where
  "known_after K (Arrive i) = insert i K"
| "known_after K (Depart key) = {i \<in> K. fst i \<noteq> Some key}"

text \<open>
  A course of the platform code: steps \<open>env\<close> that leave the monitor alone, arrivals and departures.
\<close>

inductive feeds ::
  "('s \<Rightarrow> 's \<Rightarrow> bool) \<Rightarrow> ('s \<Rightarrow> addr \<Rightarrow> hs_device \<Rightarrow> bool) \<Rightarrow> (addr \<Rightarrow> hs_device \<Rightarrow> 's \<Rightarrow> (int \<times> 's) option)
     \<Rightarrow> (string \<Rightarrow> 's \<Rightarrow> 's option) \<Rightarrow> 's \<Rightarrow> feed_event list \<Rightarrow> 's \<Rightarrow> bool"
  for env fresh arrive depart where
  feed_nil: "feeds env fresh arrive depart s [] s"
| feed_env: "env s s1 \<Longrightarrow> feeds env fresh arrive depart s1 es s' \<Longrightarrow> feeds env fresh arrive depart s es s'"
| feed_arrive: "fresh s p d \<Longrightarrow> arrive p d s = Some (r, s1) \<Longrightarrow> feeds env fresh arrive depart s1 es s' \<Longrightarrow>
     feeds env fresh arrive depart s (Arrive (d_key d, d_iface d) # es) s'"
| feed_depart: "depart key s = Some s1 \<Longrightarrow> feeds env fresh arrive depart s1 es s' \<Longrightarrow>
     feeds env fresh arrive depart s (Depart key # es) s'"

lemma feeds_append:
  "feeds env fresh arrive depart s es s' \<Longrightarrow> feeds env fresh arrive depart s' es' s'' \<Longrightarrow>
     feeds env fresh arrive depart s (es @ es') s''"
  by (induction rule: feeds.induct) (auto intro: feeds.intros)

lemma feeds_env: "env s s' \<Longrightarrow> feeds env fresh arrive depart s [] s'"
  by (blast intro: feeds.intros)

locale device_registry =
  fixes reg :: "'s \<Rightarrow> identity set \<Rightarrow> bool"
    and env :: "'s \<Rightarrow> 's \<Rightarrow> bool"
    and fresh :: "'s \<Rightarrow> addr \<Rightarrow> hs_device \<Rightarrow> bool"
    and arrive :: "addr \<Rightarrow> hs_device \<Rightarrow> 's \<Rightarrow> (int \<times> 's) option"
    and depart :: "string \<Rightarrow> 's \<Rightarrow> 's option"
  assumes env_law: "reg s K \<Longrightarrow> env s s' \<Longrightarrow> reg s' K"
    and arrive_law: "reg s K \<Longrightarrow> fresh s p d \<Longrightarrow>
      \<exists>s'. arrive p d s = Some (0, s') \<and> reg s' (insert (d_key d, d_iface d) K)"
    and depart_law: "reg s K \<Longrightarrow> \<exists>s'. depart key s = Some s' \<and> reg s' {i \<in> K. fst i \<noteq> Some key}"
begin

text \<open>What is known after a course of events.\<close>

lemma feeds_known:
  assumes "feeds env fresh arrive depart s es s'" and "reg s K"
  shows "reg s' (foldl known_after K es)"
  using assms
proof (induction arbitrary: K rule: feeds.induct)
  case (feed_env s s1 es s')
  then show ?case using env_law by blast
next
  case (feed_arrive s p d r s1 es s')
  then show ?case using arrive_law [of s K p d] by auto
next
  case (feed_depart key s s1 es s')
  then show ?case using depart_law [of s K key] by auto
qed simp

text \<open>A key that departs and does not arrive again is unknown at the end.\<close>

lemma gone_after_depart:
  assumes "feeds env fresh arrive depart s (es @ Depart key # es') s'" and "reg s K"
    and "\<forall>i. Arrive (Some key, i) \<notin> set es'"
  shows "\<exists>K'. reg s' K' \<and> (\<forall>i. (Some key, i) \<notin> K')"
proof -
  have gone: "(Some key, i) \<notin> K1 \<Longrightarrow> \<forall>j. Arrive (Some key, j) \<notin> set es1 \<Longrightarrow>
      (Some key, i) \<notin> foldl known_after K1 es1" for i K1 es1
  proof (induction es1 arbitrary: K1)
    case (Cons e es1)
    then show ?case by (cases e) auto
  qed simp
  have "(Some key, i) \<notin> foldl known_after (known_after (foldl known_after K es) (Depart key)) es'" for i
    by (rule gone) (use assms(3) in auto)
  then show ?thesis using feeds_known [OF assms(1,2)] by (intro exI conjI) auto
qed

end

section \<open>The contract of the callbacks\<close>

text \<open>
  Callbacks that accept every device, and give back only references they took: no count is lower
  after the call than before.
\<close>

definition refs_le :: "(addr \<rightharpoonup> hs_device) \<Rightarrow> (addr \<rightharpoonup> hs_device) \<Rightarrow> bool" where
  "refs_le D D' \<longleftrightarrow> (\<forall>x d. D x = Some d \<longrightarrow> (\<exists>d'. D' x = Some d' \<and> refcount d \<le> refcount d'))"

definition friendly :: "'w callback_fun \<Rightarrow> bool" where
  "friendly call \<longleftrightarrow> well_behaved call \<and>
     (\<forall>f dev u s r s'. call f dev u s = Some (r, s') \<longrightarrow> 0 \<le> r \<and> refs_le (devs s) (devs s'))"

lemma refs_le_refl [simp]: "refs_le D D"
  by (simp add: refs_le_def)

lemma refs_le_trans: "refs_le D E \<Longrightarrow> refs_le E F \<Longrightarrow> refs_le D F"
  unfolding refs_le_def by (meson order_trans)

lemma friendly_well_behaved: "friendly call \<Longrightarrow> well_behaved call"
  by (simp add: friendly_def)

lemma notified_friendly:
  assumes "friendly call"
  shows "notified call dev C s r C' s' \<Longrightarrow> r = 0 \<and> refs_le (devs s) (devs s')"
proof (induction rule: notified.induct)
  case (notified_stop s c cb r s' cs)
  then show ?case using assms by (auto simp: friendly_def dest!: spec)
next
  case (notified_keep s c cb s' cs r cs' s'')
  then show ?case using assms refs_le_trans unfolding friendly_def by blast
next
  case (notified_drop s c cb q s' l cs r cs' s'')
  then have "refs_le (devs s) (devs s')" using assms unfolding friendly_def by blast
  with notified_drop.IH show ?case by (auto intro: refs_le_trans)
qed simp

section \<open>The monitor keeps the contract\<close>

text \<open>The platform code's part of an arrival: announce a new device, then give back its own reference.\<close>

definition announce :: "'w callback_fun \<Rightarrow> addr \<Rightarrow> addr \<Rightarrow> hs_device \<Rightarrow> 'w hs_state \<Rightarrow> (int \<times> 'w hs_state) option"
where
  "announce call mp p d s = do {
     (r, s) \<leftarrow> hs_monitor_add call mp p (device_alloc p d s);
     s \<leftarrow> hs_device_unref p s;
     Some (r, s)
   }"

definition new_device :: "'w hs_state \<Rightarrow> addr \<Rightarrow> hs_device \<Rightarrow> bool" where
  "new_device s p d \<longleftrightarrow> p \<noteq> NULL \<and> devs s p = None \<and> h_next (nodes s) p = None \<and> d_key d \<noteq> None \<and>
     refcount d = 1 \<and> d_state d = HS_DEVICE_STATUS_DISCONNECTED"

text \<open>Steps outside the library: only the log and the outside world change.\<close>

definition idle :: "'w hs_state \<Rightarrow> 'w hs_state \<Rightarrow> bool" where
  "idle s s' \<longleftrightarrow> lists s' = lists s \<and> nodes s' = nodes s \<and> devs s' = devs s \<and> cbs s' = cbs s \<and> mons s' = mons s"

definition knows :: "'w callback_fun \<Rightarrow> addr \<Rightarrow> 'w hs_state \<Rightarrow> identity set \<Rightarrow> bool" where
  "knows call mp s K \<longleftrightarrow> friendly call \<and> mp \<noteq> NULL \<and> apart s mp \<and>
     (\<exists>C B. monitor_rep s mp C B \<and> ids_ok s mp C \<and> dom (registry s B) = K)"

lemma idle_refl [simp]: "idle s s"
  by (simp add: idle_def)

lemma idle_trans: "idle s s' \<Longrightarrow> idle s' s'' \<Longrightarrow> idle s s''"
  by (simp add: idle_def)

lemma knowsE:
  assumes "knows call mp s K"
  obtains mon C B where "friendly call" "mp \<noteq> NULL" "mons s mp = Some mon" "monitor_rep s mp C B" "ids_ok s mp C"
    "dev_rep s mp (m_devices mon) B" "dom (devs s) \<inter> slots (m_devices mon) = {}" "dom (registry s B) = K"
proof -
  obtain C B where a: "friendly call" "mp \<noteq> NULL" "apart s mp" "monitor_rep s mp C B" "ids_ok s mp C" "dom (registry s B) = K"
    using assms by (auto simp: knows_def)
  then obtain mon where "mons s mp = Some mon" "dom (devs s) \<inter> slots (m_devices mon) = {}"
    by (auto simp: apart_def)
  with a show thesis by (intro that [of mon C B]) (auto simp: monitor_rep_def)
qed

lemma knowsI:
  "friendly call \<Longrightarrow> mp \<noteq> NULL \<Longrightarrow> apart s mp \<Longrightarrow> monitor_rep s mp C B \<Longrightarrow> ids_ok s mp C \<Longrightarrow>
     dom (registry s B) = K \<Longrightarrow> knows call mp s K"
  by (auto simp: knows_def)

lemma knows_idle:
  assumes "knows call mp s K" and i: "idle s s'"
  shows "knows call mp s' K"
  using assms(1)
proof (rule knowsE)
  fix mon C B
  assume a: "friendly call" "mp \<noteq> NULL" "mons s mp = Some mon" "monitor_rep s mp C B" "ids_ok s mp C"
    "dom (devs s) \<inter> slots (m_devices mon) = {}" "dom (registry s B) = K"
  have "cb_frame s s'" using i by (simp add: idle_def cb_frame_def)
  then have tf: "trig_frame {} s s'" by (rule cb_frame_trig_frame)
  have "monitor_rep s' mp C B"
    using a(3,4) i dev_rep_trig_frame [OF tf] \<open>cb_frame s s'\<close> by (auto simp: monitor_rep_def idle_def cb_rep_frame)
  moreover have "ids_ok s' mp C" "apart s' mp"
    using a(3,5,6) i by (auto simp: ids_ok_def cb_ids_def idle_def apart_def)
  moreover have "registry s' B = registry s B" by (rule registry_frame) (use i in \<open>simp add: idle_def\<close>)
  ultimately show ?thesis using a by (auto intro: knowsI)
qed

lemma registry_cong: "(\<And>x. x \<in> set (concat B) \<Longrightarrow> ident s' x = ident s x) \<Longrightarrow> registry s' B = registry s B"
  unfolding registry_def by (intro arg_cong [of _ _ map_of] map_cong refl) simp

text \<open>The reference the platform code gives back after the notification is not the last one.\<close>

lemma unref_after_add:
  assumes a: "mons s mp = Some mon" "monitor_rep s mp C B" "ids_ok s mp C" "apart s mp" "mp \<noteq> NULL" "friendly call"
    and d: "devs s p = Some d" "1 < refcount d" "p \<noteq> NULL"
  shows "\<exists>s'. hs_device_unref p s = Some s' \<and> knows call mp s' (dom (registry s B))"
proof -
  let ?s = "s\<lparr>devs := (devs s)(p \<mapsto> d\<lparr>refcount := refcount d - 1\<rparr>)\<rparr>"
  have "refcount d - 1 \<noteq> 0" using d(2) by auto
  then have f: "cb_frame s ?s" using same_devs_upd [of "devs s" p d "refcount d - 1"] d(1) by (simp add: cb_frame_def)
  then have tf: "trig_frame {} s ?s" by (rule cb_frame_trig_frame)
  have "monitor_rep ?s mp C B"
    using a(1,2) dev_rep_trig_frame [OF tf] f by (auto simp: monitor_rep_def cb_rep_frame)
  moreover have "ids_ok ?s mp C" using a(1,3) by (simp add: ids_ok_def cb_ids_def)
  moreover have "apart ?s mp" using a(4) d(1) by (auto simp: apart_def)
  moreover have "registry ?s B = registry s B"
    by (rule registry_frame) (use f in \<open>simp add: cb_frame_def\<close>)
  ultimately show ?thesis using a d by (auto simp: hs_device_unref_run intro: knowsI)
qed

lemma announce_known:
  assumes a: "friendly call" "mp \<noteq> NULL" "mons s mp = Some mon" "monitor_rep s mp C B" "ids_ok s mp C"
      "dom (devs s) \<inter> slots (m_devices mon) = {}"
    and d: "new_device s p d" "d_key d = Some key" and known: "(Some key, d_iface d) \<in> dom (registry s B)"
  shows "\<exists>s'. announce call mp p d s = Some (0, s') \<and> knows call mp s' (dom (registry s B))"
proof -
  let ?s = "device_alloc p d s"
  have p: "p \<noteq> NULL" "devs s p = None" "h_next (nodes s) p = None" "refcount d = 1" using d by (simp_all add: new_device_def)
  have al: "monitor_rep ?s mp C B" "ids_ok ?s mp C" "p \<notin> set (concat B)" "apart ?s mp"
    using monitor_rep_alloc [OF a(3-6) p(1-3), of d] by simp_all
  have reg: "registry ?s B = registry s B"
    by (rule registry_cong) (use al(3) in \<open>auto simp: ident_def\<close>)
  have mon: "mons ?s mp = Some mon" using a(3) by (simp add: device_alloc_def)
  have "hs_monitor_add call mp p ?s = Some (0, ?s)"
    by (rule hs_monitor_add_known [OF al(1), of p d key]) (use known d(2) in \<open>auto simp: reg\<close>)
  moreover have "hs_device_unref p ?s = Some (device_free p ?s)" using p by (simp add: hs_device_unref_def)
  moreover have "dom (devs ?s) \<inter> slots (m_devices mon) = {}" using al(4) mon by (simp add: apart_def)
  then have f: "monitor_rep (device_free p ?s) mp C B \<and> ids_ok (device_free p ?s) mp C \<and> apart (device_free p ?s) mp"
    by (intro monitor_rep_free [OF mon al(1,2)]) (use al(3) in auto)
  moreover have "registry (device_free p ?s) B = registry s B"
    by (rule registry_cong) (use al(3) in \<open>auto simp: ident_def\<close>)
  ultimately show ?thesis using a(1,2) by (auto simp: announce_def intro: knowsI)
qed

lemma announce_new:
  assumes a: "friendly call" "mp \<noteq> NULL" "mons s mp = Some mon" "monitor_rep s mp C B" "ids_ok s mp C"
      "dom (devs s) \<inter> slots (m_devices mon) = {}"
    and d: "new_device s p d" "d_key d = Some key" and new: "(Some key, d_iface d) \<notin> dom (registry s B)"
  shows "\<exists>s'. announce call mp p d s = Some (0, s') \<and>
     knows call mp s' (insert (Some key, d_iface d) (dom (registry s B)))"
proof -
  let ?s = "device_alloc p d s" and ?t = "m_devices mon"
  let ?d = "d\<lparr>d_monitor := mp, d_state := HS_DEVICE_STATUS_ONLINE, refcount := refcount d + 1\<rparr>"
  let ?B = "B[bucket_of ?t (hs_htable_hash_str key) := p # B ! bucket_of ?t (hs_htable_hash_str key)]"
  have p: "p \<noteq> NULL" "devs s p = None" "h_next (nodes s) p = None" "refcount d = 1" using d by (simp_all add: new_device_def)
  have al: "monitor_rep ?s mp C B" "ids_ok ?s mp C" "p \<notin> slots ?t" "p \<notin> set (concat B)"
      "hnode_allocated (nodes ?s) p" "apart ?s mp"
    using monitor_rep_alloc [OF a(3-6) p(1-3), of d] by simp_all
  have reg: "registry ?s B = registry s B"
    by (rule registry_cong) (use al(4) in \<open>auto simp: ident_def\<close>)
  have mon: "mons ?s mp = Some mon" using a(3) by (simp add: device_alloc_def)
  have ok: "addable ?s ?t B p d" using al d p by (simp add: addable_def)
  have "registry ?s B (Some key, d_iface d) = None" using new unfolding reg by auto
  from hs_monitor_add_new [OF friendly_well_behaved [OF a(1)] al(1) mon ok d(2) this]
  obtain r m C' s' where s': "hs_monitor_add call mp p ?s = Some (r, s')"
      "notified call p C (?s\<lparr>devs := (devs ?s)(p \<mapsto> ?d), nodes := m\<rparr>) r C' s'"
      "monitor_rep s' mp C' ?B" "mons s' = mons ?s" "cb_sub ?s C s' C'"
      "registry s' ?B = (registry ?s B)((Some key, d_iface d) \<mapsto> p)" by blast
  have nf: "r = 0" "refs_le ((devs ?s)(p \<mapsto> ?d)) (devs s')" using notified_friendly [OF a(1) s'(2)] by simp_all
  then have "\<exists>d'. devs s' p = Some d' \<and> refcount ?d \<le> refcount d'" unfolding refs_le_def by (metis fun_upd_same)
  then obtain d' where d': "r = 0" "devs s' p = Some d'" "refcount ?d \<le> refcount d'" using nf(1) by blast
  have "2 \<le> refcount d'" using d'(3) p(4) by simp
  then have "1 < refcount d'" by (rule order.strict_trans2 [rotated]) simp
  moreover have "ids_ok s' mp C'" by (rule ids_ok_cb_sub [OF al(2) s'(5,4)])
  moreover have "apart s' mp" by (rule apart_mono [OF al(6) s'(4)]) (use s'(5) in \<open>simp add: cb_sub_def\<close>)
  ultimately obtain s2 where "hs_device_unref p s' = Some s2" "knows call mp s2 (dom (registry s' ?B))"
    using unref_after_add [OF _ s'(3) _ _ a(2,1) d'(2) _ p(1)] s'(4) mon by auto
  then show ?thesis using s'(1,6) d'(1) by (simp add: announce_def reg)
qed

lemma announce_run:
  assumes k: "knows call mp s K" and d: "new_device s p d"
  shows "\<exists>s'. announce call mp p d s = Some (0, s') \<and> knows call mp s' (insert (d_key d, d_iface d) K)"
  using k
proof (rule knowsE)
  fix mon C B
  assume a: "friendly call" "mp \<noteq> NULL" "mons s mp = Some mon" "monitor_rep s mp C B" "ids_ok s mp C"
    "dom (devs s) \<inter> slots (m_devices mon) = {}" "dom (registry s B) = K"
  obtain key where key: "d_key d = Some key" using d by (auto simp: new_device_def)
  show ?thesis
    using announce_known [OF a(1-6) d key] announce_new [OF a(1-6) d key] a(7) key
    by (cases "(Some key, d_iface d) \<in> K") (auto simp: insert_absorb)
qed

lemma withdraw_run:
  assumes k: "knows call mp s K"
  shows "\<exists>s'. hs_monitor_remove call mp key s = Some s' \<and> knows call mp s' {i \<in> K. fst i \<noteq> Some key}"
  using k
proof (rule knowsE)
  fix mon C B
  assume a: "friendly call" "mp \<noteq> NULL" "mons s mp = Some mon" "monitor_rep s mp C B" "ids_ok s mp C"
    "dev_rep s mp (m_devices mon) B" "dom (registry s B) = K"
  let ?B = "map (other_key s key) B"
  obtain s' C' where s': "hs_monitor_remove call mp key s = Some s'" "mons s' = mons s" "cb_sub s C s' C'"
      "monitor_rep s' mp C' ?B" "\<forall>y \<in> set (concat ?B). ident s' y = ident s y"
    using hs_monitor_remove_run [OF friendly_well_behaved [OF a(1)] a(4), of key] by blast
  have "dev_rep s' mp (m_devices mon) ?B" using s'(2,4) a(3) by (auto simp: monitor_rep_def)
  from registry_other_key [OF a(6) this s'(5)]
  have "dom (registry s' ?B) = {i \<in> K. fst i \<noteq> Some key}" using a(7) by (auto simp: dom_def split: if_splits)
  moreover have "ids_ok s' mp C'" by (rule ids_ok_cb_sub [OF a(5) s'(3,2)])
  moreover have "apart s' mp" using k s'(2,3) by (auto simp: knows_def cb_sub_def intro: apart_mono)
  ultimately show ?thesis using s' a(1,2) by (auto intro: knowsI)
qed

text \<open>The course of the events the platform code feeds to the monitor at \<open>mp\<close>.\<close>

abbreviation monitor_feeds ::
  "'w callback_fun \<Rightarrow> addr \<Rightarrow> 'w hs_state \<Rightarrow> feed_event list \<Rightarrow> 'w hs_state \<Rightarrow> bool" where
  "monitor_feeds call mp \<equiv> feeds idle new_device (announce call mp) (hs_monitor_remove call mp)"

lemma monitor_feeds_idle: "idle s s' \<Longrightarrow> monitor_feeds call mp s [] s'"
  using feeds_env [where env = idle] by blast

lemma monitor_feeds_arrive:
  assumes "idle s s1" and "new_device s1 p d" and "announce call mp p d s1 = Some (r, s')"
  shows "monitor_feeds call mp s [Arrive (d_key d, d_iface d)] s'"
  using feed_env [where env = idle, OF assms(1)
      feed_arrive [where fresh = new_device and arrive = "announce call mp", OF assms(2,3) feed_nil]]
  by blast

lemma monitor_feeds_depart:
  assumes "hs_monitor_remove call mp key s = Some s'"
  shows "monitor_feeds call mp s [Depart key] s'"
  using feed_depart [where depart = "hs_monitor_remove call mp", OF assms feed_nil] by blast

interpretation mon: device_registry "knows call mp" idle new_device "announce call mp" "hs_monitor_remove call mp"
  by unfold_locales (auto intro: knows_idle announce_run withdraw_run)

end
