(* ===== verification/PlatformFeed.thy ===== *)
theory PlatformFeed
  imports DeviceFeed Posix
begin

text \<open>
  What the monitors of the platforms share: the structure every one of them extends, the allocation of
  devices, and the lemmas on steps that leave the monitor and a part of the outside world alone.
\<close>

section \<open>The world during a notification\<close>

text \<open>A part \<open>g\<close> of the outside world that no callback touches is not touched by the monitor either.\<close>

definition keeps :: "('w \<Rightarrow> 'g) \<Rightarrow> 'w callback_fun \<Rightarrow> bool" where
  "keeps g call \<longleftrightarrow> (\<forall>f dev u s r s'. call f dev u s = Some (r, s') \<longrightarrow> g (ext s') = g (ext s))"

lemma keepsD: "keeps g call \<Longrightarrow> call f dev u s = Some (r, s') \<Longrightarrow> g (ext s') = g (ext s)"
  by (auto simp: keeps_def)

lemma trigger_body_ext:
  assumes k: "keeps g call" and run: "trigger_body call dev x s = Some (fl, s')"
  shows "g (ext s') = g (ext s)"
  using run by (auto simp: trigger_body_def split: bind_splits if_splits dest!: keepsD [OF k])

lemma trigger_callbacks_ext:
  assumes k: "keeps g call" and run: "trigger_callbacks call dev s = Some (r, s')"
  shows "g (ext s') = g (ext s)"
proof -
  have loop: "g (ext (snd (snd z))) = g (ext s0)"
    if "ring_loop nx (trigger_body call dev) h c n s0 = Some z" for nx h c n s0 z
    by (rule ring_loop_preserves [where \<phi> = "\<lambda>s. g (ext s)", OF _ that]) (rule trigger_body_ext [OF k])
  show ?thesis
    using run by (auto simp: trigger_callbacks_def hs_list_foreach_def split: bind_splits flow.splits if_splits
        dest!: loop)
qed

lemma hs_device_unref_ext: "hs_device_unref dev s = Some s' \<Longrightarrow> ext s' = ext s"
  by (auto simp: hs_device_unref_def split: if_splits bind_splits)

lemma hash_loop_ext:
  assumes body: "\<And>x s fl s'. body x s = Some (fl, s') \<Longrightarrow> g (ext s') = g (ext s)"
    and run: "hs_htable_foreach_hash mem t k body s = Some (fl, s')"
  shows "g (ext s') = g (ext s)"
proof -
  have loop: "g (ext (snd (snd z))) = g (ext s0)"
    if "ring_loop nx (hash_filter mem k body) h c n s0 = Some z" for nx h c n s0 z
    by (rule ring_loop_preserves [where \<phi> = "\<lambda>s. g (ext s)", OF _ that])
      (auto simp: hash_filter_def split: bind_splits if_splits dest: body)
  show ?thesis
    using run by (auto simp: hs_htable_foreach_hash_def split: bind_splits if_splits dest!: loop)
qed

lemma hs_monitor_add_ext:
  assumes k: "keeps g call" and run: "hs_monitor_add call mp p s = Some (r, s')"
  shows "g (ext s') = g (ext s)"
proof -
  have body: "g (ext s') = g (ext s)" if "add_search_body key i x s = Some (fl, s')"
    for key i x s s' and fl :: "int flow"
    using that by (auto simp: add_search_body_def split: bind_splits if_splits)
  show ?thesis
    using run by (auto simp: hs_monitor_add_def hs_device_ref_def bind_c_assert Let_def split: bind_splits flow.splits if_splits
        dest!: hash_loop_ext [where g = g, rotated] trigger_callbacks_ext [OF k] dest: body)
qed

lemma hs_monitor_remove_ext:
  assumes k: "keeps g call" and run: "hs_monitor_remove call mp key s = Some s'"
  shows "g (ext s') = g (ext s)"
proof -
  have body: "g (ext s') = g (ext s)" if "remove_body call key x s = Some (fl, s')" for x s s' fl
    using that by (auto simp: remove_body_def Let_def split: bind_splits if_splits
        dest!: trigger_callbacks_ext [OF k] hs_device_unref_ext)
  show ?thesis
    using run by (auto simp: hs_monitor_remove_def split: bind_splits dest!: hash_loop_ext [where g = g, rotated] dest: body)
qed

lemma announce_ext:
  "keeps g call \<Longrightarrow> announce call mp p d s = Some (r, s') \<Longrightarrow> g (ext s') = g (ext s)"
  by (auto simp: announce_def device_alloc_def split: bind_splits dest!: hs_monitor_add_ext hs_device_unref_ext)

section \<open>Quiet steps\<close>

text \<open>Steps that change nothing but the log and the world, and leave \<open>g\<close> of the world.\<close>

definition quiet :: "('w \<Rightarrow> 'g) \<Rightarrow> 'w hs_state \<Rightarrow> 'w hs_state \<Rightarrow> bool" where
  "quiet g s s' \<longleftrightarrow> idle s s' \<and> g (ext s') = g (ext s)"

lemma quiet_refl [simp]: "quiet g s s"
  by (simp add: quiet_def)

lemma quiet_trans: "quiet g s s' \<Longrightarrow> quiet g s' s'' \<Longrightarrow> quiet g s s''"
  by (simp add: quiet_def idle_def)

lemma quiet_fail [simp]: "quiet g s (snd (fail_with e m s))"
  by (simp add: quiet_def idle_def)

lemma quiet_ext: "g w = g (ext s) \<Longrightarrow> quiet g s (s\<lparr>ext := w\<rparr>)"
  by (simp add: quiet_def idle_def)

lemma quiet_knows: "quiet g s s' \<Longrightarrow> knows call mp s K \<Longrightarrow> knows call mp s' K"
  by (auto simp: quiet_def intro: knows_idle)

lemma sys_quiet: "g (snd (f (ext s))) = g (ext s) \<Longrightarrow> quiet g s (snd (sys f s))"
  by (simp add: sys_eq quiet_ext)

lemma sys_do_quiet: "g (f (ext s)) = g (ext s) \<Longrightarrow> quiet g s (sys_do f s)"
  by (simp add: sys_do_def quiet_ext)

text \<open>A warning.\<close>

definition warn :: "string \<Rightarrow> 'w hs_state \<Rightarrow> 'w hs_state" where
  "warn msg s = log_msg HS_LOG_WARNING msg s"

text \<open>What no call to the system changes, with a part \<open>g\<close> of the world; \<open>quiet\<close> as an equation.\<close>

definition obs :: "('w \<Rightarrow> 'g) \<Rightarrow> 'w hs_state \<Rightarrow>
    (list_mem \<times> htable_mem \<times> (addr \<rightharpoonup> hs_device) \<times> (addr \<rightharpoonup> hs_callback) \<times> (addr \<rightharpoonup> hs_monitor)) \<times> 'g" where
  "obs g s = ((lists s, nodes s, devs s, cbs s, mons s), g (ext s))"

lemma quiet_obs: "quiet g s s' \<longleftrightarrow> obs g s' = obs g s"
  by (auto simp: quiet_def idle_def obs_def)

lemma obs_log [simp]: "obs g (log_msg level msg s) = obs g s" "obs g (warn msg s) = obs g s"
  by (simp_all add: obs_def log_msg_def warn_def)

lemma obs_fail: "fail_with e m s = (r, s') \<Longrightarrow> obs g s' = obs g s \<and> r = err_val e"
  by (auto simp: obs_def fail_with_eq)

lemma obs_sys: "sys f s = (x, s') \<Longrightarrow> (\<And>w. g (snd (f w)) = g w) \<Longrightarrow> obs g s' = obs g s"
  by (auto simp: obs_def sys_def split: prod.splits) (metis snd_conv)

lemma obs_sys_do: "(\<And>w. g (f w) = g w) \<Longrightarrow> obs g (sys_do f s) = obs g s"
  by (simp add: obs_def sys_do_def)

lemma fst_sys: "sys f s = (x, s') \<Longrightarrow> fst (f (ext s)) = x"
  by (auto simp: sys_def split: prod.splits)

section \<open>Allocation\<close>

text \<open>An address \<open>calloc\<close> may return: not null, and no object is there.\<close>

definition vacant :: "'w hs_state \<Rightarrow> addr \<Rightarrow> bool" where
  "vacant s p \<longleftrightarrow> p \<noteq> NULL \<and> devs s p = None \<and> h_next (nodes s) p = None \<and> h_key (nodes s) p = None"

definition allocates :: "('w hs_state \<Rightarrow> addr) \<Rightarrow> bool" where
  "allocates alloc \<longleftrightarrow> (\<forall>s. alloc s = NULL \<or> vacant s (alloc s))"

lemma allocatesD:
  assumes "allocates alloc" and "alloc s \<noteq> NULL"
  shows "vacant s (alloc s)"
  using spec [OF assms(1) [unfolded allocates_def], of s] assms(2) by simp

lemma vacant_idle: "vacant s p \<Longrightarrow> idle s s' \<Longrightarrow> vacant s' p"
  by (simp add: vacant_def idle_def)

text \<open>Dropping a device that was not announced restores the state.\<close>

lemma unref_unannounced:
  assumes v: "vacant s p" and d: "refcount d = 1"
  shows "hs_device_unref p (device_alloc p d s) = Some s"
proof -
  have "hnode_free (hnode_alloc (nodes s) p) p = nodes s" "(devs s)(p := None) = devs s"
    using v by (auto simp: vacant_def hnode_free_def hnode_alloc_def fun_upd_idem)
  then show ?thesis using v d by (simp add: hs_device_unref_def device_free_def device_alloc_def vacant_def)
qed

text \<open>A monitor structure at \<open>p\<close> from \<open>calloc\<close>, and its release.\<close>

definition zero_monitor :: hs_monitor where
  "zero_monitor = \<lparr>callback_id = 0, m_devices = \<lparr>ht_size = 0, ht_heads = NULL\<rparr>\<rparr>"

definition monitor_alloc :: "addr \<Rightarrow> 'w hs_state \<Rightarrow> 'w hs_state" where
  "monitor_alloc p s = s\<lparr>lists := list_alloc (lists s) p, mons := (mons s)(p \<mapsto> zero_monitor)\<rparr>"

definition monitor_free :: "addr \<Rightarrow> 'w hs_state \<Rightarrow> 'w hs_state" where
  "monitor_free p s = s\<lparr>lists := list_free (lists s) p, mons := (mons s)(p := None)\<rparr>"

section \<open>A new monitor\<close>

lemma release_empty:
  assumes "mons s p = Some mon" and "ht_size (m_devices mon) = 0" and "p \<noteq> NULL"
    and "l_next (lists s) p = Some NULL \<or> l_next (lists s) p = Some p"
  shows "\<exists>s'. hs_monitor_release p s = Some s'"
proof -
  have "hs_list_foreach lists release_callback_body p s = Some (Continue, s)"
    using assms(3,4) by (auto simp: hs_list_foreach_def ring_loop.simps)
  moreover have "hs_htable_foreach nodes (m_devices mon) release_device_body s = Some (Continue, s)"
    using assms(2) by (simp add: hs_htable_foreach_def htable_outer.simps)
  ultimately show ?thesis using assms(1) by (simp add: hs_monitor_release_def)
qed

lemma release_knows: "knows call p s K \<Longrightarrow> \<exists>s'. hs_monitor_release p s = Some s'"
  by (erule knowsE) (blast dest: release_run)

lemma monitor_init_run:
  assumes "mons s p = Some zero_monitor" and "list_allocated (lists s) p" and "friendly call"
    and "{hp ..< hp + 64} \<inter> dom (devs s) = {}"
  shows "\<exists>r s'. hs_monitor_init hp p s = Some (r, s') \<and> ext s' = ext s \<and>
     (hp \<noteq> NULL \<and> r = 0 \<and> knows call p s' {} \<or>
      hp = NULL \<and> r < 0 \<and> (\<exists>s''. hs_monitor_release p s' = Some s''))"
proof (cases "hp = NULL")
  case True
  obtain l where l: "hs_list_init (lists s) p = Some l" "ring l p []" using hs_list_init_ring [OF assms(2)] by blast
  let ?s = "s\<lparr>lists := l, logs := snd (hs_error HS_ERROR_MEMORY None (logs s)),
     mons := (mons s)(p \<mapsto> zero_monitor)\<rparr>"
  have "hs_monitor_init hp p s = Some (-1, ?s)"
    using True assms(1) l(1) hs_error_code [of HS_ERROR_MEMORY None "logs s"]
    by (cases "hs_error HS_ERROR_MEMORY None (logs s)")
      (simp add: hs_monitor_init_def hs_htable_init_def zero_monitor_def)
  moreover have "p \<noteq> NULL" "l_next l p = Some p"
    using assms(2) ring_next_head [OF l(2)] by (simp_all add: list_allocated_def)
  then have "\<exists>s''. hs_monitor_release p ?s = Some s''"
    by (intro release_empty [of _ _ zero_monitor]) (simp_all add: zero_monitor_def)
  ultimately show ?thesis using True by auto
next
  case False
  obtain s' where s': "hs_monitor_init hp p s = Some (0, s')" "monitor_rep s' p [] (replicate 64 [])"
      "ids_ok s' p []" "devs s' = devs s" "ext s' = ext s"
      "mons s' = (mons s)(p \<mapsto> zero_monitor\<lparr>m_devices := (m_devices zero_monitor)\<lparr>ht_heads := hp, ht_size := 64\<rparr>\<rparr>)"
    using init_run [OF assms(1,2) False] by (auto simp: zero_monitor_def)
  have "apart s' p" using s'(4,6) assms(4) by (auto simp: apart_def slots_def)
  moreover have "p \<noteq> NULL" using assms(2) by (simp add: list_allocated_def)
  ultimately have "knows call p s' {}"
    using s'(2,3) assms(3) registry_empty [of s' 64] by (auto intro: knowsI)
  with s'(1,5) False show ?thesis by blast
qed

end
