(* ===== verification/MonitorLinux.thy ===== *)
theory MonitorLinux
  imports PlatformFeed DevicePosix
begin

text \<open>
  Model of \<open>src/monitor_linux.c\<close>: reading the description of a device from udev, enumeration, and the
  monitor that follows udev's events. libudev is a record of functions: the getters of a
  \<open>struct udev_device\<close> are functions of the device, a value of type \<open>'u\<close>, and every other call takes
  the outside world. \<open>alloc s\<close> is the result of \<open>calloc\<close> for a device, null when it fails.
  A getter that returns a string is taken to leave \<open>errno\<close> at zero.
\<close>

section \<open>libudev\<close>

record ('w, 'u) udev_api =
  u_new :: "'w \<Rightarrow> nat \<times> 'w"
  u_unref :: "nat \<Rightarrow> 'w \<Rightarrow> 'w"
  u_enumerate_new :: "nat \<Rightarrow> 'w \<Rightarrow> nat \<times> 'w"
  u_enumerate_unref :: "nat \<Rightarrow> 'w \<Rightarrow> 'w"
  u_match_is_initialized :: "nat \<Rightarrow> 'w \<Rightarrow> 'w"
  u_match_subsystem :: "nat \<Rightarrow> string \<Rightarrow> 'w \<Rightarrow> int \<times> 'w"
  u_scan_devices :: "nat \<Rightarrow> 'w \<Rightarrow> int \<times> 'w"
  u_list_entries :: "nat \<Rightarrow> 'w \<Rightarrow> string list"
  u_new_from_syspath :: "nat \<Rightarrow> string \<Rightarrow> 'w \<Rightarrow> (errno + 'u) \<times> 'w"
  u_device_unref :: "'u \<Rightarrow> 'w \<Rightarrow> 'w"
  u_subsystem :: "'u \<Rightarrow> string option"
  u_devnode :: "'u \<Rightarrow> string option"
  u_devpath :: "'u \<Rightarrow> string"
  u_sysattr :: "'u \<Rightarrow> string \<Rightarrow> string option"
  u_parent :: "'u \<Rightarrow> string \<Rightarrow> string \<Rightarrow> 'u option"
  u_action :: "'u \<Rightarrow> string"
  u_monitor_new :: "nat \<Rightarrow> string \<Rightarrow> 'w \<Rightarrow> nat \<times> 'w"
  u_monitor_unref :: "nat \<Rightarrow> 'w \<Rightarrow> 'w"
  u_monitor_filter :: "nat \<Rightarrow> string \<Rightarrow> 'w \<Rightarrow> int \<times> 'w"
  u_monitor_enable :: "nat \<Rightarrow> 'w \<Rightarrow> int \<times> 'w"
  u_monitor_receive :: "nat \<Rightarrow> 'w \<Rightarrow> (errno option + 'u) \<times> 'w"
  u_monitor_fd :: "nat \<Rightarrow> int"
  u_access :: "string \<Rightarrow> 'w \<Rightarrow> bool"
  u_strdup :: "string \<Rightarrow> 'w \<Rightarrow> bool \<times> 'w"

text \<open>The static variable \<open>udev\<close>, and the field \<open>monitor\<close> of each monitor structure.\<close>

record linux_vars =
  v_udev :: nat
  v_monitor :: "addr \<rightharpoonup> nat"

definition device_subsystems :: "string list" where
  "device_subsystems = [''input'', ''hidraw'', ''tty'']"

section \<open>Device descriptions\<close>

text \<open>\<open>strdup\<close> of a string, and of the string of an attribute that may be missing.\<close>

definition strdup :: "('w, 'u) udev_api \<Rightarrow> string \<Rightarrow> 'w hs_state \<Rightarrow> bool \<times> 'w hs_state" where
  "strdup U str s = sys (u_strdup U str) s"

text \<open>The location, null when it is not known; the result of \<open>asprintf\<close> needs memory, too.\<close>

definition compute_device_location ::
  "('w, 'u) udev_api \<Rightarrow> 'u \<Rightarrow> 'w hs_state \<Rightarrow> int \<times> string option \<times> 'w hs_state" where
  "compute_device_location U ud s =
     (case (u_sysattr U ud ''busnum'', u_sysattr U ud ''devpath'') of
        (Some busnum, Some devpath) \<Rightarrow>
          (let loc = ''usb-'' @ busnum @ ''-'' @ devpath; (ok, s) = strdup U loc s in
           if \<not> ok then (let (r, s) = fail_with HS_ERROR_MEMORY None s in (r, None, s))
           else (1, Some (map (\<lambda>c. if c = CHR ''.'' then CHR ''-'' else c) loc), s))
      | _ \<Rightarrow> (0, None, s))"

text \<open>The devices of \<open>struct udev_aggregate\<close>.\<close>

record 'u udev_aggregate =
  agg_dev :: 'u
  agg_usb :: 'u
  agg_iface :: 'u

text \<open>
  \<open>fill_device_details\<close> works on the device structure in four parts: the kind of the device, its path
  and key, its numbers, and its strings. Each gives the value the function returns so far, positive
  to go on, with the device as it was filled until then.
\<close>

definition fill_type :: "('w, 'u) udev_api \<Rightarrow> 'u udev_aggregate \<Rightarrow> hs_device \<Rightarrow> int \<times> hs_device" where
  "fill_type U agg d =
     (case u_subsystem U (agg_dev agg) of
        None \<Rightarrow> (0, d)
      | Some buf \<Rightarrow>
          if buf = ''hidraw'' then (1, d\<lparr>d_type := HS_DEVICE_TYPE_HID, d_vtable := Hs_linux_hid_vtable\<rparr>)
          else if buf = ''tty'' then (1, d\<lparr>d_type := HS_DEVICE_TYPE_SERIAL, d_vtable := Hs_posix_device_vtable\<rparr>)
          else (0, d))"

definition fill_names ::
  "('w, 'u) udev_api \<Rightarrow> 'u udev_aggregate \<Rightarrow> hs_device \<Rightarrow> 'w hs_state \<Rightarrow> int \<times> hs_device \<times> 'w hs_state" where
  "fill_names U agg d s =
     (case u_devnode U (agg_dev agg) of
        None \<Rightarrow> (0, d, s)
      | Some buf \<Rightarrow>
          if \<not> u_access U buf (ext s) then (0, d, s)
          else
            (let (ok, s) = strdup U buf s in
             if \<not> ok then (let (r, s) = fail_with HS_ERROR_MEMORY None s in (r, d, s))
             else
               (let d = d\<lparr>d_path := Some buf\<rparr>; key = u_devpath U (agg_dev agg); (ok, s) = strdup U key s in
                if \<not> ok then (let (r, s) = fail_with HS_ERROR_MEMORY None s in (r, d, s))
                else
                  (let d = d\<lparr>d_key := Some key\<rparr>; (r, loc, s) = compute_device_location U (agg_usb agg) s in
                   (r, if r \<le> 0 then d else d\<lparr>d_location := loc\<rparr>, s)))))"

definition fill_ids :: "('w, 'u) udev_api \<Rightarrow> 'u udev_aggregate \<Rightarrow> hs_device \<Rightarrow> int \<times> hs_device" where
  "fill_ids U agg d =
     (case u_sysattr U (agg_usb agg) ''idVendor'' of
        None \<Rightarrow> (0, d)
      | Some buf \<Rightarrow>
          (let (v, err) = strtoul buf 16; d = d\<lparr>d_vid := ucast v\<rparr> in
           if err then (0, d)
           else
             (case u_sysattr U (agg_usb agg) ''idProduct'' of
                None \<Rightarrow> (0, d)
              | Some buf \<Rightarrow>
                  (let (v, err) = strtoul buf 16; d = d\<lparr>d_pid := ucast v\<rparr> in
                   (if err then 0 else 1, d)))))"

definition fill_string ::
  "('w, 'u) udev_api \<Rightarrow> string option \<Rightarrow> (string option \<Rightarrow> hs_device \<Rightarrow> hs_device) \<Rightarrow> hs_device \<Rightarrow> 'w hs_state
     \<Rightarrow> int \<times> hs_device \<times> 'w hs_state" where
  "fill_string U buf upd d s =
     (case buf of
        None \<Rightarrow> (1, d, s)
      | Some str \<Rightarrow>
          (let (ok, s) = strdup U str s in
           if \<not> ok then (let (r, s) = fail_with HS_ERROR_MEMORY None s in (r, d, s)) else (1, upd (Some str) d, s)))"

definition fill_iface :: "('w, 'u) udev_api \<Rightarrow> 'u udev_aggregate \<Rightarrow> hs_device \<Rightarrow> int \<times> hs_device" where
  "fill_iface U agg d =
     (let buf = u_devpath U (agg_iface agg); (v, err) = strtoul (drop (length buf - 1) buf) 10 in
      (if err then 0 else 1, d\<lparr>d_iface := ucast v\<rparr>))"

definition fill_strings ::
  "('w, 'u) udev_api \<Rightarrow> 'u udev_aggregate \<Rightarrow> hs_device \<Rightarrow> 'w hs_state \<Rightarrow> int \<times> hs_device \<times> 'w hs_state" where
  "fill_strings U agg d s =
     (let (r, d, s) = fill_string U (u_sysattr U (agg_usb agg) ''manufacturer'') (\<lambda>x d. d\<lparr>d_manufacturer := x\<rparr>) d s in
      if r < 0 then (r, d, s)
      else
        (let (r, d, s) = fill_string U (u_sysattr U (agg_usb agg) ''product'') (\<lambda>x d. d\<lparr>d_product := x\<rparr>) d s in
         if r < 0 then (r, d, s)
         else
           (let (r, d, s) = fill_string U (u_sysattr U (agg_usb agg) ''serial'') (\<lambda>x d. d\<lparr>d_serial := x\<rparr>) d s in
            if r < 0 then (r, d, s) else (let (r, d) = fill_iface U agg d in (r, d, s)))))"

definition fill_device_details ::
  "('w, 'u) udev_api \<Rightarrow> hs_device \<Rightarrow> 'u udev_aggregate \<Rightarrow> 'w hs_state \<Rightarrow> int \<times> hs_device \<times> 'w hs_state" where
  "fill_device_details U d agg s =
     (let (r, d) = fill_type U agg d in
      if r \<le> 0 then (r, d, s)
      else
        (let (r, d, s) = fill_names U agg d s in
         if r \<le> 0 then (r, d, s)
         else
           (let (r, d) = fill_ids U agg d in
            if r \<le> 0 then (r, d, s) else fill_strings U agg d s)))"

text \<open>
  The new device is at \<open>alloc s\<close>; no one else knows the address while the structure is filled, so it
  enters the store filled. Without a result it is dropped again, and \<open>*rdev\<close> is not written.
\<close>

definition read_device_information ::
  "('w, 'u) udev_api \<Rightarrow> ('w hs_state \<Rightarrow> addr) \<Rightarrow> 'u \<Rightarrow> 'w hs_state \<Rightarrow> (int \<times> addr \<times> 'w hs_state) option" where
  "read_device_information U alloc ud s =
     (case (u_parent U ud ''usb'' ''usb_device'', u_parent U ud ''usb'' ''usb_interface'') of
        (Some usb, Some iface) \<Rightarrow>
          if alloc s = NULL then (let (r, s) = fail_with HS_ERROR_MEMORY None s in Some (r, NULL, s))
          else do {
            let p = alloc s;
            let (r, d, s) = fill_device_details U (zero_device\<lparr>refcount := 1\<rparr>)
                              \<lparr>agg_dev = ud, agg_usb = usb, agg_iface = iface\<rparr> s;
            let s = device_alloc p d s;
            if r \<le> 0 then do { s \<leftarrow> hs_device_unref p s; Some (r, NULL, s) }
            else Some (1, p, s)
          }
      | _ \<Rightarrow> Some (0, NULL, s))"

section \<open>Enumeration\<close>

text \<open>The mutex makes the initialisation atomic; it is modelled as one step.\<close>

definition init_udev ::
  "('w, 'u) udev_api \<Rightarrow> linux_vars \<Rightarrow> 'w hs_state \<Rightarrow> int \<times> linux_vars \<times> 'w hs_state" where
  "init_udev U v s =
     (if v_udev v \<noteq> NULL then (0, v, s)
      else
        (let (u, s) = sys (u_new U) s; v = v\<lparr>v_udev := u\<rparr> in
         if u = NULL
         then (let (r, s) = fail_with HS_ERROR_SYSTEM (Some ''udev_new() failed'') s in (r, v, s))
         else (0, v, s)))"

text \<open>The \<open>_HS_EXIT()\<close> function of the file.\<close>

definition exit_udev :: "('w, 'u) udev_api \<Rightarrow> linux_vars \<Rightarrow> 'w hs_state \<Rightarrow> 'w hs_state" where
  "exit_udev U v s = sys_do (u_unref U (v_udev v)) s"

text \<open>
  The loops over \<open>device_subsystems\<close>; \<open>add\<close> is the call for one of them, \<open>fail\<close> what is done with a
  negative result.
\<close>

fun match_subsystems ::
  "(string \<Rightarrow> 'w \<Rightarrow> int \<times> 'w) \<Rightarrow> ('w hs_state \<Rightarrow> int \<times> 'w hs_state) \<Rightarrow> string list \<Rightarrow> int \<Rightarrow> 'w hs_state
     \<Rightarrow> int \<times> 'w hs_state" where
  "match_subsystems add fail [] r s = (r, s)"
| "match_subsystems add fail (cur # rest) r s =
     (let (r, s) = sys (add cur) s in
      if r < 0 then fail s else match_subsystems add fail rest r s)"

text \<open>The loop over the entries found; \<open>f\<close> is the user's function with its user data.\<close>

fun enumerate_entries ::
  "('w, 'u) udev_api \<Rightarrow> ('w hs_state \<Rightarrow> addr) \<Rightarrow> nat \<Rightarrow> (addr \<Rightarrow> 'w hs_state \<Rightarrow> (int \<times> 'w hs_state) option)
     \<Rightarrow> string list \<Rightarrow> 'w hs_state \<Rightarrow> (int \<times> 'w hs_state) option" where
  "enumerate_entries U alloc udev f [] s = Some (0, s)"
| "enumerate_entries U alloc udev f (name # rest) s =
     (case sys (u_new_from_syspath U udev name) s of
        (Inl e, s) \<Rightarrow>
          if e = ENOMEM then Some (fail_with HS_ERROR_MEMORY None s)
          else enumerate_entries U alloc udev f rest s
      | (Inr ud, s) \<Rightarrow> do {
          (r, dev, s) \<leftarrow> read_device_information U alloc ud s;
          let s = sys_do (u_device_unref U ud) s;
          if r < 0 then Some (r, s)
          else if r = 0 then enumerate_entries U alloc udev f rest s
          else do {
            (r, s) \<leftarrow> f dev s;
            s \<leftarrow> hs_device_unref dev s;
            if r \<noteq> 0 then Some (r, s) else enumerate_entries U alloc udev f rest s
          }
        })"

text \<open>The filters, the scan and the loop, for the enumeration object \<open>e\<close>.\<close>

definition enumerate_scan ::
  "('w, 'u) udev_api \<Rightarrow> ('w hs_state \<Rightarrow> addr) \<Rightarrow> (addr \<Rightarrow> 'w hs_state \<Rightarrow> (int \<times> 'w hs_state) option)
     \<Rightarrow> nat \<Rightarrow> nat \<Rightarrow> 'w hs_state \<Rightarrow> (int \<times> 'w hs_state) option" where
  "enumerate_scan U alloc f udev e s =
     (let s = sys_do (u_match_is_initialized U e) s;
          (r, s) = match_subsystems (u_match_subsystem U e) (fail_with HS_ERROR_MEMORY None) device_subsystems 0 s in
      if r < 0 then Some (r, s)
      else
        (let (r, s) = sys (u_scan_devices U e) s in
         if r < 0 then Some (fail_with HS_ERROR_SYSTEM (Some ''udev_enumerate_scan_devices() failed'') s)
         else enumerate_entries U alloc udev f (u_list_entries U e (ext s)) s))"

text \<open>\<open>cleanup:\<close> releases the enumeration object, if there is one.\<close>

definition enumerate_devices ::
  "('w, 'u) udev_api \<Rightarrow> ('w hs_state \<Rightarrow> addr) \<Rightarrow> (addr \<Rightarrow> 'w hs_state \<Rightarrow> (int \<times> 'w hs_state) option)
     \<Rightarrow> linux_vars \<Rightarrow> 'w hs_state \<Rightarrow> (int \<times> linux_vars \<times> 'w hs_state) option" where
  "enumerate_devices U alloc f v s = do {
     let (r, v, s) = init_udev U v s;
     (r, e, s) \<leftarrow>
       (if r < 0 then Some (r, NULL, s)
        else do {
          let (e, s) = sys (u_enumerate_new U (v_udev v)) s;
          if e = NULL then (let (r, s) = fail_with HS_ERROR_MEMORY None s in Some (r, NULL, s))
          else do {
            (r, s) \<leftarrow> enumerate_scan U alloc f (v_udev v) e s;
            Some (r, e, s)
          }
        });
     Some (r, v, sys_do (u_enumerate_unref U e) s)
   }"

definition hs_enumerate ::
  "('w, 'u) udev_api \<Rightarrow> ('w hs_state \<Rightarrow> addr) \<Rightarrow> 'w callback_fun \<Rightarrow> fptr \<Rightarrow> udata \<Rightarrow> linux_vars \<Rightarrow> 'w hs_state
     \<Rightarrow> (int \<times> linux_vars \<times> 'w hs_state) option" where
  "hs_enumerate U alloc call f udata v s = do {
     c_assert (f \<noteq> NULL);
     enumerate_devices U alloc (\<lambda>dev. call f dev udata) v s
   }"

definition monitor_enumerate_callback ::
  "'w callback_fun \<Rightarrow> addr \<Rightarrow> addr \<Rightarrow> 'w hs_state \<Rightarrow> (int \<times> 'w hs_state) option" where
  "monitor_enumerate_callback call monitor dev s = hs_monitor_add call monitor dev s"

section \<open>The monitor\<close>

definition hs_monitor_free ::
  "('w, 'u) udev_api \<Rightarrow> addr \<Rightarrow> linux_vars \<Rightarrow> 'w hs_state \<Rightarrow> (linux_vars \<times> 'w hs_state) option" where
  "hs_monitor_free U monitor v s =
     (if monitor = NULL then Some (v, s)
      else do {
        s \<leftarrow> hs_monitor_release monitor s;
        m \<leftarrow> v_monitor v monitor;
        let s = sys_do (u_monitor_unref U m) s;
        Some (v\<lparr>v_monitor := (v_monitor v)(monitor := None)\<rparr>, monitor_free monitor s)
      })"

text \<open>\<open>error:\<close> frees the monitor and returns the code; \<open>*rmonitor\<close> is not written.\<close>

definition monitor_new_fail ::
  "('w, 'u) udev_api \<Rightarrow> addr \<Rightarrow> linux_vars \<Rightarrow> int \<times> 'w hs_state \<Rightarrow> (int \<times> addr option \<times> linux_vars \<times> 'w hs_state) option"
where
  "monitor_new_fail U monitor v rs = do {
     (v, s) \<leftarrow> hs_monitor_free U monitor v (snd rs);
     Some (fst rs, None, v, s)
   }"

text \<open>From the connection to udev on; \<open>hp\<close> is the result of \<open>malloc\<close> for the heads of the device table.\<close>

definition monitor_connect ::
  "('w, 'u) udev_api \<Rightarrow> ('w hs_state \<Rightarrow> addr) \<Rightarrow> 'w callback_fun \<Rightarrow> addr \<Rightarrow> addr \<Rightarrow> nat \<Rightarrow> linux_vars \<Rightarrow> 'w hs_state
     \<Rightarrow> (int \<times> addr option \<times> linux_vars \<times> 'w hs_state) option" where
  "monitor_connect U alloc call monitor hp m v s = do {
     let (r, s) = match_subsystems (u_monitor_filter U m)
       (fail_with HS_ERROR_SYSTEM (Some ''udev_monitor_filter_add_match_subsystem_devtype() failed''))
       device_subsystems 0 s;
     if r < 0 then monitor_new_fail U monitor v (r, s)
     else do {
       let (r, s) = sys (u_monitor_enable U m) s;
       if r < 0
       then monitor_new_fail U monitor v
              (fail_with HS_ERROR_SYSTEM (Some ''udev_monitor_enable_receiving() failed'') s)
       else do {
         (r, s) \<leftarrow> hs_monitor_init hp monitor s;
         if r < 0 then monitor_new_fail U monitor v (r, s)
         else do {
           (r, v, s) \<leftarrow> enumerate_devices U alloc (monitor_enumerate_callback call monitor) v s;
           if r < 0 then monitor_new_fail U monitor v (r, s)
           else Some (0, Some monitor, v, s)
         }
       }
     }
   }"

text \<open>\<open>p\<close> is the result of \<open>calloc\<close> for the monitor.\<close>

definition hs_monitor_new ::
  "('w, 'u) udev_api \<Rightarrow> ('w hs_state \<Rightarrow> addr) \<Rightarrow> 'w callback_fun \<Rightarrow> addr \<Rightarrow> addr \<Rightarrow> linux_vars \<Rightarrow> 'w hs_state
     \<Rightarrow> (int \<times> addr option \<times> linux_vars \<times> 'w hs_state) option" where
  "hs_monitor_new U alloc call p hp v s = do {
     let (r, v, s) = init_udev U v s;
     if r < 0 then monitor_new_fail U NULL v (r, s)
     else if p = NULL then monitor_new_fail U NULL v (fail_with HS_ERROR_MEMORY None s)
     else do {
       let (m, s) = sys (u_monitor_new U (v_udev v) ''udev'') (monitor_alloc p s);
       let v = v\<lparr>v_monitor := (v_monitor v)(p \<mapsto> m)\<rparr>;
       if m = NULL
       then monitor_new_fail U p v
              (fail_with HS_ERROR_SYSTEM (Some ''udev_monitor_new_from_netlink() failed'') s)
       else monitor_connect U alloc call p hp m v s
     }
   }"

definition hs_monitor_get_descriptor :: "('w, 'u) udev_api \<Rightarrow> addr \<Rightarrow> linux_vars \<Rightarrow> int option" where
  "hs_monitor_get_descriptor U monitor v = do {
     c_assert (monitor \<noteq> NULL);
     m \<leftarrow> v_monitor v monitor;
     Some (u_monitor_fd U m)
   }"

text \<open>One event of udev, up to the release of its device.\<close>

definition handle_event ::
  "('w, 'u) udev_api \<Rightarrow> ('w hs_state \<Rightarrow> addr) \<Rightarrow> 'w callback_fun \<Rightarrow> addr \<Rightarrow> 'u \<Rightarrow> 'w hs_state
     \<Rightarrow> (int \<times> 'w hs_state) option" where
  "handle_event U alloc call monitor ud s =
     (if u_action U ud = ''add'' then do {
        (r, dev, s) \<leftarrow> read_device_information U alloc ud s;
        (r, s) \<leftarrow> (if r > 0 then hs_monitor_add call monitor dev s else Some (r, s));
        s \<leftarrow> hs_device_unref dev s;
        Some (r, s)
      }
      else if u_action U ud = ''remove'' then do {
        s \<leftarrow> hs_monitor_remove call monitor (u_devpath U ud) s;
        Some (0, s)
      }
      else Some (0, s))"

partial_function (option) refresh_loop ::
  "('w, 'u) udev_api \<Rightarrow> ('w hs_state \<Rightarrow> addr) \<Rightarrow> 'w callback_fun \<Rightarrow> addr \<Rightarrow> nat \<Rightarrow> 'w hs_state
     \<Rightarrow> (int \<times> 'w hs_state) option" where
  "refresh_loop U alloc call monitor m s =
     (case sys (u_monitor_receive U m) s of
        (Inl e, s) \<Rightarrow> if e = Some ENOMEM then Some (fail_with HS_ERROR_MEMORY None s) else Some (0, s)
      | (Inr ud, s) \<Rightarrow> do {
          (r, s) \<leftarrow> handle_event U alloc call monitor ud s;
          let s = sys_do (u_device_unref U ud) s;
          if r < 0 then Some (r, s) else refresh_loop U alloc call monitor m s
        })"

definition hs_monitor_refresh ::
  "('w, 'u) udev_api \<Rightarrow> ('w hs_state \<Rightarrow> addr) \<Rightarrow> 'w callback_fun \<Rightarrow> addr \<Rightarrow> linux_vars \<Rightarrow> 'w hs_state
     \<Rightarrow> (int \<times> 'w hs_state) option" where
  "hs_monitor_refresh U alloc call monitor v s = do {
     c_assert (monitor \<noteq> NULL);
     m \<leftarrow> v_monitor v monitor;
     refresh_loop U alloc call monitor m s
   }"

end
