(* ===== verification/LinuxFeed.thy ===== *)
theory LinuxFeed
  imports MonitorLinux
begin

text \<open>
  Lemmas on the model of \<open>src/monitor_linux.c\<close>: the description of a udev device as a pure function,
  to which \<open>read_device_information\<close> is shown equal, and the course of an enumeration and of a refresh
  as sequences of arrivals and departures that the monitor of \<open>DeviceFeed\<close> keeps track of.
\<close>

section \<open>Descriptions\<close>

text \<open>The device nodes that exist.\<close>

definition nodes_at :: "('w, 'u) udev_api \<Rightarrow> 'w \<Rightarrow> string \<Rightarrow> bool" where
  "nodes_at U w = (\<lambda>p. u_access U p w)"

text \<open>
  The specification of \<open>read_device_information\<close>: the device structure that stands for a udev device,
  if there is one. A USB parent device and interface, a supported subsystem, a node that exists, and
  a position on the bus are required; the strings are optional.
\<close>

definition number :: "nat \<Rightarrow> string \<Rightarrow> uint64 option" where
  "number b str = (let (v, err) = strtoul str b in if err then None else Some v)"

definition kind_of :: "string \<Rightarrow> (hs_device_type \<times> vtable_id) option" where
  "kind_of sub =
     (if sub = ''hidraw'' then Some (HS_DEVICE_TYPE_HID, Hs_linux_hid_vtable)
      else if sub = ''tty'' then Some (HS_DEVICE_TYPE_SERIAL, Hs_posix_device_vtable) else None)"

definition usb_location :: "string \<Rightarrow> string \<Rightarrow> string" where
  "usb_location busnum devpath =
     map (\<lambda>c. if c = CHR ''.'' then CHR ''-'' else c) (''usb-'' @ busnum @ ''-'' @ devpath)"

definition describe :: "('w, 'u) udev_api \<Rightarrow> (string \<Rightarrow> bool) \<Rightarrow> 'u \<Rightarrow> hs_device option" where
  "describe U acc ud = do {
     usb \<leftarrow> u_parent U ud ''usb'' ''usb_device'';
     intf \<leftarrow> u_parent U ud ''usb'' ''usb_interface'';
     (ty, vt) \<leftarrow> u_subsystem U ud \<bind> kind_of;
     node \<leftarrow> u_devnode U ud;
     c_assert (acc node);
     busnum \<leftarrow> u_sysattr U usb ''busnum'';
     devpath \<leftarrow> u_sysattr U usb ''devpath'';
     vid \<leftarrow> u_sysattr U usb ''idVendor'' \<bind> number 16;
     pid \<leftarrow> u_sysattr U usb ''idProduct'' \<bind> number 16;
     n \<leftarrow> number 10 (drop (length (u_devpath U intf) - 1) (u_devpath U intf));
     Some \<lparr>d_monitor = NULL, refcount = 1, d_key = Some (u_devpath U ud), d_type = ty, d_vtable = vt,
       d_state = HS_DEVICE_STATUS_DISCONNECTED, d_location = Some (usb_location busnum devpath),
       d_path = Some node, d_vid = ucast vid, d_pid = ucast pid,
       d_manufacturer = u_sysattr U usb ''manufacturer'', d_product = u_sysattr U usb ''product'',
       d_serial = u_sysattr U usb ''serial'', d_iface = ucast n\<rparr>
   }"

text \<open>
  The outcome of one part of \<open>fill_device_details\<close>: the device described by \<open>X\<close>, or no device, or a
  memory error; the reference count is the one it started with.
\<close>

definition stage ::
  "('w \<Rightarrow> 'g) \<Rightarrow> 'w hs_state \<Rightarrow> hs_device \<Rightarrow> int \<times> hs_device \<times> 'w hs_state \<Rightarrow> hs_device option \<Rightarrow> bool" where
  "stage g s d res X \<longleftrightarrow> (case res of (r, d', s') \<Rightarrow> quiet g s s' \<and> refcount d' = refcount d \<and>
     (r = 1 \<and> X = Some d' \<or> r = 0 \<and> X = None \<or> r = err_val HS_ERROR_MEMORY))"

lemma stage_Some: "refcount d' = refcount d \<Longrightarrow> stage g s d (1, d', s) (Some d')"
  by (simp add: stage_def)

lemma stage_None: "refcount d' = refcount d \<Longrightarrow> stage g s d (0, d', s) None"
  by (simp add: stage_def)

lemma stage_memory: "refcount d' = refcount d \<Longrightarrow>
     stage g s d (case fail_with HS_ERROR_MEMORY m s of (r, s) \<Rightarrow> (r, d', s)) X"
  using quiet_fail [of g s HS_ERROR_MEMORY m] by (simp add: stage_def fail_with_eq)

lemma stage_quiet:
  assumes q: "quiet g s s1" and r: "refcount d1 = refcount d" and st: "stage g s1 d1 e X"
  shows "stage g s d e X"
proof -
  obtain r d2 s2 where e: "e = (r, d2, s2)" by (cases e)
  with st have "quiet g s1 s2" by (simp add: stage_def)
  with q have "quiet g s s2" by (rule quiet_trans)
  with st e r show ?thesis by (simp add: stage_def)
qed

lemma stage_bind:
  assumes "stage g s d e X"
    and "\<And>d1 s1. refcount d1 = refcount d \<Longrightarrow> X = Some d1 \<Longrightarrow> stage g s1 d1 (k d1 s1) (F d1)"
  shows "stage g s d (case e of (r, d1, s1) \<Rightarrow> if r \<le> 0 then (r, d1, s1) else k d1 s1) (X \<bind> F)"
proof -
  obtain r d1 s1 where e: "e = (r, d1, s1)" by (cases e)
  show ?thesis
  proof (cases "r = 1")
    case True
    with assms(1) e have a: "quiet g s s1" "refcount d1 = refcount d" "X = Some d1" by (auto simp: stage_def)
    from stage_quiet [OF a(1,2) assms(2) [OF a(2,3)]] e True a(3) show ?thesis by simp
  qed (use assms(1) e in \<open>auto simp: stage_def\<close>)
qed

lemma stage_bind_neg:
  assumes "stage g s d e (Some x)"
    and "\<And>s1. refcount x = refcount d \<Longrightarrow> stage g s1 x (k x s1) Y"
  shows "stage g s d (case e of (r, d1, s1) \<Rightarrow> if r < 0 then (r, d1, s1) else k d1 s1) Y"
proof -
  obtain r d1 s1 where e: "e = (r, d1, s1)" by (cases e)
  show ?thesis
  proof (cases "r = 1")
    case True
    with assms(1) e have a: "quiet g s s1" "refcount x = refcount d" "d1 = x" by (auto simp: stage_def)
    from stage_quiet [OF a(1,2) assms(2) [OF a(2)]] e True a(3) show ?thesis by simp
  qed (use assms(1) e in \<open>auto simp: stage_def\<close>)
qed

lemma stage_pair:
  "(case p of (r, d') \<Rightarrow> r = 1 \<and> X = Some d' \<or> r = 0 \<and> X = None) \<Longrightarrow> refcount (snd p) = refcount d \<Longrightarrow>
     stage g s d (case p of (r, d') \<Rightarrow> (r, d', s)) X"
  by (cases p) (auto simp: stage_def)

text \<open>\<open>strdup\<close> keeps \<open>g\<close>.\<close>

lemma strdup_stage:
  assumes g: "\<And>str w. g (snd (u_strdup U str w)) = g w" and r: "refcount d' = refcount d"
    and k: "\<And>s1. stage g s1 d (k s1) X"
  shows "stage g s d (case strdup U str s of (ok, s) \<Rightarrow>
     if \<not> ok then (case fail_with HS_ERROR_MEMORY None s of (r, s) \<Rightarrow> (r, d', s)) else k s) X"
proof -
  obtain ok s1 where s1: "strdup U str s = (ok, s1)" by (cases "strdup U str s")
  then have "s1 = s\<lparr>ext := snd (u_strdup U str (ext s))\<rparr>" by (simp add: strdup_def sys_eq)
  then have q: "quiet g s s1" using g by (simp add: quiet_ext)
  have "stage g s1 d (case fail_with HS_ERROR_MEMORY None s1 of (r, s) \<Rightarrow> (r, d', s)) X"
    by (rule stage_memory [OF r])
  with k have "stage g s1 d (if \<not> ok then (case fail_with HS_ERROR_MEMORY None s1 of (r, s) \<Rightarrow> (r, d', s)) else k s1) X"
    by simp
  with stage_quiet [OF q refl] s1 show ?thesis by simp
qed

lemma number_case: "number b str = (case strtoul str b of (v, err) \<Rightarrow> if err then None else Some v)"
  by (simp add: number_def Let_def)

lemma fill_type_stage:
  "stage g s d (case fill_type U agg d of (r, d') \<Rightarrow> (r, d', s))
     (u_subsystem U (agg_dev agg) \<bind> kind_of \<bind> (\<lambda>(ty, vt). Some (d\<lparr>d_type := ty, d_vtable := vt\<rparr>)))"
  by (rule stage_pair) (auto simp: fill_type_def kind_of_def split: option.splits)

lemma location_stage:
  assumes g: "\<And>str w. g (snd (u_strdup U str w)) = g w"
  shows "stage g s d (case compute_device_location U ud s of (r, loc, s) \<Rightarrow>
       (r, if r \<le> 0 then d else d\<lparr>d_location := loc\<rparr>, s))
     (u_sysattr U ud ''busnum'' \<bind> (\<lambda>b. u_sysattr U ud ''devpath'' \<bind>
        (\<lambda>p. Some (d\<lparr>d_location := Some (usb_location b p)\<rparr>))))"
proof (cases "u_sysattr U ud ''busnum'' = None \<or> u_sysattr U ud ''devpath'' = None")
  case True
  then show ?thesis
    by (auto simp: compute_device_location_def stage_def split: option.splits)
next
  case False
  then obtain b p where bp: "u_sysattr U ud ''busnum'' = Some b" "u_sysattr U ud ''devpath'' = Some p" by auto
  obtain ok s1 where s1: "strdup U (''usb-'' @ b @ ''-'' @ p) s = (ok, s1)" by (cases "strdup U (''usb-'' @ b @ ''-'' @ p) s")
  then have "s1 = s\<lparr>ext := snd (u_strdup U (''usb-'' @ b @ ''-'' @ p) (ext s))\<rparr>" by (simp add: strdup_def sys_eq)
  then have q: "quiet g s s1" using g by (simp add: quiet_ext)
  then have "quiet g s (snd (fail_with HS_ERROR_MEMORY None s1))" by (rule quiet_trans) simp
  with q bp s1 show ?thesis
    by (simp add: compute_device_location_def stage_def fail_with_eq usb_location_def)
qed

lemma fill_names_stage:
  assumes g: "\<And>str w. g (snd (u_strdup U str w)) = g w"
  shows "stage g s d (fill_names U agg d s)
     (u_devnode U (agg_dev agg) \<bind> (\<lambda>node. c_assert (u_access U node (ext s)) \<bind> (\<lambda>_.
        u_sysattr U (agg_usb agg) ''busnum'' \<bind> (\<lambda>b. u_sysattr U (agg_usb agg) ''devpath'' \<bind> (\<lambda>p.
          Some (d\<lparr>d_path := Some node, d_key := Some (u_devpath U (agg_dev agg)),
            d_location := Some (usb_location b p)\<rparr>))))))"
proof (cases "u_devnode U (agg_dev agg)")
  case None
  then show ?thesis by (simp add: fill_names_def stage_None)
next
  case (Some node)
  show ?thesis
  proof (cases "u_access U node (ext s)")
    case False
    with Some show ?thesis by (simp add: fill_names_def stage_None)
  next
    case True
    let ?d = "d\<lparr>d_path := Some node\<rparr>" and ?key = "u_devpath U (agg_dev agg)"
    have loc: "stage g s1 d (case compute_device_location U (agg_usb agg) s1 of (r, loc, s) \<Rightarrow>
         (r, if r \<le> 0 then ?d\<lparr>d_key := Some ?key\<rparr> else ?d\<lparr>d_key := Some ?key\<rparr>\<lparr>d_location := loc\<rparr>, s))
       (u_sysattr U (agg_usb agg) ''busnum'' \<bind> (\<lambda>b. u_sysattr U (agg_usb agg) ''devpath'' \<bind>
        (\<lambda>p. Some (?d\<lparr>d_key := Some ?key\<rparr>\<lparr>d_location := Some (usb_location b p)\<rparr>))))" for s1
      by (rule stage_quiet [OF quiet_refl, of "?d\<lparr>d_key := Some ?key\<rparr>"]) (simp, rule location_stage [OF g])
    from Some True show ?thesis
      by (simp add: fill_names_def Let_def cong: if_cong)
        (intro strdup_stage g loc [simplified]; simp)
  qed
qed

lemma fill_ids_stage:
  "stage g s d (case fill_ids U agg d of (r, d') \<Rightarrow> (r, d', s))
     (u_sysattr U (agg_usb agg) ''idVendor'' \<bind> number 16 \<bind> (\<lambda>v.
        u_sysattr U (agg_usb agg) ''idProduct'' \<bind> number 16 \<bind> (\<lambda>p.
          Some (d\<lparr>d_vid := ucast v, d_pid := ucast p\<rparr>))))"
  by (rule stage_pair) (auto simp: fill_ids_def number_case Let_def split: option.splits prod.splits)

lemma fill_iface_stage:
  "stage g s d (case fill_iface U agg d of (r, d') \<Rightarrow> (r, d', s))
     (number 10 (drop (length (u_devpath U (agg_iface agg)) - 1) (u_devpath U (agg_iface agg))) \<bind>
        (\<lambda>n. Some (d\<lparr>d_iface := ucast n\<rparr>)))"
  by (rule stage_pair) (auto simp: fill_iface_def number_case Let_def split: prod.splits)

lemma fill_string_stage:
  assumes g: "\<And>str w. g (snd (u_strdup U str w)) = g w"
    and upd: "refcount (upd buf d) = refcount d" "buf = None \<Longrightarrow> upd buf d = d"
  shows "stage g s d (fill_string U buf upd d s) (Some (upd buf d))"
proof (cases buf)
  case None
  with upd show ?thesis by (simp add: fill_string_def stage_Some)
next
  case (Some str)
  then have "stage g s1 d (1, upd (Some str) d, s1) (Some (upd (Some str) d))" for s1
    using upd by (simp add: stage_Some)
  with Some show ?thesis by (simp add: fill_string_def Let_def cong: if_cong) (rule strdup_stage [OF g], simp_all)
qed

lemma stage_bind_pair:
  assumes "stage g s d (case e of (r, d') \<Rightarrow> (r, d', s)) X"
    and "\<And>d1. refcount d1 = refcount d \<Longrightarrow> X = Some d1 \<Longrightarrow> stage g s d1 (k d1) (F d1)"
  shows "stage g s d (case e of (r, d1) \<Rightarrow> if r \<le> 0 then (r, d1, s) else k d1) (X \<bind> F)"
proof -
  obtain r d1 where e: "e = (r, d1)" by (cases e)
  show ?thesis
  proof (cases "r = 1")
    case True
    with assms(1) e have a: "refcount d1 = refcount d" "X = Some d1" by (auto simp: stage_def)
    from stage_quiet [OF quiet_refl a(1) assms(2) [OF a]] e True a(2) show ?thesis by simp
  qed (use assms(1) e in \<open>auto simp: stage_def\<close>)
qed

lemma fill_string_then:
  assumes g: "\<And>str w. g (snd (u_strdup U str w)) = g w"
    and upd: "refcount (upd buf d) = refcount d" "buf = None \<Longrightarrow> upd buf d = d"
    and k: "\<And>s1. stage g s1 (upd buf d) (k (upd buf d) s1) Y"
  shows "stage g s d (case fill_string U buf upd d s of (r, d1, s1) \<Rightarrow> if r < 0 then (r, d1, s1) else k d1 s1) Y"
  by (rule stage_bind_neg [where k = k, OF fill_string_stage [where upd = upd and buf = buf, OF g upd]]) (simp_all add: k)

lemma fill_strings_stage:
  assumes g: "\<And>str w. g (snd (u_strdup U str w)) = g w"
    and none: "d_manufacturer d = None" "d_product d = None" "d_serial d = None"
  shows "stage g s d (fill_strings U agg d s)
     (number 10 (drop (length (u_devpath U (agg_iface agg)) - 1) (u_devpath U (agg_iface agg))) \<bind>
        (\<lambda>n. Some (d\<lparr>d_manufacturer := u_sysattr U (agg_usb agg) ''manufacturer'',
          d_product := u_sysattr U (agg_usb agg) ''product'', d_serial := u_sysattr U (agg_usb agg) ''serial'',
          d_iface := ucast n\<rparr>)))"
  unfolding fill_strings_def Let_def
  by (intro fill_string_then [OF g] fill_iface_stage [THEN back_subst [of "stage _ _ _ _"]]) (use none in \<open>cases d; simp\<close>)+

lemma fill_device_details_stage:
  assumes g: "\<And>str w. g (snd (u_strdup U str w)) = g w"
    and agg: "u_parent U ud ''usb'' ''usb_device'' = Some (agg_usb agg)"
      "u_parent U ud ''usb'' ''usb_interface'' = Some (agg_iface agg)" "agg_dev agg = ud"
  shows "stage g s (zero_device\<lparr>refcount := 1\<rparr>) (fill_device_details U (zero_device\<lparr>refcount := 1\<rparr>) agg s)
     (describe U (nodes_at U (ext s)) ud)"
proof -
  let ?d0 = "zero_device\<lparr>refcount := 1\<rparr>"
  have "stage g s ?d0 (fill_device_details U ?d0 agg s)
     (u_subsystem U (agg_dev agg) \<bind> kind_of \<bind> (\<lambda>(ty, vt). Some (?d0\<lparr>d_type := ty, d_vtable := vt\<rparr>)) \<bind> (\<lambda>d.
      u_devnode U (agg_dev agg) \<bind> (\<lambda>node. c_assert (u_access U node (ext s)) \<bind> (\<lambda>_.
        u_sysattr U (agg_usb agg) ''busnum'' \<bind> (\<lambda>b. u_sysattr U (agg_usb agg) ''devpath'' \<bind> (\<lambda>p.
          Some (d\<lparr>d_path := Some node, d_key := Some (u_devpath U (agg_dev agg)),
            d_location := Some (usb_location b p)\<rparr>))))) \<bind> (\<lambda>d.
      u_sysattr U (agg_usb agg) ''idVendor'' \<bind> number 16 \<bind> (\<lambda>v.
        u_sysattr U (agg_usb agg) ''idProduct'' \<bind> number 16 \<bind> (\<lambda>p.
          Some (d\<lparr>d_vid := ucast v, d_pid := ucast p\<rparr>))) \<bind> (\<lambda>d.
      number 10 (drop (length (u_devpath U (agg_iface agg)) - 1) (u_devpath U (agg_iface agg))) \<bind>
        (\<lambda>n. Some (d\<lparr>d_manufacturer := u_sysattr U (agg_usb agg) ''manufacturer'',
          d_product := u_sysattr U (agg_usb agg) ''product'', d_serial := u_sysattr U (agg_usb agg) ''serial'',
          d_iface := ucast n\<rparr>))))))"
    unfolding fill_device_details_def Let_def
    by (rule stage_bind_pair [OF fill_type_stage], rule stage_bind [OF fill_names_stage [OF g]],
        rule stage_bind_pair [OF fill_ids_stage], rule fill_strings_stage [OF g])
      (auto simp: zero_device_def elim!: bind_eq_SomeE split: prod.splits)
  then show ?thesis
    using agg by (simp add: describe_def nodes_at_def zero_device_def case_prod_unfold)
qed

section \<open>Reading a device\<close>

lemma describe_new:
  "describe U acc ud = Some d \<Longrightarrow> refcount d = 1 \<and> d_state d = HS_DEVICE_STATUS_DISCONNECTED \<and>
     d_key d = Some (u_devpath U ud)"
  by (auto simp: describe_def elim!: bind_eq_SomeE)

lemma new_device_describe: "vacant s p \<Longrightarrow> describe U acc ud = Some d \<Longrightarrow> new_device s p d"
  using describe_new [of U acc ud d] by (simp add: new_device_def vacant_def)

lemma read_device_run:
  assumes g: "\<And>str w. g (snd (u_strdup U str w)) = g w" and al: "allocates alloc"
  shows "\<exists>r p s' s1. read_device_information U alloc ud s = Some (r, p, s') \<and> quiet g s s1 \<and>
     ((\<exists>d. r = 1 \<and> describe U (nodes_at U (ext s)) ud = Some d \<and> new_device s1 p d \<and> s' = device_alloc p d s1) \<or>
      r = 0 \<and> describe U (nodes_at U (ext s)) ud = None \<and> p = NULL \<and> s' = s1 \<or>
      r = err_val HS_ERROR_MEMORY \<and> p = NULL \<and> s' = s1)"
proof (cases "u_parent U ud ''usb'' ''usb_device'' = None \<or> u_parent U ud ''usb'' ''usb_interface'' = None")
  case True
  then have "describe U (nodes_at U (ext s)) ud = None" "read_device_information U alloc ud s = Some (0, NULL, s)"
    by (auto simp: describe_def read_device_information_def split: option.splits)
  then show ?thesis using quiet_refl by blast
next
  case False
  then obtain usb iface where par: "u_parent U ud ''usb'' ''usb_device'' = Some usb"
    "u_parent U ud ''usb'' ''usb_interface'' = Some iface" by auto
  show ?thesis
  proof (cases "alloc s = NULL")
    case True
    with par have "read_device_information U alloc ud s =
        Some (err_val HS_ERROR_MEMORY, NULL, snd (fail_with HS_ERROR_MEMORY None s))"
      by (simp add: read_device_information_def fail_with_eq)
    then show ?thesis using quiet_fail [of g s HS_ERROR_MEMORY None] by blast
  next
    case p: False
    let ?agg = "\<lparr>agg_dev = ud, agg_usb = usb, agg_iface = iface\<rparr>" and ?d0 = "zero_device\<lparr>refcount := 1\<rparr>"
    obtain r d s1 where f: "fill_device_details U ?d0 ?agg s = (r, d, s1)"
      by (cases "fill_device_details U ?d0 ?agg s")
    with fill_device_details_stage [OF g, of ud ?agg s] par have st: "quiet g s s1" "refcount d = 1"
        "r = 1 \<and> describe U (nodes_at U (ext s)) ud = Some d \<or> r = 0 \<and> describe U (nodes_at U (ext s)) ud = None \<or> r = err_val HS_ERROR_MEMORY"
      by (auto simp: stage_def)
    have v: "vacant s1 (alloc s)"
      using allocatesD [OF al p] st(1) by (auto simp: quiet_def dest: vacant_idle)
    have run: "read_device_information U alloc ud s =
        (if r \<le> 0 then Some (r, NULL, s1) else Some (1, alloc s, device_alloc (alloc s) d s1))"
      using par p f unref_unannounced [OF v st(2)] by (simp add: read_device_information_def Let_def)
    show ?thesis
    proof (cases "r = 1")
      case True
      with st have "describe U (nodes_at U (ext s)) ud = Some d" by auto
      with True st run new_device_describe [OF v] show ?thesis by (intro exI conjI) auto
    next
      case False
      with st run show ?thesis by (intro exI [of _ r] exI [of _ NULL] exI [of _ s1]) auto
    qed
  qed
qed

section \<open>Events\<close>

text \<open>What an event of udev means for the monitor, given the nodes that exist when it is handled.\<close>

fun event_feed :: "('w, 'u) udev_api \<Rightarrow> 'u \<times> (string \<Rightarrow> bool) \<Rightarrow> feed_event list" where
  "event_feed U (ud, acc) =
     (if u_action U ud = ''add''
      then (case describe U acc ud of None \<Rightarrow> [] | Some d \<Rightarrow> [Arrive (d_key d, d_iface d)])
      else if u_action U ud = ''remove'' then [Depart (u_devpath U ud)] else [])"

text \<open>
  What the refresh relies on: \<open>g\<close> is the list of the events still to be received, each with the nodes
  that will exist when it has been received; nothing but the reception consumes an event, and a
  reception without a result that is not for lack of memory means that there is none left.
\<close>

definition udev_events :: "('w, 'u) udev_api \<Rightarrow> nat \<Rightarrow> ('w \<Rightarrow> ('u \<times> (string \<Rightarrow> bool)) list) \<Rightarrow> bool" where
  "udev_events U m g \<longleftrightarrow>
     (\<forall>str w. g (snd (u_strdup U str w)) = g w) \<and> (\<forall>ud w. g (u_device_unref U ud w) = g w) \<and>
     (\<forall>w. case u_monitor_receive U m w of
            (Inl e, w') \<Rightarrow> g w' = g w \<and> (e \<noteq> Some ENOMEM \<longrightarrow> g w = [])
          | (Inr ud, w') \<Rightarrow> g w = (ud, nodes_at U w') # g w')"

lemma handle_event_run:
  assumes g: "\<And>str w. g (snd (u_strdup U str w)) = g w" and al: "allocates alloc"
    and kp: "keeps g call" and k: "knows call mp s K"
  shows "\<exists>r s'. handle_event U alloc call mp ud s = Some (r, s') \<and> g (ext s') = g (ext s) \<and>
     (r = 0 \<and> monitor_feeds call mp s (event_feed U (ud, nodes_at U (ext s))) s' \<or>
      r = err_val HS_ERROR_MEMORY \<and> idle s s')"
proof -
  consider (add) "u_action U ud = ''add''" | (remove) "u_action U ud = ''remove''"
    | (other) "u_action U ud \<noteq> ''add''" "u_action U ud \<noteq> ''remove''" by blast
  then show ?thesis
  proof cases
    case add
    obtain r p s1 s2 where rd: "read_device_information U alloc ud s = Some (r, p, s1)" "quiet g s s2"
      "(\<exists>d. r = 1 \<and> describe U (nodes_at U (ext s)) ud = Some d \<and> new_device s2 p d \<and> s1 = device_alloc p d s2) \<or>
       r = 0 \<and> describe U (nodes_at U (ext s)) ud = None \<and> p = NULL \<and> s1 = s2 \<or>
       r = err_val HS_ERROR_MEMORY \<and> p = NULL \<and> s1 = s2"
      using read_device_run [OF g al] by blast
    have q: "idle s s2" "g (ext s2) = g (ext s)" using rd(2) by (simp_all add: quiet_def)
    show ?thesis
    proof (cases "r = 1")
      case True
      with rd(3) obtain d where d: "describe U (nodes_at U (ext s)) ud = Some d" "new_device s2 p d"
          "s1 = device_alloc p d s2" by auto
      obtain s' where s': "announce call mp p d s2 = Some (0, s')"
        using announce_run [OF knows_idle [OF k q(1)] d(2)] by blast
      moreover have "g (ext s') = g (ext s)" using announce_ext [OF kp s'] q(2) by simp
      moreover have "handle_event U alloc call mp ud s = announce call mp p d s2"
        using add rd(1) True d(3) by (simp add: handle_event_def announce_def)
      moreover have "monitor_feeds call mp s [Arrive (d_key d, d_iface d)] s'"
        by (rule monitor_feeds_arrive [OF q(1) d(2) s'])
      ultimately show ?thesis using add d(1) by simp
    next
      case False
      with rd have "handle_event U alloc call mp ud s = Some (r, s2)"
        by (auto simp: handle_event_def add)
      with False rd(3) q add monitor_feeds_idle [OF q(1)] show ?thesis by auto
    qed
  next
    case remove
    obtain s' where s': "hs_monitor_remove call mp (u_devpath U ud) s = Some s'"
      using withdraw_run [OF k] by blast
    with hs_monitor_remove_ext [OF kp s'] remove monitor_feeds_depart [OF s'] show ?thesis
      by (simp add: handle_event_def)
  next
    case other
    with feed_nil show ?thesis by (simp add: handle_event_def)
  qed
qed

theorem refresh_loop_run:
  assumes ev: "udev_events U m g" and al: "allocates alloc" and kp: "keeps g call"
  shows "knows call mp s K \<Longrightarrow>
     \<exists>r s' handled rest. refresh_loop U alloc call mp m s = Some (r, s') \<and> g (ext s) = handled @ rest \<and>
       monitor_feeds call mp s (concat (map (event_feed U) handled)) s' \<and>
       (r = 0 \<and> rest = [] \<and> g (ext s') = [] \<or>
        r = err_val HS_ERROR_MEMORY \<and> (g (ext s') = rest \<or> (\<exists>e. rest = e # g (ext s'))))"
proof (induction "length (g (ext s))" arbitrary: s K rule: less_induct)
  case less
  have g: "g (snd (u_strdup U str w)) = g w" "g (u_device_unref U ud w) = g w" for str ud w
    using ev by (simp_all add: udev_events_def)
  obtain res w where rcv: "u_monitor_receive U m (ext s) = (res, w)" by (cases "u_monitor_receive U m (ext s)")
  note spec = spec [OF conjunct2 [OF conjunct2 [OF ev [unfolded udev_events_def]]], of "ext s", unfolded rcv]
  let ?s = "s\<lparr>ext := w\<rparr>"
  have i: "idle s ?s" by (simp add: idle_def)
  have k: "knows call mp ?s K" using less.prems i by (rule knows_idle)
  show ?case
  proof (cases res)
    case (Inl e)
    show ?thesis
    proof (cases "e = Some ENOMEM")
      case True
      let ?s' = "snd (fail_with HS_ERROR_MEMORY None ?s)"
      have "refresh_loop U alloc call mp m s = Some (err_val HS_ERROR_MEMORY, ?s')"
        using Inl True rcv by (simp add: refresh_loop.simps sys_def fail_with_eq)
      moreover have "monitor_feeds call mp s [] ?s'" by (rule monitor_feeds_idle) (simp add: idle_def)
      moreover have "g (ext ?s') = g (ext s)" using spec Inl by simp
      ultimately show ?thesis
        by (intro exI [of _ "err_val HS_ERROR_MEMORY"] exI [of _ ?s'] exI [of _ "[]"] exI [of _ "g (ext s)"]) simp
    next
      case False
      with Inl rcv have "refresh_loop U alloc call mp m s = Some (0, ?s)" by (simp add: refresh_loop.simps sys_def)
      then show ?thesis using monitor_feeds_idle [OF i] spec Inl False by (intro exI [of _ 0] exI [of _ ?s] exI [of _ "[]"]) simp
    qed
  next
    case (Inr ud)
    have gs: "g (ext s) = (ud, nodes_at U w) # g w" using spec Inr by simp
    obtain r s1 where h: "handle_event U alloc call mp ud ?s = Some (r, s1)" "g (ext s1) = g w"
"r = 0 \<and> monitor_feeds call mp ?s (event_feed U (ud, nodes_at U w)) s1 \<or>
       r = err_val HS_ERROR_MEMORY \<and> idle ?s s1"
      using handle_event_run [OF g(1) al kp k, of ud] by auto
    let ?s2 = "sys_do (u_device_unref U ud) s1"
    have q: "quiet g s1 ?s2" by (rule sys_do_quiet) (rule g)
    have g2: "g (ext ?s2) = g w" using q h(2) by (simp add: quiet_def)
    have run: "refresh_loop U alloc call mp m s =
        (if r < 0 then Some (r, ?s2) else refresh_loop U alloc call mp m ?s2)"
      using Inr rcv h(1) by (simp add: refresh_loop.simps [of U alloc call mp m s] sys_def)
    show ?thesis
    proof (cases "r = 0")
      case True
      with h(3) have "monitor_feeds call mp ?s (event_feed U (ud, nodes_at U w)) s1" by auto
      then have f: "monitor_feeds call mp s (event_feed U (ud, nodes_at U w)) ?s2"
        using feeds_append [OF feeds_append [OF monitor_feeds_idle [OF i]] monitor_feeds_idle [of s1 ?s2]] q
        by (simp add: quiet_def)
      from less.hyps [OF _ mon.feeds_known [OF this less.prems]] gs g2 obtain r' s' handled rest where
        "refresh_loop U alloc call mp m ?s2 = Some (r', s')" "g w = handled @ rest"
        "monitor_feeds call mp ?s2 (concat (map (event_feed U) handled)) s'"
        "r' = 0 \<and> rest = [] \<and> g (ext s') = [] \<or>
         r' = err_val HS_ERROR_MEMORY \<and> (g (ext s') = rest \<or> (\<exists>e. rest = e # g (ext s')))"
        by auto
      with run True gs feeds_append [OF f] show ?thesis
        by (intro exI [of _ r'] exI [of _ s'] exI [of _ "(ud, nodes_at U w) # handled"] exI [of _ rest])
          (simp del: event_feed.simps)
    next
      case False
      with h(3) have r: "r = err_val HS_ERROR_MEMORY" "idle ?s s1" by auto
      then have "idle s ?s2" using i q by (auto simp: quiet_def idle_def)
      then have "monitor_feeds call mp s [] ?s2" by (rule monitor_feeds_idle)
      with run r(1) gs g2 show ?thesis
        by (intro exI [of _ r] exI [of _ ?s2] exI [of _ "[]"] exI [of _ "g (ext s)"]) auto
    qed
  qed
qed

section \<open>Enumeration\<close>

text \<open>
  What an enumeration relies on: while \<open>P\<close> holds of the world no device comes or goes: the scan gives the
  entries \<open>names\<close>, \<open>D\<close> says which device is behind an entry, and \<open>acc\<close> which nodes exist. The calls of
  libudev keep \<open>P\<close>.
\<close>

definition udev_scan ::
  "('w, 'u) udev_api \<Rightarrow> ('w \<Rightarrow> bool) \<Rightarrow> (string \<Rightarrow> bool) \<Rightarrow> (string \<Rightarrow> 'u option) \<Rightarrow> string list \<Rightarrow> bool" where
  "udev_scan U P acc D names \<longleftrightarrow>
     (\<forall>w. P w \<longrightarrow> nodes_at U w = acc \<and> (\<forall>e. u_list_entries U e w = names)) \<and>
     (\<forall>u name w. P w \<longrightarrow> (case fst (u_new_from_syspath U u name w) of
        Inl e \<Rightarrow> e \<noteq> ENOMEM \<longrightarrow> D name = None | Inr ud \<Rightarrow> D name = Some ud)) \<and>
     (\<forall>u name w. P (snd (u_new_from_syspath U u name w)) = P w) \<and>
     (\<forall>w. P (snd (u_new U w)) = P w) \<and> (\<forall>u w. P (snd (u_enumerate_new U u w)) = P w) \<and>
     (\<forall>e w. P (u_enumerate_unref U e w) = P w) \<and> (\<forall>e w. P (u_match_is_initialized U e w) = P w) \<and>
     (\<forall>e x w. P (snd (u_match_subsystem U e x w)) = P w) \<and> (\<forall>e w. P (snd (u_scan_devices U e w)) = P w) \<and>
     (\<forall>ud w. P (u_device_unref U ud w) = P w) \<and> (\<forall>x w. P (snd (u_strdup U x w)) = P w) \<and>
     (\<forall>u x w. P (snd (u_monitor_new U u x w)) = P w) \<and> (\<forall>m x w. P (snd (u_monitor_filter U m x w)) = P w) \<and>
     (\<forall>m w. P (snd (u_monitor_enable U m w)) = P w)"

lemma udev_scanD:
  assumes "udev_scan U P acc D names"
  shows "P w \<Longrightarrow> nodes_at U w = acc" "P w \<Longrightarrow> u_list_entries U e w = names"
    "P w \<Longrightarrow> case fst (u_new_from_syspath U u name w) of
        Inl e \<Rightarrow> e \<noteq> ENOMEM \<longrightarrow> D name = None | Inr ud \<Rightarrow> D name = Some ud"
    "P (snd (u_new_from_syspath U u name w)) = P w" "P (snd (u_new U w)) = P w" "P (snd (u_enumerate_new U u w)) = P w"
    "P (u_enumerate_unref U e w) = P w" "P (u_match_is_initialized U e w) = P w"
    "P (snd (u_match_subsystem U e x w)) = P w" "P (snd (u_scan_devices U e w)) = P w"
    "P (u_device_unref U ud w) = P w" "P (snd (u_strdup U x w)) = P w"
    "P (snd (u_monitor_new U u x w)) = P w" "P (snd (u_monitor_filter U m x w)) = P w"
    "P (snd (u_monitor_enable U m w)) = P w"
  using assms unfolding udev_scan_def by simp_all

text \<open>The identities of the devices behind the entries.\<close>

definition found ::
  "('w, 'u) udev_api \<Rightarrow> (string \<Rightarrow> bool) \<Rightarrow> (string \<Rightarrow> 'u option) \<Rightarrow> string list \<Rightarrow> identity set" where
  "found U acc D names =
     set (List.map_filter (\<lambda>name. D name \<bind> describe U acc \<bind> (\<lambda>d. Some (d_key d, d_iface d))) names)"

lemma found_Nil [simp]: "found U acc D [] = {}"
  by (simp add: found_def List.map_filter_simps)

lemma found_Cons:
  "found U acc D (name # names) =
     (case D name \<bind> describe U acc of None \<Rightarrow> {} | Some d \<Rightarrow> {(d_key d, d_iface d)}) \<union> found U acc D names"
  by (cases "D name"; cases "describe U acc (the (D name))") (simp_all add: found_def List.map_filter_simps)

text \<open>One entry, with the monitor's own function as callback.\<close>

lemma enumerate_entries_run:
  assumes sc: "udev_scan U P acc D all" and al: "allocates alloc" and kp: "keeps P call"
  shows "knows call mp s K \<Longrightarrow> P (ext s) \<Longrightarrow>
     \<exists>r s' K'. enumerate_entries U alloc udev (monitor_enumerate_callback call mp) names s = Some (r, s') \<and>
       P (ext s') \<and> knows call mp s' K' \<and> K' \<subseteq> K \<union> found U acc D names \<and>
       (r = 0 \<and> K' = K \<union> found U acc D names \<or> r = err_val HS_ERROR_MEMORY)"
proof (induction names arbitrary: s K)
  case Nil
  then show ?case by (intro exI [of _ 0] exI [of _ s] exI [of _ K]) simp
next
  case (Cons name names)
  note scan = udev_scanD [OF sc]
  obtain res s1 where r1: "sys (u_new_from_syspath U udev name) s = (res, s1)"
    by (cases "sys (u_new_from_syspath U udev name) s")
  have res: "res = fst (u_new_from_syspath U udev name (ext s))" "s1 = snd (sys (u_new_from_syspath U udev name) s)"
    using r1 by (simp_all add: sys_eq)
  have q1: "quiet P s s1" unfolding res(2) by (rule sys_quiet) (rule scan(4))
  have s1: "knows call mp s1 K" "P (ext s1)"
    using quiet_knows [OF q1 Cons.prems(1)] q1 Cons.prems(2) by (simp_all add: quiet_def)
  have D: "case res of Inl e \<Rightarrow> e \<noteq> ENOMEM \<longrightarrow> D name = None | Inr ud \<Rightarrow> D name = Some ud"
    unfolding res(1) by (rule scan(3)) (rule Cons.prems(2))
  show ?case
  proof (cases res)
    case (Inl e)
    show ?thesis
    proof (cases "e = ENOMEM")
      case True
      have "quiet P s1 (snd (fail_with HS_ERROR_MEMORY None s1))" by simp
      with s1 quiet_knows [OF this s1(1)] Inl True r1 show ?thesis
        by (intro exI [of _ "err_val HS_ERROR_MEMORY"] exI [of _ "snd (fail_with HS_ERROR_MEMORY None s1)"] exI [of _ K])
          (auto simp: fail_with_eq)
    next
      case False
      with Inl D r1 Cons.IH [OF s1] show ?thesis by (simp add: found_Cons)
    qed
  next
    case (Inr ud)
    have Dn: "D name = Some ud" using D Inr by simp
    have acc: "nodes_at U (ext s1) = acc" by (rule scan(1)) (rule s1(2))
    obtain r p s2 s3 where rd: "read_device_information U alloc ud s1 = Some (r, p, s2)" "quiet P s1 s3"
      "(\<exists>d. r = 1 \<and> describe U acc ud = Some d \<and> new_device s3 p d \<and> s2 = device_alloc p d s3) \<or>
       r = 0 \<and> describe U acc ud = None \<and> p = NULL \<and> s2 = s3 \<or>
       r = err_val HS_ERROR_MEMORY \<and> p = NULL \<and> s2 = s3"
      using read_device_run [of P U alloc ud s1, OF scan(12) al] unfolding acc by blast
    let ?free = "sys_do (u_device_unref U ud)"
    have q: "quiet P s3 (?free s3)" by (rule sys_do_quiet) (rule scan(11))
    have s4: "knows call mp (?free s3) K" "P (ext (?free s3))"
      using quiet_knows [OF quiet_trans [OF rd(2) q] s1(1)] rd(2) q s1(2) by (simp_all add: quiet_def)
    show ?thesis
    proof (cases "r = 1")
      case True
      with rd(3) obtain d where d: "describe U acc ud = Some d" "new_device s3 p d" "s2 = device_alloc p d s3" by auto
      have new: "new_device (?free s3) p d" "?free s2 = device_alloc p d (?free s3)"
        using d(2,3) by (simp_all add: new_device_def sys_do_def device_alloc_def)
      obtain s5 where s5: "announce call mp p d (?free s3) = Some (0, s5)"
          "knows call mp s5 (insert (d_key d, d_iface d) K)"
        using announce_run [OF s4(1) new(1)] by blast
      have "P (ext s5)" using announce_ext [OF kp s5(1)] s4(2) by simp
      from Cons.IH [OF s5(2) this] obtain r' s' K' where
        ih: "enumerate_entries U alloc udev (monitor_enumerate_callback call mp) names s5 = Some (r', s')"
        "P (ext s')" "knows call mp s' K'" "K' \<subseteq> insert (d_key d, d_iface d) K \<union> found U acc D names"
        "r' = 0 \<and> K' = insert (d_key d, d_iface d) K \<union> found U acc D names \<or> r' = err_val HS_ERROR_MEMORY" by blast
      obtain s6 where "hs_monitor_add call mp p (device_alloc p d (?free s3)) = Some (0, s6)"
          "hs_device_unref p s6 = Some s5"
        using s5(1) by (auto simp: announce_def split: bind_splits)
      then have "enumerate_entries U alloc udev (monitor_enumerate_callback call mp) (name # names) s = Some (r', s')"
        using r1 Inr rd(1) True new(2) ih(1) by (simp add: monitor_enumerate_callback_def)
      with ih(2-5) show ?thesis using Dn d(1) by (auto simp: found_Cons)
    next
      case False
      have run: "enumerate_entries U alloc udev (monitor_enumerate_callback call mp) (name # names) s =
          (if r < 0 then Some (r, ?free s3) else
             enumerate_entries U alloc udev (monitor_enumerate_callback call mp) names (?free s3))"
        using r1 Inr rd(1,3) False by auto
      show ?thesis
      proof (cases "r = 0")
        case True
        with False rd(3) have "describe U acc ud = None" by auto
        with run True Dn Cons.IH [OF s4] show ?thesis by (simp add: found_Cons)
      next
        case r: False
        with False rd(3) have "r = err_val HS_ERROR_MEMORY" by auto
        with run s4 show ?thesis by auto
      qed
    qed
  qed
qed

lemma init_udev_quiet:
  assumes g: "\<And>w. g (snd (u_new U w)) = g w" and run: "init_udev U v s = (r, v', s')"
  shows "quiet g s s' \<and> v_monitor v' = v_monitor v \<and> r \<le> 0"
proof (cases "v_udev v = NULL")
  case True
  have q: "quiet g s (snd (sys (u_new U) s))" by (rule sys_quiet) (rule g)
  show ?thesis
    using run True q quiet_trans [OF q quiet_fail [of g _ HS_ERROR_SYSTEM "Some ''udev_new() failed''"]]
    by (auto simp: init_udev_def Let_def fail_with_eq split: prod.splits if_splits)
next
  case False
  with run show ?thesis by (simp add: init_udev_def)
qed

lemma match_subsystems_quiet:
  assumes g: "\<And>x w. g (snd (add x w)) = g w"
  shows "quiet g s (snd (match_subsystems add (fail_with e m) xs r s))"
proof (induction xs arbitrary: r s)
  case (Cons x xs)
  obtain r1 s1 where s1: "sys (add x) s = (r1, s1)" by (cases "sys (add x) s")
  have "quiet g s (snd (sys (add x) s))" by (rule sys_quiet) (rule g)
  then have q: "quiet g s s1" using s1 by simp
  show ?case
    using quiet_trans [OF q quiet_fail] quiet_trans [OF q Cons.IH] s1 by simp
qed simp

lemma enumerate_scan_run:
  assumes sc: "udev_scan U P acc D names" and al: "allocates alloc" and kp: "keeps P call"
    and k: "knows call mp s K" and P: "P (ext s)"
  shows "\<exists>r s' K'. enumerate_scan U alloc (monitor_enumerate_callback call mp) udev e s = Some (r, s') \<and>
     P (ext s') \<and> knows call mp s' K' \<and> (r = 0 \<and> K' = K \<union> found U acc D names \<or> r < 0)"
proof -
  note scan = udev_scanD [OF sc]
  let ?match = "match_subsystems (u_match_subsystem U e) (fail_with HS_ERROR_MEMORY None) device_subsystems 0"
  let ?s1 = "sys_do (u_match_is_initialized U e) s"
  have q1: "quiet P s ?s1" by (rule sys_do_quiet) (rule scan(8))
  obtain r2 s2 where m: "?match ?s1 = (r2, s2)" by (cases "?match ?s1")
  have "quiet P ?s1 (snd (?match ?s1))" by (rule match_subsystems_quiet) (rule scan(9))
  with m have q2: "quiet P s s2" using quiet_trans [OF q1] by simp
  obtain r3 s3 where sn: "sys (u_scan_devices U e) s2 = (r3, s3)" by (cases "sys (u_scan_devices U e) s2")
  have "quiet P s2 (snd (sys (u_scan_devices U e) s2))" by (rule sys_quiet) (rule scan(10))
  with sn have q3: "quiet P s s3" using quiet_trans [OF q2] by simp
  let ?s4 = "snd (fail_with HS_ERROR_SYSTEM (Some ''udev_enumerate_scan_devices() failed'') s3)"
  have q4: "quiet P s ?s4" by (rule quiet_trans [OF q3 quiet_fail])
  have at: "knows call mp s' K \<and> P (ext s')" if "quiet P s s'" for s'
    using quiet_knows [OF that k] that P by (simp add: quiet_def)
  have names: "u_list_entries U e (ext s3) = names" by (rule scan(2)) (use at [OF q3] in simp)
  consider "r2 < 0" | "\<not> r2 < 0" "r3 < 0" | "\<not> r2 < 0" "\<not> r3 < 0" by blast
  then show ?thesis
  proof cases
    case 1
    with m at [OF q2] show ?thesis by (auto simp: enumerate_scan_def)
  next
    case 2
    with m sn at [OF q4] show ?thesis by (auto simp: enumerate_scan_def fail_with_eq)
  next
    case 3
    obtain r s' K' where "enumerate_entries U alloc udev (monitor_enumerate_callback call mp) names s3 = Some (r, s')"
        "P (ext s')" "knows call mp s' K'"
        "r = 0 \<and> K' = K \<union> found U acc D names \<or> r = err_val HS_ERROR_MEMORY"
      using enumerate_entries_run [OF sc al kp, of mp s3 K udev names] at [OF q3] by blast
    with 3 m sn names show ?thesis by (auto simp: enumerate_scan_def)
  qed
qed

lemma enumerate_devices_run:
  assumes sc: "udev_scan U P acc D names" and al: "allocates alloc" and kp: "keeps P call"
    and k: "knows call mp s K" and P: "P (ext s)"
  shows "\<exists>r v' s' K'. enumerate_devices U alloc (monitor_enumerate_callback call mp) v s = Some (r, v', s') \<and>
     v_monitor v' = v_monitor v \<and> P (ext s') \<and> knows call mp s' K' \<and>
     (r = 0 \<and> K' = K \<union> found U acc D names \<or> r < 0)"
proof -
  note scan = udev_scanD [OF sc]
  obtain r1 v1 s1 where i: "init_udev U v s = (r1, v1, s1)" by (cases "init_udev U v s")
  have q1: "quiet P s s1" "v_monitor v1 = v_monitor v" using init_udev_quiet [of P, OF scan(5) i] by simp_all
  have at: "knows call mp s' K \<and> P (ext s')" if "quiet P s s'" for s'
    using quiet_knows [OF that k] that P by (simp add: quiet_def)
  have unref: "knows call mp (sys_do (u_enumerate_unref U e) s') K' \<and> P (ext (sys_do (u_enumerate_unref U e) s'))"
    if "knows call mp s' K'" "P (ext s')" for e s' K'
  proof -
    have "quiet P s' (sys_do (u_enumerate_unref U e) s')" by (rule sys_do_quiet) (rule scan(7))
    with quiet_knows [OF this that(1)] that(2) show ?thesis by (simp add: quiet_def)
  qed
  obtain e s2 where e: "sys (u_enumerate_new U (v_udev v1)) s1 = (e, s2)" by (cases "sys (u_enumerate_new U (v_udev v1)) s1")
  have "quiet P s1 (snd (sys (u_enumerate_new U (v_udev v1)) s1))" by (rule sys_quiet) (rule scan(6))
  with e have q2: "quiet P s s2" using quiet_trans [OF q1(1)] by simp
  let ?s3 = "snd (fail_with HS_ERROR_MEMORY None s2)"
  have q3: "quiet P s ?s3" by (rule quiet_trans [OF q2 quiet_fail])
  consider "r1 < 0" | "\<not> r1 < 0" "e = NULL" | "\<not> r1 < 0" "e \<noteq> NULL" by blast
  then show ?thesis
  proof cases
    case 1
    with i q1(2) unref [of s1 K] at [OF q1(1)] show ?thesis
      by (auto simp: enumerate_devices_def)
  next
    case 2
    with i q1(2) e unref [of ?s3 K] at [OF q3] show ?thesis
      by (auto simp: enumerate_devices_def fail_with_eq)
  next
    case 3
    obtain r s' K' where "enumerate_scan U alloc (monitor_enumerate_callback call mp) (v_udev v1) e s2 = Some (r, s')"
        "P (ext s')" "knows call mp s' K'" "r = 0 \<and> K' = K \<union> found U acc D names \<or> r < 0"
      using enumerate_scan_run [OF sc al kp, of mp s2 K "v_udev v1" e] at [OF q2] by blast
    with 3 i q1(2) e unref [of s' K' e] show ?thesis by (auto simp: enumerate_devices_def)
  qed
qed

end
