(* ===== verification/ExampleFeed.thy ===== *)
theory ExampleFeed
  imports PlatformFeed
begin

text \<open>
  An allocator, a callback that accepts everything and an empty library state, on which the properties
  of the monitors are applied.
\<close>

definition ex_calloc :: "'w hs_state \<Rightarrow> addr" where
  "ex_calloc s = (if devs s 50 = None \<and> h_next (nodes s) 50 = None \<and> h_key (nodes s) 50 = None then 50 else NULL)"

definition ex_accept :: "'w callback_fun" where
  "ex_accept f dev u s = Some (0, s)"

definition ex_empty :: "'w \<Rightarrow> 'w hs_state" where
  "ex_empty w = \<lparr>lists = \<lparr>l_prev = Map.empty, l_next = Map.empty\<rparr>, nodes = \<lparr>h_next = Map.empty, h_key = Map.empty\<rparr>,
     devs = Map.empty, cbs = Map.empty, mons = Map.empty, logs = init_log False, ext = w\<rparr>"

lemma ex_calloc_allocates: "allocates ex_calloc"
  by (simp add: allocates_def ex_calloc_def vacant_def)

lemma ex_accept_friendly: "friendly ex_accept" "keeps g ex_accept"
  by (simp_all add: friendly_def well_behaved_def ex_accept_def cb_frame_def keeps_def)

lemma ex_known: "\<exists>s. knows ex_accept 10 s {} \<and> ext s = w"
proof -
  have "\<exists>r s'. hs_monitor_init 100 10 (monitor_alloc 10 (ex_empty w)) = Some (r, s') \<and>
      ext s' = ext (monitor_alloc 10 (ex_empty w)) \<and>
      ((100 :: addr) \<noteq> NULL \<and> r = 0 \<and> knows ex_accept 10 s' {} \<or>
       (100 :: addr) = NULL \<and> r < 0 \<and> (\<exists>s''. hs_monitor_release 10 s' = Some s''))"
    by (rule monitor_init_run [OF _ _ ex_accept_friendly(1)])
      (simp_all add: monitor_alloc_def ex_empty_def list_alloc_def list_allocated_def)
  then show ?thesis by (auto simp: monitor_alloc_def ex_empty_def)
qed

text \<open>A monitor that knows one device.\<close>

lemma ex_known_device:
  fixes d :: hs_device
  assumes "d_key d \<noteq> None" and "refcount d = 1" and "d_state d = HS_DEVICE_STATUS_DISCONNECTED"
  shows "\<exists>s. knows ex_accept 10 s {(d_key d, d_iface d)} \<and> ext s = w"
proof -
  let ?s = "monitor_alloc 10 (ex_empty w)"
  obtain r s where r: "hs_monitor_init 100 10 ?s = Some (r, s)" "ext s = ext ?s" "knows ex_accept 10 s {}"
    using monitor_init_run [of ?s 10 ex_accept 100] ex_accept_friendly(1)
    by (auto simp: monitor_alloc_def ex_empty_def list_alloc_def list_allocated_def)
  let ?t = "m_devices zero_monitor" and ?L = "logs ?s"
  obtain m where m: "hs_htable_init 100 ?t 64 (nodes ?s) ?L =
        Some (0, ?t\<lparr>ht_heads := 100, ht_size := 64\<rparr>, m, ?L)" "h_next m 50 = h_next (nodes ?s) 50"
    using hs_htable_init_rep [of 100 64 ?t "nodes ?s" ?L] by auto
  then have "devs s 50 = None \<and> h_next (nodes s) 50 = None"
    using r(1) by (auto simp: hs_monitor_init_def monitor_alloc_def ex_empty_def zero_monitor_def split: bind_splits)
  then have new: "new_device s 50 d" using assms by (simp add: new_device_def)
  obtain s' where s': "announce ex_accept 10 50 d s = Some (0, s')" "knows ex_accept 10 s' (insert (d_key d, d_iface d) {})"
    using announce_run [OF r(3) new] by blast
  have "ext s' = ext s" using announce_ext [where g = "\<lambda>w. w", OF ex_accept_friendly(2) s'(1)] by simp
  with s'(2) r(2) show ?thesis by (auto simp: monitor_alloc_def ex_empty_def)
qed

end
