(* ===== verification/LinuxProperties.thy ===== *)
theory LinuxProperties
  imports LinuxFeed ExampleFeed
begin

text \<open>
  The properties of the Linux monitor: what a device structure says of a udev device, what a new
  monitor knows, and what it knows after a refresh, with a concrete udev on which they are applied.
\<close>

section \<open>Creating a monitor\<close>

text \<open>The error exit of \<open>hs_monitor_new\<close>: the monitor is gone.\<close>

definition no_monitor :: "int \<Rightarrow> addr \<Rightarrow> (int \<times> addr option \<times> linux_vars \<times> 'w hs_state) option \<Rightarrow> bool" where
  "no_monitor r p res \<longleftrightarrow> (\<exists>v' s'. res = Some (r, None, v', s') \<and> mons s' p = None \<and> v_monitor v' p = None)"

lemma monitor_new_fail_run:
  assumes "p \<noteq> NULL" and "\<exists>s'. hs_monitor_release p s = Some s'" and "v_monitor v p = Some m"
  shows "no_monitor r p (monitor_new_fail U p v (r, s))"
  using assms by (auto simp: no_monitor_def monitor_new_fail_def hs_monitor_free_def monitor_free_def sys_do_def)

lemma monitor_connect_run:
  assumes sc: "udev_scan U P acc D names" and al: "allocates alloc" and kp: "keeps P call" and fr: "friendly call"
    and P: "P (ext s)" and z: "mons s p = Some zero_monitor" "list_allocated (lists s) p" "l_next (lists s) p = Some NULL"
    and v: "v_monitor v p = Some m" and hp: "{hp ..< hp + 64} \<inter> dom (devs s) = {}"
  shows "(\<exists>v' s'. monitor_connect U alloc call p hp m v s = Some (0, Some p, v', s') \<and> v_monitor v' p = Some m \<and>
       P (ext s') \<and> knows call p s' (found U acc D names)) \<or>
     (\<exists>r < 0. no_monitor r p (monitor_connect U alloc call p hp m v s))"
proof -
  note scan = udev_scanD [OF sc]
  let ?conn = "monitor_connect U alloc call p hp m v s"
  let ?match = "match_subsystems (u_monitor_filter U m)
       (fail_with HS_ERROR_SYSTEM (Some ''udev_monitor_filter_add_match_subsystem_devtype() failed''))
       device_subsystems 0"
  have p: "p \<noteq> NULL" using z(2) by (simp add: list_allocated_def)
  have fail: "no_monitor r p (monitor_new_fail U p v (r, s'))" if "quiet P s s'" for r s'
  proof (rule monitor_new_fail_run [where m = m, OF p _ v])
    show "\<exists>s''. hs_monitor_release p s' = Some s''"
      by (rule release_empty [of s' p zero_monitor]) (use that z p in \<open>simp_all add: quiet_def idle_def zero_monitor_def\<close>)
  qed
  obtain r1 s1 where m: "?match s = (r1, s1)" by (cases "?match s")
  have "quiet P s (snd (?match s))" by (rule match_subsystems_quiet) (rule scan(14))
  with m have q1: "quiet P s s1" by simp
  obtain r2 s2 where en: "sys (u_monitor_enable U m) s1 = (r2, s2)" by (cases "sys (u_monitor_enable U m) s1")
  have "quiet P s1 (snd (sys (u_monitor_enable U m) s1))" by (rule sys_quiet) (rule scan(15))
  with en have q2: "quiet P s s2" using quiet_trans [OF q1] by simp
  let ?s3 = "snd (fail_with HS_ERROR_SYSTEM (Some ''udev_monitor_enable_receiving() failed'') s2)"
  have q3: "quiet P s ?s3" by (rule quiet_trans [OF q2 quiet_fail])
  obtain r4 s4 where i: "hs_monitor_init hp p s2 = Some (r4, s4)" "ext s4 = ext s2"
    "r4 = 0 \<and> knows call p s4 {} \<or> r4 < 0 \<and> (\<exists>s''. hs_monitor_release p s4 = Some s'')"
    using monitor_init_run [of s2 p call hp] q2 z fr hp by (auto simp: quiet_def idle_def)
  consider "r1 < 0" | "\<not> r1 < 0" "r2 < 0" | "\<not> r1 < 0" "\<not> r2 < 0" "r4 < 0" | "\<not> r1 < 0" "\<not> r2 < 0" "\<not> r4 < 0" by blast
  then show ?thesis
  proof cases
    case 1
    with m fail [OF q1, of r1] have "\<exists>r < 0. no_monitor r p ?conn" by (auto simp: monitor_connect_def)
    then show ?thesis ..
  next
    case 2
    with m en fail [OF q3, of "-5"] have "no_monitor (-5) p ?conn" by (simp add: monitor_connect_def fail_with_eq)
    then show ?thesis by (intro disjI2 exI [of _ "-5"]) simp
  next
    case 3
    with i(3) monitor_new_fail_run [OF p _ v, of s4 r4 U] have "no_monitor r4 p (monitor_new_fail U p v (r4, s4))" by auto
    with 3 m en i(1) have "no_monitor r4 p ?conn" by (simp add: monitor_connect_def)
    with 3 show ?thesis by blast
  next
    case 4
    have k: "knows call p s4 {}" "P (ext s4)" using 4 i q2 P by (auto simp: quiet_def)
    obtain r v' s' K' where e: "enumerate_devices U alloc (monitor_enumerate_callback call p) v s4 = Some (r, v', s')"
      "v_monitor v' = v_monitor v" "P (ext s')" "knows call p s' K'" "r = 0 \<and> K' = {} \<union> found U acc D names \<or> r < 0"
      using enumerate_devices_run [OF sc al kp k, of v] by blast
    show ?thesis
    proof (cases "r < 0")
      case True
      with e(2) v monitor_new_fail_run [OF p release_knows [OF e(4)], of v' m r U]
      have "no_monitor r p ?conn" using 4 m en i(1,3) e(1) by (simp add: monitor_connect_def)
      with True show ?thesis by blast
    next
      case False
      with 4 m en i e v have "?conn = Some (0, Some p, v', s')" by (simp add: monitor_connect_def)
      with False e v show ?thesis by auto
    qed
  qed
qed

lemma hs_monitor_new_run:
  assumes sc: "udev_scan U P acc D names" and al: "allocates alloc" and kp: "keeps P call" and fr: "friendly call"
    and P: "P (ext s)" and new: "mons s p = None" "v_monitor v p = None" "{hp ..< hp + 64} \<inter> dom (devs s) = {}"
  shows "(\<exists>v' s' m. hs_monitor_new U alloc call p hp v s = Some (0, Some p, v', s') \<and> p \<noteq> NULL \<and>
       v_monitor v' p = Some m \<and> m \<noteq> NULL \<and> P (ext s') \<and> knows call p s' (found U acc D names)) \<or>
     (\<exists>r < 0. no_monitor r p (hs_monitor_new U alloc call p hp v s))"
proof -
  note scan = udev_scanD [OF sc]
  let ?new = "hs_monitor_new U alloc call p hp v s"
  obtain r1 v1 s1 where i: "init_udev U v s = (r1, v1, s1)" by (cases "init_udev U v s")
  have q1: "quiet P s s1" "v_monitor v1 = v_monitor v" "r1 \<le> 0" using init_udev_quiet [of P, OF scan(5) i] by simp_all
  have m1: "mons s1 p = None" "devs s1 = devs s" "P (ext s1)" using q1(1) new(1) P by (simp_all add: quiet_def idle_def)
  show ?thesis
  proof (cases "r1 < 0 \<or> p = NULL")
    case True
    then have "\<exists>r < 0. no_monitor r p ?new"
      using i m1(1) q1(2) new(2)
      by (auto simp: hs_monitor_new_def monitor_new_fail_def hs_monitor_free_def no_monitor_def fail_with_eq)
    then show ?thesis ..
  next
    case ok: False
    let ?s2 = "monitor_alloc p s1"
    obtain m s3 where c: "sys (u_monitor_new U (v_udev v1) ''udev'') ?s2 = (m, s3)"
      by (cases "sys (u_monitor_new U (v_udev v1) ''udev'') ?s2")
    have "quiet P ?s2 (snd (sys (u_monitor_new U (v_udev v1) ''udev'') ?s2))" by (rule sys_quiet) (rule scan(13))
    with c have q3: "quiet P ?s2 s3" by simp
    let ?v = "v1\<lparr>v_monitor := (v_monitor v1)(p \<mapsto> m)\<rparr>"
    have run: "?new = (if m = NULL then monitor_new_fail U p ?v (fail_with HS_ERROR_SYSTEM (Some ''udev_monitor_new_from_netlink() failed'') s3)
        else monitor_connect U alloc call p hp m ?v s3)"
      using ok i c q1(3) by (simp add: hs_monitor_new_def)
    have z: "mons s3 p = Some zero_monitor" "list_allocated (lists s3) p" "l_next (lists s3) p = Some NULL"
        "devs s3 = devs s" "P (ext s3)"
      using q3 ok m1 by (auto simp: quiet_def idle_def monitor_alloc_def list_allocated_def list_alloc_def)
    show ?thesis
    proof (cases "m = NULL")
      case True
      have "\<exists>s''. hs_monitor_release p (snd (fail_with HS_ERROR_SYSTEM (Some ''udev_monitor_new_from_netlink() failed'') s3)) = Some s''"
        by (rule release_empty [of _ p zero_monitor]) (use z ok in \<open>simp_all add: zero_monitor_def\<close>)
      with monitor_new_fail_run [of p _ ?v m "-5" U] ok True run have "no_monitor (-5) p ?new"
        by (simp add: fail_with_eq)
      then show ?thesis by (intro disjI2 exI [of _ "-5"]) simp
    next
      case False
      with run monitor_connect_run [OF sc al kp fr z(5,1,2,3), of ?v m hp] new(3) z(4) ok show ?thesis by auto
    qed
  qed
qed

section \<open>An example\<close>

text \<open>
  A udev with serial devices only: a device is its action and its path. The world holds the events
  to come, each with the nodes that exist when it has been received, after the current nodes.
\<close>

type_synonym ex_udev_world = "(string \<Rightarrow> bool) \<times> ((string \<times> string) \<times> (string \<Rightarrow> bool)) list"

definition ex_attr :: "string \<Rightarrow> string option" where
  "ex_attr a =
     (if a = ''busnum'' then Some ''1'' else if a = ''devpath'' then Some ''1.2''
      else if a = ''idVendor'' then Some ''16c0'' else if a = ''idProduct'' then Some ''0483''
      else if a = ''serial'' then Some ''42'' else None)"

definition ex_receive :: "ex_udev_world \<Rightarrow> (errno option + string \<times> string) \<times> ex_udev_world" where
  "ex_receive w = (case snd w of [] \<Rightarrow> (Inl None, w) | (ud, acc) # es \<Rightarrow> (Inr ud, (acc, es)))"

definition ex_udev :: "(ex_udev_world, string \<times> string) udev_api" where
  "ex_udev = \<lparr>u_new = Pair 1, u_unref = (\<lambda>u w. w), u_enumerate_new = (\<lambda>u. Pair 1), u_enumerate_unref = (\<lambda>e w. w),
     u_match_is_initialized = (\<lambda>e w. w), u_match_subsystem = (\<lambda>e x. Pair 0), u_scan_devices = (\<lambda>e. Pair 0),
     u_list_entries = (\<lambda>e w. [''/usb:1.0'']), u_new_from_syspath = (\<lambda>u name. Pair (Inr (''add'', name))),
     u_device_unref = (\<lambda>ud w. w), u_subsystem = (\<lambda>ud. Some ''tty''), u_devnode = (\<lambda>ud. Some ''/dev/ttyACM0''),
     u_devpath = snd, u_sysattr = (\<lambda>ud. ex_attr), u_parent = (\<lambda>ud sub ty. Some ud), u_action = fst,
     u_monitor_new = (\<lambda>u x. Pair 2), u_monitor_unref = (\<lambda>m w. w), u_monitor_filter = (\<lambda>m x. Pair 0),
     u_monitor_enable = (\<lambda>m. Pair 0), u_monitor_receive = (\<lambda>m. ex_receive), u_monitor_fd = (\<lambda>m. 5),
     u_access = (\<lambda>p w. fst w p), u_strdup = (\<lambda>x. Pair True)\<rparr>"

lemma ex_udev_events: "udev_events ex_udev m snd"
  by (auto simp: udev_events_def ex_udev_def ex_receive_def nodes_at_def split: list.splits)

lemma ex_udev_scan:
  "udev_scan ex_udev (\<lambda>w. fst w = (\<lambda>p. True)) (\<lambda>p. True) (\<lambda>name. Some (''add'', name)) [''/usb:1.0'']"
  by (simp add: udev_scan_def ex_udev_def nodes_at_def)

lemma ex_strtoul:
  "strtoul ''16c0'' 16 = (0x16c0, False)" "strtoul ''0483'' 16 = (0x483, False)" "strtoul ''0'' 10 = (0, False)"
  by (simp_all add: strtoul_def is_space_def hex_prefix_def digit_val_def)

definition ex_tty :: hs_device where
  "ex_tty = \<lparr>d_monitor = NULL, refcount = 1, d_key = Some ''/usb:1.0'', d_type = HS_DEVICE_TYPE_SERIAL,
     d_vtable = Hs_posix_device_vtable, d_state = HS_DEVICE_STATUS_DISCONNECTED, d_location = Some ''usb-1-1-2'',
     d_path = Some ''/dev/ttyACM0'', d_vid = 0x16c0, d_pid = 0x483, d_manufacturer = None, d_product = None,
     d_serial = Some ''42'', d_iface = 0\<rparr>"

lemma ex_describe:
  "describe ex_udev acc (a, ''/usb:1.0'') = (if acc ''/dev/ttyACM0'' then Some ex_tty else None)"
  by (simp add: describe_def ex_udev_def ex_attr_def number_case ex_strtoul kind_of_def usb_location_def ex_tty_def)

lemma ex_tty_sel [simp]: "d_key ex_tty = Some ''/usb:1.0''" "d_iface ex_tty = 0"
  by (simp_all add: ex_tty_def)

text \<open>A device is plugged in and out.\<close>

definition ex_events :: ex_udev_world where
  "ex_events = (\<lambda>p. True, [((''add'', ''/usb:1.0''), \<lambda>p. True), ((''remove'', ''/usb:1.0''), \<lambda>p. False)])"

section \<open>Properties\<close>



text \<open>
  C5: \<open>hs_monitor_new\<close> either gives a monitor that is connected to udev and knows exactly the devices of
  the enumeration that have a description, or fails with a negative code and leaves no monitor behind.
\<close>

theorem hs_monitor_new_enumerates:
  assumes "udev_scan U P acc D names" and "allocates alloc" and "keeps P call" and "friendly call"
    and "P (ext s)" and "mons s p = None" and "v_monitor v p = None" and "{hp ..< hp + 64} \<inter> dom (devs s) = {}"
  shows "(\<exists>v' s' m. hs_monitor_new U alloc call p hp v s = Some (0, Some p, v', s') \<and>
       v_monitor v' p = Some m \<and> m \<noteq> NULL \<and> knows call p s'
         {i. \<exists>name \<in> set names. \<exists>ud d. D name = Some ud \<and> describe U acc ud = Some d \<and> i = (d_key d, d_iface d)}) \<or>
     (\<exists>r v' s'. hs_monitor_new U alloc call p hp v s = Some (r, None, v', s') \<and> r < 0 \<and>
        mons s' p = None \<and> v_monitor v' p = None)"
proof -
  have "found U acc D names =
      {i. \<exists>name \<in> set names. \<exists>ud d. D name = Some ud \<and> describe U acc ud = Some d \<and> i = (d_key d, d_iface d)}"
    by (induction names) (auto simp: found_Cons split: option.splits bind_splits)
  with hs_monitor_new_run [OF assms] show ?thesis by (fastforce simp: no_monitor_def)
qed

theorem hs_monitor_new_enumerates_witness:
  "\<exists>r m v' s'. hs_monitor_new ex_udev ex_calloc ex_accept 10 100 \<lparr>v_udev = 0, v_monitor = Map.empty\<rparr>
       (ex_empty (\<lambda>p. True, [])) = Some (r, m, v', s') \<and>
     (r = 0 \<and> m = Some 10 \<and> knows ex_accept 10 s' {(Some ''/usb:1.0'', 0)} \<or> r < 0 \<and> m = None \<and> mons s' 10 = None)"
  using hs_monitor_new_enumerates [OF ex_udev_scan ex_calloc_allocates ex_accept_friendly(2,1),
      of "ex_empty (\<lambda>p. True, [])" 10 "\<lparr>v_udev = 0, v_monitor = Map.empty\<rparr>" 100]
  by (auto simp: ex_describe ex_empty_def)



text \<open>
  C20: a device that is unplugged during a refresh and not plugged in again is unknown to the monitor
  when the refresh has handled all events.
\<close>

theorem refresh_forgets_unplugged:
  assumes "udev_events U m g" and "allocates alloc" and "keeps g call" and "knows call mp s K"
    and "v_monitor v mp = Some m" and "g (ext s) = before @ (ud, acc) # after" and "u_action U ud = ''remove''"
    and "\<forall>(ud', acc') \<in> set after. u_devpath U ud' \<noteq> u_devpath U ud"
  shows "\<exists>r s'. hs_monitor_refresh U alloc call mp v s = Some (r, s') \<and>
     (r = 0 \<longrightarrow> (\<exists>K'. knows call mp s' K' \<and> (\<forall>i. (Some (u_devpath U ud), i) \<notin> K')))"
proof -
  have "mp \<noteq> NULL" using assms(4) by (simp add: knows_def)
  with assms(5) have run: "hs_monitor_refresh U alloc call mp v s = refresh_loop U alloc call mp m s"
    by (simp add: hs_monitor_refresh_def)
  obtain r s' handled rest where h: "refresh_loop U alloc call mp m s = Some (r, s')" "g (ext s) = handled @ rest"
      "monitor_feeds call mp s (concat (map (event_feed U) handled)) s'" "r = 0 \<longrightarrow> rest = []"
    using refresh_loop_run [OF assms(1-4)] by fastforce
  have "\<exists>K'. knows call mp s' K' \<and> (\<forall>i. (Some (u_devpath U ud), i) \<notin> K')" if "r = 0"
  proof -
    have "event_feed U (ud, acc) = [Depart (u_devpath U ud)]" using assms(7) by simp
    then have f: "monitor_feeds call mp s
        (concat (map (event_feed U) before) @ Depart (u_devpath U ud) # concat (map (event_feed U) after)) s'"
    proof -
      have "handled = before @ (ud, acc) # after" using h(2,4) that assms(6) by simp
      with h(3) \<open>event_feed U (ud, acc) = _\<close> show ?thesis by (simp del: event_feed.simps)
    qed
    have "Arrive (Some (u_devpath U ud), i) \<notin> set (event_feed U (ud', acc'))" if "(ud', acc') \<in> set after" for i ud' acc'
    proof -
      have "u_devpath U ud' \<noteq> u_devpath U ud" using that assms(8) by auto
      then show ?thesis using describe_new [of U acc' ud'] by (auto split: option.splits)
    qed
    then show ?thesis by (intro mon.gone_after_depart [OF f assms(4)]) auto
  qed
  with run h(1) show ?thesis by auto
qed

theorem refresh_forgets_unplugged_witness:
  "\<exists>s r s'. hs_monitor_refresh ex_udev ex_calloc ex_accept 10 \<lparr>v_udev = 1, v_monitor = [10 \<mapsto> 2]\<rparr> s = Some (r, s') \<and>
     map fst (snd (ext s)) = [(''add'', ''/usb:1.0''), (''remove'', ''/usb:1.0'')] \<and>
     (r = 0 \<longrightarrow> (\<exists>K'. knows ex_accept 10 s' K' \<and> (\<forall>i. (Some ''/usb:1.0'', i) \<notin> K')))"
proof -
  obtain s where s: "knows ex_accept 10 s {}" "ext s = ex_events" using ex_known [of ex_events] by blast
  have path: "u_devpath ex_udev = snd" "u_action ex_udev = fst" by (simp_all add: ex_udev_def)
  have "\<exists>r s'. hs_monitor_refresh ex_udev ex_calloc ex_accept 10 \<lparr>v_udev = 1, v_monitor = [10 \<mapsto> 2]\<rparr> s = Some (r, s') \<and>
      (r = 0 \<longrightarrow> (\<exists>K'. knows ex_accept 10 s' K' \<and> (\<forall>i. (Some (u_devpath ex_udev (''remove'', ''/usb:1.0'')), i) \<notin> K')))"
    by (rule refresh_forgets_unplugged [OF ex_udev_events ex_calloc_allocates ex_accept_friendly(2) s(1),
        of _ 2 "[((''add'', ''/usb:1.0''), \<lambda>p. True)]" _ "\<lambda>p. False" "[]"])
      (simp_all add: path s(2) ex_events_def)
  moreover have "map fst (snd (ext s)) = [(''add'', ''/usb:1.0''), (''remove'', ''/usb:1.0'')]"
    using s(2) by (simp add: ex_events_def)
  ultimately show ?thesis unfolding path snd_conv by (elim exE conjE) (intro exI conjI; assumption)
qed

end
