(* ===== verification/PlatformWin32.thy ===== *)
theory PlatformWin32
  imports Driver
begin

text \<open>
  The interface of Windows as the library uses it, and the model of \<open>src/platform_win32.c\<close>. As for
  POSIX, the system is a record of functions on the outside world. A call that fails gives the code
  \<open>GetLastError\<close> would return. The functions looked up at run time are there or not (\<open>None\<close>).

  The bytes of an asynchronous read are stored in the buffer of the caller while the request is
  pending; in the model they come with the result of \<open>GetOverlappedResult\<close>, which is the first time
  the library looks at them.
\<close>

section \<open>The system\<close>

datatype werror = ERROR_FILE_NOT_FOUND | ERROR_PATH_NOT_FOUND | ERROR_ACCESS_DENIED | ERROR_NOT_ENOUGH_MEMORY
  | ERROR_OUTOFMEMORY | ERROR_IO_INCOMPLETE | ERROR_IO_PENDING | ERROR_OTHER nat

record comm_timeouts =
  ReadIntervalTimeout :: uint32
  ReadTotalTimeoutMultiplier :: uint32
  ReadTotalTimeoutConstant :: uint32
  WriteTotalTimeoutMultiplier :: uint32
  WriteTotalTimeoutConstant :: uint32

datatype parity = NOPARITY | ODDPARITY | EVENPARITY

datatype line_control = CONTROL_DISABLE | CONTROL_ENABLE

text \<open>The fields of \<open>DCB\<close> the library sets; \<open>other_fields\<close> stands for the rest.\<close>

record dcb =
  BaudRate :: uint32
  ByteSize :: uint8
  fParity :: bool
  Parity :: parity
  StopBits :: uint8
  fOutxCtsFlow :: bool
  fOutxDsrFlow :: bool
  fRtsControl :: line_control
  fDtrControl :: line_control
  fOutX :: bool
  fInX :: bool
  other_fields :: nat

record 'w win32_os =
  w_tick_count64 :: "('w \<Rightarrow> uint64 \<times> 'w) option"
  w_perf_frequency :: "'w \<Rightarrow> uint64 option \<times> 'w"
  w_perf_counter :: "'w \<Rightarrow> uint64 option \<times> 'w"
  w_wait_multiple :: "nat list \<Rightarrow> uint32 \<Rightarrow> 'w \<Rightarrow> (werror + uint32) \<times> 'w"
  w_wait_single :: "nat \<Rightarrow> uint32 \<Rightarrow> 'w \<Rightarrow> 'w"
  w_format_message :: "werror \<Rightarrow> string option"
  w_version :: "uint32 \<times> uint32"
  w_create_file :: "string \<Rightarrow> 'w \<Rightarrow> (werror + nat) \<times> 'w"
  w_create_event :: "'w \<Rightarrow> (werror + nat) \<times> 'w"
  w_close_handle :: "nat \<Rightarrow> 'w \<Rightarrow> 'w"
  w_set_comm_timeouts :: "nat \<Rightarrow> comm_timeouts \<Rightarrow> 'w \<Rightarrow> 'w"
  w_escape_setdtr :: "nat \<Rightarrow> 'w \<Rightarrow> 'w"
  w_read_file :: "nat \<Rightarrow> nat \<Rightarrow> nat \<Rightarrow> 'w \<Rightarrow> werror option \<times> 'w"
  w_overlapped_result :: "nat \<Rightarrow> nat \<Rightarrow> bool \<Rightarrow> 'w \<Rightarrow> (werror + uint8 list) \<times> 'w"
  w_cancel_io :: "nat \<Rightarrow> 'w \<Rightarrow> 'w"
  w_cancel_io_ex :: "(nat \<Rightarrow> 'w \<Rightarrow> 'w) option"
  w_thread :: "'w \<Rightarrow> uint32"
  w_begin_thread :: "nat \<Rightarrow> 'w \<Rightarrow> 'w"
  w_write_file :: "nat \<Rightarrow> uint8 list \<Rightarrow> 'w \<Rightarrow> werror option \<times> 'w"
  w_write_result :: "nat \<Rightarrow> 'w \<Rightarrow> (werror + uint32) \<times> 'w"
  w_get_preparsed :: "nat \<Rightarrow> 'w \<Rightarrow> nat option \<times> 'w"
  w_get_caps :: "nat \<Rightarrow> 'w \<Rightarrow> (uint16 \<times> uint16) option \<times> 'w"
  w_free_preparsed :: "nat \<Rightarrow> 'w \<Rightarrow> 'w"
  w_get_feature :: "nat \<Rightarrow> uint8 list \<Rightarrow> 'w \<Rightarrow> werror option \<times> 'w"
  w_feature_result :: "nat \<Rightarrow> 'w \<Rightarrow> (werror + uint8 list) \<times> 'w"
  w_set_feature :: "nat \<Rightarrow> uint8 list \<Rightarrow> 'w \<Rightarrow> bool \<times> 'w"
  w_get_comm_state :: "nat \<Rightarrow> 'w \<Rightarrow> (werror + dcb) \<times> 'w"
  w_set_comm_state :: "nat \<Rightarrow> dcb \<Rightarrow> 'w \<Rightarrow> (werror + unit) \<times> 'w"

definition INFINITE :: uint32 where "INFINITE = 0xFFFFFFFF"
definition WAIT_OBJECT_0 :: uint32 where "WAIT_OBJECT_0 = 0"
definition WAIT_TIMEOUT :: uint32 where "WAIT_TIMEOUT = 258"

section \<open>Model of \<open>platform_win32.c\<close>\<close>

text \<open>\<open>freq\<close> is the static variable of the fallback.\<close>

definition GetTickCount64_fallback ::
  "'w win32_os \<Rightarrow> uint64 \<Rightarrow> 'w hs_state \<Rightarrow> (uint64 \<times> uint64 \<times> 'w hs_state) option" where
  "GetTickCount64_fallback os freq s = do {
     (freq, s) \<leftarrow>
       (if freq = 0 then do {
          let (ret, s) = sys (w_perf_frequency os) s;
          f \<leftarrow> ret;
          Some (f, s)
        }
        else Some (freq, s));
     let (ret, s) = sys (w_perf_counter os) s;
     now \<leftarrow> ret;
     c_assert (freq \<noteq> 0);
     Some (now * 1000 div freq, freq, s)
   }"

text \<open>The pointer \<open>GetTickCount64_\<close> is set once, by \<open>_HS_INIT()\<close>.\<close>

definition hs_millis_win32 ::
  "'w win32_os \<Rightarrow> uint64 \<Rightarrow> 'w hs_state \<Rightarrow> (uint64 \<times> uint64 \<times> 'w hs_state) option" where
  "hs_millis_win32 os freq s =
     (case w_tick_count64 os of
        Some tick \<Rightarrow> (let (t, s) = sys tick s in Some (t, freq, s))
      | None \<Rightarrow> GetTickCount64_fallback os freq s)"

text \<open>The loop that takes the newlines off the end: the length that remains of the first \<open>n\<close> characters.\<close>

fun strip_newlines :: "string \<Rightarrow> nat \<Rightarrow> nat" where
  "strip_newlines buf 0 = 0"
| "strip_newlines buf (Suc n) =
     (if buf ! n = CHR 0x0A \<or> buf ! n = CHR 0x0D then strip_newlines buf n else Suc n)"

definition hs_win32_strerror :: "'w win32_os \<Rightarrow> werror \<Rightarrow> string" where
  "hs_win32_strerror os err =
     (case w_format_message os err of
        Some buf \<Rightarrow> take (strip_newlines buf (length buf)) buf
      | None \<Rightarrow> ''(unknown)'')"

definition hs_poll_win32 ::
  "'w win32_os \<Rightarrow> nat descriptor_set \<Rightarrow> int \<Rightarrow> 'w hs_state \<Rightarrow> (int \<times> 'w hs_state) option" where
  "hs_poll_win32 os dset timeout s = do {
     c_assert (ds_count dset \<noteq> 0);
     c_assert (ds_count dset \<le> 64);
     let (ret, s) = sys (w_wait_multiple os (take (unat (ds_count dset)) (ds_desc dset))
       (if timeout < 0 then INFINITE else of_int timeout)) s;
     case ret of
       Inl e \<Rightarrow> Some (fail_with HS_ERROR_SYSTEM (Some (''WaitForMultipleObjects() failed: '' @ hs_win32_strerror os e)) s)
     | Inr r \<Rightarrow>
         if r = WAIT_TIMEOUT then Some (0, s)
         else do {
           n \<leftarrow> buf_read (ds_id dset) (unat (r - WAIT_OBJECT_0));
           Some (n, s)
         }
   }"

definition hs_win32_version :: "'w win32_os \<Rightarrow> uint32" where
  "hs_win32_version os = (case w_version os of (major, minor) \<Rightarrow> major * 100 + minor)"

section \<open>Lemmas\<close>

lemma strip_newlines_le: "strip_newlines buf n \<le> n"
  by (induction n) auto

lemma strip_newlines_prefix:
  "n \<le> length buf \<Longrightarrow> (\<forall>i. strip_newlines buf n \<le> i \<and> i < n \<longrightarrow> buf ! i = CHR 0x0A \<or> buf ! i = CHR 0x0D) \<and>
     (strip_newlines buf n \<noteq> 0 \<longrightarrow> buf ! (strip_newlines buf n - 1) \<noteq> CHR 0x0A \<and>
       buf ! (strip_newlines buf n - 1) \<noteq> CHR 0x0D)"
  by (induction n) (auto simp: less_Suc_eq)

text \<open>The message of an error ends with no newline, and only newlines are cut.\<close>

lemma hs_win32_strerror_strip:
  assumes "w_format_message os err = Some (msg @ nl)" and "set nl \<subseteq> {CHR 0x0A, CHR 0x0D}"
    and "msg \<noteq> [] \<Longrightarrow> last msg \<notin> {CHR 0x0A, CHR 0x0D}"
  shows "hs_win32_strerror os err = msg"
proof -
  let ?n = "length (msg @ nl)"
  have nl: "strip_newlines (msg @ ys @ zs) (length msg + length ys) = strip_newlines (msg @ ys @ zs) (length msg)"
    if "set ys \<subseteq> {CHR 0x0A, CHR 0x0D}" for ys zs
    using that
  proof (induction ys arbitrary: zs rule: rev_induct)
    case (snoc y ys)
    have "strip_newlines (msg @ (ys @ [y]) @ zs) (length msg + length (ys @ [y])) =
        strip_newlines (msg @ ys @ (y # zs)) (length msg + length ys)"
      using snoc.prems by (simp add: nth_append)
    with snoc show ?case by simp
  qed simp
  have "strip_newlines (msg @ nl @ []) (length msg) = length msg"
  proof (cases msg rule: rev_exhaust)
    case (snoc xs x)
    with assms(3) show ?thesis by (simp add: nth_append)
  qed simp
  with nl [OF assms(2), of "[]"] assms(1) show ?thesis by (simp add: hs_win32_strerror_def)
qed

lemma hs_poll_win32_run:
  assumes ok: "ds_ok dset" "ds_count dset \<noteq> 0"
    and wait: "\<And>hs t w r. fst (w_wait_multiple os hs t w) = Inr r \<Longrightarrow> r = WAIT_TIMEOUT \<or> unat r < length hs"
  shows "\<exists>r s'. hs_poll_win32 os dset timeout s = Some (r, s') \<and> lib_frame s s' \<and> devs s' = devs s \<and>
     (case fst (w_wait_multiple os (map fst (entries dset)) (if timeout < 0 then INFINITE else of_int timeout) (ext s)) of
        Inl e \<Rightarrow> r = err_val HS_ERROR_SYSTEM
      | Inr i \<Rightarrow> if i = WAIT_TIMEOUT then r = 0 else r = snd (entries dset ! unat i))"
proof -
  let ?n = "unat (ds_count dset)" and ?t = "if timeout < 0 then INFINITE else of_int timeout"
  have n: "?n \<le> 64" "length (ds_desc dset) = 64" "length (ds_id dset) = 64" using ok by (simp_all add: ds_ok_def)
  have le: "ds_count dset \<le> 64" using n(1) by (simp add: word_le_nat_alt)
  have hs: "take ?n (ds_desc dset) = map fst (entries dset)" using n by (simp add: entries_def take_map [symmetric])
  obtain res w where w: "w_wait_multiple os (map fst (entries dset)) ?t (ext s) = (res, w)"
    by (cases "w_wait_multiple os (map fst (entries dset)) ?t (ext s)")
  show ?thesis
  proof (cases res)
    case (Inl e)
    with w hs ok(2) le show ?thesis
      by (simp add: hs_poll_win32_def sys_def fail_with_eq)
  next
    case (Inr i)
    have i: "i = WAIT_TIMEOUT \<or> unat i < ?n"
      using wait [of "map fst (entries dset)" ?t "ext s" i] w Inr length_entries [OF ok(1)] by simp
    have "ds_id dset ! unat i = snd (entries dset ! unat i)" if "unat i < ?n"
      using that n by (simp add: entries_def)
    with w hs ok(2) le Inr i n show ?thesis
      by (auto simp: hs_poll_win32_def sys_def WAIT_OBJECT_0_def buf_read_def)
  qed
qed

end
