(* ===== verification/DeviceWin32.thy ===== *)
theory DeviceWin32
  imports PlatformWin32
begin

text \<open>
  Model of \<open>src/device_win32.c\<close>: opening and closing a file handle, and the asynchronous read request
  that is pending while a handle is open. The driver is an interpretation of the contract of the
  theory \<open>Driver\<close>.
\<close>

section \<open>State\<close>

text \<open>
  \<open>struct hs_handle\<close>. \<open>wh_ov\<close> is the event of the \<open>OVERLAPPED\<close> structure (null until it is created),
  \<open>None\<close> when the structure is not allocated; \<open>wh_buf\<close> the read buffer, empty when it is not allocated;
  \<open>wh_ptr\<close> the offset of \<open>ptr\<close> in it.
\<close>

record win32_handle =
  wh_dev :: addr
  wh_handle :: nat
  wh_ov :: "nat option"
  wh_buf :: "uint8 list"
  wh_pending :: uint32
  wh_ptr :: nat
  wh_len :: int

definition READ_BUFFER_SIZE :: nat where "READ_BUFFER_SIZE = 1024"

definition INVALID_HANDLE_VALUE :: nat where "INVALID_HANDLE_VALUE = 2 ^ 64 - 1"

section \<open>The read request\<close>

text \<open>The message that every failing transfer reports.\<close>

definition io_error :: "string \<Rightarrow> addr \<Rightarrow> 'w hs_state \<Rightarrow> (int \<times> 'w hs_state) option" where
  "io_error what dev s = do {
     d \<leftarrow> devs s dev;
     path \<leftarrow> d_path d;
     Some (fail_with HS_ERROR_IO (Some (''I/O error while '' @ what @ '' '' @ sq path)) s)
   }"

definition hs_win32_start_async_read ::
  "'w win32_os \<Rightarrow> win32_handle \<Rightarrow> 'w hs_state \<Rightarrow> (int \<times> win32_handle \<times> 'w hs_state) option" where
  "hs_win32_start_async_read os h s = do {
     ev \<leftarrow> wh_ov h;
     let (e, s) = sys (w_read_file os (wh_handle h) ev READ_BUFFER_SIZE) s;
     if e \<noteq> None \<and> e \<noteq> Some ERROR_IO_PENDING then do {
       (r, s) \<leftarrow> io_error ''reading from'' (wh_dev h) (sys_do (w_cancel_io os (wh_handle h)) s);
       Some (r, h, s)
     }
     else Some (0, h\<lparr>wh_pending := w_thread os (ext s)\<rparr>, s)
   }"

definition hs_win32_finalize_async_read ::
  "'w win32_os \<Rightarrow> win32_handle \<Rightarrow> int \<Rightarrow> 'w hs_state \<Rightarrow> (int \<times> win32_handle \<times> 'w hs_state) option" where
  "hs_win32_finalize_async_read os h timeout s = do {
     ev \<leftarrow> wh_ov h;
     let s = (if timeout > 0 then sys_do (w_wait_single os ev (of_int timeout)) s else s);
     let (res, s) = sys (w_overlapped_result os (wh_handle h) ev (timeout < 0)) s;
     case res of
       Inl e \<Rightarrow>
         if e = ERROR_IO_INCOMPLETE then Some (0, h, s)
         else do {
           (r, s) \<leftarrow> io_error ''reading from'' (wh_dev h) s;
           Some (r, h\<lparr>wh_pending := 0\<rparr>, s)
         }
     | Inr ds \<Rightarrow> do {
         buf \<leftarrow> buf_write 0 ds (wh_buf h);
         Some (int (length ds), h\<lparr>wh_buf := buf, wh_pending := 0\<rparr>, s)
       }
   }"

text \<open>
  The next request after one has been used up: its failure is kept in \<open>len\<close> for the next call and not
  reported.
\<close>

definition restart_masked ::
  "'w win32_os \<Rightarrow> win32_handle \<Rightarrow> 'w hs_state \<Rightarrow> (win32_handle \<times> 'w hs_state) option" where
  "restart_masked os h s = do {
     L \<leftarrow> hs_error_mask HS_ERROR_IO (logs s);
     (r, h, s) \<leftarrow> hs_win32_start_async_read os h (s\<lparr>logs := L\<rparr>);
     L \<leftarrow> hs_error_unmask (logs s);
     Some (h\<lparr>wh_len := r\<rparr>, s\<lparr>logs := L\<rparr>)
   }"

text \<open>A request that failed to start is tried again first: the result is negative if it fails again.\<close>

definition retry_failed ::
  "'w win32_os \<Rightarrow> win32_handle \<Rightarrow> 'w hs_state \<Rightarrow> (win32_handle \<times> 'w hs_state) option" where
  "retry_failed os h s =
     (if wh_len h < 0 then do {
        (r, h, s) \<leftarrow> hs_win32_start_async_read os h s;
        Some (h\<lparr>wh_len := r\<rparr>, s)
      }
      else Some (h, s))"

text \<open>The synchronous write on an overlapped handle, the same in the HID and the serial code.\<close>

definition overlapped_write ::
  "'w win32_os \<Rightarrow> win32_handle \<Rightarrow> uint8 list \<Rightarrow> 'w hs_state \<Rightarrow> (int \<times> 'w hs_state) option" where
  "overlapped_write os h ds s =
     (let (e, s) = sys (w_write_file os (wh_handle h) ds) s in
      if e \<noteq> None \<and> e \<noteq> Some ERROR_IO_PENDING
      then io_error ''writing to'' (wh_dev h) (sys_do (w_cancel_io os (wh_handle h)) s)
      else
        (case sys (w_write_result os (wh_handle h)) s of
           (Inl e, s) \<Rightarrow> io_error ''writing to'' (wh_dev h) s
         | (Inr len, s) \<Rightarrow> Some (uint len, s)))"

section \<open>Opening and closing\<close>

text \<open>\<open>CancelIoEx_\<close> is null on Windows XP, where a thread of its own waits for the end of the request.\<close>

definition close_win32_device :: "'w win32_os \<Rightarrow> win32_handle \<Rightarrow> 'w hs_state \<Rightarrow> 'w hs_state option" where
  "close_win32_device os h s = do {
     s \<leftarrow> hs_device_unref (wh_dev h) s;
     let (leave, s) =
       (if wh_pending h \<noteq> 0
        then (case w_cancel_io_ex os of
                Some cancel \<Rightarrow> (False, sys_do (cancel (wh_handle h)) s)
              | None \<Rightarrow>
                  (let s = sys_do (w_cancel_io os (wh_handle h)) s in
                   if wh_pending h \<noteq> w_thread os (ext s) then (True, sys_do (w_begin_thread os (wh_handle h)) s)
                   else (False, s)))
        else (False, s));
     if leave then Some s
     else do {
       let s = (if wh_handle h \<noteq> 0 then sys_do (w_close_handle os (wh_handle h)) s else s);
       Some (case wh_ov h of
               Some ev \<Rightarrow> if ev \<noteq> 0 then sys_do (w_close_handle os ev) s else s
             | None \<Rightarrow> s)
     }
   }"

text \<open>The body of that thread; its handle has no device any more.\<close>

definition overlapped_cleanup_thread :: "'w win32_os \<Rightarrow> win32_handle \<Rightarrow> 'w hs_state \<Rightarrow> 'w hs_state option" where
  "overlapped_cleanup_thread os h s = do {
     ev \<leftarrow> wh_ov h;
     let s = sys_do (w_wait_single os ev 300000) s;
     let (res, s) = sys (w_overlapped_result os (wh_handle h) ev False) s;
     if res = Inl ERROR_IO_INCOMPLETE
     then Some (log_msg HS_LOG_WARNING ''Cannot stop asynchronous read request, leaking handle and memory'' s)
     else close_win32_device os (h\<lparr>wh_dev := NULL, wh_pending := 0\<rparr>) s
   }"

definition create_error :: "'w win32_os \<Rightarrow> string \<Rightarrow> werror \<Rightarrow> 'w hs_state \<Rightarrow> int \<times> 'w hs_state" where
  "create_error os path e s =
     (if e = ERROR_FILE_NOT_FOUND \<or> e = ERROR_PATH_NOT_FOUND
      then fail_with HS_ERROR_NOT_FOUND (Some (''Device '' @ sq path @ '' not found'')) s
      else if e = ERROR_NOT_ENOUGH_MEMORY \<or> e = ERROR_OUTOFMEMORY then fail_with HS_ERROR_MEMORY None s
      else if e = ERROR_ACCESS_DENIED
      then fail_with HS_ERROR_ACCESS (Some (''Permission denied for device '' @ sq path)) s
      else fail_with HS_ERROR_SYSTEM
             (Some (''CreateFile('' @ sq path @ '') failed: '' @ hs_win32_strerror os e)) s)"

text \<open>\<open>error:\<close> closes what has been opened so far.\<close>

definition open_win32_fail ::
  "'w win32_os \<Rightarrow> win32_handle \<Rightarrow> int \<times> 'w hs_state \<Rightarrow> (int \<times> win32_handle option \<times> 'w hs_state) option" where
  "open_win32_fail os h rs = do {
     s \<leftarrow> close_win32_device os h (snd rs);
     Some (fst rs, None, s)
   }"

definition open_timeouts :: comm_timeouts where
  "open_timeouts = \<lparr>ReadIntervalTimeout = 1, ReadTotalTimeoutMultiplier = 0, ReadTotalTimeoutConstant = 0,
     WriteTotalTimeoutMultiplier = 0, WriteTotalTimeoutConstant = 1000\<rparr>"

text \<open>The last part of the opening; the result of the first request is not looked at.\<close>

definition open_win32_start ::
  "'w win32_os \<Rightarrow> hs_device \<Rightarrow> win32_handle \<Rightarrow> 'w hs_state \<Rightarrow> (int \<times> win32_handle option \<times> 'w hs_state) option" where
  "open_win32_start os d h s = do {
     let s = sys_do (w_set_comm_timeouts os (wh_handle h) open_timeouts) s;
     let s = (if d_type d = HS_DEVICE_TYPE_SERIAL then sys_do (w_escape_setdtr os (wh_handle h)) s else s);
     (r, h, s) \<leftarrow> hs_win32_start_async_read os h s;
     Some (0, Some h, s)
   }"

text \<open>\<open>mem i\<close> says whether the \<open>i\<close>-th allocation of the function succeeds.\<close>

definition open_win32_device ::
  "'w win32_os \<Rightarrow> (nat \<Rightarrow> bool) \<Rightarrow> addr \<Rightarrow> 'w hs_state \<Rightarrow> (int \<times> win32_handle option \<times> 'w hs_state) option" where
  "open_win32_device os mem dev s =
     (if \<not> mem 0 then (let (r, s) = fail_with HS_ERROR_MEMORY None s in Some (r, None, s))
      else do {
        (dev, s) \<leftarrow> hs_device_ref dev s;
        d \<leftarrow> devs s dev;
        path \<leftarrow> d_path d;
        let h = \<lparr>wh_dev = dev, wh_handle = 0, wh_ov = None, wh_buf = [], wh_pending = 0, wh_ptr = 0, wh_len = 0\<rparr>;
        let (res, s) = sys (w_create_file os path) s;
        case res of
          Inl e \<Rightarrow> open_win32_fail os (h\<lparr>wh_handle := INVALID_HANDLE_VALUE\<rparr>) (create_error os path e s)
        | Inr fh \<Rightarrow> do {
            let h = h\<lparr>wh_handle := fh\<rparr>;
            if \<not> mem 1 then open_win32_fail os h (fail_with HS_ERROR_MEMORY None s)
            else do {
              let (res, s) = sys (w_create_event os) s;
              case res of
                Inl e \<Rightarrow> open_win32_fail os (h\<lparr>wh_ov := Some 0\<rparr>)
                  (fail_with HS_ERROR_SYSTEM (Some (''CreateEvent() failed: '' @ hs_win32_strerror os e)) s)
              | Inr ev \<Rightarrow> do {
                  let h = h\<lparr>wh_ov := Some ev\<rparr>;
                  if \<not> mem 2 then open_win32_fail os h (fail_with HS_ERROR_MEMORY None s)
                  else open_win32_start os d (h\<lparr>wh_buf := replicate READ_BUFFER_SIZE 0\<rparr>) s
                }
            }
          }
      })"

definition get_win32_descriptor :: "win32_handle \<Rightarrow> nat option" where
  "get_win32_descriptor h = wh_ov h"

definition hs_win32_device_vtable :: "'w win32_os \<Rightarrow> (nat \<Rightarrow> bool) \<Rightarrow> ('w, win32_handle) device_vtable" where
  "hs_win32_device_vtable os mem = \<lparr>vt_open = open_win32_device os mem, vt_close = close_win32_device os,
     vt_get_descriptor = (\<lambda>h. case get_win32_descriptor h of None \<Rightarrow> 0 | Some ev \<Rightarrow> int ev)\<rparr>"

section \<open>The contract of the driver\<close>

lemma io_error_run:
  assumes "devs s dev = Some d" and "d_path d = Some path"
  shows "\<exists>s'. io_error what dev s = Some (err_val HS_ERROR_IO, s') \<and> lib_frame s s' \<and> devs s' = devs s \<and> ext s' = ext s \<and>
     (\<exists>m. logs s' = snd (hs_error HS_ERROR_IO m (logs s)))"
  using assms by (auto simp: io_error_def fail_with_eq)

lemma start_async_read_run:
  assumes ev: "wh_ov h = Some ev" and d: "devs s (wh_dev h) = Some d" "d_path d = Some path"
  shows "\<exists>r h' s'. hs_win32_start_async_read os h s = Some (r, h', s') \<and> lib_frame s s' \<and> devs s' = devs s \<and>
     (r = 0 \<and> logs s' = logs s \<or> r = err_val HS_ERROR_IO \<and> (\<exists>m. logs s' = snd (hs_error HS_ERROR_IO m (logs s)))) \<and>
     (\<exists>p. h' = h\<lparr>wh_pending := p\<rparr>)"
proof -
  obtain e w where w: "w_read_file os (wh_handle h) ev READ_BUFFER_SIZE (ext s) = (e, w)"
    by (cases "w_read_file os (wh_handle h) ev READ_BUFFER_SIZE (ext s)")
  let ?s1 = "sys_do (w_cancel_io os (wh_handle h)) (s\<lparr>ext := w\<rparr>)"
  obtain s' where "io_error ''reading from'' (wh_dev h) ?s1 = Some (err_val HS_ERROR_IO, s')" "lib_frame ?s1 s'" "devs s' = devs ?s1"
      "\<exists>m. logs s' = snd (hs_error HS_ERROR_IO m (logs s))"
    using io_error_run [of ?s1 "wh_dev h" d path "''reading from''"] d by (auto simp: sys_do_def)
  with w ev show ?thesis
    by (auto simp: hs_win32_start_async_read_def sys_def sys_do_def intro: exI [of _ "wh_pending h"])
qed

text \<open>A release does not look at the outside world.\<close>

lemma unref_ext: "hs_device_unref dev (s\<lparr>ext := w\<rparr>) = map_option (\<lambda>s. s\<lparr>ext := w\<rparr>) (hs_device_unref dev s)"
  by (cases "devs s dev") (auto simp: hs_device_unref_def device_free_def)

text \<open>What closing does outside the library.\<close>

definition closed_world :: "'w win32_os \<Rightarrow> win32_handle \<Rightarrow> 'w \<Rightarrow> 'w" where
  "closed_world os h w =
     (let release = (\<lambda>w. let w = (if wh_handle h \<noteq> 0 then w_close_handle os (wh_handle h) w else w) in
            case wh_ov h of Some ev \<Rightarrow> if ev \<noteq> 0 then w_close_handle os ev w else w | None \<Rightarrow> w) in
      if wh_pending h = 0 then release w
      else (case w_cancel_io_ex os of
              Some cancel \<Rightarrow> release (cancel (wh_handle h) w)
            | None \<Rightarrow>
                (let w = w_cancel_io os (wh_handle h) w in
                 if wh_pending h \<noteq> w_thread os w then w_begin_thread os (wh_handle h) w else release w)))"

lemma close_win32_device_eq:
  "close_win32_device os h s =
     map_option (\<lambda>s. s\<lparr>ext := closed_world os h (ext s)\<rparr>) (hs_device_unref (wh_dev h) s)"
proof (cases "hs_device_unref (wh_dev h) s")
  case None
  then show ?thesis by (simp add: close_win32_device_def)
next
  case (Some s1)
  then show ?thesis
    by (cases "wh_ov h"; cases "w_cancel_io_ex os")
      (simp_all add: close_win32_device_def closed_world_def sys_do_def Let_def)
qed

lemma close_win32_unref: "\<exists>w. close_win32_device os h s = hs_device_unref (wh_dev h) (s\<lparr>ext := w\<rparr>)"
proof -
  have "ext s' = ext s" if "hs_device_unref (wh_dev h) s = Some s'" for s'
    using that by (auto simp: hs_device_unref_def split: if_splits bind_splits)
  then have "close_win32_device os h s = hs_device_unref (wh_dev h) (s\<lparr>ext := closed_world os h (ext s)\<rparr>)"
    unfolding close_win32_device_eq unref_ext by (cases "hs_device_unref (wh_dev h) s") simp_all
  then show ?thesis ..
qed

lemma open_win32_fail_run:
  assumes u: "usable s dev d" and h: "wh_dev h = dev"
    and s': "devs s' = (devs s)(dev \<mapsto> d\<lparr>refcount := refcount d + 1\<rparr>)" "lib_frame s s'"
  shows "\<exists>s''. open_win32_fail os h (r, s') = Some (r, None, s'') \<and> devs s'' = devs s \<and> lib_frame s s''"
  using unref_after_ref [OF u s'] h by (auto simp: open_win32_fail_def close_win32_device_eq)

text \<open>Which error of the library stands for an error of \<open>CreateFile\<close>.\<close>

fun create_code :: "werror \<Rightarrow> hs_error_code" where
  "create_code ERROR_FILE_NOT_FOUND = HS_ERROR_NOT_FOUND"
| "create_code ERROR_PATH_NOT_FOUND = HS_ERROR_NOT_FOUND"
| "create_code ERROR_NOT_ENOUGH_MEMORY = HS_ERROR_MEMORY"
| "create_code ERROR_OUTOFMEMORY = HS_ERROR_MEMORY"
| "create_code ERROR_ACCESS_DENIED = HS_ERROR_ACCESS"
| "create_code e = HS_ERROR_SYSTEM"

lemma create_error_run:
  "\<exists>s'. create_error os path e s = (err_val (create_code e), s') \<and> lib_frame s s' \<and> devs s' = devs s"
  by (cases e) (simp_all add: create_error_def fail_with_eq)

lemma open_win32_start_run:
  assumes ev: "wh_ov h = Some ev" and d: "devs s (wh_dev h) = Some d'" "d_path d' = Some path"
  shows "\<exists>h' s' p. open_win32_start os d h s = Some (0, Some h', s') \<and> lib_frame s s' \<and> devs s' = devs s \<and>
     h' = h\<lparr>wh_pending := p\<rparr>"
proof -
  let ?s1 = "sys_do (w_set_comm_timeouts os (wh_handle h) open_timeouts) s"
  let ?s2 = "if d_type d = HS_DEVICE_TYPE_SERIAL then sys_do (w_escape_setdtr os (wh_handle h)) ?s1 else ?s1"
  have "lib_frame s ?s2" "devs ?s2 = devs s" by (simp_all add: sys_do_def)
  then show ?thesis
    using start_async_read_run [of h ev ?s2 d' path os] ev d by (auto simp: open_win32_start_def Let_def lib_frame_def)
qed

text \<open>The outcomes of \<open>open_win32_device\<close>: it always returns.\<close>

lemma open_win32_device_run:
  assumes u: "usable s dev d"
  shows "(\<exists>h s' fh ev p. open_win32_device os mem dev s = Some (0, Some h, s') \<and> lib_frame s s' \<and>
       devs s' = (devs s)(dev \<mapsto> d\<lparr>refcount := refcount d + 1\<rparr>) \<and>
       h = \<lparr>wh_dev = dev, wh_handle = fh, wh_ov = Some ev, wh_buf = replicate READ_BUFFER_SIZE 0, wh_pending = p,
         wh_ptr = 0, wh_len = 0\<rparr>) \<or>
     (\<exists>e s'. open_win32_device os mem dev s = Some (err_val e, None, s') \<and> lib_frame s s' \<and> devs s' = devs s)"
proof (cases "mem 0")
  case False
  then show ?thesis
    by (intro disjI2 exI [of _ HS_ERROR_MEMORY]) (simp add: open_win32_device_def fail_with_eq)
next
  case True
  let ?open = "open_win32_device os mem dev s"
  obtain path where path: "d_path d = Some path" using u by (auto simp: usable_def)
  let ?D = "(devs s)(dev \<mapsto> d\<lparr>refcount := refcount d + 1\<rparr>)"
  have ref: "hs_device_ref dev s = Some (dev, s\<lparr>devs := ?D\<rparr>)" using u by (simp add: usable_def hs_device_ref_run)
  let ?h = "\<lparr>wh_dev = dev, wh_handle = 0, wh_ov = None, wh_buf = [], wh_pending = 0, wh_ptr = 0, wh_len = 0\<rparr>"
  note unfold = open_win32_device_def ref path sys_def True
  have fail: ?thesis if "?open = open_win32_fail os h (r, s')" "wh_dev h = dev" "devs s' = ?D" "lib_frame s s'" "r = err_val e"
    for h r s' e
    using that open_win32_fail_run [OF u that(2-4), of os r] by auto
  obtain res w where cf: "w_create_file os path (ext s) = (res, w)" by (cases "w_create_file os path (ext s)")
  let ?s1 = "s\<lparr>devs := ?D, ext := w\<rparr>"
  show ?thesis
  proof (cases res)
    case (Inl e)
    obtain s' where "create_error os path e ?s1 = (err_val (create_code e), s')" "lib_frame ?s1 s'" "devs s' = devs ?s1"
      using create_error_run [of os path e ?s1] by blast
    then show ?thesis by (intro fail [of "?h\<lparr>wh_handle := INVALID_HANDLE_VALUE\<rparr>" "err_val (create_code e)" s' "create_code e"]) (use cf Inl in \<open>simp_all add: unfold\<close>)
  next
    case (Inr fh)
    let ?fail = "\<lambda>w. (err_val HS_ERROR_MEMORY, snd (fail_with HS_ERROR_MEMORY None (s\<lparr>devs := ?D, ext := w\<rparr>)))"
    show ?thesis
    proof (cases "mem 1")
      case False
      then show ?thesis
        by (intro fail [of "?h\<lparr>wh_handle := fh\<rparr>" _ "snd (?fail w)" HS_ERROR_MEMORY]) (use cf Inr in \<open>simp_all add: unfold fail_with_eq\<close>)
    next
      case m1: True
      obtain res2 w2 where ce: "w_create_event os w = (res2, w2)" by (cases "w_create_event os w")
      show ?thesis
      proof (cases res2)
        case (Inl e)
        let ?msg = "Some (''CreateEvent() failed: '' @ hs_win32_strerror os e)"
        show ?thesis
          by (rule fail [of "?h\<lparr>wh_handle := fh, wh_ov := Some 0\<rparr>" "err_val HS_ERROR_SYSTEM"
                "snd (fail_with HS_ERROR_SYSTEM ?msg (s\<lparr>devs := ?D, ext := w2\<rparr>))" HS_ERROR_SYSTEM])
            (use cf Inr m1 ce Inl in \<open>simp_all add: unfold fail_with_eq\<close>)
      next
        case ev: (Inr ev)
        let ?h2 = "?h\<lparr>wh_handle := fh, wh_ov := Some ev\<rparr>"
        show ?thesis
        proof (cases "mem 2")
          case False
          then show ?thesis
            by (intro fail [of ?h2 _ "snd (?fail w2)" HS_ERROR_MEMORY])
              (use cf Inr m1 ce ev in \<open>simp_all add: unfold fail_with_eq\<close>)
        next
          case m2: True
          let ?s2 = "s\<lparr>devs := ?D, ext := w2\<rparr>" and ?h3 = "?h2\<lparr>wh_buf := replicate READ_BUFFER_SIZE 0\<rparr>"
          obtain h' s' p where st: "open_win32_start os (d\<lparr>refcount := refcount d + 1\<rparr>) ?h3 ?s2 = Some (0, Some h', s')"
              "lib_frame ?s2 s'" "devs s' = devs ?s2" "h' = ?h3\<lparr>wh_pending := p\<rparr>"
            using open_win32_start_run [of ?h3 ev ?s2 "d\<lparr>refcount := refcount d + 1\<rparr>" path os "d\<lparr>refcount := refcount d + 1\<rparr>"] path
            by auto
          then have "?open = Some (0, Some h', s')"
            using cf Inr m1 ce ev m2 by (simp add: unfold)
          with st show ?thesis by (intro disjI1 exI [of _ h'] exI [of _ s'] exI [of _ fh] exI [of _ ev] exI [of _ p]) simp
        qed
      qed
    qed
  qed
qed

interpretation win32: device_driver wh_dev "\<lambda>_. True" "open_win32_device os mem" "close_win32_device os"
proof unfold_locales
  fix s dev d r h s' assume u: "usable s dev d" and "open_win32_device os mem dev s = Some (r, Some h, s')"
  with open_win32_device_run [OF u, of os mem]
  show "r = 0 \<and> wh_dev h = dev \<and> True \<and> lib_frame s s' \<and> devs s' = (devs s)(dev \<mapsto> d\<lparr>refcount := refcount d + 1\<rparr>)"
    by auto
next
  fix s dev d r s' assume u: "usable s dev d" and "open_win32_device os mem dev s = Some (r, None, s')"
  with open_win32_device_run [OF u, of os mem] show "r < 0 \<and> lib_frame s s' \<and> devs s' = devs s" by auto
next
  fix h s
  obtain w where w: "close_win32_device os h s = hs_device_unref (wh_dev h) (s\<lparr>ext := w\<rparr>)"
    using close_win32_unref [of os h s] by blast
  show "\<exists>s1. close_win32_device os h s = hs_device_unref (wh_dev h) s1 \<and> lib_frame s s1 \<and> devs s1 = devs s"
    unfolding w by (rule unref_after_world)
qed

section \<open>The request of an open handle\<close>

text \<open>
  An open handle of a device with a path. \<open>unread\<close> is what a completed request has delivered and no
  read has returned yet.
\<close>

definition open_handle :: "win32_handle \<Rightarrow> 'w hs_state \<Rightarrow> bool" where
  "open_handle h s \<longleftrightarrow> wh_ov h \<noteq> None \<and> length (wh_buf h) = READ_BUFFER_SIZE \<and>
     (0 < wh_len h \<longrightarrow> wh_ptr h + nat (wh_len h) \<le> length (wh_buf h)) \<and>
     (\<exists>d. devs s (wh_dev h) = Some d \<and> d_path d \<noteq> None) \<and> log_inv (logs s) \<and> mask_count (logs s) < 32"

definition unread :: "win32_handle \<Rightarrow> uint8 list" where
  "unread h = take (nat (wh_len h)) (drop (wh_ptr h) (wh_buf h))"

text \<open>What the system answers when the request is asked for within \<open>timeout\<close>.\<close>

definition async_result :: "'w win32_os \<Rightarrow> win32_handle \<Rightarrow> int \<Rightarrow> 'w \<Rightarrow> werror + uint8 list" where
  "async_result os h timeout w =
     fst (w_overlapped_result os (wh_handle h) (the (wh_ov h)) (timeout < 0)
            (if timeout > 0 then w_wait_single os (the (wh_ov h)) (of_int timeout) w else w))"

lemma length_unread: "open_handle h s \<Longrightarrow> length (unread h) = nat (wh_len h)"
  by (auto simp: open_handle_def unread_def)

lemma hs_error_masked: "log_inv L \<Longrightarrow> err_val e \<in> set (masked_codes L) \<Longrightarrow> hs_error e m L = (err_val e, L)"
  by (simp add: hs_error_def mask_scan_masked)

lemma restart_masked_run:
  assumes o: "open_handle (h\<lparr>wh_len := 0\<rparr>) s"
  shows "\<exists>h' s' r p. restart_masked os h s = Some (h', s') \<and> h' = h\<lparr>wh_pending := p, wh_len := r\<rparr> \<and>
     (r = 0 \<or> r = err_val HS_ERROR_IO) \<and> lib_frame s s' \<and> devs s' = devs s \<and>
     logs s' = (logs s)\<lparr>mask := (mask (logs s))[mask_count (logs s) := err_val HS_ERROR_IO]\<rparr>"
proof -
  let ?L = "logs s" and ?c = "mask_count (logs s)"
  let ?L1 = "?L\<lparr>mask := (mask ?L)[?c := err_val HS_ERROR_IO], mask_count := ?c + 1\<rparr>"
  have inv: "log_inv ?L" "?c < 32" using o by (simp_all add: open_handle_def)
  have m: "hs_error_mask HS_ERROR_IO ?L = Some ?L1" by (rule hs_error_mask_Some [OF inv])
  have inv1: "log_inv ?L1" "err_val HS_ERROR_IO \<in> set (masked_codes ?L1)"
    using hs_error_mask_inv [OF m inv(1)] masked_codes_mask [OF inv(1) m] by simp_all
  obtain ev d path where ev: "wh_ov h = Some ev" and d: "devs s (wh_dev h) = Some d" "d_path d = Some path"
    using o by (auto simp: open_handle_def)
  have "\<exists>r h' s'. hs_win32_start_async_read os h (s\<lparr>logs := ?L1\<rparr>) = Some (r, h', s') \<and>
     lib_frame (s\<lparr>logs := ?L1\<rparr>) s' \<and> devs s' = devs (s\<lparr>logs := ?L1\<rparr>) \<and>
     (r = 0 \<and> logs s' = logs (s\<lparr>logs := ?L1\<rparr>) \<or>
      r = err_val HS_ERROR_IO \<and> (\<exists>m. logs s' = snd (hs_error HS_ERROR_IO m (logs (s\<lparr>logs := ?L1\<rparr>))))) \<and>
     (\<exists>p. h' = h\<lparr>wh_pending := p\<rparr>)"
    by (rule start_async_read_run [OF ev, of _ d path]) (use d in simp_all)
  then obtain r s' p where st: "hs_win32_start_async_read os h (s\<lparr>logs := ?L1\<rparr>) = Some (r, h\<lparr>wh_pending := p\<rparr>, s')"
      "lib_frame s s'" "devs s' = devs s" "r = 0 \<or> r = err_val HS_ERROR_IO" "logs s' = ?L1"
    using hs_error_masked [OF inv1] by (auto simp del: err_val.simps)
  have "?L1\<lparr>mask_count := ?c\<rparr> = ?L\<lparr>mask := (mask ?L)[?c := err_val HS_ERROR_IO]\<rparr>" by simp
  with m st show ?thesis
    by (intro exI [of _ "h\<lparr>wh_pending := p, wh_len := r\<rparr>"]
        exI [of _ "s'\<lparr>logs := ?L\<lparr>mask := (mask ?L)[?c := err_val HS_ERROR_IO]\<rparr>\<rparr>"] exI [of _ r] exI [of _ p])
      (simp add: restart_masked_def hs_error_unmask_def)
qed

text \<open>The system never stores more than the buffer holds.\<close>

definition reads_fit :: "'w win32_os \<Rightarrow> bool" where
  "reads_fit os \<longleftrightarrow> (\<forall>fh ev b w. case fst (w_overlapped_result os fh ev b w) of
     Inr ds \<Rightarrow> length ds \<le> READ_BUFFER_SIZE | Inl e \<Rightarrow> True)"

lemma reads_fitD: "reads_fit os \<Longrightarrow> fst (w_overlapped_result os fh ev b w) = Inr ds \<Longrightarrow> length ds \<le> READ_BUFFER_SIZE"
  unfolding reads_fit_def by (metis sum.case(2))

lemma finalize_async_read_run:
  assumes o: "open_handle h s" and fits: "reads_fit os"
  shows "\<exists>r h' s'. hs_win32_finalize_async_read os h timeout s = Some (r, h', s') \<and> lib_frame s s' \<and> devs s' = devs s \<and>
     wh_dev h' = wh_dev h \<and> wh_ov h' = wh_ov h \<and>
     (case async_result os h timeout (ext s) of
        Inl e \<Rightarrow> if e = ERROR_IO_INCOMPLETE then r = 0 \<and> h' = h \<and> logs s' = logs s
                 else r = err_val HS_ERROR_IO \<and> h' = h\<lparr>wh_pending := 0\<rparr> \<and>
                      (\<exists>m. logs s' = snd (hs_error HS_ERROR_IO m (logs s)))
      | Inr ds \<Rightarrow> r = int (length ds) \<and> logs s' = logs s \<and> length ds \<le> READ_BUFFER_SIZE \<and>
                  h' = h\<lparr>wh_buf := ds @ drop (length ds) (wh_buf h), wh_pending := 0\<rparr>)"
proof -
  obtain ev d path where ev: "wh_ov h = Some ev" and d: "devs s (wh_dev h) = Some d" "d_path d = Some path"
    using o by (auto simp: open_handle_def)
  let ?w = "if timeout > 0 then w_wait_single os ev (of_int timeout) (ext s) else ext s"
  obtain res w where w: "w_overlapped_result os (wh_handle h) ev (timeout < 0) ?w = (res, w)"
    by (cases "w_overlapped_result os (wh_handle h) ev (timeout < 0) ?w")
  have res: "async_result os h timeout (ext s) = res" unfolding async_result_def ev option.sel w by simp
  obtain s' where io: "io_error ''reading from'' (wh_dev h) (s\<lparr>ext := w\<rparr>) = Some (err_val HS_ERROR_IO, s')"
      "lib_frame s s'" "devs s' = devs s" "\<exists>m. logs s' = snd (hs_error HS_ERROR_IO m (logs s))"
    using io_error_run [of "s\<lparr>ext := w\<rparr>" "wh_dev h" d path "''reading from''"] d by auto
  have run: "hs_win32_finalize_async_read os h timeout s =
     (case res of
       Inl e \<Rightarrow> if e = ERROR_IO_INCOMPLETE then Some (0, h, s\<lparr>ext := w\<rparr>)
                else do { (r, s) \<leftarrow> io_error ''reading from'' (wh_dev h) (s\<lparr>ext := w\<rparr>); Some (r, h\<lparr>wh_pending := 0\<rparr>, s) }
     | Inr ds \<Rightarrow> do { buf \<leftarrow> buf_write 0 ds (wh_buf h);
                     Some (int (length ds), h\<lparr>wh_buf := buf, wh_pending := 0\<rparr>, s\<lparr>ext := w\<rparr>) })"
    using w by (auto simp: hs_win32_finalize_async_read_def ev sys_def sys_do_def)
  show ?thesis
  proof (cases res)
    case (Inl e)
    with run res io show ?thesis by (cases "e = ERROR_IO_INCOMPLETE") auto
  next
    case (Inr ds)
    have len: "length ds \<le> READ_BUFFER_SIZE" using reads_fitD [OF fits, of "wh_handle h" ev "timeout < 0" ?w ds] w Inr by simp
    then have "buf_write 0 ds (wh_buf h) = Some (ds @ drop (length ds) (wh_buf h))"
      using o by (simp add: buf_write_def open_handle_def)
    with run res len Inr show ?thesis by simp
  qed
qed

end
