(* ===== verification/HidWin32.thy ===== *)
theory HidWin32
  imports DeviceWin32 HidLinux
begin

text \<open>
  Model of \<open>src/hid_win32.c\<close>. A buffer argument is the list of its bytes; the result of a read is the
  returned count with the new contents of the buffer, the handle and the state.
\<close>

definition hs_hid_parse_descriptor_win32 ::
  "'w win32_os \<Rightarrow> win32_handle \<Rightarrow> hs_hid_descriptor \<Rightarrow> 'w hs_state \<Rightarrow> (int \<times> hs_hid_descriptor \<times> 'w hs_state) option" where
  "hs_hid_parse_descriptor_win32 os h rdesc s = do {
     d \<leftarrow> hid_device (wh_dev h) s;
     let (ret, s) = sys (w_get_preparsed os (wh_handle h)) s;
     case ret of
       None \<Rightarrow> (let (r, s) = fail_with HS_ERROR_SYSTEM (Some ''HidD_GetPreparsedData() failed'') s in Some (r, rdesc, s))
     | Some pp \<Rightarrow>
         (let (ret, s) = sys (w_get_caps os pp) s; s = sys_do (w_free_preparsed os pp) s in
          case ret of
            None \<Rightarrow> (let (r, s) = fail_with HS_ERROR_INVALID (Some ''Invalid HID descriptor'') s in Some (r, rdesc, s))
          | Some (page, use) \<Rightarrow> Some (0, rdesc\<lparr>hd_usage_page := page, hd_usage := use\<rparr>, s))
   }"

definition hs_hid_read_win32 ::
  "'w win32_os \<Rightarrow> win32_handle \<Rightarrow> uint8 list \<Rightarrow> nat \<Rightarrow> int \<Rightarrow> 'w hs_state
     \<Rightarrow> (int \<times> uint8 list \<times> win32_handle \<times> 'w hs_state) option" where
  "hs_hid_read_win32 os h buf n timeout s = do {
     d \<leftarrow> hid_device (wh_dev h) s;
     c_assert (n \<noteq> 0);
     (h, s) \<leftarrow> retry_failed os h s;
     if wh_len h < 0 then Some (wh_len h, buf, h, s)
     else do {
       (r, h, s) \<leftarrow> hs_win32_finalize_async_read os h timeout s;
       let h = h\<lparr>wh_len := r\<rparr>;
       if wh_len h \<le> 0 then Some (wh_len h, buf, h, s)
       else do {
         let n = (if n > nat (wh_len h) then nat (wh_len h) else n);
         buf \<leftarrow> buf_write 0 (take n (wh_buf h)) buf;
         (h, s) \<leftarrow> restart_masked os h s;
         Some (int n, buf, h, s)
       }
     }
   }"

definition hs_hid_write_win32 ::
  "'w win32_os \<Rightarrow> win32_handle \<Rightarrow> uint8 list \<Rightarrow> nat \<Rightarrow> 'w hs_state \<Rightarrow> (int \<times> 'w hs_state) option" where
  "hs_hid_write_win32 os h buf n s = do {
     d \<leftarrow> hid_device (wh_dev h) s;
     if n < 2 then Some (0, s)
     else do {
       c_assert (n \<le> length buf);
       overlapped_write os h (take n buf) s
     }
   }"

text \<open>The report is stored in the buffer by the system; its length does not count the report number.\<close>

definition hs_hid_get_feature_report_win32 ::
  "'w win32_os \<Rightarrow> win32_handle \<Rightarrow> uint8 \<Rightarrow> uint8 list \<Rightarrow> nat \<Rightarrow> 'w hs_state \<Rightarrow> (int \<times> uint8 list \<times> 'w hs_state) option" where
  "hs_hid_get_feature_report_win32 os h rid buf n s = do {
     d \<leftarrow> hid_device (wh_dev h) s;
     c_assert (n \<noteq> 0);
     buf \<leftarrow> buf_write 0 [rid] buf;
     let (e, s) = sys (w_get_feature os (wh_handle h) (take n buf)) s;
     if e \<noteq> None \<and> e \<noteq> Some ERROR_IO_PENDING then do {
       (r, s) \<leftarrow> io_error ''writing to'' (wh_dev h) (sys_do (w_cancel_io os (wh_handle h)) s);
       Some (r, buf, s)
     }
     else
       (case sys (w_feature_result os (wh_handle h)) s of
          (Inl e, s) \<Rightarrow> do { (r, s) \<leftarrow> io_error ''writing to'' (wh_dev h) s; Some (r, buf, s) }
        | (Inr ds, s) \<Rightarrow> do {
            buf \<leftarrow> buf_write 1 ds buf;
            Some (int (length ds) + 1, buf, s)
          })
   }"

definition hs_hid_send_feature_report_win32 ::
  "'w win32_os \<Rightarrow> win32_handle \<Rightarrow> uint8 list \<Rightarrow> nat \<Rightarrow> 'w hs_state \<Rightarrow> (int \<times> 'w hs_state) option" where
  "hs_hid_send_feature_report_win32 os h buf n s = do {
     d \<leftarrow> hid_device (wh_dev h) s;
     if n < 2 then Some (0, s)
     else do {
       c_assert (n \<le> length buf);
       let (ok, s) = sys (w_set_feature os (wh_handle h) (take n buf)) s;
       if ok then Some (int n, s) else io_error ''writing to'' (wh_dev h) s
     }
   }"

end
