(* ===== verification/SerialWin32.thy ===== *)
theory SerialWin32
  imports DeviceWin32 SerialPosix
begin

text \<open>
  Model of \<open>src/serial_win32.c\<close>. Serial input is a stream: what a completed request delivered and the
  caller has not read yet stays in the buffer of the handle.
\<close>

unbundle bit_operations_syntax

definition serial_device :: "addr \<Rightarrow> 'w hs_state \<Rightarrow> hs_device option" where
  "serial_device dev s = do {
     d \<leftarrow> devs s dev;
     c_assert (d_type d = HS_DEVICE_TYPE_SERIAL);
     Some d
   }"

section \<open>Settings\<close>

text \<open>The switches of \<open>hs_serial_set_attributes\<close>; a value without a case fails the assertion.\<close>

definition dcb_baud :: "uint32 \<Rightarrow> dcb \<Rightarrow> dcb option" where
  "dcb_baud rate t =
     (if rate \<in> {110, 134, 150, 200, 300, 600, 1200, 1800, 2400, 4800, 9600, 19200, 38400, 57600, 115200}
      then Some (t\<lparr>BaudRate := rate\<rparr>) else None)"

definition dcb_csize :: "uint32 \<Rightarrow> dcb \<Rightarrow> dcb" where
  "dcb_csize flags t =
     (let k = flags AND HS_SERIAL_MASK_CSIZE in
      t\<lparr>ByteSize := (if k = HS_SERIAL_CSIZE_5BITS then 5 else if k = HS_SERIAL_CSIZE_6BITS then 6
                     else if k = HS_SERIAL_CSIZE_7BITS then 7 else 8)\<rparr>)"

definition dcb_parity :: "uint32 \<Rightarrow> dcb \<Rightarrow> dcb option" where
  "dcb_parity flags t =
     (let k = flags AND HS_SERIAL_MASK_PARITY in
      if k = 0 then Some (t\<lparr>fParity := False, Parity := NOPARITY\<rparr>)
      else if k = HS_SERIAL_PARITY_ODD then Some (t\<lparr>fParity := True, Parity := ODDPARITY\<rparr>)
      else if k = HS_SERIAL_PARITY_EVEN then Some (t\<lparr>fParity := True, Parity := EVENPARITY\<rparr>)
      else None)"

definition dcb_stop :: "uint32 \<Rightarrow> dcb \<Rightarrow> dcb" where
  "dcb_stop flags t =
     (let t = t\<lparr>StopBits := 0\<rparr> in
      if flags AND HS_SERIAL_STOP_2BITS \<noteq> 0 then t\<lparr>StopBits := 2\<rparr> else t)"

definition dcb_flow :: "uint32 \<Rightarrow> dcb \<Rightarrow> dcb option" where
  "dcb_flow flags t =
     (let t = t\<lparr>fOutxCtsFlow := False, fOutxDsrFlow := False, fRtsControl := CONTROL_DISABLE,
                fDtrControl := CONTROL_DISABLE, fOutX := False, fInX := False\<rparr>;
          k = flags AND HS_SERIAL_MASK_FLOW in
      if k = 0 then Some t
      else if k = HS_SERIAL_FLOW_XONXOFF then Some (t\<lparr>fOutX := True, fInX := True\<rparr>)
      else if k = HS_SERIAL_FLOW_RTSCTS then Some (t\<lparr>fOutxCtsFlow := True, fRtsControl := CONTROL_ENABLE\<rparr>)
      else None)"

definition dcb_settings :: "uint32 \<Rightarrow> uint32 \<Rightarrow> dcb \<Rightarrow> dcb option" where
  "dcb_settings rate flags t = do {
     t \<leftarrow> dcb_baud rate t;
     t \<leftarrow> dcb_parity flags (dcb_csize flags t);
     dcb_flow flags (dcb_stop flags t)
   }"

definition hs_serial_set_attributes_win32 ::
  "'w win32_os \<Rightarrow> win32_handle \<Rightarrow> uint32 \<Rightarrow> uint32 \<Rightarrow> 'w hs_state \<Rightarrow> (int \<times> 'w hs_state) option" where
  "hs_serial_set_attributes_win32 os h rate flags s = do {
     d \<leftarrow> serial_device (wh_dev h) s;
     case sys (w_get_comm_state os (wh_handle h)) s of
       (Inl e, s) \<Rightarrow> Some (fail_with HS_ERROR_SYSTEM (Some (''GetCommState() failed: '' @ hs_win32_strerror os e)) s)
     | (Inr t, s) \<Rightarrow> do {
         t \<leftarrow> dcb_settings rate flags t;
         case sys (w_set_comm_state os (wh_handle h) t) s of
           (Inl e, s) \<Rightarrow> Some (fail_with HS_ERROR_SYSTEM (Some (''SetCommState() failed: '' @ hs_win32_strerror os e)) s)
         | (Inr _, s) \<Rightarrow> Some (0, s)
       }
   }"

section \<open>Transfers\<close>

text \<open>The copy out of the buffer of the handle, and the next request when it is used up.\<close>

definition serial_take ::
  "'w win32_os \<Rightarrow> win32_handle \<Rightarrow> uint8 list \<Rightarrow> nat \<Rightarrow> 'w hs_state
     \<Rightarrow> (int \<times> uint8 list \<times> win32_handle \<times> 'w hs_state) option" where
  "serial_take os h buf n s = do {
     let n = (if n > nat (wh_len h) then nat (wh_len h) else n);
     c_assert (wh_ptr h + n \<le> length (wh_buf h));
     buf \<leftarrow> buf_write 0 (take n (drop (wh_ptr h) (wh_buf h))) buf;
     let h = h\<lparr>wh_ptr := wh_ptr h + n, wh_len := wh_len h - int n\<rparr>;
     (h, s) \<leftarrow> (if wh_len h = 0 then restart_masked os h s else Some (h, s));
     Some (int n, buf, h, s)
   }"

definition hs_serial_read_win32 ::
  "'w win32_os \<Rightarrow> win32_handle \<Rightarrow> uint8 list \<Rightarrow> nat \<Rightarrow> int \<Rightarrow> 'w hs_state
     \<Rightarrow> (int \<times> uint8 list \<times> win32_handle \<times> 'w hs_state) option" where
  "hs_serial_read_win32 os h buf n timeout s = do {
     d \<leftarrow> serial_device (wh_dev h) s;
     c_assert (n \<noteq> 0);
     (h, s) \<leftarrow> retry_failed os h s;
     if wh_len h < 0 then Some (wh_len h, buf, h, s)
     else if wh_len h = 0 then do {
       (r, h, s) \<leftarrow> hs_win32_finalize_async_read os h timeout s;
       let h = h\<lparr>wh_len := r\<rparr>;
       if wh_len h \<le> 0 then Some (wh_len h, buf, h, s) else serial_take os (h\<lparr>wh_ptr := 0\<rparr>) buf n s
     }
     else serial_take os h buf n s
   }"

definition hs_serial_write_win32 ::
  "'w win32_os \<Rightarrow> win32_handle \<Rightarrow> uint8 list \<Rightarrow> nat \<Rightarrow> 'w hs_state \<Rightarrow> (int \<times> 'w hs_state) option" where
  "hs_serial_write_win32 os h buf n s = do {
     d \<leftarrow> serial_device (wh_dev h) s;
     if n = 0 then Some (0, s)
     else do {
       c_assert (n \<le> length buf);
       overlapped_write os h (take n buf) s
     }
   }"

end
