(* ===== verification/Win32Properties.thy ===== *)
theory Win32Properties
  imports HidWin32 SerialWin32
begin

text \<open>
  The properties of the Windows drivers: handles, the HID and serial input that goes through the
  asynchronous request of the handle, and the settings of a serial port, with a concrete Windows on
  which they are applied.
\<close>

unbundle bit_operations_syntax

section \<open>Reading through the request\<close>

text \<open>What a read can return: what is left in the buffer, or what a completed request delivers.\<close>

definition available :: "'w win32_os \<Rightarrow> win32_handle \<Rightarrow> int \<Rightarrow> 'w \<Rightarrow> uint8 list" where
  "available os h timeout w =
     (if 0 < wh_len h then unread h
      else case async_result os h timeout w of Inr ds \<Rightarrow> ds | Inl e \<Rightarrow> [])"

lemma unread_Nil: "wh_len h \<le> 0 \<Longrightarrow> unread h = []"
  by (simp add: unread_def)

lemma open_handle_restart:
  assumes "open_handle h s" and "wh_len h' \<le> 0" and "wh_ov h' = wh_ov h" and "length (wh_buf h') = length (wh_buf h)"
    and "wh_dev h' = wh_dev h" and "devs s' = devs s" and "log_inv (logs s')" and "mask_count (logs s') = mask_count (logs s)"
  shows "open_handle h' s'"
  using assms by (auto simp: open_handle_def)

lemma log_inv_mask: "log_inv L \<Longrightarrow> log_inv (L\<lparr>mask := (mask L)[i := x]\<rparr>)"
  by (simp add: log_inv_def)

lemma take_min_length: "take (min n (length a)) a = take n a"
  by (simp add: min_def)

lemma serial_take_run:
  assumes o: "open_handle h s" and len: "0 < wh_len h" and n: "n \<noteq> 0" "n \<le> length buf"
  defines "k \<equiv> min n (length (unread h))"
  shows "\<exists>h' s'. serial_take os h buf n s = Some (int k, take n (unread h) @ drop k buf, h', s') \<and> open_handle h' s' \<and>
     wh_dev h' = wh_dev h \<and> unread h' = drop n (unread h) \<and> lib_frame s s' \<and> devs s' = devs s \<and>
     out (logs s') = out (logs s) \<and> (0 < wh_len h' \<or> wh_len h' \<le> 0 \<and> unread h' = [])"
proof -
  have lu: "length (unread h) = nat (wh_len h)" by (rule length_unread [OF o])
  have fits: "wh_ptr h + nat (wh_len h) \<le> length (wh_buf h)" using o len by (simp add: open_handle_def)
  have k: "k = (if n > nat (wh_len h) then nat (wh_len h) else n)" "k \<le> nat (wh_len h)" "k \<le> length buf"
    using n lu by (auto simp: k_def)
  have tk: "take k (drop (wh_ptr h) (wh_buf h)) = take n (unread h)" "length (take n (unread h)) = k"
    using lu by (auto simp: unread_def k_def min_def)
  have bw: "buf_write 0 (take k (drop (wh_ptr h) (wh_buf h))) buf = Some (take n (unread h) @ drop k buf)"
    using tk k(3) by (simp add: buf_write_def)
  let ?h = "h\<lparr>wh_ptr := wh_ptr h + k, wh_len := wh_len h - int k\<rparr>"
  have "nat (wh_len h - int k) = nat (wh_len h) - k" by linarith
  then have "unread ?h = drop k (unread h)" by (simp add: unread_def drop_take add.commute)
  then have left: "unread ?h = drop n (unread h)" by (simp add: k_def min_def)
  have o': "open_handle ?h s" using o k(2) fits by (auto simp: open_handle_def)
  have step: "serial_take os h buf n s =
     do { (h', s') \<leftarrow> (if wh_len ?h = 0 then restart_masked os ?h s else Some (?h, s));
          Some (int k, take n (unread h) @ drop k buf, h', s') }"
    using bw fits k(2) by (simp add: serial_take_def k(1) [symmetric])
  show ?thesis
  proof (cases "wh_len ?h = 0")
    case False
    then have "0 < wh_len ?h" using k(2) len by simp
    with step o' left False show ?thesis
      by (intro exI [of _ ?h] exI [of _ s]) simp
  next
    case True
    have "open_handle (?h\<lparr>wh_len := 0\<rparr>) s" using o' by (simp add: open_handle_def)
    from restart_masked_run [OF this, of os]
    obtain h' s' r p where rs: "restart_masked os ?h s = Some (h', s')" "h' = ?h\<lparr>wh_pending := p, wh_len := r\<rparr>"
        "r = 0 \<or> r = err_val HS_ERROR_IO" "lib_frame s s'" "devs s' = devs s"
        "logs s' = (logs s)\<lparr>mask := (mask (logs s))[mask_count (logs s) := err_val HS_ERROR_IO]\<rparr>"
      by blast
    have r: "wh_len h' \<le> 0" using rs(2,3) by auto
    have "log_inv (logs s)" using o by (simp add: open_handle_def)
    then have "log_inv (logs s')" unfolding rs(6) by (rule log_inv_mask)
    then have "open_handle h' s'" by (intro open_handle_restart [OF o' r]) (simp_all add: rs(2,5,6))
    moreover have "drop n (unread h) = []" using left True unread_Nil [of ?h] by simp
    ultimately show ?thesis
      using step True rs unread_Nil [OF r] r by (intro exI [of _ h'] exI [of _ s']) simp
  qed
qed

lemma open_handle_fail:
  assumes "open_handle h s" and "wh_len h' \<le> 0" and "wh_ov h' = wh_ov h" and "length (wh_buf h') = length (wh_buf h)"
    and "wh_dev h' = wh_dev h" and "devs s' = devs s" and "logs s' = logs s \<or> (\<exists>m. logs s' = snd (hs_error HS_ERROR_IO m (logs s)))"
  shows "open_handle h' s'"
proof -
  have "log_inv (logs s)" using assms(1) by (simp add: open_handle_def)
  then have "log_inv (logs s') \<and> mask_count (logs s') = mask_count (logs s)"
    using assms(7) by (auto simp: hs_error_inv)
  with assms show ?thesis by (intro open_handle_restart [OF assms(1-6)]) simp_all
qed

text \<open>
  The request of a handle without unread bytes: nothing, an error, or the bytes it delivers, which
  are then in front of the buffer.
\<close>

lemma request_run:
  fixes timeout :: int
  assumes o: "open_handle h s" and len: "wh_len h = 0" and fit: "reads_fit os"
  defines "a \<equiv> available os h timeout (ext s)"
  shows "\<exists>r h1 s1. hs_win32_finalize_async_read os h timeout s = Some (r, h1, s1) \<and> lib_frame s s1 \<and> devs s1 = devs s \<and>
     wh_dev h1 = wh_dev h \<and>
     (a = [] \<and> (r = 0 \<or> r = err_val HS_ERROR_IO) \<and> open_handle (h1\<lparr>wh_len := r\<rparr>) s1 \<or>
      a \<noteq> [] \<and> r = int (length a) \<and> logs s1 = logs s \<and> open_handle (h1\<lparr>wh_len := r, wh_ptr := 0\<rparr>) s1 \<and>
        unread (h1\<lparr>wh_len := r, wh_ptr := 0\<rparr>) = a \<and> take (length a) (wh_buf h1) = a)"
proof -
  obtain r h1 s1 where f: "hs_win32_finalize_async_read os h timeout s = Some (r, h1, s1)" "lib_frame s s1" "devs s1 = devs s"
      "wh_dev h1 = wh_dev h" "wh_ov h1 = wh_ov h"
      "case async_result os h timeout (ext s) of
        Inl e \<Rightarrow> if e = ERROR_IO_INCOMPLETE then r = 0 \<and> h1 = h \<and> logs s1 = logs s
                 else r = err_val HS_ERROR_IO \<and> h1 = h\<lparr>wh_pending := 0\<rparr> \<and>
                      (\<exists>m. logs s1 = snd (hs_error HS_ERROR_IO m (logs s)))
      | Inr ds \<Rightarrow> r = int (length ds) \<and> logs s1 = logs s \<and> length ds \<le> READ_BUFFER_SIZE \<and>
                  h1 = h\<lparr>wh_buf := ds @ drop (length ds) (wh_buf h), wh_pending := 0\<rparr>"
    using finalize_async_read_run [OF o fit] by blast
  have buf: "length (wh_buf h) = READ_BUFFER_SIZE" using o by (simp add: open_handle_def)
  show ?thesis
  proof (cases "async_result os h timeout (ext s)")
    case (Inl e)
    then have "a = []" "r = 0 \<or> r = err_val HS_ERROR_IO" "length (wh_buf h1) = length (wh_buf h)"
        "logs s1 = logs s \<or> (\<exists>m. logs s1 = snd (hs_error HS_ERROR_IO m (logs s)))"
      using f(6) len by (auto simp: a_def available_def split: if_splits)
    with f show ?thesis by (auto intro!: open_handle_fail [OF o])
  next
    case (Inr ds)
    then have a: "a = ds" "r = int (length ds)" "logs s1 = logs s" "length ds \<le> READ_BUFFER_SIZE"
        "h1 = h\<lparr>wh_buf := ds @ drop (length ds) (wh_buf h), wh_pending := 0\<rparr>"
      using f(6) len by (simp_all add: a_def available_def)
    show ?thesis
    proof (cases "ds = []")
      case True
      with a f show ?thesis by (auto intro!: open_handle_fail [OF o])
    next
      case False
      have "open_handle (h1\<lparr>wh_len := r, wh_ptr := 0\<rparr>) s1" using o a f(3) buf by (auto simp: open_handle_def)
      moreover have "unread (h1\<lparr>wh_len := r, wh_ptr := 0\<rparr>) = a" "take (length a) (wh_buf h1) = a"
        using a by (simp_all add: unread_def)
      ultimately show ?thesis using a f False by auto
    qed
  qed
qed

lemma serial_read_run:
  fixes timeout :: int
  assumes o: "open_handle h s" and d: "serial_device (wh_dev h) s = Some d" and len: "0 \<le> wh_len h"
    and n: "n \<noteq> 0" "n \<le> length buf" and fit: "reads_fit os"
  defines "a \<equiv> available os h timeout (ext s)"
  shows "\<exists>r buf' h' s'. hs_serial_read_win32 os h buf n timeout s = Some (r, buf', h', s') \<and> open_handle h' s' \<and>
     wh_dev h' = wh_dev h \<and> lib_frame s s' \<and> devs s' = devs s \<and>
     (if a = [] then (r = 0 \<or> r = err_val HS_ERROR_IO) \<and> buf' = buf \<and> unread h' = []
      else r = int (min n (length a)) \<and> buf' = take n a @ drop (min n (length a)) buf \<and> unread h' = drop n a \<and>
           out (logs s') = out (logs s) \<and> (unread h' \<noteq> [] \<longrightarrow> 0 < wh_len h'))"
proof (cases "wh_len h = 0")
  case False
  with len have pos: "0 < wh_len h" by simp
  then have a: "a = unread h" by (simp add: a_def available_def)
  with length_unread [OF o] pos have "a \<noteq> []" by auto
  moreover have "hs_serial_read_win32 os h buf n timeout s = serial_take os h buf n s"
    using d n(1) pos by (simp add: hs_serial_read_win32_def retry_failed_def)
  ultimately show ?thesis using serial_take_run [OF o pos n, of os] a by auto
next
  case True
  obtain r h1 s1 where f: "hs_win32_finalize_async_read os h timeout s = Some (r, h1, s1)" "lib_frame s s1" "devs s1 = devs s"
     "wh_dev h1 = wh_dev h"
     "a = [] \<and> (r = 0 \<or> r = err_val HS_ERROR_IO) \<and> open_handle (h1\<lparr>wh_len := r\<rparr>) s1 \<or>
      a \<noteq> [] \<and> r = int (length a) \<and> logs s1 = logs s \<and> open_handle (h1\<lparr>wh_len := r, wh_ptr := 0\<rparr>) s1 \<and>
        unread (h1\<lparr>wh_len := r, wh_ptr := 0\<rparr>) = a \<and> take (length a) (wh_buf h1) = a"
    using request_run [OF o True fit, of timeout] unfolding a_def by blast
  have run: "hs_serial_read_win32 os h buf n timeout s =
      (if r \<le> 0 then Some (r, buf, h1\<lparr>wh_len := r\<rparr>, s1) else serial_take os (h1\<lparr>wh_len := r, wh_ptr := 0\<rparr>) buf n s1)"
    using d n(1) True f(1) by (simp add: hs_serial_read_win32_def retry_failed_def)
  show ?thesis
  proof (cases "a = []")
    case True
    with f(5) have r: "r = 0 \<or> r = err_val HS_ERROR_IO" "open_handle (h1\<lparr>wh_len := r\<rparr>) s1" by auto
    then have "r \<le> 0" by auto
    with True r f run unread_Nil [of "h1\<lparr>wh_len := r\<rparr>"] show ?thesis by auto
  next
    case False
    with f(5) have r: "0 < r" "logs s1 = logs s" "open_handle (h1\<lparr>wh_len := r, wh_ptr := 0\<rparr>) s1"
        "unread (h1\<lparr>wh_len := r, wh_ptr := 0\<rparr>) = a" by auto
    let ?h2 = "h1\<lparr>wh_len := r, wh_ptr := 0\<rparr>"
    obtain h' s' where "serial_take os ?h2 buf n s1 = Some (int (min n (length a)), take n a @ drop (min n (length a)) buf, h', s')"
       "open_handle h' s'" "wh_dev h' = wh_dev ?h2" "unread h' = drop n a" "lib_frame s1 s'" "devs s' = devs s1"
       "out (logs s') = out (logs s1)" "0 < wh_len h' \<or> wh_len h' \<le> 0 \<and> unread h' = []"
      using serial_take_run [OF r(3) _ n, of os] r(1,4) by auto
    with False r run f show ?thesis by (auto intro: lib_frame_trans)
  qed
qed

lemma hid_read_run:
  fixes timeout :: int
  assumes o: "open_handle h s" and d: "hid_device (wh_dev h) s = Some d" and len: "wh_len h = 0"
    and n: "n \<noteq> 0" "n \<le> length buf" and fit: "reads_fit os"
  defines "a \<equiv> available os h timeout (ext s)"
  shows "\<exists>r buf' h' s'. hs_hid_read_win32 os h buf n timeout s = Some (r, buf', h', s') \<and> open_handle h' s' \<and>
     wh_dev h' = wh_dev h \<and> lib_frame s s' \<and> devs s' = devs s \<and> wh_len h' \<le> 0 \<and>
     (if a = [] then (r = 0 \<or> r = err_val HS_ERROR_IO) \<and> buf' = buf \<and> wh_len h' = r
      else r = int (min n (length a)) \<and> buf' = take n a @ drop (min n (length a)) buf \<and> out (logs s') = out (logs s))"
proof -
  obtain r h1 s1 where f: "hs_win32_finalize_async_read os h timeout s = Some (r, h1, s1)" "lib_frame s s1" "devs s1 = devs s"
     "wh_dev h1 = wh_dev h"
     "a = [] \<and> (r = 0 \<or> r = err_val HS_ERROR_IO) \<and> open_handle (h1\<lparr>wh_len := r\<rparr>) s1 \<or>
      a \<noteq> [] \<and> r = int (length a) \<and> logs s1 = logs s \<and> open_handle (h1\<lparr>wh_len := r, wh_ptr := 0\<rparr>) s1 \<and>
        unread (h1\<lparr>wh_len := r, wh_ptr := 0\<rparr>) = a \<and> take (length a) (wh_buf h1) = a"
    using request_run [OF o len fit, of timeout] unfolding a_def by blast
  let ?k = "if n > nat r then nat r else n"
  have run: "hs_hid_read_win32 os h buf n timeout s =
      (if r \<le> 0 then Some (r, buf, h1\<lparr>wh_len := r\<rparr>, s1)
       else do {
         buf' \<leftarrow> buf_write 0 (take ?k (wh_buf h1)) buf;
         (h', s') \<leftarrow> restart_masked os (h1\<lparr>wh_len := r\<rparr>) s1;
         Some (int ?k, buf', h', s')
       })"
    using d n(1) len f(1) by (simp add: hs_hid_read_win32_def retry_failed_def)
  show ?thesis
  proof (cases "a = []")
    case True
    with f(5) have r: "r = 0 \<or> r = err_val HS_ERROR_IO" "open_handle (h1\<lparr>wh_len := r\<rparr>) s1" by auto
    then have "r \<le> 0" by auto
    with True r f run show ?thesis by auto
  next
    case False
    with f(5) have r: "r = int (length a)" "0 < r" "logs s1 = logs s" "open_handle (h1\<lparr>wh_len := r, wh_ptr := 0\<rparr>) s1"
        "take (length a) (wh_buf h1) = a" by auto
    have k: "?k = min n (length a)" using r(1) by auto
    have "take ?k (wh_buf h1) = take n (take (length a) (wh_buf h1))" unfolding k by (simp only: take_take)
    then have tk: "take ?k (wh_buf h1) = take n a" unfolding r(5) .
    have "buf_write 0 (take n a) buf = Some (take n a @ drop ?k buf)"
      unfolding k using n(2) by (simp add: buf_write_def min.commute)
    then have bw: "buf_write 0 (take ?k (wh_buf h1)) buf = Some (take n a @ drop ?k buf)" by (simp only: tk)
    have o2: "open_handle (h1\<lparr>wh_len := r, wh_len := 0\<rparr>) s1" using r(4) by (simp add: open_handle_def)
    obtain h' s' r' p where rs: "restart_masked os (h1\<lparr>wh_len := r\<rparr>) s1 = Some (h', s')"
        "h' = h1\<lparr>wh_len := r, wh_pending := p, wh_len := r'\<rparr>" "r' = 0 \<or> r' = err_val HS_ERROR_IO" "lib_frame s1 s'" "devs s' = devs s1"
        "logs s' = (logs s1)\<lparr>mask := (mask (logs s1))[mask_count (logs s1) := err_val HS_ERROR_IO]\<rparr>"
      using restart_masked_run [OF o2, of os] by blast
    have neg: "wh_len h' \<le> 0" using rs(2,3) by auto
    have "log_inv (logs s1)" using o2 by (simp add: open_handle_def)
    then have "log_inv (logs s')" unfolding rs(6) by (rule log_inv_mask)
    then have o': "open_handle h' s'" by (intro open_handle_restart [OF o2 neg]) (simp_all add: rs(2,5,6))
    have res: "hs_hid_read_win32 os h buf n timeout s = Some (int ?k, take n a @ drop ?k buf, h', s')"
      using r(2) unfolding run bw rs(1) by simp
    show ?thesis
    proof (intro exI conjI)
      show "hs_hid_read_win32 os h buf n timeout s = Some (int ?k, take n a @ drop ?k buf, h', s')" by (rule res)
      show "open_handle h' s'" by (rule o')
      show "wh_len h' \<le> 0" by (rule neg)
      show "wh_dev h' = wh_dev h" unfolding rs(2) by (simp add: f(4))
      show "lib_frame s s'" by (rule lib_frame_trans [OF f(2) rs(4)])
      show "devs s' = devs s" by (simp only: rs(5) f(3))
      show "if a = [] then (int ?k = 0 \<or> int ?k = err_val HS_ERROR_IO) \<and> take n a @ drop ?k buf = buf \<and> wh_len h' = int ?k
        else int ?k = int (min n (length a)) \<and> take n a @ drop ?k buf = take n a @ drop (min n (length a)) buf \<and> out (logs s') = out (logs s)"
        unfolding k using False r(3) rs(6) by simp
    qed
  qed
qed

section \<open>Serial settings\<close>

lemma dcb_baud_Some: "dcb_baud rate t = Some u \<longleftrightarrow> baud_constant rate \<noteq> None \<and> u = t\<lparr>BaudRate := rate\<rparr>"
  by (auto simp: dcb_baud_def baud_constant_def)

lemma dcb_parity_None: "dcb_parity flags t = None \<longleftrightarrow> parity_bits flags = None"
  by (simp add: dcb_parity_def parity_bits_def Let_def serial_flags)

lemma dcb_flow_None: "dcb_flow flags t = None \<longleftrightarrow> flow_bits flags = None"
  by (simp add: dcb_flow_def flow_bits_def Let_def serial_flags)

text \<open>The settings of a \<open>DCB\<close> as the bits of \<open>struct termios\<close> that ask for the same.\<close>

definition csize_word :: "dcb \<Rightarrow> uint32" where
  "csize_word t = (if ByteSize t = 5 then CS5 else if ByteSize t = 6 then CS6 else if ByteSize t = 7 then CS7 else CS8)"

definition parity_word :: "dcb \<Rightarrow> uint32" where
  "parity_word t = (case Parity t of NOPARITY \<Rightarrow> 0 | ODDPARITY \<Rightarrow> PARENB OR PARODD | EVENPARITY \<Rightarrow> PARENB)"

definition flow_words :: "dcb \<Rightarrow> uint32 \<times> uint32" where
  "flow_words t = (if fOutxCtsFlow t then CRTSCTS else 0, if fOutX t then IXON OR IXOFF else 0)"

lemma dcb_csize_word: "csize_word (dcb_csize flags t) = csize_bits flags"
  by (simp add: csize_word_def dcb_csize_def csize_bits_def Let_def serial_flags)

lemma dcb_parity_fields:
  assumes "dcb_parity flags t = Some u"
  shows "Some (parity_word u) = parity_bits flags" "fParity u \<longleftrightarrow> Parity u \<noteq> NOPARITY"
    "u = t\<lparr>fParity := fParity u, Parity := Parity u\<rparr>"
  using assms by (auto simp: dcb_parity_def parity_bits_def parity_word_def Let_def serial_flags split: if_splits)

lemma dcb_flow_fields:
  assumes "dcb_flow flags t = Some u"
  shows "Some (flow_words u) = flow_bits flags" "fRtsControl u = CONTROL_ENABLE \<longleftrightarrow> fOutxCtsFlow u" "fInX u = fOutX u"
    "u = t\<lparr>fOutxCtsFlow := fOutxCtsFlow u, fOutxDsrFlow := False, fRtsControl := fRtsControl u,
           fDtrControl := CONTROL_DISABLE, fOutX := fOutX u, fInX := fInX u\<rparr>"
  using assms by (auto simp: dcb_flow_def flow_bits_def flow_words_def Let_def serial_flags split: if_splits)

lemma dcb_settings_defined:
  "dcb_settings rate flags t = None \<longleftrightarrow>
     baud_constant rate = None \<or> parity_bits flags = None \<or> flow_bits flags = None"
proof (cases "dcb_baud rate t")
  case None
  then have "baud_constant rate = None" using dcb_baud_Some [of rate t "t\<lparr>BaudRate := rate\<rparr>"] by auto
  with None show ?thesis by (simp add: dcb_settings_def)
next
  case (Some u)
  then have b: "baud_constant rate \<noteq> None" by (simp add: dcb_baud_Some)
  show ?thesis
  proof (cases "dcb_parity flags (dcb_csize flags u)")
    case None
    with Some show ?thesis using dcb_parity_None [of flags "dcb_csize flags u"] by (simp add: dcb_settings_def)
  next
    case (Some u2)
    then have "parity_bits flags \<noteq> None" using dcb_parity_None [of flags "dcb_csize flags u"] by simp
    with b Some \<open>dcb_baud rate t = Some u\<close> show ?thesis
      using dcb_flow_None [of flags "dcb_stop flags u2"] by (auto simp: dcb_settings_def)
  qed
qed

lemma dcb_settings_fields:
  assumes "dcb_settings rate flags t = Some t'"
  shows "BaudRate t' = rate \<and> csize_word t' = csize_bits flags \<and> Some (parity_word t') = parity_bits flags \<and>
    (fParity t' \<longleftrightarrow> Parity t' \<noteq> NOPARITY) \<and> StopBits t' = (if flags AND HS_SERIAL_STOP_2BITS = 0 then 0 else 2) \<and>
    Some (flow_words t') = flow_bits flags \<and> (fRtsControl t' = CONTROL_ENABLE \<longleftrightarrow> fOutxCtsFlow t') \<and> fInX t' = fOutX t' \<and>
    other_fields t' = other_fields t"
proof -
  let ?u = "dcb_csize flags (t\<lparr>BaudRate := rate\<rparr>)"
  obtain u2 where u2: "dcb_parity flags ?u = Some u2" "dcb_flow flags (dcb_stop flags u2) = Some t'"
    using assms by (auto simp: dcb_settings_def dcb_baud_Some elim!: bind_eq_SomeE)
  note p = dcb_parity_fields [OF u2(1)] and f = dcb_flow_fields [OF u2(2)]
  have stop: "dcb_stop flags u2 = u2\<lparr>StopBits := (if flags AND HS_SERIAL_STOP_2BITS = 0 then 0 else 2)\<rparr>"
    by (simp add: dcb_stop_def Let_def)
  have t': "BaudRate t' = BaudRate u2" "ByteSize t' = ByteSize u2" "fParity t' = fParity u2" "Parity t' = Parity u2"
      "StopBits t' = (if flags AND HS_SERIAL_STOP_2BITS = 0 then 0 else 2)" "other_fields t' = other_fields u2"
    by (subst f(4), simp add: stop)+
  have u2': "BaudRate u2 = BaudRate ?u" "ByteSize u2 = ByteSize ?u" "other_fields u2 = other_fields ?u"
    by (subst p(3), simp)+
  have "BaudRate ?u = rate" "other_fields ?u = other_fields t" by (simp_all add: dcb_csize_def Let_def)
  moreover have "csize_word t' = csize_word ?u" using t'(2) u2'(2) by (simp add: csize_word_def)
  moreover have "parity_word t' = parity_word u2" using t'(4) by (simp add: parity_word_def)
  ultimately show ?thesis using t' u2' p(1,2) f(1-3) dcb_csize_word by simp
qed

section \<open>An example\<close>

text \<open>A Windows whose world is the list of the messages to come; every call succeeds.\<close>

definition ex_dcb :: dcb where
  "ex_dcb = \<lparr>BaudRate = 0, ByteSize = 0, fParity = False, Parity = NOPARITY, StopBits = 0, fOutxCtsFlow = True,
     fOutxDsrFlow = True, fRtsControl = CONTROL_ENABLE, fDtrControl = CONTROL_ENABLE, fOutX = True, fInX = False,
     other_fields = 17\<rparr>"

definition ex_completed :: "uint8 list list \<Rightarrow> (werror + uint8 list) \<times> uint8 list list" where
  "ex_completed w = (case w of [] \<Rightarrow> (Inl ERROR_IO_INCOMPLETE, w) | m # ms \<Rightarrow> (Inr (take READ_BUFFER_SIZE m), ms))"

definition ex_win :: "uint8 list list win32_os" where
  "ex_win = \<lparr>w_tick_count64 = Some (Pair 1000), w_perf_frequency = Pair (Some 1), w_perf_counter = Pair (Some 1),
     w_wait_multiple = (\<lambda>hs t. Pair (Inr 0)), w_wait_single = (\<lambda>ev t w. w), w_format_message = (\<lambda>e. None),
     w_version = (6, 1), w_create_file = (\<lambda>p. Pair (Inr 3)), w_create_event = Pair (Inr 4), w_close_handle = (\<lambda>fh w. w),
     w_set_comm_timeouts = (\<lambda>fh t w. w), w_escape_setdtr = (\<lambda>fh w. w), w_read_file = (\<lambda>fh ev n. Pair (Some ERROR_IO_PENDING)),
     w_overlapped_result = (\<lambda>fh ev b. ex_completed), w_cancel_io = (\<lambda>fh w. w), w_cancel_io_ex = Some (\<lambda>fh w. w),
     w_thread = (\<lambda>w. 1), w_begin_thread = (\<lambda>fh w. w), w_write_file = (\<lambda>fh ds. Pair None), w_write_result = (\<lambda>fh. Pair (Inr 0)),
     w_get_preparsed = (\<lambda>fh. Pair (Some 1)), w_get_caps = (\<lambda>pp. Pair (Some (1, 6))), w_free_preparsed = (\<lambda>pp w. w),
     w_get_feature = (\<lambda>fh b. Pair None), w_feature_result = (\<lambda>fh. Pair (Inr [])), w_set_feature = (\<lambda>fh b. Pair True),
     w_get_comm_state = (\<lambda>fh. Pair (Inr ex_dcb)), w_set_comm_state = (\<lambda>fh t. Pair (Inr ()))\<rparr>"

definition ex_win_dev :: "hs_device_type \<Rightarrow> hs_device" where
  "ex_win_dev ty = zero_device\<lparr>refcount := 1, d_key := Some ''k'', d_type := ty, d_vtable := Hs_win32_device_vtable,
     d_state := HS_DEVICE_STATUS_ONLINE, d_path := Some ''COM1''\<rparr>"

definition ex_win_state :: "uint8 list list \<Rightarrow> uint8 list list hs_state" where
  "ex_win_state w =
     \<lparr>lists = \<lparr>l_prev = Map.empty, l_next = Map.empty\<rparr>, nodes = \<lparr>h_next = Map.empty, h_key = Map.empty\<rparr>,
      devs = [5 \<mapsto> ex_win_dev HS_DEVICE_TYPE_SERIAL, 8 \<mapsto> ex_win_dev HS_DEVICE_TYPE_HID],
      cbs = Map.empty, mons = Map.empty, logs = init_log False, ext = w\<rparr>"

definition ex_win_handle :: "addr \<Rightarrow> win32_handle" where
  "ex_win_handle dev = \<lparr>wh_dev = dev, wh_handle = 3, wh_ov = Some 4, wh_buf = replicate READ_BUFFER_SIZE 0,
     wh_pending = 1, wh_ptr = 0, wh_len = 0\<rparr>"

lemma ex_win_sel [simp]:
  "devs (ex_win_state w) = [5 \<mapsto> ex_win_dev HS_DEVICE_TYPE_SERIAL, 8 \<mapsto> ex_win_dev HS_DEVICE_TYPE_HID]"
  "ext (ex_win_state w) = w" "logs (ex_win_state w) = init_log False"
  "refcount (ex_win_dev ty) = 1" "d_type (ex_win_dev ty) = ty" "d_path (ex_win_dev ty) = Some ''COM1''"
  "d_vtable (ex_win_dev ty) = Hs_win32_device_vtable" "d_state (ex_win_dev ty) = HS_DEVICE_STATUS_ONLINE"
  "wh_dev (ex_win_handle dev) = dev" "wh_len (ex_win_handle dev) = 0" "wh_ov (ex_win_handle dev) = Some 4"
  by (simp_all add: ex_win_state_def ex_win_dev_def ex_win_handle_def)

lemma ex_win_open: "dev \<in> {5, 8} \<Longrightarrow> open_handle (ex_win_handle dev) (ex_win_state w)"
  by (auto simp: open_handle_def ex_win_handle_def) (simp_all add: init_log_def)

lemma ex_win_fit: "reads_fit ex_win"
  by (auto simp: reads_fit_def ex_win_def ex_completed_def split: list.splits sum.splits)

lemma ex_win_available: "available ex_win (ex_win_handle dev) t [m] = take READ_BUFFER_SIZE m"
  by (simp add: available_def async_result_def ex_win_def ex_completed_def)

section \<open>Properties\<close>

text \<open>
  Opening a device that is online through the Windows driver always returns; a failure leaves every
  device as it was, and a handle holds exactly one reference, which closing it gives back.
\<close>

theorem win32_open_close:
  assumes "usable s dev d" and "d_state d = HS_DEVICE_STATUS_ONLINE" and "d_vtable d = Hs_win32_device_vtable"
    and "V Hs_win32_device_vtable = hs_win32_device_vtable os mem"
  shows "(\<exists>h s1 s2. hs_device_open V dev s = Some (0, Some h, s1) \<and> hs_handle_get_device wh_dev h = dev \<and>
        devs s1 = (devs s)(dev \<mapsto> d\<lparr>refcount := refcount d + 1\<rparr>) \<and>
        hs_handle_close V wh_dev (Some h) s1 = Some s2 \<and> devs s2 = devs s \<and> lib_frame s s2) \<or>
     (\<exists>e s1. hs_device_open V dev s = Some (err_val e, None, s1) \<and> devs s1 = devs s \<and> lib_frame s s1)"
proof -
  have "dev \<noteq> 0" "devs s dev = Some d" using assms(1) by (simp_all add: usable_def)
  then have o: "hs_device_open V dev s = open_win32_device os mem dev s"
    using assms(2-4) by (simp add: hs_device_open_def hs_win32_device_vtable_def)
  from open_win32_device_run [OF assms(1), of os mem] show ?thesis
  proof
    assume "\<exists>h s' fh ev p. open_win32_device os mem dev s = Some (0, Some h, s') \<and> lib_frame s s' \<and>
       devs s' = (devs s)(dev \<mapsto> d\<lparr>refcount := refcount d + 1\<rparr>) \<and>
       h = \<lparr>wh_dev = dev, wh_handle = fh, wh_ov = Some ev, wh_buf = replicate READ_BUFFER_SIZE 0, wh_pending = p,
         wh_ptr = 0, wh_len = 0\<rparr>"
    then obtain h s1 where h: "open_win32_device os mem dev s = Some (0, Some h, s1)" "wh_dev h = dev"
        "devs s1 = (devs s)(dev \<mapsto> d\<lparr>refcount := refcount d + 1\<rparr>)" by auto
    obtain s2 where s2: "close_win32_device os h s1 = Some s2" "devs s2 = devs s" "lib_frame s s2"
      using win32.open_close [OF assms(1) h(1)] by blast
    have "hs_handle_close V wh_dev (Some h) s1 = Some s2"
      using h(2,3) s2(1) assms(3,4) by (simp add: hs_handle_close_def hs_win32_device_vtable_def)
    with o h s2 show ?thesis by (auto simp: hs_handle_get_device_def)
  next
    assume "\<exists>e s'. open_win32_device os mem dev s = Some (err_val e, None, s') \<and> lib_frame s s' \<and> devs s' = devs s"
    with o show ?thesis by auto
  qed
qed

theorem win32_open_close_witness:
  "(\<exists>h s1 s2. hs_device_open (\<lambda>v. hs_win32_device_vtable ex_win (\<lambda>i. True)) 5 (ex_win_state []) = Some (0, Some h, s1) \<and>
        hs_handle_close (\<lambda>v. hs_win32_device_vtable ex_win (\<lambda>i. True)) wh_dev (Some h) s1 = Some s2 \<and>
        devs s2 = devs (ex_win_state [])) \<or>
     (\<exists>e s1. hs_device_open (\<lambda>v. hs_win32_device_vtable ex_win (\<lambda>i. True)) 5 (ex_win_state []) = Some (err_val e, None, s1))"
  using win32_open_close [of "ex_win_state []" 5 "ex_win_dev HS_DEVICE_TYPE_SERIAL" "\<lambda>v. hs_win32_device_vtable ex_win (\<lambda>i. True)"
      ex_win "\<lambda>i. True"] by (auto simp: usable_def)

text \<open>
  C33: on Windows \<open>hs_serial_read\<close> returns, in order, what is available: the unread rest of the last
  request or else what the pending request delivers within the timeout. Nothing is lost: what the
  caller's buffer does not hold stays unread; a request that cannot be restarted is not reported.
\<close>

theorem serial_read_stream:
  fixes timeout :: int
  assumes "open_handle h s" and "serial_device (wh_dev h) s = Some d" and "0 \<le> wh_len h"
    and "n \<noteq> 0" and "n \<le> length buf" and "reads_fit os"
  shows "\<exists>r buf' h' s'. hs_serial_read_win32 os h buf n timeout s = Some (r, buf', h', s') \<and> open_handle h' s' \<and>
     lib_frame s s' \<and> devs s' = devs s \<and>
     (let a = available os h timeout (ext s) in
      if a = [] then (r = 0 \<or> r = err_val HS_ERROR_IO) \<and> buf' = buf \<and> unread h' = []
      else r = int (min n (length a)) \<and> buf' = take n a @ drop (min n (length a)) buf \<and> unread h' = drop n a \<and>
           out (logs s') = out (logs s))"
  using serial_read_run [OF assms, of timeout] by (cases "available os h timeout (ext s) = []") (auto simp: Let_def)

theorem serial_read_stream_witness:
  "\<exists>h' s'. hs_serial_read_win32 ex_win (ex_win_handle 5) [0, 0] 2 100 (ex_win_state [[1, 2, 3]]) = Some (2, [1, 2], h', s') \<and>
     unread h' = [3]"
proof -
  have d: "serial_device (wh_dev (ex_win_handle 5)) (ex_win_state [[1, 2, 3]]) = Some (ex_win_dev HS_DEVICE_TYPE_SERIAL)"
    by (simp add: serial_device_def)
  have a: "available ex_win (ex_win_handle 5) 100 (ext (ex_win_state [[1, 2, 3]])) = [1, 2, 3]"
    by (simp add: ex_win_available READ_BUFFER_SIZE_def)
  from serial_read_stream [OF ex_win_open d _ _ _ ex_win_fit, of 2 "[0, 0]" 100] show ?thesis unfolding a by auto
qed

text \<open>Reads of the given sizes, one after the other; the bytes they return, joined.\<close>

fun read_pieces ::
  "'w win32_os \<Rightarrow> int \<Rightarrow> nat list \<Rightarrow> win32_handle \<Rightarrow> 'w hs_state \<Rightarrow> (uint8 list \<times> win32_handle \<times> 'w hs_state) option" where
  "read_pieces os timeout [] h s = Some ([], h, s)"
| "read_pieces os timeout (n # ns) h s = do {
     (r, buf, h, s) \<leftarrow> hs_serial_read_win32 os h (replicate n 0) n timeout s;
     (bs, h, s) \<leftarrow> read_pieces os timeout ns h s;
     Some (take (nat r) buf @ bs, h, s)
   }"

text \<open>
  C31: a message that a request has delivered can be read in pieces of any sizes: joined, they are the
  message, and the rest stays unread.
\<close>

theorem serial_read_no_loss:
  assumes "open_handle h s" and "serial_device (wh_dev h) s = Some d" and "0 < wh_len h" and "reads_fit os"
    and "\<forall>n \<in> set ns. n \<noteq> 0" and "sum_list ns \<le> length (unread h)"
  shows "\<exists>h' s'. read_pieces os timeout ns h s = Some (take (sum_list ns) (unread h), h', s') \<and>
     open_handle h' s' \<and> unread h' = drop (sum_list ns) (unread h)"
  using assms
proof (induction ns arbitrary: h s)
  case Nil
  then show ?case by auto
next
  case (Cons n ns)
  have a: "available os h timeout (ext s) = unread h" using Cons.prems(3) by (simp add: available_def)
  have ne: "unread h \<noteq> []" using length_unread [OF Cons.prems(1)] Cons.prems(3) by auto
  have n: "n \<noteq> 0" "n \<le> length (unread h)" using Cons.prems(5,6) by auto
  obtain buf' h1 s1 where r: "hs_serial_read_win32 os h (replicate n 0) n timeout s = Some (int n, buf', h1, s1)"
      "open_handle h1 s1" "wh_dev h1 = wh_dev h" "devs s1 = devs s" "buf' = take n (unread h)" "unread h1 = drop n (unread h)"
      "unread h1 \<noteq> [] \<longrightarrow> 0 < wh_len h1"
    using serial_read_run [OF Cons.prems(1,2) _ n(1) _ Cons.prems(4), of "replicate n 0" timeout] Cons.prems(3) a ne n(2)
    by (auto simp: min_absorb1)
  have d: "serial_device (wh_dev h1) s1 = Some d" using Cons.prems(2) r(3,4) by (simp add: serial_device_def)
  have len: "length (take n (unread h)) = n" using n(2) by simp
  show ?case
  proof (cases ns)
    case Nil
    with r len show ?thesis by auto
  next
    case more: (Cons m ms)
    have "m \<noteq> 0" using Cons.prems(5) more by simp
    then have "length (unread h1) \<noteq> 0" using Cons.prems(6) r(6) more by simp
    then have "unread h1 \<noteq> []" by simp
    with r(7) have pos: "0 < wh_len h1" by simp
    have sum: "sum_list ns \<le> length (unread h1)" using Cons.prems(6) r(6) by simp
    obtain h' s' where "read_pieces os timeout ns h1 s1 = Some (take (sum_list ns) (unread h1), h', s')"
        "open_handle h' s'" "unread h' = drop (sum_list ns) (unread h1)"
      using Cons.IH [OF r(2) d pos Cons.prems(4) _ sum] Cons.prems(5) by auto
    moreover have "take (sum_list (n # ns)) (unread h) = take n (unread h) @ take (sum_list ns) (drop n (unread h))"
      by (simp add: take_add)
    ultimately show ?thesis using r len by (auto simp: add.commute)
  qed
qed

theorem serial_read_no_loss_witness:
  "\<exists>h s h' s'. unread h = [7, 8, 9] \<and> read_pieces ex_win 0 [1, 2] h s = Some ([7, 8, 9], h', s') \<and> unread h' = []"
proof -
  let ?h = "(ex_win_handle 5)\<lparr>wh_buf := [7, 8, 9] @ replicate (READ_BUFFER_SIZE - 3) 0, wh_len := 3\<rparr>"
  have o: "open_handle ?h (ex_win_state [])"
    by (auto simp: open_handle_def ex_win_handle_def READ_BUFFER_SIZE_def) (simp_all add: init_log_def)
  have d: "serial_device (wh_dev ?h) (ex_win_state []) = Some (ex_win_dev HS_DEVICE_TYPE_SERIAL)"
    by (simp add: serial_device_def)
  have u: "unread ?h = [7, 8, 9]" by (simp add: unread_def ex_win_handle_def)
  from serial_read_no_loss [OF o d _ ex_win_fit, of "[1, 2]" 0] u show ?thesis by auto
qed

text \<open>
  On Windows \<open>hs_hid_read\<close> returns one message of the device, cut to the caller's buffer, and
  touches no byte behind it; without a message it gives 0 or an I/O error and leaves the buffer alone,
  and the handle stays usable.
\<close>

theorem hid_read_message:
  fixes timeout :: int
  assumes "open_handle h s" and "hid_device (wh_dev h) s = Some d" and "wh_len h = 0"
    and "n \<noteq> 0" and "n \<le> length buf" and "reads_fit os"
  shows "\<exists>r buf' h' s'. hs_hid_read_win32 os h buf n timeout s = Some (r, buf', h', s') \<and> open_handle h' s' \<and>
     lib_frame s s' \<and> devs s' = devs s \<and> wh_len h' \<le> 0 \<and>
     (case async_result os h timeout (ext s) of
        Inr (x # xs) \<Rightarrow> r = int (min n (length (x # xs))) \<and>
          buf' = take n (x # xs) @ drop (min n (length (x # xs))) buf \<and> out (logs s') = out (logs s)
      | _ \<Rightarrow> (r = 0 \<or> r = err_val HS_ERROR_IO) \<and> buf' = buf \<and> wh_len h' = r)"
proof -
  have a: "available os h timeout (ext s) = (case async_result os h timeout (ext s) of Inr ds \<Rightarrow> ds | Inl e \<Rightarrow> [])"
    using assms(3) by (simp add: available_def)
  show ?thesis
  proof (cases "async_result os h timeout (ext s)")
    case (Inl e)
    with hid_read_run [OF assms, of timeout] a show ?thesis by auto
  next
    case (Inr ds)
    with hid_read_run [OF assms, of timeout] a show ?thesis by (cases ds) auto
  qed
qed

theorem hid_read_message_witness:
  "\<exists>h' s'. hs_hid_read_win32 ex_win (ex_win_handle 8) [0, 0] 2 100 (ex_win_state [[1, 2, 3]]) = Some (2, [1, 2], h', s')"
proof -
  have d: "hid_device (wh_dev (ex_win_handle 8)) (ex_win_state [[1, 2, 3]]) = Some (ex_win_dev HS_DEVICE_TYPE_HID)"
    by (simp add: hid_device_def)
  have a: "async_result ex_win (ex_win_handle 8) 100 (ext (ex_win_state [[1, 2, 3]])) = Inr [1, 2, 3]"
    by (simp add: async_result_def ex_win_def ex_completed_def READ_BUFFER_SIZE_def)
  from hid_read_message [OF ex_win_open d _ _ _ ex_win_fit, of 2 "[0, 0]" 100] show ?thesis unfolding a by auto
qed


end
