(* ===== verification/Locations.thy ===== *)
theory Locations
  imports Strings
begin

text \<open>
  The part of a USB location that \<open>monitor_win32.c\<close> and \<open>monitor_darwin.c\<close> have word for word: the ports are
  collected from the device up to its root hub, the index of the controller is looked up, and they are
  swapped and printed from the controller down.
\<close>

section \<open>Controllers\<close>

text \<open>The list \<open>controllers\<close>, in its order: the name of the root hub or controller, and its index.\<close>

type_synonym controllers = "(string \<times> uint8) list"

fun find_controller :: "string \<Rightarrow> controllers \<Rightarrow> uint8" where
  "find_controller devid [] = 0"
| "find_controller devid ((roothub_id, index) # rest) =
     (if roothub_id = devid then index else find_controller devid rest)"

section \<open>Printing and swapping\<close>

text \<open>The loop of \<open>build_location_string\<close> with \<open>room\<close> characters of the buffer left.\<close>

fun location_loop :: "uint8 list \<Rightarrow> nat \<Rightarrow> string option" where
  "location_loop [] room = Some []"
| "location_loop (p # ports) room = do {
     let text = CHR ''-'' # show_nat 10 (unat p);
     c_assert (length text \<ge> 2 \<and> length text < room);
     rest \<leftarrow> location_loop ports (room - length text);
     Some (text @ rest)
   }"

definition location_string :: "uint8 list \<Rightarrow> nat \<Rightarrow> string option" where
  "location_string ports depth = do {
     c_assert (depth \<le> length ports);
     rest \<leftarrow> location_loop (take depth ports) (256 - 3);
     Some (''usb'' @ rest)
   }"

text \<open>The loop that puts the ports into the order from the root to the device.\<close>

definition swap_ports :: "uint8 list \<Rightarrow> nat \<Rightarrow> uint8 list" where
  "swap_ports ports depth =
     fold (\<lambda>i ports. ports[i := ports ! (depth - i - 1), depth - i - 1 := ports ! i]) [0 ..< depth div 2] ports"

section \<open>Digits\<close>

lemma digit_char_range: "n < 16 \<Longrightarrow> 48 \<le> (of_char (digit_char n) :: nat) \<and> (of_char (digit_char n) :: nat) < 103"
  by (simp add: digit_char_code)

lemma show_nat_range:
  assumes "2 \<le> b" and "b \<le> 16"
  shows "c \<in> set (show_nat b n) \<Longrightarrow> 48 \<le> (of_char c :: nat) \<and> (of_char c :: nat) < 103 \<and> (of_char c :: nat) \<noteq> 92"
proof (induction n arbitrary: c rule: less_induct)
  case (less n)
  have last: "48 \<le> (of_char (digit_char d) :: nat) \<and> (of_char (digit_char d) :: nat) < 103 \<and> (of_char (digit_char d) :: nat) \<noteq> 92"
    if "d < b" for d
    using that assms(2) by (simp add: digit_char_code)
  show ?case
  proof (cases "n < b")
    case True
    with less.prems assms last show ?thesis by (subst (asm) show_nat.simps) simp
  next
    case False
    with less.prems assms have "c \<in> set (show_nat b (n div b)) \<or> c = digit_char (n mod b)"
      by (subst (asm) show_nat.simps) auto
    moreover have "n mod b < b" using assms by simp
    ultimately show ?thesis using less.IH [of "n div b"] False assms last by auto
  qed
qed

lemma unat_less: "unat (x :: 'a::len word) < 2 ^ LENGTH('a)"
  by (rule unsigned_less)

section \<open>The ports in a location\<close>

text \<open>The fields of a string between separators, and the ports they stand for.\<close>

fun fields :: "char \<Rightarrow> string \<Rightarrow> string list" where
  "fields sep [] = [[]]"
| "fields sep (c # cs) =
     (if c = sep then [] # fields sep cs else (case fields sep cs of [] \<Rightarrow> [[c]] | f # fs \<Rightarrow> (c # f) # fs))"

definition location_ports :: "string \<Rightarrow> uint8 list" where
  "location_ports loc = map (\<lambda>f. of_nat (digits_nat 10 0 f)) (tl (fields (CHR ''-'') loc))"

lemma fields_append:
  assumes "sep \<notin> set xs"
  shows "fields sep (xs @ sep # ys) = xs # fields sep ys" "fields sep xs = [xs]"
  using assms by (induction xs) auto

lemma show_nat_no_dash: "CHR ''-'' \<notin> set (show_nat 10 n)"
  using show_nat_range [of 10 "CHR ''-''" n] by auto

lemma port_text_length: "length (show_nat 10 (unat (p :: uint8))) \<le> 3" "1 \<le> length (show_nat 10 (unat p))"
proof -
  have "unat p < 10 ^ 3" using unat_less [of p] by simp
  then show "length (show_nat 10 (unat p)) \<le> 3" using show_nat_length [of 10 "unat p" 3] by simp
  show "1 \<le> length (show_nat 10 (unat p))" by (simp add: Suc_le_eq)
qed

lemma location_loop_run:
  assumes "4 * length ports < n"
  shows "\<exists>t. location_loop ports n = Some t \<and> length t \<le> 4 * length ports \<and>
     (ports \<noteq> [] \<longrightarrow> (\<exists>u. t = CHR ''-'' # u \<and> fields (CHR ''-'') u = map (\<lambda>p. show_nat 10 (unat p)) ports)) \<and>
     (ports = [] \<longrightarrow> t = [])"
  using assms
proof (induction ports arbitrary: n)
  case (Cons p ports)
  let ?d = "show_nat 10 (unat p)"
  have d: "length ?d \<le> 3" "1 \<le> length ?d" by (rule port_text_length)+
  obtain t where t: "location_loop ports (n - Suc (length ?d)) = Some t" "length t \<le> 4 * length ports"
    "ports \<noteq> [] \<longrightarrow> (\<exists>u. t = CHR ''-'' # u \<and> fields (CHR ''-'') u = map (\<lambda>p. show_nat 10 (unat p)) ports)" "ports = [] \<longrightarrow> t = []"
  proof -
    have "4 * length ports < n - Suc (length ?d)" using Cons.prems d(1) by simp
    from Cons.IH [OF this] that show thesis by blast
  qed
  have "location_loop (p # ports) n = Some (CHR ''-'' # ?d @ t)" using t(1) Cons.prems d by simp
  moreover have "fields (CHR ''-'') (?d @ t) = map (\<lambda>p. show_nat 10 (unat p)) (p # ports)"
    using t(3,4) fields_append [OF show_nat_no_dash [of "unat p"]] by (cases "ports = []") auto
  ultimately show ?case using t(2) d by simp
qed simp

lemma location_string_run:
  assumes "depth \<le> length ports" and "depth \<le> 63"
  shows "\<exists>loc. location_string ports depth = Some loc \<and> length loc < 256 \<and> location_ports loc = take depth ports"
proof -
  let ?p = "take depth ports"
  have len: "4 * length ?p < 256 - 3" using assms by simp
  obtain t where t: "location_loop ?p (256 - 3) = Some t" "length t \<le> 4 * length ?p"
    "?p \<noteq> [] \<longrightarrow> (\<exists>u. t = CHR ''-'' # u \<and> fields (CHR ''-'') u = map (\<lambda>p. show_nat 10 (unat p)) ?p)" "?p = [] \<longrightarrow> t = []"
    using location_loop_run [OF len] by blast
  have "tl (fields (CHR ''-'') (''usb'' @ t)) = map (\<lambda>p. show_nat 10 (unat p)) ?p"
  proof (cases "?p = []")
    case False
    with t(3) obtain u where "t = CHR ''-'' # u" "fields (CHR ''-'') u = map (\<lambda>p. show_nat 10 (unat p)) ?p" by blast
    then show ?thesis by simp
  qed (use t(4) in simp)
  then have "location_ports (''usb'' @ t) = ?p"
    by (simp add: location_ports_def digits_nat_show map_idI o_def)
  with t(1,2) len assms(1) show ?thesis by (simp add: location_string_def)
qed

section \<open>The order of the ports\<close>

lemma length_swap [simp]: "length (swap_ports ports depth) = length ports"
proof -
  have "length (fold (\<lambda>i ports. ports[i := ports ! (depth - i - 1), depth - i - 1 := ports ! i]) is xs) = length xs"
    for "is" and xs :: "uint8 list"
    by (induction "is" arbitrary: xs) simp_all
  then show ?thesis by (simp add: swap_ports_def)
qed

lemma swap_fold:
  assumes "d \<le> length xs" and "n \<le> d div 2"
  shows "length (fold (\<lambda>i ports. ports[i := ports ! (d - i - 1), d - i - 1 := ports ! i]) [0 ..< n] xs) = length xs \<and>
     (\<forall>i < length xs. fold (\<lambda>i ports. ports[i := ports ! (d - i - 1), d - i - 1 := ports ! i]) [0 ..< n] xs ! i =
        (if i < n \<or> i < d \<and> d - i - 1 < n then xs ! (d - i - 1) else xs ! i))"
  using assms(2)
proof (induction n)
  case (Suc n)
  let ?ys = "fold (\<lambda>i ports. ports[i := ports ! (d - i - 1), d - i - 1 := ports ! i]) [0 ..< n] xs"
  have n: "n < d - n - 1" "d - n - 1 < length xs" "n < length xs" using Suc.prems assms(1) by linarith+
  have ys: "length ?ys = length xs"
      "\<And>i. i < length xs \<Longrightarrow> ?ys ! i = (if i < n \<or> i < d \<and> d - i - 1 < n then xs ! (d - i - 1) else xs ! i)"
    using Suc by auto
  have "?ys ! n = xs ! n" "?ys ! (d - n - 1) = xs ! (d - n - 1)" using ys(2) n by auto
  with ys n show ?case
    by (auto simp: nth_list_update intro: arg_cong [of _ _ "(!) xs"])
qed simp

lemma swap_ports_rev:
  assumes "d \<le> length ports"
  shows "take d (swap_ports ports d) = rev (take d ports)" "drop d (swap_ports ports d) = drop d ports"
proof -
  have *: "\<And>i. i < length ports \<Longrightarrow> swap_ports ports d ! i =
      (if i < d div 2 \<or> i < d \<and> d - i - 1 < d div 2 then ports ! (d - i - 1) else ports ! i)"
    using swap_fold [OF assms order_refl] by (simp add: swap_ports_def)
  have mid: "ports ! i = ports ! (d - i - 1)" if "\<not> i < d div 2" "\<not> d - i - 1 < d div 2" "i < d" for i
  proof -
    have "i = d - i - 1" using that by linarith
    then show ?thesis by (rule arg_cong)
  qed
  show "take d (swap_ports ports d) = rev (take d ports)"
  proof (rule nth_equalityI)
    fix i assume "i < length (take d (swap_ports ports d))"
    then have i: "i < d" "i < length ports" using assms by simp_all
    then have "swap_ports ports d ! i = ports ! (d - i - 1)" using * mid by presburger
    with i assms show "take d (swap_ports ports d) ! i = rev (take d ports) ! i" by (simp add: rev_nth min_def)
  qed (use assms in simp)
  show "drop d (swap_ports ports d) = drop d ports"
    by (rule nth_equalityI) (auto simp: *)
qed

end
