(* ===== verification/PathsWin32.thy ===== *)
theory PathsWin32
  imports Locations Compat Platform
begin

text \<open>
  The string functions of \<open>src/monitor_win32.c\<close>: device paths and device identifiers, port
  numbers and USB identifiers. A path and an identifier name the same device:
  \<open>extract_device_id\<close> undoes \<open>build_device_path\<close>.
\<close>

abbreviation (input) BS :: char where
  "BS \<equiv> CHR 0x5C"

section \<open>Paths and identifiers\<close>

record guid =
  Data1 :: uint32
  Data2 :: uint16
  Data3 :: uint16
  Data4 :: "uint8 list"

definition hex :: "nat \<Rightarrow> nat \<Rightarrow> string" where
  "hex w n = zero_pad w (show_nat 16 n)"

text \<open>The format of the last part of a path; \<open>Data4\<close> has eight bytes.\<close>

definition guid_string :: "guid \<Rightarrow> string" where
  "guid_string g =
     ''#{'' @ hex 8 (unat (Data1 g)) @ ''-'' @ hex 4 (unat (Data2 g)) @ ''-'' @ hex 4 (unat (Data3 g)) @ ''-'' @
     concat (map (\<lambda>b. hex 2 (unat b)) (take 2 (Data4 g))) @ ''-'' @
     concat (map (\<lambda>b. hex 2 (unat b)) (take 6 (drop 2 (Data4 g)))) @ ''}''"

text \<open>The loop that copies the identifier to the buffer from offset \<open>ptr\<close> on.\<close>

fun copy_id :: "string \<Rightarrow> nat \<Rightarrow> string \<Rightarrow> (nat \<times> string) option" where
  "copy_id buf ptr [] = Some (ptr, buf)"
| "copy_id buf ptr (c # devid) = do {
     buf \<leftarrow> buf_write ptr [if c = BS then CHR ''#'' else c] buf;
     copy_id buf (ptr + 1) devid
   }"

text \<open>The contents of the buffer \<open>build_device_path\<close> allocates, and the string in it.\<close>

definition device_path :: "string \<Rightarrow> guid \<Rightarrow> string option" where
  "device_path devid g = do {
     let buf = replicate (4 + length devid + 41) (CHR 0x00);
     (ptr, buf) \<leftarrow> stpcpy buf 0 [BS, BS, CHR ''.'', BS];
     (ptr, buf) \<leftarrow> copy_id buf ptr devid;
     buf \<leftarrow> buf_write ptr (guid_string g @ [CHR 0x00]) buf;
     Some (c_str buf)
   }"

text \<open>\<open>toupper\<close> of the C locale.\<close>

definition to_upper :: "char \<Rightarrow> char" where
  "to_upper c = (let n = of_char c :: nat in if 97 \<le> n \<and> n \<le> 122 then char_of (n - 32) else c)"

definition extract_id :: "string \<Rightarrow> string" where
  "extract_id key =
     (let key = (if str_prefix [BS, BS, CHR ''?'', BS] key \<or> str_prefix [BS, BS, CHR ''.'', BS] key
                    \<or> str_prefix ''##.#'' key \<or> str_prefix ''##?#'' key then drop 4 key else key);
          devid = (case strrpbrk key [BS, CHR ''#''] of
                  Some i \<Rightarrow> if Suc i < length key \<and> key ! Suc i = CHR ''{'' then take i key else key
                | None \<Rightarrow> key) in
      map (\<lambda>c. let c = to_upper c in if c = CHR ''#'' then BS else c) devid)"

section \<open>Scanning\<close>

text \<open>\<open>sscanf(buf, "Port_#%04hhu", &port)\<close>\<close>

definition vista_port :: "string \<Rightarrow> uint8" where
  "vista_port buf =
     (case scan_lit ''Port_#'' buf of
        None \<Rightarrow> 0
      | Some str \<Rightarrow> (case scan_int 10 4 str of None \<Rightarrow> 0 | Some (v, _) \<Rightarrow> word_of_int v))"

text \<open>
  \<open>sscanf(buf, "USB\VID_%04hx&PID_%04hx&MI_%02hhu", ...)\<close>: the number of the fields that were read, and
  their values; the end of the input counts as no field.
\<close>

definition scan_usb_id :: "string \<Rightarrow> int \<times> uint16 \<times> uint16 \<times> uint8" where
  "scan_usb_id buf =
     (case scan_lit (''USB'' @ BS # ''VID_'') buf \<bind> scan_int 16 4 of
        None \<Rightarrow> (0, 0, 0, 0)
      | Some (vid, str) \<Rightarrow>
          (case scan_lit ''&PID_'' str \<bind> scan_int 16 4 of
             None \<Rightarrow> (1, word_of_int vid, 0, 0)
           | Some (pid, str) \<Rightarrow>
               (case scan_lit ''&MI_'' str \<bind> scan_int 10 2 of
                  None \<Rightarrow> (2, word_of_int vid, word_of_int pid, 0)
                | Some (mi, str) \<Rightarrow> (3, word_of_int vid, word_of_int pid, word_of_int mi))))"

text \<open>HID devices have a node for each collection: only the first one counts.\<close>

definition other_collection :: "string \<Rightarrow> bool" where
  "other_collection key \<longleftrightarrow>
     str_prefix (''HID'' @ [BS]) key \<and>
     (case strstr ''&COL'' key of None \<Rightarrow> False | Some ptr \<Rightarrow> \<not> str_prefix (''&COL01'' @ [BS]) ptr)"

section \<open>Lemmas\<close>

subsection \<open>The characters of a path\<close>

lemma hex_plain:
  assumes "c \<in> set (hex w n)"
  shows "c \<noteq> BS \<and> c \<noteq> CHR ''#'' \<and> c \<noteq> CHR ''{'' \<and> c \<noteq> CHR 0x00"
  using assms show_nat_range [of 16 c n] by (auto simp: hex_def zero_pad_def)

lemma hex_length: "n < 16 ^ w \<Longrightarrow> 0 < w \<Longrightarrow> length (hex w n) = w"
  using show_nat_length [of 16 n w] by (simp add: hex_def)

lemma guid_string_parts: "\<exists>t. guid_string g = ''#{'' @ t \<and> (\<forall>c \<in> set t. c \<noteq> BS \<and> c \<noteq> CHR ''#'' \<and> c \<noteq> CHR 0x00)"
  by (auto simp: guid_string_def dest: hex_plain)

lemma hex_word: "length (hex 8 (unat (x :: uint32))) = 8" "length (hex 4 (unat (y :: uint16))) = 4"
    "length (hex 2 (unat (z :: uint8))) = 2"
  using unat_less [of x] unat_less [of y] unat_less [of z]
  by (simp_all add: hex_length)

lemma guid_string_length: "length (guid_string g) \<le> 39"
proof -
  have "length (concat (map (\<lambda>b. hex 2 (unat b)) xs)) = 2 * length xs" for xs :: "uint8 list"
    by (induction xs) (simp_all add: hex_word)
  then show ?thesis by (simp add: guid_string_def hex_word)
qed

lemma copy_id_run:
  "ptr + length devid \<le> length buf \<Longrightarrow>
     copy_id buf ptr devid = Some (ptr + length devid,
       take ptr buf @ map (\<lambda>c. if c = BS then CHR ''#'' else c) devid @ drop (ptr + length devid) buf)"
proof (induction devid arbitrary: buf ptr)
  case (Cons c devid)
  let ?c = "if c = BS then CHR ''#'' else c"
  let ?b = "take ptr buf @ [?c] @ drop (ptr + 1) buf"
  have b: "buf_write ptr [?c] buf = Some ?b" using Cons.prems by (simp add: buf_write_def)
  have t: "take (ptr + 1) ?b = take ptr buf @ [?c]" "drop (ptr + 1 + length devid) ?b = drop (ptr + length (c # devid)) buf"
    using Cons.prems by (simp_all add: add.commute)
  have "copy_id ?b (ptr + 1) devid = Some (ptr + 1 + length devid,
       take (ptr + 1) ?b @ map (\<lambda>c. if c = BS then CHR ''#'' else c) devid @ drop (ptr + 1 + length devid) ?b)"
    by (rule Cons.IH) (use Cons.prems in simp)
  with b t show ?case by simp
qed simp

text \<open>The buffer is large enough, and holds the prefix, the identifier and the class.\<close>

definition path_text :: "string \<Rightarrow> guid \<Rightarrow> string" where
  "path_text devid g = [BS, BS, CHR ''.'', BS] @ map (\<lambda>c. if c = BS then CHR ''#'' else c) devid @ guid_string g"

lemma device_path_run:
  assumes "CHR 0x00 \<notin> set devid"
  shows "device_path devid g = Some (path_text devid g)"
proof -
  define m where "m = map (\<lambda>c. if c = BS then CHR ''#'' else c) devid"
  define pre where "pre = [BS, BS, CHR ''.'', BS]"
  define g' where "g' = guid_string g @ [CHR 0x00]"
  define b0 where "b0 = replicate (4 + length devid + 41) (CHR 0x00)"
  have len: "length m = length devid" "length pre = 4" "length g' \<le> 40" "length b0 = 45 + length devid"
    using guid_string_length [of g] by (simp_all add: m_def pre_def g'_def b0_def)
  define b1 where "b1 = pre @ [CHR 0x00] @ drop 5 b0"
  have l1: "length b1 = 45 + length devid" by (simp add: b1_def len)
  have s1: "stpcpy b0 0 pre = Some (4, b1)" using stpcpy_run [of 0 pre b0] len by (simp add: b1_def)
  define b2 where "b2 = pre @ m @ drop (4 + length devid) b1"
  have "copy_id b1 4 devid = Some (4 + length devid, take 4 b1 @ m @ drop (4 + length devid) b1)"
    unfolding m_def by (rule copy_id_run) (simp add: l1)
  moreover have "take 4 b1 = pre" using len(2) by (simp add: b1_def)
  ultimately have s2: "copy_id b1 4 devid = Some (4 + length devid, b2)" by (simp add: b2_def)
  have l2: "length b2 = 45 + length devid" by (simp add: b2_def l1 len)
  have "take (length (pre @ m)) b2 = pre @ m" by (simp add: b2_def)
  then have t2: "take (4 + length devid) b2 = pre @ m" by (simp add: len)
  define r where "r = drop (4 + length devid + length g') b2"
  have s3: "buf_write (4 + length devid) g' b2 = Some (pre @ m @ g' @ r)"
    using len(3) l2 t2 by (simp add: buf_write_def r_def)
  have path: "path_text devid g = pre @ m @ guid_string g" by (simp add: path_text_def pre_def m_def)
  obtain t where t: "guid_string g = ''#{'' @ t" "\<forall>c \<in> set t. c \<noteq> BS \<and> c \<noteq> CHR ''#'' \<and> c \<noteq> CHR 0x00"
    using guid_string_parts by blast
  have "CHR 0x00 \<notin> set (guid_string g)" unfolding t(1) using t(2) by auto
  moreover have "CHR 0x00 \<notin> set m" unfolding m_def using assms by (auto split: if_splits)
  ultimately have "CHR 0x00 \<notin> set (path_text devid g)" by (simp add: path pre_def)
  then have "c_str (path_text devid g @ [CHR 0x00] @ r) = path_text devid g" by (simp add: c_str_def takeWhile_append)
  then have "c_str (pre @ m @ g' @ r) = path_text devid g" by (simp add: path g'_def)
  with s1 s2 s3 show ?thesis
    unfolding device_path_def b0_def [symmetric] pre_def [symmetric] g'_def [symmetric] by simp
qed

subsection \<open>The identifier in a path\<close>

lemma strrpbrk_last:
  assumes "c \<in> set accept" and "\<forall>x \<in> set b. x \<notin> set accept"
  shows "strrpbrk (a @ c # b) accept = Some (length a)"
proof -
  let ?s = "a @ c # b"
  have "strrpbrk ?s accept \<noteq> None" using assms(1) by (auto simp: strrpbrk_None)
  then obtain i where i: "strrpbrk ?s accept = Some i" by auto
  note l = strrpbrk_Some [OF i]
  have "i = length a"
  proof (rule ccontr)
    assume "i \<noteq> length a"
    then consider "i < length a" | "length a < i" by linarith
    then show False
    proof cases
      case 1
      with l(3) [of "length a"] assms(1) show False by simp
    next
      case 2
      then have "?s ! i = b ! (i - length a - 1)" "i - length a - 1 < length b"
        using l(1) by (simp_all add: nth_append nth_Cons')
      with assms(2) l(2) show False by simp
    qed
  qed
  with i show ?thesis by simp
qed

text \<open>An identifier as Windows writes it: in upper case, without the separator of a path.\<close>

definition canonical_id :: "string \<Rightarrow> bool" where
  "canonical_id devid \<longleftrightarrow> CHR ''#'' \<notin> set devid \<and> CHR 0x00 \<notin> set devid \<and> map to_upper devid = devid"

lemma to_upper_BS [simp]: "to_upper BS = BS" "to_upper (CHR ''#'') = CHR ''#''"
  by (simp_all add: to_upper_def)

lemma extract_id_prefixed:
  assumes "canonical_id devid"
    and pre: "pre \<in> {[BS, BS, CHR ''?'', BS], [BS, BS, CHR ''.'', BS], ''##.#'', ''##?#''}"
  shows "extract_id (pre @ map (\<lambda>c. if c = BS then CHR ''#'' else c) devid @ guid_string g) = devid"
proof -
  let ?m = "map (\<lambda>c. if c = BS then CHR ''#'' else c) devid"
  obtain t where t: "guid_string g = ''#{'' @ t" "\<forall>c \<in> set t. c \<noteq> BS \<and> c \<noteq> CHR ''#'' \<and> c \<noteq> CHR 0x00"
    using guid_string_parts by blast
  have "drop 4 (pre @ ?m @ guid_string g) = ?m @ guid_string g" using pre by auto
  moreover have "str_prefix [BS, BS, CHR ''?'', BS] (pre @ r) \<or> str_prefix [BS, BS, CHR ''.'', BS] (pre @ r) \<or>
      str_prefix ''##.#'' (pre @ r) \<or> str_prefix ''##?#'' (pre @ r)" for r
    using pre by (auto simp: str_prefix_def)
  moreover have "strrpbrk (?m @ guid_string g) [BS, CHR ''#''] = Some (length devid)"
    using strrpbrk_last [of "CHR ''#''" "[BS, CHR ''#'']" "CHR ''{'' # t" ?m] t by simp
  moreover have "Suc (length devid) < length (?m @ guid_string g)" "(?m @ guid_string g) ! Suc (length devid) = CHR ''{''"
    using t(1) by (simp_all add: nth_append)
  moreover have "take (length devid) (?m @ guid_string g) = ?m" by simp
  ultimately have "extract_id (pre @ ?m @ guid_string g) =
      map (\<lambda>c. let c = to_upper c in if c = CHR ''#'' then BS else c) ?m"
    by (simp add: extract_id_def del: map_map)
  also have "\<dots> = devid"
  proof (unfold map_map, rule map_idI)
    fix c assume c: "c \<in> set devid"
    have "to_upper c = c" using assms(1) c map_eq_conv [of to_upper devid "\<lambda>x. x"] by (simp add: canonical_id_def)
    moreover have "c \<noteq> CHR ''#''" using assms(1) c by (auto simp: canonical_id_def)
    ultimately show "((\<lambda>c. let c = to_upper c in if c = CHR ''#'' then BS else c) \<circ> (\<lambda>c. if c = BS then CHR ''#'' else c)) c = c"
      by (simp add: Let_def)
  qed
  finally show ?thesis .
qed

end
