(* ===== verification/SetupWin32.thy ===== *)
theory SetupWin32
  imports PathsWin32 PlatformFeed DeviceWin32
begin

text \<open>
  Model of the first half of \<open>src/monitor_win32.c\<close>: how a device structure is made of a node of the
  Windows device tree, and the enumeration of the classes of devices. The configuration manager,
  SetupAPI and the requests to USB hubs are a record of functions: a call that fails gives its code, or
  nothing where the library does not look at it. The memory the functions allocate for strings
  comes from the outside world, too; \<open>alloc s\<close> is the result of \<open>calloc\<close> for a device.
\<close>

section \<open>The system\<close>

text \<open>
  What the library reads of \<open>USB_NODE_CONNECTION_INFORMATION_EX\<close>: whether a device is connected, and the
  string indices of its device descriptor.
\<close>

record connection =
  cn_connected :: bool
  iManufacturer :: uint8
  iProduct :: uint8
  iSerialNumber :: uint8

datatype hid_string = HidD_GetManufacturerString | HidD_GetProductString | HidD_GetSerialNumberString

type_synonym wide = "uint16 list"

text \<open>
  \<open>CreateFile\<close> gives the handle as it is: the code compares it with null. \<open>su_driver_key_length\<close> and
  \<open>su_driver_key\<close> are the two uses of one request, the second with the size of the buffer.
\<close>

record 'w win32_setup =
  su_os :: "'w win32_os"
  su_malloc :: "'w \<Rightarrow> bool \<times> 'w"
  su_last_error :: "'w \<Rightarrow> werror"
  su_device_id :: "nat \<Rightarrow> nat \<Rightarrow> 'w \<Rightarrow> (nat + string) \<times> 'w"
  su_parent :: "nat \<Rightarrow> 'w \<Rightarrow> (nat + nat) \<times> 'w"
  su_child :: "nat \<Rightarrow> 'w \<Rightarrow> (nat + nat) \<times> 'w"
  su_locate :: "string \<Rightarrow> 'w \<Rightarrow> (nat + nat) \<times> 'w"
  su_location_info :: "nat \<Rightarrow> 'w \<Rightarrow> string option \<times> 'w"
  su_driver :: "nat \<Rightarrow> 'w \<Rightarrow> (nat + string) \<times> 'w"
  su_open_key :: "nat \<Rightarrow> 'w \<Rightarrow> (nat + nat) \<times> 'w"
  su_query_port_name :: "nat \<Rightarrow> 'w \<Rightarrow> (werror \<times> nat + string) \<times> 'w"
  su_close_key :: "nat \<Rightarrow> 'w \<Rightarrow> 'w"
  su_open :: "string \<Rightarrow> 'w \<Rightarrow> nat \<times> 'w"
  su_hub_ports :: "nat \<Rightarrow> 'w \<Rightarrow> uint8 option \<times> 'w"
  su_connection :: "nat \<Rightarrow> uint8 \<Rightarrow> 'w \<Rightarrow> connection option \<times> 'w"
  su_driver_key_length :: "nat \<Rightarrow> uint8 \<Rightarrow> 'w \<Rightarrow> nat option \<times> 'w"
  su_driver_key :: "nat \<Rightarrow> uint8 \<Rightarrow> nat \<Rightarrow> 'w \<Rightarrow> wide option \<times> 'w"
  su_string_descriptor :: "nat \<Rightarrow> uint8 \<Rightarrow> uint16 \<Rightarrow> 'w \<Rightarrow> (werror + uint8 list) \<times> 'w"
  su_hid_string :: "hid_string \<Rightarrow> nat \<Rightarrow> 'w \<Rightarrow> wide option \<times> 'w"
  su_wide_length :: "wide \<Rightarrow> 'w \<Rightarrow> (werror + nat) \<times> 'w"
  su_wide_string :: "wide \<Rightarrow> nat \<Rightarrow> 'w \<Rightarrow> (werror + string) \<times> 'w"
  su_class_devs :: "guid \<Rightarrow> 'w \<Rightarrow> nat \<times> 'w"
  su_enum_device :: "nat \<Rightarrow> uint32 \<Rightarrow> 'w \<Rightarrow> nat option \<times> 'w"
  su_destroy_set :: "nat \<Rightarrow> 'w \<Rightarrow> 'w"
  hid_guid :: guid
  GUID_DEVINTERFACE_USB_DEVICE :: guid
  GUID_DEVINTERFACE_USB_HUB :: guid
  GUID_DEVINTERFACE_USB_HOST_CONTROLLER :: guid

definition MAX_USB_DEPTH :: nat where "MAX_USB_DEPTH = 8"

definition HS_WIN32_VERSION_VISTA :: uint32 where "HS_WIN32_VERSION_VISTA = 600"

text \<open>\<open>0x%lx\<close>\<close>

definition code_text :: "nat \<Rightarrow> string" where
  "code_text cret = ''0x'' @ show_nat 16 cret"

definition close_handle :: "'w win32_setup \<Rightarrow> nat \<Rightarrow> 'w hs_state \<Rightarrow> 'w hs_state" where
  "close_handle U h s = (if h \<noteq> 0 then sys_do (w_close_handle (su_os U) h) s else s)"

section \<open>Strings\<close>

definition build_device_path ::
  "'w win32_setup \<Rightarrow> string \<Rightarrow> guid \<Rightarrow> 'w hs_state \<Rightarrow> (int \<times> string option \<times> 'w hs_state) option" where
  "build_device_path U devid guid s =
     (case sys (su_malloc U) s of
        (False, s) \<Rightarrow> (let (r, s) = fail_with HS_ERROR_MEMORY None s in Some (r, None, s))
      | (True, s) \<Rightarrow> do {
          path \<leftarrow> device_path devid guid;
          Some (0, Some path, s)
        })"

definition build_location_string ::
  "'w win32_setup \<Rightarrow> uint8 list \<Rightarrow> nat \<Rightarrow> 'w hs_state \<Rightarrow> (int \<times> string option \<times> 'w hs_state) option" where
  "build_location_string U ports depth s = do {
     buf \<leftarrow> location_string ports depth;
     case sys (su_malloc U) s of
       (False, s) \<Rightarrow> (let (r, s) = fail_with HS_ERROR_MEMORY None s in Some (r, None, s))
     | (True, s) \<Rightarrow> Some (0, Some buf, s)
   }"

text \<open>The conversion stops at the first null character of the copy.\<close>

definition wide_error :: "'w win32_setup \<Rightarrow> werror \<Rightarrow> 'w hs_state \<Rightarrow> int \<times> string option \<times> 'w hs_state" where
  "wide_error U e s =
     (let (r, s) = fail_with HS_ERROR_SYSTEM
        (Some (''Failed to convert UTF-16 string to local codepage: '' @ hs_win32_strerror (su_os U) e)) s in (r, None, s))"

definition wide_to_cstring ::
  "'w win32_setup \<Rightarrow> wide \<Rightarrow> 'w hs_state \<Rightarrow> int \<times> string option \<times> 'w hs_state" where
  "wide_to_cstring U wide s =
     (case sys (su_malloc U) s of
        (False, s) \<Rightarrow> (let (r, s) = fail_with HS_ERROR_MEMORY None s in (r, None, s))
      | (True, s) \<Rightarrow>
          (let tmp = takeWhile (\<lambda>c. c \<noteq> 0) wide in
           case sys (su_wide_length U tmp) s of
             (Inl e, s) \<Rightarrow> wide_error U e s
           | (Inr len, s) \<Rightarrow>
               (case sys (su_malloc U) s of
                  (False, s) \<Rightarrow> (let (r, s) = fail_with HS_ERROR_MEMORY None s in (r, None, s))
                | (True, s) \<Rightarrow>
                    (case sys (su_wide_string U tmp len) s of
                       (Inl e, s) \<Rightarrow> wide_error U e s
                     | (Inr str, s) \<Rightarrow> (0, Some str, s)))))"

section \<open>Ports\<close>

definition find_device_port_vista :: "'w win32_setup \<Rightarrow> nat \<Rightarrow> 'w hs_state \<Rightarrow> uint8 \<times> 'w hs_state" where
  "find_device_port_vista U inst s =
     (case sys (su_location_info U inst) s of
        (None, s) \<Rightarrow> (0, log_msg HS_LOG_DEBUG ''No location information on this device node'' s)
      | (Some buf, s) \<Rightarrow> (vista_port buf, s))"

definition get_port_driverkey ::
  "'w win32_setup \<Rightarrow> nat \<Rightarrow> uint8 \<Rightarrow> 'w hs_state \<Rightarrow> int \<times> string option \<times> 'w hs_state" where
  "get_port_driverkey U hub port s =
     (case sys (su_malloc U) s of
        (False, s) \<Rightarrow> (let (r, s) = fail_with HS_ERROR_MEMORY None s in (r, None, s))
      | (True, s) \<Rightarrow>
          (case sys (su_connection U hub port) s of
             (None, s) \<Rightarrow> (0, None, warn ''DeviceIoControl(IOCTL_USB_GET_NODE_CONNECTION_INFORMATION_EX) failed'' s)
           | (Some node, s) \<Rightarrow>
               if \<not> cn_connected node then (0, None, s)
               else
                 (case sys (su_driver_key_length U hub port) s of
                    (None, s) \<Rightarrow> (0, None, warn ''DeviceIoControl(IOCTL_USB_GET_NODE_CONNECTION_DRIVERKEY_NAME) failed'' s)
                  | (Some len, s) \<Rightarrow>
                      (case sys (su_malloc U) s of
                         (False, s) \<Rightarrow> (let (r, s) = fail_with HS_ERROR_MEMORY None s in (r, None, s))
                       | (True, s) \<Rightarrow>
                           (case sys (su_driver_key U hub port len) s of
                              (None, s) \<Rightarrow>
                                (0, None, warn ''DeviceIoControl(IOCTL_USB_GET_NODE_CONNECTION_DRIVERKEY_NAME) failed'' s)
                            | (Some wide, s) \<Rightarrow>
                                (let (r, key, s) = wide_to_cstring U wide s in
                                 if r < 0 then (r, None, s) else (1, key, s)))))))"

text \<open>
  The loop over the ports of a hub; \<open>r\<close> is the value of the variable, which keeps the result of the last
  port when none matches.
\<close>

partial_function (option) xp_ports ::
  "'w win32_setup \<Rightarrow> nat \<Rightarrow> string \<Rightarrow> uint8 \<Rightarrow> uint8 \<Rightarrow> int \<Rightarrow> 'w hs_state \<Rightarrow> (int \<times> 'w hs_state) option" where
  "xp_ports U h child_key count port r s =
     (if port \<le> count
      then (let (r, key, s) = get_port_driverkey U h port s in
            if r < 0 then Some (r, s)
            else if r = 0 then xp_ports U h child_key count (port + 1) r s
            else if key = Some child_key then Some (uint port, s)
            else xp_ports U h child_key count (port + 1) r s)
      else Some (r, s))"

definition find_device_port_xp ::
  "'w win32_setup \<Rightarrow> string \<Rightarrow> string \<Rightarrow> 'w hs_state \<Rightarrow> (int \<times> 'w hs_state) option" where
  "find_device_port_xp U hub_id child_key s = do {
     (r, path, s) \<leftarrow> build_device_path U hub_id (GUID_DEVINTERFACE_USB_HUB U) s;
     if r < 0 then Some (r, s)
     else do {
       path \<leftarrow> path;
       let (h, s) = sys (su_open U path) s;
       if h = 0
       then Some (fail_with HS_ERROR_SYSTEM (Some (''Failed to open USB hub '' @ sq path @ '': '' @
              hs_win32_strerror (su_os U) (su_last_error U (ext s)))) s)
       else do {
         let s = log_msg HS_LOG_DEBUG (''Asking HUB at '' @ sq path @ '' for port information (XP code path)'') s;
         (r, s) \<leftarrow>
           (case sys (su_hub_ports U h) s of
              (None, s) \<Rightarrow> Some (0, warn ''DeviceIoControl(IOCTL_USB_GET_NODE_INFORMATION) failed'' s)
            | (Some count, s) \<Rightarrow> xp_ports U h child_key count 1 r s);
         Some (r, close_handle U h s)
       }
     }
   }"

section \<open>Locations\<close>

text \<open>The way from a device up to its USB node: the node, its parent and its identifier.\<close>

partial_function (option) skip_to_usb ::
  "'w win32_setup \<Rightarrow> nat \<Rightarrow> 'w hs_state \<Rightarrow> ((nat \<times> nat \<times> string) option \<times> 'w hs_state) option" where
  "skip_to_usb U inst s =
     (case sys (su_device_id U inst 256) s of
        (Inl cret, s) \<Rightarrow> Some (None, warn (''CM_Get_Device_ID() failed: '' @ code_text cret) s)
      | (Inr devid, s) \<Rightarrow>
          (let s = log_msg HS_LOG_DEBUG (''Going through device parents to find USB node: '' @ sq devid) s in
           case sys (su_parent U inst) s of
             (Inl cret, s) \<Rightarrow> Some (None, s)
           | (Inr parent, s) \<Rightarrow>
               if str_prefix (''USB'' @ [BS]) devid then Some (Some (inst, parent, devid), s)
               else skip_to_usb U parent s))"

text \<open>The port of one node of the way; a negative result of the older method is passed on.\<close>

definition find_device_port ::
  "'w win32_setup \<Rightarrow> nat \<Rightarrow> string \<Rightarrow> 'w hs_state \<Rightarrow> (int option \<times> 'w hs_state) option" where
  "find_device_port U inst devid s =
     (if hs_win32_version (su_os U) \<ge> HS_WIN32_VERSION_VISTA
      then (let (r, s) = find_device_port_vista U inst s in Some (Some (uint r), s))
      else
        (case sys (su_driver U inst) s of
           (Inl cret, s) \<Rightarrow> Some (None, warn (''Failed to get device driver key: '' @ code_text cret) s)
         | (Inr child_key, s) \<Rightarrow> do {
             (r, s) \<leftarrow> find_device_port_xp U devid child_key s;
             Some (Some r, s)
           }))"

text \<open>
  The rounds of the second loop; \<open>devid\<close> is the contents of the buffer \<open>id\<close>. The result is the value
  returned early, or the depth reached, with the array and whether the loop was left normally.
\<close>

partial_function (option) resolve_rounds ::
  "'w win32_setup \<Rightarrow> controllers \<Rightarrow> nat \<Rightarrow> nat \<Rightarrow> string \<Rightarrow> uint8 list \<Rightarrow> nat \<Rightarrow> 'w hs_state
     \<Rightarrow> ((int + nat) \<times> uint8 list \<times> 'w hs_state) option" where
  "resolve_rounds U cs inst parent devid ports depth s =
     (let s = log_msg HS_LOG_DEBUG (''Going through device parents to resolve USB location: '' @ sq devid) s in
      if depth = MAX_USB_DEPTH
      then Some (Inl 0, ports, warn ''Excessive USB location depth, ignoring device'' s)
      else
        (case sys (su_device_id U parent 256) s of
           (Inl cret, s) \<Rightarrow> Some (Inl 0, ports, warn (''CM_Get_Device_ID() failed: '' @ code_text cret) s)
         | (Inr devid, s) \<Rightarrow> do {
             (res, s) \<leftarrow> find_device_port U inst devid s;
             case res of
               None \<Rightarrow> Some (Inl 0, ports, s)
             | Some r \<Rightarrow>
                 if r < 0 then Some (Inl r, ports, s)
                 else do {
                   (ports, depth, s) \<leftarrow>
                     (if r \<noteq> 0 then do {
                        ports \<leftarrow> arr_set ports depth (word_of_int r);
                        Some (ports, depth + 1, log_msg HS_LOG_DEBUG (''Found port number: '' @ show_nat 10 (nat r)) s)
                      }
                      else Some (ports, depth, s));
                   if strstr (BS # ''ROOT_HUB'') devid \<noteq> None then
                     if depth = 0 then Some (Inl 0, ports, s)
                     else do {
                       let index = find_controller devid cs;
                       ports \<leftarrow> arr_set ports depth index;
                       if index = 0
                       then Some (Inl 0, ports, warn (''Unknown USB host controller '' @ sq devid) s)
                       else Some (Inr (depth + 1), ports, s)
                     }
                   else
                     (case sys (su_parent U parent) s of
                        (Inl cret, s) \<Rightarrow> Some (Inr depth, ports, s)
                      | (Inr grandparent, s) \<Rightarrow> resolve_rounds U cs parent grandparent devid ports depth s)
                 }
           }))"

definition resolve_device_location ::
  "'w win32_setup \<Rightarrow> controllers \<Rightarrow> nat \<Rightarrow> uint8 list \<Rightarrow> 'w hs_state \<Rightarrow> (int \<times> uint8 list \<times> 'w hs_state) option" where
  "resolve_device_location U cs inst ports s = do {
     (usb, s) \<leftarrow> skip_to_usb U inst s;
     case usb of
       None \<Rightarrow> Some (0, ports, s)
     | Some (inst, parent, devid) \<Rightarrow> do {
         (res, ports, s) \<leftarrow> resolve_rounds U cs inst parent devid ports 0 s;
         case res of
           Inl r \<Rightarrow> Some (r, ports, s)
         | Inr depth \<Rightarrow> Some (int depth, swap_ports ports depth, s)
       }
   }"

section \<open>Descriptions\<close>

text \<open>One use of \<open>READ_HID_PROPERTY\<close>; the buffer has 256 characters, the last of which is set to null.\<close>

definition read_hid_property ::
  "'w win32_setup \<Rightarrow> nat \<Rightarrow> uint8 \<Rightarrow> hid_string \<Rightarrow> string \<Rightarrow> (string option \<Rightarrow> hs_device \<Rightarrow> hs_device) \<Rightarrow> hs_device
     \<Rightarrow> 'w hs_state \<Rightarrow> int \<times> hs_device \<times> 'w hs_state" where
  "read_hid_property U h index func name upd d s =
     (if index = 0 then (0, d, s)
      else
        (case sys (su_hid_string U func h) s of
           (None, s) \<Rightarrow> (0, d, warn (''Function '' @ name @ ''() failed despite non-zero string index'') s)
         | (Some wbuf, s) \<Rightarrow>
             (let (r, str, s) = wide_to_cstring U (takeWhile (\<lambda>c. c \<noteq> 0) (take 255 wbuf)) s in
              if r < 0 then (r, d, s) else (0, upd str d, s))))"

definition read_hid_strings ::
  "'w win32_setup \<Rightarrow> nat \<Rightarrow> connection \<Rightarrow> hs_device \<Rightarrow> 'w hs_state \<Rightarrow> int \<times> hs_device \<times> 'w hs_state" where
  "read_hid_strings U h desc d s =
     (let (r, d, s) = read_hid_property U h (iManufacturer desc) HidD_GetManufacturerString
                        ''HidD_GetManufacturerString'' (\<lambda>x d. d\<lparr>d_manufacturer := x\<rparr>) d s in
      if r < 0 then (r, d, s)
      else
        (let (r, d, s) = read_hid_property U h (iProduct desc) HidD_GetProductString
                           ''HidD_GetProductString'' (\<lambda>x d. d\<lparr>d_product := x\<rparr>) d s in
         if r < 0 then (r, d, s)
         else
           (let (r, d, s) = read_hid_property U h (iSerialNumber desc) HidD_GetSerialNumberString
                              ''HidD_GetSerialNumberString'' (\<lambda>x d. d\<lparr>d_serial := x\<rparr>) d s in
            if r < 0 then (r, d, s) else (1, d, s))))"

definition read_hid_properties ::
  "'w win32_setup \<Rightarrow> hs_device \<Rightarrow> connection \<Rightarrow> 'w hs_state \<Rightarrow> (int \<times> hs_device \<times> 'w hs_state) option" where
  "read_hid_properties U d desc s = do {
     path \<leftarrow> d_path d;
     let (h, s) = sys (su_open U path) s;
     if h = 0
     then Some (0, d, warn (''Cannot open HID device '' @ sq path @ '': '' @
            hs_win32_strerror (su_os U) (su_last_error U (ext s))) s)
     else do {
       let (r, d, s) = read_hid_strings U h desc d s;
       Some (r, d, close_handle U h s)
     }
   }"

text \<open>
  The answer to the request is the bytes of the string descriptor; they follow the 12 bytes of the
  request in the structure, which is zero behind them. The code converts the characters with one
  null character behind them.
\<close>

fun wide_chars :: "uint8 list \<Rightarrow> wide" where
  "wide_chars (lo # hi # bs) = (ucast lo + ucast hi * 256) # wide_chars bs"
| "wide_chars bs = []"

definition get_string_descriptor ::
  "'w win32_setup \<Rightarrow> nat \<Rightarrow> uint8 \<Rightarrow> uint8 \<Rightarrow> 'w hs_state \<Rightarrow> int \<times> string option \<times> 'w hs_state" where
  "get_string_descriptor U h port index s =
     (case sys (su_string_descriptor U h port (3 * 256 + ucast index)) s of
        (Inl e, s) \<Rightarrow>
          (0, None, warn (''DeviceIoControl(IOCTL_USB_GET_DESCRIPTOR_FROM_NODE_CONNECTION) failed: '' @
             hs_win32_strerror (su_os U) e) s)
      | (Inr desc, s) \<Rightarrow>
          if length desc < 2 \<or> desc ! 1 \<noteq> 3 \<or> unat (desc ! 0) \<noteq> length desc \<or> unat (desc ! 0) mod 2 \<noteq> 0
          then (0, None, warn ''Malformed or corrupt string descriptor'' s)
          else
            (let (r, str, s) = wide_to_cstring U (wide_chars (drop 2 desc) @ [0]) s in
             if r < 0 then (r, None, s) else (0, str, s)))"

definition read_string_property ::
  "'w win32_setup \<Rightarrow> nat \<Rightarrow> uint8 \<Rightarrow> uint8 \<Rightarrow> (string option \<Rightarrow> hs_device \<Rightarrow> hs_device) \<Rightarrow> hs_device
     \<Rightarrow> 'w hs_state \<Rightarrow> int \<times> hs_device \<times> 'w hs_state" where
  "read_string_property U h port index upd d s =
     (if index = 0 then (0, d, s)
      else
        (let (r, str, s) = get_string_descriptor U h port index s in
         if r < 0 then (r, d, s) else (0, (case str of None \<Rightarrow> d | Some x \<Rightarrow> upd str d), s)))"

definition read_string_properties ::
  "'w win32_setup \<Rightarrow> nat \<Rightarrow> uint8 \<Rightarrow> connection \<Rightarrow> hs_device \<Rightarrow> 'w hs_state \<Rightarrow> int \<times> hs_device \<times> 'w hs_state" where
  "read_string_properties U h port desc d s =
     (let (r, d, s) = read_string_property U h port (iManufacturer desc) (\<lambda>x d. d\<lparr>d_manufacturer := x\<rparr>) d s in
      if r < 0 then (r, d, s)
      else
        (let (r, d, s) = read_string_property U h port (iProduct desc) (\<lambda>x d. d\<lparr>d_product := x\<rparr>) d s in
         if r < 0 then (r, d, s)
         else
           (let (r, d, s) = read_string_property U h port (iSerialNumber desc) (\<lambda>x d. d\<lparr>d_serial := x\<rparr>) d s in
            if r < 0 then (r, d, s) else (1, d, s))))"

text \<open>The loop that looks for the USB node of a device; without one the device is ignored.\<close>

partial_function (option) find_usb_node ::
  "'w win32_setup \<Rightarrow> nat \<Rightarrow> 'w hs_state \<Rightarrow> ((nat \<times> string) option \<times> 'w hs_state) option" where
  "find_usb_node U inst s =
     (case sys (su_device_id U inst 256) s of
        (Inl cret, s) \<Rightarrow> Some (None, warn (''CM_Get_Device_ID() failed: '' @ code_text cret) s)
      | (Inr buf, s) \<Rightarrow>
          if str_prefix (''USB'' @ [BS]) buf then Some (Some (inst, buf), s)
          else
            (case sys (su_parent U inst) s of
               (Inl cret, s) \<Rightarrow> Some (None, warn (''CM_Get_Parent() failed: '' @ code_text cret) s)
             | (Inr parent, s) \<Rightarrow> find_usb_node U parent s))"

text \<open>The identifier of the hub: one node up, or two from the interface of a composite device.\<close>

definition find_hub :: "'w win32_setup \<Rightarrow> nat \<Rightarrow> bool \<Rightarrow> 'w hs_state \<Rightarrow> string option \<times> 'w hs_state" where
  "find_hub U inst composite s =
     (let (res, s) = (if composite then sys (su_parent U inst) s else (Inr inst, s)) in
      case res of
        Inl cret \<Rightarrow> (None, warn (''CM_Get_Parent() failed: '' @ code_text cret) s)
      | Inr inst \<Rightarrow>
          (case sys (su_parent U inst) s of
             (Inl cret, s) \<Rightarrow> (None, warn (''CM_Get_Parent() failed: '' @ code_text cret) s)
           | (Inr inst, s) \<Rightarrow>
               (case sys (su_device_id U inst 256) s of
                  (Inl cret, s) \<Rightarrow> (None, warn (''CM_Get_Device_ID() failed: '' @ code_text cret) s)
                | (Inr buf, s) \<Rightarrow> (Some buf, s))))"

text \<open>The part that asks the hub, whose handle is \<open>h\<close>.\<close>

definition ask_hub ::
  "'w win32_setup \<Rightarrow> nat \<Rightarrow> string \<Rightarrow> hs_device \<Rightarrow> uint8 \<Rightarrow> 'w hs_state \<Rightarrow> (int \<times> hs_device \<times> 'w hs_state) option" where
  "ask_hub U h path d port s =
     (case sys (su_malloc U) s of
        (False, s) \<Rightarrow> (let (r, s) = fail_with HS_ERROR_MEMORY None s in Some (r, d, s))
      | (True, s) \<Rightarrow>
          (case sys (su_connection U h port) s of
             (None, s) \<Rightarrow> do {
               key \<leftarrow> d_key d;
               Some (1, d, warn (''Failed to interrogate hub device at '' @ sq path @ '' for device '' @ sq key) s)
             }
           | (Some node, s) \<Rightarrow>
               if d_type d = HS_DEVICE_TYPE_HID then read_hid_properties U d node s
               else Some (read_string_properties U h port node d s)))"

definition hub_properties ::
  "'w win32_setup \<Rightarrow> string \<Rightarrow> hs_device \<Rightarrow> uint8 \<Rightarrow> 'w hs_state \<Rightarrow> (int \<times> hs_device \<times> 'w hs_state) option" where
  "hub_properties U buf d port s = do {
     (r, path, s) \<leftarrow> build_device_path U buf (GUID_DEVINTERFACE_USB_HUB U) s;
     if r < 0 then Some (r, d, s)
     else do {
       path \<leftarrow> path;
       let (h, s) = sys (su_open U path) s;
       if h = 0 then do {
         key \<leftarrow> d_key d;
         Some (1, d, warn (''Cannot open parent hub device at '' @ sq path @ '', ignoring device properties for '' @ sq key) s)
       }
       else do {
         (r, d, s) \<leftarrow> ask_hub U h path d port s;
         Some (r, d, close_handle U h s)
       }
     }
   }"

definition read_device_properties ::
  "'w win32_setup \<Rightarrow> hs_device \<Rightarrow> nat \<Rightarrow> uint8 \<Rightarrow> 'w hs_state \<Rightarrow> (int \<times> hs_device \<times> 'w hs_state) option" where
  "read_device_properties U d inst port s = do {
     (node, s) \<leftarrow> find_usb_node U inst s;
     case node of
       None \<Rightarrow> Some (0, d, s)
     | Some (inst, buf) \<Rightarrow> do {
         let (r, vid, pid, mi) = scan_usb_id buf;
         let d = d\<lparr>d_iface := mi, d_vid := (if r \<ge> 1 then vid else d_vid d), d_pid := (if r \<ge> 2 then pid else d_pid d)\<rparr>;
         if r < 2 then Some (0, d, warn (''Failed to parse USB properties from '' @ sq buf) s)
         else
           (case find_hub U inst (r = 3) s of
              (None, s) \<Rightarrow> Some (0, d, s)
            | (Some hub, s) \<Rightarrow> hub_properties U hub d port s)
       }
   }"

text \<open>The port name of a serial device, from the registry.\<close>

definition get_device_comport :: "'w win32_setup \<Rightarrow> nat \<Rightarrow> 'w hs_state \<Rightarrow> int \<times> string option \<times> 'w hs_state" where
  "get_device_comport U inst s =
     (case sys (su_open_key U inst) s of
        (Inl cret, s) \<Rightarrow> (0, None, warn (''CM_Open_DevNode_Key() failed: 0x'' @ show_nat 10 cret) s)
      | (Inr key, s) \<Rightarrow>
          (let (res, s) = sys (su_query_port_name U key) s; s = sys_do (su_close_key U key) s in
           case res of
             Inl (e, code) \<Rightarrow>
               (0, None, if e \<noteq> ERROR_FILE_NOT_FOUND then warn (''RegQueryValue() failed: '' @ show_nat 10 code) s else s)
           | Inr buf \<Rightarrow>
               (case sys (su_malloc U) s of
                  (False, s) \<Rightarrow> (let (r, s) = fail_with HS_ERROR_MEMORY None s in (r, None, s))
                | (True, s) \<Rightarrow> (1, Some ([BS, BS, CHR ''.'', BS] @ buf), s))))"

definition find_device_node ::
  "'w win32_setup \<Rightarrow> nat \<Rightarrow> hs_device \<Rightarrow> 'w hs_state \<Rightarrow> (int \<times> hs_device \<times> 'w hs_state) option" where
  "find_device_node U inst d s = do {
     key \<leftarrow> d_key d;
     if str_prefix (''USB'' @ [BS]) key
     then
       (let (r, path, s) = get_device_comport U inst s in
        if r = 0
        then Some (0, d, log_msg HS_LOG_DEBUG (''Device '' @ sq key @ '' has no '' @ sq ''PortName'' @ '' registry property'') s)
        else if r < 0 then Some (r, d, s)
        else Some (1, d\<lparr>d_path := path, d_type := HS_DEVICE_TYPE_SERIAL\<rparr>, s))
     else if str_prefix (''HID'' @ [BS]) key
     then do {
       (r, path, s) \<leftarrow> build_device_path U key (hid_guid U) s;
       if r < 0 then Some (r, d, s) else Some (1, d\<lparr>d_path := path, d_type := HS_DEVICE_TYPE_HID\<rparr>, s)
     }
     else Some (0, d, log_msg HS_LOG_DEBUG (''Unknown device type for '' @ sq key) s)
   }"

text \<open>The key: the identifier given, or that of the node.\<close>

definition device_key ::
  "'w win32_setup \<Rightarrow> nat \<Rightarrow> string option \<Rightarrow> 'w hs_state \<Rightarrow> int \<times> string option \<times> 'w hs_state" where
  "device_key U inst devid s =
     (let (res, s) = (case devid of Some str \<Rightarrow> (Inr str, s) | None \<Rightarrow> sys (su_device_id U inst 256) s) in
      case res of
        Inl cret \<Rightarrow> (0, None, warn (''CM_Get_Device_ID() failed: '' @ code_text cret) s)
      | Inr buf \<Rightarrow>
          (case sys (su_malloc U) s of
             (False, s) \<Rightarrow> (let (r, s) = fail_with HS_ERROR_MEMORY None s in (r, None, s))
           | (True, s) \<Rightarrow> (1, Some buf, s)))"

text \<open>What fills the device structure once it has a key; the result is positive when it is complete.\<close>

definition fill_device ::
  "'w win32_setup \<Rightarrow> controllers \<Rightarrow> nat \<Rightarrow> hs_device \<Rightarrow> 'w hs_state \<Rightarrow> (int \<times> hs_device \<times> 'w hs_state) option" where
  "fill_device U cs inst d s = do {
     key \<leftarrow> d_key d;
     if other_collection key
     then Some (0, d, log_msg HS_LOG_DEBUG (''Ignoring duplicate HID collection device '' @ sq key) s)
     else do {
       let s = log_msg HS_LOG_DEBUG (''Examining device node '' @ sq key) s;
       (r, d, s) \<leftarrow> find_device_node U inst d s;
       if r \<le> 0 then Some (r, d, s)
       else do {
         (r, ports, s) \<leftarrow> resolve_device_location U cs inst (replicate MAX_USB_DEPTH 0) s;
         if r \<le> 0 then Some (r, d, s)
         else do {
           let depth = nat r;
           port \<leftarrow> buf_read ports (depth - 1);
           (r, d, s) \<leftarrow> read_device_properties U d inst port s;
           if r \<le> 0 then Some (r, d, s)
           else do {
             (r, location, s) \<leftarrow> build_location_string U ports depth s;
             if r < 0 then Some (r, d, s)
             else Some (1, d\<lparr>d_location := location, d_vtable := Hs_win32_device_vtable\<rparr>, s)
           }
         }
       }
     }
   }"

text \<open>As on Linux, the structure enters the store filled; without a result it is dropped again.\<close>

definition process_win32_device ::
  "'w win32_setup \<Rightarrow> ('w hs_state \<Rightarrow> addr) \<Rightarrow> controllers \<Rightarrow> nat \<Rightarrow> string option \<Rightarrow> 'w hs_state
     \<Rightarrow> (int \<times> addr \<times> 'w hs_state) option" where
  "process_win32_device U alloc cs inst devid s =
     (if alloc s = NULL then (let (r, s) = fail_with HS_ERROR_MEMORY None s in Some (r, NULL, s))
      else do {
        let p = alloc s;
        let (r, key, s) = device_key U inst devid s;
        let d = zero_device\<lparr>refcount := 1, d_key := key\<rparr>;
        (r, d, s) \<leftarrow> (if r \<le> 0 then Some (r, d, s) else fill_device U cs inst d s);
        let s = device_alloc p d s;
        if r \<le> 0 then do { s \<leftarrow> hs_device_unref p s; Some (r, NULL, s) }
        else Some (1, p, s)
      })"

section \<open>Enumeration\<close>

definition add_controller ::
  "'w win32_setup \<Rightarrow> nat \<Rightarrow> uint8 \<Rightarrow> controllers \<Rightarrow> 'w hs_state \<Rightarrow> int \<times> controllers \<times> 'w hs_state" where
  "add_controller U inst index cs s =
     (case sys (su_child U inst) s of
        (Inl cret, s) \<Rightarrow> (0, cs, warn ''Found USB Host controller without a root hub'' s)
      | (Inr roothub_inst, s) \<Rightarrow>
          (case sys (su_device_id U roothub_inst 512) s of
             (Inl cret, s) \<Rightarrow> (0, cs, warn (''CM_Get_Device_ID() failed: '' @ code_text cret) s)
           | (Inr roothub_id, s) \<Rightarrow>
               if strstr (BS # ''ROOT_HUB'') roothub_id = None
               then (0, cs, warn (''Unsupported root HUB at '' @ sq roothub_id) s)
               else
                 (case sys (su_malloc U) s of
                    (False, s) \<Rightarrow> (let (r, s) = fail_with HS_ERROR_MEMORY None s in (r, cs, s))
                  | (True, s) \<Rightarrow>
                      (1, cs @ [(roothub_id, index)],
                       log_msg HS_LOG_DEBUG (''Found USB root hub '' @ sq roothub_id @ '' with ID '' @ show_nat 10 (unat index)) s))))"

partial_function (option) controllers_loop ::
  "'w win32_setup \<Rightarrow> nat \<Rightarrow> uint32 \<Rightarrow> controllers \<Rightarrow> 'w hs_state \<Rightarrow> (int \<times> controllers \<times> 'w hs_state) option" where
  "controllers_loop U dset i cs s =
     (case sys (su_enum_device U dset i) s of
        (None, s) \<Rightarrow> Some (0, cs, s)
      | (Some inst, s) \<Rightarrow>
          if i + 1 = 255 then Some (0, cs, warn ''Reached maximum controller ID 255, ignoring'' s)
          else
            (let (r, cs, s) = add_controller U inst (ucast (i + 1)) cs s in
             if r < 0 then Some (r, cs, s) else controllers_loop U dset (i + 1) cs s))"

definition class_devs_error :: "'w win32_setup \<Rightarrow> 'w hs_state \<Rightarrow> int \<times> 'w hs_state" where
  "class_devs_error U s = fail_with HS_ERROR_SYSTEM
     (Some (''SetupDiGetClassDevs() failed: '' @ hs_win32_strerror (su_os U) (su_last_error U (ext s)))) s"

text \<open>The lock makes the function atomic.\<close>

definition populate_controllers ::
  "'w win32_setup \<Rightarrow> controllers \<Rightarrow> 'w hs_state \<Rightarrow> (int \<times> controllers \<times> 'w hs_state) option" where
  "populate_controllers U cs s =
     (if cs \<noteq> [] then Some (0, cs, s)
      else do {
        let (dset, s) = sys (su_class_devs U (GUID_DEVINTERFACE_USB_HOST_CONTROLLER U)) s;
        if dset = 0 then (let (r, s) = class_devs_error U s in Some (r, cs, s))
        else do {
          (r, cs, s) \<leftarrow> controllers_loop U dset 0 cs s;
          Some (r, cs, sys_do (su_destroy_set U dset) s)
        }
      })"

text \<open>The devices of one class; \<open>f\<close> is the callback with its user data.\<close>

partial_function (option) class_loop ::
  "'w win32_setup \<Rightarrow> ('w hs_state \<Rightarrow> addr) \<Rightarrow> controllers \<Rightarrow> (addr \<Rightarrow> 'w hs_state \<Rightarrow> (int \<times> 'w hs_state) option)
     \<Rightarrow> nat \<Rightarrow> uint32 \<Rightarrow> 'w hs_state \<Rightarrow> (int \<times> 'w hs_state) option" where
  "class_loop U alloc cs f dset i s =
     (case sys (su_enum_device U dset i) s of
        (None, s) \<Rightarrow> Some (0, s)
      | (Some inst, s) \<Rightarrow> do {
          (r, dev, s) \<leftarrow> process_win32_device U alloc cs inst None s;
          if r < 0 then Some (r, s)
          else if r = 0 then class_loop U alloc cs f dset (i + 1) s
          else do {
            (r, s) \<leftarrow> f dev s;
            s \<leftarrow> hs_device_unref dev s;
            if r \<noteq> 0 then Some (r, s) else class_loop U alloc cs f dset (i + 1) s
          }
        })"

definition enumerate_class ::
  "'w win32_setup \<Rightarrow> ('w hs_state \<Rightarrow> addr) \<Rightarrow> controllers \<Rightarrow> guid \<Rightarrow> (addr \<Rightarrow> 'w hs_state \<Rightarrow> (int \<times> 'w hs_state) option)
     \<Rightarrow> 'w hs_state \<Rightarrow> (int \<times> 'w hs_state) option" where
  "enumerate_class U alloc cs guid f s = do {
     let (dset, s) = sys (su_class_devs U guid) s;
     if dset = 0 then Some (class_devs_error U s)
     else do {
       (r, s) \<leftarrow> class_loop U alloc cs f dset 0 s;
       Some (r, sys_do (su_destroy_set U dset) s)
     }
   }"

definition device_classes :: "'w win32_setup \<Rightarrow> guid list" where
  "device_classes U = [GUID_DEVINTERFACE_USB_DEVICE U, hid_guid U]"

fun enumerate_classes ::
  "'w win32_setup \<Rightarrow> ('w hs_state \<Rightarrow> addr) \<Rightarrow> controllers \<Rightarrow> guid list \<Rightarrow> (addr \<Rightarrow> 'w hs_state \<Rightarrow> (int \<times> 'w hs_state) option)
     \<Rightarrow> 'w hs_state \<Rightarrow> (int \<times> 'w hs_state) option" where
  "enumerate_classes U alloc cs [] f s = Some (0, s)"
| "enumerate_classes U alloc cs (guid # rest) f s = do {
     (r, s) \<leftarrow> enumerate_class U alloc cs guid f s;
     if r \<noteq> 0 then Some (r, s) else enumerate_classes U alloc cs rest f s
   }"

definition hs_enumerate_win32 ::
  "'w win32_setup \<Rightarrow> ('w hs_state \<Rightarrow> addr) \<Rightarrow> (addr \<Rightarrow> 'w hs_state \<Rightarrow> (int \<times> 'w hs_state) option) \<Rightarrow> controllers
     \<Rightarrow> 'w hs_state \<Rightarrow> (int \<times> controllers \<times> 'w hs_state) option" where
  "hs_enumerate_win32 U alloc f cs s = do {
     (r, cs, s) \<leftarrow> populate_controllers U cs s;
     if r < 0 then Some (r, cs, s)
     else do {
       (r, s) \<leftarrow> enumerate_classes U alloc cs (device_classes U) f s;
       Some (r, cs, s)
     }
   }"

end
