(* ===== verification/MonitorWin32.thy ===== *)
theory MonitorWin32
  imports SetupWin32
begin

text \<open>
  Model of the second half of \<open>src/monitor_win32.c\<close>: the background thread that receives window
  messages and queues notifications, and the monitor that works them off.

  A notification is a node of the intrusive lists of \<open>ListHead\<close>; the lists of notifications have a store
  of their own, in which the head of a monitor's queue has the address of the monitor. The sections
  between \<open>EnterCriticalSection\<close> and \<open>LeaveCriticalSection\<close> are single steps. What the background
  thread does between two such steps of the caller is a list of window messages, an argument of
  the caller's function; it touches only the queue, the returned code and the event of the monitor,
  which the caller touches in its critical sections alone.
\<close>

section \<open>State\<close>

datatype device_event = DEVICE_EVENT_ADDED | DEVICE_EVENT_REMOVED

record device_notification =
  dn_event :: device_event
  dn_key :: string

text \<open>The fields of \<open>struct hs_monitor\<close> that are particular to Windows.\<close>

record win32_monitor =
  wm_ret :: int
  wm_event :: nat
  wm_thread :: nat
  wm_hwnd :: nat

record win32_vars =
  wv_controllers :: controllers
  wv_lists :: list_mem
  wv_notes :: "addr \<rightharpoonup> device_notification"
  wv_mons :: "addr \<rightharpoonup> win32_monitor"

type_synonym 'w win32_state = "win32_vars \<times> 'w hs_state"

section \<open>Windows\<close>

text \<open>
  What the thread receives: the messages of \<open>WM_DEVICECHANGE\<close> it reacts to, with the name of the device
  interface, \<open>WM_CLOSE\<close>, and every other message.
\<close>

datatype window_msg = DBT_DEVICEARRIVAL string | DBT_DEVICEREMOVECOMPLETE string | WM_CLOSE | Other_message

record 'w win32_window =
  ww_setup :: "'w win32_setup"
  ww_set_event :: "nat \<Rightarrow> 'w \<Rightarrow> 'w"
  ww_reset_event :: "nat \<Rightarrow> 'w \<Rightarrow> 'w"
  ww_wait :: "nat \<Rightarrow> 'w \<Rightarrow> uint32 \<times> 'w"
  ww_begin_thread :: "'w \<Rightarrow> nat \<times> 'w"
  ww_register_class :: "'w \<Rightarrow> bool \<times> 'w"
  ww_create_window :: "'w \<Rightarrow> nat \<times> 'w"
  ww_set_user_data :: "nat \<Rightarrow> 'w \<Rightarrow> bool \<times> 'w"
  ww_register_notify :: "nat \<Rightarrow> 'w \<Rightarrow> nat \<times> 'w"
  ww_unregister_notify :: "nat \<Rightarrow> 'w \<Rightarrow> 'w"
  ww_destroy_window :: "nat \<Rightarrow> 'w \<Rightarrow> 'w"
  ww_unregister_class :: "'w \<Rightarrow> 'w"
  ww_post_close :: "nat \<Rightarrow> 'w \<Rightarrow> 'w"
  ww_post_quit :: "'w \<Rightarrow> 'w"

abbreviation ww_os :: "'w win32_window \<Rightarrow> 'w win32_os" where
  "ww_os W \<equiv> su_os (ww_setup W)"

definition system_error :: "'w win32_window \<Rightarrow> string \<Rightarrow> 'w hs_state \<Rightarrow> int \<times> 'w hs_state" where
  "system_error W call s = fail_with HS_ERROR_SYSTEM
     (Some (call @ ''() failed: '' @ hs_win32_strerror (ww_os W) (su_last_error (ww_setup W) (ext s)))) s"

section \<open>Notifications\<close>

definition note_alloc :: "addr \<Rightarrow> device_notification \<Rightarrow> win32_vars \<Rightarrow> win32_vars" where
  "note_alloc p n v = v\<lparr>wv_lists := list_alloc (wv_lists v) p, wv_notes := (wv_notes v)(p \<mapsto> n)\<rparr>"

definition free_notification :: "addr \<Rightarrow> win32_vars \<Rightarrow> win32_vars" where
  "free_notification p v = v\<lparr>wv_lists := list_free (wv_lists v) p, wv_notes := (wv_notes v)(p := None)\<rparr>"

definition extract_device_id :: "'w win32_setup \<Rightarrow> string \<Rightarrow> 'w hs_state \<Rightarrow> int \<times> string option \<times> 'w hs_state" where
  "extract_device_id U key s =
     (case sys (su_malloc U) s of
        (False, s) \<Rightarrow> (let (r, s) = fail_with HS_ERROR_MEMORY None s in (r, None, s))
      | (True, s) \<Rightarrow> (0, Some (extract_id key), s))"

text \<open>\<open>p\<close> is the result of \<open>calloc\<close> for the notification, null when it fails.\<close>

definition post_device_event ::
  "'w win32_window \<Rightarrow> addr \<Rightarrow> addr \<Rightarrow> device_event \<Rightarrow> string \<Rightarrow> 'w win32_state \<Rightarrow> (int \<times> 'w win32_state) option" where
  "post_device_event W p monitor event name vs = do {
     let (v, s) = vs;
     if p = NULL then (let (r, s) = fail_with HS_ERROR_MEMORY None s in Some (r, v, s))
     else
       (case extract_device_id (ww_setup W) name s of
          (r, None, s) \<Rightarrow> Some (r, v, s)
        | (r, Some key, s) \<Rightarrow> do {
            m \<leftarrow> wv_mons v monitor;
            let v = note_alloc p \<lparr>dn_event = event, dn_key = key\<rparr> v;
            l \<leftarrow> hs_list_add_tail (wv_lists v) monitor p;
            Some (0, v\<lparr>wv_lists := l\<rparr>, sys_do (ww_set_event W (wm_event m)) s)
          })
   }"

text \<open>\<open>nalloc\<close> gives the address of the next notification.\<close>

definition window_proc ::
  "'w win32_window \<Rightarrow> (win32_vars \<Rightarrow> addr) \<Rightarrow> addr \<Rightarrow> window_msg \<Rightarrow> 'w win32_state \<Rightarrow> 'w win32_state option" where
  "window_proc W nalloc monitor msg vs = do {
     (r, v, s) \<leftarrow>
       (case msg of
          DBT_DEVICEARRIVAL name \<Rightarrow> post_device_event W (nalloc (fst vs)) monitor DEVICE_EVENT_ADDED name vs
        | DBT_DEVICEREMOVECOMPLETE name \<Rightarrow> post_device_event W (nalloc (fst vs)) monitor DEVICE_EVENT_REMOVED name vs
        | WM_CLOSE \<Rightarrow> Some (0, fst vs, sys_do (ww_post_quit W) (snd vs))
        | Other_message \<Rightarrow> Some (0, vs));
     if r < 0 then do {
       m \<leftarrow> wv_mons v monitor;
       Some (v\<lparr>wv_mons := (wv_mons v)(monitor \<mapsto> m\<lparr>wm_ret := r\<rparr>)\<rparr>, sys_do (ww_set_event W (wm_event m)) s)
     }
     else Some (v, s)
   }"

text \<open>The messages that arrive while the caller is elsewhere.\<close>

fun dispatch_all ::
  "'w win32_window \<Rightarrow> (win32_vars \<Rightarrow> addr) \<Rightarrow> addr \<Rightarrow> window_msg list \<Rightarrow> 'w win32_state \<Rightarrow> 'w win32_state option" where
  "dispatch_all W nalloc monitor [] vs = Some vs"
| "dispatch_all W nalloc monitor (msg # msgs) vs = do {
     vs \<leftarrow> window_proc W nalloc monitor msg vs;
     dispatch_all W nalloc monitor msgs vs
   }"

section \<open>The background thread\<close>

text \<open>\<open>cleanup:\<close> of the thread; \<open>notify\<close> is null when nothing has been registered.\<close>

definition thread_cleanup ::
  "'w win32_window \<Rightarrow> addr \<Rightarrow> nat \<Rightarrow> int \<Rightarrow> 'w win32_state \<Rightarrow> 'w win32_state option" where
  "thread_cleanup W monitor notify r vs = do {
     let (v, s) = vs;
     m \<leftarrow> wv_mons v monitor;
     let s = (if notify \<noteq> 0 then sys_do (ww_unregister_notify W notify) s else s);
     let s = (if wm_hwnd m \<noteq> 0 then sys_do (ww_destroy_window W (wm_hwnd m)) s else s);
     let s = sys_do (ww_unregister_class W) s;
     if r < 0
     then Some (v\<lparr>wv_mons := (wv_mons v)(monitor \<mapsto> m\<lparr>wm_ret := r\<rparr>)\<rparr>, sys_do (ww_set_event W (wm_event m)) s)
     else Some (v, s)
   }"

text \<open>
  The thread up to the point where it is ready: the result is the registration, or null after a failure
  and its cleanup.
\<close>

definition thread_start ::
  "'w win32_window \<Rightarrow> addr \<Rightarrow> 'w win32_state \<Rightarrow> (nat \<times> 'w win32_state) option" where
  "thread_start W monitor vs = do {
     let (v, s) = vs;
     m \<leftarrow> wv_mons v monitor;
     let (atom, s) = sys (ww_register_class W) s;
     if \<not> atom then do {
       let (r, s) = system_error W ''RegisterClass'' s;
       vs \<leftarrow> thread_cleanup W monitor 0 r (v, s);
       Some (0, vs)
     }
     else do {
       let (hwnd, s) = sys (ww_create_window W) s;
       let v = v\<lparr>wv_mons := (wv_mons v)(monitor \<mapsto> m\<lparr>wm_hwnd := hwnd\<rparr>)\<rparr>;
       if hwnd = 0 then do {
         let (r, s) = system_error W ''CreateWindow'' s;
         vs \<leftarrow> thread_cleanup W monitor 0 r (v, s);
         Some (0, vs)
       }
       else do {
         let (ok, s) = sys (ww_set_user_data W hwnd) s;
         if \<not> ok then do {
           let (r, s) = system_error W ''SetWindowLongPtr'' s;
           vs \<leftarrow> thread_cleanup W monitor 0 r (v, s);
           Some (0, vs)
         }
         else do {
           let (notify, s) = sys (ww_register_notify W hwnd) s;
           if notify = 0 then do {
             let (r, s) = system_error W ''RegisterDeviceNotification'' s;
             vs \<leftarrow> thread_cleanup W monitor 0 r (v, s);
             Some (0, vs)
           }
           else Some (notify, v, sys_do (ww_set_event W (wm_event m)) s)
         }
       }
     }
   }"

text \<open>
  The message loop, on the messages \<open>GetMessage\<close> gives: \<open>None\<close> in the list is its failure, the end of the
  list the quit message.
\<close>

fun thread_loop ::
  "'w win32_window \<Rightarrow> (win32_vars \<Rightarrow> addr) \<Rightarrow> addr \<Rightarrow> window_msg option list \<Rightarrow> 'w win32_state \<Rightarrow> (int \<times> 'w win32_state) option"
where
  "thread_loop W nalloc monitor [] vs = Some (0, vs)"
| "thread_loop W nalloc monitor (None # msgs) vs =
     (let (r, s) = system_error W ''GetMessage'' (snd vs) in Some (r, fst vs, s))"
| "thread_loop W nalloc monitor (Some msg # msgs) vs = do {
     vs \<leftarrow> window_proc W nalloc monitor msg vs;
     thread_loop W nalloc monitor msgs vs
   }"

text \<open>The whole life of the thread.\<close>

definition monitor_thread ::
  "'w win32_window \<Rightarrow> (win32_vars \<Rightarrow> addr) \<Rightarrow> addr \<Rightarrow> window_msg option list \<Rightarrow> 'w win32_state \<Rightarrow> 'w win32_state option" where
  "monitor_thread W nalloc monitor msgs vs = do {
     (notify, vs) \<leftarrow> thread_start W monitor vs;
     if notify = 0 then Some vs
     else do {
       (r, vs) \<leftarrow> thread_loop W nalloc monitor msgs vs;
       thread_cleanup W monitor notify r vs
     }
   }"

section \<open>Creating and freeing a monitor\<close>

definition wait_event :: "'w win32_window \<Rightarrow> nat \<Rightarrow> 'w hs_state \<Rightarrow> int \<times> 'w hs_state" where
  "wait_event W event s =
     (let (ret, s) = sys (ww_wait W event) s in
      if ret \<noteq> WAIT_OBJECT_0 then system_error W ''WaitForSingleObject'' s else (0, s))"

definition free_notification_body :: "addr \<Rightarrow> win32_vars \<Rightarrow> (unit flow \<times> win32_vars) option" where
  "free_notification_body cur v = do {
     n \<leftarrow> wv_notes v cur;
     Some (Continue, free_notification cur v)
   }"

text \<open>
  \<open>rest\<close> is what the thread still does until it ends: its last messages and its cleanup.
\<close>

definition hs_monitor_free_win32 ::
  "'w win32_window \<Rightarrow> ('w win32_state \<Rightarrow> 'w win32_state option) \<Rightarrow> addr \<Rightarrow> 'w win32_state \<Rightarrow> 'w win32_state option" where
  "hs_monitor_free_win32 W rest monitor vs =
     (if monitor = NULL then Some vs
      else do {
        let (v, s) = vs;
        s \<leftarrow> hs_monitor_release monitor s;
        m \<leftarrow> wv_mons v monitor;
        (v, s) \<leftarrow>
          (if wm_thread m \<noteq> 0 then do {
             (v, s) \<leftarrow>
               (if wm_hwnd m \<noteq> 0 then do {
                  (v, s) \<leftarrow> rest (v, sys_do (ww_post_close W (wm_hwnd m)) s);
                  Some (v, snd (sys (ww_wait W (wm_thread m)) s))
                }
                else Some (v, s));
             Some (v, sys_do (w_close_handle (ww_os W) (wm_thread m)) s)
           }
           else Some (v, s));
        let s = (if wm_event m \<noteq> 0 then sys_do (w_close_handle (ww_os W) (wm_event m)) s else s);
        (fl, v) \<leftarrow> hs_list_foreach wv_lists free_notification_body monitor v;
        Some (v\<lparr>wv_lists := list_free (wv_lists v) monitor, wv_mons := (wv_mons v)(monitor := None)\<rparr>, monitor_free monitor s)
      })"

definition monitor_new_fail_win32 ::
  "'w win32_window \<Rightarrow> ('w win32_state \<Rightarrow> 'w win32_state option) \<Rightarrow> addr \<Rightarrow> int \<Rightarrow> 'w win32_state
     \<Rightarrow> (int \<times> addr option \<times> 'w win32_state) option" where
  "monitor_new_fail_win32 W rest monitor r vs = do {
     vs \<leftarrow> hs_monitor_free_win32 W rest monitor vs;
     Some (r, None, vs)
   }"

text \<open>
  The last part: the thread is started and waited for. \<open>msgs\<close> are the messages it handles before the
  caller looks at the result, \<open>late\<close> those before the caller resets the event.
\<close>

definition monitor_start_thread ::
  "'w win32_window \<Rightarrow> (win32_vars \<Rightarrow> addr) \<Rightarrow> ('w win32_state \<Rightarrow> 'w win32_state option) \<Rightarrow> window_msg list \<Rightarrow> window_msg list
     \<Rightarrow> addr \<Rightarrow> 'w win32_state \<Rightarrow> (int \<times> addr option \<times> 'w win32_state) option" where
  "monitor_start_thread W nalloc rest msgs late monitor vs = do {
     let (v, s) = vs;
     m \<leftarrow> wv_mons v monitor;
     let (thread, s) = sys (ww_begin_thread W) s;
     let v = v\<lparr>wv_mons := (wv_mons v)(monitor \<mapsto> m\<lparr>wm_thread := thread\<rparr>)\<rparr>;
     if thread = 0 then (let (r, s) = system_error W ''_beginthreadex'' s in Some (r, None, v, s))
     else do {
       (notify, vs) \<leftarrow> thread_start W monitor (v, s);
       (v, s) \<leftarrow> (if notify \<noteq> 0 then dispatch_all W nalloc monitor msgs vs else Some vs);
       let (r, s) = wait_event W (wm_event m) s;
       if r < 0 then monitor_new_fail_win32 W rest monitor r (v, s)
       else do {
         m \<leftarrow> wv_mons v monitor;
         if wm_ret m < 0 then monitor_new_fail_win32 W rest monitor (wm_ret m) (v, s)
         else do {
           (v, s) \<leftarrow> dispatch_all W nalloc monitor late (v, s);
           Some (0, Some monitor, v, sys_do (ww_reset_event W (wm_event m)) s)
         }
       }
     }
   }"

text \<open>\<open>p\<close> and \<open>hp\<close> are the results of the allocations for the monitor and the heads of its table.\<close>

definition hs_monitor_new_win32 ::
  "'w win32_window \<Rightarrow> ('w hs_state \<Rightarrow> addr) \<Rightarrow> (win32_vars \<Rightarrow> addr) \<Rightarrow> ('w win32_state \<Rightarrow> 'w win32_state option)
     \<Rightarrow> window_msg list \<Rightarrow> window_msg list \<Rightarrow> 'w callback_fun \<Rightarrow> addr \<Rightarrow> addr \<Rightarrow> 'w win32_state
     \<Rightarrow> (int \<times> addr option \<times> 'w win32_state) option" where
  "hs_monitor_new_win32 W alloc nalloc rest msgs late call p hp vs =
     (if p = NULL
      then (let (r, s) = fail_with HS_ERROR_MEMORY None (snd vs) in monitor_new_fail_win32 W rest NULL r (fst vs, s))
      else do {
        let (v, s) = (fst vs, monitor_alloc p (snd vs));
        l \<leftarrow> hs_list_init (list_alloc (wv_lists v) p) p;
        let m = \<lparr>wm_ret = 0, wm_event = 0, wm_thread = 0, wm_hwnd = 0\<rparr>;
        let v = v\<lparr>wv_lists := l, wv_mons := (wv_mons v)(p \<mapsto> m)\<rparr>;
        case sys (w_create_event (ww_os W)) s of
          (Inl e, s) \<Rightarrow>
            (let (r, s) = fail_with HS_ERROR_SYSTEM (Some (''CreateEvent() failed: '' @ hs_win32_strerror (ww_os W) e)) s in
             monitor_new_fail_win32 W rest p r (v, s))
        | (Inr ev, s) \<Rightarrow> do {
            let v = v\<lparr>wv_mons := (wv_mons v)(p \<mapsto> m\<lparr>wm_event := ev\<rparr>)\<rparr>;
            (r, s) \<leftarrow> hs_monitor_init hp p s;
            if r < 0 then monitor_new_fail_win32 W rest p r (v, s)
            else do {
              (r, cs, s) \<leftarrow> hs_enumerate_win32 (ww_setup W) alloc (hs_monitor_add call p) (wv_controllers v) s;
              let v = v\<lparr>wv_controllers := cs\<rparr>;
              if r < 0 then monitor_new_fail_win32 W rest p r (v, s)
              else monitor_start_thread W nalloc rest msgs late p (v, s)
            }
          }
      })"

definition hs_monitor_get_descriptor_win32 :: "addr \<Rightarrow> win32_vars \<Rightarrow> nat option" where
  "hs_monitor_get_descriptor_win32 monitor v = do {
     c_assert (monitor \<noteq> NULL);
     m \<leftarrow> wv_mons v monitor;
     Some (wm_event m)
   }"

section \<open>Refreshing\<close>

text \<open>
  When the device node does not exist, the message that says so is made of \<open>dev->key\<close> with a null
  \<open>dev\<close>: the call is not defined.
\<close>

definition process_arrival_notification ::
  "'w win32_setup \<Rightarrow> ('w hs_state \<Rightarrow> addr) \<Rightarrow> 'w callback_fun \<Rightarrow> controllers \<Rightarrow> addr \<Rightarrow> string \<Rightarrow> 'w hs_state
     \<Rightarrow> (int \<times> 'w hs_state) option" where
  "process_arrival_notification U alloc call cs monitor key s =
     (case sys (su_locate U key) s of
        (Inl cret, s) \<Rightarrow> None
      | (Inr inst, s) \<Rightarrow> do {
          (r, dev, s) \<leftarrow> process_win32_device U alloc cs inst (Some key) s;
          if r \<le> 0 then Some (r, s)
          else do {
            (r, s) \<leftarrow> hs_monitor_add call monitor dev s;
            s \<leftarrow> hs_device_unref dev s;
            Some (r, s)
          }
        })"

definition handle_notification ::
  "'w win32_setup \<Rightarrow> ('w hs_state \<Rightarrow> addr) \<Rightarrow> 'w callback_fun \<Rightarrow> controllers \<Rightarrow> addr \<Rightarrow> device_notification \<Rightarrow> 'w hs_state
     \<Rightarrow> (int \<times> 'w hs_state) option" where
  "handle_notification U alloc call cs monitor n s =
     (case dn_event n of
        DEVICE_EVENT_ADDED \<Rightarrow>
          process_arrival_notification U alloc call cs monitor (dn_key n)
            (log_msg HS_LOG_DEBUG (''Received arrival notification for device '' @ sq (dn_key n)) s)
      | DEVICE_EVENT_REMOVED \<Rightarrow> do {
          s \<leftarrow> hs_monitor_remove call monitor (dn_key n)
            (log_msg HS_LOG_DEBUG (''Received removal notification for device '' @ sq (dn_key n)) s);
          Some (0, s)
        })"

text \<open>The body of the loop over the notifications of the caller's own list.\<close>

definition refresh_body ::
  "'w win32_setup \<Rightarrow> ('w hs_state \<Rightarrow> addr) \<Rightarrow> 'w callback_fun \<Rightarrow> addr \<Rightarrow> addr \<Rightarrow> 'w win32_state
     \<Rightarrow> (int flow \<times> 'w win32_state) option" where
  "refresh_body U alloc call monitor cur vs = do {
     let (v, s) = vs;
     n \<leftarrow> wv_notes v cur;
     (r, s) \<leftarrow> handle_notification U alloc call (wv_controllers v) monitor n s;
     l \<leftarrow> hs_list_remove (wv_lists v) cur;
     let v = free_notification cur (v\<lparr>wv_lists := l\<rparr>);
     if r < 0 then Some (Return r, v, s) else Some (Continue, v, s)
   }"

text \<open>The first critical section: the notifications move to the list at \<open>tmp\<close>, the caller's local variable.\<close>

definition refresh_take :: "addr \<Rightarrow> addr \<Rightarrow> win32_vars \<Rightarrow> (int \<times> win32_vars) option" where
  "refresh_take tmp monitor v = do {
     l \<leftarrow> hs_list_init (list_alloc (wv_lists v) tmp) tmp;
     l \<leftarrow> hs_list_splice l tmp monitor;
     m \<leftarrow> wv_mons v monitor;
     Some (wm_ret m, v\<lparr>wv_lists := l, wv_mons := (wv_mons v)(monitor \<mapsto> m\<lparr>wm_ret := 0\<rparr>)\<rparr>)
   }"

text \<open>The second critical section.\<close>

definition refresh_put ::
  "'w win32_window \<Rightarrow> addr \<Rightarrow> addr \<Rightarrow> 'w win32_state \<Rightarrow> 'w win32_state option" where
  "refresh_put W tmp monitor vs = do {
     let (v, s) = vs;
     l \<leftarrow> hs_list_splice (wv_lists v) monitor tmp;
     e \<leftarrow> hs_list_is_empty l monitor;
     m \<leftarrow> wv_mons v monitor;
     Some (v\<lparr>wv_lists := list_free l tmp\<rparr>, if e then sys_do (ww_reset_event W (wm_event m)) s else s)
   }"

text \<open>\<open>msgs\<close> are the messages the thread handles between the two critical sections.\<close>

definition hs_monitor_refresh_win32 ::
  "'w win32_window \<Rightarrow> ('w hs_state \<Rightarrow> addr) \<Rightarrow> (win32_vars \<Rightarrow> addr) \<Rightarrow> window_msg list \<Rightarrow> 'w callback_fun \<Rightarrow> addr \<Rightarrow> addr
     \<Rightarrow> 'w win32_state \<Rightarrow> (int \<times> 'w win32_state) option" where
  "hs_monitor_refresh_win32 W alloc nalloc msgs call tmp monitor vs = do {
     c_assert (monitor \<noteq> NULL);
     (r, v) \<leftarrow> refresh_take tmp monitor (fst vs);
     (r, vs) \<leftarrow>
       (if r < 0 then Some (r, v, snd vs)
        else do {
          (fl, vs) \<leftarrow> hs_list_foreach (\<lambda>vs. wv_lists (fst vs)) (refresh_body (ww_setup W) alloc call monitor) tmp (v, snd vs);
          Some (case fl of Return r \<Rightarrow> r | _ \<Rightarrow> 0, vs)
        });
     vs \<leftarrow> dispatch_all W nalloc monitor msgs vs;
     vs \<leftarrow> refresh_put W tmp monitor vs;
     Some (r, vs)
   }"

end
