(* ===== verification/SetupFeed.thy ===== *)
theory SetupFeed
  imports MonitorWin32
begin

text \<open>
  Lemmas on the model of the first half of \<open>src/monitor_win32.c\<close>: reading the device tree ends and
  changes nothing but the log and the outside world; the ports found on the way from a device to its
  root hub; and what a device structure says of its node.
\<close>

section \<open>Calls that leave the library alone\<close>

text \<open>The calls that read the device tree and work on strings keep \<open>g\<close>.\<close>

definition setup_keeps :: "'w win32_setup \<Rightarrow> ('w \<Rightarrow> 'g) \<Rightarrow> bool" where
  "setup_keeps U g \<longleftrightarrow>
     (\<forall>w. g (snd (su_malloc U w)) = g w) \<and> (\<forall>i n w. g (snd (su_device_id U i n w)) = g w) \<and>
     (\<forall>i w. g (snd (su_parent U i w)) = g w) \<and> (\<forall>i w. g (snd (su_child U i w)) = g w) \<and>
     (\<forall>x w. g (snd (su_locate U x w)) = g w) \<and> (\<forall>i w. g (snd (su_location_info U i w)) = g w) \<and>
     (\<forall>i w. g (snd (su_driver U i w)) = g w) \<and> (\<forall>i w. g (snd (su_open_key U i w)) = g w) \<and>
     (\<forall>k w. g (snd (su_query_port_name U k w)) = g w) \<and> (\<forall>k w. g (su_close_key U k w) = g w) \<and>
     (\<forall>x w. g (snd (su_open U x w)) = g w) \<and> (\<forall>h w. g (w_close_handle (su_os U) h w) = g w) \<and>
     (\<forall>h w. g (snd (su_hub_ports U h w)) = g w) \<and> (\<forall>h p w. g (snd (su_connection U h p w)) = g w) \<and>
     (\<forall>h p w. g (snd (su_driver_key_length U h p w)) = g w) \<and> (\<forall>h p n w. g (snd (su_driver_key U h p n w)) = g w) \<and>
     (\<forall>h p v w. g (snd (su_string_descriptor U h p v w)) = g w) \<and> (\<forall>f h w. g (snd (su_hid_string U f h w)) = g w) \<and>
     (\<forall>x w. g (snd (su_wide_length U x w)) = g w) \<and> (\<forall>x n w. g (snd (su_wide_string U x n w)) = g w)"

lemma obs_setup:
  assumes "setup_keeps U g"
  shows "sys (su_malloc U) s = (b, s') \<Longrightarrow> obs g s' = obs g s"
    and "sys (su_device_id U i n) s = (e, s') \<Longrightarrow> obs g s' = obs g s"
    and "sys (su_parent U i) s = (c, s') \<Longrightarrow> obs g s' = obs g s"
    and "sys (su_child U i) s = (c, s') \<Longrightarrow> obs g s' = obs g s"
    and "sys (su_locate U x) s = (c, s') \<Longrightarrow> obs g s' = obs g s"
    and "sys (su_location_info U i) s = (l, s') \<Longrightarrow> obs g s' = obs g s"
    and "sys (su_driver U i) s = (e, s') \<Longrightarrow> obs g s' = obs g s"
    and "sys (su_open_key U i) s = (c, s') \<Longrightarrow> obs g s' = obs g s"
    and "sys (su_query_port_name U k) s = (q, s') \<Longrightarrow> obs g s' = obs g s"
    and "sys (su_open U x) s = (h, s') \<Longrightarrow> obs g s' = obs g s"
    and "sys (su_hub_ports U h) s = (n', s') \<Longrightarrow> obs g s' = obs g s"
    and "sys (su_connection U h p) s = (cn, s') \<Longrightarrow> obs g s' = obs g s"
    and "sys (su_driver_key_length U h p) s = (dl, s') \<Longrightarrow> obs g s' = obs g s"
    and "sys (su_driver_key U h p n) s = (dk, s') \<Longrightarrow> obs g s' = obs g s"
    and "sys (su_string_descriptor U h p v) s = (sd, s') \<Longrightarrow> obs g s' = obs g s"
    and "sys (su_hid_string U f h) s = (dk, s') \<Longrightarrow> obs g s' = obs g s"
    and "sys (su_wide_length U wd) s = (wl, s') \<Longrightarrow> obs g s' = obs g s"
    and "sys (su_wide_string U wd n) s = (ws, s') \<Longrightarrow> obs g s' = obs g s"
  by (erule obs_sys, use assms in \<open>simp add: setup_keeps_def\<close>)+

lemma obs_setup_do:
  assumes "setup_keeps U g"
  shows "obs g (sys_do (su_close_key U k) s) = obs g s" "obs g (close_handle U h s) = obs g s"
  using assms unfolding setup_keeps_def close_handle_def by (auto intro: obs_sys_do)

lemma obs_wide_error: "wide_error U e s = (r, x, s') \<Longrightarrow> obs g s' = obs g s \<and> r < 0 \<and> x = None"
  by (auto simp: wide_error_def split: prod.splits dest: obs_fail)

lemma obs_wide:
  assumes k: "setup_keeps U g" and run: "wide_to_cstring U wide s = (r, x, s')"
  shows "obs g s' = obs g s"
  using run
  by (auto simp: wide_to_cstring_def Let_def split: prod.splits sum.splits bool.splits
      dest!: obs_setup [OF k] obs_fail [where g = g] obs_wide_error [where g = g])

lemma obs_path:
  assumes k: "setup_keeps U g" and run: "build_device_path U devid guid s = Some (r, x, s')"
  shows "obs g s' = obs g s \<and> (r < 0 \<and> x = None \<or> r = 0 \<and> x = device_path devid guid)"
  using run by (auto simp: build_device_path_def split: prod.splits bool.splits bind_splits
      dest!: obs_setup [OF k] obs_fail [where g = g])

lemma obs_vista:
  assumes k: "setup_keeps U g" and run: "find_device_port_vista U inst s = (r, s')"
  shows "obs g s' = obs g s"
  using run by (auto simp: find_device_port_vista_def split: prod.splits option.splits dest!: obs_setup [OF k])

lemma obs_driverkey:
  assumes k: "setup_keeps U g" and run: "get_port_driverkey U hub port s = (r, x, s')"
  shows "obs g s' = obs g s \<and> r \<le> 1"
  using run
  by (auto simp: get_port_driverkey_def Let_def split: prod.splits option.splits bool.splits if_splits
      dest!: obs_setup [OF k] obs_fail [where g = g] obs_wide [OF k])

section \<open>The device tree\<close>

text \<open>
  What is assumed of the configuration manager: the identifier and the parent of a node do not change, the
  tree ends at its root, a USB device is at most seven steps below its root hub (the standard allows
  no more), and a hub has less than 255 ports.
\<close>

abbreviation usb_node :: "string \<Rightarrow> bool" where
  "usb_node devid \<equiv> str_prefix (''USB'' @ [BS]) devid"

abbreviation root_hub :: "string \<Rightarrow> bool" where
  "root_hub devid \<equiv> strstr (BS # ''ROOT_HUB'') devid \<noteq> None"

definition device_tree :: "'w win32_setup \<Rightarrow> (nat \<Rightarrow> string) \<Rightarrow> (nat \<Rightarrow> nat) \<Rightarrow> (nat \<Rightarrow> nat) \<Rightarrow> bool" where
  "device_tree U id_of par level \<longleftrightarrow>
     (\<forall>i n w x. fst (su_device_id U i n w) = Inr x \<longrightarrow> x = id_of i \<and> CHR 0x00 \<notin> set x) \<and>
     (\<forall>i w p. fst (su_parent U i w) = Inr p \<longrightarrow> p = par i \<and> level p < level i) \<and>
     (\<forall>i k. usb_node (id_of i) \<longrightarrow> root_hub (id_of ((par ^^ Suc k) i)) \<longrightarrow> k < 7) \<and>
     (\<forall>h w n. fst (su_hub_ports U h w) = Some n \<longrightarrow> n < 255)"

lemma device_treeD:
  assumes "device_tree U id_of par level"
  shows "sys (su_device_id U i n) s = (Inr x, s') \<Longrightarrow> x = id_of i \<and> CHR 0x00 \<notin> set x"
    and "sys (su_parent U i) s = (Inr p, s') \<Longrightarrow> p = par i \<and> level p < level i"
    and "usb_node (id_of i) \<Longrightarrow> root_hub (id_of ((par ^^ Suc k) i)) \<Longrightarrow> k < 7"
    and "sys (su_hub_ports U h) s = (Some c, s') \<Longrightarrow> c < 255"
  using assms unfolding device_tree_def by (blast dest: fst_sys)+

text \<open>The loop over the ports of a hub ends, as the counter cannot wrap around.\<close>

lemma xp_ports_run:
  assumes k: "setup_keeps U g" and c: "count < 255"
  shows "\<exists>r' s'. xp_ports U h key count port r s = Some (r', s') \<and> obs g s' = obs g s"
proof (induction "Suc (unat count) - unat port" arbitrary: port r s)
  case 0
  then have "\<not> port \<le> count" by (simp add: word_le_nat_alt)
  then show ?case by (subst xp_ports.simps) simp
next
  case (Suc m)
  then have le: "port \<le> count" "unat port < Suc (unat count)" by (simp_all add: word_le_nat_alt)
  have "unat port < 255" using le c by (simp add: word_less_nat_alt)
  then have "unat (port + 1) = Suc (unat port)"
    using unat_word_ariths(1) [of port 1] by simp
  then have m: "m = Suc (unat count) - unat (port + 1)" using Suc.hyps(2) by simp
  obtain r1 x s1 where d: "get_port_driverkey U h port s = (r1, x, s1)" by (cases "get_port_driverkey U h port s") 
  have o1: "obs g s1 = obs g s" using obs_driverkey [OF k d] by simp
  obtain r2 s2 where ih: "xp_ports U h key count (port + 1) r1 s1 = Some (r2, s2)" "obs g s2 = obs g s1"
    using Suc.hyps(1) [OF m] by blast
  show ?case
    using le(1) d ih o1 by (subst xp_ports.simps) auto
qed

lemma find_device_port_xp_run:
  assumes k: "setup_keeps U g" and t: "device_tree U id_of par level" and devid: "CHR 0x00 \<notin> set devid"
  shows "\<exists>r s'. find_device_port_xp U devid key s = Some (r, s') \<and> obs g s' = obs g s"
proof -
  obtain r path s1 where p: "build_device_path U devid (GUID_DEVINTERFACE_USB_HUB U) s = Some (r, path, s1)"
    "obs g s1 = obs g s" "r < 0 \<or> r = 0 \<and> (\<exists>x. path = Some x)"
  proof (cases "sys (su_malloc U) s")
    case (Pair b s')
    obtain r1 s2 where f: "fail_with HS_ERROR_MEMORY None s' = (r1, s2)" by (cases "fail_with HS_ERROR_MEMORY None s'")
    from that Pair obs_setup(1) [OF k Pair] obs_fail [where g = g, OF f] f show thesis
      by (cases b) (auto simp: build_device_path_def device_path_run [OF devid])
  qed
  show ?thesis
  proof (cases "r < 0")
    case True
    with p show ?thesis by (simp add: find_device_port_xp_def)
  next
    case False
    with p(3) obtain x where x: "r = 0" "path = Some x" by auto
    obtain h s2 where h: "sys (su_open U x) s1 = (h, s2)" by (cases "sys (su_open U x) s1")
    have o2: "obs g s2 = obs g s" using obs_setup(10) [OF k h] p(2) by simp
    show ?thesis
    proof (cases "h = 0")
      case True
      obtain r3 s3 where "fail_with HS_ERROR_SYSTEM (Some (''Failed to open USB hub '' @ sq x @ '': '' @
              hs_win32_strerror (su_os U) (su_last_error U (ext s2)))) s2 = (r3, s3)" by (rule prod.exhaust)
      with obs_fail [where g = g, OF this] p(1) x h True o2 show ?thesis by (simp add: find_device_port_xp_def)
    next
      case h0: False
      let ?s = "log_msg HS_LOG_DEBUG (''Asking HUB at '' @ sq x @ '' for port information (XP code path)'') s2"
      obtain c s3 where c: "sys (su_hub_ports U h) ?s = (c, s3)" by (cases "sys (su_hub_ports U h) ?s")
      have o3: "obs g s3 = obs g s" using obs_setup(11) [OF k c] o2 by simp
      obtain r4 s4 where "(case c of None \<Rightarrow> Some (0, warn ''DeviceIoControl(IOCTL_USB_GET_NODE_INFORMATION) failed'' s3)
          | Some n \<Rightarrow> xp_ports U h key n 1 r s3) = Some (r4, s4)" "obs g s4 = obs g s"
      proof (cases c)
        case (Some n)
        with device_treeD(4) [OF t] c have "n < 255" by blast
        from xp_ports_run [OF k this, of h key 1 r s3] o3 Some that show thesis by auto
      qed (use o3 that in auto)
      with p(1) x h h0 c show ?thesis
        by (auto simp: find_device_port_xp_def obs_setup_do [OF k] split: option.splits)
    qed
  qed
qed

lemma find_device_port_run:
  assumes k: "setup_keeps U g" and t: "device_tree U id_of par level" and devid: "CHR 0x00 \<notin> set devid"
  shows "\<exists>res s'. find_device_port U inst devid s = Some (res, s') \<and> obs g s' = obs g s"
proof (cases "hs_win32_version (su_os U) \<ge> HS_WIN32_VERSION_VISTA")
  case True
  obtain r s1 where "find_device_port_vista U inst s = (r, s1)" by (cases "find_device_port_vista U inst s")
  with obs_vista [OF k this] True show ?thesis by (simp add: find_device_port_def)
next
  case False
  obtain res s1 where d: "sys (su_driver U inst) s = (res, s1)" by (cases "sys (su_driver U inst) s")
  have o: "obs g s1 = obs g s" by (rule obs_setup(7) [OF k d])
  show ?thesis
  proof (cases res)
    case (Inl cret)
    with d o False show ?thesis by (simp add: find_device_port_def)
  next
    case (Inr key)
    obtain r s2 where "find_device_port_xp U devid key s1 = Some (r, s2)" "obs g s2 = obs g s1"
      using find_device_port_xp_run [OF k t devid] by blast
    with d o False Inr show ?thesis by (simp add: find_device_port_def)
  qed
qed

lemma skip_to_usb_run:
  assumes k: "setup_keeps U g" and t: "device_tree U id_of par level"
  shows "\<exists>res s'. skip_to_usb U inst s = Some (res, s') \<and> obs g s' = obs g s \<and>
     (\<forall>u p x. res = Some (u, p, x) \<longrightarrow> x = id_of u \<and> usb_node x \<and> p = par u)"
proof (induction "level inst" arbitrary: inst s rule: less_induct)
  case less
  obtain e s1 where e: "sys (su_device_id U inst 256) s = (e, s1)" by (cases "sys (su_device_id U inst 256) s")
  have o1: "obs g s1 = obs g s" by (rule obs_setup(2) [OF k e])
  show ?case
  proof (cases e)
    case (Inl c)
    with e o1 show ?thesis by (subst skip_to_usb.simps) simp
  next
    case (Inr x)
    let ?s = "log_msg HS_LOG_DEBUG (''Going through device parents to find USB node: '' @ sq x) s1"
    obtain q s2 where q: "sys (su_parent U inst) ?s = (q, s2)" by (cases "sys (su_parent U inst) ?s")
    have o2: "obs g s2 = obs g s" using obs_setup(3) [OF k q] o1 by simp
    have x: "x = id_of inst" using device_treeD(1) [OF t] e Inr by blast
    show ?thesis
    proof (cases q)
      case (Inl c)
      with e Inr q o2 show ?thesis by (subst skip_to_usb.simps) simp
    next
      case p: (Inr p)
      then have p': "p = par inst" "level p < level inst" using device_treeD(2) [OF t] q by blast+
      show ?thesis
        using less.hyps [OF p'(2), of s2] e Inr q p p'(1) o2 x by (subst skip_to_usb.simps) auto
    qed
  qed
qed

lemma resolve_rounds_run:
  assumes k: "setup_keeps U g" and t: "device_tree U id_of par level" and u: "usb_node (id_of u)"
  shows "level ((par ^^ Suc m) u) = l \<Longrightarrow> length ports = MAX_USB_DEPTH \<Longrightarrow> depth \<le> m \<Longrightarrow> depth \<le> MAX_USB_DEPTH \<Longrightarrow>
    \<exists>res ports' s'. resolve_rounds U cs ((par ^^ m) u) ((par ^^ Suc m) u) devid ports depth s = Some (res, ports', s') \<and>
      obs g s' = obs g s \<and> length ports' = MAX_USB_DEPTH \<and> (case res of Inl r \<Rightarrow> r \<le> 0 | Inr d \<Rightarrow> d \<le> MAX_USB_DEPTH)"
proof (induction l arbitrary: m ports depth devid s rule: less_induct)
  case (less l)
  let ?parent = "(par ^^ Suc m) u"
  let ?s = "log_msg HS_LOG_DEBUG (''Going through device parents to resolve USB location: '' @ sq devid) s"
  show ?case
  proof (cases "depth = MAX_USB_DEPTH")
    case True
    with less.prems show ?thesis by (subst resolve_rounds.simps) simp
  next
    case False
    then have d: "depth < 8" using less.prems(4) by (simp add: MAX_USB_DEPTH_def)
    obtain e s1 where e: "sys (su_device_id U ?parent 256) ?s = (e, s1)" by (cases "sys (su_device_id U ?parent 256) ?s")
    have o1: "obs g s1 = obs g s" using obs_setup(2) [OF k e] by simp
    show ?thesis
    proof (cases e)
      case (Inl c)
      with False e o1 less.prems show ?thesis by (subst resolve_rounds.simps) (simp del: funpow.simps)
    next
      case (Inr x)
      have x: "x = id_of ?parent" "CHR 0x00 \<notin> set x" using device_treeD(1) [OF t] e Inr by blast+
      obtain res s2 where f: "find_device_port U ((par ^^ m) u) x s1 = Some (res, s2)" "obs g s2 = obs g s1"
        using find_device_port_run [OF k t x(2)] by blast
      note start = resolve_rounds.simps [of U cs "(par ^^ m) u" ?parent devid ports depth s]
      show ?thesis
      proof (cases "res = None \<or> (\<exists>r. res = Some r \<and> r < 0)")
        case True
        with start False e Inr f o1 less.prems show ?thesis by (auto simp del: funpow.simps)
      next
        case go: False
        then obtain r where r: "res = Some r" "\<not> r < 0" by auto
        define ports1 where "ports1 = (if r \<noteq> 0 then ports[depth := word_of_int r] else ports)"
        define depth1 where "depth1 = (if r \<noteq> 0 then depth + 1 else depth)"
        define s3 where "s3 = (if r \<noteq> 0 then log_msg HS_LOG_DEBUG (''Found port number: '' @ show_nat 10 (nat r)) s2 else s2)"
        have p1: "length ports1 = MAX_USB_DEPTH" "depth1 \<le> Suc m" "depth1 \<le> MAX_USB_DEPTH" "obs g s3 = obs g s"
          using less.prems(2,3) d o1 f(2) by (simp_all add: ports1_def depth1_def s3_def MAX_USB_DEPTH_def)
        have step: "(if r \<noteq> 0 then arr_set ports depth (word_of_int r) \<bind>
            (\<lambda>ports. Some (ports, depth + 1, log_msg HS_LOG_DEBUG (''Found port number: '' @ show_nat 10 (nat r)) s2))
            else Some (ports, depth, s2)) = Some (ports1, depth1, s3)"
          using d less.prems(2) by (simp add: ports1_def depth1_def s3_def arr_set_def MAX_USB_DEPTH_def)
        show ?thesis
        proof (cases "root_hub x")
          case True
          have "m < 7" using device_treeD(3) [OF t u] True x(1) by blast
          then have lt: "depth1 < MAX_USB_DEPTH" using p1(2) by (simp add: MAX_USB_DEPTH_def)
          show ?thesis
            using start False e Inr f(1) r step True p1 lt
            by (simp add: arr_set_def Let_def del: funpow.simps)
        next
          case nr: False
          obtain q s4 where q: "sys (su_parent U ?parent) s3 = (q, s4)" by (cases "sys (su_parent U ?parent) s3")
          have o4: "obs g s4 = obs g s" using obs_setup(3) [OF k q] p1(4) by simp
          show ?thesis
          proof (cases q)
            case (Inl c)
            with start False e f(1) r step nr q p1 o4 \<open>e = Inr x\<close> show ?thesis by (simp del: funpow.simps)
          next
            case gp: (Inr gp)
            have gp0: "gp = par ?parent \<and> level gp < level ?parent" using device_treeD(2) [OF t] q gp by blast
            then have gp': "gp = (par ^^ Suc (Suc m)) u" "level gp < level ?parent" by (simp, blast)
            have "\<exists>res ports' s'. resolve_rounds U cs ?parent ((par ^^ Suc (Suc m)) u) x ports1 depth1 s4 = Some (res, ports', s') \<and>
                obs g s' = obs g s4 \<and> length ports' = MAX_USB_DEPTH \<and> (case res of Inl r \<Rightarrow> r \<le> 0 | Inr d \<Rightarrow> d \<le> MAX_USB_DEPTH)"
              by (rule less.IH [OF _ refl p1(1-3)]) (use gp' less.prems(1) in \<open>simp del: funpow.simps\<close>)
            with start False e Inr f(1) r step nr q gp gp'(1) o4 show ?thesis by (simp del: funpow.simps)
          qed
        qed
      qed
    qed
  qed
qed

lemma resolve_run:
  assumes k: "setup_keeps U g" and t: "device_tree U id_of par level" and l: "length ports = MAX_USB_DEPTH"
  shows "\<exists>r ports' s'. resolve_device_location U cs inst ports s = Some (r, ports', s') \<and> obs g s' = obs g s \<and>
     length ports' = MAX_USB_DEPTH \<and> r \<le> int MAX_USB_DEPTH"
proof -
  obtain res s1 where sk: "skip_to_usb U inst s = Some (res, s1)" "obs g s1 = obs g s"
      "\<forall>u p x. res = Some (u, p, x) \<longrightarrow> x = id_of u \<and> usb_node x \<and> p = par u"
    using skip_to_usb_run [OF k t] by blast
  show ?thesis
  proof (cases res)
    case None
    with sk l show ?thesis by (simp add: resolve_device_location_def MAX_USB_DEPTH_def)
  next
    case (Some y)
    then obtain u p x where y: "res = Some (u, p, x)" by (cases y) auto
    then have u: "x = id_of u" "usb_node (id_of u)" "p = par u" using sk(3) by auto
    obtain res2 ports' s' where "resolve_rounds U cs u p x ports 0 s1 = Some (res2, ports', s')"
        "obs g s' = obs g s1" "length ports' = MAX_USB_DEPTH" "case res2 of Inl r \<Rightarrow> r \<le> 0 | Inr d \<Rightarrow> d \<le> MAX_USB_DEPTH"
      using resolve_rounds_run [OF k t u(2), of 0 _ ports 0 cs x s1] l u(3) by auto
    with sk(1,2) y show ?thesis by (cases res2) (auto simp: resolve_device_location_def MAX_USB_DEPTH_def)
  qed
qed

section \<open>Descriptions\<close>

text \<open>The fields of a device that the reading of its properties leaves alone.\<close>

definition core :: "hs_device \<Rightarrow> uint32 \<times> string option \<times> hs_device_status \<times> hs_device_type \<times> string option" where
  "core d = (refcount d, d_key d, d_state d, d_type d, d_path d)"

lemma core_sel [simp]:
  "core (d\<lparr>d_manufacturer := x\<rparr>) = core d" "core (d\<lparr>d_product := x\<rparr>) = core d" "core (d\<lparr>d_serial := x\<rparr>) = core d"
  "core (d\<lparr>d_iface := i\<rparr>) = core d" "core (d\<lparr>d_vid := v\<rparr>) = core d" "core (d\<lparr>d_pid := v\<rparr>) = core d"
  "core (d\<lparr>d_location := x\<rparr>) = core d" "core (d\<lparr>d_vtable := vt\<rparr>) = core d"
  by (simp_all add: core_def)

lemma hid_property_obs:
  assumes k: "setup_keeps U g" and upd: "\<And>x d. core (upd x d) = core d"
    and run: "read_hid_property U h i f name upd d s = (r, d', s')"
  shows "obs g s' = obs g s \<and> core d' = core d"
  using run upd
  by (auto simp: read_hid_property_def Let_def split: prod.splits option.splits if_splits
      dest!: obs_setup [OF k] obs_wide [OF k])

lemma hid_strings_obs:
  assumes k: "setup_keeps U g" and run: "read_hid_strings U h desc d s = (r, d', s')"
  shows "obs g s' = obs g s \<and> core d' = core d"
  using run
  by (auto simp: read_hid_strings_def split: prod.splits if_splits 
      dest!: hid_property_obs [OF k core_sel(1)] hid_property_obs [OF k core_sel(2)] hid_property_obs [OF k core_sel(3)])

lemma read_hid_obs:
  assumes k: "setup_keeps U g" and p: "d_path d = Some path"
  shows "\<exists>r d' s'. read_hid_properties U d desc s = Some (r, d', s') \<and> obs g s' = obs g s \<and> core d' = core d \<and> r \<le> 1"
proof -
  obtain h s1 where h: "sys (su_open U path) s = (h, s1)" by (cases "sys (su_open U path) s")
  have o1: "obs g s1 = obs g s" by (rule obs_setup(10) [OF k h])
  obtain r d' s2 where r: "read_hid_strings U h desc d s1 = (r, d', s2)" by (cases "read_hid_strings U h desc d s1") auto
  then have "r \<le> 1" by (auto simp: read_hid_strings_def split: prod.splits if_splits)
  with hid_strings_obs [OF k r] o1 h r p show ?thesis
    by (auto simp: read_hid_properties_def obs_setup_do [OF k])
qed

lemma string_property_obs:
  assumes k: "setup_keeps U g" and upd: "\<And>x d. core (upd x d) = core d"
    and run: "read_string_property U h port i upd d s = (r, d', s')"
  shows "obs g s' = obs g s \<and> core d' = core d"
proof -
  have "obs g s2 = obs g s1" if "get_string_descriptor U h port i s1 = (r1, str, s2)" for s1 r1 str s2
    using that by (auto simp: get_string_descriptor_def Let_def split: prod.splits sum.splits if_splits
        dest!: obs_setup [OF k] obs_wide [OF k])
  then show ?thesis
    using run upd by (auto simp: read_string_property_def split: prod.splits if_splits option.splits)
qed

lemma string_properties_obs:
  assumes k: "setup_keeps U g" and run: "read_string_properties U h port desc d s = (r, d', s')"
  shows "obs g s' = obs g s \<and> core d' = core d \<and> r \<le> 1"
  using run
  by (auto simp: read_string_properties_def split: prod.splits if_splits
      dest!: string_property_obs [OF k core_sel(1)] string_property_obs [OF k core_sel(2)] string_property_obs [OF k core_sel(3)])

lemma ask_hub_run:
  assumes k: "setup_keeps U g" and p: "d_path d = Some path" "d_key d = Some key"
  shows "\<exists>r d' s'. ask_hub U h hub d port s = Some (r, d', s') \<and> obs g s' = obs g s \<and> core d' = core d \<and> r \<le> 1"
proof -
  obtain b s1 where b: "sys (su_malloc U) s = (b, s1)" by (cases "sys (su_malloc U) s")
  obtain n s2 where n: "sys (su_connection U h port) s1 = (n, s2)" by (cases "sys (su_connection U h port) s1")
  have o: "obs g s1 = obs g s" "obs g s2 = obs g s1" using obs_setup(1) [OF k b] obs_setup(12) [OF k n] by simp_all
  obtain r3 s3 where f: "fail_with HS_ERROR_MEMORY None s1 = (r3, s3)" by (rule prod.exhaust)
  note f' = obs_fail [where g = g, OF f]
  show ?thesis
  proof (cases b)
    case False
    with b f f' o show ?thesis by (simp add: ask_hub_def)
  next
    case True
    show ?thesis
    proof (cases n)
      case None
      with True b n o p show ?thesis by (simp add: ask_hub_def)
    next
      case (Some node)
      obtain r4 d4 s4 where sp: "read_string_properties U h port node d s2 = (r4, d4, s4)"
        by (cases "read_string_properties U h port node d s2") auto
      from True b n Some o string_properties_obs [OF k sp] sp read_hid_obs [OF k p(1), of node s2] show ?thesis
        by (auto simp: ask_hub_def)
    qed
  qed
qed

lemma build_path_run:
  assumes k: "setup_keeps U g" and devid: "CHR 0x00 \<notin> set devid"
  shows "\<exists>r path s'. build_device_path U devid guid s = Some (r, path, s') \<and> obs g s' = obs g s \<and>
     (r < 0 \<or> r = 0 \<and> path = Some (path_text devid guid))"
proof (cases "sys (su_malloc U) s")
  case (Pair b s1)
  obtain r1 s2 where f: "fail_with HS_ERROR_MEMORY None s1 = (r1, s2)" by (rule prod.exhaust)
  from Pair obs_setup(1) [OF k Pair] obs_fail [where g = g, OF f] f show ?thesis
    by (cases b) (auto simp: build_device_path_def device_path_run [OF devid])
qed

lemma hub_properties_run:
  assumes k: "setup_keeps U g" and p: "d_path d = Some path" "d_key d = Some key" and devid: "CHR 0x00 \<notin> set devid"
  shows "\<exists>r d' s'. hub_properties U devid d port s = Some (r, d', s') \<and> obs g s' = obs g s \<and> core d' = core d \<and> r \<le> 1"
proof -
  obtain r1 hub s1 where b: "build_device_path U devid (GUID_DEVINTERFACE_USB_HUB U) s = Some (r1, hub, s1)"
      "obs g s1 = obs g s" "r1 < 0 \<or> r1 = 0 \<and> hub = Some (path_text devid (GUID_DEVINTERFACE_USB_HUB U))"
    using build_path_run [OF k devid] by blast
  show ?thesis
  proof (cases "r1 < 0")
    case True
    with b show ?thesis by (simp add: hub_properties_def)
  next
    case False
    let ?hub = "path_text devid (GUID_DEVINTERFACE_USB_HUB U)"
    obtain h s2 where h: "sys (su_open U ?hub) s1 = (h, s2)" by (cases "sys (su_open U ?hub) s1")
    have o2: "obs g s2 = obs g s" using obs_setup(10) [OF k h] b(2) by simp
    show ?thesis
      using b False h o2 p ask_hub_run [OF k p, of h ?hub port s2]
      by (cases "h = 0") (auto simp: hub_properties_def obs_setup_do [OF k])
  qed
qed

lemma find_usb_node_run:
  assumes k: "setup_keeps U g" and t: "device_tree U id_of par level"
  shows "\<exists>res s'. find_usb_node U inst s = Some (res, s') \<and> obs g s' = obs g s"
proof (induction "level inst" arbitrary: inst s rule: less_induct)
  case less
  obtain e s1 where e: "sys (su_device_id U inst 256) s = (e, s1)" by (cases "sys (su_device_id U inst 256) s")
  obtain q s2 where q: "sys (su_parent U inst) s1 = (q, s2)" by (cases "sys (su_parent U inst) s1")
  have o: "obs g s1 = obs g s" "obs g s2 = obs g s1" using obs_setup(2) [OF k e] obs_setup(3) [OF k q] by simp_all
  show ?case
  proof (cases "\<exists>x p. e = Inr x \<and> \<not> usb_node x \<and> q = Inr p")
    case True
    then obtain x p where xp: "e = Inr x" "\<not> usb_node x" "q = Inr p" by blast
    then have "level p < level inst" using device_treeD(2) [OF t] q by blast
    from less.hyps [OF this, of s2] xp e q o show ?thesis by (subst find_usb_node.simps) auto
  next
    case False
    with e q o show ?thesis by (subst find_usb_node.simps) (auto split: sum.splits)
  qed
qed

lemma find_hub_obs:
  assumes k: "setup_keeps U g" and t: "device_tree U id_of par level" and run: "find_hub U inst c s = (res, s')"
  shows "obs g s' = obs g s" "res = Some x \<Longrightarrow> CHR 0x00 \<notin> set x"
proof -
  show "obs g s' = obs g s"
    using run by (auto simp: find_hub_def split: prod.splits sum.splits if_splits dest!: obs_setup [OF k])
  show "CHR 0x00 \<notin> set x" if "res = Some x"
    using run that by (auto simp: find_hub_def split: prod.splits sum.splits if_splits dest!: device_treeD(1) [OF t])
qed

lemma read_device_properties_run:
  assumes k: "setup_keeps U g" and t: "device_tree U id_of par level" and p: "d_path d = Some path" "d_key d = Some key"
  shows "\<exists>r d' s'. read_device_properties U d inst port s = Some (r, d', s') \<and> obs g s' = obs g s \<and> core d' = core d \<and> r \<le> 1"
proof -
  obtain res s1 where n: "find_usb_node U inst s = Some (res, s1)" "obs g s1 = obs g s" using find_usb_node_run [OF k t] by blast
  show ?thesis
  proof (cases res)
    case None
    with n show ?thesis by (simp add: read_device_properties_def)
  next
    case (Some y)
    then obtain u buf where y: "res = Some (u, buf)" by (cases y) auto
    obtain r vid pid mi where sc: "scan_usb_id buf = (r, vid, pid, mi)" by (cases "scan_usb_id buf") auto
    let ?d = "d\<lparr>d_iface := mi, d_vid := (if r \<ge> 1 then vid else d_vid d), d_pid := (if r \<ge> 2 then pid else d_pid d)\<rparr>"
    obtain hub s2 where hub: "find_hub U u (r = 3) s1 = (hub, s2)" by (cases "find_hub U u (r = 3) s1")
    have o: "obs g s2 = obs g s" "\<And>x. hub = Some x \<Longrightarrow> CHR 0x00 \<notin> set x"
      using find_hub_obs [OF k t hub] n(2) by auto
    have "\<exists>r' d' s'. hub_properties U x ?d port s2 = Some (r', d', s') \<and> obs g s' = obs g s \<and> core d' = core d \<and> r' \<le> 1"
      if "hub = Some x" for x
      using hub_properties_run [OF k _ _ o(2) [OF that], of ?d path key port s2] p o(1) by simp
    with n y sc hub o(1) show ?thesis
      by (cases hub) (auto simp: read_device_properties_def Let_def core_def)
  qed
qed

text \<open>What looking for the device interface gives.\<close>

lemma comport_obs:
  assumes k: "setup_keeps U g" and run: "get_device_comport U inst s = (r, x, s')"
  shows "obs g s' = obs g s"
  using run
  by (auto simp: get_device_comport_def Let_def split: prod.splits sum.splits bool.splits if_splits
      dest!: obs_setup [OF k] obs_fail [where g = g]) (simp_all add: obs_setup_do [OF k])

lemma comport_path: "get_device_comport U inst s = (r, x, s') \<Longrightarrow> 0 < r \<Longrightarrow> x \<noteq> None"
  by (auto simp: get_device_comport_def Let_def fail_with_eq split: prod.splits sum.splits bool.splits if_splits)

lemma find_device_node_run:
  assumes k: "setup_keeps U g" and key: "d_key d = Some key" "CHR 0x00 \<notin> set key"
  shows "\<exists>r d' s'. find_device_node U inst d s = Some (r, d', s') \<and> obs g s' = obs g s \<and>
     d_key d' = d_key d \<and> refcount d' = refcount d \<and> d_state d' = d_state d \<and> (0 < r \<longrightarrow> d_path d' \<noteq> None)"
proof (cases "str_prefix (''USB'' @ [BS]) key")
  case True
  obtain r x s1 where c: "get_device_comport U inst s = (r, x, s1)" by (cases "get_device_comport U inst s") auto
  with comport_obs [OF k c] comport_path [OF c] True key show ?thesis
    by (simp add: find_device_node_def)
next
  case usb: False
  obtain r path s1 where b: "build_device_path U key (hid_guid U) s = Some (r, path, s1)"
      "obs g s1 = obs g s" "r < 0 \<or> r = 0 \<and> path = Some (path_text key (hid_guid U))"
    using build_path_run [OF k key(2)] by blast
  with usb key(1) show ?thesis
    by (cases "str_prefix (''HID'' @ [BS]) key") (auto simp: find_device_node_def)
qed

lemma location_obs:
  assumes k: "setup_keeps U g" and loc: "location_string ports depth = Some buf"
  shows "\<exists>r x s'. build_location_string U ports depth s = Some (r, x, s') \<and> obs g s' = obs g s \<and>
     (r < 0 \<or> r = 0 \<and> x = Some buf)"
proof (cases "sys (su_malloc U) s")
  case (Pair b s1)
  obtain r1 s2 where f: "fail_with HS_ERROR_MEMORY None s1 = (r1, s2)" by (rule prod.exhaust)
  from Pair obs_setup(1) [OF k Pair] obs_fail [where g = g, OF f] f loc show ?thesis
    by (cases b) (auto simp: build_location_string_def)
qed

text \<open>What is complete of a device structure: everything but the monitor's own fields.\<close>

definition complete :: "string \<Rightarrow> hs_device \<Rightarrow> bool" where
  "complete key d \<longleftrightarrow> d_key d = Some key \<and> refcount d = 1 \<and> d_state d = HS_DEVICE_STATUS_DISCONNECTED \<and> d_path d \<noteq> None \<and>
     d_vtable d = Hs_win32_device_vtable \<and> (\<exists>loc. d_location d = Some loc \<and> length loc < 256)"

lemma fill_device_run:
  assumes k: "setup_keeps U g" and t: "device_tree U id_of par level"
    and key: "d_key d = Some key" "CHR 0x00 \<notin> set key" and d: "refcount d = 1" "d_state d = HS_DEVICE_STATUS_DISCONNECTED"
  shows "\<exists>r d' s'. fill_device U cs inst d s = Some (r, d', s') \<and> obs g s' = obs g s \<and> r \<le> 1 \<and> refcount d' = 1 \<and>
     (0 < r \<longrightarrow> complete key d')"
proof (cases "other_collection key")
  case True
  with key d show ?thesis by (simp add: fill_device_def)
next
  case nc: False
  let ?s = "log_msg HS_LOG_DEBUG (''Examining device node '' @ sq key) s"
  obtain r1 d1 s1 where n: "find_device_node U inst d ?s = Some (r1, d1, s1)" "obs g s1 = obs g s" "d_key d1 = Some key"
      "refcount d1 = 1" "d_state d1 = HS_DEVICE_STATUS_DISCONNECTED" "0 < r1 \<longrightarrow> d_path d1 \<noteq> None"
    using find_device_node_run [OF k key, of inst ?s] key d by auto
  obtain r2 ports s2 where l: "resolve_device_location U cs inst (replicate MAX_USB_DEPTH 0) s1 = Some (r2, ports, s2)"
      "obs g s2 = obs g s1" "length ports = MAX_USB_DEPTH" "r2 \<le> int MAX_USB_DEPTH"
    using resolve_run [OF k t, of "replicate MAX_USB_DEPTH 0" cs inst s1] by auto
  note start = fill_device_def [of U cs inst d s] nc key n(1) l(1)
  consider "r1 \<le> 0" | "\<not> r1 \<le> 0" "r2 \<le> 0" | "\<not> r1 \<le> 0" "\<not> r2 \<le> 0" by blast
  then show ?thesis
  proof cases
    case 1
    with start n show ?thesis by simp
  next
    case 2
    with start n(2,4) l(2) show ?thesis by simp
  next
    case 3
    then have dep: "nat r2 - 1 < length ports" "nat r2 \<le> length ports" "nat r2 \<le> 63"
      using l(3,4) by (auto simp: MAX_USB_DEPTH_def)
    obtain path where path: "d_path d1 = Some path" using 3(1) n(6) by auto
    let ?port = "ports ! (nat r2 - 1)"
    have port: "buf_read ports (nat r2 - 1) = Some ?port" using dep(1) by (simp add: buf_read_def)
    obtain r3 d3 s3 where p: "read_device_properties U d1 inst ?port s2 = Some (r3, d3, s3)"
        "obs g s3 = obs g s2" "core d3 = core d1" "r3 \<le> 1"
      using read_device_properties_run [OF k t path n(3), of inst ?port s2] by blast
    have c3: "refcount d3 = 1" "d_key d3 = Some key" "d_state d3 = HS_DEVICE_STATUS_DISCONNECTED" "d_path d3 = Some path"
      using p(3) n(3-5) path by (simp_all add: core_def)
    obtain buf where buf: "location_string ports (nat r2) = Some buf" "length buf < 256"
      using location_string_run [OF dep(2,3)] by blast
    obtain r4 x s4 where b: "build_location_string U ports (nat r2) s3 = Some (r4, x, s4)" "obs g s4 = obs g s3"
        "r4 < 0 \<or> r4 = 0 \<and> x = Some buf"
      using location_obs [OF k buf(1)] by blast
    show ?thesis
    proof (cases "r3 \<le> 0 \<or> r4 < 0")
      case True
      with start 3 port p b(1,2) n(2) l(2) c3(1) show ?thesis by auto
    next
      case False
      with start 3 port p b n(2) l(2) c3 buf(2) show ?thesis by (simp add: complete_def)
    qed
  qed
qed

text \<open>A node becomes a device that is complete, or nothing at all.\<close>

lemma process_run:
  assumes k: "setup_keeps U g" and t: "device_tree U id_of par level" and al: "allocates alloc"
    and key: "case devid of Some key \<Rightarrow> CHR 0x00 \<notin> set key | None \<Rightarrow> True"
  shows "\<exists>r p s' s1. process_win32_device U alloc cs inst devid s = Some (r, p, s') \<and> obs g s1 = obs g s \<and>
     ((\<exists>d. r = 1 \<and> new_device s1 p d \<and> complete (case devid of Some key \<Rightarrow> key | None \<Rightarrow> id_of inst) d \<and> s' = device_alloc p d s1) \<or>
      r \<le> 0 \<and> p = NULL \<and> s' = s1)"
proof (cases "alloc s = NULL")
  case True
  obtain r s1 where f: "fail_with HS_ERROR_MEMORY None s = (r, s1)" by (rule prod.exhaust)
  with obs_fail [where g = g, OF f] True show ?thesis by (auto simp: process_win32_device_def)
next
  case False
  let ?p = "alloc s" and ?key = "case devid of Some key \<Rightarrow> key | None \<Rightarrow> id_of inst"
  have v: "vacant s ?p" by (rule allocatesD [OF al False])
  have vac: "vacant s' ?p" if "obs g s' = obs g s" for s'
    using v that by (simp add: vacant_def obs_def)
  obtain r1 x s1 where dk: "device_key U inst devid s = (r1, x, s1)" by (cases "device_key U inst devid s") auto
  then have o1: "obs g s1 = obs g s"
    by (auto simp: device_key_def Let_def split: prod.splits sum.splits option.splits bool.splits
        dest!: obs_setup [OF k] obs_fail [where g = g])
  have "0 < r1 \<longrightarrow> x = Some ?key \<and> CHR 0x00 \<notin> set ?key"
    using dk key by (auto simp: device_key_def Let_def fail_with_eq split: prod.splits sum.splits option.splits bool.splits
        dest!: device_treeD(1) [OF t])
  then have x: "x = Some ?key" "CHR 0x00 \<notin> set ?key" if "0 < r1" using that by blast+
  let ?d = "zero_device\<lparr>refcount := 1, d_key := x\<rparr>"
  have "\<exists>r d s2. (if r1 \<le> 0 then Some (r1, ?d, s1) else fill_device U cs inst ?d s1) = Some (r, d, s2) \<and>
      obs g s2 = obs g s1 \<and> r \<le> 1 \<and> refcount d = 1 \<and> (0 < r \<longrightarrow> complete ?key d)"
  proof (cases "r1 \<le> 0")
    case pos: False
    then have "0 < r1" by simp
    note x = x [OF this]
    show ?thesis
      using fill_device_run [OF k t, of ?d ?key cs inst s1] x pos by (simp add: zero_device_def)
  qed simp
  then obtain r d s2 where f: "(if r1 \<le> 0 then Some (r1, ?d, s1) else fill_device U cs inst ?d s1) = Some (r, d, s2)"
      "obs g s2 = obs g s1" "r \<le> 1" "refcount d = 1" "0 < r \<longrightarrow> complete ?key d" by blast
  have v2: "vacant s2 ?p" by (rule vac) (use o1 f(2) in simp)
  show ?thesis
  proof (cases "r \<le> 0")
    case True
    with False dk f o1 unref_unannounced [OF v2 f(4)] show ?thesis
      by (auto simp: process_win32_device_def)
  next
    case pos: False
    then have "new_device s2 ?p d" using f(5) v2 by (auto simp: new_device_def complete_def vacant_def)
    with pos False dk f o1 show ?thesis
      by (auto simp: process_win32_device_def Let_def)
  qed
qed

end
