(* ===== verification/RefreshWin32.thy ===== *)
theory RefreshWin32
  imports SetupFeed "HOL-Library.Sublist"
begin

text \<open>
  The queue of notifications of \<open>src/monitor_win32.c\<close>: what the background thread appends, what
  \<open>hs_monitor_refresh\<close> takes out and puts back, and when the event of the monitor is signalled.
\<close>

section \<open>Queues\<close>

text \<open>The list at \<open>h\<close> has the nodes \<open>ns\<close>, which hold the notifications \<open>Q\<close>.\<close>

definition queue :: "win32_vars \<Rightarrow> addr \<Rightarrow> addr list \<Rightarrow> device_notification list \<Rightarrow> bool" where
  "queue v h ns Q \<longleftrightarrow> ring (wv_lists v) h ns \<and> map (wv_notes v) ns = map Some Q"

definition queued :: "win32_vars \<Rightarrow> addr \<Rightarrow> device_notification list \<Rightarrow> bool" where
  "queued v h Q \<longleftrightarrow> (\<exists>ns. queue v h ns Q)"

text \<open>The monitor's list with others that have no node in common with it; the caller's list is one.\<close>

definition queue_with :: "win32_vars \<Rightarrow> addr \<Rightarrow> addr list \<Rightarrow> device_notification list
    \<Rightarrow> (addr \<times> addr list \<times> device_notification list) set \<Rightarrow> bool" where
  "queue_with v mp ns Q Os \<longleftrightarrow> queue v mp ns Q \<and>
     (\<forall>(tmp, ms, R) \<in> Os. queue v tmp ms R \<and> set (mp # ns) \<inter> set (tmp # ms) = {})"

abbreviation two_queues :: "win32_vars \<Rightarrow> addr \<Rightarrow> addr list \<Rightarrow> device_notification list \<Rightarrow> addr \<Rightarrow> addr list
    \<Rightarrow> device_notification list \<Rightarrow> bool" where
  "two_queues v mp ns Q tmp ms R \<equiv> queue_with v mp ns Q {(tmp, ms, R)}"

lemmas two_queues_def = queue_with_def

lemma queue_frame:
  assumes "queue v h ns Q" and "same_outside (wv_lists v) (wv_lists v') A" and "A \<inter> set (h # ns) = {}"
    and "\<forall>n \<in> set ns. wv_notes v' n = wv_notes v n"
  shows "queue v' h ns Q"
proof -
  have "map (wv_notes v') ns = map (wv_notes v) ns" using assms(4) by simp
  with assms(1) ring_same_outside [OF assms(2,3)] show ?thesis by (simp only: queue_def simp_thms)
qed

lemma same_outside_node: "same_outside m (list_alloc m p) {p}" "same_outside m (list_free m p) {p}"
  by (simp_all add: same_outside_def list_alloc_def list_free_def)

text \<open>Addresses \<open>calloc\<close> may return for a notification.\<close>

definition note_allocates :: "(win32_vars \<Rightarrow> addr) \<Rightarrow> bool" where
  "note_allocates nalloc \<longleftrightarrow> (\<forall>v. nalloc v = NULL \<or> l_next (wv_lists v) (nalloc v) = None)"

lemma fresh_not_in_ring:
  "ring m h ns \<Longrightarrow> l_next m p = None \<Longrightarrow> p \<notin> set (h # ns)"
  using ring_allocated [of m h ns p] by (auto simp: list_allocated_def)

section \<open>Posting\<close>

text \<open>The notification a message stands for.\<close>

fun msg_notes :: "window_msg \<Rightarrow> device_notification list" where
  "msg_notes (DBT_DEVICEARRIVAL name) = [\<lparr>dn_event = DEVICE_EVENT_ADDED, dn_key = extract_id name\<rparr>]"
| "msg_notes (DBT_DEVICEREMOVECOMPLETE name) = [\<lparr>dn_event = DEVICE_EVENT_REMOVED, dn_key = extract_id name\<rparr>]"
| "msg_notes WM_CLOSE = []"
| "msg_notes Other_message = []"

text \<open>
  What is assumed of the event \<open>ev\<close>, whose state is \<open>sig\<close>: it is set and reset by the two calls for it, and
  by nothing else.
\<close>

definition event_works :: "'w win32_window \<Rightarrow> nat \<Rightarrow> ('w \<Rightarrow> bool) \<Rightarrow> bool" where
  "event_works W ev sig \<longleftrightarrow> setup_keeps (ww_setup W) sig \<and> (\<forall>w. sig (ww_set_event W ev w)) \<and>
     (\<forall>w. \<not> sig (ww_reset_event W ev w)) \<and> (\<forall>w. sig (ww_post_quit W w) = sig w)"

lemma post_run:
  assumes ev: "event_works W (wm_event m) sig" and m: "wv_mons v mp = Some m" and q: "queue_with v mp ns Q Os"
    and p: "p = NULL \<or> l_next (wv_lists v) p = None"
  shows "\<exists>r v' s'. post_device_event W p mp e name (v, s) = Some (r, v', s') \<and> idle s s' \<and>
     wv_mons v' = wv_mons v \<and> wv_controllers v' = wv_controllers v \<and>
     (r = 0 \<and> queue_with v' mp (ns @ [p]) (Q @ [\<lparr>dn_event = e, dn_key = extract_id name\<rparr>]) Os \<and> sig (ext s') \<or>
      r < 0 \<and> v' = v \<and> sig (ext s') = sig (ext s))"
proof -
  have k: "setup_keeps (ww_setup W) sig" using ev by (simp add: event_works_def)
  have obs: "idle s s' \<and> sig (ext s') = sig (ext s)" if "obs sig s' = obs sig s" for s'
    using that by (simp add: obs_def idle_def)
  obtain r1 x s1 where x: "extract_device_id (ww_setup W) name s = (r1, x, s1)"
    by (cases "extract_device_id (ww_setup W) name s") auto
  then have x': "obs sig s1 = obs sig s" "x = None \<and> r1 < 0 \<or> x = Some (extract_id name) \<and> r1 = 0"
    by (auto simp: extract_device_id_def Let_def split: prod.splits bool.splits
        dest!: obs_setup [OF k] obs_fail [where g = sig])
  consider "p = NULL" | "p \<noteq> NULL" "x = None" "r1 < 0" | "p \<noteq> NULL" "x = Some (extract_id name)" "r1 = 0"
    using x'(2) by blast
  then show ?thesis
  proof cases
    case 1
    obtain r s' where f: "fail_with HS_ERROR_MEMORY None s = (r, s')" by (rule prod.exhaust)
    with 1 obs_fail [where g = sig, OF f] obs [of s'] show ?thesis by (simp add: post_device_event_def)
  next
    case 2
    with x obs [OF x'(1)] show ?thesis by (simp add: post_device_event_def)
  next
    case 3
    let ?n = "\<lparr>dn_event = e, dn_key = extract_id name\<rparr>"
    let ?v = "note_alloc p ?n v"
    have q1: "queue v mp ns Q" "\<And>tmp ms R. (tmp, ms, R) \<in> Os \<Longrightarrow> queue v tmp ms R \<and> set (mp # ns) \<inter> set (tmp # ms) = {}"
      using q by (auto simp: queue_with_def)
    have fresh: "p \<notin> set (mp # ns)" "p \<notin> set (tmp # ms)" if "(tmp, ms, R) \<in> Os" for tmp ms R
      using q1(1) q1(2) [OF that] p 3(1) by (auto simp: queue_def dest: fresh_not_in_ring)
    have fr: "p \<notin> set (mp # ns)" using q1(1) p 3(1) by (auto simp: queue_def dest: fresh_not_in_ring)
    have q2: "queue ?v mp ns Q"
      by (rule queue_frame [where v = v and A = "{p}"]; use q1(1) fr in \<open>auto simp: note_alloc_def same_outside_node\<close>)
    have "list_allocated (wv_lists ?v) p" using 3(1) by (simp add: note_alloc_def list_allocated_def list_alloc_def)
    then obtain l where l: "hs_list_add_tail (wv_lists ?v) mp p = Some l" "ring l mp (ns @ [p])"
        "same_outside (wv_lists ?v) l (set (p # mp # ns))"
      using hs_list_add_tail_ring [of "wv_lists ?v" mp ns p] q2 fr by (auto simp: queue_def)
    let ?v' = "?v\<lparr>wv_lists := l\<rparr>"
    have so: "same_outside (wv_lists v) (wv_lists ?v') (set (p # mp # ns))"
      using l(3) by (auto simp: same_outside_def note_alloc_def list_alloc_def)
    have "queue ?v' mp (ns @ [p]) (Q @ [?n])" using q2 l(2) by (simp add: queue_def note_alloc_def)
    moreover have "queue ?v' tmp ms R \<and> set (mp # ns @ [p]) \<inter> set (tmp # ms) = {}" if "(tmp, ms, R) \<in> Os" for tmp ms R
    proof
      note o = q1(2) [OF that] fresh(2) [OF that]
      show "queue ?v' tmp ms R"
        by (rule queue_frame [OF conjunct1 [OF o(1)] so]) (use o in \<open>auto simp: note_alloc_def\<close>)
      show "set (mp # ns @ [p]) \<inter> set (tmp # ms) = {}" using o by auto
    qed
    ultimately have "queue_with ?v' mp (ns @ [p]) (Q @ [?n]) Os" unfolding queue_with_def by blast
    moreover have "idle s (sys_do (ww_set_event W (wm_event m)) s1)" using obs [OF x'(1)] by (simp add: idle_def sys_do_def)
    moreover have "sig (ext (sys_do (ww_set_event W (wm_event m)) s1))" using ev by (simp add: sys_do_def event_works_def)
    ultimately show ?thesis
      using 3 x m l(1) by (simp add: post_device_event_def note_alloc_def)
  qed
qed

text \<open>
  One message: the notification is queued and the event signalled, or the error is recorded and the
  event signalled; the other lists do not change.
\<close>

lemma window_proc_run:
  assumes na: "note_allocates nalloc" and ev: "event_works W (wm_event m) sig" and m: "wv_mons v mp = Some m"
    and q: "queue_with v mp ns Q Os"
  shows "\<exists>v' s' m' ns' Q'. window_proc W nalloc mp msg (v, s) = Some (v', s') \<and> idle s s' \<and>
     wv_mons v' = (wv_mons v)(mp \<mapsto> m') \<and> wm_event m' = wm_event m \<and> wv_controllers v' = wv_controllers v \<and>
     queue_with v' mp ns' (Q @ Q') Os \<and> (Q' \<noteq> [] \<longrightarrow> sig (ext s')) \<and> (sig (ext s) \<longrightarrow> sig (ext s')) \<and>
     (Q' = msg_notes msg \<and> m' = m \<or> Q' = [] \<and> wm_ret m' < 0)"
proof -
  have same: "\<exists>v' s' m' ns' Q'. Some (v, s1) = Some (v', s') \<and> idle s s' \<and>
     wv_mons v' = (wv_mons v)(mp \<mapsto> m') \<and> wm_event m' = wm_event m \<and> wv_controllers v' = wv_controllers v \<and>
     queue_with v' mp ns' (Q @ Q') Os \<and> (Q' \<noteq> [] \<longrightarrow> sig (ext s')) \<and> (sig (ext s) \<longrightarrow> sig (ext s')) \<and>
     (Q' = [] \<and> m' = m \<or> Q' = [] \<and> wm_ret m' < 0)" if "idle s s1" "sig (ext s1) = sig (ext s)" for s1
    using that m q by (intro exI [of _ v] exI [of _ s1] exI [of _ m] exI [of _ ns] exI [of _ "[]"]) (auto simp: fun_upd_idem)
  have post: "\<exists>v' s' m' ns' Q'. (do {
         (r, v, s) \<leftarrow> post_device_event W (nalloc v) mp e name (v, s);
         if r < 0 then do {
           m \<leftarrow> wv_mons v mp;
           Some (v\<lparr>wv_mons := (wv_mons v)(mp \<mapsto> m\<lparr>wm_ret := r\<rparr>)\<rparr>, sys_do (ww_set_event W (wm_event m)) s)
         }
         else Some (v, s)
       }) = Some (v', s') \<and> idle s s' \<and>
     wv_mons v' = (wv_mons v)(mp \<mapsto> m') \<and> wm_event m' = wm_event m \<and> wv_controllers v' = wv_controllers v \<and>
     queue_with v' mp ns' (Q @ Q') Os \<and> (Q' \<noteq> [] \<longrightarrow> sig (ext s')) \<and> (sig (ext s) \<longrightarrow> sig (ext s')) \<and>
     (Q' = [\<lparr>dn_event = e, dn_key = extract_id name\<rparr>] \<and> m' = m \<or> Q' = [] \<and> wm_ret m' < 0)" for e name
  proof -
    have p: "nalloc v = NULL \<or> l_next (wv_lists v) (nalloc v) = None"
      using na [unfolded note_allocates_def, THEN spec [of _ v]] .
    obtain r v1 s1 where r: "post_device_event W (nalloc v) mp e name (v, s) = Some (r, v1, s1)" "idle s s1"
       "wv_mons v1 = wv_mons v" "wv_controllers v1 = wv_controllers v"
       "r = 0 \<and> queue_with v1 mp (ns @ [nalloc v]) (Q @ [\<lparr>dn_event = e, dn_key = extract_id name\<rparr>]) Os \<and> sig (ext s1) \<or>
        r < 0 \<and> v1 = v \<and> sig (ext s1) = sig (ext s)"
      using post_run [OF ev m q p] by blast
    show ?thesis
    proof (cases "r < 0")
      case True
      then have v1: "v1 = v" using r(5) by auto
      let ?v' = "v\<lparr>wv_mons := (wv_mons v)(mp \<mapsto> m\<lparr>wm_ret := r\<rparr>)\<rparr>"
      have "queue_with ?v' mp ns Q Os" using q by (simp add: two_queues_def queue_def)
      moreover have "idle s (sys_do (ww_set_event W (wm_event m)) s1)" using r(2) by (simp add: idle_def sys_do_def)
      moreover have "sig (ext (sys_do (ww_set_event W (wm_event m)) s1))" using ev by (simp add: sys_do_def event_works_def)
      ultimately show ?thesis using True r(1) v1 m
        by (intro exI [of _ ?v'] exI [of _ "sys_do (ww_set_event W (wm_event m)) s1"] exI [of _ "m\<lparr>wm_ret := r\<rparr>"]
            exI [of _ ns] exI [of _ "[]"]) simp
    next
      case False
      with r m show ?thesis
        by (intro exI [of _ v1] exI [of _ s1] exI [of _ m] exI [of _ "ns @ [nalloc v]"]
            exI [of _ "[\<lparr>dn_event = e, dn_key = extract_id name\<rparr>]"]) (auto simp: fun_upd_idem)
    qed
  qed
  show ?thesis
  proof (cases msg)
    case (DBT_DEVICEARRIVAL name)
    with post [of DEVICE_EVENT_ADDED name] show ?thesis by (simp add: window_proc_def)
  next
    case (DBT_DEVICEREMOVECOMPLETE name)
    with post [of DEVICE_EVENT_REMOVED name] show ?thesis by (simp add: window_proc_def)
  next
    case WM_CLOSE
    have "idle s (sys_do (ww_post_quit W) s)" "sig (ext (sys_do (ww_post_quit W) s)) = sig (ext s)"
      using ev by (simp_all add: idle_def sys_do_def event_works_def)
    from same [OF this] WM_CLOSE show ?thesis by (simp add: window_proc_def)
  next
    case Other_message
    from same [of s] Other_message show ?thesis by (simp add: window_proc_def)
  qed
qed

text \<open>
  The messages of a while: the notifications queued are a subsequence of those the messages stand
  for, and all of them unless an error has been recorded.
\<close>

lemma dispatch_run:
  assumes na: "note_allocates nalloc" and ev: "event_works W (wm_event m) sig"
  shows "wv_mons v mp = Some m' \<Longrightarrow> wm_event m' = wm_event m \<Longrightarrow> queue_with v mp ns Q Os \<Longrightarrow>
     \<exists>v' s' m'' ns' Q'. dispatch_all W nalloc mp msgs (v, s) = Some (v', s') \<and> idle s s' \<and>
       wv_mons v' = (wv_mons v)(mp \<mapsto> m'') \<and> wm_event m'' = wm_event m \<and> wv_controllers v' = wv_controllers v \<and>
       queue_with v' mp ns' (Q @ Q') Os \<and> (Q' \<noteq> [] \<longrightarrow> sig (ext s')) \<and> (sig (ext s) \<longrightarrow> sig (ext s')) \<and>
       subseq Q' (concat (map msg_notes msgs)) \<and>
       (Q' = concat (map msg_notes msgs) \<and> m'' = m' \<or> wm_ret m'' < 0)"
proof (induction msgs arbitrary: v s m' ns Q)
  case Nil
  then show ?case
    by (intro exI [of _ v] exI [of _ s] exI [of _ m'] exI [of _ ns] exI [of _ "[]"]) (auto simp: fun_upd_idem)
next
  case (Cons msg msgs)
  have ev': "event_works W (wm_event m') sig" using ev Cons.prems(2) by simp
  obtain v1 s1 m1 ns1 Q1 where 1: "window_proc W nalloc mp msg (v, s) = Some (v1, s1)" "idle s s1"
      "wv_mons v1 = (wv_mons v)(mp \<mapsto> m1)" "wm_event m1 = wm_event m'" "wv_controllers v1 = wv_controllers v"
      "queue_with v1 mp ns1 (Q @ Q1) Os" "Q1 \<noteq> [] \<longrightarrow> sig (ext s1)" "sig (ext s) \<longrightarrow> sig (ext s1)"
      "Q1 = msg_notes msg \<and> m1 = m' \<or> Q1 = [] \<and> wm_ret m1 < 0"
    using window_proc_run [OF na ev' Cons.prems(1,3), of msg s] by blast
  have m1: "wv_mons v1 mp = Some m1" "wm_event m1 = wm_event m" using 1(3,4) Cons.prems(2) by simp_all
  obtain v2 s2 m2 ns2 Q2 where 2: "dispatch_all W nalloc mp msgs (v1, s1) = Some (v2, s2)" "idle s1 s2"
      "wv_mons v2 = (wv_mons v1)(mp \<mapsto> m2)" "wm_event m2 = wm_event m" "wv_controllers v2 = wv_controllers v1"
      "queue_with v2 mp ns2 ((Q @ Q1) @ Q2) Os" "Q2 \<noteq> [] \<longrightarrow> sig (ext s2)" "sig (ext s1) \<longrightarrow> sig (ext s2)"
      "subseq Q2 (concat (map msg_notes msgs))" "Q2 = concat (map msg_notes msgs) \<and> m2 = m1 \<or> wm_ret m2 < 0"
    using Cons.IH [OF m1 1(6), of s1] by blast
  have "subseq (Q1 @ Q2) (concat (map msg_notes (msg # msgs)))"
  proof -
    have "subseq Q1 (msg_notes msg)" using 1(9) by auto
    then show ?thesis using list_emb_append_mono [OF _ 2(9)] by simp
  qed
  moreover have "Q1 @ Q2 = concat (map msg_notes (msg # msgs)) \<and> m2 = m' \<or> wm_ret m2 < 0"
    using 1(9) 2(10) by auto
  moreover have "idle s s2" using 1(2) 2(2) by (rule idle_trans)
  moreover have "wv_mons v2 = (wv_mons v)(mp \<mapsto> m2)" using 1(3) 2(3) by simp
  moreover have "Q1 @ Q2 \<noteq> [] \<longrightarrow> sig (ext s2)" "sig (ext s) \<longrightarrow> sig (ext s2)" using 1(7,8) 2(7,8) by auto
  moreover have "dispatch_all W nalloc mp (msg # msgs) (v, s) = Some (v2, s2)" using 1(1) 2(1) by simp
  moreover have "queue_with v2 mp ns2 (Q @ Q1 @ Q2) Os" "wv_controllers v2 = wv_controllers v"
    using 1(5) 2(5,6) by simp_all
  ultimately show ?case using 2(4)
    by (intro exI [of _ v2] exI [of _ s2] exI [of _ m2] exI [of _ ns2] exI [of _ "Q1 @ Q2"]) (intro conjI)
qed

section \<open>Taking and putting back\<close>

lemma take_run:
  assumes q: "queue v mp ns Q" and m: "wv_mons v mp = Some m" and tmp: "tmp \<noteq> NULL" "l_next (wv_lists v) tmp = None"
  shows "\<exists>v'. refresh_take tmp mp v = Some (wm_ret m, v') \<and> wv_mons v' = (wv_mons v)(mp \<mapsto> m\<lparr>wm_ret := 0\<rparr>) \<and>
     wv_controllers v' = wv_controllers v \<and> two_queues v' mp [] [] tmp ns Q"
proof -
  have r: "ring (wv_lists v) mp ns" using q by (simp add: queue_def)
  have fresh: "tmp \<notin> set (mp # ns)" by (rule fresh_not_in_ring [OF r tmp(2)])
  have "list_allocated (list_alloc (wv_lists v) tmp) tmp" using tmp(1) by (simp add: list_allocated_def list_alloc_def)
  then obtain l1 where l1: "hs_list_init (list_alloc (wv_lists v) tmp) tmp = Some l1" "ring l1 tmp []"
      "same_outside (list_alloc (wv_lists v) tmp) l1 {tmp}"
    using hs_list_init_ring by blast
  have "same_outside (wv_lists v) l1 {tmp}" using same_outside_trans [OF same_outside_node(1) l1(3)] by simp
  then have "ring l1 mp ns" using ring_same_outside [of "wv_lists v" l1 "{tmp}" mp ns] r fresh by auto
  then obtain l2 where l2: "hs_list_splice l1 tmp mp = Some l2" "ring l2 tmp ns" "ring l2 mp []"
    using hs_list_splice_ring [OF l1(2), of mp ns] fresh by auto
  let ?v = "v\<lparr>wv_lists := l2, wv_mons := (wv_mons v)(mp \<mapsto> m\<lparr>wm_ret := 0\<rparr>)\<rparr>"
  have "two_queues ?v mp [] [] tmp ns Q"
    using q l2(2,3) fresh r by (auto simp: two_queues_def queue_def ring_def)
  with m l1(1) l2(1) show ?thesis by (simp add: refresh_take_def)
qed

lemma put_run:
  assumes ev: "event_works W (wm_event m) sig" and m: "wv_mons v mp = Some m" and q: "two_queues v mp ns Q tmp ms R"
  shows "\<exists>v' s'. refresh_put W tmp mp (v, s) = Some (v', s') \<and> idle s s' \<and> wv_mons v' = wv_mons v \<and>
     wv_controllers v' = wv_controllers v \<and> queue v' mp (ms @ ns) (R @ Q) \<and>
     sig (ext s') = (R @ Q \<noteq> [] \<and> sig (ext s))"
proof -
  have q': "queue v mp ns Q" "queue v tmp ms R" "set (mp # ns) \<inter> set (tmp # ms) = {}"
    using q by (simp_all add: two_queues_def)
  obtain l where l: "hs_list_splice (wv_lists v) mp tmp = Some l" "ring l mp (ms @ ns)" "ring l tmp []"
    using hs_list_splice_ring [of "wv_lists v" mp ns tmp ms] q' by (auto simp: queue_def)
  have e: "hs_list_is_empty l mp = Some (ms @ ns = [])" by (rule hs_list_is_empty_ring [OF l(2)])
  let ?v = "v\<lparr>wv_lists := list_free l tmp\<rparr>"
  let ?s = "if ms @ ns = [] then sys_do (ww_reset_event W (wm_event m)) s else s"
  have "tmp \<notin> set (mp # ms @ ns)" using q' by (auto simp: queue_def ring_def)
  then have "queue ?v mp (ms @ ns) (R @ Q)"
    using ring_same_outside [OF same_outside_node(2) [of l tmp], of mp "ms @ ns"] l(2) q'(1,2)
    by (simp add: queue_def)
  moreover have "idle s ?s" by (simp add: idle_def sys_do_def)
  moreover have "ms @ ns = [] \<longleftrightarrow> R @ Q = []" using q'(1,2) by (auto simp: queue_def dest: map_eq_imp_length_eq)
  then have "sig (ext ?s) = (R @ Q \<noteq> [] \<and> sig (ext s))" using ev by (auto simp: sys_do_def event_works_def)
  ultimately show ?thesis using l(1) e m by (auto simp: refresh_put_def)
qed

section \<open>Working off\<close>

text \<open>
  What the monitor is told of a notification: a removal withdraws the key; an arrival announces a device
  with the key, or nothing when there is no device the library handles.
\<close>

fun note_feed :: "device_notification \<Rightarrow> feed_event list \<Rightarrow> bool" where
  "note_feed n es = (case dn_event n of
     DEVICE_EVENT_REMOVED \<Rightarrow> es = [Depart (dn_key n)]
   | DEVICE_EVENT_ADDED \<Rightarrow> es = [] \<or> (\<exists>i. es = [Arrive (Some (dn_key n), i)]))"

text \<open>The notifications the system can still answer for: the nodes of the arrivals are there.\<close>

definition locatable :: "'w win32_setup \<Rightarrow> device_notification list \<Rightarrow> bool" where
  "locatable U Q \<longleftrightarrow> (\<forall>n \<in> set Q. CHR 0x00 \<notin> set (dn_key n) \<and>
     (dn_event n = DEVICE_EVENT_ADDED \<longrightarrow> (\<forall>w. \<exists>i. fst (su_locate U (dn_key n) w) = Inr i)))"

lemma handle_run:
  assumes k: "setup_keeps U g" and t: "device_tree U id_of par level" and al: "allocates alloc" and kp: "keeps g call"
    and kn: "knows call mp s K" and loc: "locatable U [n]"
  shows "\<exists>r s' es. handle_notification U alloc call cs mp n s = Some (r, s') \<and> g (ext s') = g (ext s) \<and>
     monitor_feeds call mp s es s' \<and> (r = 0 \<and> note_feed n es \<or> r < 0 \<and> es = [])"
proof (cases "dn_event n")
  case DEVICE_EVENT_REMOVED
  let ?s = "log_msg HS_LOG_DEBUG (''Received removal notification for device '' @ sq (dn_key n)) s"
  have i: "idle s ?s" by (simp add: idle_def log_msg_def)
  obtain s' where s': "hs_monitor_remove call mp (dn_key n) ?s = Some s'"
    using withdraw_run [OF knows_idle [OF kn i]] by blast
  have "g (ext s') = g (ext s)" using hs_monitor_remove_ext [OF kp s'] by (simp add: log_msg_def)
  with s' DEVICE_EVENT_REMOVED feed_env [where env = idle, OF i monitor_feeds_depart [OF s']] show ?thesis
    by (simp add: handle_notification_def)
next
  case DEVICE_EVENT_ADDED
  let ?s = "log_msg HS_LOG_DEBUG (''Received arrival notification for device '' @ sq (dn_key n)) s"
  obtain inst s1 where l: "sys (su_locate U (dn_key n)) ?s = (Inr inst, s1)"
    using loc DEVICE_EVENT_ADDED by (auto simp: locatable_def sys_eq)
  have o1: "obs g s1 = obs g s" using obs_setup(5) [OF k l] by simp
  have nul: "case Some (dn_key n) of Some key \<Rightarrow> CHR 0x00 \<notin> set key | None \<Rightarrow> True" using loc by (simp add: locatable_def)
  obtain r p s2 s3 where pr: "process_win32_device U alloc cs inst (Some (dn_key n)) s1 = Some (r, p, s2)" "obs g s3 = obs g s1"
      "(\<exists>d. r = 1 \<and> new_device s3 p d \<and> complete (dn_key n) d \<and> s2 = device_alloc p d s3) \<or> r \<le> 0 \<and> p = NULL \<and> s2 = s3"
    using process_run [OF k t al nul, of cs inst s1] unfolding option.case by blast
  have i: "idle s s3" "g (ext s3) = g (ext s)" using o1 pr(2) by (simp_all add: obs_def idle_def)
  show ?thesis
  proof (cases "r \<le> 0")
    case True
    then have "s2 = s3" using pr(3) by auto
    with True DEVICE_EVENT_ADDED l pr(1) i monitor_feeds_idle [OF i(1)] show ?thesis
      by (intro exI [of _ r] exI [of _ s3] exI [of _ "[]"])
        (auto simp: handle_notification_def process_arrival_notification_def)
  next
    case False
    then obtain d where d: "new_device s3 p d" "complete (dn_key n) d" "s2 = device_alloc p d s3" using pr(3) by auto
    obtain s' where s': "announce call mp p d s3 = Some (0, s')"
      using announce_run [OF knows_idle [OF kn i(1)] d(1)] by blast
    have f: "monitor_feeds call mp s [Arrive (d_key d, d_iface d)] s'" by (rule monitor_feeds_arrive [OF i(1) d(1) s'])
    have "g (ext s') = g (ext s)" using announce_ext [OF kp s'] i(2) by simp
    moreover have "handle_notification U alloc call cs mp n s = Some (0, s')"
      using s' False DEVICE_EVENT_ADDED l pr(1) d(3)
      by (auto simp: handle_notification_def process_arrival_notification_def announce_def)
    moreover have "note_feed n [Arrive (d_key d, d_iface d)]" using DEVICE_EVENT_ADDED d(2) by (simp add: complete_def)
    ultimately show ?thesis using f by blast
  qed
qed

text \<open>One round of the loop: the notification is handled and freed, the lists stay apart.\<close>

lemma body_lists:
  assumes q: "two_queues v mp ns Q tmp (x # ms) (n # R)"
  shows "\<exists>l. wv_notes v x = Some n \<and> hs_list_remove (wv_lists v) x = Some l \<and>
     two_queues (free_notification x (v\<lparr>wv_lists := l\<rparr>)) mp ns Q tmp ms R"
proof -
  have q': "queue v mp ns Q" "queue v tmp (x # ms) (n # R)" "set (mp # ns) \<inter> set (tmp # x # ms) = {}"
    using q by (simp_all add: two_queues_def)
  then have r: "ring (wv_lists v) tmp ([] @ x # ms)" "wv_notes v x = Some n" "map (wv_notes v) ms = map Some R"
      "distinct (tmp # x # ms)"
    by (simp_all add: queue_def ring_def)
  obtain l where l: "hs_list_remove (wv_lists v) x = Some l" "ring l tmp ([] @ ms)"
      "same_outside (wv_lists v) l (set (x # tmp # [] @ ms))"
    using hs_list_remove_ring [OF r(1)] by blast
  let ?v = "free_notification x (v\<lparr>wv_lists := l\<rparr>)"
  have so: "same_outside (wv_lists v) (wv_lists ?v) (set (x # tmp # ms))"
    using l(3) by (auto simp: free_notification_def same_outside_def list_free_def)
  have "queue ?v mp ns Q"
    by (rule queue_frame [OF q'(1) so]) (use q'(3) in \<open>auto simp: free_notification_def\<close>)
  moreover have "ring (list_free l x) tmp ms"
    using ring_same_outside [OF same_outside_node(2) [of l x], of tmp ms] l(2) r(4) by auto
  then have "queue ?v tmp ms R"
    using r(3,4) by (simp add: queue_def free_notification_def map_eq_conv)
  ultimately show ?thesis using l(1) r(2) q'(3) by (auto simp: two_queues_def)
qed

lemma refresh_body_next:
  assumes "two_queues v mp ns Q tmp (x # ms) (n # R)"
    and "refresh_body U alloc call mp x (v, s) = Some (fl, v', s')"
  shows "two_queues v' mp ns Q tmp ms R \<and> wv_mons v' = wv_mons v \<and> wv_controllers v' = wv_controllers v"
  using body_lists [OF assms(1)] assms(2)
  by (auto simp: refresh_body_def free_notification_def Let_def split: bind_splits if_splits)

text \<open>
  The loop: the notifications \<open>handled\<close> have reached the monitor, in their order; after a failure one is
  \<open>lost\<close>, and the others are still in the caller's list.
\<close>

lemma refresh_fold_run:
  assumes k: "setup_keeps U g" and t: "device_tree U id_of par level" and al: "allocates alloc" and kp: "keeps g call"
  shows "two_queues v mp ns Q tmp ms R \<Longrightarrow> knows call mp s K \<Longrightarrow> locatable U R \<Longrightarrow>
     \<exists>x fl v' s' ms' handled lost rest ess. flow_fold (refresh_body U alloc call mp) tmp ms (v, s) = Some (x, fl, v', s') \<and>
       g (ext s') = g (ext s) \<and> wv_mons v' = wv_mons v \<and> wv_controllers v' = wv_controllers v \<and>
       two_queues v' mp ns Q tmp ms' rest \<and> R = handled @ lost @ rest \<and> list_all2 note_feed handled ess \<and>
       monitor_feeds call mp s (concat ess) s' \<and>
       (fl = Continue \<and> lost = [] \<and> rest = [] \<or> (\<exists>r < 0. fl = Return r) \<and> length lost = 1)"
proof (induction ms arbitrary: v s R K)
  case Nil
  then have "R = []" by (simp add: two_queues_def queue_def)
  with Nil.prems(1) feed_nil show ?case
    by (intro exI [of _ tmp] exI [of _ Continue] exI [of _ v] exI [of _ s] exI [of _ "[]"]) auto
next
  case (Cons x ms)
  then obtain n R' where R: "R = n # R'" by (cases R) (auto simp: two_queues_def queue_def)
  obtain l where l: "wv_notes v x = Some n" "hs_list_remove (wv_lists v) x = Some l"
    using body_lists [OF Cons.prems(1) [unfolded R]] by blast
  have "locatable U [n]" "locatable U R'" using Cons.prems(3) R by (simp_all add: locatable_def)
  from handle_run [OF k t al kp Cons.prems(2) this(1), of "wv_controllers v"] obtain r s1 es where
    h: "handle_notification U alloc call (wv_controllers v) mp n s = Some (r, s1)" "g (ext s1) = g (ext s)"
      "monitor_feeds call mp s es s1" "r = 0 \<and> note_feed n es \<or> r < 0 \<and> es = []" by blast
  let ?v = "free_notification x (v\<lparr>wv_lists := l\<rparr>)"
  have b: "refresh_body U alloc call mp x (v, s) = Some (if r < 0 then Return r else Continue, ?v, s1)"
    using l h(1) by (simp add: refresh_body_def)
  note v1 = refresh_body_next [OF Cons.prems(1) [unfolded R] b]
  show ?case
  proof (cases "r < 0")
    case True
    with b v1 h R show ?thesis
      by (intro exI [of _ x] exI [of _ "Return r"] exI [of _ ?v] exI [of _ s1] exI [of _ ms] exI [of _ "[]"]
          exI [of _ "[n]"] exI [of _ R']) auto
  next
    case False
    then have nf: "note_feed n es" using h(4) by auto
    obtain y fl v' s' ms' handled lost rest ess where
      ih: "flow_fold (refresh_body U alloc call mp) tmp ms (?v, s1) = Some (y, fl, v', s')"
       "g (ext s') = g (ext s1)" "wv_mons v' = wv_mons ?v" "wv_controllers v' = wv_controllers ?v"
       "two_queues v' mp ns Q tmp ms' rest" "R' = handled @ lost @ rest" "list_all2 note_feed handled ess"
       "monitor_feeds call mp s1 (concat ess) s'"
       "fl = Continue \<and> lost = [] \<and> rest = [] \<or> (\<exists>r < 0. fl = Return r) \<and> length lost = 1"
      using Cons.IH [OF conjunct1 [OF v1] mon.feeds_known [OF h(3) Cons.prems(2)] \<open>locatable U R'\<close>] by blast
    show ?thesis
    proof (intro exI conjI)
      show "flow_fold (refresh_body U alloc call mp) tmp (x # ms) (v, s) = Some (y, fl, v', s')"
        using b False ih(1) by simp
      show "R = (n # handled) @ lost @ rest" using R ih(6) by simp
      show "list_all2 note_feed (n # handled) (es # ess)" using nf ih(7) by simp
      show "monitor_feeds call mp s (concat (es # ess)) s'" using feeds_append [OF h(3) ih(8)] by simp
    qed (use ih v1 h(2) in auto)
  qed
qed

section \<open>A refresh\<close>

text \<open>
  What a refresh that starts with the notifications \<open>Q\<close> does, while the thread receives \<open>msgs\<close>: \<open>handled\<close>
  are those that reached the monitor, \<open>rest\<close> those that are put back before the new ones.
\<close>

definition refreshed :: "'w callback_fun \<Rightarrow> addr \<Rightarrow> win32_monitor \<Rightarrow> device_notification list \<Rightarrow> window_msg list \<Rightarrow> 'w hs_state
    \<Rightarrow> feed_event list \<Rightarrow> device_notification list \<Rightarrow> int \<Rightarrow> 'w win32_state \<Rightarrow> bool" where
  "refreshed call mp m Q msgs s es Q' r vs \<longleftrightarrow>
     (\<exists>handled lost rest new ess m'. Q = handled @ lost @ rest \<and> list_all2 note_feed handled ess \<and> es = concat ess \<and>
        monitor_feeds call mp s es (snd vs) \<and> Q' = rest @ new \<and> queued (fst vs) mp Q' \<and>
        subseq new (concat (map msg_notes msgs)) \<and>
        wv_mons (fst vs) mp = Some m' \<and> wm_event m' = wm_event m \<and>
        (new = concat (map msg_notes msgs) \<and> wm_ret m' = 0 \<or> wm_ret m' < 0) \<and>
        (if wm_ret m < 0 then r = wm_ret m \<and> handled = [] \<and> lost = []
         else r = 0 \<and> lost = [] \<and> rest = [] \<or> r < 0 \<and> length lost = 1))"

lemma refresh_run:
  assumes na: "note_allocates nalloc" and al: "allocates alloc" and ev: "event_works W (wm_event m) sig"
    and t: "device_tree (ww_setup W) id_of par level" and kp: "keeps sig call"
    and kn: "knows call mp s K" and q: "queued v mp Q" and m: "wv_mons v mp = Some m"
    and tmp: "tmp \<noteq> NULL" "l_next (wv_lists v) tmp = None"
    and loc: "wm_ret m < 0 \<or> locatable (ww_setup W) Q" and sg: "Q \<noteq> [] \<longrightarrow> sig (ext s)"
  shows "\<exists>r v' s' es Q'. hs_monitor_refresh_win32 W alloc nalloc msgs call tmp mp (v, s) = Some (r, v', s') \<and>
     refreshed call mp m Q msgs s es Q' r (v', s') \<and> sig (ext s') = (Q' \<noteq> [])"
proof -
  let ?U = "ww_setup W" and ?m = "m\<lparr>wm_ret := 0\<rparr>"
  have k: "setup_keeps ?U sig" and ev0: "event_works W (wm_event ?m) sig" using ev by (simp_all add: event_works_def)
  obtain ns where ns: "queue v mp ns Q" using q by (auto simp: queued_def)
  obtain v1 where v1: "refresh_take tmp mp v = Some (wm_ret m, v1)" "wv_mons v1 = (wv_mons v)(mp \<mapsto> ?m)"
      "two_queues v1 mp [] [] tmp ns Q"
    using take_run [OF ns m tmp] by blast
  have work: "\<exists>r v2 s2 ms rest handled lost ess.
      (if wm_ret m < 0 then Some (wm_ret m, v1, s)
       else do {
         (fl, vs) \<leftarrow> hs_list_foreach (\<lambda>vs. wv_lists (fst vs)) (refresh_body ?U alloc call mp) tmp (v1, s);
         Some (case fl of Return r \<Rightarrow> r | _ \<Rightarrow> 0, vs)
       }) = Some (r, v2, s2) \<and> sig (ext s2) = sig (ext s) \<and> wv_mons v2 = wv_mons v1 \<and>
      two_queues v2 mp [] [] tmp ms rest \<and> Q = handled @ lost @ rest \<and> list_all2 note_feed handled ess \<and>
      monitor_feeds call mp s (concat ess) s2 \<and>
      (if wm_ret m < 0 then r = wm_ret m \<and> handled = [] \<and> lost = []
       else r = 0 \<and> lost = [] \<and> rest = [] \<or> r < 0 \<and> length lost = 1)"
  proof (cases "wm_ret m < 0")
    case True
    with v1(3) feed_nil show ?thesis
      by (intro exI [of _ "wm_ret m"] exI [of _ v1] exI [of _ s] exI [of _ ns] exI [of _ Q] exI [of _ "[]"]) simp
  next
    case False
    with loc have loc': "locatable ?U Q" by simp
    have r: "ring (wv_lists (fst (v1, s))) tmp ns" using v1(3) by (simp add: two_queues_def queue_def)
    let ?I = "\<lambda>rest (vs :: 'a win32_state). \<exists>R. two_queues (fst vs) mp [] [] tmp rest R"
    have "hs_list_foreach (\<lambda>vs. wv_lists (fst vs)) (refresh_body ?U alloc call mp) tmp (v1, s) =
        map_option snd (flow_fold (refresh_body ?U alloc call mp) tmp ns (v1, s))"
    proof (rule hs_list_foreach_fold [where I = ?I])
      fix x rest and vs vs' :: "'a win32_state"
      assume a: "?I (x # rest) vs" and b: "refresh_body ?U alloc call mp x vs = Some (Continue, vs')"
      then obtain n R where "two_queues (fst vs) mp [] [] tmp (x # rest) (n # R)"
        by (auto simp: two_queues_def queue_def)
      from refresh_body_next [OF this, of ?U alloc call "snd vs" Continue "fst vs'" "snd vs'"] b
      show "?I rest vs'" by auto
    next
      fix rest and vs :: "'a win32_state"
      assume "?I rest vs"
      then have "ring (wv_lists (fst vs)) tmp ([] @ rest)" by (auto simp: two_queues_def queue_def)
      then show "chain (l_next (wv_lists (fst vs))) rest tmp" by (rule ring_chain)
    qed (use v1(3) r in auto)
    note fe = this
    from refresh_fold_run [OF k t al kp v1(3) kn loc'] obtain x fl v2 s2 ms handled lost rest ess where f:
       "flow_fold (refresh_body ?U alloc call mp) tmp ns (v1, s) = Some (x, fl, v2, s2)"
       "sig (ext s2) = sig (ext s)" "wv_mons v2 = wv_mons v1" "two_queues v2 mp [] [] tmp ms rest"
       "Q = handled @ lost @ rest" "list_all2 note_feed handled ess" "monitor_feeds call mp s (concat ess) s2"
       "fl = Continue \<and> lost = [] \<and> rest = [] \<or> (\<exists>r < 0. fl = Return r) \<and> length lost = 1" by blast
    let ?r = "case fl of Return r \<Rightarrow> r | _ \<Rightarrow> 0"
    have "?r = 0 \<and> lost = [] \<and> rest = [] \<or> ?r < 0 \<and> length lost = 1" using f(8) by auto
    with f False fe show ?thesis
      by (intro exI [of _ ?r] exI [of _ v2] exI [of _ s2] exI [of _ ms] exI [of _ rest] exI [of _ handled] exI [of _ lost]
          exI [of _ ess]) simp
  qed
  then obtain r v2 s2 ms rest handled lost ess where w:
      "(if wm_ret m < 0 then Some (wm_ret m, v1, s)
       else do {
         (fl, vs) \<leftarrow> hs_list_foreach (\<lambda>vs. wv_lists (fst vs)) (refresh_body ?U alloc call mp) tmp (v1, s);
         Some (case fl of Return r \<Rightarrow> r | _ \<Rightarrow> 0, vs)
       }) = Some (r, v2, s2)" "sig (ext s2) = sig (ext s)" "wv_mons v2 = wv_mons v1"
      "two_queues v2 mp [] [] tmp ms rest" "Q = handled @ lost @ rest" "list_all2 note_feed handled ess"
      "monitor_feeds call mp s (concat ess) s2"
      "if wm_ret m < 0 then r = wm_ret m \<and> handled = [] \<and> lost = []
       else r = 0 \<and> lost = [] \<and> rest = [] \<or> r < 0 \<and> length lost = 1" by blast
  have m2: "wv_mons v2 mp = Some ?m" using v1(2) w(3) by simp
  have e2: "wm_event ?m = wm_event m" by simp
  obtain v3 s3 m3 ns3 new where d: "dispatch_all W nalloc mp msgs (v2, s2) = Some (v3, s3)" "idle s2 s3"
      "wv_mons v3 = (wv_mons v2)(mp \<mapsto> m3)" "wm_event m3 = wm_event m" "two_queues v3 mp ns3 ([] @ new) tmp ms rest"
      "new \<noteq> [] \<longrightarrow> sig (ext s3)" "sig (ext s2) \<longrightarrow> sig (ext s3)" "subseq new (concat (map msg_notes msgs))"
      "new = concat (map msg_notes msgs) \<and> m3 = ?m \<or> wm_ret m3 < 0"
    using dispatch_run [OF na ev m2 e2 w(4), where s = s2 and msgs = msgs] by blast
  have ev3: "event_works W (wm_event m3) sig" and m3: "wv_mons v3 mp = Some m3" using ev d(3,4) by simp_all
  obtain v4 s4 where p: "refresh_put W tmp mp (v3, s3) = Some (v4, s4)" "idle s3 s4" "wv_mons v4 = wv_mons v3"
      "queue v4 mp (ms @ ns3) (rest @ [] @ new)" "sig (ext s4) = (rest @ [] @ new \<noteq> [] \<and> sig (ext s3))"
    using put_run [OF ev3 m3 d(5)] by blast
  have "mp \<noteq> NULL" using kn by (simp add: knows_def)
  then have run: "hs_monitor_refresh_win32 W alloc nalloc msgs call tmp mp (v, s) = Some (r, v4, s4)"
    using v1(1) w(1) d(1) p(1)
    by (cases "wm_ret m < 0") (auto simp: hs_monitor_refresh_win32_def split: bind_splits)
  have f: "monitor_feeds call mp s (concat ess) s4"
    using feeds_append [OF w(7) monitor_feeds_idle [OF idle_trans [OF d(2) p(2)]]] by simp
  have "refreshed call mp m Q msgs s (concat ess) (rest @ new) r (v4, s4)"
    unfolding refreshed_def
  proof (intro exI conjI)
    show "queued (fst (v4, s4)) mp (rest @ new)" using p(4) by (auto simp: queued_def)
    show "wv_mons (fst (v4, s4)) mp = Some m3" using p(3) m3 by simp
    show "new = concat (map msg_notes msgs) \<and> wm_ret m3 = 0 \<or> wm_ret m3 < 0" using d(9) by auto
  qed (use w f d in simp_all)
  moreover have "sig (ext s4) = (rest @ new \<noteq> [])"
    using p(5) d(6,7) w(2,5) sg by auto
  ultimately show ?thesis using run by blast
qed

end
