(* ===== verification/EnumWin32.thy ===== *)
theory EnumWin32
  imports RefreshWin32
begin

text \<open>
  The enumeration of \<open>src/monitor_win32.c\<close> with the monitor's own function as callback: it ends, and tells
  the monitor only of devices of the nodes it went through.
\<close>

section \<open>Controllers\<close>

text \<open>
  What is assumed of the enumeration of a class of devices: it ends before the counter wraps around,
  gives nodes of \<open>D\<close> only, and leaves \<open>g\<close> of the world alone.
\<close>

definition enum_ends :: "'w win32_setup \<Rightarrow> ('w \<Rightarrow> 'g) \<Rightarrow> nat set \<Rightarrow> nat \<Rightarrow> bool" where
  "enum_ends U g D N \<longleftrightarrow> N < 2 ^ 32 \<and>
     (\<forall>h i w inst. fst (su_enum_device U h i w) = Some inst \<longrightarrow> unat i < N \<and> inst \<in> D) \<and>
     (\<forall>h i w. g (snd (su_enum_device U h i w)) = g w) \<and> (\<forall>x w. g (snd (su_class_devs U x w)) = g w) \<and>
     (\<forall>h w. g (su_destroy_set U h w) = g w)"

lemma enum_obs:
  assumes "enum_ends U g D N"
  shows "sys (su_enum_device U h i) s = (x, s') \<Longrightarrow> obs g s' = obs g s"
    and "sys (su_class_devs U y) s = (h', s') \<Longrightarrow> obs g s' = obs g s"
    and "obs g (sys_do (su_destroy_set U h) s) = obs g s"
  using assms unfolding enum_ends_def by (auto intro: obs_sys obs_sys_do)

lemma enum_next:
  assumes "enum_ends U g D N" and "sys (su_enum_device U h i) s = (Some inst, s')"
  shows "inst \<in> D" "unat i < N" "N - unat (i + 1) < N - unat i"
proof -
  show *: "inst \<in> D" "unat i < N" using assms fst_sys [OF assms(2)] by (auto simp: enum_ends_def)
  have "unat (i + 1) = Suc (unat i)"
    using * assms(1) unat_word_ariths(1) [of i 1] by (simp add: enum_ends_def)
  with * show "N - unat (i + 1) < N - unat i" by simp
qed

lemma add_controller_obs:
  assumes k: "setup_keeps U g" and run: "add_controller U inst index cs s = (r, cs', s')"
  shows "obs g s' = obs g s \<and> r \<le> 1"
  using run
  by (auto simp: add_controller_def Let_def fail_with_eq split: prod.splits sum.splits bool.splits if_splits
      dest!: obs_setup [OF k]) (simp_all add: obs_def)

lemma controllers_loop_run:
  assumes k: "setup_keeps U g" and e: "enum_ends U g D N"
  shows "\<exists>r cs' s'. controllers_loop U h i cs s = Some (r, cs', s') \<and> obs g s' = obs g s \<and> r \<le> 0"
proof (induction "N - unat i" arbitrary: i cs s rule: less_induct)
  case less
  obtain x s1 where x: "sys (su_enum_device U h i) s = (x, s1)" by (cases "sys (su_enum_device U h i) s")
  have o1: "obs g s1 = obs g s" by (rule enum_obs(1) [OF e x])
  show ?case
  proof (cases "x = None \<or> i + 1 = 255")
    case True
    with x o1 show ?thesis by (subst controllers_loop.simps) (auto split: option.splits)
  next
    case False
    then obtain inst where inst: "x = Some inst" "i + 1 \<noteq> 255" by auto
    obtain r cs1 s2 where c: "add_controller U inst (ucast (i + 1)) cs s1 = (r, cs1, s2)"
      by (cases "add_controller U inst (ucast (i + 1)) cs s1") auto
    have "N - unat (i + 1) < N - unat i" using enum_next(3) [OF e] x inst(1) by blast
    from less.hyps [OF this, of cs1 s2] add_controller_obs [OF k c] o1 x inst c show ?thesis
      by (subst controllers_loop.simps) auto
  qed
qed

lemma populate_controllers_run:
  assumes k: "setup_keeps U g" and e: "enum_ends U g D N"
  shows "\<exists>r cs' s'. populate_controllers U cs s = Some (r, cs', s') \<and> obs g s' = obs g s \<and> r \<le> 0"
proof (cases "cs = []")
  case True
  let ?c = "su_class_devs U (GUID_DEVINTERFACE_USB_HOST_CONTROLLER U)"
  obtain h s1 where h: "sys ?c s = (h, s1)" by (cases "sys ?c s")
  have o1: "obs g s1 = obs g s" by (rule enum_obs(2) [OF e h])
  obtain r2 s2 where f: "class_devs_error U s1 = (r2, s2)" by (cases "class_devs_error U s1")
  then have f': "obs g s2 = obs g s1" "r2 \<le> 0"
    by (auto simp: class_devs_error_def fail_with_eq obs_def)
  obtain r3 cs3 s3 where l: "controllers_loop U h 0 cs s1 = Some (r3, cs3, s3)" "obs g s3 = obs g s1" "r3 \<le> 0"
    using controllers_loop_run [OF k e] by blast
  show ?thesis
    using True h f f' o1 l by (cases "h = 0") (simp_all add: populate_controllers_def enum_obs(3) [OF e])
qed (simp add: populate_controllers_def)

section \<open>Devices\<close>

text \<open>The devices a monitor can be told of: those of the nodes \<open>D\<close>.\<close>

definition nodes_feed :: "(nat \<Rightarrow> string) \<Rightarrow> nat set \<Rightarrow> feed_event list \<Rightarrow> bool" where
  "nodes_feed id_of D es \<longleftrightarrow> (\<forall>e \<in> set es. \<exists>inst \<in> D. \<exists>i. e = Arrive (Some (id_of inst), i))"

lemma nodes_feed_known:
  assumes "nodes_feed id_of D es"
  shows "\<forall>i \<in> foldl known_after {} es. \<exists>inst \<in> D. fst i = Some (id_of inst)"
proof -
  have "\<forall>i \<in> foldl known_after K es. \<exists>inst \<in> D. fst i = Some (id_of inst)"
    if "\<forall>i \<in> K. \<exists>inst \<in> D. fst i = Some (id_of inst)" for K
    using assms that
  proof (induction es arbitrary: K)
    case (Cons e es)
    obtain inst i where e: "inst \<in> D" "e = Arrive (Some (id_of inst), i)" using Cons.prems(1) by (auto simp: nodes_feed_def)
    have "\<forall>i \<in> known_after K e. \<exists>inst \<in> D. fst i = Some (id_of inst)"
    proof
      fix j assume "j \<in> known_after K e"
      then have "j = (Some (id_of inst), i) \<or> j \<in> K" using e(2) by simp
      then show "\<exists>inst \<in> D. fst j = Some (id_of inst)"
      proof
        assume "j = (Some (id_of inst), i)"
        then show ?thesis using e(1) by (intro bexI [of _ inst]) simp_all
      qed (use Cons.prems(2) in blast)
    qed
    moreover have "nodes_feed id_of D es" using Cons.prems(1) by (simp add: nodes_feed_def)
    ultimately show ?case using Cons.IH by simp
  qed simp
  from this [of "{}"] show ?thesis by simp
qed

lemma class_loop_run:
  assumes k: "setup_keeps U g" and t: "device_tree U id_of par level" and al: "allocates alloc" and kp: "keeps g call"
    and e: "enum_ends U g D N"
  shows "knows call mp s K \<Longrightarrow> \<exists>r s' es. class_loop U alloc cs (hs_monitor_add call mp) h i s = Some (r, s') \<and> r \<le> 0 \<and>
     g (ext s') = g (ext s) \<and> monitor_feeds call mp s es s' \<and> nodes_feed id_of D es"
proof (induction "N - unat i" arbitrary: i s K rule: less_induct)
  case less
  obtain x s1 where x: "sys (su_enum_device U h i) s = (x, s1)" by (cases "sys (su_enum_device U h i) s")
  have o1: "obs g s1 = obs g s" by (rule enum_obs(1) [OF e x])
  note simps = class_loop.simps [of U alloc cs "hs_monitor_add call mp" h i s]
  show ?case
  proof (cases x)
    case None
    have "idle s s1" "g (ext s1) = g (ext s)" using o1 by (simp_all add: obs_def idle_def)
    with None simps x monitor_feeds_idle [of s s1] show ?thesis
      by (intro exI [of _ 0] exI [of _ s1] exI [of _ "[]"]) (simp add: nodes_feed_def)
  next
    case (Some inst)
    have n: "inst \<in> D" "N - unat (i + 1) < N - unat i" using enum_next [OF e] x Some by blast+
    have none: "case None of Some key \<Rightarrow> CHR 0x00 \<notin> set key | None \<Rightarrow> True" by simp
    obtain r p s2 s3 where pr: "process_win32_device U alloc cs inst None s1 = Some (r, p, s2)" "obs g s3 = obs g s1"
        "(\<exists>d. r = 1 \<and> new_device s3 p d \<and> complete (id_of inst) d \<and> s2 = device_alloc p d s3) \<or> r \<le> 0 \<and> p = NULL \<and> s2 = s3"
      using process_run [OF k t al none, of cs inst s1] unfolding option.case by blast
    have i3: "idle s s3" "g (ext s3) = g (ext s)" using o1 pr(2) by (simp_all add: obs_def idle_def)
    have kn3: "knows call mp s3 K" by (rule knows_idle [OF less.prems i3(1)])
    consider "r < 0" | "r = 0" | "r = 1" using pr(3) by force
    then show ?thesis
    proof cases
      case 1
      then have "s2 = s3" using pr(3) by auto
      with 1 simps x Some pr(1) i3 monitor_feeds_idle [OF i3(1)] show ?thesis
        by (intro exI [of _ r] exI [of _ s3] exI [of _ "[]"]) (simp add: nodes_feed_def)
    next
      case 2
      then have s2: "s2 = s3" using pr(3) by auto
      obtain r' s' es where ih: "class_loop U alloc cs (hs_monitor_add call mp) h (i + 1) s3 = Some (r', s')" "r' \<le> 0"
          "g (ext s') = g (ext s3)" "monitor_feeds call mp s3 es s'" "nodes_feed id_of D es"
        using less.hyps [OF n(2) kn3] by blast
      with 2 s2 simps x Some pr(1) i3 feeds_append [OF monitor_feeds_idle [OF i3(1)] ih(4)] show ?thesis by auto
    next
      case 3
      then obtain d where d: "new_device s3 p d" "complete (id_of inst) d" "s2 = device_alloc p d s3" using pr(3) by auto
      obtain s4 where s4: "announce call mp p d s3 = Some (0, s4)" using announce_run [OF kn3 d(1)] by blast
      have f: "monitor_feeds call mp s [Arrive (d_key d, d_iface d)] s4" by (rule monitor_feeds_arrive [OF i3(1) d(1) s4])
      have g4: "g (ext s4) = g (ext s)" using announce_ext [OF kp s4] i3(2) by simp
      obtain s5 where s5: "hs_monitor_add call mp p s2 = Some (0, s5)" "hs_device_unref p s5 = Some s4"
        using s4 d(3) by (auto simp: announce_def split: bind_splits)
      obtain r' s' es where ih: "class_loop U alloc cs (hs_monitor_add call mp) h (i + 1) s4 = Some (r', s')" "r' \<le> 0"
          "g (ext s') = g (ext s4)" "monitor_feeds call mp s4 es s'" "nodes_feed id_of D es"
        using less.hyps [OF n(2) mon.feeds_known [OF f less.prems]] by blast
      have "nodes_feed id_of D (Arrive (d_key d, d_iface d) # es)"
        using ih(5) n(1) d(2) by (auto simp: nodes_feed_def complete_def)
      with 3 simps x Some pr(1) s5 g4 ih feeds_append [OF f ih(4)] show ?thesis by auto
    qed
  qed
qed

lemma enumerate_class_run:
  assumes k: "setup_keeps U g" and t: "device_tree U id_of par level" and al: "allocates alloc" and kp: "keeps g call"
    and e: "enum_ends U g D N" and kn: "knows call mp s K"
  shows "\<exists>r s' es. enumerate_class U alloc cs guid (hs_monitor_add call mp) s = Some (r, s') \<and> r \<le> 0 \<and>
     g (ext s') = g (ext s) \<and> monitor_feeds call mp s es s' \<and> nodes_feed id_of D es"
proof -
  obtain h s1 where h: "sys (su_class_devs U guid) s = (h, s1)" by (cases "sys (su_class_devs U guid) s")
  have i1: "idle s s1" "g (ext s1) = g (ext s)" using enum_obs(2) [OF e h] by (simp_all add: obs_def idle_def)
  show ?thesis
  proof (cases "h = 0")
    case True
    obtain r2 s2 where f: "class_devs_error U s1 = (r2, s2)" by (cases "class_devs_error U s1")
    then have "idle s s2" "g (ext s2) = g (ext s)" "r2 \<le> 0"
      using i1 by (auto simp: class_devs_error_def fail_with_eq idle_def)
    with True h f monitor_feeds_idle [of s s2] show ?thesis
      by (intro exI [of _ r2] exI [of _ s2] exI [of _ "[]"]) (simp add: enumerate_class_def nodes_feed_def)
  next
    case False
    obtain r s2 es where l: "class_loop U alloc cs (hs_monitor_add call mp) h 0 s1 = Some (r, s2)" "r \<le> 0"
        "g (ext s2) = g (ext s1)" "monitor_feeds call mp s1 es s2" "nodes_feed id_of D es"
      using class_loop_run [OF k t al kp e knows_idle [OF kn i1(1)]] by blast
    let ?s = "sys_do (su_destroy_set U h) s2"
    have i2: "idle s2 ?s" "g (ext ?s) = g (ext s2)" using enum_obs(3) [OF e, of h s2] by (simp_all add: obs_def idle_def)
    have "monitor_feeds call mp s es ?s"
      using feeds_append [OF feeds_append [OF monitor_feeds_idle [OF i1(1)] l(4)] monitor_feeds_idle [OF i2(1)]] by simp
    with False h l i1 i2 show ?thesis by (auto simp: enumerate_class_def)
  qed
qed

lemma enumerate_classes_run:
  assumes k: "setup_keeps U g" and t: "device_tree U id_of par level" and al: "allocates alloc" and kp: "keeps g call"
    and e: "enum_ends U g D N"
  shows "knows call mp s K \<Longrightarrow> \<exists>r s' es. enumerate_classes U alloc cs gs (hs_monitor_add call mp) s = Some (r, s') \<and> r \<le> 0 \<and>
     g (ext s') = g (ext s) \<and> monitor_feeds call mp s es s' \<and> nodes_feed id_of D es"
proof (induction gs arbitrary: s K)
  case Nil
  then show ?case using feed_nil by (intro exI [of _ 0] exI [of _ s] exI [of _ "[]"]) (simp add: nodes_feed_def)
next
  case (Cons guid gs)
  obtain r1 s1 es1 where c: "enumerate_class U alloc cs guid (hs_monitor_add call mp) s = Some (r1, s1)" "r1 \<le> 0"
      "g (ext s1) = g (ext s)" "monitor_feeds call mp s es1 s1" "nodes_feed id_of D es1"
    using enumerate_class_run [OF k t al kp e Cons.prems] by blast
  obtain r2 s2 es2 where r: "enumerate_classes U alloc cs gs (hs_monitor_add call mp) s1 = Some (r2, s2)" "r2 \<le> 0"
      "g (ext s2) = g (ext s1)" "monitor_feeds call mp s1 es2 s2" "nodes_feed id_of D es2"
    using Cons.IH [OF mon.feeds_known [OF c(4) Cons.prems]] by blast
  have "nodes_feed id_of D (es1 @ es2)" using c(5) r(5) by (auto simp: nodes_feed_def)
  with c r feeds_append [OF c(4) r(4)] show ?case by (cases "r1 = 0") auto
qed

lemma enumerate_run:
  assumes k: "setup_keeps U g" and t: "device_tree U id_of par level" and al: "allocates alloc" and kp: "keeps g call"
    and e: "enum_ends U g D N" and kn: "knows call mp s K"
  shows "\<exists>r cs' s' es. hs_enumerate_win32 U alloc (hs_monitor_add call mp) cs s = Some (r, cs', s') \<and> r \<le> 0 \<and>
     g (ext s') = g (ext s) \<and> monitor_feeds call mp s es s' \<and> nodes_feed id_of D es"
proof -
  obtain r1 cs1 s1 where p: "populate_controllers U cs s = Some (r1, cs1, s1)" "obs g s1 = obs g s" "r1 \<le> 0"
    using populate_controllers_run [OF k e] by blast
  have i1: "idle s s1" "g (ext s1) = g (ext s)" using p(2) by (simp_all add: obs_def idle_def)
  obtain r2 s2 es where c: "enumerate_classes U alloc cs1 (device_classes U) (hs_monitor_add call mp) s1 = Some (r2, s2)"
      "r2 \<le> 0" "g (ext s2) = g (ext s1)" "monitor_feeds call mp s1 es s2" "nodes_feed id_of D es"
    using enumerate_classes_run [OF k t al kp e knows_idle [OF kn i1(1)]] by blast
  show ?thesis
  proof (cases "r1 < 0")
    case True
    with p i1 monitor_feeds_idle [OF i1(1)] show ?thesis
      by (intro exI [of _ r1] exI [of _ cs1] exI [of _ s1] exI [of _ "[]"]) (simp add: hs_enumerate_win32_def nodes_feed_def)
  next
    case False
    with p c i1 feeds_append [OF monitor_feeds_idle [OF i1(1)] c(4)] show ?thesis
      by (auto simp: hs_enumerate_win32_def)
  qed
qed

end
