(* ===== verification/LifecycleWin32.thy ===== *)
theory LifecycleWin32
  imports EnumWin32
begin

text \<open>
  The life of a monitor of \<open>src/monitor_win32.c\<close>: what \<open>hs_monitor_new\<close> leaves behind when it succeeds and
  when it fails, and \<open>hs_monitor_free\<close>.
\<close>

section \<open>Freeing\<close>

text \<open>What is assumed of the rest of the thread: it ends, and touches only the monitor's own data.\<close>

definition ends_cleanly :: "('w win32_state \<Rightarrow> 'w win32_state option) \<Rightarrow> addr \<Rightarrow> bool" where
  "ends_cleanly rest mp \<longleftrightarrow>
     (\<forall>v s Q m. queued v mp Q \<longrightarrow> wv_mons v mp = Some m \<longrightarrow>
        (\<exists>v' s' Q' m'. rest (v, s) = Some (v', s') \<and> idle s s' \<and> queued v' mp Q' \<and> wv_mons v' mp = Some m'))"

lemma foreach_free_run:
  assumes q: "queue v h ns Q"
  shows "\<exists>v'. hs_list_foreach wv_lists free_notification_body h v = Some (Continue, v') \<and> wv_mons v' = wv_mons v \<and>
     wv_controllers v' = wv_controllers v \<and> (\<forall>n \<in> set ns. wv_notes v' n = None \<and> l_next (wv_lists v') n = None)"
proof -
  let ?I = "\<lambda>rest u. chain (l_next (wv_lists u)) rest h \<and> distinct (h # rest) \<and> set rest \<subseteq> set ns \<and>
      (\<forall>n \<in> set rest. wv_notes u n \<noteq> None) \<and> (\<forall>n \<in> set ns - set rest. wv_notes u n = None \<and> l_next (wv_lists u) n = None) \<and>
      wv_mons u = wv_mons v \<and> wv_controllers u = wv_controllers v"
  have step: "\<exists>u'. free_notification_body x u = Some (Continue, u') \<and> ?I rest u'" if "?I (x # rest) u" for x rest u
  proof -
    have "wv_notes u x \<noteq> None" using that by simp
    then obtain n where n: "wv_notes u x = Some n" by auto
    let ?u = "free_notification x u"
    have "chain (l_next (wv_lists ?u)) rest h = chain (l_next (wv_lists u)) rest h"
      by (rule chain_cong) (use that in \<open>auto simp: free_notification_def list_free_def\<close>)
    with that n show ?thesis
      by (auto simp: free_notification_body_def seg_simps) (auto simp: free_notification_def list_free_def)
  qed
  have r: "ring (wv_lists v) h ([] @ ns)" "map (wv_notes v) ns = map Some Q" using q by (simp_all add: queue_def)
  have "wv_notes v n \<noteq> None" if "n \<in> set ns" for n
  proof -
    have "wv_notes v n \<in> set (map (wv_notes v) ns)" using that by simp
    then show ?thesis unfolding r(2) by auto
  qed
  moreover have "distinct (h # ns)" using r(1) by (simp add: ring_def)
  ultimately have start: "?I ns v" using ring_chain [OF r(1)] by simp
  have "hs_list_foreach wv_lists free_notification_body h v = map_option snd (flow_fold free_notification_body h ns v)"
  proof (rule hs_list_foreach_fold [where I = ?I])
    show "?I rest u'" if "?I (x # rest) u" "free_notification_body x u = Some (Continue, u')" for x rest u u'
      using step [OF that(1)] that(2) by simp
  qed (use start r(1) in simp_all)
  moreover obtain v' where "flow_fold free_notification_body h ns v = Some (h, Continue, v')" "?I [] v'"
    using flow_fold_Continue [where I = ?I and body = free_notification_body and h = h, OF step start] by blast
  ultimately show ?thesis by auto
qed

lemma free_win32_run:
  assumes mp: "mp \<noteq> NULL" and rel: "\<exists>s1. hs_monitor_release mp s = Some s1" and q: "queued v mp Q"
    and m: "wv_mons v mp = Some m" and rest: "ends_cleanly rest mp"
  shows "\<exists>v' s'. hs_monitor_free_win32 W rest mp (v, s) = Some (v', s') \<and> wv_mons v' mp = None \<and> mons s' mp = None"
proof -
  obtain s1 where s1: "hs_monitor_release mp s = Some s1" using rel by blast
  let ?thread = "if wm_thread m \<noteq> 0 then do {
             (v, s) \<leftarrow>
               (if wm_hwnd m \<noteq> 0 then do {
                  (v, s) \<leftarrow> rest (v, sys_do (ww_post_close W (wm_hwnd m)) s1);
                  Some (v, snd (sys (ww_wait W (wm_thread m)) s))
                }
                else Some (v, s1));
             Some (v, sys_do (w_close_handle (ww_os W) (wm_thread m)) s)
           }
           else Some (v, s1)"
  have "\<exists>v2 s2 Q2. ?thread = Some (v2, s2) \<and> queued v2 mp Q2"
  proof (cases "wm_thread m \<noteq> 0 \<and> wm_hwnd m \<noteq> 0")
    case True
    obtain v2 s2 Q2 where "rest (v, sys_do (ww_post_close W (wm_hwnd m)) s1) = Some (v2, s2)" "queued v2 mp Q2"
      using rest q m unfolding ends_cleanly_def by blast
    with True show ?thesis by auto
  qed (use q in auto)
  then obtain v2 s2 Q2 where t: "?thread = Some (v2, s2)" "queued v2 mp Q2" by blast
  from t(2) obtain ns where ns: "queue v2 mp ns Q2" by (auto simp: queued_def)
  obtain v3 where f: "hs_list_foreach wv_lists free_notification_body mp v2 = Some (Continue, v3)"
    using foreach_free_run [OF ns] by blast
  show ?thesis
    using mp s1 m t(1) f by (simp add: hs_monitor_free_win32_def monitor_free_def Let_def)
qed

section \<open>The thread\<close>

lemma cleanup_run:
  assumes m: "wv_mons v mp = Some m"
  shows "\<exists>v' s' m'. thread_cleanup W mp notify r (v, s) = Some (v', s') \<and> idle s s' \<and> v' = v\<lparr>wv_mons := (wv_mons v)(mp \<mapsto> m')\<rparr> \<and>
     wm_event m' = wm_event m \<and> wm_thread m' = wm_thread m \<and> wm_hwnd m' = wm_hwnd m \<and>
     wm_ret m' = (if r < 0 then r else wm_ret m)"
proof -
  have v: "v\<lparr>wv_mons := (wv_mons v)(mp \<mapsto> m)\<rparr> = v" using m by (simp add: fun_upd_idem)
  let ?m = "if r < 0 then m\<lparr>wm_ret := r\<rparr> else m"
  have "\<exists>s'. thread_cleanup W mp notify r (v, s) = Some (v\<lparr>wv_mons := (wv_mons v)(mp \<mapsto> ?m)\<rparr>, s') \<and> idle s s'"
    using m by (cases "r < 0") (simp_all add: thread_cleanup_def Let_def idle_def sys_do_def v)
  then show ?thesis by fastforce
qed

lemma system_error_run: "system_error W x s = (r, s') \<Longrightarrow> idle s s' \<and> r < 0"
  by (auto simp: system_error_def fail_with_eq idle_def)

lemma sys_idle: "sys f s = (x, s') \<Longrightarrow> idle s s'"
  by (auto simp: sys_def idle_def split: prod.splits)

text \<open>The thread is ready, or has recorded an error.\<close>

lemma thread_start_run:
  assumes m: "wv_mons v mp = Some m"
  shows "\<exists>notify v' s' m'. thread_start W mp (v, s) = Some (notify, v', s') \<and> idle s s' \<and>
     v' = v\<lparr>wv_mons := (wv_mons v)(mp \<mapsto> m')\<rparr> \<and> wm_event m' = wm_event m \<and> wm_thread m' = wm_thread m \<and>
     (notify \<noteq> 0 \<and> wm_ret m' = wm_ret m \<or> notify = 0 \<and> wm_ret m' < 0)"
proof -
  have fail: "\<exists>notify v' s' m'. (let (r, s) = system_error W x s2 in do {
        vs \<leftarrow> thread_cleanup W mp 0 r (v\<lparr>wv_mons := (wv_mons v)(mp \<mapsto> m2)\<rparr>, s);
        Some (0 :: nat, vs)
      }) = Some (notify, v', s') \<and> idle s s' \<and>
      v' = v\<lparr>wv_mons := (wv_mons v)(mp \<mapsto> m')\<rparr> \<and> wm_event m' = wm_event m \<and> wm_thread m' = wm_thread m \<and>
      (notify \<noteq> 0 \<and> wm_ret m' = wm_ret m \<or> notify = 0 \<and> wm_ret m' < 0)"
    if "idle s s2" "wm_event m2 = wm_event m" "wm_thread m2 = wm_thread m" for x s2 m2
  proof -
    obtain r s3 where e: "system_error W x s2 = (r, s3)" by (cases "system_error W x s2")
    note e' = system_error_run [OF e]
    let ?v = "v\<lparr>wv_mons := (wv_mons v)(mp \<mapsto> m2)\<rparr>"
    obtain v' s' m' where c: "thread_cleanup W mp 0 r (?v, s3) = Some (v', s')" "idle s3 s'"
        "v' = ?v\<lparr>wv_mons := (wv_mons ?v)(mp \<mapsto> m')\<rparr>" "wm_event m' = wm_event m2" "wm_thread m' = wm_thread m2"
        "wm_ret m' = (if r < 0 then r else wm_ret m2)"
      using cleanup_run [of ?v mp m2 W 0 r s3] by auto
    have "idle s s'" using idle_trans [OF idle_trans [OF that(1) conjunct1 [OF e']] c(2)] .
    with e e' c that show ?thesis by auto
  qed
  have v: "v = v\<lparr>wv_mons := (wv_mons v)(mp \<mapsto> m)\<rparr>" using m by (simp add: fun_upd_idem)
  obtain atom s1 where 1: "sys (ww_register_class W) s = (atom, s1)" by (cases "sys (ww_register_class W) s")
  obtain hwnd s2 where 2: "sys (ww_create_window W) s1 = (hwnd, s2)" by (cases "sys (ww_create_window W) s1")
  obtain ok s3 where 3: "sys (ww_set_user_data W hwnd) s2 = (ok, s3)" by (cases "sys (ww_set_user_data W hwnd) s2")
  obtain notify s4 where 4: "sys (ww_register_notify W hwnd) s3 = (notify, s4)" by (cases "sys (ww_register_notify W hwnd) s3")
  have i1: "idle s s1" by (rule sys_idle [OF 1])
  have i2: "idle s s2" by (rule idle_trans [OF i1 sys_idle [OF 2]])
  have i3: "idle s s3" by (rule idle_trans [OF i2 sys_idle [OF 3]])
  have i4: "idle s s4" by (rule idle_trans [OF i3 sys_idle [OF 4]])
  let ?m = "m\<lparr>wm_hwnd := hwnd\<rparr>"
  consider "\<not> atom" | "atom" "hwnd = 0" | "atom" "hwnd \<noteq> 0" "\<not> ok" | "atom" "hwnd \<noteq> 0" "ok" "notify = 0"
    | "atom" "hwnd \<noteq> 0" "ok" "notify \<noteq> 0" by blast
  then show ?thesis
  proof cases
    case 1
    with \<open>sys (ww_register_class W) s = (atom, s1)\<close> fail [OF i1, of m "''RegisterClass''"] m v
    show ?thesis by (simp add: thread_start_def)
  next
    case 2
    with \<open>sys (ww_register_class W) s = (atom, s1)\<close> \<open>sys (ww_create_window W) s1 = (hwnd, s2)\<close> m
      fail [OF i2, of ?m "''CreateWindow''"]
    show ?thesis by (simp add: thread_start_def)
  next
    case 3
    with \<open>sys (ww_register_class W) s = (atom, s1)\<close> \<open>sys (ww_create_window W) s1 = (hwnd, s2)\<close>
      \<open>sys (ww_set_user_data W hwnd) s2 = (ok, s3)\<close> m fail [OF i3, of ?m "''SetWindowLongPtr''"]
    show ?thesis by (simp add: thread_start_def)
  next
    case 4
    with \<open>sys (ww_register_class W) s = (atom, s1)\<close> \<open>sys (ww_create_window W) s1 = (hwnd, s2)\<close>
      \<open>sys (ww_set_user_data W hwnd) s2 = (ok, s3)\<close> \<open>sys (ww_register_notify W hwnd) s3 = (notify, s4)\<close>
      m fail [OF i4, of ?m "''RegisterDeviceNotification''"]
    show ?thesis by (simp add: thread_start_def)
  next
    case 5
    have "idle s (sys_do (ww_set_event W (wm_event m)) s4)" using i4 by (simp add: idle_def sys_do_def)
    with 5 \<open>sys (ww_register_class W) s = (atom, s1)\<close> \<open>sys (ww_create_window W) s1 = (hwnd, s2)\<close>
      \<open>sys (ww_set_user_data W hwnd) s2 = (ok, s3)\<close> \<open>sys (ww_register_notify W hwnd) s3 = (notify, s4)\<close> m
    show ?thesis
      by (intro exI [of _ notify] exI [of _ "v\<lparr>wv_mons := (wv_mons v)(mp \<mapsto> ?m)\<rparr>"]
          exI [of _ "sys_do (ww_set_event W (wm_event m)) s4"] exI [of _ ?m]) (simp add: thread_start_def)
  qed
qed

section \<open>Creating\<close>

text \<open>Every event the system creates can be set and reset; \<open>sig e\<close> is the state of the event \<open>e\<close>.\<close>

definition events_work :: "'w win32_window \<Rightarrow> (nat \<Rightarrow> 'w \<Rightarrow> bool) \<Rightarrow> bool" where
  "events_work W sig \<longleftrightarrow> (\<forall>w e. fst (w_create_event (ww_os W) w) = Inr e \<longrightarrow> event_works W e (sig e))"

definition gone :: "addr \<Rightarrow> (int \<times> addr option \<times> 'w win32_state) option \<Rightarrow> bool" where
  "gone p res \<longleftrightarrow> (\<exists>r < 0. \<exists>v' s'. res = Some (r, None, v', s') \<and> mons s' p = None \<and> wv_mons v' p = None)"

lemma fail_run:
  assumes "r < 0" and "mp \<noteq> NULL" and "\<exists>s1. hs_monitor_release mp s = Some s1" and "queued v mp Q"
    and "wv_mons v mp = Some m" and "ends_cleanly rest mp"
  shows "gone mp (monitor_new_fail_win32 W rest mp r (v, s))"
  using free_win32_run [OF assms(2-6), of W] assms(1) by (auto simp: monitor_new_fail_win32_def gone_def)

lemma wait_event_run: "wait_event W ev s = (r, s') \<Longrightarrow> idle s s'"
  by (auto simp: wait_event_def Let_def split: prod.splits if_splits dest!: sys_idle system_error_run intro: idle_trans)

lemma queued_with: "queued v mp Q \<longleftrightarrow> (\<exists>ns. queue_with v mp ns Q {})"
  by (simp add: queued_def queue_with_def)

lemma start_thread_run:
  assumes na: "note_allocates nalloc" and ev: "event_works W (wm_event m) sig" and rest: "ends_cleanly rest mp"
    and kn: "knows call mp s K" and q: "queued v mp []" and m: "wv_mons v mp = Some m" "wm_ret m = 0"
  shows "(\<exists>v' s' m' new. monitor_start_thread W nalloc rest msgs late mp (v, s) = Some (0, Some mp, v', s') \<and>
       knows call mp s' K \<and> idle s s' \<and> queued v' mp (concat (map msg_notes msgs) @ new) \<and>
       subseq new (concat (map msg_notes late)) \<and> wv_mons v' mp = Some m' \<and> wm_event m' = wm_event m \<and>
       (new = concat (map msg_notes late) \<or> wm_ret m' < 0) \<and> \<not> sig (ext s')) \<or>
     gone mp (monitor_start_thread W nalloc rest msgs late mp (v, s)) \<or>
     (\<exists>r < 0. \<exists>v' s'. monitor_start_thread W nalloc rest msgs late mp (v, s) = Some (r, None, v', s') \<and>
        fst (ww_begin_thread W (ext s)) = 0 \<and> knows call mp s' K \<and> wv_mons v' mp \<noteq> None)"
proof -
  let ?run = "monitor_start_thread W nalloc rest msgs late mp (v, s)"
  have mp: "mp \<noteq> NULL" using kn by (simp add: knows_def)
  obtain th s1 where th: "sys (ww_begin_thread W) s = (th, s1)" by (cases "sys (ww_begin_thread W) s")
  have i1: "idle s s1" by (rule sys_idle [OF th])
  let ?m = "m\<lparr>wm_thread := th\<rparr>" and ?v = "v\<lparr>wv_mons := (wv_mons v)(mp \<mapsto> m\<lparr>wm_thread := th\<rparr>)\<rparr>"
  have fail: "gone mp (monitor_new_fail_win32 W rest mp r (v', s'))"
    if "r < 0" "idle s s'" "queued v' mp Q" "wv_mons v' mp = Some m'" for r v' s' Q m'
    by (rule fail_run [OF that(1) mp release_knows [OF knows_idle [OF kn that(2)]] that(3,4) rest])
  show ?thesis
  proof (cases "th = 0")
    case True
    obtain r s2 where e: "system_error W ''_beginthreadex'' s1 = (r, s2)" by (cases "system_error W ''_beginthreadex'' s1")
    note e' = system_error_run [OF e]
    have "fst (ww_begin_thread W (ext s)) = 0" using fst_sys [OF th] True by simp
    moreover have "knows call mp s2 K" using e' by (blast intro: knows_idle [OF kn idle_trans [OF i1]])
    moreover have "?run = Some (r, None, ?v, s2)" using True th e m(1) by (simp add: monitor_start_thread_def)
    ultimately show ?thesis using e' by auto
  next
    case False
    have vm: "wv_mons ?v mp = Some ?m" by simp
    obtain notify v2 s2 m2 where st: "thread_start W mp (?v, s1) = Some (notify, v2, s2)" "idle s1 s2"
        "v2 = ?v\<lparr>wv_mons := (wv_mons ?v)(mp \<mapsto> m2)\<rparr>" "wm_event m2 = wm_event ?m"
        "notify \<noteq> 0 \<and> wm_ret m2 = wm_ret ?m \<or> notify = 0 \<and> wm_ret m2 < 0"
      using thread_start_run [where W = W and s = s1, OF vm] by blast
    have i2: "idle s s2" by (rule idle_trans [OF i1 st(2)])
    have m2: "wv_mons v2 mp = Some m2" "wm_event m2 = wm_event m" using st(3,4) by simp_all
    have q2: "queued v2 mp []" using q st(3) by (simp add: queued_def queue_def)
    then obtain ns2 where ns2: "queue_with v2 mp ns2 [] {}" by (auto simp: queued_with)
    obtain v3 s3 m3 ns3 Q3 where d: "dispatch_all W nalloc mp msgs (v2, s2) = Some (v3, s3)" "idle s2 s3"
        "wv_mons v3 = (wv_mons v2)(mp \<mapsto> m3)" "wm_event m3 = wm_event m" "queue_with v3 mp ns3 ([] @ Q3) {}"
        "Q3 = concat (map msg_notes msgs) \<and> m3 = m2 \<or> wm_ret m3 < 0"
      using dispatch_run [OF na ev m2 ns2, where s = s2 and msgs = msgs] by blast
    define vs4 where "vs4 = (if notify \<noteq> 0 then (v3, s3) else (v2, s2))"
    obtain v4 s4 where vs4: "vs4 = (v4, s4)" by (cases vs4)
    have run4: "(if notify \<noteq> 0 then dispatch_all W nalloc mp msgs (v2, s2) else Some (v2, s2)) = Some (v4, s4)"
      using d(1) vs4 unfolding vs4_def by (cases "notify = 0") simp_all
    have 4: "\<exists>m4 Q4. wv_mons v4 mp = Some m4 \<and> wm_event m4 = wm_event m \<and> queued v4 mp Q4 \<and> idle s s4 \<and>
        (wm_ret m4 < 0 \<or> wm_ret m4 = 0 \<and> Q4 = concat (map msg_notes msgs))"
    proof (cases "notify = 0")
      case True
      with vs4 st(5) m2 q2 i2 show ?thesis by (auto simp: vs4_def)
    next
      case False
      then have "v4 = v3" "s4 = s3" "wm_ret m2 = 0" using vs4 st(5) m(2) by (simp_all add: vs4_def)
      moreover have "queued v3 mp Q3" using d(5) by (auto simp: queued_with)
      ultimately show ?thesis using d(3,4,6) idle_trans [OF i2 d(2)]
        by (intro exI [of _ m3] exI [of _ Q3]) auto
    qed
    then obtain m4 Q4 where 4: "wv_mons v4 mp = Some m4" "wm_event m4 = wm_event m" "queued v4 mp Q4" "idle s s4"
        "wm_ret m4 < 0 \<or> wm_ret m4 = 0 \<and> Q4 = concat (map msg_notes msgs)" by blast
    obtain r5 s5 where w: "wait_event W (wm_event m) s4 = (r5, s5)" by (cases "wait_event W (wm_event m) s4")
    have i5: "idle s s5" by (rule idle_trans [OF 4(4) wait_event_run [OF w]])
    have run: "?run = (if r5 < 0 then monitor_new_fail_win32 W rest mp r5 (v4, s5)
       else if wm_ret m4 < 0 then monitor_new_fail_win32 W rest mp (wm_ret m4) (v4, s5)
       else do {
         (v, s) \<leftarrow> dispatch_all W nalloc mp late (v4, s5);
         Some (0, Some mp, v, sys_do (ww_reset_event W (wm_event m4)) s)
       })"
      using th False m(1) st(1) run4 w 4(1) by (simp add: monitor_start_thread_def)
    show ?thesis
    proof (cases "r5 < 0 \<or> wm_ret m4 < 0")
      case True
      with run fail [OF _ i5 4(3,1)] show ?thesis by auto
    next
      case ok: False
      obtain ns5 where ns5: "queue_with v4 mp ns5 (concat (map msg_notes msgs)) {}"
        using 4(3,5) ok by (auto simp: queued_with)
      obtain v6 s6 m6 ns6 new where l: "dispatch_all W nalloc mp late (v4, s5) = Some (v6, s6)" "idle s5 s6"
          "wv_mons v6 = (wv_mons v4)(mp \<mapsto> m6)" "wm_event m6 = wm_event m"
          "queue_with v6 mp ns6 (concat (map msg_notes msgs) @ new) {}" "subseq new (concat (map msg_notes late))"
          "new = concat (map msg_notes late) \<and> m6 = m4 \<or> wm_ret m6 < 0"
        using dispatch_run [OF na ev 4(1,2) ns5, where s = s5 and msgs = late] by blast
      let ?s = "sys_do (ww_reset_event W (wm_event m4)) s6"
      have "\<not> sig (ext ?s)" using ev 4(2) by (simp add: sys_do_def event_works_def)
      moreover have i7: "idle s ?s" using idle_trans [OF i5 l(2)] by (simp add: idle_def sys_do_def)
      moreover have "queued v6 mp (concat (map msg_notes msgs) @ new)" using l(5) by (auto simp: queued_with)
      ultimately show ?thesis using run ok l(1,3,4,6,7) knows_idle [OF kn i7] by auto
    qed
  qed
qed

text \<open>
  A new monitor knows what the enumeration announced, and its queue holds the notifications since the
  thread is ready. When the thread cannot be created the monitor is neither returned nor freed.
\<close>

lemma monitor_new_run:
  assumes na: "note_allocates nalloc" and al: "allocates alloc" and fr: "friendly call" and p: "p \<noteq> NULL"
    and ev: "events_work W sig"
    and t: "device_tree (ww_setup W) id_of par level" and e: "enum_ends (ww_setup W) (\<lambda>w. ()) D N"
    and rest: "ends_cleanly rest p" and hp: "{hp ..< hp + 64} \<inter> dom (devs s) = {}"
  shows "(\<exists>v' s' m es new. hs_monitor_new_win32 W alloc nalloc rest msgs late call p hp (v, s) = Some (0, Some p, v', s') \<and>
       knows call p s' (foldl known_after {} es) \<and> nodes_feed id_of D es \<and>
       queued v' p (concat (map msg_notes msgs) @ new) \<and> subseq new (concat (map msg_notes late)) \<and>
       wv_mons v' p = Some m \<and> (new = concat (map msg_notes late) \<or> wm_ret m < 0) \<and> \<not> sig (wm_event m) (ext s')) \<or>
     gone p (hs_monitor_new_win32 W alloc nalloc rest msgs late call p hp (v, s)) \<or>
     (\<exists>r < 0. \<exists>v' s' es w. hs_monitor_new_win32 W alloc nalloc rest msgs late call p hp (v, s) = Some (r, None, v', s') \<and>
        fst (ww_begin_thread W w) = 0 \<and> knows call p s' (foldl known_after {} es) \<and> wv_mons v' p \<noteq> None)"
proof -
  let ?new = "hs_monitor_new_win32 W alloc nalloc rest msgs late call p hp (v, s)"
  have k: "setup_keeps (ww_setup W) (\<lambda>w. ())" and kp: "keeps (\<lambda>w. ()) call" by (simp_all add: setup_keeps_def keeps_def)
  let ?s1 = "monitor_alloc p s"
  have "list_allocated (list_alloc (wv_lists v) p) p" using p by (simp add: list_allocated_def list_alloc_def)
  then obtain l where l: "hs_list_init (list_alloc (wv_lists v) p) p = Some l" "ring l p []"
    using hs_list_init_ring by blast
  let ?m = "\<lparr>wm_ret = 0, wm_event = 0, wm_thread = 0, wm_hwnd = 0\<rparr>"
  let ?v1 = "v\<lparr>wv_lists := l, wv_mons := (wv_mons v)(p \<mapsto> ?m)\<rparr>"
  have q1: "queued ?v1 p []" using l(2) by (auto simp: queued_def queue_def)
  have z1: "mons ?s1 p = Some zero_monitor" "list_allocated (lists ?s1) p" "devs ?s1 = devs s"
      "l_next (lists ?s1) p = Some NULL"
    using p by (simp_all add: monitor_alloc_def list_allocated_def list_alloc_def)
  obtain ev s2 where c: "sys (w_create_event (ww_os W)) ?s1 = (ev, s2)" by (cases "sys (w_create_event (ww_os W)) ?s1")
  have i2: "idle ?s1 s2" by (rule sys_idle [OF c])
  show ?thesis
  proof (cases ev)
    case (Inl err)
    obtain r s3 where f: "fail_with HS_ERROR_SYSTEM (Some (''CreateEvent() failed: '' @ hs_win32_strerror (ww_os W) err)) s2 = (r, s3)"
      by (rule prod.exhaust)
    then have i3: "idle ?s1 s3" "r < 0" using i2 by (auto simp: fail_with_eq idle_def)
    have "\<exists>s'. hs_monitor_release p s3 = Some s'"
      by (rule release_empty [of _ _ zero_monitor]) (use i3 z1 p in \<open>simp_all add: idle_def zero_monitor_def\<close>)
    from fail_run [OF i3(2) p this q1 _ rest, of ?m W] have "gone p ?new"
      using p l(1) c Inl f by (simp add: hs_monitor_new_win32_def)
    then show ?thesis by blast
  next
    case (Inr e')
    have works: "event_works W e' (sig e')" using ev fst_sys [OF c] Inr by (auto simp: events_work_def)
    let ?m' = "?m\<lparr>wm_event := e'\<rparr>" and ?v2 = "?v1\<lparr>wv_mons := (wv_mons ?v1)(p \<mapsto> ?m\<lparr>wm_event := e'\<rparr>)\<rparr>"
    have q2: "queued ?v2 p []" using l(2) by (auto simp: queued_def queue_def)
    have z2: "mons s2 p = Some zero_monitor" "list_allocated (lists s2) p" "{hp ..< hp + 64} \<inter> dom (devs s2) = {}"
      using z1 i2 hp by (simp_all add: idle_def)
    obtain r3 s3 where i: "hs_monitor_init hp p s2 = Some (r3, s3)"
        "r3 = 0 \<and> knows call p s3 {} \<or> r3 < 0 \<and> (\<exists>s''. hs_monitor_release p s3 = Some s'')"
      using monitor_init_run [OF z2(1,2) fr z2(3)] by blast
    show ?thesis
    proof (cases "r3 < 0")
      case True
      with i(2) have "\<exists>s''. hs_monitor_release p s3 = Some s''" by auto
      from fail_run [OF True p this q2 _ rest, of ?m' W] have "gone p ?new"
        using p l(1) c Inr i(1) True by (simp add: hs_monitor_new_win32_def)
      then show ?thesis by blast
    next
      case False
      then have kn: "knows call p s3 {}" using i(2) by auto
      obtain r4 cs4 s4 es where en: "hs_enumerate_win32 (ww_setup W) alloc (hs_monitor_add call p) (wv_controllers ?v2) s3 =
          Some (r4, cs4, s4)" "r4 \<le> 0" "monitor_feeds call p s3 es s4" "nodes_feed id_of D es"
        using enumerate_run [OF k t al kp e kn] by blast
      let ?v4 = "?v2\<lparr>wv_controllers := cs4\<rparr>"
      have q4: "queued ?v4 p []" using l(2) by (auto simp: queued_def queue_def)
      have kn4: "knows call p s4 (foldl known_after {} es)" by (rule mon.feeds_known [OF en(3) kn])
      show ?thesis
      proof (cases "r4 < 0")
        case True
        from fail_run [OF True p release_knows [OF kn4] q4 _ rest, of ?m' W] have "gone p ?new"
          using p l(1) c Inr i False en(1) True by (simp add: hs_monitor_new_win32_def)
        then show ?thesis by blast
      next
        case ok: False
        have run: "?new = monitor_start_thread W nalloc rest msgs late p (?v4, s4)"
          using p l(1) c Inr i False en(1) ok by (simp add: hs_monitor_new_win32_def)
        have ev': "event_works W (wm_event ?m') (sig e')" using works by simp
        have m4: "wv_mons ?v4 p = Some ?m'" "wm_ret ?m' = 0" by simp_all
        from start_thread_run [OF na ev' rest kn4 q4 m4, where msgs = msgs and late = late] show ?thesis
        proof (elim disjE)
          assume "\<exists>v' s' m' new. monitor_start_thread W nalloc rest msgs late p (?v4, s4) = Some (0, Some p, v', s') \<and>
              knows call p s' (foldl known_after {} es) \<and> idle s4 s' \<and> queued v' p (concat (map msg_notes msgs) @ new) \<and>
              subseq new (concat (map msg_notes late)) \<and> wv_mons v' p = Some m' \<and> wm_event m' = wm_event ?m' \<and>
              (new = concat (map msg_notes late) \<or> wm_ret m' < 0) \<and> \<not> sig e' (ext s')"
          then obtain v' s' m' new where o:
              "monitor_start_thread W nalloc rest msgs late p (?v4, s4) = Some (0, Some p, v', s')"
              "knows call p s' (foldl known_after {} es)" "queued v' p (concat (map msg_notes msgs) @ new)"
              "subseq new (concat (map msg_notes late))" "wv_mons v' p = Some m'" "wm_event m' = wm_event ?m'"
              "new = concat (map msg_notes late) \<or> wm_ret m' < 0" "\<not> sig e' (ext s')" by blast
          have "\<not> sig (wm_event m') (ext s')" using o(6,8) by simp
          with run en(4) o(1-5,7) show ?thesis by (intro disjI1 [where Q = "gone p _ \<or> _"] exI conjI) (assumption | simp)+
        next
          assume "gone p (monitor_start_thread W nalloc rest msgs late p (?v4, s4))"
          with run show ?thesis by simp
        next
          assume "\<exists>r < 0. \<exists>v' s'. monitor_start_thread W nalloc rest msgs late p (?v4, s4) = Some (r, None, v', s') \<and>
              fst (ww_begin_thread W (ext s4)) = 0 \<and> knows call p s' (foldl known_after {} es) \<and> wv_mons v' p \<noteq> None"
          then obtain r v' s' where "r < 0" "monitor_start_thread W nalloc rest msgs late p (?v4, s4) = Some (r, None, v', s')"
            "fst (ww_begin_thread W (ext s4)) = 0" "knows call p s' (foldl known_after {} es)" "wv_mons v' p \<noteq> None" by blast
          with run show ?thesis by (intro disjI2 exI conjI) (assumption | simp)+
        qed
      qed
    qed
  qed
qed

text \<open>The thread as it is: it handles the messages left and cleans up.\<close>

lemma thread_ends_cleanly:
  assumes na: "note_allocates nalloc" and ev: "\<And>e. event_works W e sig"
  shows "ends_cleanly (\<lambda>vs. do { vs \<leftarrow> dispatch_all W nalloc mp msgs vs; thread_cleanup W mp notify 0 vs }) mp"
  unfolding ends_cleanly_def
proof (intro allI impI)
  fix v s Q m assume q: "queued v mp Q" and m: "wv_mons v mp = Some m"
  from q obtain ns where ns: "queue_with v mp ns Q {}" by (auto simp: queued_with)
  obtain v1 s1 m1 ns1 Q1 where d: "dispatch_all W nalloc mp msgs (v, s) = Some (v1, s1)" "idle s s1"
      "wv_mons v1 = (wv_mons v)(mp \<mapsto> m1)" "queue_with v1 mp ns1 (Q @ Q1) {}"
    using dispatch_run [OF na ev m refl ns, where s = s and msgs = msgs] by blast
  have m1: "wv_mons v1 mp = Some m1" using d(3) by simp
  obtain v2 s2 m2 where c: "thread_cleanup W mp notify 0 (v1, s1) = Some (v2, s2)" "idle s1 s2"
      "v2 = v1\<lparr>wv_mons := (wv_mons v1)(mp \<mapsto> m2)\<rparr>"
    using cleanup_run [OF m1, of W notify 0 s1] by auto
  have "queued v2 mp (Q @ Q1)" using d(4) c(3) by (auto simp: queued_def queue_with_def queue_def)
  with d(1) c idle_trans [OF d(2) c(2)] show "\<exists>v' s' Q' m'. (dispatch_all W nalloc mp msgs (v, s) \<bind> thread_cleanup W mp notify 0) = Some (v', s') \<and>
      idle s s' \<and> queued v' mp Q' \<and> wv_mons v' mp = Some m'"
    by (intro exI conjI) auto
qed

end
