(* ===== verification/LocationWin32.thy ===== *)
theory LocationWin32
  imports SetupFeed
begin

text \<open>
  What \<open>resolve_device_location\<close> of \<open>src/monitor_win32.c\<close> computes, against a description of the device
  tree: the controller and then the ports on the way from its root hub down to the device.
\<close>

section \<open>The walk\<close>

text \<open>
  A device tree on a system since Vista whose nodes are there: the parent of a node, its identifier and
  its port, zero for a node without location information.
\<close>

definition vista_tree :: "'w win32_setup \<Rightarrow> (nat \<Rightarrow> string) \<Rightarrow> (nat \<Rightarrow> nat) \<Rightarrow> (nat \<Rightarrow> uint8) \<Rightarrow> bool" where
  "vista_tree U id_of par port \<longleftrightarrow>
     hs_win32_version (su_os U) \<ge> HS_WIN32_VERSION_VISTA \<and>
     (\<forall>i n w. fst (su_device_id U i n w) = Inr (id_of i)) \<and>
     (\<forall>i w. fst (su_parent U i w) = Inr (par i)) \<and>
     (\<forall>i w. (case fst (su_location_info U i w) of None \<Rightarrow> 0 | Some buf \<Rightarrow> vista_port buf) = port i)"

definition ports_up :: "(nat \<Rightarrow> nat) \<Rightarrow> (nat \<Rightarrow> uint8) \<Rightarrow> nat \<Rightarrow> nat \<Rightarrow> uint8 list" where
  "ports_up par port u n = filter (\<lambda>p. p \<noteq> 0) (map (\<lambda>j. port ((par ^^ j) u)) [0 ..< n])"

lemma ports_up_simps [simp]:
  "ports_up par port u 0 = []"
  "ports_up par port u (Suc n) =
     ports_up par port u n @ (if port ((par ^^ n) u) = 0 then [] else [port ((par ^^ n) u)])"
  by (simp_all add: ports_up_def)

lemma vista_treeD:
  assumes "vista_tree U id_of par port"
  shows "sys (su_device_id U i n) s = (Inr (id_of i), snd (sys (su_device_id U i n) s))"
    and "sys (su_parent U i) s = (Inr (par i), snd (sys (su_parent U i) s))"
    and "\<exists>s'. find_device_port U i x s = Some (Some (uint (port i)), s')"
proof -
  show "sys (su_device_id U i n) s = (Inr (id_of i), snd (sys (su_device_id U i n) s))"
    "sys (su_parent U i) s = (Inr (par i), snd (sys (su_parent U i) s))"
    using assms by (simp_all add: vista_tree_def sys_def split: prod.splits) (metis fst_conv)+
  obtain res s' where r: "sys (su_location_info U i) s = (res, s')" by (cases "sys (su_location_info U i) s")
  have "(case fst (su_location_info U i (ext s)) of None \<Rightarrow> 0 | Some buf \<Rightarrow> vista_port buf) = port i"
    using assms by (simp add: vista_tree_def)
  then have "(case res of None \<Rightarrow> 0 | Some buf \<Rightarrow> vista_port buf) = port i" by (simp add: fst_sys [OF r])
  with assms r show "\<exists>s'. find_device_port U i x s = Some (Some (uint (port i)), s')"
    by (cases res) (auto simp: vista_tree_def find_device_port_def find_device_port_vista_def)
qed

text \<open>The array in which the ports found so far stand.\<close>

definition holds :: "uint8 list \<Rightarrow> uint8 list \<Rightarrow> bool" where
  "holds ports ps \<longleftrightarrow> length ports = MAX_USB_DEPTH \<and> length ps \<le> MAX_USB_DEPTH \<and> take (length ps) ports = ps"

lemma holds_set:
  assumes "holds ports ps" and "length ps < MAX_USB_DEPTH"
  shows "arr_set ports (length ps) p = Some (ports[length ps := p])" "holds (ports[length ps := p]) (ps @ [p])"
  using assms by (auto simp: holds_def arr_set_def take_Suc_conv_app_nth)

text \<open>What the rounds make of the ports \<open>ps\<close> found up to the root hub.\<close>

definition walk_result :: "controllers \<Rightarrow> string \<Rightarrow> uint8 list \<Rightarrow> (int + uint8 list) option" where
  "walk_result cs hub ps =
     (if ps = [] then Some (Inl 0)
      else if MAX_USB_DEPTH \<le> length ps then None
      else if find_controller hub cs = 0 then Some (Inl 0)
      else Some (Inr (find_controller hub cs # rev ps)))"

text \<open>One round.\<close>

lemma round_step:
  fixes inst :: nat and port :: "nat \<Rightarrow> uint8" and ps :: "uint8 list"
  assumes t: "vista_tree U id_of par port" and h: "holds ports ps" and d: "length ps < MAX_USB_DEPTH"
  defines "ps' \<equiv> ps @ (if port inst = 0 then [] else [port inst])"
  shows "\<exists>ports' s'. holds ports' ps' \<and>
     resolve_rounds U cs inst parent x ports (length ps) s =
       (if root_hub (id_of parent)
        then (let index = find_controller (id_of parent) cs in
              if ps' = [] then Some (Inl 0, ports', s')
              else do {
                ports \<leftarrow> arr_set ports' (length ps') index;
                if index = 0 then Some (Inl 0, ports, warn (''Unknown USB host controller '' @ sq (id_of parent)) s')
                else Some (Inr (length ps' + 1), ports, s')
              })
        else resolve_rounds U cs parent (par parent) (id_of parent) ports' (length ps') s')"
proof -
  let ?s = "log_msg HS_LOG_DEBUG (''Going through device parents to resolve USB location: '' @ sq x) s"
  obtain s1 where e: "sys (su_device_id U parent 256) ?s = (Inr (id_of parent), s1)" using vista_treeD(1) [OF t] by blast
  obtain s2 where f: "find_device_port U inst (id_of parent) s1 = Some (Some (uint (port inst)), s2)"
    using vista_treeD(3) [OF t] by blast
  define ports' where "ports' = (if port inst = 0 then ports else ports[length ps := port inst])"
  define s3 where "s3 = (if port inst = 0 then s2
     else log_msg HS_LOG_DEBUG (''Found port number: '' @ show_nat 10 (nat (uint (port inst)))) s2)"
  have h': "holds ports' ps'" using h holds_set [OF h d] by (simp add: ports'_def ps'_def)
  have z: "uint (port inst) = 0 \<longleftrightarrow> port inst = 0" by (simp add: uint_0_iff)
  have step: "(if uint (port inst) \<noteq> 0 then arr_set ports (length ps) (word_of_int (uint (port inst))) \<bind>
      (\<lambda>ports. Some (ports, length ps + 1, log_msg HS_LOG_DEBUG (''Found port number: '' @ show_nat 10 (nat (uint (port inst)))) s2))
      else Some (ports, length ps, s2)) = Some (ports', length ps', s3)"
    using holds_set [OF h d] by (simp add: ports'_def ps'_def s3_def z)
  obtain s4 where g: "sys (su_parent U parent) s3 = (Inr (par parent), s4)" using vista_treeD(2) [OF t] by blast
  have d': "length ps \<noteq> MAX_USB_DEPTH" using d by simp
  note run = resolve_rounds.simps [of U cs inst parent x ports "length ps" s]
  show ?thesis
  proof (cases "root_hub (id_of parent)")
    case True
    show ?thesis
      by (rule exI [of _ ports'], rule exI [of _ s3], rule conjI [OF h'], subst run) (use True d' e f step in \<open>simp add: Let_def\<close>)
  next
    case False
    show ?thesis
      by (rule exI [of _ ports'], rule exI [of _ s4], rule conjI [OF h'], subst run) (use False d' e f step g in simp)
  qed
qed

text \<open>All rounds from the node \<open>k\<close> steps above \<open>u\<close> on; the root hub is \<open>Suc m\<close> steps above it.\<close>

lemma rounds_walk:
  assumes t: "vista_tree U id_of par port" and m: "\<forall>j < m. \<not> root_hub (id_of ((par ^^ Suc j) u))"
    and hub: "root_hub (id_of ((par ^^ Suc m) u))" and room: "length (ports_up par port u m) < MAX_USB_DEPTH"
  defines "ps \<equiv> ports_up par port u (Suc m)"
  shows "k \<le> m \<Longrightarrow> holds ports (ports_up par port u k) \<Longrightarrow>
     (case walk_result cs (id_of ((par ^^ Suc m) u)) ps of
        None \<Rightarrow> resolve_rounds U cs ((par ^^ k) u) ((par ^^ Suc k) u) x ports (length (ports_up par port u k)) s = None
      | Some res \<Rightarrow> \<exists>ports' s'. resolve_rounds U cs ((par ^^ k) u) ((par ^^ Suc k) u) x ports
            (length (ports_up par port u k)) s = Some (map_sum id length res, ports', s') \<and>
          (\<forall>loc. res = Inr loc \<longrightarrow> holds ports' (rev loc)))"
proof (induction "m - k" arbitrary: k ports x s)
  case 0
  then have k: "k = m" by simp
  have ps: "ps = ports_up par port u m @ (if port ((par ^^ m) u) = 0 then [] else [port ((par ^^ m) u)])"
    by (simp add: ps_def)
  obtain ports' s' where st: "holds ports' ps"
    "resolve_rounds U cs ((par ^^ m) u) ((par ^^ Suc m) u) x ports (length (ports_up par port u m)) s =
       (let index = find_controller (id_of ((par ^^ Suc m) u)) cs in
              if ps = [] then Some (Inl 0, ports', s')
              else do {
                ports \<leftarrow> arr_set ports' (length ps) index;
                if index = 0 then Some (Inl 0, ports, warn (''Unknown USB host controller '' @ sq (id_of ((par ^^ Suc m) u))) s')
                else Some (Inr (length ps + 1), ports, s')
              })"
    using round_step [OF t, of ports "ports_up par port u m" "(par ^^ m) u" cs "(par ^^ Suc m) u" x s] 0 room hub
    unfolding k ps by (auto simp del: funpow.simps)
  show ?case
  proof (cases "length ps < MAX_USB_DEPTH")
    case True
    note set = holds_set [OF st(1) True]
    show ?thesis
      using st(2) set True unfolding k by (auto simp: walk_result_def Let_def simp del: funpow.simps)
  next
    case False
    then have "arr_set ports' (length ps) p = None" for p using st(1) by (simp add: holds_def arr_set_def)
    moreover have "ps \<noteq> []" using False by (auto simp: MAX_USB_DEPTH_def)
    ultimately show ?thesis using st(2) False unfolding k by (simp add: walk_result_def Let_def del: funpow.simps)
  qed
next
  case (Suc n)
  then have k: "k < m" by simp
  have "ports_up par port u m = ports_up par port u k @ filter (\<lambda>p. p \<noteq> 0) (map (\<lambda>j. port ((par ^^ j) u)) [k ..< m])"
    using upt_add_eq_append [of 0 k "m - k"] k by (simp add: ports_up_def)
  then have d: "length (ports_up par port u k) < MAX_USB_DEPTH" using room by simp
  obtain ports' s' where st: "holds ports' (ports_up par port u (Suc k))"
    "resolve_rounds U cs ((par ^^ k) u) ((par ^^ Suc k) u) x ports (length (ports_up par port u k)) s =
       resolve_rounds U cs ((par ^^ Suc k) u) (par ((par ^^ Suc k) u)) (id_of ((par ^^ Suc k) u)) ports'
         (length (ports_up par port u (Suc k))) s'"
    using round_step [OF t Suc.prems(2) d, of "(par ^^ k) u" cs "(par ^^ Suc k) u" x s] m k
    by (auto simp del: funpow.simps)
  have p: "par ((par ^^ Suc k) u) = (par ^^ Suc (Suc k)) u" by simp
  from Suc.hyps(1) [of "Suc k" ports' "id_of ((par ^^ Suc k) u)" s', OF _ _ st(1)] Suc.hyps(2) k show ?case
    unfolding st(2) p by (simp del: funpow.simps ports_up_simps)
qed

lemma skip_walk:
  assumes t: "vista_tree U id_of par port"
  shows "\<forall>j < q. \<not> usb_node (id_of ((par ^^ j) inst)) \<Longrightarrow> usb_node (id_of ((par ^^ q) inst)) \<Longrightarrow>
     \<exists>s'. skip_to_usb U inst s = Some (Some ((par ^^ q) inst, (par ^^ Suc q) inst, id_of ((par ^^ q) inst)), s')"
proof (induction q arbitrary: inst s)
  case 0
  obtain s1 where e: "sys (su_device_id U inst 256) s = (Inr (id_of inst), s1)" using vista_treeD(1) [OF t] by blast
  obtain s2 where "sys (su_parent U inst) (log_msg HS_LOG_DEBUG (''Going through device parents to find USB node: '' @
      sq (id_of inst)) s1) = (Inr (par inst), s2)" using vista_treeD(2) [OF t] by blast
  with e 0 show ?case by (subst skip_to_usb.simps) simp
next
  case (Suc q)
  obtain s1 where e: "sys (su_device_id U inst 256) s = (Inr (id_of inst), s1)" using vista_treeD(1) [OF t] by blast
  obtain s2 where p: "sys (su_parent U inst) (log_msg HS_LOG_DEBUG (''Going through device parents to find USB node: '' @
      sq (id_of inst)) s1) = (Inr (par inst), s2)" using vista_treeD(2) [OF t] by blast
  have *: "(par ^^ j) (par inst) = (par ^^ Suc j) inst" for j by (simp only: funpow_Suc_right o_apply)
  have "\<forall>j < q. \<not> usb_node (id_of ((par ^^ j) (par inst)))" using Suc.prems(1) unfolding * by blast
  moreover have "usb_node (id_of ((par ^^ q) (par inst)))" using Suc.prems(2) unfolding * .
  ultimately obtain s' where "skip_to_usb U (par inst) s2 =
      Some (Some ((par ^^ Suc q) inst, (par ^^ Suc (Suc q)) inst, id_of ((par ^^ Suc q) inst)), s')"
    using Suc.IH [of "par inst" s2] unfolding * by blast
  moreover have "\<not> usb_node (id_of inst)" using Suc.prems(1) [THEN spec, of 0] by simp
  ultimately show ?case using e p by (subst skip_to_usb.simps) simp
qed

lemma resolve_walk:
  assumes t: "vista_tree U id_of par port"
    and usb: "\<forall>j < q. \<not> usb_node (id_of ((par ^^ j) inst))" "u = (par ^^ q) inst" "usb_node (id_of u)"
    and m: "\<forall>j < m. \<not> root_hub (id_of ((par ^^ Suc j) u))" "root_hub (id_of ((par ^^ Suc m) u))"
    and room: "length (ports_up par port u m) < MAX_USB_DEPTH"
  shows "case walk_result cs (id_of ((par ^^ Suc m) u)) (ports_up par port u (Suc m)) of
      None \<Rightarrow> resolve_device_location U cs inst (replicate MAX_USB_DEPTH 0) s = None
    | Some res \<Rightarrow> \<exists>ports s'. resolve_device_location U cs inst (replicate MAX_USB_DEPTH 0) s =
          Some (case res of Inl r \<Rightarrow> r | Inr loc \<Rightarrow> int (length loc), ports, s') \<and>
        (\<forall>loc. res = Inr loc \<longrightarrow> take (length loc) ports = loc \<and> length loc \<le> length ports)"
proof -
  obtain s1 where sk: "skip_to_usb U inst s = Some (Some (u, (par ^^ Suc 0) u, id_of u), s1)"
    using skip_walk [OF t usb(1)] usb(2,3) by auto
  have "holds (replicate MAX_USB_DEPTH 0) (ports_up par port u 0)" by (simp add: holds_def MAX_USB_DEPTH_def)
  from rounds_walk [OF t m room le0 this, of cs "id_of u" s1] sk show ?thesis
    by (auto simp: resolve_device_location_def holds_def swap_ports_rev split: option.splits sum.splits
        simp del: ports_up_simps(2) funpow.simps(2))
qed

end
