(* ===== verification/ExampleWin32.thy ===== *)
theory ExampleWin32
  imports LocationWin32 ExampleFeed
begin

text \<open>
  A small device tree, on which the properties of the Windows monitor are applied: a host controller
  (node 0), its root hub (1), a hub (2), a serial device (3) and a node below that (4). The world is whether
  the event of the monitor is signalled.
\<close>

definition ex_quiet_os :: "'w win32_os" where
  "ex_quiet_os = \<lparr>w_tick_count64 = Some (Pair 1000), w_perf_frequency = Pair (Some 1), w_perf_counter = Pair (Some 1),
     w_wait_multiple = (\<lambda>hs t. Pair (Inr 0)), w_wait_single = (\<lambda>ev t w. w), w_format_message = (\<lambda>e. None),
     w_version = (6, 1), w_create_file = (\<lambda>p. Pair (Inr 3)), w_create_event = Pair (Inr 4), w_close_handle = (\<lambda>fh w. w),
     w_set_comm_timeouts = (\<lambda>fh t w. w), w_escape_setdtr = (\<lambda>fh w. w), w_read_file = (\<lambda>fh ev n. Pair (Some ERROR_IO_PENDING)),
     w_overlapped_result = (\<lambda>fh ev b. Pair (Inr [])), w_cancel_io = (\<lambda>fh w. w), w_cancel_io_ex = Some (\<lambda>fh w. w),
     w_thread = (\<lambda>w. 1), w_begin_thread = (\<lambda>fh w. w), w_write_file = (\<lambda>fh ds. Pair None), w_write_result = (\<lambda>fh. Pair (Inr 0)),
     w_get_preparsed = (\<lambda>fh. Pair (Some 1)), w_get_caps = (\<lambda>pp. Pair (Some (1, 6))), w_free_preparsed = (\<lambda>pp w. w),
     w_get_feature = (\<lambda>fh b. Pair None), w_feature_result = (\<lambda>fh. Pair (Inr [])), w_set_feature = (\<lambda>fh b. Pair True),
     w_get_comm_state = (\<lambda>fh. Pair (Inl (ERROR_OTHER 5))), w_set_comm_state = (\<lambda>fh t. Pair (Inr ()))\<rparr>"

definition ex_id :: "nat \<Rightarrow> string" where
  "ex_id i =
     (if i = 0 then ''PCI'' @ BS # ''VEN_8086'' else if i = 1 then ''USB'' @ BS # ''ROOT_HUB20''
      else if i = 2 then ''USB'' @ BS # ''VID_0424&PID_2514'' else if i = 3 then ''USB'' @ BS # ''VID_16C0&PID_0483''
      else ''HID'' @ BS # ''VID_16C0&PID_0483'')"

definition ex_info :: "nat \<Rightarrow> string option" where
  "ex_info i = (if i = 2 then Some ''Port_#0004.Hub_#0001'' else if i = 3 then Some ''Port_#0012.Hub_#0002'' else None)"

definition ex_guid :: guid where
  "ex_guid = \<lparr>Data1 = 0x86E0D1E0, Data2 = 0x8089, Data3 = 0x11D0, Data4 = [0x9C, 0xE4, 8, 0, 0x3E, 0x30, 0x1F, 0x73]\<rparr>"

definition ex_setup :: "'w win32_setup" where
  "ex_setup = \<lparr>su_os = ex_quiet_os, su_malloc = Pair True, su_last_error = (\<lambda>w. ERROR_OTHER 5),
     su_device_id = (\<lambda>i n. Pair (Inr (ex_id i))), su_parent = (\<lambda>i. Pair (if i = 0 then Inl 13 else Inr (i - 1))),
     su_child = (\<lambda>i. Pair (Inr (i + 1))), su_locate = (\<lambda>x. Pair (Inr 3)), su_location_info = (\<lambda>i. Pair (ex_info i)),
     su_driver = (\<lambda>i. Pair (Inr ''driver'')), su_open_key = (\<lambda>i. Pair (Inr 1)),
     su_query_port_name = (\<lambda>k. Pair (Inr ''COM3'')), su_close_key = (\<lambda>k w. w), su_open = (\<lambda>x. Pair 7),
     su_hub_ports = (\<lambda>h. Pair (Some 4)), su_connection = (\<lambda>h p. Pair None), su_driver_key_length = (\<lambda>h p. Pair None),
     su_driver_key = (\<lambda>h p n. Pair None), su_string_descriptor = (\<lambda>h p v. Pair (Inl (ERROR_OTHER 5))),
     su_hid_string = (\<lambda>f h. Pair None), su_wide_length = (\<lambda>x. Pair (Inl (ERROR_OTHER 5))), su_wide_string = (\<lambda>x n. Pair (Inl (ERROR_OTHER 5))),
     su_class_devs = (\<lambda>x. Pair 8), su_enum_device = (\<lambda>h i. Pair (if i = 0 then Some 3 else None)), su_destroy_set = (\<lambda>h w. w),
     hid_guid = ex_guid, GUID_DEVINTERFACE_USB_DEVICE = ex_guid, GUID_DEVINTERFACE_USB_HUB = ex_guid,
     GUID_DEVINTERFACE_USB_HOST_CONTROLLER = ex_guid\<rparr>"

definition ex_window :: "bool win32_window" where
  "ex_window = \<lparr>ww_setup = ex_setup, ww_set_event = (\<lambda>ev w. True), ww_reset_event = (\<lambda>ev w. False), ww_wait = (\<lambda>ev. Pair 0),
     ww_begin_thread = Pair 9, ww_register_class = Pair True, ww_create_window = Pair 11, ww_set_user_data = (\<lambda>h. Pair True),
     ww_register_notify = (\<lambda>h. Pair 12), ww_unregister_notify = (\<lambda>n w. w), ww_destroy_window = (\<lambda>h w. w),
     ww_unregister_class = (\<lambda>w. w), ww_post_close = (\<lambda>h w. w), ww_post_quit = (\<lambda>w. w)\<rparr>"

definition ex_controllers :: controllers where
  "ex_controllers = [(''USB'' @ BS # ''ROOT_HUB20'', 1)]"

lemma ex_setup_keeps: "setup_keeps ex_setup g"
  by (simp add: setup_keeps_def ex_setup_def ex_quiet_os_def)

lemma ex_id_strings:
  "CHR 0x00 \<notin> set (ex_id i)" "root_hub (ex_id i) \<longleftrightarrow> i = 1" "usb_node (ex_id i) \<longleftrightarrow> i = 1 \<or> i = 2 \<or> i = 3"
  by (simp_all add: ex_id_def str_prefix_def)

lemma ex_parent: "((\<lambda>i. i - 1) ^^ k) i = i - k" for i k :: nat
  by (induction k) simp_all

lemma ex_tree: "device_tree ex_setup ex_id (\<lambda>i. i - 1) id"
proof -
  have "k < 7" if "usb_node (ex_id i)" "root_hub (ex_id (((\<lambda>i. i - 1) ^^ Suc k) i))" for i k
    using that unfolding ex_parent ex_id_strings by auto
  then show ?thesis
    unfolding device_tree_def by (auto simp: ex_setup_def ex_id_strings split: if_splits)
qed

lemma ex_ports: "vista_port ''Port_#0004.Hub_#0001'' = 4" "vista_port ''Port_#0012.Hub_#0002'' = 12"
  by (simp_all add: vista_port_def scan_lit_def scan_int_def str_prefix_def is_space_def digit_val_def)

text \<open>The same tree with a parent above every node, for the walk up to the root hub.\<close>

lemma ex_vista_tree:
  "vista_tree (ex_setup\<lparr>su_parent := \<lambda>i. Pair (Inr (i - 1))\<rparr>) ex_id (\<lambda>i. i - 1)
     (\<lambda>i. if i = 2 then 4 else if i = 3 then 12 else 0)"
  by (auto simp: vista_tree_def ex_setup_def ex_quiet_os_def ex_info_def ex_ports hs_win32_version_def HS_WIN32_VERSION_VISTA_def)

end
