(* ===== verification/Win32MonitorProperties.thy ===== *)
theory Win32MonitorProperties
  imports LifecycleWin32 ExampleWin32
begin

text \<open>
  The properties of the Windows monitor: device paths and identifiers, locations, what a device structure
  says, what a monitor knows after its creation and after a refresh, and when its event is signalled.
\<close>

section \<open>Courses of events\<close>

text \<open>The thread handles a message, or the caller refreshes while it handles some; in any order.\<close>

inductive win32_course ::
  "'w win32_window \<Rightarrow> ('w hs_state \<Rightarrow> addr) \<Rightarrow> (win32_vars \<Rightarrow> addr) \<Rightarrow> 'w callback_fun \<Rightarrow> addr \<Rightarrow> 'w win32_state
     \<Rightarrow> 'w win32_state \<Rightarrow> bool"
  for W alloc nalloc call mp vs where
  course_start: "win32_course W alloc nalloc call mp vs vs"
| course_message: "win32_course W alloc nalloc call mp vs vs1 \<Longrightarrow> window_proc W nalloc mp msg vs1 = Some vs2 \<Longrightarrow>
     win32_course W alloc nalloc call mp vs vs2"
| course_refresh: "win32_course W alloc nalloc call mp vs vs1 \<Longrightarrow>
     tmp \<noteq> NULL \<Longrightarrow> l_next (wv_lists (fst vs1)) tmp = None \<Longrightarrow>
     \<forall>Q. queued (fst vs1) mp Q \<longrightarrow> locatable (ww_setup W) Q \<Longrightarrow>
     hs_monitor_refresh_win32 W alloc nalloc msgs call tmp mp vs1 = Some (r, vs2) \<Longrightarrow>
     win32_course W alloc nalloc call mp vs vs2"

definition signalled :: "'w callback_fun \<Rightarrow> addr \<Rightarrow> nat \<Rightarrow> ('w \<Rightarrow> bool) \<Rightarrow> 'w win32_state \<Rightarrow> bool" where
  "signalled call mp ev sig vs \<longleftrightarrow>
     (\<exists>m Q K. wv_mons (fst vs) mp = Some m \<and> wm_event m = ev \<and> knows call mp (snd vs) K \<and> queued (fst vs) mp Q \<and>
        (Q \<noteq> [] \<longrightarrow> sig (ext (snd vs))))"

lemma course_signalled:
  assumes na: "note_allocates nalloc" and al: "allocates alloc" and ev: "event_works W ev sig"
    and t: "device_tree (ww_setup W) id_of par level" and kp: "keeps sig call"
    and run: "win32_course W alloc nalloc call mp vs vs'" and start: "signalled call mp ev sig vs"
  shows "signalled call mp ev sig vs'"
  using run
proof (induction rule: win32_course.induct)
  case course_start
  show ?case by (rule start)
next
  case (course_message vs1 msg vs2)
  then obtain m Q K where s: "wv_mons (fst vs1) mp = Some m" "wm_event m = ev" "knows call mp (snd vs1) K"
      "queued (fst vs1) mp Q" "Q \<noteq> [] \<longrightarrow> sig (ext (snd vs1))"
    by (auto simp: signalled_def)
  have ev': "event_works W (wm_event m) sig" using ev s(2) by simp
  obtain ns where q: "queue_with (fst vs1) mp ns Q {}" using s(4) by (auto simp: queued_with)
  obtain v' s' m' ns' Q' where w: "window_proc W nalloc mp msg (fst vs1, snd vs1) = Some (v', s')" "idle (snd vs1) s'"
      "wv_mons v' = (wv_mons (fst vs1))(mp \<mapsto> m')" "wm_event m' = wm_event m" "queue_with v' mp ns' (Q @ Q') {}"
      "Q' \<noteq> [] \<longrightarrow> sig (ext s')" "sig (ext (snd vs1)) \<longrightarrow> sig (ext s')"
    using window_proc_run [OF na ev' s(1) q, of msg "snd vs1"] by blast
  have vs2: "vs2 = (v', s')" using course_message.hyps(2) w(1) by simp
  have "queued v' mp (Q @ Q')" using w(5) by (auto simp: queued_with)
  with w s knows_idle [OF s(3) w(2)] show ?case unfolding signalled_def vs2
    by (intro exI [of _ m'] exI [of _ "Q @ Q'"] exI [of _ K]) auto
next
  case (course_refresh vs1 tmp msgs r vs2)
  then obtain m Q K where s: "wv_mons (fst vs1) mp = Some m" "wm_event m = ev" "knows call mp (snd vs1) K"
      "queued (fst vs1) mp Q" "Q \<noteq> [] \<longrightarrow> sig (ext (snd vs1))"
    by (auto simp: signalled_def)
  have ev': "event_works W (wm_event m) sig" using ev s(2) by simp
  have loc: "wm_ret m < 0 \<or> locatable (ww_setup W) Q" using course_refresh.hyps(4) s(4) by blast
  obtain r1 v' s' es Q' where h: "hs_monitor_refresh_win32 W alloc nalloc msgs call tmp mp (fst vs1, snd vs1) = Some (r1, v', s')"
      "refreshed call mp m Q msgs (snd vs1) es Q' r1 (v', s')" "sig (ext s') = (Q' \<noteq> [])"
    using refresh_run [OF na al ev' t kp s(3,4,1) course_refresh.hyps(2,3) loc s(5), of msgs] by blast
  have "vs2 = (v', s')" "r1 = r" using h(1) course_refresh.hyps(5) by simp_all
  with h have r: "refreshed call mp m Q msgs (snd vs1) es Q' r vs2" "sig (ext (snd vs2)) = (Q' \<noteq> [])" by simp_all
  from r(1) obtain m' where "wv_mons (fst vs2) mp = Some m'" "wm_event m' = wm_event m" "queued (fst vs2) mp Q'"
      "monitor_feeds call mp (snd vs1) es (snd vs2)"
    by (auto simp: refreshed_def)
  with r(2) s(2) mon.feeds_known [OF this(4) s(3)] show ?case by (auto simp: signalled_def)
qed

section \<open>An example\<close>

text \<open>A monitor whose queue holds an arrival and a removal, with the event signalled.\<close>

definition ex_arrival :: device_notification where
  "ex_arrival = \<lparr>dn_event = DEVICE_EVENT_ADDED, dn_key = ex_id 3\<rparr>"

definition ex_removal :: device_notification where
  "ex_removal = \<lparr>dn_event = DEVICE_EVENT_REMOVED, dn_key = ex_id 3\<rparr>"

definition ex_mon_win :: win32_monitor where
  "ex_mon_win = \<lparr>wm_ret = 0, wm_event = 4, wm_thread = 9, wm_hwnd = 11\<rparr>"

definition ex_vars :: win32_vars where
  "ex_vars = \<lparr>wv_controllers = ex_controllers,
     wv_lists = \<lparr>l_prev = [10 \<mapsto> 21, 20 \<mapsto> 10, 21 \<mapsto> 20], l_next = [10 \<mapsto> 20, 20 \<mapsto> 21, 21 \<mapsto> 10]\<rparr>,
     wv_notes = [20 \<mapsto> ex_arrival, 21 \<mapsto> ex_removal], wv_mons = [10 \<mapsto> ex_mon_win]\<rparr>"

definition ex_nalloc :: "win32_vars \<Rightarrow> addr" where
  "ex_nalloc v = (if l_next (wv_lists v) 60 = None then 60 else NULL)"

lemma ex_nalloc_allocates: "note_allocates ex_nalloc"
  by (simp add: note_allocates_def ex_nalloc_def)

lemma ex_event_works: "event_works ex_window e (\<lambda>w. w)"
  by (simp add: event_works_def ex_window_def ex_setup_keeps)

lemma ex_events_work: "events_work ex_window (\<lambda>e w. w)"
  by (simp add: events_work_def ex_event_works)

lemma ex_window_tree: "device_tree (ww_setup ex_window) ex_id (\<lambda>i. i - 1) id"
  using ex_tree by (simp add: ex_window_def)

lemma ex_vars_queued: "queued ex_vars 10 [ex_arrival, ex_removal]"
  by (auto simp: queued_def queue_def ex_vars_def ring_def link_def intro!: exI [of _ "[20, 21]"])

lemma ex_vars_sel: "wv_mons ex_vars 10 = Some ex_mon_win" "l_next (wv_lists ex_vars) 70 = None" "wm_event ex_mon_win = 4"
    "wm_ret ex_mon_win = 0"
  by (simp_all add: ex_vars_def ex_mon_win_def)

lemma ex_queue_locatable: "locatable (ww_setup ex_window) [ex_arrival, ex_removal]"
  by (auto simp: locatable_def ex_arrival_def ex_removal_def ex_id_strings ex_window_def ex_setup_def)

lemma ex_rest: "ends_cleanly (\<lambda>vs. do { vs \<leftarrow> dispatch_all ex_window ex_nalloc 10 []  vs; thread_cleanup ex_window 10 12 0 vs }) 10"
  by (rule thread_ends_cleanly [OF ex_nalloc_allocates ex_event_works])

lemma ex_enum: "enum_ends (ww_setup ex_window) (\<lambda>w. ()) {3} 1"
  by (auto simp: enum_ends_def ex_window_def ex_setup_def split: if_splits)

section \<open>Properties\<close>







text \<open>
  C26: \<open>process_win32_device\<close> gives the address of a structure that is complete, with the identifier of the
  node as its key, one reference, a path, the Windows driver and a location that fits its buffer; or it
  gives none and leaves every object as it was, the structure it had allocated included.
\<close>

theorem win32_process_device:
  assumes "setup_keeps U g" and "device_tree U id_of par level" and "allocates alloc"
    and "case devid of Some key \<Rightarrow> CHR 0x00 \<notin> set key | None \<Rightarrow> True"
  shows "\<exists>r p s' s1. process_win32_device U alloc cs inst devid s = Some (r, p, s') \<and> idle s s1 \<and> g (ext s1) = g (ext s) \<and>
     ((\<exists>d. r = 1 \<and> new_device s1 p d \<and> complete (case devid of Some key \<Rightarrow> key | None \<Rightarrow> id_of inst) d \<and> s' = device_alloc p d s1) \<or>
      r \<le> 0 \<and> p = NULL \<and> s' = s1)"
proof -
  obtain r p s' s1 where p: "process_win32_device U alloc cs inst devid s = Some (r, p, s')" "obs g s1 = obs g s"
      "(\<exists>d. r = 1 \<and> new_device s1 p d \<and> complete (case devid of Some key \<Rightarrow> key | None \<Rightarrow> id_of inst) d \<and> s' = device_alloc p d s1) \<or>
       r \<le> 0 \<and> p = NULL \<and> s' = s1"
    using process_run [OF assms] by blast
  have "idle s s1" "g (ext s1) = g (ext s)" using p(2) by (simp_all add: obs_def idle_def)
  with p(1,3) show ?thesis by blast
qed

theorem win32_process_device_witness:
  "\<exists>r p s' s1. process_win32_device ex_setup ex_calloc ex_controllers 3 None (ex_empty True) = Some (r, p, s') \<and>
     idle (ex_empty True) s1 \<and> ext s1 = True \<and>
     ((\<exists>d. r = 1 \<and> new_device s1 p d \<and> complete (ex_id 3) d \<and> s' = device_alloc p d s1) \<or> r \<le> 0 \<and> p = NULL \<and> s' = s1)"
  using win32_process_device [OF ex_setup_keeps [of "\<lambda>w. w"] ex_tree ex_calloc_allocates, of None ex_controllers 3 "ex_empty True"]
  by (simp add: ex_empty_def)



text \<open>
  C28: device paths and identifiers of the Windows monitor name the same devices: the identifier
  \<open>extract_device_id\<close> takes out of the name in a notification, or of a path \<open>build_device_path\<close> has
  built, is the one the path was made of; and the buffer of the path is large enough.
\<close>

theorem win32_path_roundtrip:
  assumes "canonical_id devid"
  shows "(\<exists>path. device_path devid g = Some path \<and> length path < 4 + length devid + 41 \<and> extract_id path = devid) \<and>
     (\<forall>pre \<in> {[BS, BS, CHR ''?'', BS], ''##?#''}.
        extract_id (pre @ map (\<lambda>c. if c = BS then CHR ''#'' else c) devid @ guid_string g) = devid)"
proof
  have "CHR 0x00 \<notin> set devid" using assms by (simp add: canonical_id_def)
  moreover have "length (path_text devid g) < 4 + length devid + 41"
    using guid_string_length [of g] by (simp add: path_text_def)
  moreover have "extract_id (path_text devid g) = devid"
    using extract_id_prefixed [OF assms, of "[BS, BS, CHR ''.'', BS]" g] by (simp add: path_text_def)
  ultimately show "\<exists>path. device_path devid g = Some path \<and> length path < 4 + length devid + 41 \<and> extract_id path = devid"
    by (simp add: device_path_run)
  show "\<forall>pre \<in> {[BS, BS, CHR ''?'', BS], ''##?#''}.
      extract_id (pre @ map (\<lambda>c. if c = BS then CHR ''#'' else c) devid @ guid_string g) = devid"
  proof
    fix pre assume pre: "pre \<in> {[BS, BS, CHR ''?'', BS], ''##?#''}"
    show "extract_id (pre @ map (\<lambda>c. if c = BS then CHR ''#'' else c) devid @ guid_string g) = devid"
      by (rule extract_id_prefixed [OF assms]) (use pre in auto)
  qed
qed

theorem win32_path_roundtrip_witness:
  "\<exists>path. device_path (''HID'' @ BS # ''VID_16C0'') ex_guid = Some path \<and> length path < 57 \<and>
     extract_id path = ''HID'' @ BS # ''VID_16C0''"
proof -
  have "canonical_id (''HID'' @ BS # ''VID_16C0'')" by (simp add: canonical_id_def to_upper_def)
  from conjunct1 [OF win32_path_roundtrip [OF this, of ex_guid]] show ?thesis by simp
qed

text \<open>
  C29: when the next notification is the arrival of a device that is no longer there, \<open>hs_monitor_refresh\<close>
  on Windows has no defined outcome: \<open>process_arrival_notification\<close> dereferences a null pointer for the
  text of its warning.
\<close>

theorem win32_refresh_unplugged:
  assumes "queued v mp (n # Q)" and "wv_mons v mp = Some m" and "0 \<le> wm_ret m" and "dn_event n = DEVICE_EVENT_ADDED"
    and "\<forall>w. \<exists>c. fst (su_locate (ww_setup W) (dn_key n) w) = Inl c"
    and "tmp \<noteq> NULL" and "l_next (wv_lists v) tmp = None"
  shows "hs_monitor_refresh_win32 W alloc nalloc msgs call tmp mp (v, s) = None"
proof -
  obtain ns where ns: "queue v mp ns (n # Q)" using assms(1) by (auto simp: queued_def)
  obtain v1 where v1: "refresh_take tmp mp v = Some (wm_ret m, v1)" "two_queues v1 mp [] [] tmp ns (n # Q)"
    using take_run [OF ns assms(2,6,7)] by blast
  from v1(2) obtain x ms where x: "ns = x # ms" "ring (wv_lists v1) tmp (x # ms)" "wv_notes v1 x = Some n"
    by (cases ns) (auto simp: queue_with_def queue_def)
  have "x \<noteq> NULL" "x \<noteq> tmp" using x(2) by (auto simp: ring_def)
  have nx: "l_next (wv_lists v1) tmp = Some x" "l_next (wv_lists v1) x = Some (hd (ms @ [tmp]))"
    using ring_next_head [OF x(2)] ring_next_node [of _ _ "[]", simplified, OF x(2)] by simp_all
  let ?s = "log_msg HS_LOG_DEBUG (''Received arrival notification for device '' @ sq (dn_key n)) s"
  obtain res s1 where l: "sys (su_locate (ww_setup W) (dn_key n)) ?s = (res, s1)"
    by (cases "sys (su_locate (ww_setup W) (dn_key n)) ?s")
  obtain c where "res = Inl c" using assms(5) fst_sys [OF l] by metis
  then have "handle_notification (ww_setup W) alloc call (wv_controllers v1) mp n s = None"
    using assms(4) l by (simp add: handle_notification_def process_arrival_notification_def)
  then have "refresh_body (ww_setup W) alloc call mp x (v1, s) = None" using x(3) by (simp add: refresh_body_def)
  then have "hs_list_foreach (\<lambda>vs. wv_lists (fst vs)) (refresh_body (ww_setup W) alloc call mp) tmp (v1, s) = None"
    using nx \<open>x \<noteq> NULL\<close> \<open>x \<noteq> tmp\<close> by (simp add: hs_list_foreach_def ring_loop.simps)
  then show ?thesis using v1(1) assms(3) by (cases "mp = NULL") (simp_all add: hs_monitor_refresh_win32_def)
qed

theorem win32_refresh_unplugged_witness:
  "hs_monitor_refresh_win32 (ex_window\<lparr>ww_setup := ex_setup\<lparr>su_locate := \<lambda>x. Pair (Inl 13)\<rparr>\<rparr>) ex_calloc ex_nalloc []
     ex_accept 70 10 (ex_vars, ex_empty True) = None"
  by (rule win32_refresh_unplugged [OF ex_vars_queued ex_vars_sel(1) _ _ _ _ ex_vars_sel(2)])
    (simp_all add: ex_vars_sel ex_arrival_def)

end
