(* ===== verification/PlatformDarwin.thy ===== *)
theory PlatformDarwin
  imports Driver "HOL-Library.Signed_Division"
begin

text \<open>
  The interface of macOS as the library uses it, and the model of \<open>src/platform_darwin.c\<close>. The POSIX calls
  are those of \<open>Posix\<close>; the Mach clock, \<open>select\<close>, and the calls of IOKit, CoreFoundation and pthreads the
  HID driver makes are functions of a second record. Objects of IOKit and CoreFoundation are numbers, and
  0 is none. The memory \<open>malloc\<close> gives for buffers is part of the model, so that it says only
  whether there is enough.
\<close>

section \<open>The system\<close>

datatype report_type = kIOHIDReportTypeInput | kIOHIDReportTypeOutput | kIOHIDReportTypeFeature

text \<open>The types of numbers the code asks CoreFoundation for.\<close>

datatype number_type = kCFNumberSInt8Type | kCFNumberSInt16Type | kCFNumberSInt32Type | kCFNumberSInt64Type

text \<open>
  \<open>dw_number\<close> is \<open>CFNumberGetValue\<close>: whether the conversion to the type is exact, and the value it stores.
  \<open>dw_property\<close> gives the number of a property, if it is there and a number.
\<close>

record 'w darwin_os =
  dw_posix :: "'w posix_os"
  dw_timebase :: "uint32 \<times> uint32"
  dw_absolute_time :: "'w \<Rightarrow> uint64 \<times> 'w"
  dw_select :: "int list \<Rightarrow> (int \<times> int) option \<Rightarrow> 'w \<Rightarrow> (errno + int list) \<times> 'w"
  dw_malloc :: "nat \<Rightarrow> 'w \<Rightarrow> bool \<times> 'w"
  dw_number :: "number_type \<Rightarrow> int \<Rightarrow> bool \<times> int"
  dw_entry_from_path :: "string \<Rightarrow> 'w \<Rightarrow> nat \<times> 'w"
  dw_object_release :: "nat \<Rightarrow> 'w \<Rightarrow> 'w"
  dw_release :: "nat \<Rightarrow> 'w \<Rightarrow> 'w"
  dw_hid_create :: "nat \<Rightarrow> 'w \<Rightarrow> nat \<times> 'w"
  dw_hid_open :: "nat \<Rightarrow> 'w \<Rightarrow> bool \<times> 'w"
  dw_hid_close :: "nat \<Rightarrow> 'w \<Rightarrow> 'w"
  dw_property :: "nat \<Rightarrow> string \<Rightarrow> 'w \<Rightarrow> int option \<times> 'w"
  dw_hid_register :: "nat \<Rightarrow> 'w \<Rightarrow> 'w"
  dw_set_report :: "nat \<Rightarrow> report_type \<Rightarrow> uint8 \<Rightarrow> uint8 list \<Rightarrow> 'w \<Rightarrow> bool \<times> 'w"
  dw_get_report :: "nat \<Rightarrow> uint8 \<Rightarrow> nat \<Rightarrow> 'w \<Rightarrow> uint8 list option \<times> 'w"
  dw_pipe :: "'w \<Rightarrow> (errno + (int \<times> int)) \<times> 'w"
  dw_set_nonblock :: "int \<Rightarrow> 'w \<Rightarrow> 'w"
  dw_mutex_init :: "'w \<Rightarrow> int \<times> 'w"
  dw_mutex_destroy :: "'w \<Rightarrow> 'w"
  dw_cond_init :: "'w \<Rightarrow> int \<times> 'w"
  dw_cond_destroy :: "'w \<Rightarrow> 'w"
  dw_thread_create :: "'w \<Rightarrow> int \<times> 'w"
  dw_thread_join :: "'w \<Rightarrow> 'w"
  dw_current_loop :: "'w \<Rightarrow> nat \<times> 'w"
  dw_source_create :: "nat \<Rightarrow> 'w \<Rightarrow> nat \<times> 'w"
  dw_schedule :: "nat \<Rightarrow> nat \<Rightarrow> 'w \<Rightarrow> 'w"
  dw_unschedule :: "nat \<Rightarrow> nat \<Rightarrow> 'w \<Rightarrow> 'w"
  dw_source_signal :: "nat \<Rightarrow> 'w \<Rightarrow> 'w"
  dw_loop_wake_up :: "nat \<Rightarrow> 'w \<Rightarrow> 'w"

section \<open>Model of \<open>platform_darwin.c\<close>\<close>

text \<open>
  The static variable of \<open>hs_millis\<close> holds the time base of the machine, which does not change; it has no
  part in the state.
\<close>

definition ticks_millis :: "uint32 \<times> uint32 \<Rightarrow> uint64 \<Rightarrow> uint64" where
  "ticks_millis tb t = t * ucast (fst tb) div ucast (snd tb) div 1000000"

definition hs_millis_darwin :: "'w darwin_os \<Rightarrow> 'w hs_state \<Rightarrow> (uint64 \<times> 'w hs_state) option" where
  "hs_millis_darwin D s = do {
     let (t, s) = sys (dw_absolute_time D) s;
     c_assert (snd (dw_timebase D) \<noteq> 0);
     Some (ticks_millis (dw_timebase D) t, s)
   }"

definition FD_SETSIZE :: int where "FD_SETSIZE = 1024"

text \<open>
  The loop that fills the \<open>fd_set\<close>: the descriptors collected, or the one that is too large. \<open>FD_SET\<close> of a
  negative descriptor is undefined.
\<close>

fun fill_fd_set :: "int list \<Rightarrow> int list \<Rightarrow> (int + int list) option" where
  "fill_fd_set [] fds = Some (Inr fds)"
| "fill_fd_set (d # ds) fds =
     (if d \<ge> FD_SETSIZE then Some (Inl d)
      else do {
        c_assert (d \<ge> 0);
        fill_fd_set ds (d # fds)
      })"

text \<open>One \<open>select\<close>, with the rest of the timeout.\<close>

definition select_once ::
  "'w darwin_os \<Rightarrow> int list \<Rightarrow> int \<Rightarrow> uint64 \<Rightarrow> 'w hs_state \<Rightarrow> ((errno + int list) \<times> 'w hs_state) option" where
  "select_once D fds timeout start s =
     (if timeout \<ge> 0 then do {
        (t, s) \<leftarrow> hs_adjust_timeout (hs_millis_darwin D) timeout start s;
        Some (sys (dw_select D fds (Some (t sdiv 1000, t smod 1000 * 1000))) s)
      }
      else Some (sys (dw_select D fds None) s))"

text \<open>The search for the first descriptor that is set.\<close>

fun first_set :: "int list \<Rightarrow> int list \<Rightarrow> int list \<Rightarrow> int option" where
  "first_set ready (d # ds) (n # ids) = (if d \<in> set ready then Some n else first_set ready ds ids)"
| "first_set ready _ _ = None"

definition hs_poll_darwin :: "'w darwin_os \<Rightarrow> int descriptor_set \<Rightarrow> int \<Rightarrow> 'w hs_state \<Rightarrow> (int \<times> 'w hs_state) option" where
  "hs_poll_darwin D dset timeout s = do {
     c_assert (ds_count dset \<noteq> 0);
     c_assert (ds_count dset \<le> 64);
     let n = unat (ds_count dset);
     fds \<leftarrow> fill_fd_set (take n (ds_desc dset)) [];
     case fds of
       Inl d \<Rightarrow> Some (fail_with HS_ERROR_SYSTEM (Some (''Cannot select() on file descriptor '' @ show_nat 10 (nat d))) s)
     | Inr fds \<Rightarrow> do {
         (start, s) \<leftarrow> hs_millis_darwin D s;
         (r, s) \<leftarrow> retry_eintr (select_once D fds timeout start) s;
         case r of
           Inl e \<Rightarrow> Some (fail_with HS_ERROR_SYSTEM (Some (''poll() failed: '' @ os_strerror (dw_posix D) e)) s)
         | Inr ready \<Rightarrow>
             (if ready = [] then Some (0, s)
              else do {
                k \<leftarrow> first_set ready (take n (ds_desc dset)) (take n (ds_id dset));
                Some (k, s)
              })
       }
   }"

text \<open>\<open>version\<close> is the static variable.\<close>

definition hs_darwin_version :: "'w darwin_os \<Rightarrow> uint32 \<Rightarrow> uint32" where
  "hs_darwin_version D version =
     (if version \<noteq> 0 then version
      else (let vs = scan_dotted 3 (os_uname_release (dw_posix D)) in vs ! 0 * 10000 + vs ! 1 * 100 + vs ! 2))"

end
