(* ===== verification/HidDarwin.thy ===== *)
theory HidDarwin
  imports PlatformDarwin HidLinux
begin

text \<open>
  Model of \<open>src/hid_darwin.c\<close>. A handle is shared by the caller and a background thread, in whose run loop
  IOKit calls the two callbacks. The sections between \<open>pthread_mutex_lock\<close> and \<open>pthread_mutex_unlock\<close> are
  single steps with definitions of their own; writing to the pipe, which happens outside of them, is another.

  The reports are nodes of the intrusive lists of \<open>ListHead\<close>; the lists of a handle have a store of their
  own, and the heads \<open>&h->reports\<close> and \<open>&h->free_reports\<close> two addresses in it.
\<close>

section \<open>State\<close>

text \<open>
  \<open>dk_buf\<close> says whether there is a buffer for IOKit, \<open>dk_locked\<close> whether the mutex is locked between two of
  the steps; each critical section takes it and gives it back.
\<close>

record hid_report =
  hr_size :: nat
  hr_data :: "uint8 list"

record darwin_handle =
  dk_dev :: addr
  dk_service :: nat
  dk_hid :: nat
  dk_buf :: bool
  dk_size :: nat
  dk_mutex_init :: bool
  dk_locked :: bool
  dk_pipe :: "int \<times> int"
  dk_thread_ret :: int
  dk_lists :: list_mem
  dk_mem :: "addr \<rightharpoonup> hid_report"
  dk_reports :: addr
  dk_allocated :: uint32
  dk_free :: addr
  dk_cond_init :: bool
  dk_loop :: nat
  dk_shutdown :: nat

type_synonym 'w darwin_state = "darwin_handle \<times> 'w hs_state"

abbreviation dw_read :: "'w darwin_os \<Rightarrow> int \<Rightarrow> nat \<Rightarrow> 'w \<Rightarrow> (errno + uint8 list) \<times> 'w" where
  "dw_read D \<equiv> os_read (dw_posix D)"

abbreviation dw_write :: "'w darwin_os \<Rightarrow> int \<Rightarrow> uint8 list \<Rightarrow> 'w \<Rightarrow> (errno + int) \<times> 'w" where
  "dw_write D \<equiv> os_write (dw_posix D)"

section \<open>The event\<close>

text \<open>The results of both calls are ignored.\<close>

definition fire_device_event :: "'w darwin_os \<Rightarrow> darwin_handle \<Rightarrow> 'w hs_state \<Rightarrow> 'w hs_state" where
  "fire_device_event D h s = snd (sys (dw_write D (snd (dk_pipe h)) [of_char CHR ''.'']) s)"

definition reset_device_event :: "'w darwin_os \<Rightarrow> darwin_handle \<Rightarrow> 'w hs_state \<Rightarrow> 'w hs_state" where
  "reset_device_event D h s = snd (sys (dw_read D (fst (dk_pipe h)) 1) s)"

section \<open>The callbacks\<close>

text \<open>The critical section of \<open>hid_removal_callback\<close>.\<close>

definition removal_locked :: "'w darwin_os \<Rightarrow> 'w darwin_state \<Rightarrow> 'w darwin_state" where
  "removal_locked D hs =
     (let (h, s) = hs;
          s = sys_do (dw_release D (dk_hid h)) s;
          h = h\<lparr>dk_hid := 0\<rparr>;
          s = sys_do (dw_source_signal D (dk_shutdown h)) s in
      (h\<lparr>dk_loop := 0\<rparr>, s))"

definition hid_removal_callback :: "'w darwin_os \<Rightarrow> 'w darwin_state \<Rightarrow> 'w darwin_state" where
  "hid_removal_callback D hs =
     (let (h, s) = removal_locked D hs in (h, fire_device_event D h s))"

text \<open>
  Copying a report into the structure at \<open>p\<close>, behind its number, and appending it to the queue. A report that
  is longer than the size the device has announced is cut.
\<close>

definition store_report :: "addr \<Rightarrow> uint32 \<Rightarrow> uint8 list \<Rightarrow> darwin_handle \<Rightarrow> darwin_handle option" where
  "store_report p report_id data h = do {
     let size = (if length data > dk_size h then dk_size h else length data);
     rp \<leftarrow> dk_mem h p;
     b \<leftarrow> buf_write 0 [ucast report_id] (hr_data rp);
     b \<leftarrow> buf_write 1 (take size data) b;
     l \<leftarrow> hs_list_add_tail (dk_lists h) (dk_reports h) p;
     Some (h\<lparr>dk_mem := (dk_mem h)(p \<mapsto> \<lparr>hr_size = size + 1, hr_data = b\<rparr>), dk_lists := l\<rparr>)
   }"

text \<open>\<open>calloc\<close> of a report at \<open>p\<close>, and \<open>free\<close>.\<close>

definition report_alloc :: "addr \<Rightarrow> darwin_handle \<Rightarrow> darwin_handle" where
  "report_alloc p h = h\<lparr>dk_lists := list_alloc (dk_lists h) p,
     dk_mem := (dk_mem h)(p \<mapsto> \<lparr>hr_size = 0, hr_data = replicate (dk_size h + 1) 0\<rparr>)\<rparr>"

definition report_free :: "addr \<Rightarrow> darwin_handle \<Rightarrow> darwin_handle" where
  "report_free p h = h\<lparr>dk_lists := list_free (dk_lists h) p, dk_mem := (dk_mem h)(p := None)\<rparr>"

text \<open>
  The critical section of \<open>hid_report_callback\<close>: \<open>nalloc\<close> gives the address of the next report, null when
  memory runs out. The first result is the variable \<open>fire\<close>.
\<close>

definition report_locked ::
  "(darwin_handle \<Rightarrow> addr) \<Rightarrow> uint32 \<Rightarrow> uint8 list \<Rightarrow> 'w darwin_state \<Rightarrow> (bool \<times> 'w darwin_state) option" where
  "report_locked nalloc report_id data hs = do {
     let (h, s) = hs;
     fire \<leftarrow> hs_list_is_empty (dk_lists h) (dk_reports h);
     p \<leftarrow> hs_list_get_first (dk_lists h) (dk_free h);
     if p \<noteq> NULL then do {
       l \<leftarrow> hs_list_remove (dk_lists h) p;
       h \<leftarrow> store_report p report_id data (h\<lparr>dk_lists := l\<rparr>);
       Some (fire, h, s)
     }
     else if dk_allocated h = 64 then Some (fire, h, s)
     else if nalloc h = NULL
     then (let (r, s) = fail_with HS_ERROR_MEMORY None s in Some (fire, h\<lparr>dk_thread_ret := r\<rparr>, s))
     else do {
       let p = nalloc h;
       let h = report_alloc p h;
       let h = h\<lparr>dk_allocated := dk_allocated h + 1\<rparr>;
       h \<leftarrow> store_report p report_id data h;
       Some (fire, h, s)
     }
   }"

definition hid_report_callback ::
  "'w darwin_os \<Rightarrow> (darwin_handle \<Rightarrow> addr) \<Rightarrow> report_type \<Rightarrow> uint32 \<Rightarrow> uint8 list \<Rightarrow> 'w darwin_state \<Rightarrow> 'w darwin_state option"
where
  "hid_report_callback D nalloc report_type report_id data hs =
     (if report_type \<noteq> kIOHIDReportTypeInput then Some hs
      else do {
        (fire, h, s) \<leftarrow> report_locked nalloc report_id data hs;
        Some (h, if fire then fire_device_event D h s else s)
      })"

text \<open>
  What happens in the run loop while the caller is elsewhere. IOKit reports the removal of a device once, so
  there is none without a device.
\<close>

datatype hid_event = Hid_removed | Hid_report report_type uint32 "uint8 list"

fun hid_dispatch ::
  "'w darwin_os \<Rightarrow> (darwin_handle \<Rightarrow> addr) \<Rightarrow> hid_event list \<Rightarrow> 'w darwin_state \<Rightarrow> 'w darwin_state option" where
  "hid_dispatch D nalloc [] hs = Some hs"
| "hid_dispatch D nalloc (Hid_removed # es) hs =
     hid_dispatch D nalloc es (if dk_hid (fst hs) = 0 then hs else hid_removal_callback D hs)"
| "hid_dispatch D nalloc (Hid_report t i data # es) hs = do {
     hs \<leftarrow> hid_report_callback D nalloc t i data hs;
     hid_dispatch D nalloc es hs
   }"

section \<open>The background thread\<close>

text \<open>\<open>device_thread\<close> up to the point where it runs its loop, or its error exit.\<close>

definition device_thread_start :: "'w darwin_os \<Rightarrow> 'w darwin_state \<Rightarrow> 'w darwin_state" where
  "device_thread_start D hs =
     (let (h, s) = hs;
          (loop, s) = sys (dw_current_loop D) s;
          h = h\<lparr>dk_loop := loop\<rparr>;
          (source, s) = sys (dw_source_create D loop) s;
          h = h\<lparr>dk_shutdown := source\<rparr> in
      if source = 0
      then (let (r, s) = fail_with HS_ERROR_SYSTEM (Some ''CFRunLoopSourceCreate() failed'') s in
            (h\<lparr>dk_thread_ret := r\<rparr>, s))
      else (h\<lparr>dk_thread_ret := 1\<rparr>, sys_do (dw_schedule D (dk_hid h) loop) s))"

text \<open>What is left of it when the loop has stopped.\<close>

definition device_thread_stop :: "'w darwin_os \<Rightarrow> 'w darwin_state \<Rightarrow> 'w darwin_state" where
  "device_thread_stop D hs =
     (let (h, s) = hs;
          s = (if dk_hid h \<noteq> 0 then sys_do (dw_unschedule D (dk_hid h) (dk_loop h)) s else s) in
      (h\<lparr>dk_loop := 0\<rparr>, s))"

definition device_thread ::
  "'w darwin_os \<Rightarrow> (darwin_handle \<Rightarrow> addr) \<Rightarrow> hid_event list \<Rightarrow> 'w darwin_state \<Rightarrow> 'w darwin_state option" where
  "device_thread D nalloc events hs = do {
     let hs = device_thread_start D hs;
     if dk_shutdown (fst hs) = 0 then Some hs
     else do {
       hs \<leftarrow> hid_dispatch D nalloc events hs;
       Some (device_thread_stop D hs)
     }
   }"

section \<open>Opening and closing\<close>

definition free_report_body :: "addr \<Rightarrow> darwin_handle \<Rightarrow> (unit flow \<times> darwin_handle) option" where
  "free_report_body cur h = do {
     rp \<leftarrow> dk_mem h cur;
     Some (Continue, report_free cur h)
   }"

text \<open>The thread is told to stop and waited for; \<open>events\<close> is what its loop still handles.\<close>

definition stop_device_thread ::
  "'w darwin_os \<Rightarrow> (darwin_handle \<Rightarrow> addr) \<Rightarrow> hid_event list \<Rightarrow> 'w darwin_state \<Rightarrow> 'w darwin_state option" where
  "stop_device_thread D nalloc events hs = do {
     let (h, s) = hs;
     let s = (if dk_loop h \<noteq> 0 then sys_do (dw_loop_wake_up D (dk_loop h)) (sys_do (dw_source_signal D (dk_shutdown h)) s) else s);
     hs \<leftarrow> hid_dispatch D nalloc events (h, s);
     let (h, s) = device_thread_stop D hs;
     Some (h, sys_do (dw_release D (dk_shutdown h)) (sys_do (dw_thread_join D) s))
   }"

text \<open>Destroying a mutex that is locked is undefined.\<close>

definition close_hid_device ::
  "'w darwin_os \<Rightarrow> (darwin_handle \<Rightarrow> addr) \<Rightarrow> hid_event list \<Rightarrow> darwin_handle \<Rightarrow> 'w hs_state \<Rightarrow> 'w hs_state option" where
  "close_hid_device D nalloc events h s = do {
     (h, s) \<leftarrow> (if dk_shutdown h \<noteq> 0 then stop_device_thread D nalloc events (h, s) else Some (h, s));
     let s = (if dk_cond_init h then sys_do (dw_cond_destroy D) s else s);
     s \<leftarrow> (if dk_mutex_init h then do { c_assert (\<not> dk_locked h); Some (sys_do (dw_mutex_destroy D) s) } else Some s);
     l \<leftarrow> hs_list_splice (dk_lists h) (dk_free h) (dk_reports h);
     (fl, h) \<leftarrow> hs_list_foreach dk_lists free_report_body (dk_free h) (h\<lparr>dk_lists := l\<rparr>);
     let s = sys_do (os_close (dw_posix D) (fst (dk_pipe h))) s;
     let s = sys_do (os_close (dw_posix D) (snd (dk_pipe h))) s;
     let s = (if dk_hid h \<noteq> 0 then sys_do (dw_release D (dk_hid h)) (sys_do (dw_hid_close D (dk_hid h)) s) else s);
     let s = (if dk_service h \<noteq> 0 then sys_do (dw_object_release D (dk_service h)) s else s);
     hs_device_unref (dk_dev h) s
   }"

definition hid_open_fail ::
  "'w darwin_os \<Rightarrow> (darwin_handle \<Rightarrow> addr) \<Rightarrow> hid_event list \<Rightarrow> darwin_handle \<Rightarrow> int \<times> 'w hs_state
     \<Rightarrow> (int \<times> darwin_handle option \<times> 'w hs_state) option" where
  "hid_open_fail D nalloc events h rs = do {
     s \<leftarrow> close_hid_device D nalloc events h (snd rs);
     Some (fst rs, None, s)
   }"

text \<open>Whether the number was stored exactly, and what was stored, if anything.\<close>

definition get_hid_device_property_number ::
  "'w darwin_os \<Rightarrow> nat \<Rightarrow> string \<Rightarrow> number_type \<Rightarrow> 'w hs_state \<Rightarrow> bool \<times> int option \<times> 'w hs_state" where
  "get_hid_device_property_number D hid prop type s =
     (case sys (dw_property D hid prop) s of
        (None, s) \<Rightarrow> (False, None, s)
      | (Some v, s) \<Rightarrow> (let (ok, x) = dw_number D type v in (ok, Some x, s)))"

text \<open>
  The thread is started with the mutex locked, which the caller gives up while it waits for \<open>thread_ret\<close>.
  \<open>early\<close> is what the loop handles before the caller has the mutex again.
\<close>

definition hid_open_thread ::
  "'w darwin_os \<Rightarrow> (darwin_handle \<Rightarrow> addr) \<Rightarrow> hid_event list \<Rightarrow> hid_event list \<Rightarrow> darwin_handle \<Rightarrow> 'w hs_state
     \<Rightarrow> (int \<times> darwin_handle option \<times> 'w hs_state) option" where
  "hid_open_thread D nalloc early events h s = do {
     let h = h\<lparr>dk_locked := True\<rparr>;
     let (e, s) = sys (dw_thread_create D) s;
     if e \<noteq> 0
     then hid_open_fail D nalloc events h
       (fail_with HS_ERROR_SYSTEM (Some (''pthread_create() failed: '' @ os_strerror (dw_posix D) (EOTHER (nat e)))) s)
     else do {
       let (h, s) = device_thread_start D (h, s);
       (h, s) \<leftarrow> (if dk_shutdown h \<noteq> 0 then hid_dispatch D nalloc early (h, s) else Some (h, s));
       let r = dk_thread_ret h;
       let h = h\<lparr>dk_thread_ret := 0, dk_locked := False\<rparr>;
       if r < 0 then hid_open_fail D nalloc events h (r, s) else Some (0, Some h, s)
     }
   }"

text \<open>The pipe, the mutex and the condition variable.\<close>

definition hid_open_sync ::
  "'w darwin_os \<Rightarrow> (darwin_handle \<Rightarrow> addr) \<Rightarrow> hid_event list \<Rightarrow> hid_event list \<Rightarrow> darwin_handle \<Rightarrow> 'w hs_state
     \<Rightarrow> (int \<times> darwin_handle option \<times> 'w hs_state) option" where
  "hid_open_sync D nalloc early events h s =
     (case sys (dw_pipe D) s of
        (Inl e, s) \<Rightarrow> hid_open_fail D nalloc events h
          (fail_with HS_ERROR_SYSTEM (Some (''pipe() failed: '' @ os_strerror (dw_posix D) e)) s)
      | (Inr fds, s) \<Rightarrow>
          (let h = h\<lparr>dk_pipe := fds\<rparr>;
               s = sys_do (dw_set_nonblock D (snd fds)) (sys_do (dw_set_nonblock D (fst fds)) s);
               (r, s) = sys (dw_mutex_init D) s in
           if r < 0
           then hid_open_fail D nalloc events h (fail_with HS_ERROR_SYSTEM
             (Some (''pthread_mutex_init() failed: '' @ os_strerror (dw_posix D) (EOTHER (nat r)))) s)
           else
             (let h = h\<lparr>dk_mutex_init := True\<rparr>;
                  (r, s) = sys (dw_cond_init D) s in
              if r < 0
              then hid_open_fail D nalloc events h (fail_with HS_ERROR_SYSTEM
                (Some (''pthread_cond_init() failed: '' @ os_strerror (dw_posix D) (EOTHER (nat r)))) s)
              else hid_open_thread D nalloc early events (h\<lparr>dk_cond_init := True\<rparr>) s)))"

text \<open>
  The IOKit object of the device and its report size, a 32-bit number that is stored in the lower half of a
  \<open>size_t\<close>.
\<close>

definition hid_open_object ::
  "'w darwin_os \<Rightarrow> (darwin_handle \<Rightarrow> addr) \<Rightarrow> hid_event list \<Rightarrow> hid_event list \<Rightarrow> string \<Rightarrow> darwin_handle \<Rightarrow> 'w hs_state
     \<Rightarrow> (int \<times> darwin_handle option \<times> 'w hs_state) option" where
  "hid_open_object D nalloc early events path h s =
     (let (service, s) = sys (dw_entry_from_path D path) s;
          h = h\<lparr>dk_service := service\<rparr> in
      if service = 0
      then hid_open_fail D nalloc events h (fail_with HS_ERROR_NOT_FOUND (Some (''Device '' @ sq path @ '' not found'')) s)
      else
        (let (hid, s) = sys (dw_hid_create D service) s;
             h = h\<lparr>dk_hid := hid\<rparr> in
         if hid = 0
         then hid_open_fail D nalloc events h (fail_with HS_ERROR_NOT_FOUND (Some (''Device '' @ sq path @ '' not found'')) s)
         else
           (let (ok, s) = sys (dw_hid_open D hid) s in
            if \<not> ok
            then hid_open_fail D nalloc events h
              (fail_with HS_ERROR_SYSTEM (Some (''Failed to open HID device '' @ sq path)) s)
            else
              (let (ok, v, s) = get_hid_device_property_number D hid ''MaxInputReportSize'' kCFNumberSInt32Type s;
                   h = (case v of None \<Rightarrow> h | Some x \<Rightarrow> h\<lparr>dk_size := unat (of_int x :: uint32)\<rparr>) in
               if \<not> ok
               then hid_open_fail D nalloc events h
                 (fail_with HS_ERROR_SYSTEM (Some (''HID device '' @ sq path @ '' has no valid report size key'')) s)
               else
                 (let (mem, s) = sys (dw_malloc D (dk_size h)) s;
                      h = h\<lparr>dk_buf := mem\<rparr> in
                  if \<not> mem then hid_open_fail D nalloc events h (fail_with HS_ERROR_MEMORY None s)
                  else hid_open_sync D nalloc early events h (sys_do (dw_hid_register D hid) s))))))"

text \<open>A handle at \<open>p\<close> from \<open>calloc\<close>, in which the list heads follow each other.\<close>

definition zero_darwin_handle :: "addr \<Rightarrow> darwin_handle" where
  "zero_darwin_handle p = \<lparr>dk_dev = NULL, dk_service = 0, dk_hid = 0, dk_buf = False, dk_size = 0, dk_mutex_init = False,
     dk_locked = False, dk_pipe = (0, 0), dk_thread_ret = 0,
     dk_lists = list_alloc (list_alloc \<lparr>l_prev = Map.empty, l_next = Map.empty\<rparr> p) (p + 1),
     dk_mem = Map.empty, dk_reports = p, dk_allocated = 0, dk_free = p + 1, dk_cond_init = False, dk_loop = 0, dk_shutdown = 0\<rparr>"

definition open_hid_device ::
  "'w darwin_os \<Rightarrow> (darwin_handle \<Rightarrow> addr) \<Rightarrow> hid_event list \<Rightarrow> hid_event list \<Rightarrow> addr \<Rightarrow> addr \<Rightarrow> 'w hs_state
     \<Rightarrow> (int \<times> darwin_handle option \<times> 'w hs_state) option" where
  "open_hid_device D nalloc early events p dev s =
     (if p = NULL then (let (r, s) = fail_with HS_ERROR_MEMORY None s in Some (r, None, s))
      else do {
        (q, s) \<leftarrow> hs_device_ref dev s;
        d \<leftarrow> devs s dev;
        path \<leftarrow> d_path d;
        let h = (zero_darwin_handle p)\<lparr>dk_dev := q, dk_pipe := (-1, -1)\<rparr>;
        l \<leftarrow> hs_list_init (dk_lists h) (dk_reports h);
        l \<leftarrow> hs_list_init l (dk_free h);
        hid_open_object D nalloc early events path (h\<lparr>dk_lists := l\<rparr>) s
      })"

definition get_hid_descriptor :: "darwin_handle \<Rightarrow> int" where
  "get_hid_descriptor h = fst (dk_pipe h)"

definition hs_darwin_hid_vtable ::
  "'w darwin_os \<Rightarrow> (darwin_handle \<Rightarrow> addr) \<Rightarrow> hid_event list \<Rightarrow> hid_event list \<Rightarrow> addr \<Rightarrow> ('w, darwin_handle) device_vtable"
where
  "hs_darwin_hid_vtable D nalloc early events p =
     \<lparr>vt_open = open_hid_device D nalloc early events p, vt_close = close_hid_device D nalloc events,
      vt_get_descriptor = get_hid_descriptor\<rparr>"

section \<open>Reports\<close>

text \<open>\<open>return hs_error(HS_ERROR_IO, "Device '%s' was removed", ...)\<close>\<close>

definition removed_error :: "darwin_handle \<Rightarrow> 'w hs_state \<Rightarrow> (int \<times> 'w hs_state) option" where
  "removed_error h s = do {
     d \<leftarrow> devs s (dk_dev h);
     path \<leftarrow> d_path d;
     Some (fail_with HS_ERROR_IO (Some (''Device '' @ sq path @ '' was removed'')) s)
   }"

text \<open>Which number ends up in a field of 16 bits.\<close>

definition usage_field :: "uint16 \<Rightarrow> int option \<Rightarrow> uint16" where
  "usage_field old v = (case v of None \<Rightarrow> old | Some x \<Rightarrow> of_int x)"

definition hs_hid_parse_descriptor_darwin ::
  "'w darwin_os \<Rightarrow> darwin_handle \<Rightarrow> hs_hid_descriptor \<Rightarrow> 'w hs_state \<Rightarrow> (int \<times> hs_hid_descriptor \<times> 'w hs_state) option" where
  "hs_hid_parse_descriptor_darwin D h desc s =
     (if dk_hid h = 0 then do { (r, s) \<leftarrow> removed_error h s; Some (r, desc, s) }
      else
        (let desc = \<lparr>hd_usage_page = 0, hd_usage = 0\<rparr>;
             (_, page, s) = get_hid_device_property_number D (dk_hid h) ''PrimaryUsagePage'' kCFNumberSInt16Type s;
             desc = desc\<lparr>hd_usage_page := usage_field (hd_usage_page desc) page\<rparr>;
             (_, use, s) = get_hid_device_property_number D (dk_hid h) ''PrimaryUsage'' kCFNumberSInt16Type s;
             desc = desc\<lparr>hd_usage := usage_field (hd_usage desc) use\<rparr> in
         Some (0, desc, s)))"

text \<open>One \<open>poll\<close> with the rest of the timeout, and the wait of \<open>hs_hid_read\<close>.\<close>

definition pipe_poll ::
  "'w darwin_os \<Rightarrow> int \<Rightarrow> int \<Rightarrow> uint64 \<Rightarrow> 'w hs_state \<Rightarrow> ((errno + (int \<times> uint16 list)) \<times> 'w hs_state) option" where
  "pipe_poll D fd timeout start s = do {
     (t, s) \<leftarrow> hs_adjust_timeout (hs_millis_darwin D) timeout start s;
     Some (sys (os_poll (dw_posix D) [(fd, POLLIN)] t) s)
   }"

definition wait_report ::
  "'w darwin_os \<Rightarrow> darwin_handle \<Rightarrow> string \<Rightarrow> int \<Rightarrow> 'w hs_state \<Rightarrow> ((int + unit) \<times> 'w hs_state) option" where
  "wait_report D h path timeout s =
     (if timeout = 0 then Some (Inr (), s)
      else do {
        (start, s) \<leftarrow> hs_millis_darwin D s;
        (r, s) \<leftarrow> retry_eintr (pipe_poll D (fst (dk_pipe h)) timeout start) s;
        case r of
          Inl e \<Rightarrow> (let (r, s) = fail_with HS_ERROR_SYSTEM
              (Some (''poll('' @ sq path @ '') failed: '' @ os_strerror (dw_posix D) e)) s in Some (Inl r, s))
        | Inr (k, es) \<Rightarrow> Some (if k = 0 then Inl 0 else Inr (), s)
      })"

text \<open>\<open>reset:\<close>\<close>

definition reset_if_empty :: "'w darwin_os \<Rightarrow> 'w darwin_state \<Rightarrow> 'w darwin_state option" where
  "reset_if_empty D hs = do {
     let (h, s) = hs;
     e \<leftarrow> hs_list_is_empty (dk_lists h) (dk_reports h);
     Some (h, if e then reset_device_event D h s else s)
   }"

text \<open>The critical section of \<open>hs_hid_read\<close>.\<close>

definition read_locked ::
  "'w darwin_os \<Rightarrow> uint8 list \<Rightarrow> nat \<Rightarrow> 'w darwin_state \<Rightarrow> (int \<times> uint8 list \<times> 'w darwin_state) option" where
  "read_locked D buf n hs = do {
     let (h, s) = hs;
     if dk_thread_ret h < 0 then do {
       let r = dk_thread_ret h;
       hs \<leftarrow> reset_if_empty D (h\<lparr>dk_thread_ret := 0\<rparr>, s);
       Some (r, buf, hs)
     }
     else do {
       p \<leftarrow> hs_list_get_first (dk_lists h) (dk_reports h);
       if p = NULL then Some (0, buf, h, s)
       else do {
         rp \<leftarrow> dk_mem h p;
         let n = (if n > hr_size rp then hr_size rp else n);
         c_assert (n \<le> length (hr_data rp));
         buf \<leftarrow> buf_write 0 (take n (hr_data rp)) buf;
         l \<leftarrow> hs_list_remove (dk_lists h) p;
         l \<leftarrow> hs_list_add l (dk_free h) p;
         hs \<leftarrow> reset_if_empty D (h\<lparr>dk_lists := l\<rparr>, s);
         Some (int n, buf, hs)
       }
     }
   }"

text \<open>\<open>events\<close> is what the thread handles while the caller waits.\<close>

definition hs_hid_read_darwin ::
  "'w darwin_os \<Rightarrow> (darwin_handle \<Rightarrow> addr) \<Rightarrow> hid_event list \<Rightarrow> darwin_handle \<Rightarrow> uint8 list \<Rightarrow> nat \<Rightarrow> int \<Rightarrow> 'w hs_state
     \<Rightarrow> (int \<times> uint8 list \<times> 'w darwin_state) option" where
  "hs_hid_read_darwin D nalloc events h buf n timeout s = do {
     d \<leftarrow> hid_device (dk_dev h) s;
     c_assert (n \<noteq> 0);
     if dk_hid h = 0 then do { (r, s) \<leftarrow> removed_error h s; Some (r, buf, h, s) }
     else do {
       path \<leftarrow> d_path d;
       (go, s) \<leftarrow> wait_report D h path timeout s;
       (h, s) \<leftarrow> hid_dispatch D nalloc events (h, s);
       case go of
         Inl r \<Rightarrow> Some (r, buf, h, s)
       | Inr _ \<Rightarrow> read_locked D buf n (h, s)
     }
   }"

text \<open>The first byte is the report number; 0 means that there is none, and is not sent.\<close>

definition send_report ::
  "'w darwin_os \<Rightarrow> report_type \<Rightarrow> darwin_handle \<Rightarrow> uint8 list \<Rightarrow> nat \<Rightarrow> 'w hs_state \<Rightarrow> (int \<times> 'w hs_state) option" where
  "send_report D type h buf n s =
     (if dk_hid h = 0 then removed_error h s
      else if n < 2 then Some (0, s)
      else do {
        c_assert (n \<le> length buf);
        report \<leftarrow> buf_read buf 0;
        let data = (if report = 0 then drop 1 (take n buf) else take n buf);
        let (ok, s) = sys (dw_set_report D (dk_hid h) type report data) s;
        if \<not> ok then Some (fail_with HS_ERROR_SYSTEM (Some ''IOHIDDeviceSetReport() failed'') s)
        else Some (int (length data) + (if report = 0 then 1 else 0), s)
      })"

definition hs_hid_write_darwin ::
  "'w darwin_os \<Rightarrow> darwin_handle \<Rightarrow> uint8 list \<Rightarrow> nat \<Rightarrow> 'w hs_state \<Rightarrow> (int \<times> 'w hs_state) option" where
  "hs_hid_write_darwin D h buf n s = do {
     d \<leftarrow> hid_device (dk_dev h) s;
     send_report D kIOHIDReportTypeOutput h buf n s
   }"

text \<open>IOKit stores the report behind the first byte; a null device is not checked for.\<close>

definition hs_hid_get_feature_report_darwin ::
  "'w darwin_os \<Rightarrow> darwin_handle \<Rightarrow> uint8 \<Rightarrow> uint8 list \<Rightarrow> nat \<Rightarrow> 'w hs_state \<Rightarrow> (int \<times> uint8 list \<times> 'w hs_state) option" where
  "hs_hid_get_feature_report_darwin D h report_id buf n s = do {
     d \<leftarrow> hid_device (dk_dev h) s;
     c_assert (n \<noteq> 0);
     c_assert (dk_hid h \<noteq> 0);
     case sys (dw_get_report D (dk_hid h) report_id (n - 1)) s of
       (None, s) \<Rightarrow> (let (r, s) = fail_with HS_ERROR_SYSTEM (Some ''IOHIDDeviceSetReport() failed'') s in Some (r, buf, s))
     | (Some ds, s) \<Rightarrow> do {
         buf \<leftarrow> buf_write 1 ds buf;
         buf \<leftarrow> buf_write 0 [report_id] buf;
         Some (int (length ds), buf, s)
       }
   }"

definition hs_hid_send_feature_report_darwin ::
  "'w darwin_os \<Rightarrow> darwin_handle \<Rightarrow> uint8 list \<Rightarrow> nat \<Rightarrow> 'w hs_state \<Rightarrow> (int \<times> 'w hs_state) option" where
  "hs_hid_send_feature_report_darwin D h buf n s = do {
     d \<leftarrow> hid_device (dk_dev h) s;
     send_report D kIOHIDReportTypeFeature h buf n s
   }"

end
