(* ===== verification/QueueDarwin.thy ===== *)
theory QueueDarwin
  imports HidDarwin
begin

text \<open>
  The queue of reports of a macOS HID handle. A report is taken from the free list or allocated, filled and
  appended to the queue; reading one takes it off the front and puts it on the free list. \<open>queue_of\<close> is the
  sequence of reports the two lists represent; the critical sections refine appending to it and taking
  its head.
\<close>

section \<open>Representation\<close>

definition report_at :: "darwin_handle \<Rightarrow> addr \<Rightarrow> bool" where
  "report_at h p \<longleftrightarrow>
     (\<exists>rp. dk_mem h p = Some rp \<and> length (hr_data rp) = dk_size h + 1 \<and> 0 < hr_size rp \<and> hr_size rp \<le> dk_size h + 1)"

definition report_bytes :: "darwin_handle \<Rightarrow> addr \<Rightarrow> uint8 list" where
  "report_bytes h p = (case dk_mem h p of Some rp \<Rightarrow> take (hr_size rp) (hr_data rp) | None \<Rightarrow> [])"

definition queue_rep :: "darwin_handle \<Rightarrow> addr list \<Rightarrow> addr list \<Rightarrow> bool" where
  "queue_rep h rs fs \<longleftrightarrow>
     ring (dk_lists h) (dk_reports h) rs \<and> ring (dk_lists h) (dk_free h) fs \<and>
     set (dk_reports h # rs) \<inter> set (dk_free h # fs) = {} \<and> (\<forall>p \<in> set (rs @ fs). report_at h p) \<and>
     length rs + length fs \<le> 64 \<and> dk_allocated h = of_nat (length rs + length fs)"

definition queue_of :: "darwin_handle \<Rightarrow> uint8 list list \<Rightarrow> bool" where
  "queue_of h Q \<longleftrightarrow> (\<exists>rs fs. queue_rep h rs fs \<and> Q = map (report_bytes h) rs)"

text \<open>The fields that the queue operations leave alone.\<close>

definition same_handle :: "darwin_handle \<Rightarrow> darwin_handle \<Rightarrow> bool" where
  "same_handle h h' \<longleftrightarrow> dk_dev h' = dk_dev h \<and> dk_service h' = dk_service h \<and> dk_hid h' = dk_hid h \<and>
     dk_buf h' = dk_buf h \<and> dk_size h' = dk_size h \<and> dk_mutex_init h' = dk_mutex_init h \<and> dk_locked h' = dk_locked h \<and>
     dk_pipe h' = dk_pipe h \<and> dk_reports h' = dk_reports h \<and> dk_free h' = dk_free h \<and>
     dk_cond_init h' = dk_cond_init h \<and> dk_loop h' = dk_loop h \<and> dk_shutdown h' = dk_shutdown h"

lemma same_handle_refl [simp]: "same_handle h h"
  by (simp add: same_handle_def)

lemma same_handle_trans: "same_handle h h' \<Longrightarrow> same_handle h' h'' \<Longrightarrow> same_handle h h''"
  by (simp add: same_handle_def)

text \<open>An address \<open>calloc\<close> may give for a report: null, or one that is not in use.\<close>

definition report_allocates :: "(darwin_handle \<Rightarrow> addr) \<Rightarrow> bool" where
  "report_allocates nalloc \<longleftrightarrow> (\<forall>h. nalloc h = NULL \<or> l_next (dk_lists h) (nalloc h) = None)"

text \<open>A report as it is queued: its number, and as much of it as the device has announced.\<close>

definition queued_report :: "darwin_handle \<Rightarrow> uint32 \<Rightarrow> uint8 list \<Rightarrow> uint8 list" where
  "queued_report h i data = ucast i # take (dk_size h) data"

lemma queue_repD:
  assumes "queue_rep h rs fs"
  shows "ring (dk_lists h) (dk_reports h) rs" "ring (dk_lists h) (dk_free h) fs"
    "set (dk_reports h # rs) \<inter> set (dk_free h # fs) = {}" "p \<in> set (rs @ fs) \<Longrightarrow> report_at h p"
    "length rs + length fs \<le> 64" "dk_allocated h = of_nat (length rs + length fs)"
  using assms by (simp_all add: queue_rep_def)

lemma report_at_upd:
  "report_at (h\<lparr>dk_lists := l\<rparr>) = report_at h" "report_at (h\<lparr>dk_allocated := k\<rparr>) = report_at h"
  "report_at (h\<lparr>dk_thread_ret := r\<rparr>) = report_at h" "report_bytes (h\<lparr>dk_lists := l\<rparr>) = report_bytes h"
  "report_bytes (h\<lparr>dk_allocated := k\<rparr>) = report_bytes h" "report_bytes (h\<lparr>dk_thread_ret := r\<rparr>) = report_bytes h"
  "report_at (h\<lparr>dk_hid := x\<rparr>) = report_at h" "report_bytes (h\<lparr>dk_hid := x\<rparr>) = report_bytes h"
  "report_at (h\<lparr>dk_loop := y\<rparr>) = report_at h" "report_bytes (h\<lparr>dk_loop := y\<rparr>) = report_bytes h"
  "report_at (h\<lparr>dk_locked := b\<rparr>) = report_at h" "report_bytes (h\<lparr>dk_locked := b\<rparr>) = report_bytes h"
  by (simp_all add: report_at_def report_bytes_def fun_eq_iff)

lemma queue_rep_thread_ret [simp]: "queue_rep (h\<lparr>dk_thread_ret := r\<rparr>) rs fs = queue_rep h rs fs"
  by (simp add: queue_rep_def report_at_upd)

lemma queue_of_upd [simp]:
  "queue_of (h\<lparr>dk_thread_ret := r\<rparr>) Q = queue_of h Q" "queue_of (h\<lparr>dk_hid := x\<rparr>) Q = queue_of h Q"
  "queue_of (h\<lparr>dk_loop := y\<rparr>) Q = queue_of h Q" "queue_of (h\<lparr>dk_locked := b\<rparr>) Q = queue_of h Q"
  by (simp_all add: queue_of_def queue_rep_def report_at_upd)

lemma ring_fresh: "ring m h xs \<Longrightarrow> l_next m a = None \<Longrightarrow> a \<notin> set (h # xs)"
  using ring_allocated [of m h xs a] by (auto simp: list_allocated_def)

section \<open>Storing a report\<close>

text \<open>A node that is in neither list is filled and appended.\<close>

lemma store_report_run:
  assumes r: "ring (dk_lists h) (dk_reports h) rs" and f: "ring (dk_lists h) (dk_free h) fs"
    and d: "set (dk_reports h # rs) \<inter> set (dk_free h # fs) = {}"
    and all: "\<forall>q \<in> set (rs @ fs). report_at h q"
    and p: "list_allocated (dk_lists h) p" "p \<notin> set (dk_reports h # rs)" "p \<notin> set (dk_free h # fs)"
    and rp: "dk_mem h p = Some rp" "length (hr_data rp) = dk_size h + 1"
    and n: "length rs + length fs < 64" "dk_allocated h = of_nat (Suc (length rs + length fs))"
  shows "\<exists>h'. store_report p i data h = Some h' \<and> queue_rep h' (rs @ [p]) fs \<and> same_handle h h' \<and>
     map (report_bytes h') (rs @ [p]) = map (report_bytes h) rs @ [queued_report h i data] \<and>
     dk_thread_ret h' = dk_thread_ret h"
proof -
  obtain l where l: "hs_list_add_tail (dk_lists h) (dk_reports h) p = Some l" "ring l (dk_reports h) (rs @ [p])"
      "same_outside (dk_lists h) l (set (p # dk_reports h # rs))"
    using hs_list_add_tail_ring [OF r p(1,2)] by blast
  let ?d = "take (dk_size h) data"
  have size: "(if length data > dk_size h then dk_size h else length data) = length ?d" by simp
  obtain c cs where c: "hr_data rp = c # cs" "length cs = dk_size h" using rp(2) by (cases "hr_data rp") auto
  let ?rp = "\<lparr>hr_size = length ?d + 1, hr_data = ucast i # ?d @ drop (length ?d) cs\<rparr>"
  let ?h = "h\<lparr>dk_mem := (dk_mem h)(p \<mapsto> ?rp), dk_lists := l\<rparr>"
  have "store_report p i data h = Some ?h"
    using rp(1) c l(1) by (simp add: store_report_def buf_write_def Let_def)
  moreover have "set (p # dk_reports h # rs) \<inter> set (dk_free h # fs) = {}" using d p by auto
  then have fr: "ring l (dk_free h) fs" using f ring_same_outside [OF l(3)] by blast
  have at: "report_at ?h q \<and> report_bytes ?h q = report_bytes h q" if "q \<in> set (rs @ fs)" for q
  proof -
    have "q \<noteq> p" using that p by auto
    then show ?thesis using all that by (auto simp: report_at_def report_bytes_def)
  qed
  have "queue_rep ?h (rs @ [p]) fs"
    using l(2) fr d p n at c by (auto simp: queue_rep_def report_at_def)
  moreover have "map (report_bytes ?h) (rs @ [p]) = map (report_bytes h) rs @ [queued_report h i data]"
    using at by (simp add: report_bytes_def queued_report_def min_def)
  ultimately show ?thesis by (intro exI [of _ ?h]) (simp add: same_handle_def)
qed

text \<open>
  The critical section of the callback: the report is queued, or it is dropped because 64 reports are waiting,
  or it is dropped for lack of memory, which is recorded.
\<close>

definition report_outcome ::
  "(darwin_handle \<Rightarrow> addr) \<Rightarrow> darwin_handle \<Rightarrow> 'w hs_state \<Rightarrow> uint8 list list \<Rightarrow> uint8 list \<Rightarrow> darwin_handle \<Rightarrow> 'w hs_state
     \<Rightarrow> uint8 list list \<Rightarrow> bool" where
  "report_outcome nalloc h s Q rep h' s' Q' \<longleftrightarrow>
     Q' = Q @ [rep] \<and> dk_thread_ret h' = dk_thread_ret h \<and> s' = s \<or>
     Q' = Q \<and> length Q = 64 \<and> h' = h \<and> s' = s \<or>
     Q' = Q \<and> nalloc h = NULL \<and> dk_thread_ret h' = err_val HS_ERROR_MEMORY \<and> s' = snd (fail_with HS_ERROR_MEMORY None s)"

lemma queue_rep_ends:
  assumes rep: "queue_rep h rs fs"
  shows "hs_list_is_empty (dk_lists h) (dk_reports h) = Some (map (report_bytes h) rs = [])"
    and "hs_list_get_first (dk_lists h) (dk_free h) = Some (case fs of [] \<Rightarrow> NULL | x # _ \<Rightarrow> x)"
    and "hs_list_get_first (dk_lists h) (dk_reports h) = Some (case rs of [] \<Rightarrow> NULL | x # _ \<Rightarrow> x)"
  using hs_list_is_empty_ring [OF queue_repD(1) [OF rep]] hs_list_get_first_ring [OF queue_repD(2) [OF rep]]
    hs_list_get_first_ring [OF queue_repD(1) [OF rep]] by simp_all

lemma report_locked_reused:
  assumes rep: "queue_rep h rs (p # fs)" and Q: "Q = map (report_bytes h) rs"
  shows "\<exists>h'. report_locked nalloc i data (h, s) = Some (Q = [], h', s) \<and> same_handle h h' \<and>
     queue_of h' (Q @ [queued_report h i data]) \<and> dk_thread_ret h' = dk_thread_ret h"
proof -
  note r = queue_repD(1) [OF rep] and f = queue_repD(2) [OF rep] and d = queue_repD(3) [OF rep]
    and at = queue_repD(4) [OF rep] and len = queue_repD(5) [OF rep] and al = queue_repD(6) [OF rep]
  have "ring (dk_lists h) (dk_free h) ([] @ p # fs)" using f by simp
  from hs_list_remove_ring [OF this] obtain l where l: "hs_list_remove (dk_lists h) p = Some l" "ring l (dk_free h) fs"
      "same_outside (dk_lists h) l (set (p # dk_free h # fs))" "list_allocated l = list_allocated (dk_lists h)"
    by auto
  have df: "distinct (dk_free h # p # fs)" and nz: "p \<noteq> NULL" using f by (simp_all add: ring_def)
  have "set (p # dk_free h # fs) \<inter> set (dk_reports h # rs) = {}" using d by auto
  then have r': "ring l (dk_reports h) rs" using r ring_same_outside [OF l(3)] by blast
  obtain rp where rp: "dk_mem h p = Some rp" "length (hr_data rp) = dk_size h + 1"
    using at [of p] by (auto simp: report_at_def)
  let ?h = "h\<lparr>dk_lists := l\<rparr>"
  have "\<exists>h'. store_report p i data ?h = Some h' \<and> queue_rep h' (rs @ [p]) fs \<and> same_handle ?h h' \<and>
      map (report_bytes h') (rs @ [p]) = map (report_bytes ?h) rs @ [queued_report ?h i data] \<and>
      dk_thread_ret h' = dk_thread_ret ?h"
  proof (rule store_report_run)
    show "list_allocated (dk_lists ?h) p" using ring_allocated [OF f, of p] l(4) by simp
    show "dk_allocated ?h = of_nat (Suc (length rs + length fs))" using al by simp
  qed (use r' l(2) d df at rp len in \<open>auto simp: report_at_upd\<close>)
  then obtain h' where h': "store_report p i data ?h = Some h'" "queue_rep h' (rs @ [p]) fs" "same_handle ?h h'"
      "map (report_bytes h') (rs @ [p]) = Q @ [queued_report h i data]" "dk_thread_ret h' = dk_thread_ret h"
    by (auto simp: Q queued_report_def report_at_upd)
  have "report_locked nalloc i data (h, s) = Some (Q = [], h', s)"
    using queue_rep_ends [OF rep] Q nz l(1) h'(1) by (simp add: report_locked_def)
  moreover have "same_handle h h'" using h'(3) by (simp add: same_handle_def)
  moreover have "queue_of h' (Q @ [queued_report h i data])" unfolding queue_of_def using h'(2) h'(4) [symmetric] by blast
  ultimately show ?thesis using h'(5) by blast
qed

lemma allocated_count:
  assumes "queue_rep h rs []"
  shows "dk_allocated h = 64 \<longleftrightarrow> length rs = 64"
proof -
  have "unat (dk_allocated h) = length rs"
    using queue_repD(5,6) [OF assms] by (simp add: unat_of_nat take_bit_nat_eq_self)
  moreover have "unat (64 :: uint32) = 64" by simp
  ultimately show ?thesis by (metis word_unat_eq_iff)
qed

lemma report_locked_new:
  assumes rep: "queue_rep h rs []" and Q: "Q = map (report_bytes h) rs" and lt: "length rs < 64"
    and new: "nalloc h \<noteq> NULL" and fresh: "l_next (dk_lists h) (nalloc h) = None"
  shows "\<exists>h'. report_locked nalloc i data (h, s) = Some (Q = [], h', s) \<and> same_handle h h' \<and>
     queue_of h' (Q @ [queued_report h i data]) \<and> dk_thread_ret h' = dk_thread_ret h"
proof -
  note r = queue_repD(1) [OF rep] and f = queue_repD(2) [OF rep] and d = queue_repD(3) [OF rep]
    and at = queue_repD(4) [OF rep] and al = queue_repD(6) [OF rep]
  let ?p = "nalloc h"
  let ?h = "(report_alloc ?p h)\<lparr>dk_allocated := dk_allocated h + 1\<rparr>"
  have out: "?p \<notin> set (dk_reports h # rs)" "?p \<notin> set (dk_free h # [])" using ring_fresh fresh r f by blast+
  have same: "same_outside (dk_lists h) (list_alloc (dk_lists h) ?p) {?p}"
    by (simp add: same_outside_def list_alloc_def)
  have "\<exists>h'. store_report ?p i data ?h = Some h' \<and> queue_rep h' (rs @ [?p]) [] \<and> same_handle ?h h' \<and>
      map (report_bytes h') (rs @ [?p]) = map (report_bytes ?h) rs @ [queued_report ?h i data] \<and>
      dk_thread_ret h' = dk_thread_ret ?h"
  proof (rule store_report_run)
    show "ring (dk_lists ?h) (dk_reports ?h) rs" "ring (dk_lists ?h) (dk_free ?h) []"
      using r f out ring_same_outside [OF same] by (simp_all add: report_alloc_def)
    show "list_allocated (dk_lists ?h) ?p" using new by (simp add: report_alloc_def list_alloc_def list_allocated_def)
    show "dk_mem ?h ?p = Some \<lparr>hr_size = 0, hr_data = replicate (dk_size h + 1) 0\<rparr>" by (simp add: report_alloc_def)
    show "\<forall>q \<in> set (rs @ []). report_at ?h q" using at out by (auto simp: report_at_def report_alloc_def)
  qed (use d out lt al in \<open>simp_all add: report_alloc_def\<close>)
  then obtain h' where h': "store_report ?p i data ?h = Some h'" "queue_rep h' (rs @ [?p]) []" "same_handle ?h h'"
      "map (report_bytes h') (rs @ [?p]) = map (report_bytes ?h) rs @ [queued_report ?h i data]"
      "dk_thread_ret h' = dk_thread_ret h"
    by (auto simp: report_alloc_def)
  have "map (report_bytes ?h) rs = Q" using out Q by (auto simp: report_bytes_def report_alloc_def)
  moreover have "queued_report ?h i data = queued_report h i data" by (simp add: queued_report_def report_alloc_def)
  ultimately have "map (report_bytes h') (rs @ [?p]) = Q @ [queued_report h i data]" using h'(4) by simp
  then have "queue_of h' (Q @ [queued_report h i data])" unfolding queue_of_def using h'(2) by metis
  moreover have "same_handle h h'" using h'(3) by (simp add: same_handle_def report_alloc_def)
  moreover have "report_locked nalloc i data (h, s) = Some (Q = [], h', s)"
    using queue_rep_ends [OF rep] Q lt allocated_count [OF rep] new h'(1) by (simp add: report_locked_def Let_def report_alloc_def)
  ultimately show ?thesis using h'(5) by blast
qed

lemma report_locked_run:
  assumes na: "report_allocates nalloc" and q: "queue_of h Q"
  shows "\<exists>h' s' Q'. report_locked nalloc i data (h, s) = Some (Q = [], h', s') \<and> same_handle h h' \<and> queue_of h' Q' \<and>
     report_outcome nalloc h s Q (queued_report h i data) h' s' Q'"
proof -
  obtain rs fs where rep: "queue_rep h rs fs" and Q: "Q = map (report_bytes h) rs" using q by (auto simp: queue_of_def)
  show ?thesis
  proof (cases fs)
    case (Cons p fs')
    with report_locked_reused [of h rs p fs' Q] rep Q show ?thesis unfolding report_outcome_def by blast
  next
    case Nil
    with rep have rep': "queue_rep h rs []" by simp
    consider "length rs = 64" | "length rs < 64" "nalloc h = NULL" | "length rs < 64" "nalloc h \<noteq> NULL"
      using queue_repD(5) [OF rep'] by fastforce
    then show ?thesis
    proof cases
      case 1
      then have "report_locked nalloc i data (h, s) = Some (Q = [], h, s)"
        using queue_rep_ends [OF rep'] Q allocated_count [OF rep'] by (simp add: report_locked_def)
      then show ?thesis using q 1 Q unfolding report_outcome_def by (intro exI [of _ h] exI [of _ s] exI [of _ Q]) simp
    next
      case 2
      let ?h = "h\<lparr>dk_thread_ret := err_val HS_ERROR_MEMORY\<rparr>"
      have "report_locked nalloc i data (h, s) = Some (Q = [], ?h, snd (fail_with HS_ERROR_MEMORY None s))"
        using queue_rep_ends [OF rep'] Q allocated_count [OF rep'] 2 by (simp add: report_locked_def fail_with_eq)
      then show ?thesis using q 2 unfolding report_outcome_def
        by (intro exI [of _ ?h] exI [of _ "snd (fail_with HS_ERROR_MEMORY None s)"] exI [of _ Q]) (simp add: same_handle_def)
    next
      case 3
      then have "l_next (dk_lists h) (nalloc h) = None" using spec [OF na [unfolded report_allocates_def], of h] by simp
      with report_locked_new [of h rs Q nalloc i data s, OF rep' Q 3] show ?thesis unfolding report_outcome_def by blast
    qed
  qed
qed


section \<open>Reading a report\<close>

text \<open>
  The critical section of the reader: an error that was recorded is handed over, or the first report is
  returned, as much of it as fits; the event is reset when no report is left. Without a report nothing
  happens.
\<close>

lemma reset_if_empty_run:
  assumes "queue_rep h rs fs"
  shows "reset_if_empty D (h, s) = Some (h, if rs = [] then reset_device_event D h s else s)"
  using queue_rep_ends(1) [OF assms] by (simp add: reset_if_empty_def)

lemma read_locked_empty:
  assumes q: "queue_of h []" and "\<not> dk_thread_ret h < 0"
  shows "read_locked D buf n (h, s) = Some (0, buf, h, s)"
proof -
  obtain fs where "queue_rep h [] fs" using q by (auto simp: queue_of_def)
  from queue_rep_ends(3) [OF this] assms(2) show ?thesis by (simp add: read_locked_def)
qed

lemma read_locked_error:
  assumes q: "queue_of h Q" and "dk_thread_ret h < 0"
  shows "read_locked D buf n (h, s) =
     Some (dk_thread_ret h, buf, h\<lparr>dk_thread_ret := 0\<rparr>, if Q = [] then reset_device_event D h s else s)"
proof -
  obtain rs fs where "queue_rep h rs fs" "Q = map (report_bytes h) rs" using q by (auto simp: queue_of_def)
  then have "queue_rep (h\<lparr>dk_thread_ret := 0\<rparr>) rs fs" "rs = [] \<longleftrightarrow> Q = []" by simp_all
  with reset_if_empty_run [OF this(1), of D s] assms(2) show ?thesis
    by (simp add: read_locked_def reset_device_event_def)
qed

lemma read_locked_report:
  assumes q: "queue_of h (rep # Q)" and ok: "\<not> dk_thread_ret h < 0" and n: "n \<le> length buf"
  shows "\<exists>h'. read_locked D buf n (h, s) =
       Some (int (min n (length rep)), take n rep @ drop (length (take n rep)) buf, h',
         if Q = [] then reset_device_event D h s else s) \<and>
     queue_of h' Q \<and> same_handle h h' \<and> dk_thread_ret h' = dk_thread_ret h"
proof -
  obtain p rs fs where rep: "queue_rep h (p # rs) fs" and Q: "rep = report_bytes h p" "Q = map (report_bytes h) rs"
    using q by (auto simp: queue_of_def)
  note r = queue_repD(1) [OF rep] and f = queue_repD(2) [OF rep] and d = queue_repD(3) [OF rep]
    and at = queue_repD(4) [OF rep] and len = queue_repD(5) [OF rep] and al = queue_repD(6) [OF rep]
  obtain rp where rp: "dk_mem h p = Some rp" "length (hr_data rp) = dk_size h + 1" "hr_size rp \<le> dk_size h + 1"
    using at [of p] by (auto simp: report_at_def)
  have bytes: "rep = take (hr_size rp) (hr_data rp)" "length rep = hr_size rp" using Q rp by (simp_all add: report_bytes_def)
  have "ring (dk_lists h) (dk_reports h) ([] @ p # rs)" using r by simp
  from hs_list_remove_ring [OF this] obtain l where l: "hs_list_remove (dk_lists h) p = Some l" "ring l (dk_reports h) rs"
      "same_outside (dk_lists h) l (set (p # dk_reports h # rs))" "list_allocated l = list_allocated (dk_lists h)"
    by auto
  have dr: "distinct (dk_reports h # p # rs)" and nz: "p \<noteq> NULL" using r by (simp_all add: ring_def)
  have "set (p # dk_reports h # rs) \<inter> set (dk_free h # fs) = {}" using d by auto
  then have f': "ring l (dk_free h) fs" using f ring_same_outside [OF l(3)] by blast
  have "list_allocated l p" using ring_allocated [OF r, of p] l(4) by simp
  moreover have pf: "p \<notin> set (dk_free h # fs)" using d by auto
  ultimately obtain l' where l': "hs_list_add l (dk_free h) p = Some l'" "ring l' (dk_free h) (p # fs)"
      "same_outside l l' (set (p # dk_free h # fs))"
    using hs_list_add_ring [OF f'] by blast
  have "set (p # dk_free h # fs) \<inter> set (dk_reports h # rs) = {}" using d dr by auto
  then have r': "ring l' (dk_reports h) rs" using l(2) ring_same_outside [OF l'(3)] by blast
  let ?h = "h\<lparr>dk_lists := l'\<rparr>" and ?n = "min n (length rep)"
  have rep': "queue_rep ?h rs (p # fs)"
    using r' l'(2) d dr at len al unfolding queue_rep_def by (auto simp: report_at_upd)
  have tk: "take ?n (hr_data rp) = take n rep" using bytes by (simp add: min_def)
  have "(if n > hr_size rp then hr_size rp else n) = ?n" "?n \<le> length (hr_data rp)" "?n \<le> length buf"
    using bytes rp n by (simp_all add: min_def)
  moreover have "buf_write 0 (take n rep) buf = Some (take n rep @ drop (length (take n rep)) buf)"
    using n by (simp add: buf_write_def)
  ultimately have "read_locked D buf n (h, s) = Some (int ?n, take n rep @ drop (length (take n rep)) buf, ?h,
      if Q = [] then reset_device_event D h s else s)"
    using ok queue_rep_ends(3) [OF rep] nz rp(1) l(1) l'(1) reset_if_empty_run [OF rep', of D s] Q(2) tk
    by (simp add: read_locked_def Let_def reset_device_event_def del: length_take)
  moreover have "queue_of ?h Q" using rep' Q(2) unfolding queue_of_def by (auto simp: report_at_upd)
  ultimately show ?thesis by (intro exI [of _ ?h]) (simp add: same_handle_def)
qed

end
