(* ===== verification/ReadersDarwin.thy ===== *)
theory ReadersDarwin
  imports QueueDarwin "HOL-Library.Sublist"
begin

text \<open>
  The two threads of a macOS HID handle. The background thread runs the callbacks one after the other, each
  in two steps: its critical section, and the byte it writes to the pipe. The reader takes its critical
  section at any time between them. \<open>darwin_course\<close> is any such interleaving; its invariant relates the reports
  that came in to those that were read, and the bytes in the pipe to what there is to read.
\<close>

section \<open>The pipe\<close>

text \<open>
  \<open>bytes\<close> is the number of bytes in the pipe of a handle, which holds at least two. Both ends are set not to
  block: a write to a full pipe and a read from an empty one do nothing. Releasing the device and signalling
  the thread do not touch it.
\<close>

definition pipe_works :: "'w darwin_os \<Rightarrow> int \<times> int \<Rightarrow> ('w \<Rightarrow> nat) \<Rightarrow> nat \<Rightarrow> bool" where
  "pipe_works D fds bytes cap \<longleftrightarrow> 2 \<le> cap \<and>
     (\<forall>b w. bytes (snd (dw_write D (snd fds) [b] w)) = (if bytes w < cap then bytes w + 1 else bytes w)) \<and>
     (\<forall>w. bytes (snd (dw_read D (fst fds) 1 w)) = bytes w - 1) \<and>
     (\<forall>x w. bytes (dw_release D x w) = bytes w) \<and> (\<forall>x w. bytes (dw_source_signal D x w) = bytes w)"

lemma fire_bytes:
  assumes "pipe_works D (dk_pipe h) bytes cap"
  shows "bytes (ext (fire_device_event D h s)) = (if bytes (ext s) < cap then bytes (ext s) + 1 else bytes (ext s))"
  using assms by (simp add: pipe_works_def fire_device_event_def sys_eq)

lemma reset_bytes:
  assumes "pipe_works D (dk_pipe h) bytes cap"
  shows "bytes (ext (reset_device_event D h s)) = bytes (ext s) - 1"
  using assms by (simp add: pipe_works_def reset_device_event_def sys_eq)

lemma removal_locked_run:
  assumes "pipe_works D (dk_pipe h) bytes cap"
  shows "\<exists>s'. removal_locked D (h, s) = (h\<lparr>dk_hid := 0, dk_loop := 0\<rparr>, s') \<and> bytes (ext s') = bytes (ext s)"
  using assms by (simp add: removal_locked_def pipe_works_def sys_do_def)

section \<open>Courses\<close>

text \<open>
  \<open>A\<close> are the reports that came in, in the form in which they are queued, \<open>R\<close> the results of the reads: the
  size asked for, the value returned and the buffer. The flag says that a callback has left its critical
  section and has still to write to the pipe.
\<close>

inductive darwin_course ::
  "'w darwin_os \<Rightarrow> (darwin_handle \<Rightarrow> addr) \<Rightarrow> ('w \<Rightarrow> nat) \<Rightarrow> 'w darwin_state
     \<Rightarrow> uint8 list list \<Rightarrow> (nat \<times> int \<times> uint8 list) list \<Rightarrow> bool \<Rightarrow> darwin_handle \<Rightarrow> 'w hs_state \<Rightarrow> bool"
  for D nalloc bytes hs0 where
  dc_start: "darwin_course D nalloc bytes hs0 [] [] False (fst hs0) (snd hs0)"
| dc_report: "darwin_course D nalloc bytes hs0 A R False h s \<Longrightarrow>
     report_locked nalloc i data (h, s) = Some (fire, h', s') \<Longrightarrow>
     darwin_course D nalloc bytes hs0 (A @ [queued_report h i data]) R fire h' s'"
| dc_removal: "darwin_course D nalloc bytes hs0 A R False h s \<Longrightarrow> dk_hid h \<noteq> 0 \<Longrightarrow>
     removal_locked D (h, s) = (h', s') \<Longrightarrow> darwin_course D nalloc bytes hs0 A R True h' s'"
| dc_fire: "darwin_course D nalloc bytes hs0 A R True h s \<Longrightarrow>
     darwin_course D nalloc bytes hs0 A R False h (fire_device_event D h s)"
| dc_read: "darwin_course D nalloc bytes hs0 A R p h s \<Longrightarrow> 0 < n \<Longrightarrow> n \<le> length buf \<Longrightarrow>
     read_locked D buf n (h, s) = Some (r, buf', h', s') \<Longrightarrow>
     darwin_course D nalloc bytes hs0 A (R @ [(n, r, buf')]) p h' s'"
| dc_other: "darwin_course D nalloc bytes hs0 A R p h s \<Longrightarrow> bytes w = bytes (ext s) \<Longrightarrow>
     darwin_course D nalloc bytes hs0 A R p h (s\<lparr>ext := w\<rparr>)"

text \<open>The reads that returned a report got the reports \<open>T\<close>, each cut to the size asked for.\<close>

definition got_reports :: "(nat \<times> int \<times> uint8 list) list \<Rightarrow> uint8 list list \<Rightarrow> bool" where
  "got_reports R T \<longleftrightarrow>
     list_all2 (\<lambda>(n, r, buf) rep. r = int (min n (length rep)) \<and> take (nat r) buf = take n rep) (filter (\<lambda>(n, r, buf). 0 < r) R) T"

text \<open>How many bytes there have to be in the pipe, or still to come.\<close>

definition wakeups :: "darwin_handle \<Rightarrow> uint8 list list \<Rightarrow> nat" where
  "wakeups h Q = of_bool (Q \<noteq> [] \<or> dk_thread_ret h < 0) + of_bool (dk_hid h = 0)"

definition course_inv ::
  "('w \<Rightarrow> nat) \<Rightarrow> darwin_handle \<Rightarrow> uint8 list list \<Rightarrow> (nat \<times> int \<times> uint8 list) list \<Rightarrow> bool \<Rightarrow> darwin_handle \<Rightarrow> 'w hs_state \<Rightarrow> bool"
where
  "course_inv bytes h0 A R p h s \<longleftrightarrow>
     (\<exists>T Q. queue_of h Q \<and> subseq (T @ Q) A \<and> got_reports R T \<and> dk_pipe h = dk_pipe h0 \<and>
        wakeups h Q \<le> bytes (ext s) + of_bool p)"

lemma wakeups_le: "wakeups h Q \<le> 2"
  by (simp add: wakeups_def)

lemma queue_of_nonempty:
  assumes "queue_of h Q"
  shows "\<forall>rep \<in> set Q. rep \<noteq> []"
proof -
  obtain rs fs where rep: "queue_rep h rs fs" "Q = map (report_bytes h) rs" using assms by (auto simp: queue_of_def)
  have "report_bytes h p \<noteq> []" if "p \<in> set rs" for p
  proof -
    have "report_at h p" using queue_repD(4) [OF rep(1), of p] that by simp
    then show ?thesis by (auto simp: report_at_def report_bytes_def)
  qed
  with rep(2) show ?thesis by simp
qed

lemma got_reports_skip: "\<not> 0 < r \<Longrightarrow> got_reports R T \<Longrightarrow> got_reports (R @ [(n, r, buf)]) T"
  by (simp add: got_reports_def)

lemma got_reports_snoc:
  assumes "got_reports R T" and "0 < n" and "rep \<noteq> []" and "take (min n (length rep)) buf = take n rep"
  shows "got_reports (R @ [(n, int (min n (length rep)), buf)]) (T @ [rep])"
proof -
  have "0 < min n (length rep)" using assms(2,3) by simp
  then show ?thesis using assms(1,4) by (simp add: got_reports_def list_all2_appendI)
qed

section \<open>Every step keeps the invariant\<close>

lemma course_invE:
  assumes "course_inv bytes h0 A R p h s"
  obtains T Q where "queue_of h Q" "subseq (T @ Q) A" "got_reports R T" "dk_pipe h = dk_pipe h0"
    "wakeups h Q \<le> bytes (ext s) + of_bool p"
  using assms unfolding course_inv_def by blast

lemma course_invI:
  assumes "queue_of h Q" "subseq (T @ Q) A" "got_reports R T" "dk_pipe h = dk_pipe h0"
    "wakeups h Q \<le> bytes (ext s) + of_bool p"
  shows "course_inv bytes h0 A R p h s"
  using assms unfolding course_inv_def by blast

lemma report_wakeups:
  assumes o: "report_outcome nalloc h s Q rep h' s' Q'" and sh: "same_handle h h'"
    and w: "wakeups h Q \<le> b"
  shows "wakeups h' Q' \<le> b + of_bool (Q = [])"
proof (cases "Q = []")
  case True
  have "wakeups h' Q' \<le> wakeups h Q + 1" using sh by (simp add: wakeups_def same_handle_def)
  with w True show ?thesis by simp
next
  case False
  then have "wakeups h' Q' = wakeups h Q"
    using o sh by (auto simp: wakeups_def report_outcome_def same_handle_def)
  with w show ?thesis by simp
qed

lemma course_report:
  assumes na: "report_allocates nalloc" and inv: "course_inv bytes h0 A R False h s"
    and run: "report_locked nalloc i data (h, s) = Some (fire, h', s')"
  shows "course_inv bytes h0 (A @ [queued_report h i data]) R fire h' s'"
proof -
  obtain T Q where c: "queue_of h Q" "subseq (T @ Q) A" "got_reports R T" "dk_pipe h = dk_pipe h0"
      "wakeups h Q \<le> bytes (ext s) + of_bool False"
    using inv by (rule course_invE)
  obtain Q' where q: "fire = (Q = [])" "same_handle h h'" "queue_of h' Q'"
      "report_outcome nalloc h s Q (queued_report h i data) h' s' Q'"
    using report_locked_run [OF na c(1), of i data s] run by auto
  have "ext s' = ext s" using q(4) by (auto simp: report_outcome_def fail_with_eq)
  then have "wakeups h' Q' \<le> bytes (ext s') + of_bool fire" using report_wakeups [OF q(4,2) c(5)] q(1) by simp
  moreover have "subseq (T @ Q') (A @ [queued_report h i data])"
  proof -
    have "Q' = Q @ [queued_report h i data] \<or> Q' = Q" using q(4) by (auto simp: report_outcome_def)
    then show ?thesis using c(2) list_emb_append_mono [OF c(2) subseq_order.order_refl, of "[queued_report h i data]"]
      by (auto intro: subseq_order.order_trans)
  qed
  moreover have "dk_pipe h' = dk_pipe h0" using q(2) c(4) by (simp add: same_handle_def)
  ultimately show ?thesis using course_invI q(3) c(3) by blast
qed

lemma course_removal:
  assumes pw: "pipe_works D (dk_pipe h0) bytes cap" and inv: "course_inv bytes h0 A R False h s"
    and hid: "dk_hid h \<noteq> 0" and run: "removal_locked D (h, s) = (h', s')"
  shows "course_inv bytes h0 A R True h' s'"
proof -
  obtain T Q where c: "queue_of h Q" "subseq (T @ Q) A" "got_reports R T" "dk_pipe h = dk_pipe h0"
      "wakeups h Q \<le> bytes (ext s) + of_bool False"
    using inv by (rule course_invE)
  have pw': "pipe_works D (dk_pipe h) bytes cap" using pw c(4) by simp
  have h': "h' = h\<lparr>dk_hid := 0, dk_loop := 0\<rparr>" "bytes (ext s') = bytes (ext s)"
    using removal_locked_run [OF pw', of s] run by auto
  have "wakeups h' Q \<le> wakeups h Q + 1" using hid by (simp add: h'(1) wakeups_def)
  then have "wakeups h' Q \<le> bytes (ext s') + of_bool True" using c(5) h'(2) by simp
  then show ?thesis using c h'(1) by (intro course_invI [of h' Q T]) simp_all
qed

lemma course_fire:
  assumes pw: "pipe_works D (dk_pipe h0) bytes cap" and inv: "course_inv bytes h0 A R True h s"
  shows "course_inv bytes h0 A R False h (fire_device_event D h s)"
proof -
  obtain T Q where c: "queue_of h Q" "subseq (T @ Q) A" "got_reports R T" "dk_pipe h = dk_pipe h0"
      "wakeups h Q \<le> bytes (ext s) + of_bool True"
    using inv by (rule course_invE)
  have pw': "pipe_works D (dk_pipe h) bytes cap" using pw c(4) by simp
  have "2 \<le> cap" using pw by (simp add: pipe_works_def)
  then have "wakeups h Q \<le> bytes (ext (fire_device_event D h s)) + of_bool False"
    using c(5) wakeups_le [of h Q] by (simp add: fire_bytes [OF pw'])
  then show ?thesis using course_invI c(1-4) by blast
qed

lemma course_read:
  assumes pw: "pipe_works D (dk_pipe h0) bytes cap" and inv: "course_inv bytes h0 A R p h s"
    and n: "0 < n" "n \<le> length buf" and run: "read_locked D buf n (h, s) = Some (r, buf', h', s')"
  shows "course_inv bytes h0 A (R @ [(n, r, buf')]) p h' s'"
proof -
  obtain T Q where c: "queue_of h Q" "subseq (T @ Q) A" "got_reports R T" "dk_pipe h = dk_pipe h0"
      "wakeups h Q \<le> bytes (ext s) + of_bool p"
    using inv by (rule course_invE)
  have pw': "pipe_works D (dk_pipe h) bytes cap" using pw c(4) by simp
  show ?thesis
  proof (cases "dk_thread_ret h < 0")
    case True
    from read_locked_error [OF c(1) this, of D buf n s] run
    have x: "r = dk_thread_ret h" "h' = h\<lparr>dk_thread_ret := 0\<rparr>" "s' = (if Q = [] then reset_device_event D h s else s)"
      by auto
    have "wakeups h' Q \<le> bytes (ext s') + of_bool p"
      using c(5) True by (auto simp: x(2,3) wakeups_def reset_bytes [OF pw'])
    then show ?thesis using c x True by (intro course_invI [of h' Q T]) (simp_all add: got_reports_skip)
  next
    case ok: False
    show ?thesis
    proof (cases Q)
      case Nil
      then have "r = 0" "h' = h" "s' = s" using read_locked_empty [of h D buf n s] c(1) ok run by auto
      then show ?thesis using c by (intro course_invI [of h' Q T]) (simp_all add: got_reports_skip)
    next
      case (Cons rep Q')
      with c(1) have q: "queue_of h (rep # Q')" by simp
      from read_locked_report [OF q ok n(2), of D s] run
      have x: "r = int (min n (length rep))" "buf' = take n rep @ drop (length (take n rep)) buf" "queue_of h' Q'"
          "same_handle h h'" "dk_thread_ret h' = dk_thread_ret h" "s' = (if Q' = [] then reset_device_event D h s else s)"
        by auto
      have "wakeups h' Q' \<le> bytes (ext s') + of_bool p"
        using c(5) x(4,5) ok Cons by (auto simp: x(6) wakeups_def same_handle_def reset_bytes [OF pw'])
      moreover have "take (min n (length rep)) buf' = take n rep" by (simp add: x(2) min_def)
      then have "got_reports (R @ [(n, r, buf')]) (T @ [rep])"
        using got_reports_snoc [OF c(3) n(1), of rep buf'] queue_of_nonempty [OF q] x(1) by simp
      ultimately show ?thesis using c x Cons
        by (intro course_invI [of h' Q' "T @ [rep]"]) (simp_all add: same_handle_def)
    qed
  qed
qed

lemma course_invariant:
  assumes na: "report_allocates nalloc" and pw: "pipe_works D (dk_pipe h0) bytes cap"
    and start: "queue_of h0 []" "\<not> dk_thread_ret h0 < 0" "dk_hid h0 \<noteq> 0"
    and run: "darwin_course D nalloc bytes (h0, s0) A R p h s"
  shows "course_inv bytes h0 A R p h s"
  using run
proof (induction rule: darwin_course.induct)
  case dc_start
  show ?case using start by (intro course_invI [of _ "[]" "[]"]) (simp_all add: got_reports_def wakeups_def)
next
  case (dc_other A R p h s w)
  from dc_other.IH show ?case by (rule course_invE) (rule course_invI, use dc_other.hyps(2) in simp_all)
next
  case dc_report
  show ?case by (rule course_report [OF na dc_report.IH dc_report.hyps(2)])
next
  case dc_removal
  show ?case by (rule course_removal [OF pw dc_removal.IH dc_removal.hyps(2,3)])
next
  case dc_fire
  show ?case by (rule course_fire [OF pw dc_fire.IH])
next
  case dc_read
  show ?case by (rule course_read [OF pw dc_read.IH dc_read.hyps(2-4)])
qed

end
