(* ===== verification/DriverDarwin.thy ===== *)
theory DriverDarwin
  imports ReadersDarwin
begin

text \<open>
  Opening and closing HID devices of macOS: the driver is an interpretation of the device contract, and it
  gives back every object of the system it has taken. The objects are counted: \<open>live\<close> is how many of them
  there are in the world, \<open>holds\<close> how many of them a handle refers to.
\<close>

section \<open>Counting objects\<close>

text \<open>
  The calls that create and release objects: registry entries, devices, run loop sources, pipe ends and
  threads. All others leave the number of objects alone.
\<close>

definition counted_creation :: "'w darwin_os \<Rightarrow> ('w \<Rightarrow> int) \<Rightarrow> bool" where
  "counted_creation D live \<longleftrightarrow>
     (\<forall>p w. live (snd (dw_entry_from_path D p w)) = live w + of_bool (fst (dw_entry_from_path D p w) \<noteq> 0)) \<and>
     (\<forall>x w. live (snd (dw_hid_create D x w)) = live w + of_bool (fst (dw_hid_create D x w) \<noteq> 0)) \<and>
     (\<forall>x w. live (snd (dw_source_create D x w)) = live w + of_bool (fst (dw_source_create D x w) \<noteq> 0)) \<and>
     (\<forall>w. live (snd (dw_thread_create D w)) = live w + of_bool (fst (dw_thread_create D w) = 0)) \<and>
     (\<forall>w e. fst (dw_pipe D w) = Inl e \<longrightarrow> live (snd (dw_pipe D w)) = live w) \<and>
     (\<forall>w a b. fst (dw_pipe D w) = Inr (a, b) \<longrightarrow> 0 \<le> a \<and> 0 \<le> b \<and> live (snd (dw_pipe D w)) = live w + 2) \<and>
     (\<forall>x w. x \<noteq> 0 \<longrightarrow> live (dw_release D x w) = live w - 1) \<and>
     (\<forall>x w. x \<noteq> 0 \<longrightarrow> live (dw_object_release D x w) = live w - 1) \<and>
     (\<forall>fd w. live (os_close (dw_posix D) fd w) = live w - of_bool (0 \<le> fd)) \<and>
     (\<forall>w. live (dw_thread_join D w) = live w - 1)"

definition counted_use :: "'w darwin_os \<Rightarrow> ('w \<Rightarrow> int) \<Rightarrow> bool" where
  "counted_use D live \<longleftrightarrow>
     (\<forall>x w. live (snd (dw_hid_open D x w)) = live w) \<and> (\<forall>x p w. live (snd (dw_property D x p w)) = live w) \<and>
     (\<forall>n w. live (snd (dw_malloc D n w)) = live w) \<and> (\<forall>x w. live (dw_hid_register D x w) = live w) \<and>
     (\<forall>x w. live (dw_set_nonblock D x w) = live w) \<and> (\<forall>w. live (snd (dw_mutex_init D w)) = live w) \<and>
     (\<forall>w. live (dw_mutex_destroy D w) = live w) \<and> (\<forall>w. live (snd (dw_cond_init D w)) = live w) \<and>
     (\<forall>w. live (dw_cond_destroy D w) = live w) \<and> (\<forall>w. live (snd (dw_current_loop D w)) = live w) \<and>
     (\<forall>x l w. live (dw_schedule D x l w) = live w) \<and> (\<forall>x l w. live (dw_unschedule D x l w) = live w) \<and>
     (\<forall>x w. live (dw_source_signal D x w) = live w) \<and> (\<forall>x w. live (dw_loop_wake_up D x w) = live w) \<and>
     (\<forall>x w. live (dw_hid_close D x w) = live w) \<and> (\<forall>fd n w. live (snd (dw_read D fd n w)) = live w) \<and>
     (\<forall>fd b w. live (snd (dw_write D fd b w)) = live w)"

definition counted :: "'w darwin_os \<Rightarrow> ('w \<Rightarrow> int) \<Rightarrow> bool" where
  "counted D live \<longleftrightarrow> counted_creation D live \<and> counted_use D live"

definition holds :: "darwin_handle \<Rightarrow> int" where
  "holds h = of_bool (dk_service h \<noteq> 0) + of_bool (dk_hid h \<noteq> 0) + of_bool (0 \<le> fst (dk_pipe h)) +
     of_bool (0 \<le> snd (dk_pipe h)) + 2 * of_bool (dk_shutdown h \<noteq> 0)"

text \<open>Steps that leave the library alone and change the number of objects only as the handle says.\<close>

definition steady :: "('w \<Rightarrow> int) \<Rightarrow> 'w darwin_state \<Rightarrow> 'w darwin_state \<Rightarrow> bool" where
  "steady live hs hs' \<longleftrightarrow>
     io_frame (snd hs) (snd hs') \<and> live (ext (snd hs')) - holds (fst hs') = live (ext (snd hs)) - holds (fst hs)"

lemma steady_refl [simp]: "steady live hs hs"
  by (simp add: steady_def)

lemma steady_trans: "steady live a b \<Longrightarrow> steady live b c \<Longrightarrow> steady live a c"
  by (auto simp: steady_def intro: io_frame_trans)

lemma counted_releases:
  assumes "counted D live"
  shows "x \<noteq> 0 \<Longrightarrow> live (dw_release D x w) = live w - 1"
    and "x \<noteq> 0 \<Longrightarrow> live (dw_object_release D x w) = live w - 1"
    and "live (os_close (dw_posix D) fd w) = live w - of_bool (0 \<le> fd)"
    and "live (dw_thread_join D w) = live w - 1"
  using assms by (simp_all add: counted_def counted_creation_def)

lemma counted_keeps:
  assumes "counted D live"
  shows "live (snd (dw_hid_open D x w)) = live w" "live (snd (dw_property D x p w)) = live w"
    "live (snd (dw_malloc D n w)) = live w" "live (dw_hid_register D x w) = live w"
    "live (dw_set_nonblock D fd w) = live w" "live (snd (dw_mutex_init D w)) = live w"
    "live (dw_mutex_destroy D w) = live w" "live (snd (dw_cond_init D w)) = live w"
    "live (dw_cond_destroy D w) = live w" "live (snd (dw_current_loop D w)) = live w"
    "live (dw_schedule D x l w) = live w" "live (dw_unschedule D x l w) = live w"
    "live (dw_source_signal D x w) = live w" "live (dw_loop_wake_up D x w) = live w"
    "live (dw_hid_close D x w) = live w" "live (snd (dw_read D fd n w)) = live w"
    "live (snd (dw_write D fd b w)) = live w"
  using assms by (simp_all add: counted_def counted_use_def)

lemmas counted_simps = counted_releases counted_keeps

section \<open>The callbacks\<close>

text \<open>What callbacks and reads never change in a handle.\<close>

definition kept :: "darwin_handle \<Rightarrow> darwin_handle \<Rightarrow> bool" where
  "kept h h' \<longleftrightarrow> dk_dev h' = dk_dev h \<and> dk_service h' = dk_service h \<and> dk_size h' = dk_size h \<and>
     dk_mutex_init h' = dk_mutex_init h \<and> dk_locked h' = dk_locked h \<and> dk_pipe h' = dk_pipe h \<and>
     dk_reports h' = dk_reports h \<and> dk_free h' = dk_free h \<and> dk_cond_init h' = dk_cond_init h \<and> dk_shutdown h' = dk_shutdown h"

lemma kept_refl [simp]: "kept h h"
  by (simp add: kept_def)

lemma kept_trans: "kept h h' \<Longrightarrow> kept h' h'' \<Longrightarrow> kept h h''"
  by (simp add: kept_def)

lemma same_handle_kept: "same_handle h h' \<Longrightarrow> kept h h' \<and> holds h' = holds h"
  by (simp add: same_handle_def kept_def holds_def)

lemma fire_steady: "counted D live \<Longrightarrow> steady live (h, s) (h, fire_device_event D h s)"
  by (simp add: steady_def fire_device_event_def sys_eq counted_simps)

lemma reset_steady: "counted D live \<Longrightarrow> steady live (h, s) (h, reset_device_event D h s)"
  by (simp add: steady_def reset_device_event_def sys_eq counted_simps)

lemma removal_callback_run:
  assumes q: "queue_of h Q" and hid: "dk_hid h \<noteq> 0"
  shows "\<exists>h' s'. hid_removal_callback D (h, s) = (h', s') \<and> kept h h' \<and> queue_of h' Q \<and> io_frame s s' \<and>
     (counted D live \<longrightarrow> steady live (h, s) (h', s'))"
proof -
  let ?h = "h\<lparr>dk_hid := 0, dk_loop := 0\<rparr>"
  let ?s = "sys_do (dw_source_signal D (dk_shutdown h)) (sys_do (dw_release D (dk_hid h)) s)"
  have run: "hid_removal_callback D (h, s) = (?h, fire_device_event D ?h ?s)"
    by (simp add: hid_removal_callback_def removal_locked_def Let_def)
  have fr: "io_frame s (fire_device_event D ?h ?s)"
    by (simp add: fire_device_event_def sys_eq sys_do_eq)
  have "steady live (h, s) (?h, fire_device_event D ?h ?s)" if "counted D live"
    using fr hid that by (simp add: steady_def fire_device_event_def sys_eq sys_do_eq holds_def counted_simps)
  with run fr q show ?thesis by (auto simp: kept_def)
qed

lemma report_callback_run:
  assumes na: "report_allocates nalloc" and q: "queue_of h Q"
  shows "\<exists>h' s' Q'. hid_report_callback D nalloc t i data (h, s) = Some (h', s') \<and> kept h h' \<and> queue_of h' Q' \<and> prefix Q Q' \<and>
     io_frame s s' \<and> (counted D live \<longrightarrow> steady live (h, s) (h', s'))"
proof (cases "t = kIOHIDReportTypeInput")
  case True
  obtain h' s1 Q' where r: "report_locked nalloc i data (h, s) = Some (Q = [], h', s1)" "same_handle h h'" "queue_of h' Q'"
      "report_outcome nalloc h s Q (queued_report h i data) h' s1 Q'"
    using report_locked_run [OF na q, of i data s] by blast
  let ?s' = "if Q = [] then fire_device_event D h' s1 else s1"
  have s1: "io_frame s s1" "ext s1 = ext s" "prefix Q Q'" using r(4) by (auto simp: report_outcome_def fail_with_eq)
  have "io_frame s ?s'" using s1(1) by (simp add: fire_device_event_def sys_eq)
  moreover have "steady live (h, s) (h', ?s')" if c: "counted D live"
  proof -
    have "steady live (h, s) (h', s1)" using s1(1,2) same_handle_kept [OF r(2)] by (simp add: steady_def)
    moreover have "steady live (h', s1) (h', ?s')" using fire_steady [OF c, of h' s1] by simp
    ultimately show ?thesis by (rule steady_trans)
  qed
  ultimately show ?thesis using True r(1,3) s1(3) same_handle_kept [OF r(2)] by (auto simp: hid_report_callback_def)
next
  case False
  with q show ?thesis by (auto simp: hid_report_callback_def)
qed

lemma hid_dispatch_run:
  assumes na: "report_allocates nalloc"
  shows "queue_of h Q \<Longrightarrow> \<exists>h' s' Q'. hid_dispatch D nalloc es (h, s) = Some (h', s') \<and> kept h h' \<and> queue_of h' Q' \<and>
     prefix Q Q' \<and> io_frame s s' \<and> (counted D live \<longrightarrow> steady live (h, s) (h', s'))"
proof (induction es arbitrary: h s Q)
  case Nil
  then show ?case by auto
next
  case (Cons e es)
  have "\<exists>h1 s1 Q1. hid_dispatch D nalloc (e # es) (h, s) = hid_dispatch D nalloc es (h1, s1) \<and> kept h h1 \<and> queue_of h1 Q1 \<and>
      prefix Q Q1 \<and> io_frame s s1 \<and> (counted D live \<longrightarrow> steady live (h, s) (h1, s1))"
  proof (cases e)
    case Hid_removed
    show ?thesis
    proof (cases "dk_hid h = 0")
      case True
      with Hid_removed Cons.prems show ?thesis by (intro exI [of _ h] exI [of _ s] exI [of _ Q]) simp
    next
      case False
      with Hid_removed removal_callback_run [OF Cons.prems False, of D s live] show ?thesis by fastforce
    qed
  next
    case (Hid_report t i data)
    with report_callback_run [OF na Cons.prems, of D t i data s live] show ?thesis by fastforce
  qed
  then obtain h1 s1 Q1 where c1: "hid_dispatch D nalloc (e # es) (h, s) = hid_dispatch D nalloc es (h1, s1)" "kept h h1"
      "queue_of h1 Q1" "io_frame s s1" "counted D live \<longrightarrow> steady live (h, s) (h1, s1)" "prefix Q Q1" by blast
  from Cons.IH [OF c1(3), of s1] obtain h2 s2 Q2 where c2: "hid_dispatch D nalloc es (h1, s1) = Some (h2, s2)" "kept h1 h2"
      "queue_of h2 Q2" "io_frame s1 s2" "counted D live \<longrightarrow> steady live (h1, s1) (h2, s2)" "prefix Q1 Q2" by blast
  have "kept h h2" by (rule kept_trans [OF c1(2) c2(2)])
  moreover have "io_frame s s2" by (rule io_frame_trans [OF c1(4) c2(4)])
  moreover have "counted D live \<longrightarrow> steady live (h, s) (h2, s2)" using c1(5) c2(5) steady_trans by blast
  ultimately show ?case using c1(1) c2(1,3) prefix_order.order_trans [OF c1(6) c2(6)] by auto
qed

section \<open>Closing\<close>

text \<open>All reports of a list are freed.\<close>

lemma foreach_free_reports:
  assumes r: "ring (dk_lists h) a fs" and m: "\<forall>p \<in> set fs. dk_mem h p \<noteq> None"
  shows "\<exists>h'. hs_list_foreach dk_lists free_report_body a h = Some (Continue, h') \<and> same_handle h h' \<and>
     (\<forall>p \<in> set fs. dk_mem h' p = None)"
proof -
  let ?I = "\<lambda>rest u. chain (l_next (dk_lists u)) rest a \<and> distinct (a # rest) \<and> set rest \<subseteq> set fs \<and> same_handle h u \<and>
      (\<forall>p \<in> set rest. dk_mem u p \<noteq> None) \<and> (\<forall>p \<in> set fs - set rest. dk_mem u p = None)"
  have step: "\<exists>u'. free_report_body x u = Some (Continue, u') \<and> ?I rest u'" if "?I (x # rest) u" for x rest u
  proof -
    have "dk_mem u x \<noteq> None" using that by simp
    then obtain rp where rp: "dk_mem u x = Some rp" by auto
    have "chain (l_next (dk_lists (report_free x u))) rest a = chain (l_next (dk_lists u)) rest a"
      by (rule chain_cong) (use that in \<open>auto simp: report_free_def list_free_def\<close>)
    with that rp show ?thesis
      by (auto simp: free_report_body_def seg_simps) (auto simp: report_free_def list_free_def same_handle_def)
  qed
  have r0: "ring (dk_lists h) a ([] @ fs)" using r by simp
  moreover have "distinct (a # fs)" using r by (simp add: ring_def)
  ultimately have start: "?I fs h" using ring_chain [OF r0] m by simp
  have "hs_list_foreach dk_lists free_report_body a h = map_option snd (flow_fold free_report_body a fs h)"
  proof (rule hs_list_foreach_fold [where I = ?I])
    show "?I rest u'" if "?I (x # rest) u" "free_report_body x u = Some (Continue, u')" for x rest u u'
      using step [OF that(1)] that(2) by simp
  qed (use start r0 in simp_all)
  moreover obtain h' where "flow_fold free_report_body a fs h = Some (a, Continue, h')" "?I [] h'"
    using flow_fold_Continue [where I = ?I and body = free_report_body and h = a, OF step start] by blast
  ultimately show ?thesis by auto
qed

lemma free_all_reports:
  assumes q: "queue_of h Q"
  shows "\<exists>l h'. hs_list_splice (dk_lists h) (dk_free h) (dk_reports h) = Some l \<and>
     hs_list_foreach dk_lists free_report_body (dk_free h) (h\<lparr>dk_lists := l\<rparr>) = Some (Continue, h') \<and> same_handle h h'"
proof -
  obtain rs fs where rep: "queue_rep h rs fs" using q by (auto simp: queue_of_def)
  have "set (dk_free h # fs) \<inter> set (dk_reports h # rs) = {}" using queue_repD(3) [OF rep] by auto
  then obtain l where l: "hs_list_splice (dk_lists h) (dk_free h) (dk_reports h) = Some l" "ring l (dk_free h) (rs @ fs)"
    using hs_list_splice_ring [OF queue_repD(2,1) [OF rep]] by blast
  have "\<forall>p \<in> set (rs @ fs). dk_mem (h\<lparr>dk_lists := l\<rparr>) p \<noteq> None" using queue_repD(4) [OF rep] by (auto simp: report_at_def)
  with foreach_free_reports [of "h\<lparr>dk_lists := l\<rparr>" "dk_free h" "rs @ fs"] l(2)
  obtain h' where "hs_list_foreach dk_lists free_report_body (dk_free h) (h\<lparr>dk_lists := l\<rparr>) = Some (Continue, h')"
      "same_handle (h\<lparr>dk_lists := l\<rparr>) h'" by auto
  moreover from this(2) have "same_handle h h'" by (simp add: same_handle_def)
  ultimately show ?thesis using l(1) by blast
qed

text \<open>Waiting for the thread, after which its source and the thread itself are released.\<close>

lemma stop_thread_run:
  assumes na: "report_allocates nalloc" and q: "queue_of h Q" and sh: "dk_shutdown h \<noteq> 0"
  shows "\<exists>h' s' Q'. stop_device_thread D nalloc es (h, s) = Some (h', s') \<and> kept h h' \<and> queue_of h' Q' \<and> io_frame s s' \<and>
     (counted D live \<longrightarrow> live (ext s') - holds h' = live (ext s) - holds h - 2)"
proof -
  let ?s = "if dk_loop h \<noteq> 0 then sys_do (dw_loop_wake_up D (dk_loop h)) (sys_do (dw_source_signal D (dk_shutdown h)) s) else s"
  have s0: "io_frame s ?s" by (simp add: sys_do_eq)
  obtain h1 s1 Q1 where d: "hid_dispatch D nalloc es (h, ?s) = Some (h1, s1)" "kept h h1" "queue_of h1 Q1" "io_frame ?s s1"
      "counted D live \<longrightarrow> steady live (h, ?s) (h1, s1)"
    using hid_dispatch_run [OF na q, of D es ?s live] by blast
  let ?s1 = "if dk_hid h1 \<noteq> 0 then sys_do (dw_unschedule D (dk_hid h1) (dk_loop h1)) s1 else s1"
  let ?h' = "h1\<lparr>dk_loop := 0\<rparr>" and ?s' = "sys_do (dw_release D (dk_shutdown h1)) (sys_do (dw_thread_join D) ?s1)"
  have sh1: "dk_shutdown h1 \<noteq> 0" using d(2) sh by (simp add: kept_def)
  have fr: "io_frame s ?s'" using io_frame_trans [OF s0 d(4)] by (simp add: sys_do_eq)
  have "live (ext ?s') - holds ?h' = live (ext s) - holds h - 2" if c: "counted D live"
  proof -
    have "live (ext ?s) = live (ext s)" by (simp add: sys_do_eq counted_simps [OF c])
    moreover have "live (ext ?s') = live (ext s1) - 2" using sh1 by (simp add: sys_do_eq counted_simps [OF c])
    moreover have "holds ?h' = holds h1" by (simp add: holds_def)
    ultimately show ?thesis using d(5) c by (simp add: steady_def)
  qed
  moreover have "stop_device_thread D nalloc es (h, s) = Some (?h', ?s')"
    using d(1) by (simp add: stop_device_thread_def device_thread_stop_def Let_def)
  moreover have "queue_of ?h' Q1" using d(3) by simp
  ultimately show ?thesis using d(2) fr by (auto simp: kept_def)
qed

text \<open>
  A handle that can be closed. The reference on the device is dropped last; before that every object of the
  handle has been released.
\<close>

definition closable :: "darwin_handle \<Rightarrow> bool" where
  "closable h \<longleftrightarrow> (\<exists>Q. queue_of h Q) \<and> \<not> dk_locked h"

lemma close_hid_device_run:
  assumes na: "report_allocates nalloc" and h: "closable h"
  shows "\<exists>s1. close_hid_device D nalloc es h s = hs_device_unref (dk_dev h) s1 \<and> io_frame s s1 \<and>
     (counted D live \<longrightarrow> live (ext s1) = live (ext s) - holds h)"
proof -
  obtain Q where q: "queue_of h Q" using h by (auto simp: closable_def)
  let ?stop = "if dk_shutdown h \<noteq> 0 then stop_device_thread D nalloc es (h, s) else Some (h, s)"
  have "\<exists>h1 s1 Q1. ?stop = Some (h1, s1) \<and> kept h h1 \<and> queue_of h1 Q1 \<and> io_frame s s1 \<and>
      (counted D live \<longrightarrow> live (ext s1) - holds h1 = live (ext s) - holds h - 2 * of_bool (dk_shutdown h \<noteq> 0))"
    using stop_thread_run [OF na q, of D es s live] q by fastforce
  then obtain h1 s1 Q1 where 1: "?stop = Some (h1, s1)" "kept h h1" "queue_of h1 Q1" "io_frame s s1"
      "counted D live \<longrightarrow> live (ext s1) - holds h1 = live (ext s) - holds h - 2 * of_bool (dk_shutdown h \<noteq> 0)" by blast
  obtain l h2 where 2: "hs_list_splice (dk_lists h1) (dk_free h1) (dk_reports h1) = Some l"
      "hs_list_foreach dk_lists free_report_body (dk_free h1) (h1\<lparr>dk_lists := l\<rparr>) = Some (Continue, h2)" "same_handle h1 h2"
    using free_all_reports [OF 1(3)] by blast
  let ?s2 = "if dk_cond_init h1 then sys_do (dw_cond_destroy D) s1 else s1"
  let ?s3 = "if dk_mutex_init h1 then sys_do (dw_mutex_destroy D) ?s2 else ?s2"
  let ?s4 = "sys_do (os_close (dw_posix D) (snd (dk_pipe h2))) (sys_do (os_close (dw_posix D) (fst (dk_pipe h2))) ?s3)"
  let ?s5 = "if dk_hid h2 \<noteq> 0 then sys_do (dw_release D (dk_hid h2)) (sys_do (dw_hid_close D (dk_hid h2)) ?s4) else ?s4"
  let ?s6 = "if dk_service h2 \<noteq> 0 then sys_do (dw_object_release D (dk_service h2)) ?s5 else ?s5"
  have nl: "\<not> dk_locked h1" using h 1(2) by (simp add: closable_def kept_def)
  have "(if dk_mutex_init h1 then do { c_assert (\<not> dk_locked h1); Some (sys_do (dw_mutex_destroy D) ?s2) } else Some ?s2) = Some ?s3"
    using nl by simp
  then have "close_hid_device D nalloc es h s = hs_device_unref (dk_dev h2) ?s6"
    unfolding close_hid_device_def Let_def 1(1) by (simp add: 2(1,2))
  moreover have "dk_dev h2 = dk_dev h" using 1(2) 2(3) by (simp add: kept_def same_handle_def)
  moreover have "io_frame s ?s6" using 1(4) by (simp add: sys_do_eq)
  moreover have "live (ext ?s6) = live (ext s) - holds h" if c: "counted D live"
  proof -
    have "live (ext ?s3) = live (ext s1)" by (simp add: sys_do_eq counted_simps [OF c])
    moreover have "live (ext ?s6) = live (ext ?s3) - (holds h2 - 2 * of_bool (dk_shutdown h2 \<noteq> 0))"
      by (simp add: sys_do_eq counted_simps [OF c] holds_def)
    moreover have "holds h2 = holds h1" "dk_shutdown h2 = dk_shutdown h"
      using 2(3) 1(2) same_handle_kept [OF 2(3)] by (simp_all add: same_handle_def kept_def)
    ultimately show ?thesis using 1(5) c by simp
  qed
  ultimately show ?thesis by auto
qed

section \<open>Opening\<close>

text \<open>How far opening \<open>dev\<close> has come, from the state \<open>s0\<close>: a handle without a thread and without reports.\<close>

definition in_progress :: "'w darwin_os \<Rightarrow> ('w \<Rightarrow> int) \<Rightarrow> 'w hs_state \<Rightarrow> addr \<Rightarrow> hs_device \<Rightarrow> darwin_handle \<Rightarrow> 'w hs_state \<Rightarrow> bool" where
  "in_progress D live s0 dev d h s \<longleftrightarrow>
     lib_frame s0 s \<and> devs s = (devs s0)(dev \<mapsto> d\<lparr>refcount := refcount d + 1\<rparr>) \<and> dk_dev h = dev \<and> queue_rep h [] [] \<and>
     \<not> dk_locked h \<and> dk_shutdown h = 0 \<and> (counted D live \<longrightarrow> live (ext s) = live (ext s0) + holds h)"

definition open_failed :: "'w darwin_os \<Rightarrow> ('w \<Rightarrow> int) \<Rightarrow> 'w hs_state \<Rightarrow> int \<Rightarrow> (int \<times> darwin_handle option \<times> 'w hs_state) option \<Rightarrow> bool"
where
  "open_failed D live s0 k res \<longleftrightarrow>
     (\<exists>r s'. res = Some (r, None, s') \<and> r < 0 \<and> lib_frame s0 s' \<and> devs s' = devs s0 \<and>
        (counted D live \<longrightarrow> live (ext s') = live (ext s0) + k))"

definition open_done ::
  "'w darwin_os \<Rightarrow> ('w \<Rightarrow> int) \<Rightarrow> 'w hs_state \<Rightarrow> addr \<Rightarrow> hs_device \<Rightarrow> (int \<times> darwin_handle option \<times> 'w hs_state) option \<Rightarrow> bool"
where
  "open_done D live s0 dev d res \<longleftrightarrow>
     (\<exists>h s'. res = Some (0, Some h, s') \<and> dk_dev h = dev \<and> closable h \<and> lib_frame s0 s' \<and>
        devs s' = (devs s0)(dev \<mapsto> d\<lparr>refcount := refcount d + 1\<rparr>) \<and>
        (counted D live \<longrightarrow> live (ext s') = live (ext s0) + holds h))"

text \<open>
  The ways in which opening ends. Without a thread the mutex is destroyed while it is locked; a thread that
  cannot create its source is not joined.
\<close>

definition open_ends ::
  "'w darwin_os \<Rightarrow> ('w \<Rightarrow> int) \<Rightarrow> 'w hs_state \<Rightarrow> addr \<Rightarrow> hs_device \<Rightarrow> (int \<times> darwin_handle option \<times> 'w hs_state) option \<Rightarrow> bool"
where
  "open_ends D live s0 dev d res \<longleftrightarrow>
     open_done D live s0 dev d res \<or> open_failed D live s0 0 res \<or>
     (\<exists>l w. fst (dw_source_create D l w) = 0) \<and> open_failed D live s0 1 res \<or>
     (\<exists>w. fst (dw_thread_create D w) \<noteq> 0) \<and> res = None"

lemma in_progress_step:
  assumes "in_progress D live s0 dev d h s"
    and "dk_dev h' = dk_dev h" "dk_lists h' = dk_lists h" "dk_reports h' = dk_reports h" "dk_free h' = dk_free h"
      "dk_allocated h' = dk_allocated h" "dk_locked h' = dk_locked h" "dk_shutdown h' = dk_shutdown h"
    and "counted D live \<Longrightarrow> live w - holds h' = live (ext s) - holds h"
  shows "in_progress D live s0 dev d h' (s\<lparr>ext := w\<rparr>)"
  using assms by (auto simp: in_progress_def queue_rep_def)

lemma in_progress_log [simp]: "in_progress D live s0 dev d h (s\<lparr>logs := L\<rparr>) = in_progress D live s0 dev d h s"
  by (simp add: in_progress_def)

lemma fail_after_ref:
  assumes na: "report_allocates nalloc" and u: "usable s0 dev d" and h: "closable h" "dk_dev h = dev"
    and s: "lib_frame s0 s" "devs s = (devs s0)(dev \<mapsto> d\<lparr>refcount := refcount d + 1\<rparr>)"
    and k: "counted D live \<longrightarrow> live (ext s) = live (ext s0) + holds h + k" and r: "r < 0"
  shows "open_failed D live s0 k (hid_open_fail D nalloc es h (r, s))"
proof -
  obtain s1 where s1: "close_hid_device D nalloc es h s = hs_device_unref dev s1" "io_frame s s1"
      "counted D live \<longrightarrow> live (ext s1) = live (ext s) - holds h"
    using close_hid_device_run [OF na h(1), of D es s live] h(2) by auto
  have dv: "devs s1 = (devs s0)(dev \<mapsto> d\<lparr>refcount := refcount d + 1\<rparr>)" "lib_frame s0 s1"
    using s s1(2) by (auto simp: io_frame_def intro: lib_frame_trans)
  obtain s2 where s2: "hs_device_unref dev s1 = Some s2" "devs s2 = devs s0" "lib_frame s0 s2"
    using unref_after_ref [OF u dv] by blast
  have "ext s2 = ext s1" using s2(1) by (auto simp: hs_device_unref_def device_free_def split: if_splits bind_splits)
  with s1 s2 k r show ?thesis by (simp add: hid_open_fail_def open_failed_def)
qed

lemma in_progress_fail:
  assumes na: "report_allocates nalloc" and u: "usable s0 dev d" and o: "in_progress D live s0 dev d h s"
  shows "open_ends D live s0 dev d (hid_open_fail D nalloc es h (fail_with e m s))"
proof -
  have "closable h" using o by (auto simp: in_progress_def closable_def queue_of_def)
  from fail_after_ref [OF na u this, of "snd (fail_with e m s)" D live 0 "err_val e" es] o
  show ?thesis by (simp add: open_ends_def in_progress_def fail_with_eq)
qed

lemma queue_of_empty: "queue_rep h [] [] \<Longrightarrow> queue_of h []"
  unfolding queue_of_def by (rule exI [of _ "[]"]) auto

lemma in_progress_closable: "in_progress D live s0 dev d h s \<Longrightarrow> closable h"
  using queue_of_empty by (auto simp: in_progress_def closable_def)

text \<open>The start of the thread.\<close>

lemma device_thread_start_run:
  assumes q: "queue_rep h [] []" "dk_shutdown h = 0"
  shows "\<exists>h' s'. device_thread_start D (h, s) = (h', s') \<and> queue_of h' [] \<and> dk_dev h' = dk_dev h \<and> io_frame s s' \<and>
     (if dk_shutdown h' = 0 then dk_thread_ret h' < 0 \<and> (\<exists>l w. fst (dw_source_create D l w) = 0) else dk_thread_ret h' = 1) \<and>
     (counted D live \<longrightarrow> live (ext s') - holds h' = live (ext s) - holds h - of_bool (dk_shutdown h' \<noteq> 0))"
proof -
  let ?w1 = "snd (dw_current_loop D (ext s))" and ?l = "fst (dw_current_loop D (ext s))"
  let ?src = "fst (dw_source_create D ?l ?w1)" and ?w2 = "snd (dw_source_create D ?l ?w1)"
  have sc: "live ?w2 = live (ext s) + of_bool (?src \<noteq> 0)" if "counted D live"
  proof -
    have "live ?w2 = live ?w1 + of_bool (?src \<noteq> 0)" using that by (simp add: counted_def counted_creation_def)
    then show ?thesis by (simp add: counted_simps [OF that])
  qed
  show ?thesis
  proof (cases "?src = 0")
    case True
    let ?h = "h\<lparr>dk_loop := ?l, dk_shutdown := 0, dk_thread_ret := err_val HS_ERROR_SYSTEM\<rparr>"
    let ?s = "snd (fail_with HS_ERROR_SYSTEM (Some ''CFRunLoopSourceCreate() failed'') (s\<lparr>ext := ?w2\<rparr>))"
    have "device_thread_start D (h, s) = (?h, ?s)"
      using True by (simp add: device_thread_start_def sys_eq fail_with_eq)
    moreover have "queue_rep ?h [] []" using q(1) by (simp add: queue_rep_def)
    moreover have "counted D live \<longrightarrow> live (ext ?s) - holds ?h = live (ext s) - holds h"
      using sc True q(2) by (simp add: fail_with_eq holds_def)
    moreover have "io_frame s ?s" by simp
    ultimately show ?thesis using True queue_of_empty [of ?h] by (intro exI [of _ ?h] exI [of _ ?s]) auto
  next
    case False
    let ?h = "h\<lparr>dk_loop := ?l, dk_shutdown := ?src, dk_thread_ret := 1\<rparr>"
    let ?s = "s\<lparr>ext := dw_schedule D (dk_hid h) ?l ?w2\<rparr>"
    have "device_thread_start D (h, s) = (?h, ?s)"
      using False by (simp add: device_thread_start_def sys_eq sys_do_eq)
    moreover have "queue_rep ?h [] []" using q(1) by (simp add: queue_rep_def)
    moreover have "counted D live \<longrightarrow> live (ext ?s) - holds ?h = live (ext s) - holds h - 1"
      using sc False q(2) by (auto simp: holds_def counted_simps)
    ultimately show ?thesis using False queue_of_empty [of ?h] by (intro exI [of _ ?h] exI [of _ ?s]) auto
  qed
qed

text \<open>The caller looks at the result when it has the mutex again.\<close>

lemma hid_open_thread_run:
  assumes na: "report_allocates nalloc" and u: "usable s0 dev d" and o: "in_progress D live s0 dev d h s"
    and m: "dk_mutex_init h"
  shows "open_ends D live s0 dev d (hid_open_thread D nalloc early es h s)"
proof (cases "fst (dw_thread_create D (ext s)) = 0")
  case False
  have "dk_shutdown h = 0" using o by (simp add: in_progress_def)
  then have "hid_open_thread D nalloc early es h s = None"
    using False m by (simp add: hid_open_thread_def sys_eq hid_open_fail_def close_hid_device_def Let_def)
  with False show ?thesis by (auto simp: open_ends_def)
next
  case True
  let ?h = "h\<lparr>dk_locked := True\<rparr>" and ?s1 = "s\<lparr>ext := snd (dw_thread_create D (ext s))\<rparr>"
  have live1: "live (ext ?s1) = live (ext s) + 1" if "counted D live"
    using that True by (simp add: counted_def counted_creation_def)
  have "queue_rep ?h [] []" "dk_shutdown ?h = 0" using o by (simp_all add: in_progress_def queue_rep_def)
  from device_thread_start_run [OF this, of D ?s1 live] obtain h2 s2 where
    2: "device_thread_start D (?h, ?s1) = (h2, s2)" "queue_of h2 []" "dk_dev h2 = dk_dev ?h" "io_frame ?s1 s2"
      "if dk_shutdown h2 = 0 then dk_thread_ret h2 < 0 \<and> (\<exists>l w. fst (dw_source_create D l w) = 0) else dk_thread_ret h2 = 1"
      "counted D live \<longrightarrow> live (ext s2) - holds h2 = live (ext ?s1) - holds ?h - of_bool (dk_shutdown h2 \<noteq> 0)"
    by blast
  let ?disp = "if dk_shutdown h2 \<noteq> 0 then hid_dispatch D nalloc early (h2, s2) else Some (h2, s2)"
  have "\<exists>h3 s3 Q. ?disp = Some (h3, s3) \<and> kept h2 h3 \<and> queue_of h3 Q \<and> io_frame s2 s3 \<and>
      (dk_shutdown h2 = 0 \<longrightarrow> h3 = h2) \<and> (counted D live \<longrightarrow> steady live (h2, s2) (h3, s3))"
    using hid_dispatch_run [OF na 2(2), of D early s2 live] 2(2) by auto
  then obtain h3 s3 Q where 3: "?disp = Some (h3, s3)" "kept h2 h3" "queue_of h3 Q" "io_frame s2 s3"
      "dk_shutdown h2 = 0 \<longrightarrow> h3 = h2" "counted D live \<longrightarrow> steady live (h2, s2) (h3, s3)" by (elim exE conjE)
  let ?h4 = "h3\<lparr>dk_thread_ret := 0, dk_locked := False\<rparr>" and ?r = "dk_thread_ret h3"
  let ?k = "of_bool (dk_shutdown h2 = 0) :: int"
  have run: "hid_open_thread D nalloc early es h s =
      (if ?r < 0 then hid_open_fail D nalloc es ?h4 (?r, s3) else Some (0, Some ?h4, s3))"
    using True 2(1) 3(1) by (simp add: hid_open_thread_def sys_eq Let_def)
  have "queue_of ?h4 Q" using 3(3) by simp
  then have cl: "closable ?h4" by (auto simp: closable_def)
  have dev: "dk_dev ?h4 = dev" using 2(3) 3(2) o by (simp add: kept_def in_progress_def)
  have "io_frame ?s1 s3" by (rule io_frame_trans [OF 2(4) 3(4)])
  then have fr: "lib_frame s0 s3" "devs s3 = (devs s0)(dev \<mapsto> d\<lparr>refcount := refcount d + 1\<rparr>)"
    using o by (auto simp: io_frame_def in_progress_def intro: lib_frame_trans)
  have lv: "live (ext s3) = live (ext s0) + holds ?h4 + ?k" if c: "counted D live"
  proof -
    have "live (ext s3) - holds h3 = live (ext s2) - holds h2" using 3(6) c by (simp add: steady_def)
    moreover have "holds ?h4 = holds h3" "holds ?h = holds h" by (simp_all add: holds_def)
    moreover have "live (ext s) = live (ext s0) + holds h" using o c by (simp add: in_progress_def)
    moreover have "of_bool (dk_shutdown h2 \<noteq> 0) = 1 - ?k" by simp
    ultimately show ?thesis using 2(6) live1 [OF c] c by simp
  qed
  show ?thesis
  proof (cases "?r < 0")
    case True
    from fail_after_ref [OF na u cl dev fr _ True, of D live ?k es] lv run True 2(5)
    show ?thesis by (auto simp: open_ends_def split: if_splits)
  next
    case False
    then have "?k = 0" using 2(5) 3(5) by (auto split: if_splits)
    with False run cl dev fr lv show ?thesis by (auto simp: open_ends_def open_done_def)
  qed
qed

lemma hid_open_sync_run:
  assumes na: "report_allocates nalloc" and u: "usable s0 dev d" and o: "in_progress D live s0 dev d h s"
    and p: "dk_pipe h = (-1, -1)"
  shows "open_ends D live s0 dev d (hid_open_sync D nalloc early es h s)"
proof (cases "fst (dw_pipe D (ext s))")
  case (Inl e)
  have "live (snd (dw_pipe D (ext s))) = live (ext s)" if "counted D live"
    using that Inl by (simp add: counted_def counted_creation_def)
  then have "in_progress D live s0 dev d h (s\<lparr>ext := snd (dw_pipe D (ext s))\<rparr>)"
    by (intro in_progress_step [OF o]) simp_all
  from in_progress_fail [OF na u this] Inl show ?thesis by (simp add: hid_open_sync_def sys_eq)
next
  case (Inr fds)
  let ?w1 = "snd (dw_pipe D (ext s))"
  let ?w2 = "dw_set_nonblock D (snd fds) (dw_set_nonblock D (fst fds) ?w1)"
  let ?w3 = "snd (dw_mutex_init D ?w2)" and ?r3 = "fst (dw_mutex_init D ?w2)"
  let ?w4 = "snd (dw_cond_init D ?w3)" and ?r4 = "fst (dw_cond_init D ?w3)"
  let ?h1 = "h\<lparr>dk_pipe := fds\<rparr>" and ?h2 = "h\<lparr>dk_pipe := fds, dk_mutex_init := True\<rparr>"
  have "live ?w1 = live (ext s) + 2 \<and> holds ?h1 = holds h + 2" if "counted D live"
  proof -
    obtain a b where "fds = (a, b)" by (cases fds)
    with that Inr p show ?thesis by (auto simp: counted_def counted_creation_def holds_def)
  qed
  then have o1: "in_progress D live s0 dev d ?h1 (s\<lparr>ext := ?w1\<rparr>)" by (intro in_progress_step [OF o]) simp_all
  have o2: "in_progress D live s0 dev d ?h1 (s\<lparr>ext := ?w3\<rparr>)"
    using in_progress_step [OF o1, of ?h1 ?w3] by (simp add: counted_simps)
  have o3: "in_progress D live s0 dev d ?h2 (s\<lparr>ext := ?w4\<rparr>)"
    using in_progress_step [OF o2, of ?h2 ?w4] by (simp add: counted_simps holds_def)
  have o4: "in_progress D live s0 dev d (?h2\<lparr>dk_cond_init := True\<rparr>) (s\<lparr>ext := ?w4\<rparr>)"
    using in_progress_step [OF o3, of "?h2\<lparr>dk_cond_init := True\<rparr>" ?w4] by (simp add: holds_def)
  show ?thesis
    using in_progress_fail [OF na u o2] in_progress_fail [OF na u o3] hid_open_thread_run [OF na u o4] Inr
    by (simp add: hid_open_sync_def sys_eq sys_do_eq Let_def)
qed

lemma number_property_run:
  "\<exists>ok v. get_hid_device_property_number D hid p t s = (ok, v, s\<lparr>ext := snd (dw_property D hid p (ext s))\<rparr>)"
  by (cases "fst (dw_property D hid p (ext s))")
    (auto simp: get_hid_device_property_number_def sys_eq split: prod.splits)

lemma hid_open_object_run:
  assumes na: "report_allocates nalloc" and u: "usable s0 dev d" and o: "in_progress D live s0 dev d h s"
    and p: "dk_pipe h = (-1, -1)" "dk_service h = 0" "dk_hid h = 0"
  shows "open_ends D live s0 dev d (hid_open_object D nalloc early es path h s)"
proof -
  obtain svc w1 where e1: "dw_entry_from_path D path (ext s) = (svc, w1)" by fastforce
  obtain hid w2 where e2: "dw_hid_create D svc w1 = (hid, w2)" by fastforce
  obtain opened w3 where e3: "dw_hid_open D hid w2 = (opened, w3)" by fastforce
  obtain ok v w4 where e4: "get_hid_device_property_number D hid ''MaxInputReportSize'' kCFNumberSInt32Type (s\<lparr>ext := w3\<rparr>) =
      (ok, v, s\<lparr>ext := w4\<rparr>)" "w4 = snd (dw_property D hid ''MaxInputReportSize'' w3)"
    using number_property_run [of D hid "''MaxInputReportSize''" kCFNumberSInt32Type "s\<lparr>ext := w3\<rparr>"] by auto
  define h1 where "h1 = h\<lparr>dk_service := svc\<rparr>"
  define h2 where "h2 = h1\<lparr>dk_hid := hid\<rparr>"
  define h4 where "h4 = (case v of None \<Rightarrow> h2 | Some x \<Rightarrow> h2\<lparr>dk_size := unat (of_int x :: uint32)\<rparr>)"
  obtain mem w5 where e5: "dw_malloc D (dk_size h4) w4 = (mem, w5)" by fastforce
  have l1: "live w1 = live (ext s) + of_bool (svc \<noteq> 0)" and l2: "live w2 = live w1 + of_bool (hid \<noteq> 0)" if c: "counted D live"
  proof -
    have "live (snd (dw_entry_from_path D path (ext s))) = live (ext s) + of_bool (fst (dw_entry_from_path D path (ext s)) \<noteq> 0)"
      "live (snd (dw_hid_create D svc w1)) = live w1 + of_bool (fst (dw_hid_create D svc w1) \<noteq> 0)"
      using c by (simp_all add: counted_def counted_creation_def)
    then show "live w1 = live (ext s) + of_bool (svc \<noteq> 0)" "live w2 = live w1 + of_bool (hid \<noteq> 0)"
      by (simp_all add: e1 e2)
  qed
  have keep: "live w3 = live w2" "live w4 = live w3" "live w5 = live w4" if c: "counted D live"
    using counted_keeps(1) [OF c, of hid w2] counted_keeps(2) [OF c, of hid "''MaxInputReportSize''" w3]
      counted_keeps(3) [OF c, of "dk_size h4" w4] e3 e4(2) e5 by simp_all
  have o1: "in_progress D live s0 dev d h1 (s\<lparr>ext := w1\<rparr>)"
    by (rule in_progress_step [OF o]) (use l1 p in \<open>simp_all add: h1_def holds_def\<close>)
  have o2: "in_progress D live s0 dev d h2 (s\<lparr>ext := w2\<rparr>)"
    using in_progress_step [OF o1, of h2 w2] l2 p by (simp add: h1_def h2_def holds_def)
  have o3: "in_progress D live s0 dev d h2 (s\<lparr>ext := w3\<rparr>)"
    using in_progress_step [OF o2, of h2 w3] keep by simp
  have o4: "in_progress D live s0 dev d h4 (s\<lparr>ext := w4\<rparr>)"
    using in_progress_step [OF o3, of h4 w4] keep by (cases v) (simp_all add: h4_def holds_def)
  have o5: "in_progress D live s0 dev d (h4\<lparr>dk_buf := mem\<rparr>) (s\<lparr>ext := w5\<rparr>)"
    using in_progress_step [OF o4, of "h4\<lparr>dk_buf := mem\<rparr>" w5] keep by (simp add: holds_def)
  have o6: "in_progress D live s0 dev d (h4\<lparr>dk_buf := mem\<rparr>) (s\<lparr>ext := dw_hid_register D hid w5\<rparr>)"
    using in_progress_step [OF o5, of "h4\<lparr>dk_buf := mem\<rparr>" "dw_hid_register D hid w5"] by (simp add: counted_simps)
  have p5: "dk_pipe (h4\<lparr>dk_buf := mem\<rparr>) = (-1, -1)" using p(1) by (cases v) (simp_all add: h4_def h2_def h1_def)
  have calls: "sys (dw_entry_from_path D path) s = (svc, s\<lparr>ext := w1\<rparr>)" "sys (dw_hid_create D svc) (s\<lparr>ext := w1\<rparr>) = (hid, s\<lparr>ext := w2\<rparr>)"
      "sys (dw_hid_open D hid) (s\<lparr>ext := w2\<rparr>) = (opened, s\<lparr>ext := w3\<rparr>)" "sys (dw_malloc D (dk_size h4)) (s\<lparr>ext := w4\<rparr>) = (mem, s\<lparr>ext := w5\<rparr>)"
      "sys_do (dw_hid_register D hid) (s\<lparr>ext := w5\<rparr>) = s\<lparr>ext := dw_hid_register D hid w5\<rparr>"
    by (simp_all add: sys_eq sys_do_eq e1 e2 e3 e5)
  have run: "hid_open_object D nalloc early es path h s =
      (if svc = 0 then hid_open_fail D nalloc es h1 (fail_with HS_ERROR_NOT_FOUND (Some (''Device '' @ sq path @ '' not found'')) (s\<lparr>ext := w1\<rparr>))
       else if hid = 0 then hid_open_fail D nalloc es h2 (fail_with HS_ERROR_NOT_FOUND (Some (''Device '' @ sq path @ '' not found'')) (s\<lparr>ext := w2\<rparr>))
       else if \<not> opened then hid_open_fail D nalloc es h2 (fail_with HS_ERROR_SYSTEM (Some (''Failed to open HID device '' @ sq path)) (s\<lparr>ext := w3\<rparr>))
       else if \<not> ok then hid_open_fail D nalloc es h4
         (fail_with HS_ERROR_SYSTEM (Some (''HID device '' @ sq path @ '' has no valid report size key'')) (s\<lparr>ext := w4\<rparr>))
       else if \<not> mem then hid_open_fail D nalloc es (h4\<lparr>dk_buf := mem\<rparr>) (fail_with HS_ERROR_MEMORY None (s\<lparr>ext := w5\<rparr>))
       else hid_open_sync D nalloc early es (h4\<lparr>dk_buf := mem\<rparr>) (s\<lparr>ext := dw_hid_register D hid w5\<rparr>))"
    by (simp add: hid_open_object_def calls e4(1) h1_def [symmetric] h2_def [symmetric] h4_def [symmetric])
  show ?thesis
    unfolding run
    using in_progress_fail [OF na u o1] in_progress_fail [OF na u o2] in_progress_fail [OF na u o3]
      in_progress_fail [OF na u o4] in_progress_fail [OF na u o5] hid_open_sync_run [OF na u o6 p5] by (cases mem) simp_all
qed

lemma open_hid_device_run:
  assumes na: "report_allocates nalloc" and u: "usable s dev d"
  shows "open_ends D live s dev d (open_hid_device D nalloc early es p dev s)"
proof (cases "p = NULL")
  case True
  then have "open_failed D live s 0 (open_hid_device D nalloc early es p dev s)"
    by (simp add: open_hid_device_def open_failed_def fail_with_eq)
  then show ?thesis by (simp add: open_ends_def)
next
  case False
  obtain path where d: "dev \<noteq> NULL" "devs s dev = Some d" "d_path d = Some path" using u by (auto simp: usable_def)
  let ?s1 = "s\<lparr>devs := (devs s)(dev \<mapsto> d\<lparr>refcount := refcount d + 1\<rparr>)\<rparr>"
  let ?h = "(zero_darwin_handle p)\<lparr>dk_dev := dev, dk_pipe := (-1, -1)\<rparr>"
  have al: "list_allocated (dk_lists ?h) p" "list_allocated (dk_lists ?h) (p + 1)"
    using False by (simp_all add: zero_darwin_handle_def list_alloc_def list_allocated_def)
  obtain l1 where l1: "hs_list_init (dk_lists ?h) p = Some l1" "ring l1 p []" "list_allocated l1 = list_allocated (dk_lists ?h)"
    using hs_list_init_ring [OF al(1)] by blast
  have "list_allocated l1 (p + 1)" using l1(3) al(2) by simp
  from hs_list_init_ring [OF this] obtain l2 where l2: "hs_list_init l1 (p + 1) = Some l2" "ring l2 (p + 1) []"
      "same_outside l1 l2 {p + 1}" by blast
  have "ring l2 p []" using l1(2) ring_same_outside [OF l2(3), of p "[]"] by simp
  then have o: "in_progress D live s dev d (?h\<lparr>dk_lists := l2\<rparr>) ?s1"
    using l2(2) by (simp add: in_progress_def queue_rep_def zero_darwin_handle_def holds_def)
  have "open_hid_device D nalloc early es p dev s = hid_open_object D nalloc early es path (?h\<lparr>dk_lists := l2\<rparr>) ?s1"
    using False d l1(1) l2(1) by (simp add: open_hid_device_def hs_device_ref_run Let_def zero_darwin_handle_def)
  with hid_open_object_run [OF na u o] show ?thesis by (simp add: zero_darwin_handle_def)
qed

section \<open>The driver is one\<close>

text \<open>\<open>calloc\<close> gives an address that is not in use, or null.\<close>

definition unused_report :: "(darwin_handle \<Rightarrow> addr) \<Rightarrow> darwin_handle \<Rightarrow> addr" where
  "unused_report nalloc h = (if l_next (dk_lists h) (nalloc h) = None then nalloc h else NULL)"

lemma unused_report_allocates: "report_allocates (unused_report nalloc)"
  by (simp add: report_allocates_def unused_report_def)

interpretation darwin: device_driver dk_dev closable "open_hid_device D (unused_report nalloc) early es p"
  "close_hid_device D (unused_report nalloc) es"
proof unfold_locales
  fix s dev d r h s' assume u: "usable s dev d" and o: "open_hid_device D (unused_report nalloc) early es p dev s = Some (r, Some h, s')"
  from open_hid_device_run [OF unused_report_allocates u, of D "\<lambda>_. 0" nalloc early es p] o
  show "r = 0 \<and> dk_dev h = dev \<and> closable h \<and> lib_frame s s' \<and> devs s' = (devs s)(dev \<mapsto> d\<lparr>refcount := refcount d + 1\<rparr>)"
    by (auto simp: open_ends_def open_done_def open_failed_def)
next
  fix s dev d r s' assume u: "usable s dev d" and o: "open_hid_device D (unused_report nalloc) early es p dev s = Some (r, None, s')"
  from open_hid_device_run [OF unused_report_allocates u, of D "\<lambda>_. 0" nalloc early es p] o
  show "r < 0 \<and> lib_frame s s' \<and> devs s' = devs s"
    by (auto simp: open_ends_def open_done_def open_failed_def)
next
  fix h s assume "closable h"
  from close_hid_device_run [OF unused_report_allocates this, of D nalloc es s "\<lambda>_. 0"]
  show "\<exists>s1. close_hid_device D (unused_report nalloc) es h s = hs_device_unref (dk_dev h) s1 \<and> lib_frame s s1 \<and> devs s1 = devs s"
    by (auto simp: io_frame_def)
qed

end
