(* ===== verification/ExampleDarwin.thy ===== *)
theory ExampleDarwin
  imports DriverDarwin PosixProperties
begin

text \<open>
  An example of the macOS system, for the witnesses: its world is the number of bytes in the pipe and the
  number of objects of the system there are. Every call succeeds.
\<close>

type_synonym ex_darwin_world = "nat \<times> int"

definition ex_darwin_posix :: "ex_darwin_world posix_os" where
  "ex_darwin_posix = \<lparr>os_open = \<lambda>p fl w. (Inl ENOENT, w), os_close = \<lambda>fd w. (fst w, snd w - of_bool (0 \<le> fd)),
     os_poll = \<lambda>pfd t w. (if fst w = 0 then (Inr (0, [0]), w) else (Inr (1, [POLLIN]), w)),
     os_read = \<lambda>fd n w. (if fst w = 0 then (Inl EAGAIN, w) else (Inr [46], (fst w - 1, snd w))),
     os_write = \<lambda>fd b w. (if fst w < 512 then (Inr 1, (fst w + 1, snd w)) else (Inl EAGAIN, w)),
     os_hidiocgrdescsize = \<lambda>fd w. (Inl EINVAL, w), os_hidiocgrdesc = \<lambda>fd n w. (Inl EINVAL, w),
     os_hidiocgfeature = \<lambda>fd b w. (Inl EINVAL, w), os_hidiocsfeature = \<lambda>fd b w. (Inl EINVAL, w),
     os_tcgetattr = \<lambda>fd w. (Inl EINVAL, w), os_tcsetattr = \<lambda>fd t w. (Inl EINVAL, w),
     os_tiocsdtr = \<lambda>fd w. w, os_usleep = \<lambda>n w. w, os_clock = \<lambda>w. (Some (0, 0), w),
     os_strerror = \<lambda>e. ''error'', os_uname_release = ''15.0.0''\<rparr>"

definition ex_created :: "nat \<Rightarrow> ex_darwin_world \<Rightarrow> nat \<times> ex_darwin_world" where
  "ex_created x w = (x, (fst w, snd w + of_bool (x \<noteq> 0)))"

definition ex_released :: "nat \<Rightarrow> ex_darwin_world \<Rightarrow> ex_darwin_world" where
  "ex_released x w = (fst w, snd w - 1)"

definition ex_darwin :: "ex_darwin_world darwin_os" where
  "ex_darwin = \<lparr>dw_posix = ex_darwin_posix, dw_timebase = (1, 1), dw_absolute_time = \<lambda>w. (0, w),
     dw_select = \<lambda>fds t w. (Inr (filter (\<lambda>d. 2 < d) fds), w), dw_malloc = \<lambda>n w. (True, w),
     dw_number = \<lambda>t v. (True, v), dw_entry_from_path = \<lambda>p. ex_created 11, dw_object_release = ex_released, dw_release = ex_released,
     dw_hid_create = \<lambda>x. ex_created 12, dw_hid_open = \<lambda>x w. (True, w), dw_hid_close = \<lambda>x w. w,
     dw_property = \<lambda>x p w. (Some 2, w), dw_hid_register = \<lambda>x w. w, dw_set_report = \<lambda>x t i b w. (True, w),
     dw_get_report = \<lambda>x i n w. (Some (take n [1, 2]), w), dw_pipe = \<lambda>w. (Inr (3, 4), (fst w, snd w + 2)), dw_set_nonblock = \<lambda>fd w. w,
     dw_mutex_init = \<lambda>w. (0, w), dw_mutex_destroy = \<lambda>w. w, dw_cond_init = \<lambda>w. (0, w), dw_cond_destroy = \<lambda>w. w,
     dw_thread_create = \<lambda>w. (0, (fst w, snd w + 1)), dw_thread_join = \<lambda>w. (fst w, snd w - 1),
     dw_current_loop = \<lambda>w. (21, w), dw_source_create = \<lambda>l. ex_created 22, dw_schedule = \<lambda>x l w. w, dw_unschedule = \<lambda>x l w. w,
     dw_source_signal = \<lambda>x w. w, dw_loop_wake_up = \<lambda>l w. w\<rparr>"

lemma ex_darwin_counted: "counted ex_darwin snd"
  by (simp add: counted_def counted_creation_def counted_use_def ex_darwin_def ex_darwin_posix_def ex_created_def ex_released_def)

lemma ex_darwin_pipe: "pipe_works ex_darwin fds fst 512"
  by (simp add: pipe_works_def ex_darwin_def ex_darwin_posix_def ex_released_def)

definition ex_report_alloc :: "darwin_handle \<Rightarrow> addr" where
  "ex_report_alloc h = (if l_next (dk_lists h) 60 = None then 60 else if l_next (dk_lists h) 61 = None then 61 else NULL)"

lemma ex_report_allocates: "report_allocates ex_report_alloc"
  by (simp add: report_allocates_def ex_report_alloc_def)

text \<open>A state with a HID device at 8, and an open handle on it without reports.\<close>

definition ex_darwin_dev :: hs_device where
  "ex_darwin_dev = ex_dev HS_DEVICE_TYPE_HID Hs_darwin_hid_vtable"

definition ex_darwin_state :: "ex_darwin_world hs_state" where
  "ex_darwin_state =
     \<lparr>lists = \<lparr>l_prev = Map.empty, l_next = Map.empty\<rparr>, nodes = \<lparr>h_next = Map.empty, h_key = Map.empty\<rparr>,
      devs = [8 \<mapsto> ex_darwin_dev], cbs = Map.empty, mons = Map.empty, logs = init_log False, ext = (0, 0)\<rparr>"

definition ex_darwin_handle :: darwin_handle where
  "ex_darwin_handle = (zero_darwin_handle 30)\<lparr>dk_dev := 8, dk_service := 11, dk_hid := 12, dk_buf := True, dk_size := 2,
     dk_mutex_init := True, dk_cond_init := True, dk_pipe := (3, 4), dk_loop := 21, dk_shutdown := 22,
     dk_lists := \<lparr>l_prev = [30 \<mapsto> 30, 31 \<mapsto> 31], l_next = [30 \<mapsto> 30, 31 \<mapsto> 31]\<rparr>\<rparr>"

lemma ex_darwin_usable: "usable ex_darwin_state 8 ex_darwin_dev"
  by (simp add: usable_def ex_darwin_state_def ex_darwin_dev_def ex_dev_def)

lemma ex_darwin_handle_empty: "queue_of ex_darwin_handle []"
  by (rule queue_of_empty) (simp add: queue_rep_def ex_darwin_handle_def zero_darwin_handle_def ring_def link_def)

lemma ex_darwin_handle_sel:
  "dk_hid ex_darwin_handle = 12" "dk_thread_ret ex_darwin_handle = 0" "dk_size ex_darwin_handle = 2"
  "dk_pipe ex_darwin_handle = (3, 4)" "dk_dev ex_darwin_handle = 8" "ext ex_darwin_state = (0, 0)"
  by (simp_all add: ex_darwin_handle_def zero_darwin_handle_def ex_darwin_state_def)

end
