(* ===== verification/WaitDarwin.thy ===== *)
theory WaitDarwin
  imports DriverDarwin
begin

text \<open>
  The functions of macOS that wait: \<open>hs_poll\<close> and the wait of \<open>hs_hid_read\<close>. Both restart an interrupted call,
  and return when the system interrupts only finitely often.
\<close>

section \<open>What is assumed of the system\<close>

definition darwin_waits_end :: "'w darwin_os \<Rightarrow> ('w \<Rightarrow> nat) \<Rightarrow> bool" where
  "darwin_waits_end D \<mu> \<longleftrightarrow> snd (dw_timebase D) \<noteq> 0 \<and>
     (\<forall>pfd t w. fst (os_poll (dw_posix D) pfd t w) = Inl EINTR \<longrightarrow> \<mu> (snd (os_poll (dw_posix D) pfd t w)) < \<mu> w) \<and>
     (\<forall>fds t w. fst (dw_select D fds t w) = Inl EINTR \<longrightarrow> \<mu> (snd (dw_select D fds t w)) < \<mu> w) \<and>
     (\<forall>w. \<mu> (snd (dw_absolute_time D w)) \<le> \<mu> w)"

text \<open>\<open>select\<close> as documented: it leaves in the set those of the descriptors that are ready.\<close>

definition select_ok :: "'w darwin_os \<Rightarrow> bool" where
  "select_ok D \<longleftrightarrow> (\<forall>fds t w ready. fst (dw_select D fds t w) = Inr ready \<longrightarrow> set ready \<subseteq> set fds)"

section \<open>Waiting\<close>

lemma hs_millis_darwin_run:
  assumes "snd (dw_timebase D) \<noteq> 0"
  shows "\<exists>now. hs_millis_darwin D s = Some (now, s\<lparr>ext := snd (dw_absolute_time D (ext s))\<rparr>)"
  using assms by (simp add: hs_millis_darwin_def sys_eq)

lemma adjust_darwin_run:
  assumes "darwin_waits_end D \<mu>"
  shows "\<exists>t w. hs_adjust_timeout (hs_millis_darwin D) timeout start s = Some (t, s\<lparr>ext := w\<rparr>) \<and> \<mu> w \<le> \<mu> (ext s)"
proof (cases "timeout < 0")
  case True
  then show ?thesis by (intro exI [of _ "-1"] exI [of _ "ext s"]) (simp add: hs_adjust_timeout_def)
next
  case False
  have "snd (dw_timebase D) \<noteq> 0" using assms by (simp add: darwin_waits_end_def)
  from hs_millis_darwin_run [OF this, of s] False
  have "\<exists>t. hs_adjust_timeout (hs_millis_darwin D) timeout start s = Some (t, s\<lparr>ext := snd (dw_absolute_time D (ext s))\<rparr>)"
    by (auto simp: hs_adjust_timeout_def)
  moreover have "\<mu> (snd (dw_absolute_time D (ext s))) \<le> \<mu> (ext s)" using assms by (simp add: darwin_waits_end_def)
  ultimately show ?thesis by blast
qed

text \<open>A call after the clock has been read, once, and restarted.\<close>

lemma restarted_wait_run:
  assumes fin: "darwin_waits_end D \<mu>"
    and once: "\<And>s. \<exists>r s'. call s = Some (r, s') \<and> os_frame s s' \<and> P r \<and> (r = Inl EINTR \<longrightarrow> \<mu> (ext s') < \<mu> (ext s))"
  shows "\<exists>r s'. retry_eintr call s = Some (r, s') \<and> r \<noteq> Inl EINTR \<and> os_frame s s' \<and> P r"
proof -
  have "\<exists>r s'. retry_eintr call s = Some (r, s') \<and> r \<noteq> Inl EINTR \<and> os_frame s s'"
  proof (rule retry_eintr_returns [where \<mu> = "\<lambda>s. \<mu> (ext s)" and P = "os_frame s"])
    fix s1 assume "os_frame s s1"
    with once [of s1] show "\<exists>r s'. call s1 = Some (r, s') \<and> os_frame s s' \<and> (r = Inl EINTR \<longrightarrow> \<mu> (ext s') < \<mu> (ext s1))"
      by (blast intro: os_frame_trans)
  qed simp
  then obtain r s' where r: "retry_eintr call s = Some (r, s')" "r \<noteq> Inl EINTR" "os_frame s s'" by blast
  have "P (fst (r, s'))"
  proof (rule retry_eintr_origin [OF _ r(1)])
    fix s1 r1 s2 assume "call s1 = Some (r1, s2)"
    with once [of s1] show "P r1" by auto
  qed
  with r show ?thesis by auto
qed

lemma pipe_poll_run:
  assumes fin: "darwin_waits_end D \<mu>"
  shows "\<exists>r s'. pipe_poll D fd timeout start s = Some (r, s') \<and> os_frame s s' \<and> True \<and> (r = Inl EINTR \<longrightarrow> \<mu> (ext s') < \<mu> (ext s))"
proof -
  obtain t w where t: "hs_adjust_timeout (hs_millis_darwin D) timeout start s = Some (t, s\<lparr>ext := w\<rparr>)" "\<mu> w \<le> \<mu> (ext s)"
    using adjust_darwin_run [OF fin] by blast
  have "fst (os_poll (dw_posix D) [(fd, POLLIN)] t w) = Inl EINTR \<Longrightarrow> \<mu> (snd (os_poll (dw_posix D) [(fd, POLLIN)] t w)) < \<mu> w"
    using fin by (simp add: darwin_waits_end_def)
  with t show ?thesis by (auto simp: pipe_poll_def sys_eq os_frame_def)
qed

lemma wait_report_run:
  assumes fin: "darwin_waits_end D \<mu>"
  shows "\<exists>go s'. wait_report D h path timeout s = Some (go, s') \<and> io_frame s s' \<and>
     (\<forall>r. go = Inl r \<longrightarrow> r = 0 \<or> r = err_val HS_ERROR_SYSTEM)"
proof (cases "timeout = 0")
  case True
  then show ?thesis by (simp add: wait_report_def)
next
  case False
  have tb: "snd (dw_timebase D) \<noteq> 0" using fin by (simp add: darwin_waits_end_def)
  obtain start where st: "hs_millis_darwin D s = Some (start, s\<lparr>ext := snd (dw_absolute_time D (ext s))\<rparr>)"
    using hs_millis_darwin_run [OF tb] by blast
  obtain r s2 where r: "retry_eintr (pipe_poll D (fst (dk_pipe h)) timeout start) (s\<lparr>ext := snd (dw_absolute_time D (ext s))\<rparr>) = Some (r, s2)"
      "os_frame (s\<lparr>ext := snd (dw_absolute_time D (ext s))\<rparr>) s2"
    using restarted_wait_run [where call = "pipe_poll D (fst (dk_pipe h)) timeout start" and P = "\<lambda>_. True",
        OF fin pipe_poll_run [OF fin]] by blast
  have "io_frame s s2" using io_frame_os [OF r(2)] by (simp add: io_frame_def)
  with False st r(1) show ?thesis
    by (cases r) (auto simp: wait_report_def fail_with_eq split: prod.splits)
qed

section \<open>Reading\<close>

text \<open>
  The critical section of the reader on any queue: it stays within the caller's buffer.
\<close>

lemma read_locked_run:
  assumes q: "queue_of h Q" and n: "n \<le> length buf"
  shows "\<exists>r buf' h' s' Q'. read_locked D buf n (h, s) = Some (r, buf', h', s') \<and> same_handle h h' \<and> queue_of h' Q' \<and> io_frame s s' \<and>
     length buf' = length buf \<and> drop n buf' = drop n buf \<and> r \<le> int n \<and>
     (if dk_thread_ret h < 0 then r = dk_thread_ret h
      else case Q of [] \<Rightarrow> r = 0 | rep # _ \<Rightarrow> r = int (min n (length rep)) \<and> take (nat r) buf' = take n rep)"
proof -
  have rf: "io_frame s (reset_device_event D h s)" by (simp add: reset_device_event_def sys_eq)
  show ?thesis
  proof (cases "dk_thread_ret h < 0")
    case True
    let ?h = "h\<lparr>dk_thread_ret := 0\<rparr>"
    have "read_locked D buf n (h, s) = Some (dk_thread_ret h, buf, ?h, if Q = [] then reset_device_event D h s else s)"
      by (rule read_locked_error [OF q True])
    moreover have "dk_thread_ret h \<le> int n" using True by simp
    ultimately show ?thesis using q rf True
      by (intro exI [of _ "dk_thread_ret h"] exI [of _ buf] exI [of _ ?h] exI [of _ "if Q = [] then reset_device_event D h s else s"]
          exI [of _ Q]) (simp add: same_handle_def)
  next
    case ok: False
    show ?thesis
    proof (cases Q)
      case Nil
      with q ok read_locked_empty [of h D buf n s] show ?thesis
        by (intro exI [of _ 0] exI [of _ buf] exI [of _ h] exI [of _ s] exI [of _ Q]) simp
    next
      case (Cons rep Q')
      with q have q': "queue_of h (rep # Q')" by simp
      let ?buf = "take n rep @ drop (length (take n rep)) buf"
      obtain h' where h': "read_locked D buf n (h, s) = Some (int (min n (length rep)), ?buf, h',
            if Q' = [] then reset_device_event D h s else s)" "queue_of h' Q'" "same_handle h h'"
        using read_locked_report [OF q' ok n, of D s] by blast
      have "length ?buf = length buf" "drop n ?buf = drop n buf" using n by simp_all
      moreover have "take (nat (int (min n (length rep)))) ?buf = take n rep" by (simp add: min_def)
      ultimately show ?thesis using h' rf ok Cons
        by (intro exI [of _ "int (min n (length rep))"] exI [of _ ?buf] exI [of _ h']
            exI [of _ "if Q' = [] then reset_device_event D h s else s"] exI [of _ Q']) simp
    qed
  qed
qed

section \<open>Polling\<close>

lemma fill_fd_set_run:
  "\<forall>d \<in> set ds. 0 \<le> d \<Longrightarrow> if \<exists>d \<in> set ds. FD_SETSIZE \<le> d then \<exists>d. fill_fd_set ds fds = Some (Inl d)
     else fill_fd_set ds fds = Some (Inr (rev ds @ fds))"
  by (induction ds arbitrary: fds) auto

lemma first_set_run:
  assumes "length ids = length ds" and "\<exists>d \<in> set ds. d \<in> set ready"
  shows "\<exists>i < length ds. first_set ready ds ids = Some (ids ! i) \<and> ds ! i \<in> set ready \<and> (\<forall>j < i. ds ! j \<notin> set ready)"
  using assms
proof (induction ready ds ids rule: first_set.induct)
  case (1 ready d ds n ids)
  show ?case
  proof (cases "d \<in> set ready")
    case True
    then show ?thesis by (intro exI [of _ 0]) simp
  next
    case False
    with 1 obtain i where "i < length ds" "first_set ready ds ids = Some (ids ! i)" "ds ! i \<in> set ready" "\<forall>j < i. ds ! j \<notin> set ready"
      by auto
    with False show ?thesis by (intro exI [of _ "Suc i"]) (auto simp: less_Suc_eq_0_disj)
  qed
qed auto

lemma select_once_run:
  assumes fin: "darwin_waits_end D \<mu>"
  shows "\<exists>r s'. select_once D fds timeout start s = Some (r, s') \<and> os_frame s s' \<and> (\<exists>t w. r = fst (dw_select D fds t w)) \<and>
     (r = Inl EINTR \<longrightarrow> \<mu> (ext s') < \<mu> (ext s))"
proof -
  have sel: "\<mu> (snd (dw_select D fds t w)) < \<mu> w" if "fst (dw_select D fds t w) = Inl EINTR" for t w
    using fin that by (simp add: darwin_waits_end_def)
  show ?thesis
  proof (cases "timeout \<ge> 0")
    case True
    obtain t w where t: "hs_adjust_timeout (hs_millis_darwin D) timeout start s = Some (t, s\<lparr>ext := w\<rparr>)" "\<mu> w \<le> \<mu> (ext s)"
      using adjust_darwin_run [OF fin] by blast
    let ?tv = "Some (t sdiv 1000, t smod 1000 * 1000)"
    have "select_once D fds timeout start s = Some (fst (dw_select D fds ?tv w), s\<lparr>ext := snd (dw_select D fds ?tv w)\<rparr>)"
      using True t(1) by (simp add: select_once_def sys_eq)
    with sel [of ?tv w] t(2) show ?thesis by (auto simp: os_frame_def)
  next
    case False
    then have "select_once D fds timeout start s = Some (fst (dw_select D fds None (ext s)), s\<lparr>ext := snd (dw_select D fds None (ext s))\<rparr>)"
      by (simp add: select_once_def sys_eq)
    with sel [of None "ext s"] show ?thesis by (auto simp: os_frame_def)
  qed
qed

text \<open>The first of the entries whose descriptor is ready.\<close>

definition first_ready :: "(int \<times> int) list \<Rightarrow> int list \<Rightarrow> int \<Rightarrow> bool" where
  "first_ready es ready r \<longleftrightarrow> (\<exists>i < length es. fst (es ! i) \<in> set ready \<and> (\<forall>j < i. fst (es ! j) \<notin> set ready) \<and> r = snd (es ! i))"

lemma hs_poll_darwin_run:
  assumes fin: "darwin_waits_end D \<mu>" and sel: "select_ok D" and ok: "ds_ok dset" and ne: "entries dset \<noteq> []"
    and pos: "\<forall>e \<in> set (entries dset). 0 \<le> fst e"
  shows "\<exists>r s'. hs_poll_darwin D dset timeout s = Some (r, s') \<and>
     (if \<exists>e \<in> set (entries dset). FD_SETSIZE \<le> fst e then r = err_val HS_ERROR_SYSTEM
      else r = err_val HS_ERROR_SYSTEM \<or> r = 0 \<or>
        (\<exists>fds t w ready. fst (dw_select D fds t w) = Inr ready \<and> set fds = fst ` set (entries dset) \<and> first_ready (entries dset) ready r))"
proof -
  let ?n = "unat (ds_count dset)"
  let ?ds = "take ?n (ds_desc dset)" and ?ids = "take ?n (ds_id dset)"
  have n: "?n \<le> 64" "length (ds_desc dset) = 64" "length (ds_id dset) = 64" using ok by (simp_all add: ds_ok_def)
  have cnt: "ds_count dset \<noteq> 0" "ds_count dset \<le> 64"
    using ne length_entries [OF ok] n(1) by (auto simp: word_le_nat_alt entries_def)
  have ids: "?ids = map snd (entries dset)" and ds: "?ds = map fst (entries dset)"
    using n by (simp_all add: entries_def take_zip [symmetric] take_map [symmetric])
  have fill: "if \<exists>d \<in> set ?ds. FD_SETSIZE \<le> d then \<exists>d. fill_fd_set ?ds [] = Some (Inl d)
      else fill_fd_set ?ds [] = Some (Inr (rev ?ds @ []))"
    by (rule fill_fd_set_run) (use pos ds in auto)
  show ?thesis
  proof (cases "\<exists>e \<in> set (entries dset). FD_SETSIZE \<le> fst e")
    case True
    then obtain d where "fill_fd_set ?ds [] = Some (Inl d)" using fill ds by auto
    with cnt True show ?thesis by (simp add: hs_poll_darwin_def Let_def fail_with_eq)
  next
    case False
    then have f: "fill_fd_set ?ds [] = Some (Inr (rev ?ds))" using fill ds by auto
    have "snd (dw_timebase D) \<noteq> 0" using fin by (simp add: darwin_waits_end_def)
    then obtain start s1 where s1: "hs_millis_darwin D s = Some (start, s1)" using hs_millis_darwin_run by blast
    obtain x s2 where x: "retry_eintr (select_once D (rev ?ds) timeout start) s1 = Some (x, s2)"
        "\<exists>t w. x = fst (dw_select D (rev ?ds) t w)"
      using restarted_wait_run [where call = "select_once D (rev ?ds) timeout start"
          and P = "\<lambda>r. \<exists>t w. r = fst (dw_select D (rev ?ds) t w)", OF fin select_once_run [OF fin]] by blast
    obtain t w where tw: "fst (dw_select D (rev ?ds) t w) = x" using x(2) by auto
    note run = cnt f s1 x(1)
    show ?thesis
    proof (cases x)
      case (Inl e)
      with run False show ?thesis by (simp add: hs_poll_darwin_def Let_def fail_with_eq)
    next
      case (Inr ready)
      show ?thesis
      proof (cases "ready = []")
        case True
        with run Inr False show ?thesis by (simp add: hs_poll_darwin_def Let_def)
      next
        case ne: False
        have sub: "set ready \<subseteq> set ?ds" using sel tw Inr unfolding select_ok_def by fastforce
        have "hd ready \<in> set ready" using ne by simp
        then have some: "\<exists>d \<in> set ?ds. d \<in> set ready" using sub by blast
        have len: "length ?ids = length ?ds" using n by simp
        obtain i where i: "i < length ?ds" "first_set ready ?ds ?ids = Some (?ids ! i)" "?ds ! i \<in> set ready"
            "\<forall>j < i. ?ds ! j \<notin> set ready"
          using first_set_run [OF len some] by blast
        have "first_ready (entries dset) ready (?ids ! i)"
          using i unfolding first_ready_def ds ids by (intro exI [of _ i]) auto
        moreover have "set (rev ?ds) = fst ` set (entries dset)" using ds by simp
        ultimately have "\<exists>fds t w ready. fst (dw_select D fds t w) = Inr ready \<and> set fds = fst ` set (entries dset) \<and>
            first_ready (entries dset) ready (?ids ! i)"
          using tw Inr by blast
        moreover have "hs_poll_darwin D dset timeout s = Some (?ids ! i, s2)"
          using run Inr ne i(2) by (simp add: hs_poll_darwin_def Let_def)
        ultimately show ?thesis using False by auto
      qed
    qed
  qed
qed

section \<open>The clock\<close>

text \<open>Milliseconds, rounded down twice, as long as the ticks times the numerator fit 64 bits.\<close>

lemma ticks_millis_exact:
  assumes "unat t * unat n < 2 ^ 64" and "d \<noteq> 0"
  shows "unat (ticks_millis (n, d) t) = unat t * unat n div unat d div 1000000"
proof -
  have u: "unat (ucast n :: uint64) = unat n" "unat (ucast d :: uint64) = unat d"
    by (simp_all add: unsigned_ucast_eq take_bit_nat_eq_self unsigned_less [of _, THEN order.strict_trans])
  have "unat (t * ucast n) = unat t * unat n" using assms(1) u(1) by (simp add: unat_word_ariths)
  then show ?thesis by (simp add: ticks_millis_def unat_div u(2))
qed

end
