(* ===== verification/DarwinProperties.thy ===== *)
theory DarwinProperties
  imports ExampleDarwin WaitDarwin PlatformFeed
begin

text \<open>
  The properties of the macOS HID driver: what the reader gets of the reports that come in, when it is woken
  up, and what opening and closing do to devices and objects of the system.
\<close>

section \<open>Reports\<close>

text \<open>
  C15: in every interleaving of the callbacks and the reader, the reads return reports that came in, in their
  order and each once, cut to the size asked for; those that were not dropped and not yet read wait in
  the queue, which never holds more than 64.
\<close>

theorem darwin_reports_delivered:
  assumes "report_allocates nalloc" and "pipe_works D (dk_pipe h0) bytes cap"
    and "queue_of h0 []" and "\<not> dk_thread_ret h0 < 0" and "dk_hid h0 \<noteq> 0"
    and "darwin_course D nalloc bytes (h0, s0) A R p h s"
  shows "\<exists>T Q. queue_of h Q \<and> length Q \<le> 64 \<and> subseq (T @ Q) A \<and>
     list_all2 (\<lambda>(n, r, buf) rep. r = int (min n (length rep)) \<and> take (nat r) buf = take n rep) (filter (\<lambda>(n, r, buf). 0 < r) R) T"
proof -
  obtain T Q where t: "queue_of h Q" "subseq (T @ Q) A" "got_reports R T"
    using course_invariant [OF assms] by (rule course_invE)
  have "length Q \<le> 64" using t(1) by (auto simp: queue_of_def dest: queue_repD(5))
  with t show ?thesis unfolding got_reports_def by blast
qed

lemma ex_course:
  "\<exists>h s. darwin_course ex_darwin ex_report_alloc fst (ex_darwin_handle, ex_darwin_state) [[1, 7, 8]] [] True h s \<and> queue_of h [[1, 7, 8]] \<and>
     dk_hid h = 12 \<and> dk_thread_ret h = 0 \<and> dk_pipe h = (3, 4) \<and> ext s = (0, 0)"
proof -
  obtain h s Q where r: "report_locked ex_report_alloc 1 [7, 8, 9] (ex_darwin_handle, ex_darwin_state) = Some (([] :: uint8 list list) = [], h, s)"
      "same_handle ex_darwin_handle h" "queue_of h Q"
      "report_outcome ex_report_alloc ex_darwin_handle ex_darwin_state [] (queued_report ex_darwin_handle 1 [7, 8, 9]) h s Q"
    using report_locked_run [OF ex_report_allocates ex_darwin_handle_empty] by blast
  have qr: "queued_report ex_darwin_handle 1 [7, 8, 9] = [1, 7, 8]" by (simp add: queued_report_def ex_darwin_handle_sel)
  have "ex_report_alloc ex_darwin_handle = 60" by (simp add: ex_report_alloc_def ex_darwin_handle_def)
  with r(4) have o: "Q = [[1, 7, 8]]" "dk_thread_ret h = 0" "s = ex_darwin_state"
    by (simp_all add: report_outcome_def qr ex_darwin_handle_sel)
  have "darwin_course ex_darwin ex_report_alloc fst (ex_darwin_handle, ex_darwin_state) ([] @ [queued_report ex_darwin_handle 1 [7, 8, 9]]) [] True h s"
    by (rule dc_report [OF _ r(1) [simplified]]) (use dc_start [of ex_darwin ex_report_alloc fst "(ex_darwin_handle, ex_darwin_state)"] in simp)
  with r(2,3) o show ?thesis unfolding qr
    by (intro exI [of _ h] exI [of _ s]) (simp add: same_handle_def ex_darwin_handle_sel)
qed

lemma ex_darwin_start:
  "pipe_works ex_darwin (dk_pipe ex_darwin_handle) fst 512" "\<not> dk_thread_ret ex_darwin_handle < 0" "dk_hid ex_darwin_handle \<noteq> 0"
  by (rule ex_darwin_pipe) (simp_all add: ex_darwin_handle_sel)

theorem darwin_reports_delivered_witness:
  "\<exists>h s T Q. darwin_course ex_darwin ex_report_alloc fst (ex_darwin_handle, ex_darwin_state) [[1, 7, 8]] [] True h s \<and>
     queue_of h Q \<and> length Q \<le> 64 \<and> subseq (T @ Q) [[1, 7, 8]]"
proof -
  obtain h s where c: "darwin_course ex_darwin ex_report_alloc fst (ex_darwin_handle, ex_darwin_state) [[1, 7, 8]] [] True h s"
    using ex_course by blast
  from darwin_reports_delivered [OF ex_report_allocates ex_darwin_start(1) ex_darwin_handle_empty ex_darwin_start(2,3) c] c
  show ?thesis by blast
qed

text \<open>
  C16: no wake-up is lost. In every interleaving, whenever no callback is about to write, the pipe is readable
  if a report is waiting, if an error has been recorded, or if the device has been removed.
\<close>

theorem darwin_no_lost_wakeup:
  assumes "report_allocates nalloc" and "pipe_works D (dk_pipe h0) bytes cap"
    and "queue_of h0 []" and "\<not> dk_thread_ret h0 < 0" and "dk_hid h0 \<noteq> 0"
    and "darwin_course D nalloc bytes (h0, s0) A R False h s"
  shows "\<exists>Q. queue_of h Q \<and> (Q \<noteq> [] \<or> dk_thread_ret h < 0 \<or> dk_hid h = 0 \<longrightarrow> 0 < bytes (ext s))"
proof -
  obtain T Q where t: "queue_of h Q" "wakeups h Q \<le> bytes (ext s) + of_bool False"
    using course_invariant [OF assms] by (rule course_invE)
  then show ?thesis by (intro exI [of _ Q]) (auto simp: wakeups_def split: if_splits)
qed

theorem darwin_no_lost_wakeup_witness:
  "\<exists>h s. darwin_course ex_darwin ex_report_alloc fst (ex_darwin_handle, ex_darwin_state) [[1, 7, 8]] [] False h s \<and>
     (\<exists>Q. queue_of h Q \<and> (Q \<noteq> [] \<longrightarrow> 0 < fst (ext s)))"
proof -
  obtain h s where c: "darwin_course ex_darwin ex_report_alloc fst (ex_darwin_handle, ex_darwin_state) [[1, 7, 8]] [] True h s"
    using ex_course by blast
  from dc_fire [OF this]
  have f: "darwin_course ex_darwin ex_report_alloc fst (ex_darwin_handle, ex_darwin_state) [[1, 7, 8]] [] False h (fire_device_event ex_darwin h s)" .
  from darwin_no_lost_wakeup [OF ex_report_allocates ex_darwin_start(1) ex_darwin_handle_empty ex_darwin_start(2,3) f] f
  show ?thesis by blast
qed

text \<open>
  C18: the converse fails. When the reader takes a report between the critical section of the callback and its
  write, the byte is written with nothing left to read; it stays in the pipe for good, because a read that
  finds no report returns at once and does not reset the event.
\<close>

theorem darwin_stale_wakeup:
  assumes "report_allocates nalloc" and "pipe_works D (dk_pipe h0) bytes cap"
    and "queue_of h0 []" and "\<not> dk_thread_ret h0 < 0" and "bytes (ext s0) = 0" and "nalloc h0 \<noteq> NULL"
    and "0 < n" and "n \<le> length buf"
  shows "\<exists>h1 s1 r buf' h2 s2 s3. report_locked nalloc i data (h0, s0) = Some (True, h1, s1) \<and>
     read_locked D buf n (h1, s1) = Some (r, buf', h2, s2) \<and> 0 < r \<and> s3 = fire_device_event D h2 s2 \<and>
     queue_of h2 [] \<and> 0 < bytes (ext s3) \<and> (\<forall>b m. read_locked D b m (h2, s3) = Some (0, b, h2, s3))"
proof -
  obtain h1 s1 Q where r: "report_locked nalloc i data (h0, s0) = Some (True, h1, s1)" "same_handle h0 h1" "queue_of h1 Q"
      "report_outcome nalloc h0 s0 [] (queued_report h0 i data) h1 s1 Q"
    using report_locked_run [OF assms(1,3), of i data s0] by auto
  have q: "queue_of h1 [queued_report h0 i data]" and ok: "\<not> dk_thread_ret h1 < 0"
    using r(3,4) assms(4,6) by (auto simp: report_outcome_def)
  obtain h2 s2 buf' where x: "read_locked D buf n (h1, s1) = Some (int (min n (length (queued_report h0 i data))), buf', h2, s2)"
      "queue_of h2 []" "same_handle h1 h2" "dk_thread_ret h2 = dk_thread_ret h1"
    using read_locked_report [OF q ok assms(8), of D s1] by auto
  have "0 < min n (length (queued_report h0 i data))" using assms(7) by (simp add: queued_report_def)
  then have pos: "0 < int (min n (length (queued_report h0 i data)))" by simp
  have "pipe_works D (dk_pipe h2) bytes cap" using assms(2) r(2) x(3) by (simp add: same_handle_def)
  then have "0 < bytes (ext (fire_device_event D h2 s2))"
    using fire_bytes [of D h2 bytes cap s2] assms(2) by (auto simp: pipe_works_def)
  moreover have "read_locked D b m (h2, fire_device_event D h2 s2) = Some (0, b, h2, fire_device_event D h2 s2)" for b m
    using read_locked_empty [OF x(2)] ok x(4) by simp
  ultimately show ?thesis using r(1) x(1,2) pos by blast
qed

theorem darwin_stale_wakeup_witness:
  "\<exists>h1 s1 r buf' h2 s2. report_locked ex_report_alloc 1 [7] (ex_darwin_handle, ex_darwin_state) = Some (True, h1, s1) \<and>
     read_locked ex_darwin (replicate 4 0) 4 (h1, s1) = Some (r, buf', h2, s2) \<and> queue_of h2 [] \<and>
     0 < fst (ext (fire_device_event ex_darwin h2 s2))"
  using darwin_stale_wakeup [OF ex_report_allocates ex_darwin_start(1) ex_darwin_handle_empty ex_darwin_start(2), of ex_darwin_state
      4 "replicate 4 0" 1 "[7]"]
  by (auto simp: ex_darwin_handle_sel ex_report_alloc_def ex_darwin_handle_def)

section \<open>Opening and closing\<close>

text \<open>
  C17: opening a HID device on macOS returns, unless the thread cannot be created, when the locked mutex
  is destroyed. A failure leaves every device as it was and no object of the system behind, except that the
  thread is never joined if it could not create its source. A handle holds one reference and its objects;
  whatever the thread handles until then, closing it gives all of them back.
\<close>

theorem darwin_open_close:
  assumes "report_allocates nalloc" and "usable s dev d" and "d_state d = HS_DEVICE_STATUS_ONLINE"
    and "d_vtable d = Hs_darwin_hid_vtable" and "V Hs_darwin_hid_vtable = hs_darwin_hid_vtable D nalloc early es p"
    and "counted D live"
  shows "(\<exists>h s1. hs_device_open V dev s = Some (0, Some h, s1) \<and> dk_dev h = dev \<and>
       devs s1 = (devs s)(dev \<mapsto> d\<lparr>refcount := refcount d + 1\<rparr>) \<and> live (ext s1) = live (ext s) + holds h \<and>
       (\<forall>more. \<exists>h2 s2 s3. hid_dispatch D nalloc more (h, s1) = Some (h2, s2) \<and>
          hs_handle_close V dk_dev (Some h2) s2 = Some s3 \<and> devs s3 = devs s \<and> live (ext s3) = live (ext s))) \<or>
     (\<exists>r s1. hs_device_open V dev s = Some (r, None, s1) \<and> r < 0 \<and> devs s1 = devs s \<and>
       (live (ext s1) = live (ext s) \<or> live (ext s1) = live (ext s) + 1 \<and> (\<exists>l w. fst (dw_source_create D l w) = 0))) \<or>
     (\<exists>w. fst (dw_thread_create D w) \<noteq> 0) \<and> hs_device_open V dev s = None"
proof -
  have d: "dev \<noteq> 0" "devs s dev = Some d" using assms(2) by (simp_all add: usable_def)
  have o: "hs_device_open V dev s = open_hid_device D nalloc early es p dev s"
    using d assms(3-5) by (simp add: hs_device_open_def hs_darwin_hid_vtable_def)
  have close: "\<exists>h2 s2 s3. hid_dispatch D nalloc more (h, s1) = Some (h2, s2) \<and>
      hs_handle_close V dk_dev (Some h2) s2 = Some s3 \<and> devs s3 = devs s \<and> live (ext s3) = live (ext s)"
    if h: "dk_dev h = dev" "closable h" "lib_frame s s1" "devs s1 = (devs s)(dev \<mapsto> d\<lparr>refcount := refcount d + 1\<rparr>)"
      "live (ext s1) = live (ext s) + holds h" for h s1 more
  proof -
    obtain Q where "queue_of h Q" using h(2) by (auto simp: closable_def)
    from hid_dispatch_run [OF assms(1) this, of D more s1 live] obtain h2 s2 Q2 where
      2: "hid_dispatch D nalloc more (h, s1) = Some (h2, s2)" "kept h h2" "queue_of h2 Q2" "io_frame s1 s2"
        "steady live (h, s1) (h2, s2)" using assms(6) by blast
    have c2: "closable h2" "dk_dev h2 = dev" using 2(2,3) h(1,2) by (auto simp: closable_def kept_def)
    from close_hid_device_run [OF assms(1) c2(1), of D es s2 live] obtain s3 where
      3: "close_hid_device D nalloc es h2 s2 = hs_device_unref dev s3" "io_frame s2 s3" "live (ext s3) = live (ext s2) - holds h2"
      using c2(2) assms(6) by auto
    have fr: "devs s3 = (devs s)(dev \<mapsto> d\<lparr>refcount := refcount d + 1\<rparr>)" "lib_frame s s3"
      using h(3,4) 2(4) 3(2) by (auto simp: io_frame_def intro: lib_frame_trans)
    obtain s4 where s4: "hs_device_unref dev s3 = Some s4" "devs s4 = devs s" using unref_after_ref [OF assms(2) fr] by blast
    have "live (ext s4) = live (ext s)" using hs_device_unref_ext [OF s4(1)] 3(3) 2(5) h(5) by (simp add: steady_def)
    moreover have "devs s2 dev = Some (d\<lparr>refcount := refcount d + 1\<rparr>)" using 2(4) h(4) by (simp add: io_frame_def)
    then have "hs_handle_close V dk_dev (Some h2) s2 = Some s4"
      using c2(2) 3(1) s4(1) assms(4,5) by (simp add: hs_handle_close_def hs_darwin_hid_vtable_def)
    ultimately show ?thesis using 2(1) s4(2) by blast
  qed
  from open_hid_device_run [OF assms(1,2), of D live early es p] show ?thesis
    unfolding o open_ends_def open_done_def open_failed_def using close assms(6) by fastforce
qed

theorem darwin_open_close_witness:
  "let V = (\<lambda>v. hs_darwin_hid_vtable ex_darwin ex_report_alloc [] [Hid_removed] 30) in
   (\<exists>h s1 h2 s2 s3. hs_device_open V 8 ex_darwin_state = Some (0, Some h, s1) \<and>
      hid_dispatch ex_darwin ex_report_alloc [Hid_report kIOHIDReportTypeInput 1 [7]] (h, s1) = Some (h2, s2) \<and>
      hs_handle_close V dk_dev (Some h2) s2 = Some s3 \<and> devs s3 = devs ex_darwin_state \<and> snd (ext s3) = 0) \<or>
   (\<exists>r s1. hs_device_open V 8 ex_darwin_state = Some (r, None, s1) \<and> r < 0 \<and> snd (ext s1) = 0)"
proof -
  let ?V = "\<lambda>v. hs_darwin_hid_vtable ex_darwin ex_report_alloc [] [Hid_removed] 30"
  have d: "d_state ex_darwin_dev = HS_DEVICE_STATUS_ONLINE" "d_vtable ex_darwin_dev = Hs_darwin_hid_vtable"
    by (simp_all add: ex_darwin_dev_def)
  have "fst (dw_thread_create ex_darwin w) = 0" "fst (dw_source_create ex_darwin l w) \<noteq> 0" for l w
    by (simp_all add: ex_darwin_def ex_created_def)
  then have no: "\<not> (\<exists>w. fst (dw_thread_create ex_darwin w) \<noteq> 0)" "\<not> (\<exists>l w. fst (dw_source_create ex_darwin l w) = 0)" by blast+
  have V: "?V Hs_darwin_hid_vtable = hs_darwin_hid_vtable ex_darwin ex_report_alloc [] [Hid_removed] 30" by (rule refl)
  have z: "snd (ext ex_darwin_state) = 0" by (simp add: ex_darwin_handle_sel)
  from darwin_open_close [where V = ?V, OF ex_report_allocates ex_darwin_usable d V ex_darwin_counted] no
  consider h s1 where "hs_device_open ?V 8 ex_darwin_state = Some (0, Some h, s1)"
      "\<forall>more. \<exists>h2 s2 s3. hid_dispatch ex_darwin ex_report_alloc more (h, s1) = Some (h2, s2) \<and>
         hs_handle_close ?V dk_dev (Some h2) s2 = Some s3 \<and> devs s3 = devs ex_darwin_state \<and> snd (ext s3) = snd (ext ex_darwin_state)"
    | r s1 where "hs_device_open ?V 8 ex_darwin_state = Some (r, None, s1)" "r < 0" "snd (ext s1) = snd (ext ex_darwin_state)"
    by (elim disjE exE conjE) blast+
  then show ?thesis unfolding Let_def z by cases blast+
qed

section \<open>Reading and polling\<close>


lemma ex_darwin_waits: "darwin_waits_end ex_darwin (\<lambda>w. 0)"
  by (simp add: darwin_waits_end_def ex_darwin_def ex_darwin_posix_def)


text \<open>
  Polling on macOS always returns. A descriptor that does not fit an \<open>fd_set\<close> is an error before anything
  is waited for; otherwise the answer is an error, a timeout, or the identifier of the first entry whose
  descriptor the system has reported as ready.
\<close>

theorem darwin_poll_answers:
  assumes "darwin_waits_end D \<mu>" and "select_ok D" and "ds_ok dset" and "entries dset \<noteq> []"
    and "\<forall>e \<in> set (entries dset). 0 \<le> fst e"
  shows "\<exists>r s'. hs_poll_darwin D dset timeout s = Some (r, s') \<and>
     (if \<exists>e \<in> set (entries dset). FD_SETSIZE \<le> fst e then r = err_val HS_ERROR_SYSTEM
      else r = err_val HS_ERROR_SYSTEM \<or> r = 0 \<or>
        (\<exists>fds t w ready. fst (dw_select D fds t w) = Inr ready \<and> set fds = fst ` set (entries dset) \<and> first_ready (entries dset) ready r))"
  using assms by (rule hs_poll_darwin_run)

theorem darwin_poll_answers_witness:
  "\<exists>r s'. hs_poll_darwin ex_darwin \<lparr>ds_count = 2, ds_desc = 1024 # 3 # replicate 62 0, ds_id = 7 # 9 # replicate 62 0\<rparr> 10
     ex_darwin_state = Some (r, s') \<and> r = -5"
proof -
  let ?d = "\<lparr>ds_count = 2, ds_desc = 1024 # 3 # replicate 62 0, ds_id = 7 # 9 # replicate 62 0\<rparr> :: int descriptor_set"
  have "unat (2 :: uint32) = Suc (Suc 0)" by simp
  then have "entries ?d = [(1024, 7), (3, 9)]" unfolding entries_def descriptor_set.simps by simp
  moreover have "ds_ok ?d" by (simp add: ds_ok_def)
  moreover have "select_ok ex_darwin" by (auto simp: select_ok_def ex_darwin_def)
  ultimately show ?thesis
    using darwin_poll_answers [OF ex_darwin_waits, of ?d 10 ex_darwin_state] by (simp add: FD_SETSIZE_def)
qed

text \<open>
  A write hands the device the report without its number 0, or with any other, and counts the number
  either way.
\<close>

theorem darwin_write_counts:
  assumes "hid_device (dk_dev h) s = Some d" and "dk_hid h \<noteq> 0" and "2 \<le> n" and "n \<le> length buf"
    and "fst (dw_set_report D (dk_hid h) kIOHIDReportTypeOutput (hd buf) (if hd buf = 0 then drop 1 (take n buf) else take n buf) (ext s))"
  shows "\<exists>s'. hs_hid_write_darwin D h buf n s = Some (int n, s')"
proof -
  obtain b bs where b: "buf = b # bs" using assms(3,4) by (cases buf) auto
  obtain m where m: "n = Suc m" using assms(3) by (cases n) auto
  show ?thesis
    using assms b m by (auto simp: hs_hid_write_darwin_def send_report_def sys_eq buf_read_def min_def)
qed

end
