(* ===== verification/RegistryDarwin.thy ===== *)
theory RegistryDarwin
  imports PlatformDarwin PlatformFeed Locations
begin

text \<open>
  Model of the first half of \<open>src/monitor_darwin.c\<close>: how a device structure is made of an entry of the
  registry of IOKit, and the enumeration. The calls of IOKit are functions of a record; entries of the
  registry, iterators and objects of CoreFoundation are numbers, and 0 is none.
\<close>

section \<open>The registry\<close>

text \<open>
  The objects of CoreFoundation by type. A string has the size it needs at most in UTF-8, and its text if it
  can be converted.
\<close>

datatype cf_value =
  CF_String nat "string option" | CF_Data "uint8 list" | CF_Number int | CF_Other

datatype plane = kIOServicePlane | kIOUSBPlane

text \<open>
  A property comes with the number of its object, which is released after its use. \<open>io_parent\<close> is the next
  entry on the way to the root, \<open>io_next\<close> the next entry of an iterator; both give a reference of its own.
\<close>

record 'w iokit =
  io_os :: "'w darwin_os"
  io_property :: "nat \<Rightarrow> string \<Rightarrow> 'w \<Rightarrow> (nat \<times> cf_value) option \<times> 'w"
  io_conforms :: "nat \<Rightarrow> string \<Rightarrow> 'w \<Rightarrow> bool \<times> 'w"
  io_path :: "nat \<Rightarrow> plane \<Rightarrow> 'w \<Rightarrow> (int + string) \<times> 'w"
  io_parent :: "nat \<Rightarrow> plane \<Rightarrow> 'w \<Rightarrow> nat option \<times> 'w"
  io_retain :: "nat \<Rightarrow> 'w \<Rightarrow> 'w"
  io_next :: "nat \<Rightarrow> 'w \<Rightarrow> nat \<times> 'w"
  io_matching :: "string \<Rightarrow> 'w \<Rightarrow> nat option \<times> 'w"

definition io_release :: "'w iokit \<Rightarrow> nat \<Rightarrow> 'w hs_state \<Rightarrow> 'w hs_state" where
  "io_release K obj s = sys_do (dw_object_release (io_os K) obj) s"

text \<open>The version of the system does not change, so the static variables that cache the answer are left out.\<close>

definition uses_new_stack :: "'w iokit \<Rightarrow> bool" where
  "uses_new_stack K \<longleftrightarrow> hs_darwin_version (io_os K) 0 \<ge> 150000"

definition correct_class :: "'w iokit \<Rightarrow> 'a \<Rightarrow> 'a \<Rightarrow> 'a" where
  "correct_class K new_stack old_stack = (if uses_new_stack K then new_stack else old_stack)"

definition device_classes_darwin :: "(string \<times> string) list" where
  "device_classes_darwin = [(''IOHIDDevice'', ''IOUSBHostHIDDevice''), (''IOSerialBSDClient'', ''IOSerialBSDClient'')]"

section \<open>Properties\<close>

text \<open>The results are those of the C functions, with what they store at the pointer they are given.\<close>

definition get_ioregistry_value_string ::
  "'w iokit \<Rightarrow> nat \<Rightarrow> string \<Rightarrow> 'w hs_state \<Rightarrow> int \<times> string option \<times> 'w hs_state" where
  "get_ioregistry_value_string K service prop s =
     (case sys (io_property K service prop) s of
        (None, s) \<Rightarrow> (0, None, s)
      | (Some (data, v), s) \<Rightarrow>
          (let (r, str, s) =
             (case v of
                CF_String room text \<Rightarrow>
                  (case sys (dw_malloc (io_os K) (room + 1)) s of
                     (False, s) \<Rightarrow> (let (r, s) = fail_with HS_ERROR_MEMORY None s in (r, None, s))
                   | (True, s) \<Rightarrow> (case text of None \<Rightarrow> (0, None, s) | Some str \<Rightarrow> (1, Some str, s)))
              | _ \<Rightarrow> (0, None, s)) in
           (r, str, sys_do (dw_release (io_os K) data) s)))"

text \<open>The bytes that are copied; their number is the result.\<close>

definition get_ioregistry_value_data ::
  "'w iokit \<Rightarrow> nat \<Rightarrow> string \<Rightarrow> nat \<Rightarrow> 'w hs_state \<Rightarrow> uint8 list \<times> 'w hs_state" where
  "get_ioregistry_value_data K service prop n s =
     (case sys (io_property K service prop) s of
        (None, s) \<Rightarrow> ([], s)
      | (Some (data, v), s) \<Rightarrow>
          ((case v of CF_Data bytes \<Rightarrow> take n bytes | _ \<Rightarrow> []), sys_do (dw_release (io_os K) data) s))"

definition get_ioregistry_value_number ::
  "'w iokit \<Rightarrow> nat \<Rightarrow> string \<Rightarrow> number_type \<Rightarrow> 'w hs_state \<Rightarrow> bool \<times> int option \<times> 'w hs_state" where
  "get_ioregistry_value_number K service prop type s =
     (case sys (io_property K service prop) s of
        (None, s) \<Rightarrow> (False, None, s)
      | (Some (data, v), s) \<Rightarrow>
          (let (r, n) = (case v of CF_Number n \<Rightarrow> (let (r, n) = dw_number (io_os K) type n in (r, Some n)) | _ \<Rightarrow> (False, None)) in
           (r, n, sys_do (dw_release (io_os K) data) s)))"

definition get_ioregistry_entry_path ::
  "'w iokit \<Rightarrow> nat \<Rightarrow> 'w hs_state \<Rightarrow> int \<times> string option \<times> 'w hs_state" where
  "get_ioregistry_entry_path K service s =
     (case sys (io_path K service kIOServicePlane) s of
        (Inl kret, s) \<Rightarrow> (let (r, s) = fail_with HS_ERROR_SYSTEM (Some ''IORegistryEntryGetPath() failed'') s in (r, None, s))
      | (Inr buf, s) \<Rightarrow>
          (case sys (dw_malloc (io_os K) (length buf + 1)) s of
             (False, s) \<Rightarrow> (let (r, s) = fail_with HS_ERROR_MEMORY None s in (r, None, s))
           | (True, s) \<Rightarrow> (0, Some buf, s)))"

partial_function (option) clear_iterator :: "'w iokit \<Rightarrow> nat \<Rightarrow> 'w hs_state \<Rightarrow> 'w hs_state option" where
  "clear_iterator K it s =
     (let (obj, s) = sys (io_next K it) s in
      if obj = 0 then Some s else clear_iterator K it (io_release K obj s))"

section \<open>Locations\<close>

definition build_location_string_darwin ::
  "'w iokit \<Rightarrow> uint8 list \<Rightarrow> nat \<Rightarrow> 'w hs_state \<Rightarrow> (int \<times> string option \<times> 'w hs_state) option" where
  "build_location_string_darwin K ports depth s = do {
     buf \<leftarrow> location_string ports depth;
     case sys (dw_malloc (io_os K) (length buf + 1)) s of
       (False, s) \<Rightarrow> (let (r, s) = fail_with HS_ERROR_MEMORY None s in Some (r, None, s))
     | (True, s) \<Rightarrow> Some (0, Some buf, s)
   }"

definition find_controller_darwin :: "'w iokit \<Rightarrow> controllers \<Rightarrow> nat \<Rightarrow> 'w hs_state \<Rightarrow> uint8 \<times> 'w hs_state" where
  "find_controller_darwin K cs service s =
     (case sys (io_path K service (correct_class K kIOServicePlane kIOUSBPlane)) s of
        (Inl kret, s) \<Rightarrow> (0, s)
      | (Inr path, s) \<Rightarrow> (find_controller path cs, s))"

definition get_parent_and_release :: "'w iokit \<Rightarrow> nat \<Rightarrow> plane \<Rightarrow> 'w hs_state \<Rightarrow> nat \<times> 'w hs_state" where
  "get_parent_and_release K service plane s =
     (let (res, s) = sys (io_parent K service plane) s; s = io_release K service s in
      (case res of None \<Rightarrow> 0 | Some parent \<Rightarrow> parent, s))"

text \<open>The ports are the first \<open>depth\<close> elements of the array, which has 16.\<close>

definition add_port :: "'w iokit \<Rightarrow> nat \<Rightarrow> uint8 list \<Rightarrow> 'w hs_state \<Rightarrow> (uint8 list \<times> 'w hs_state) option" where
  "add_port K service ports s = do {
     c_assert (length ports < 16);
     if uses_new_stack K then
       (let (bytes, s) = get_ioregistry_value_data K service ''port'' 1 s in Some (ports @ bytes, s))
     else
       (let (r, n, s) = get_ioregistry_value_number K service ''PortNum'' kCFNumberSInt8Type s in
        Some (ports @ (case n of Some n \<Rightarrow> if r then [word_of_int n] else [] | None \<Rightarrow> []), s))
   }"

text \<open>The loop: the entry where it ends, and the ports, unless there are too many.\<close>

partial_function (option) location_rounds ::
  "'w iokit \<Rightarrow> nat \<Rightarrow> uint8 list \<Rightarrow> 'w hs_state \<Rightarrow> (nat \<times> uint8 list option \<times> 'w hs_state) option" where
  "location_rounds K service ports s = do {
     (ports, s) \<leftarrow> add_port K service ports s;
     if length ports = 16 then Some (service, None, warn ''Excessive USB location depth, ignoring device'' s)
     else do {
       let (service, s) = get_parent_and_release K service (correct_class K kIOServicePlane kIOUSBPlane) s;
       if service = 0 then Some (0, Some ports, s)
       else do {
         let (found, s) = sys (io_conforms K service (correct_class K ''AppleUSBHostController'' ''IOUSBRootHubDevice'')) s;
         if found then Some (service, Some ports, s) else location_rounds K service ports s
       }
     }
   }"

definition finish_location ::
  "'w iokit \<Rightarrow> controllers \<Rightarrow> nat \<Rightarrow> uint8 list option \<Rightarrow> 'w hs_state \<Rightarrow> (int \<times> string option \<times> 'w hs_state) option" where
  "finish_location K cs service ports s =
     (case ports of
        None \<Rightarrow> Some (0, None, s)
      | Some ports \<Rightarrow>
          if ports = [] then Some (0, None, warn ''Failed to build USB device location string, ignoring'' s)
          else do {
            c_assert (length ports < 16);
            let (index, s) = find_controller_darwin K cs service s;
            if index = 0 then Some (0, None, warn ''Cannot find matching USB Host controller, ignoring device'' s)
            else do {
              let ports = ports @ [index];
              (r, loc, s) \<leftarrow> build_location_string_darwin K (swap_ports ports (length ports)) (length ports) s;
              Some (if r < 0 then r else 1, loc, s)
            }
          })"

definition resolve_device_location_darwin ::
  "'w iokit \<Rightarrow> controllers \<Rightarrow> nat \<Rightarrow> 'w hs_state \<Rightarrow> (int \<times> string option \<times> 'w hs_state) option" where
  "resolve_device_location_darwin K cs service s = do {
     let s = sys_do (io_retain K service) s;
     (service, ports, s) \<leftarrow> location_rounds K service [] s;
     (r, loc, s) \<leftarrow> finish_location K cs service ports s;
     Some (r, loc, if service \<noteq> 0 then io_release K service s else s)
   }"

section \<open>Descriptions\<close>

partial_function (option) conforming_loop ::
  "'w iokit \<Rightarrow> string \<Rightarrow> nat \<Rightarrow> 'w hs_state \<Rightarrow> (nat \<times> 'w hs_state) option" where
  "conforming_loop K cls service s =
     (let (service, s) = get_parent_and_release K service kIOServicePlane s in
      if service = 0 then Some (0, s)
      else
        (let (found, s) = sys (io_conforms K service cls) s in
         if found then Some (service, s) else conforming_loop K cls service s))"

definition find_conforming_parent :: "'w iokit \<Rightarrow> nat \<Rightarrow> string \<Rightarrow> 'w hs_state \<Rightarrow> (nat \<times> 'w hs_state) option" where
  "find_conforming_parent K service cls s = conforming_loop K cls service (sys_do (io_retain K service) s)"

definition find_device_node_darwin ::
  "'w iokit \<Rightarrow> hs_device \<Rightarrow> nat \<Rightarrow> 'w hs_state \<Rightarrow> int \<times> hs_device \<times> 'w hs_state" where
  "find_device_node_darwin K d service s =
     (let (serial, s) = sys (io_conforms K service ''IOSerialBSDClient'') s in
      if serial then
        (let d = d\<lparr>d_type := HS_DEVICE_TYPE_SERIAL, d_vtable := Hs_posix_device_vtable\<rparr>;
             (r, path, s) = get_ioregistry_value_string K service ''IOCalloutDevice'' s in
         (r, if r = 1 then d\<lparr>d_path := path\<rparr> else d,
          if r = 0 then warn (''Serial device does not have property '' @ sq ''IOCalloutDevice'') s else s))
      else
        (let (hid, s) = sys (io_conforms K service ''IOHIDDevice'') s in
         if hid then
           (let d = d\<lparr>d_type := HS_DEVICE_TYPE_HID, d_vtable := Hs_darwin_hid_vtable\<rparr>;
                (r, path, s) = get_ioregistry_entry_path K service s in
            if r = 0 then (1, d\<lparr>d_path := path\<rparr>, s) else (r, d, s))
         else (0, d, warn ''Cannot find device node for unknown device entry class'' s)))"

text \<open>
  The numbers are read as 64 bits, but the fields have 16 and 8: on the little-endian machines macOS runs on,
  the eight bytes at \<open>vid\<close> cover \<open>vid\<close>, \<open>pid\<close> and the padding behind them, those at \<open>pid\<close> reach to the first
  two bytes of the pointer \<open>manufacturer\<close>, which is null then, and those at \<open>iface\<close> end with the structure. A
  write that changes the pointer is undefined.
\<close>

definition put_vid :: "int option \<Rightarrow> hs_device \<Rightarrow> hs_device" where
  "put_vid n d = (case n of None \<Rightarrow> d | Some n \<Rightarrow> d\<lparr>d_vid := word_of_int n, d_pid := word_of_int (drop_bit 16 n)\<rparr>)"

definition put_pid :: "int option \<Rightarrow> hs_device \<Rightarrow> hs_device option" where
  "put_pid n d =
     (case n of
        None \<Rightarrow> Some d
      | Some n \<Rightarrow> do {
          c_assert (drop_bit 48 (word_of_int n :: uint64) = 0);
          Some (d\<lparr>d_pid := word_of_int n\<rparr>)
        })"

definition put_iface :: "int option \<Rightarrow> hs_device \<Rightarrow> hs_device" where
  "put_iface n d = (case n of None \<Rightarrow> d | Some n \<Rightarrow> d\<lparr>d_iface := word_of_int n\<rparr>)"

text \<open>\<open>GET_PROPERTY_NUMBER\<close>\<close>

definition get_property_number ::
  "'w iokit \<Rightarrow> nat \<Rightarrow> string \<Rightarrow> 'w hs_state \<Rightarrow> bool \<times> int option \<times> 'w hs_state" where
  "get_property_number K service key s =
     (let (r, n, s) = get_ioregistry_value_number K service key kCFNumberSInt64Type s in
      (r, n, if r then s else warn (''Missing property '' @ sq key @ '', ignoring device'') s))"

text \<open>The session, if all numbers are there, and the device with those that are.\<close>

definition fill_numbers ::
  "'w iokit \<Rightarrow> nat \<Rightarrow> nat \<Rightarrow> hs_device \<Rightarrow> 'w hs_state \<Rightarrow> (uint64 option \<times> hs_device \<times> 'w hs_state) option" where
  "fill_numbers K usb iface d s = do {
     let (r, session, s) = get_property_number K usb ''sessionID'' s;
     if \<not> r then Some (None, d, s)
     else do {
       let (r, n, s) = get_property_number K usb ''idVendor'' s;
       let d = put_vid n d;
       if \<not> r then Some (None, d, s)
       else do {
         let (r, n, s) = get_property_number K usb ''idProduct'' s;
         d \<leftarrow> put_pid n d;
         if \<not> r then Some (None, d, s)
         else do {
           let (r, n, s) = get_property_number K iface ''bInterfaceNumber'' s;
           Some (if r then map_option word_of_int session else None, put_iface n d, s)
         }
       }
     }
   }"

text \<open>\<open>GET_PROPERTY_STRING\<close>: the value the function would return, 0 to go on.\<close>

definition get_property_string ::
  "'w iokit \<Rightarrow> nat \<Rightarrow> string \<Rightarrow> (string option \<Rightarrow> hs_device \<Rightarrow> hs_device) \<Rightarrow> hs_device \<Rightarrow> 'w hs_state
     \<Rightarrow> int \<times> hs_device \<times> 'w hs_state" where
  "get_property_string K service key upd d s =
     (let (r, str, s) = get_ioregistry_value_string K service key s in
      (if r < 0 then r else 0, if r = 1 then upd str d else d, s))"

definition fill_strings_darwin ::
  "'w iokit \<Rightarrow> nat \<Rightarrow> hs_device \<Rightarrow> 'w hs_state \<Rightarrow> int \<times> hs_device \<times> 'w hs_state" where
  "fill_strings_darwin K usb d s =
     (let (r, d, s) = get_property_string K usb ''USB Vendor Name'' (\<lambda>x d. d\<lparr>d_manufacturer := x\<rparr>) d s in
      if r < 0 then (r, d, s)
      else
        (let (r, d, s) = get_property_string K usb ''USB Product Name'' (\<lambda>x d. d\<lparr>d_product := x\<rparr>) d s in
         if r < 0 then (r, d, s)
         else get_property_string K usb ''USB Serial Number'' (\<lambda>x d. d\<lparr>d_serial := x\<rparr>) d s))"

text \<open>The text of a session, \<open>PRIx64\<close>.\<close>

definition session_key :: "uint64 \<Rightarrow> string" where
  "session_key session = show_nat 16 (unat session)"

definition fill_darwin_device ::
  "'w iokit \<Rightarrow> controllers \<Rightarrow> nat \<Rightarrow> nat \<Rightarrow> nat \<Rightarrow> hs_device \<Rightarrow> 'w hs_state \<Rightarrow> (int \<times> hs_device \<times> 'w hs_state) option" where
  "fill_darwin_device K cs service usb iface d s = do {
     (session, d, s) \<leftarrow> fill_numbers K usb iface d s;
     case session of
       None \<Rightarrow> Some (0, d, s)
     | Some session \<Rightarrow>
         (case sys (dw_malloc (io_os K) (length (session_key session) + 1)) s of
            (False, s) \<Rightarrow> (let (r, s) = fail_with HS_ERROR_MEMORY None s in Some (r, d, s))
          | (True, s) \<Rightarrow> do {
              let d = d\<lparr>d_key := Some (session_key session)\<rparr>;
              let (r, d, s) = fill_strings_darwin K usb d s;
              if r < 0 then Some (r, d, s)
              else do {
                (r, loc, s) \<leftarrow> resolve_device_location_darwin K cs usb s;
                if r \<le> 0 then Some (r, d, s)
                else Some (find_device_node_darwin K (d\<lparr>d_location := loc\<rparr>) service s)
              }
            })
   }"

text \<open>
  As on the other systems the structure enters the store of devices filled, and is dropped again when there
  is no result; \<open>alloc s\<close> is the result of \<open>calloc\<close>.
\<close>

definition process_darwin_device ::
  "'w iokit \<Rightarrow> ('w hs_state \<Rightarrow> addr) \<Rightarrow> controllers \<Rightarrow> nat \<Rightarrow> 'w hs_state \<Rightarrow> (int \<times> addr \<times> 'w hs_state) option" where
  "process_darwin_device K alloc cs service s = do {
     (iface, s) \<leftarrow> find_conforming_parent K service ''IOUSBInterface'' s;
     if iface = 0 then Some (0, NULL, s)
     else do {
       (usb, s) \<leftarrow> find_conforming_parent K iface ''IOUSBDevice'' s;
       if usb = 0 then Some (0, NULL, io_release K iface s)
       else do {
         (r, p, s) \<leftarrow>
           (if alloc s = NULL then (let (r, s) = fail_with HS_ERROR_MEMORY None s in Some (r, NULL, s))
            else do {
              let p = alloc s;
              (r, d, s) \<leftarrow> fill_darwin_device K cs service usb iface (zero_device\<lparr>refcount := 1\<rparr>) s;
              let s = device_alloc p d s;
              if r \<le> 0 then do { s \<leftarrow> hs_device_unref p s; Some (r, NULL, s) }
              else Some (1, p, s)
            });
         Some (r, p, io_release K iface (io_release K usb s))
       }
     }
   }"

section \<open>Enumeration\<close>

text \<open>\<open>f\<close> is the callback with its user data.\<close>

partial_function (option) process_iterator_devices ::
  "'w iokit \<Rightarrow> ('w hs_state \<Rightarrow> addr) \<Rightarrow> controllers \<Rightarrow> (addr \<Rightarrow> 'w hs_state \<Rightarrow> (int \<times> 'w hs_state) option) \<Rightarrow> nat
     \<Rightarrow> 'w hs_state \<Rightarrow> (int \<times> 'w hs_state) option" where
  "process_iterator_devices K alloc cs f it s = do {
     let (service, s) = sys (io_next K it) s;
     if service = 0 then Some (0, s)
     else do {
       (r, dev, s) \<leftarrow> process_darwin_device K alloc cs service s;
       let s = io_release K service s;
       if r < 0 then Some (r, s)
       else if r = 0 then process_iterator_devices K alloc cs f it s
       else do {
         (r, s) \<leftarrow> f dev s;
         s \<leftarrow> hs_device_unref dev s;
         if r \<noteq> 0 then Some (r, s) else process_iterator_devices K alloc cs f it s
       }
     }
   }"

text \<open>
  The buffer for the path of a controller has the 128 bytes of an \<open>io_name_t\<close>; a longer path is written
  beyond its end.
\<close>

definition add_controller_darwin ::
  "'w iokit \<Rightarrow> nat \<Rightarrow> uint8 \<Rightarrow> controllers \<Rightarrow> 'w hs_state \<Rightarrow> (int \<times> controllers \<times> 'w hs_state) option" where
  "add_controller_darwin K service index cs s =
     (case sys (io_path K service (correct_class K kIOServicePlane kIOUSBPlane)) s of
        (Inl kret, s) \<Rightarrow> Some (0, cs, warn (''IORegistryEntryGetPath() failed: '' @ (if kret < 0 then ''-'' else []) @ show_nat 10 (nat \<bar>kret\<bar>)) s)
      | (Inr path, s) \<Rightarrow> do {
          c_assert (length path < 128);
          case sys (dw_malloc (io_os K) 536) s of
            (False, s) \<Rightarrow> (let (r, s) = fail_with HS_ERROR_MEMORY None s in Some (r, cs, s))
          | (True, s) \<Rightarrow> Some (1, (path, index) # cs, s)
        })"

partial_function (option) controllers_loop_darwin ::
  "'w iokit \<Rightarrow> nat \<Rightarrow> uint8 \<Rightarrow> controllers \<Rightarrow> 'w hs_state \<Rightarrow> (int \<times> controllers \<times> 'w hs_state) option" where
  "controllers_loop_darwin K it index cs s =
     (let (service, s) = sys (io_next K it) s in
      if service = 0 then Some (0, cs, s)
      else if index = 255 then Some (0, cs, warn ''Reached maximum controller ID 255, ignoring'' s)
      else do {
        (r, cs, s) \<leftarrow> add_controller_darwin K service (index + 1) cs s;
        let s = io_release K service s;
        if r < 0 then Some (r, cs, s) else controllers_loop_darwin K it (index + 1) cs s
      })"

text \<open>The lock makes the function atomic.\<close>

definition drop_iterator :: "'w iokit \<Rightarrow> nat \<Rightarrow> 'w hs_state \<Rightarrow> 'w hs_state option" where
  "drop_iterator K it s = do {
     s \<leftarrow> clear_iterator K it s;
     Some (io_release K it s)
   }"

definition populate_controllers_darwin ::
  "'w iokit \<Rightarrow> controllers \<Rightarrow> 'w hs_state \<Rightarrow> (int \<times> controllers \<times> 'w hs_state) option" where
  "populate_controllers_darwin K cs s =
     (if cs \<noteq> [] then Some (0, cs, s)
      else
        (case sys (io_matching K (correct_class K ''AppleUSBHostController'' ''IOUSBRootHubDevice'')) s of
           (None, s) \<Rightarrow>
             (let (r, s) = fail_with HS_ERROR_SYSTEM (Some ''IOServiceGetMatchingServices() failed'') s in Some (r, cs, s))
         | (Some it, s) \<Rightarrow> do {
             (r, cs, s) \<leftarrow> controllers_loop_darwin K it 0 cs s;
             s \<leftarrow> (if it \<noteq> 0 then drop_iterator K it s else Some s);
             Some (r, cs, s)
           }))"

fun enumerate_classes_darwin ::
  "'w iokit \<Rightarrow> ('w hs_state \<Rightarrow> addr) \<Rightarrow> controllers \<Rightarrow> (addr \<Rightarrow> 'w hs_state \<Rightarrow> (int \<times> 'w hs_state) option)
     \<Rightarrow> (string \<times> string) list \<Rightarrow> 'w hs_state \<Rightarrow> (int \<times> 'w hs_state) option" where
  "enumerate_classes_darwin K alloc cs f [] s = Some (0, s)"
| "enumerate_classes_darwin K alloc cs f ((old_stack, new_stack) # rest) s =
     (let cls = correct_class K new_stack old_stack in
      case sys (io_matching K cls) s of
        (None, s) \<Rightarrow> Some (fail_with HS_ERROR_SYSTEM (Some (''IOServiceGetMatchingServices('' @ sq cls @ '') failed'')) s)
      | (Some it, s) \<Rightarrow> do {
          (r, s) \<leftarrow> process_iterator_devices K alloc cs f it s;
          if r \<noteq> 0 then do {
            s \<leftarrow> (if it \<noteq> 0 then drop_iterator K it s else Some s);
            Some (r, s)
          }
          else enumerate_classes_darwin K alloc cs f rest (io_release K it s)
        })"

definition hs_enumerate_darwin ::
  "'w iokit \<Rightarrow> ('w hs_state \<Rightarrow> addr) \<Rightarrow> 'w callback_fun \<Rightarrow> fptr \<Rightarrow> udata \<Rightarrow> controllers \<Rightarrow> 'w hs_state
     \<Rightarrow> (int \<times> controllers \<times> 'w hs_state) option" where
  "hs_enumerate_darwin K alloc call f udata cs s = do {
     c_assert (f \<noteq> NULL);
     (r, cs, s) \<leftarrow> populate_controllers_darwin K cs s;
     if r < 0 then Some (r, cs, s)
     else do {
       (r, s) \<leftarrow> enumerate_classes_darwin K alloc cs (\<lambda>dev. call f dev udata) device_classes_darwin s;
       Some (r, cs, s)
     }
   }"

end
