(* ===== verification/MonitorDarwin.thy ===== *)
theory MonitorDarwin
  imports RegistryDarwin
begin

text \<open>
  Model of the second half of \<open>src/monitor_darwin.c\<close>: the monitor, its notifications and the messages that
  bring them. A message is for one notification, whose function IOKit calls with its iterator; the model of a
  message is this call. The variables of the file and the fields of \<open>struct hs_monitor\<close> that
  are not those of \<open>monitor.c\<close> are a record, beside the state of the library.
\<close>

section \<open>The system\<close>

datatype notification = kIOFirstMatchNotification | kIOTerminatedNotification

datatype callout = Devices_attached nat | Devices_detached nat

datatype mach_result = MACH_RCV_TIMED_OUT | MACH_RCV_FAILED | MACH_MSG_SUCCESS callout

text \<open>
  \<open>dn_notify\<close> is \<open>IOServiceAddMatchingNotification\<close>; the callback is named by the constructor of its calls.
  \<open>dn_kevent\<close> gives the filter of the event that is pending, if there is one.
\<close>

record 'w darwin_notify =
  dn_kit :: "'w iokit"
  dn_port_create :: "'w \<Rightarrow> nat \<times> 'w"
  dn_port_destroy :: "nat \<Rightarrow> 'w \<Rightarrow> 'w"
  dn_notify :: "nat \<Rightarrow> notification \<Rightarrow> string \<Rightarrow> (nat \<Rightarrow> callout) \<Rightarrow> 'w \<Rightarrow> nat option \<times> 'w"
  dn_kqueue :: "'w \<Rightarrow> (errno + int) \<times> 'w"
  dn_set_allocate :: "'w \<Rightarrow> nat option \<times> 'w"
  dn_set_deallocate :: "nat \<Rightarrow> 'w \<Rightarrow> 'w"
  dn_insert_member :: "nat \<Rightarrow> nat \<Rightarrow> 'w \<Rightarrow> bool \<times> 'w"
  dn_kevent_add :: "int \<Rightarrow> nat \<Rightarrow> 'w \<Rightarrow> errno option \<times> 'w"
  dn_kevent :: "int \<Rightarrow> 'w \<Rightarrow> (errno + int option) \<times> 'w"
  dn_receive :: "nat \<Rightarrow> 'w \<Rightarrow> mach_result \<times> 'w"
  dn_errno :: "errno \<Rightarrow> nat"

abbreviation dn_os :: "'w darwin_notify \<Rightarrow> 'w posix_os" where
  "dn_os N \<equiv> dw_posix (io_os (dn_kit N))"

definition EVFILT_MACHPORT :: int where "EVFILT_MACHPORT = -8"

section \<open>State\<close>

text \<open>\<open>dm_iterators\<close> are the first \<open>iterator_count\<close> elements of the array, which has 8.\<close>

record darwin_monitor =
  dm_port :: nat
  dm_iterators :: "nat list"
  dm_notify_ret :: int
  dm_kqfd :: int
  dm_port_set :: nat

record darwin_vars =
  dv_controllers :: controllers
  dv_mons :: "addr \<rightharpoonup> darwin_monitor"

type_synonym 'w darwin_all = "darwin_vars \<times> 'w hs_state"

definition set_mon :: "addr \<Rightarrow> darwin_monitor \<Rightarrow> darwin_vars \<Rightarrow> darwin_vars" where
  "set_mon mp m v = v\<lparr>dv_mons := (dv_mons v)(mp \<mapsto> m)\<rparr>"

section \<open>The callbacks\<close>

definition darwin_devices_attached ::
  "'w darwin_notify \<Rightarrow> ('w hs_state \<Rightarrow> addr) \<Rightarrow> 'w callback_fun \<Rightarrow> addr \<Rightarrow> nat \<Rightarrow> 'w darwin_all \<Rightarrow> 'w darwin_all option" where
  "darwin_devices_attached N alloc call monitor it vs = do {
     let (v, s) = vs;
     (r, s) \<leftarrow> process_iterator_devices (dn_kit N) alloc (dv_controllers v) (hs_monitor_add call monitor) it s;
     m \<leftarrow> dv_mons v monitor;
     Some (set_mon monitor (m\<lparr>dm_notify_ret := r\<rparr>) v, s)
   }"

text \<open>The buffer for the key has 16 bytes, the last of which is the null character.\<close>

definition remove_device ::
  "'w darwin_notify \<Rightarrow> 'w callback_fun \<Rightarrow> addr \<Rightarrow> nat \<Rightarrow> 'w hs_state \<Rightarrow> 'w hs_state option" where
  "remove_device N call monitor service s =
     (let (r, session, s) = get_ioregistry_value_number (dn_kit N) service ''sessionID'' kCFNumberSInt64Type s in
      if \<not> r then Some s
      else do {
        session \<leftarrow> session;
        hs_monitor_remove call monitor (take 15 (session_key (word_of_int session))) s
      })"

partial_function (option) darwin_devices_detached ::
  "'w darwin_notify \<Rightarrow> 'w callback_fun \<Rightarrow> addr \<Rightarrow> nat \<Rightarrow> 'w hs_state \<Rightarrow> 'w hs_state option" where
  "darwin_devices_detached N call monitor it s =
     (let (service, s) = sys (io_next (dn_kit N) it) s in
      if service = 0 then Some s
      else do {
        s \<leftarrow> remove_device N call monitor service s;
        darwin_devices_detached N call monitor it (io_release (dn_kit N) service s)
      })"

text \<open>\<open>IODispatchCalloutFromMessage\<close>\<close>

definition dispatch_callout ::
  "'w darwin_notify \<Rightarrow> ('w hs_state \<Rightarrow> addr) \<Rightarrow> 'w callback_fun \<Rightarrow> addr \<Rightarrow> callout \<Rightarrow> 'w darwin_all \<Rightarrow> 'w darwin_all option" where
  "dispatch_callout N alloc call monitor c vs =
     (case c of
        Devices_attached it \<Rightarrow> darwin_devices_attached N alloc call monitor it vs
      | Devices_detached it \<Rightarrow> do {
          s \<leftarrow> darwin_devices_detached N call monitor it (snd vs);
          Some (fst vs, s)
        })"

section \<open>Release\<close>

fun drop_iterators :: "'w iokit \<Rightarrow> nat list \<Rightarrow> 'w hs_state \<Rightarrow> 'w hs_state option" where
  "drop_iterators K [] s = Some s"
| "drop_iterators K (it # its) s = do {
     s \<leftarrow> drop_iterator K it s;
     drop_iterators K its s
   }"

definition hs_monitor_free_darwin :: "'w darwin_notify \<Rightarrow> addr \<Rightarrow> 'w darwin_all \<Rightarrow> 'w darwin_all option" where
  "hs_monitor_free_darwin N monitor vs =
     (if monitor = NULL then Some vs
      else do {
        let (v, s) = vs;
        s \<leftarrow> hs_monitor_release monitor s;
        m \<leftarrow> dv_mons v monitor;
        let s = sys_do (os_close (dn_os N) (dm_kqfd m)) s;
        let s = (if dm_port_set m \<noteq> 0 then sys_do (dn_set_deallocate N (dm_port_set m)) s else s);
        s \<leftarrow> drop_iterators (dn_kit N) (dm_iterators m) s;
        let s = (if dm_port m \<noteq> 0 then sys_do (dn_port_destroy N (dm_port m)) s else s);
        Some (v\<lparr>dv_mons := (dv_mons v)(monitor := None)\<rparr>, monitor_free monitor s)
      })"

section \<open>Creation\<close>

definition add_notification ::
  "'w darwin_notify \<Rightarrow> addr \<Rightarrow> string \<Rightarrow> notification \<Rightarrow> (nat \<Rightarrow> callout) \<Rightarrow> 'w darwin_all
     \<Rightarrow> (int \<times> nat \<times> 'w darwin_all) option" where
  "add_notification N monitor cls type f vs = do {
     let (v, s) = vs;
     m \<leftarrow> dv_mons v monitor;
     case sys (dn_notify N (dm_port m) type cls f) s of
       (None, s) \<Rightarrow>
         (let (r, s) = fail_with HS_ERROR_SYSTEM (Some (''IOServiceAddMatchingNotification('' @ sq cls @ '') failed'')) s in
          Some (r, 0, v, s))
     | (Some it, s) \<Rightarrow> do {
         c_assert (length (dm_iterators m) < 8);
         Some (0, it, set_mon monitor (m\<lparr>dm_iterators := dm_iterators m @ [it]\<rparr>) v, s)
       }
   }"

text \<open>The loop over the classes of devices.\<close>

fun watch_classes ::
  "'w darwin_notify \<Rightarrow> ('w hs_state \<Rightarrow> addr) \<Rightarrow> 'w callback_fun \<Rightarrow> addr \<Rightarrow> (string \<times> string) list \<Rightarrow> 'w darwin_all
     \<Rightarrow> (int \<times> 'w darwin_all) option" where
  "watch_classes N alloc call monitor [] vs = Some (0, vs)"
| "watch_classes N alloc call monitor ((old_stack, new_stack) # rest) vs = do {
     (r, it, vs) \<leftarrow> add_notification N monitor (correct_class (dn_kit N) new_stack old_stack) kIOFirstMatchNotification
                     Devices_attached vs;
     if r < 0 then Some (r, vs)
     else do {
       (r, s) \<leftarrow> process_iterator_devices (dn_kit N) alloc (dv_controllers (fst vs)) (hs_monitor_add call monitor) it (snd vs);
       if r < 0 then Some (r, fst vs, s) else watch_classes N alloc call monitor rest (fst vs, s)
     }
   }"

definition watch_devices ::
  "'w darwin_notify \<Rightarrow> ('w hs_state \<Rightarrow> addr) \<Rightarrow> 'w callback_fun \<Rightarrow> addr \<Rightarrow> 'w darwin_all \<Rightarrow> (int \<times> 'w darwin_all) option" where
  "watch_devices N alloc call monitor vs = do {
     (r, vs) \<leftarrow> watch_classes N alloc call monitor device_classes_darwin vs;
     if r < 0 then Some (r, vs)
     else do {
       (r, it, v, s) \<leftarrow> add_notification N monitor (correct_class (dn_kit N) ''IOUSBHostDevice'' ''IOUSBDevice'')
                          kIOTerminatedNotification Devices_detached vs;
       if r < 0 then Some (r, v, s)
       else do {
         s \<leftarrow> clear_iterator (dn_kit N) it s;
         Some (0, v, s)
       }
     }
   }"

text \<open>
  The objects of the system the monitor at \<open>p\<close> needs: the port of the notifications, the queue of events, and
  the set of ports between them.
\<close>

definition kernel_error :: "string \<Rightarrow> 'w hs_state \<Rightarrow> int \<times> 'w hs_state" where
  "kernel_error msg s = fail_with HS_ERROR_SYSTEM (Some msg) s"

definition connect_queue :: "'w darwin_notify \<Rightarrow> addr \<Rightarrow> 'w darwin_all \<Rightarrow> (int \<times> 'w darwin_all) option" where
  "connect_queue N p vs = do {
     let (v, s) = vs;
     m \<leftarrow> dv_mons v p;
     case sys (dn_set_allocate N) s of
       (None, s) \<Rightarrow> (let (r, s) = kernel_error ''mach_port_allocate() failed'' s in Some (r, v, s))
     | (Some port_set, s) \<Rightarrow> do {
         let v = set_mon p (m\<lparr>dm_port_set := port_set\<rparr>) v;
         let (ok, s) = sys (dn_insert_member N (dm_port m) port_set) s;
         if \<not> ok then (let (r, s) = kernel_error ''mach_port_insert_member() failed'' s in Some (r, v, s))
         else
           (case sys (dn_kevent_add N (dm_kqfd m) port_set) s of
              (Some e, s) \<Rightarrow>
                (let (r, s) = kernel_error (''kevent() failed: '' @ show_nat 10 (dn_errno N e)) s in Some (r, v, s))
            | (None, s) \<Rightarrow> Some (0, v, s))
       }
   }"

definition open_ports :: "'w darwin_notify \<Rightarrow> addr \<Rightarrow> 'w darwin_all \<Rightarrow> (int \<times> 'w darwin_all) option" where
  "open_ports N p vs = do {
     let (v, s) = vs;
     m \<leftarrow> dv_mons v p;
     let (port, s) = sys (dn_port_create N) s;
     let m = m\<lparr>dm_port := port\<rparr>;
     if port = 0 then (let (r, s) = kernel_error ''IONotificationPortCreate() failed'' s in Some (r, set_mon p m v, s))
     else
       (case sys (dn_kqueue N) s of
          (Inl e, s) \<Rightarrow>
            (let (r, s) = kernel_error (''kqueue() failed: '' @ os_strerror (dn_os N) e) s in Some (r, set_mon p m v, s))
        | (Inr fd, s) \<Rightarrow> connect_queue N p (set_mon p (m\<lparr>dm_kqfd := fd\<rparr>) v, s))
   }"

text \<open>\<open>error:\<close> frees the monitor and returns the code; \<open>*rmonitor\<close> is not written.\<close>

definition monitor_new_fail_darwin ::
  "'w darwin_notify \<Rightarrow> addr \<Rightarrow> int \<Rightarrow> 'w darwin_all \<Rightarrow> (int \<times> addr option \<times> 'w darwin_all) option" where
  "monitor_new_fail_darwin N monitor r vs = do {
     vs \<leftarrow> hs_monitor_free_darwin N monitor vs;
     Some (r, None, vs)
   }"

text \<open>\<open>p\<close> and \<open>hp\<close> are the results of the allocations for the monitor and the heads of its table.\<close>

definition zero_darwin_monitor :: darwin_monitor where
  "zero_darwin_monitor = \<lparr>dm_port = 0, dm_iterators = [], dm_notify_ret = 0, dm_kqfd = -1, dm_port_set = 0\<rparr>"

definition monitor_set_up ::
  "'w darwin_notify \<Rightarrow> ('w hs_state \<Rightarrow> addr) \<Rightarrow> 'w callback_fun \<Rightarrow> addr \<Rightarrow> addr \<Rightarrow> 'w darwin_all \<Rightarrow> (int \<times> 'w darwin_all) option"
where
  "monitor_set_up N alloc call p hp vs = do {
     (r, v, s) \<leftarrow> open_ports N p vs;
     if r < 0 then Some (r, v, s)
     else do {
       (r, s) \<leftarrow> hs_monitor_init hp p s;
       if r < 0 then Some (r, v, s) else watch_devices N alloc call p (v, s)
     }
   }"

definition hs_monitor_new_darwin ::
  "'w darwin_notify \<Rightarrow> ('w hs_state \<Rightarrow> addr) \<Rightarrow> 'w callback_fun \<Rightarrow> addr \<Rightarrow> addr \<Rightarrow> 'w darwin_all
     \<Rightarrow> (int \<times> addr option \<times> 'w darwin_all) option" where
  "hs_monitor_new_darwin N alloc call p hp vs = do {
     let (v, s) = vs;
     (r, cs, s) \<leftarrow> populate_controllers_darwin (dn_kit N) (dv_controllers v) s;
     let v = v\<lparr>dv_controllers := cs\<rparr>;
     if r < 0 then monitor_new_fail_darwin N NULL r (v, s)
     else if p = NULL then (let (r, s) = fail_with HS_ERROR_MEMORY None s in monitor_new_fail_darwin N NULL r (v, s))
     else do {
       (r, vs) \<leftarrow> monitor_set_up N alloc call p hp (set_mon p zero_darwin_monitor v, monitor_alloc p s);
       if r < 0 then monitor_new_fail_darwin N p r vs else Some (0, Some p, vs)
     }
   }"

section \<open>Refreshing\<close>

definition hs_monitor_get_descriptor_darwin :: "addr \<Rightarrow> darwin_vars \<Rightarrow> int option" where
  "hs_monitor_get_descriptor_darwin monitor v = do {
     c_assert (monitor \<noteq> NULL);
     m \<leftarrow> dv_mons v monitor;
     Some (dm_kqfd m)
   }"

partial_function (option) receive_loop ::
  "'w darwin_notify \<Rightarrow> ('w hs_state \<Rightarrow> addr) \<Rightarrow> 'w callback_fun \<Rightarrow> addr \<Rightarrow> nat \<Rightarrow> 'w darwin_all \<Rightarrow> (int \<times> 'w darwin_all) option"
where
  "receive_loop N alloc call monitor port_set vs =
     (case sys (dn_receive N port_set) (snd vs) of
        (MACH_RCV_TIMED_OUT, s) \<Rightarrow> Some (0, fst vs, s)
      | (MACH_RCV_FAILED, s) \<Rightarrow> (let (r, s) = kernel_error ''mach_msg() failed'' s in Some (r, fst vs, s))
      | (MACH_MSG_SUCCESS c, s) \<Rightarrow> do {
          (v, s) \<leftarrow> dispatch_callout N alloc call monitor c (fst vs, s);
          m \<leftarrow> dv_mons v monitor;
          if dm_notify_ret m \<noteq> 0
          then Some (dm_notify_ret m, set_mon monitor (m\<lparr>dm_notify_ret := 0\<rparr>) v, s)
          else receive_loop N alloc call monitor port_set (v, s)
        })"

definition hs_monitor_refresh_darwin ::
  "'w darwin_notify \<Rightarrow> ('w hs_state \<Rightarrow> addr) \<Rightarrow> 'w callback_fun \<Rightarrow> addr \<Rightarrow> 'w darwin_all \<Rightarrow> (int \<times> 'w darwin_all) option"
where
  "hs_monitor_refresh_darwin N alloc call monitor vs = do {
     c_assert (monitor \<noteq> NULL);
     let (v, s) = vs;
     m \<leftarrow> dv_mons v monitor;
     case sys (dn_kevent N (dm_kqfd m)) s of
       (Inl e, s) \<Rightarrow> (let (r, s) = kernel_error (''kevent() failed: '' @ os_strerror (dn_os N) e) s in Some (r, v, s))
     | (Inr None, s) \<Rightarrow> Some (0, v, s)
     | (Inr (Some flt), s) \<Rightarrow> do {
         c_assert (flt = EVFILT_MACHPORT);
         receive_loop N alloc call monitor (dm_port_set m) (v, s)
       }
   }"

end
