(* ===== verification/DescribeDarwin.thy ===== *)
theory DescribeDarwin
  imports MonitorDarwin
begin

text \<open>
  Lemmas on the model of the first half of \<open>src/monitor_darwin.c\<close>: an entry of the registry of IOKit becomes the
  device structure that a function of the registry alone describes, every reference the code takes is given
  back, and the walks through the registry end.
\<close>

section \<open>A registry\<close>

text \<open>
  The registry as data: the properties, classes, parents and paths of its entries. The level of an entry is
  its distance from the root, by plane.
\<close>

record registry_tree =
  rt_prop :: "nat \<Rightarrow> string \<Rightarrow> cf_value option"
  rt_conf :: "nat \<Rightarrow> string \<Rightarrow> bool"
  rt_up :: "plane \<Rightarrow> nat \<Rightarrow> nat option"
  rt_path :: "plane \<Rightarrow> nat \<Rightarrow> string option"
  rt_level :: "plane \<Rightarrow> nat \<Rightarrow> nat"

text \<open>
  What is assumed of the calls: they answer as the registry \<open>T\<close> says and leave a part \<open>g\<close> of the world alone.
  \<open>live\<close> is the number of references the process holds on objects of IOKit and CoreFoundation. The product
  identifiers have 16 bits, as in the USB standard.
\<close>

definition registry_reads :: "'w iokit \<Rightarrow> registry_tree \<Rightarrow> bool" where
  "registry_reads K T \<longleftrightarrow>
     (\<forall>e k w. map_option snd (fst (io_property K e k w)) = rt_prop T e k) \<and>
     (\<forall>e c w. fst (io_conforms K e c w) = rt_conf T e c) \<and>
     (\<forall>e p w. fst (io_parent K e p w) = rt_up T p e) \<and>
     (\<forall>e p w. (case fst (io_path K e p w) of Inl _ \<Rightarrow> None | Inr x \<Rightarrow> Some x) = rt_path T p e)"

definition registry_sound :: "'w iokit \<Rightarrow> registry_tree \<Rightarrow> bool" where
  "registry_sound K T \<longleftrightarrow>
     (\<forall>p e q. rt_up T p e = Some q \<longrightarrow> q \<noteq> 0 \<and> rt_level T p q < rt_level T p e) \<and>
     (\<forall>e n. rt_prop T e ''idProduct'' = Some (CF_Number n) \<longrightarrow>
        0 \<le> snd (dw_number (io_os K) kCFNumberSInt64Type n) \<and> snd (dw_number (io_os K) kCFNumberSInt64Type n) < 2 ^ 16)"

definition io_keeps :: "'w iokit \<Rightarrow> ('w \<Rightarrow> 'g) \<Rightarrow> bool" where
  "io_keeps K g \<longleftrightarrow>
     (\<forall>e k w. g (snd (io_property K e k w)) = g w) \<and> (\<forall>e c w. g (snd (io_conforms K e c w)) = g w) \<and>
     (\<forall>e p w. g (snd (io_parent K e p w)) = g w) \<and> (\<forall>e p w. g (snd (io_path K e p w)) = g w) \<and>
     (\<forall>e w. g (io_retain K e w) = g w) \<and> (\<forall>n w. g (snd (dw_malloc (io_os K) n w)) = g w) \<and>
     (\<forall>x w. g (dw_release (io_os K) x w) = g w) \<and> (\<forall>x w. g (dw_object_release (io_os K) x w) = g w)"

definition io_counts :: "'w iokit \<Rightarrow> ('w \<Rightarrow> int) \<Rightarrow> bool" where
  "io_counts K live \<longleftrightarrow>
     (\<forall>e k w. live (snd (io_property K e k w)) = live w + (if fst (io_property K e k w) = None then 0 else 1)) \<and>
     (\<forall>e c w. live (snd (io_conforms K e c w)) = live w) \<and>
     (\<forall>e p w. live (snd (io_parent K e p w)) = live w + (if fst (io_parent K e p w) = None then 0 else 1)) \<and>
     (\<forall>e p w. live (snd (io_path K e p w)) = live w) \<and> (\<forall>e w. live (io_retain K e w) = live w + 1) \<and>
     (\<forall>n w. live (snd (dw_malloc (io_os K) n w)) = live w) \<and>
     (\<forall>x w. live (dw_release (io_os K) x w) = live w - 1) \<and> (\<forall>x w. live (dw_object_release (io_os K) x w) = live w - 1)"

definition io_works :: "'w iokit \<Rightarrow> registry_tree \<Rightarrow> ('w \<Rightarrow> 'g) \<Rightarrow> ('w \<Rightarrow> int) \<Rightarrow> bool" where
  "io_works K T g live \<longleftrightarrow> registry_reads K T \<and> registry_sound K T \<and> io_keeps K g \<and> io_counts K live"

text \<open>A step that changes nothing but the log, the world outside of \<open>g\<close>, and the number of references by \<open>n\<close>.\<close>

definition moved :: "('w \<Rightarrow> 'g) \<Rightarrow> ('w \<Rightarrow> int) \<Rightarrow> int \<Rightarrow> 'w hs_state \<Rightarrow> 'w hs_state \<Rightarrow> bool" where
  "moved g live n s s' \<longleftrightarrow> obs g s' = obs g s \<and> live (ext s') = live (ext s) + n"

lemma moved_refl [simp]: "moved g live 0 s s"
  by (simp add: moved_def)

lemma moved_trans: "moved g live m s s1 \<Longrightarrow> moved g live n s1 s2 \<Longrightarrow> moved g live (m + n) s s2"
  by (simp add: moved_def)

lemma moved_log [simp]: "moved g live n s (warn msg s') \<longleftrightarrow> moved g live n s s'"
  by (simp add: moved_def warn_def log_msg_def obs_def)

lemma moved_fail: "fail_with e m s = (r, s') \<Longrightarrow> moved g live 0 s s' \<and> r = err_val e"
  by (auto simp: moved_def obs_def fail_with_eq)

lemma moved_idle: "moved g live n s s' \<Longrightarrow> idle s s' \<and> g (ext s') = g (ext s)"
  by (simp add: moved_def obs_def idle_def)

lemma moved_sys:
  "sys f s = (x, s') \<Longrightarrow> (\<And>w. g (snd (f w)) = g w) \<Longrightarrow> live (snd (f (ext s))) = live (ext s) + n \<Longrightarrow> moved g live n s s'"
  by (auto simp: moved_def obs_def sys_eq)

lemma moved_sys_do:
  "(\<And>w. g (f w) = g w) \<Longrightarrow> (\<And>w. live (f w) = live w + n) \<Longrightarrow> moved g live n s (sys_do f s)"
  by (auto simp: moved_def obs_def sys_do_def)

lemma io_works_step:
  assumes "io_works K T g live"
  shows "sys (io_property K e k) s = (res, s') \<Longrightarrow>
      moved g live (if res = None then 0 else 1) s s' \<and> map_option snd res = rt_prop T e k"
    and "sys (io_conforms K e c) s = (b, s') \<Longrightarrow> moved g live 0 s s' \<and> b = rt_conf T e c"
    and "sys (io_parent K e p) s = (q, s') \<Longrightarrow> moved g live (if q = None then 0 else 1) s s' \<and> q = rt_up T p e"
    and "sys (io_path K e p) s = (x, s') \<Longrightarrow>
      moved g live 0 s s' \<and> (case x of Inl _ \<Rightarrow> None | Inr y \<Rightarrow> Some y) = rt_path T p e"
    and "sys (dw_malloc (io_os K) n) s = (ok, s') \<Longrightarrow> moved g live 0 s s'"
    and "moved g live 1 s (sys_do (io_retain K e) s)"
    and "moved g live (-1) s (sys_do (dw_release (io_os K) o') s)"
    and "moved g live (-1) s (io_release K e s)"
proof -
  have w: "registry_reads K T" "io_keeps K g" "io_counts K live" using assms by (simp_all add: io_works_def)
  note k = w(2) [unfolded io_keeps_def] and c = w(3) [unfolded io_counts_def] and r = w(1) [unfolded registry_reads_def]
  show "sys (io_property K e k) s = (res, s') \<Longrightarrow>
      moved g live (if res = None then 0 else 1) s s' \<and> map_option snd res = rt_prop T e k"
    using r [THEN conjunct1, rule_format, of e k "ext s"] k c by (auto simp: sys_eq intro!: moved_sys [OF sys_eq])
  show "sys (io_conforms K e c) s = (b, s') \<Longrightarrow> moved g live 0 s s' \<and> b = rt_conf T e c"
    "sys (io_parent K e p) s = (q, s') \<Longrightarrow> moved g live (if q = None then 0 else 1) s s' \<and> q = rt_up T p e"
    "sys (io_path K e p) s = (x, s') \<Longrightarrow>
      moved g live 0 s s' \<and> (case x of Inl _ \<Rightarrow> None | Inr y \<Rightarrow> Some y) = rt_path T p e"
    "sys (dw_malloc (io_os K) n) s = (ok, s') \<Longrightarrow> moved g live 0 s s'"
    using r k c by (auto simp: sys_eq intro!: moved_sys [OF sys_eq])
  show "moved g live 1 s (sys_do (io_retain K e) s)" "moved g live (-1) s (sys_do (dw_release (io_os K) o') s)"
    "moved g live (-1) s (io_release K e s)"
    using k c unfolding io_release_def by (auto intro!: moved_sys_do)
qed

section \<open>Properties\<close>

text \<open>What the three functions that read a property should give.\<close>

definition data_at :: "registry_tree \<Rightarrow> nat \<Rightarrow> string \<Rightarrow> uint8 list" where
  "data_at T e k = (case rt_prop T e k of Some (CF_Data bytes) \<Rightarrow> bytes | _ \<Rightarrow> [])"

definition number_at :: "'w iokit \<Rightarrow> registry_tree \<Rightarrow> nat \<Rightarrow> string \<Rightarrow> number_type \<Rightarrow> int option" where
  "number_at K T e k type =
     (case rt_prop T e k of
        Some (CF_Number n) \<Rightarrow> (let (r, n) = dw_number (io_os K) type n in if r then Some n else None)
      | _ \<Rightarrow> None)"

definition string_at :: "registry_tree \<Rightarrow> nat \<Rightarrow> string \<Rightarrow> string option" where
  "string_at T e k = (case rt_prop T e k of Some (CF_String room str) \<Rightarrow> str | _ \<Rightarrow> None)"

lemma moved_released:
  assumes "io_works K T g live" and "moved g live 1 s s1"
  shows "moved g live 0 s (sys_do (dw_release (io_os K) x) s1)"
  using moved_trans [OF assms(2) io_works_step(7) [OF assms(1)]] by simp

lemma value_data_run:
  assumes w: "io_works K T g live" and run: "get_ioregistry_value_data K e k n s = (bytes, s')"
  shows "moved g live 0 s s' \<and> bytes = take n (data_at T e k)"
proof -
  obtain res s1 where p: "sys (io_property K e k) s = (res, s1)" by (cases "sys (io_property K e k) s")
  note st = io_works_step(1) [OF w p]
  show ?thesis
  proof (cases res)
    case None
    with p st run show ?thesis by (auto simp: get_ioregistry_value_data_def data_at_def)
  next
    case (Some x)
    obtain obj v where x: "x = (obj, v)" by (cases x)
    have "moved g live 0 s (sys_do (dw_release (io_os K) obj) s1)" using moved_released [OF w] st Some by simp
    moreover have "rt_prop T e k = Some v" using st Some x by auto
    ultimately show ?thesis
      using p run Some x by (auto simp: get_ioregistry_value_data_def data_at_def split: cf_value.splits)
  qed
qed

text \<open>The number may be stored even where it is not exact.\<close>

lemma value_number_run:
  assumes w: "io_works K T g live" and run: "get_ioregistry_value_number K e k type s = (r, n, s')"
  shows "moved g live 0 s s' \<and> (if r then n = number_at K T e k type \<and> n \<noteq> None else number_at K T e k type = None) \<and>
     (\<forall>x. n = Some x \<longrightarrow> (\<exists>m. rt_prop T e k = Some (CF_Number m) \<and> x = snd (dw_number (io_os K) type m)))"
proof -
  obtain res s1 where p: "sys (io_property K e k) s = (res, s1)" by (cases "sys (io_property K e k) s")
  note st = io_works_step(1) [OF w p]
  show ?thesis
  proof (cases res)
    case None
    with p st run show ?thesis by (auto simp: get_ioregistry_value_number_def number_at_def)
  next
    case (Some x)
    obtain obj v where x: "x = (obj, v)" by (cases x)
    have "moved g live 0 s (sys_do (dw_release (io_os K) obj) s1)" using moved_released [OF w] st Some by simp
    moreover have "rt_prop T e k = Some v" using st Some x by auto
    ultimately show ?thesis
      using p run Some x by (auto simp: get_ioregistry_value_number_def number_at_def split: cf_value.splits prod.splits)
  qed
qed

text \<open>A result \<open>r\<close> with a string: the string, nothing, or an error.\<close>

definition text_result :: "int \<Rightarrow> string option \<Rightarrow> string option \<Rightarrow> bool" where
  "text_result r x y \<longleftrightarrow> r = 1 \<and> x = y \<and> y \<noteq> None \<or> r = 0 \<and> y = None \<or> r < 0"

lemma value_string_run:
  assumes w: "io_works K T g live" and run: "get_ioregistry_value_string K e k s = (r, x, s')"
  shows "moved g live 0 s s' \<and> text_result r x (string_at T e k)"
proof -
  obtain res s1 where p: "sys (io_property K e k) s = (res, s1)" by (cases "sys (io_property K e k) s")
  note st = io_works_step(1) [OF w p]
  show ?thesis
  proof (cases res)
    case None
    with p st run show ?thesis by (auto simp: get_ioregistry_value_string_def string_at_def text_result_def)
  next
    case (Some y)
    obtain obj v where y: "y = (obj, v)" by (cases y)
    have v: "rt_prop T e k = Some v" using st Some y by auto
    have rel: "moved g live 0 s (sys_do (dw_release (io_os K) obj) s2)" if "moved g live 0 s1 s2" for s2
      using moved_released [OF w, of s s2] moved_trans [OF _ that, of 1 s] st Some by simp
    show ?thesis
    proof (cases "\<exists>room str. v = CF_String room str")
      case True
      then obtain room str where cf: "v = CF_String room str" by blast
      obtain ok s2 where m: "sys (dw_malloc (io_os K) (room + 1)) s1 = (ok, s2)" by (cases "sys (dw_malloc (io_os K) (room + 1)) s1")
      have m2: "moved g live 0 s1 s2" by (rule io_works_step(5) [OF w m])
      obtain r3 s3 where f: "fail_with HS_ERROR_MEMORY None s2 = (r3, s3)" by (cases "fail_with HS_ERROR_MEMORY None s2")
      then have m3: "moved g live 0 s1 s3" "r3 < 0" using moved_fail [OF f, where g = g and live = live] moved_trans [OF m2, of 0 s3] by simp_all
      show ?thesis
        using p run Some y v cf m f rel [OF m2] rel [OF m3(1)] m3(2)
        by (cases ok; cases str) (auto simp: get_ioregistry_value_string_def string_at_def text_result_def)
    next
      case False
      with p run Some y v rel [of s1] show ?thesis
        by (auto simp: get_ioregistry_value_string_def string_at_def text_result_def split: cf_value.splits)
    qed
  qed
qed

lemma entry_path_run:
  assumes w: "io_works K T g live" and run: "get_ioregistry_entry_path K e s = (r, x, s')"
  shows "moved g live 0 s s' \<and> (r = 0 \<and> x = rt_path T kIOServicePlane e \<and> x \<noteq> None \<or> r < 0)"
proof -
  obtain res s1 where p: "sys (io_path K e kIOServicePlane) s = (res, s1)" by (cases "sys (io_path K e kIOServicePlane) s")
  note st = io_works_step(4) [OF w p]
  obtain r2 s2 where f: "fail_with HS_ERROR_SYSTEM (Some ''IORegistryEntryGetPath() failed'') s1 = (r2, s2)"
    by (cases "fail_with HS_ERROR_SYSTEM (Some ''IORegistryEntryGetPath() failed'') s1")
  have f2: "moved g live 0 s s2" "r2 < 0" using moved_fail [OF f, where g = g and live = live] moved_trans [of g live 0 s s1 0 s2] st by simp_all
  show ?thesis
  proof (cases res)
    case (Inl c)
    with p run f f2 show ?thesis by (auto simp: get_ioregistry_entry_path_def)
  next
    case (Inr y)
    obtain ok s3 where m: "sys (dw_malloc (io_os K) (length y + 1)) s1 = (ok, s3)" by (cases "sys (dw_malloc (io_os K) (length y + 1)) s1")
    have m3: "moved g live 0 s s3" using moved_trans [OF _ io_works_step(5) [OF w m], of 0 s] st by simp
    obtain r4 s4 where e: "fail_with HS_ERROR_MEMORY None s3 = (r4, s4)" by (cases "fail_with HS_ERROR_MEMORY None s3")
    have e4: "moved g live 0 s s4" "r4 < 0" using moved_fail [OF e, where g = g and live = live] moved_trans [OF m3, of 0 s4] by simp_all
    show ?thesis using p run Inr m m3 e e4 st by (cases ok) (auto simp: get_ioregistry_entry_path_def)
  qed
qed

section \<open>Walks\<close>

lemma parent_release_run:
  assumes w: "io_works K T g live" and run: "get_parent_and_release K e p s = (q, s')"
  shows "moved g live (if q = 0 then -1 else 0) s s' \<and> q = (case rt_up T p e of None \<Rightarrow> 0 | Some q \<Rightarrow> q) \<and>
     (q \<noteq> 0 \<longrightarrow> rt_level T p q < rt_level T p e)"
proof -
  obtain res s1 where p: "sys (io_parent K e p) s = (res, s1)" by (cases "sys (io_parent K e p) s")
  note st = io_works_step(3) [OF w p]
  have m: "moved g live ((if res = None then 0 else 1) + -1) s (io_release K e s1)"
    using moved_trans [OF _ io_works_step(8) [OF w]] st by blast
  have up: "rt_up T p e = Some y \<Longrightarrow> y \<noteq> 0 \<and> rt_level T p y < rt_level T p e" for y
    using w by (auto simp: io_works_def registry_sound_def)
  show ?thesis
    using p run st m up by (cases "rt_up T p e") (auto simp: get_parent_and_release_def)
qed

text \<open>The first entry above \<open>e\<close>, at most \<open>n\<close> levels up, that conforms to a class.\<close>

fun first_up :: "registry_tree \<Rightarrow> string \<Rightarrow> nat \<Rightarrow> nat \<Rightarrow> nat" where
  "first_up T cls 0 e = 0"
| "first_up T cls (Suc n) e =
     (case rt_up T kIOServicePlane e of None \<Rightarrow> 0 | Some q \<Rightarrow> if rt_conf T q cls then q else first_up T cls n q)"

definition parent_of_class :: "registry_tree \<Rightarrow> string \<Rightarrow> nat \<Rightarrow> nat" where
  "parent_of_class T cls e = first_up T cls (rt_level T kIOServicePlane e) e"

lemma conforming_loop_run:
  assumes w: "io_works K T g live"
  shows "rt_level T kIOServicePlane e \<le> n \<Longrightarrow>
     \<exists>s'. conforming_loop K cls e s = Some (first_up T cls n e, s') \<and>
       moved g live (if first_up T cls n e = 0 then -1 else 0) s s'"
proof (induction n arbitrary: e s)
  case 0
  obtain q s1 where p: "get_parent_and_release K e kIOServicePlane s = (q, s1)" by (cases "get_parent_and_release K e kIOServicePlane s")
  note st = parent_release_run [OF w p]
  with 0 have "q = 0" by auto
  with p st show ?case by (subst conforming_loop.simps) simp
next
  case (Suc n)
  obtain q s1 where p: "get_parent_and_release K e kIOServicePlane s = (q, s1)" by (cases "get_parent_and_release K e kIOServicePlane s")
  note st = parent_release_run [OF w p]
  show ?case
  proof (cases "q = 0")
    case True
    have "rt_up T kIOServicePlane e = None"
      using st True w by (auto simp: io_works_def registry_sound_def split: option.splits)
    with True p st show ?thesis by (subst conforming_loop.simps) auto
  next
    case False
    then have q: "rt_up T kIOServicePlane e = Some q" "rt_level T kIOServicePlane q \<le> n" "moved g live 0 s s1"
      using st Suc.prems by (auto split: option.splits)
    obtain b s2 where c: "sys (io_conforms K q cls) s1 = (b, s2)" by (cases "sys (io_conforms K q cls) s1")
    note cs = io_works_step(2) [OF w c]
    have m2: "moved g live 0 s s2" using moved_trans [OF q(3), of 0 s2] cs by simp
    obtain s' where ih: "conforming_loop K cls q s2 = Some (first_up T cls n q, s')"
        "moved g live (if first_up T cls n q = 0 then -1 else 0) s2 s'" using Suc.IH [OF q(2)] by blast
    show ?thesis
      using False p q(1) c cs m2 ih(1) moved_trans [OF m2 ih(2)]
      by (subst conforming_loop.simps) (auto split: if_splits)
  qed
qed

lemma find_conforming_parent_run:
  assumes w: "io_works K T g live"
  shows "\<exists>s'. find_conforming_parent K e cls s = Some (parent_of_class T cls e, s') \<and>
     moved g live (if parent_of_class T cls e = 0 then 0 else 1) s s'"
proof -
  have r: "moved g live 1 s (sys_do (io_retain K e) s)" by (rule io_works_step(6) [OF w])
  obtain s' where l: "conforming_loop K cls e (sys_do (io_retain K e) s) = Some (parent_of_class T cls e, s')"
      "moved g live (if parent_of_class T cls e = 0 then -1 else 0) (sys_do (io_retain K e) s) s'"
    unfolding parent_of_class_def using conforming_loop_run [OF w order_refl] by blast
  with moved_trans [OF r l(2)] show ?thesis by (auto simp: find_conforming_parent_def)
qed

section \<open>Locations\<close>

abbreviation usb_plane :: "'w iokit \<Rightarrow> plane" where
  "usb_plane K \<equiv> correct_class K kIOServicePlane kIOUSBPlane"

abbreviation hub_class :: "'w iokit \<Rightarrow> string" where
  "hub_class K \<equiv> correct_class K ''AppleUSBHostController'' ''IOUSBRootHubDevice''"

text \<open>The port of an entry, if it has one, and the ports from an entry up to the first below a controller.\<close>

definition port_at :: "'w iokit \<Rightarrow> registry_tree \<Rightarrow> nat \<Rightarrow> uint8 list" where
  "port_at K T e =
     (if uses_new_stack K then take 1 (data_at T e ''port'')
      else (case number_at K T e ''PortNum'' kCFNumberSInt8Type of None \<Rightarrow> [] | Some n \<Rightarrow> [word_of_int n]))"

fun walk_up :: "'w iokit \<Rightarrow> registry_tree \<Rightarrow> nat \<Rightarrow> nat \<Rightarrow> uint8 list \<times> nat" where
  "walk_up K T 0 e = (port_at K T e, 0)"
| "walk_up K T (Suc n) e =
     (case rt_up T (usb_plane K) e of
        None \<Rightarrow> (port_at K T e, 0)
      | Some q \<Rightarrow>
          if rt_conf T q (hub_class K) then (port_at K T e, q)
          else (let (ports, hub) = walk_up K T n q in (port_at K T e @ ports, hub)))"

text \<open>The controller and the ports from there down to the device.\<close>

definition ports_of :: "'w iokit \<Rightarrow> registry_tree \<Rightarrow> controllers \<Rightarrow> nat \<Rightarrow> uint8 list option" where
  "ports_of K T cs e =
     (let (ports, hub) = walk_up K T (rt_level T (usb_plane K) e) e in
      if ports = [] \<or> 16 \<le> length ports then None
      else do {
        path \<leftarrow> rt_path T (usb_plane K) hub;
        c_assert (find_controller path cs \<noteq> 0);
        Some (find_controller path cs # rev ports)
      })"

lemma length_port_at: "length (port_at K T e) \<le> 1"
  by (simp add: port_at_def split: option.splits)

lemma add_port_run:
  assumes w: "io_works K T g live" and l: "length ports < 16"
  shows "\<exists>s'. add_port K e ports s = Some (ports @ port_at K T e, s') \<and> moved g live 0 s s'"
proof (cases "uses_new_stack K")
  case True
  obtain bytes s' where r: "get_ioregistry_value_data K e ''port'' 1 s = (bytes, s')"
    by (cases "get_ioregistry_value_data K e ''port'' 1 s")
  with True l value_data_run [OF w r] show ?thesis by (simp add: add_port_def port_at_def)
next
  case False
  obtain r n s' where v: "get_ioregistry_value_number K e ''PortNum'' kCFNumberSInt8Type s = (r, n, s')"
    by (cases "get_ioregistry_value_number K e ''PortNum'' kCFNumberSInt8Type s")
  with False l value_number_run [OF w v] show ?thesis
    by (cases r; cases n) (auto simp: add_port_def port_at_def)
qed

text \<open>What the loop gives: too many ports, or all of them with the entry where it ends.\<close>

definition rounds_result :: "uint8 list \<Rightarrow> uint8 list \<times> nat \<Rightarrow> nat \<Rightarrow> uint8 list option \<Rightarrow> bool" where
  "rounds_result ports walk hub res \<longleftrightarrow>
     (if 16 \<le> length ports + length (fst walk) then res = None
      else res = Some (ports @ fst walk) \<and> hub = snd walk)"

lemma walk_up_Suc:
  "walk_up K T (Suc n) e =
     (case rt_up T (usb_plane K) e of
        None \<Rightarrow> (port_at K T e, 0)
      | Some q \<Rightarrow>
          if rt_conf T q (hub_class K) then (port_at K T e, q)
          else (port_at K T e @ fst (walk_up K T n q), snd (walk_up K T n q)))"
  by (simp split: option.splits prod.splits)

lemma location_rounds_run:
  assumes w: "io_works K T g live"
  shows "rt_level T (usb_plane K) e \<le> n \<Longrightarrow> e \<noteq> 0 \<Longrightarrow> length ports < 16 \<Longrightarrow>
     \<exists>hub res s'. location_rounds K e ports s = Some (hub, res, s') \<and>
       moved g live (if hub = 0 then -1 else 0) s s' \<and> rounds_result ports (walk_up K T n e) hub res"
proof (induction n arbitrary: e ports s)
  case 0
  obtain s1 where a: "add_port K e ports s = Some (ports @ port_at K T e, s1)" "moved g live 0 s s1"
    using add_port_run [OF w 0(3)] by blast
  obtain q s2 where p: "get_parent_and_release K e (usb_plane K) s1 = (q, s2)" by (cases "get_parent_and_release K e (usb_plane K) s1")
  note st = parent_release_run [OF w p]
  with 0 have q: "q = 0" by auto
  have m: "moved g live (-1) s s2" using moved_trans [OF a(2), of "-1" s2] st q by simp
  show ?case
  proof (cases "length (ports @ port_at K T e) = 16")
    case True
    with a 0(2) show ?thesis by (subst location_rounds.simps) (simp add: rounds_result_def)
  next
    case False
    with length_port_at [of K T e] 0(3) have "length ports + length (port_at K T e) < 16" by simp
    with False a(1) p q m show ?thesis by (subst location_rounds.simps) (simp add: rounds_result_def)
  qed
next
  case (Suc n)
  obtain s1 where a: "add_port K e ports s = Some (ports @ port_at K T e, s1)" "moved g live 0 s s1"
    using add_port_run [OF w Suc.prems(3)] by blast
  obtain q s2 where p: "get_parent_and_release K e (usb_plane K) s1 = (q, s2)" by (cases "get_parent_and_release K e (usb_plane K) s1")
  note st = parent_release_run [OF w p]
  have m: "moved g live (if q = 0 then -1 else 0) s s2" using moved_trans [OF a(2)] st by fastforce
  show ?case
  proof (cases "length (ports @ port_at K T e) = 16")
    case True
    then have "16 \<le> length ports + length (fst (walk_up K T (Suc n) e))"
      unfolding walk_up_Suc by (simp split: option.splits)
    with True a Suc.prems(2) show ?thesis
      by (subst location_rounds.simps) (simp add: rounds_result_def del: walk_up.simps)
  next
    case False
    with length_port_at [of K T e] Suc.prems(3) have less: "length (ports @ port_at K T e) < 16" by simp
    show ?thesis
    proof (cases "q = 0")
      case True
      have "rt_up T (usb_plane K) e = None"
        using st True w by (auto simp: io_works_def registry_sound_def split: option.splits)
      with True False less a(1) p m show ?thesis by (subst location_rounds.simps) (simp add: rounds_result_def)
    next
      case q: False
      then have up: "rt_up T (usb_plane K) e = Some q" "rt_level T (usb_plane K) q \<le> n" "moved g live 0 s s2"
        using st m Suc.prems by (auto split: option.splits)
      obtain b s3 where c: "sys (io_conforms K q (hub_class K)) s2 = (b, s3)" by (cases "sys (io_conforms K q (hub_class K)) s2")
      note cs = io_works_step(2) [OF w c]
      have m3: "moved g live 0 s s3" using moved_trans [OF up(3), of 0 s3] cs by simp
      show ?thesis
      proof (cases b)
        case True
        with q False less a(1) p c cs m3 up(1) show ?thesis
          by (subst location_rounds.simps) (simp add: rounds_result_def)
      next
        case nb: False
        obtain hub res s' where ih: "location_rounds K q (ports @ port_at K T e) s3 = Some (hub, res, s')"
            "moved g live (if hub = 0 then -1 else 0) s3 s'"
            "rounds_result (ports @ port_at K T e) (walk_up K T n q) hub res"
          using Suc.IH [OF up(2) q less] by blast
        have "rounds_result ports (walk_up K T (Suc n) e) hub res"
          unfolding walk_up_Suc using ih(3) up(1) cs nb by (simp add: rounds_result_def add.assoc)
        moreover have "location_rounds K e ports s = Some (hub, res, s')"
          using False q nb a(1) p c ih(1) by (subst location_rounds.simps) simp
        moreover have "moved g live (if hub = 0 then -1 else 0) s s'" using moved_trans [OF m3 ih(2)] by simp
        ultimately show ?thesis by blast
      qed
    qed
  qed
qed

lemma find_controller_run:
  assumes w: "io_works K T g live" and run: "find_controller_darwin K cs e s = (index, s')"
  shows "moved g live 0 s s' \<and> index = (case rt_path T (usb_plane K) e of None \<Rightarrow> 0 | Some path \<Rightarrow> find_controller path cs)"
proof -
  obtain x s1 where p: "sys (io_path K e (usb_plane K)) s = (x, s1)" by (cases "sys (io_path K e (usb_plane K)) s")
  with io_works_step(4) [OF w p] run show ?thesis
    by (cases x) (auto simp: find_controller_darwin_def split: option.splits)
qed

lemma location_string_swap:
  "location_string (swap_ports xs (length xs)) (length xs) = location_string (rev xs) (length xs)"
  using swap_ports_rev(1) [OF order_refl, of xs] by (simp add: location_string_def)

lemma build_location_run:
  assumes w: "io_works K T g live" and l: "length xs \<le> 63"
  shows "\<exists>r loc s'. build_location_string_darwin K (swap_ports xs (length xs)) (length xs) s = Some (r, loc, s') \<and>
     moved g live 0 s s' \<and> (r = 0 \<and> loc = location_string (rev xs) (length xs) \<and> loc \<noteq> None \<or> r < 0)"
proof -
  obtain loc where loc: "location_string (rev xs) (length xs) = Some loc" using location_string_run [of "length xs" "rev xs"] l by auto
  obtain ok s1 where m: "sys (dw_malloc (io_os K) (length loc + 1)) s = (ok, s1)" by (cases "sys (dw_malloc (io_os K) (length loc + 1)) s")
  note m1 = io_works_step(5) [OF w m]
  obtain r2 s2 where f: "fail_with HS_ERROR_MEMORY None s1 = (r2, s2)" by (cases "fail_with HS_ERROR_MEMORY None s1")
  have "moved g live 0 s s2" "r2 < 0"
    using moved_fail [OF f, where g = g and live = live] moved_trans [OF m1, of 0 s2] by simp_all
  with m m1 f loc show ?thesis by (cases ok) (auto simp: build_location_string_darwin_def location_string_swap)
qed

text \<open>The location, nothing, or an error.\<close>

definition location_of :: "'w iokit \<Rightarrow> registry_tree \<Rightarrow> controllers \<Rightarrow> nat \<Rightarrow> string option" where
  "location_of K T cs e = ports_of K T cs e \<bind> (\<lambda>ports. location_string ports (length ports))"

lemma finish_location_run:
  assumes w: "io_works K T g live" and r: "rounds_result [] (walk_up K T (rt_level T (usb_plane K) e) e) hub res"
  shows "\<exists>r loc s'. finish_location K cs hub res s = Some (r, loc, s') \<and> moved g live 0 s s' \<and>
     text_result r loc (location_of K T cs e)"
proof -
  obtain ports up where walk: "walk_up K T (rt_level T (usb_plane K) e) e = (ports, up)"
    by (cases "walk_up K T (rt_level T (usb_plane K) e) e")
  show ?thesis
  proof (cases "ports = [] \<or> 16 \<le> length ports")
    case True
    with r walk show ?thesis
      by (auto simp: rounds_result_def finish_location_def location_of_def ports_of_def text_result_def)
  next
    case False
    then have res: "res = Some ports" "up = hub" "length ports < 16" "ports \<noteq> []" using r walk by (auto simp: rounds_result_def)
    obtain index s1 where c: "find_controller_darwin K cs hub s = (index, s1)" by (cases "find_controller_darwin K cs hub s")
    note ci = find_controller_run [OF w c]
    show ?thesis
    proof (cases "index = 0")
      case True
      then have "ports_of K T cs e = None" using ci walk res by (auto simp: ports_of_def split: option.splits)
      with True res c ci show ?thesis by (simp add: finish_location_def location_of_def text_result_def)
    next
      case index: False
      then have po: "ports_of K T cs e = Some (index # rev ports)" using ci walk res by (auto simp: ports_of_def split: option.splits)
      obtain r loc s' where b: "build_location_string_darwin K (swap_ports (ports @ [index]) (length (ports @ [index])))
            (length (ports @ [index])) s1 = Some (r, loc, s')" "moved g live 0 s1 s'"
          "r = 0 \<and> loc = location_string (rev (ports @ [index])) (length (ports @ [index])) \<and> loc \<noteq> None \<or> r < 0"
        using build_location_run [OF w, of "ports @ [index]" s1] res(3) by auto
      have "moved g live 0 s s'" using moved_trans [OF _ b(2), of 0 s] ci by simp
      then show ?thesis
        using index po c res b(1,3) by (auto simp: finish_location_def location_of_def text_result_def)
    qed
  qed
qed

lemma resolve_location_run:
  assumes w: "io_works K T g live" and e: "e \<noteq> 0"
  shows "\<exists>r loc s'. resolve_device_location_darwin K cs e s = Some (r, loc, s') \<and> moved g live 0 s s' \<and>
     text_result r loc (location_of K T cs e)"
proof -
  have m1: "moved g live 1 s (sys_do (io_retain K e) s)" by (rule io_works_step(6) [OF w])
  obtain hub res s2 where l: "location_rounds K e [] (sys_do (io_retain K e) s) = Some (hub, res, s2)"
      "moved g live (if hub = 0 then -1 else 0) (sys_do (io_retain K e) s) s2"
      "rounds_result [] (walk_up K T (rt_level T (usb_plane K) e) e) hub res"
    using location_rounds_run [OF w order_refl e, of "[]" "sys_do (io_retain K e) s"] by auto
  obtain r loc s3 where f: "finish_location K cs hub res s2 = Some (r, loc, s3)" "moved g live 0 s2 s3"
      "text_result r loc (location_of K T cs e)" using finish_location_run [OF w l(3)] by blast
  have m3: "moved g live (if hub = 0 then 0 else 1) s s3"
    using moved_trans [OF moved_trans [OF m1 l(2)] f(2)] by (auto split: if_splits)
  have "moved g live 0 s (if hub \<noteq> 0 then io_release K hub s3 else s3)"
    using m3 moved_trans [OF m3 io_works_step(8) [OF w]] by auto
  with l(1) f(1,3) show ?thesis by (auto simp: resolve_device_location_darwin_def)
qed

section \<open>Descriptions\<close>

definition numbers_at :: "'w iokit \<Rightarrow> registry_tree \<Rightarrow> nat \<Rightarrow> nat \<Rightarrow> (uint64 \<times> uint16 \<times> uint16 \<times> uint8) option" where
  "numbers_at K T usb iface = do {
     session \<leftarrow> number_at K T usb ''sessionID'' kCFNumberSInt64Type;
     vid \<leftarrow> number_at K T usb ''idVendor'' kCFNumberSInt64Type;
     pid \<leftarrow> number_at K T usb ''idProduct'' kCFNumberSInt64Type;
     n \<leftarrow> number_at K T iface ''bInterfaceNumber'' kCFNumberSInt64Type;
     Some (word_of_int session, word_of_int vid, word_of_int pid, word_of_int n)
   }"

definition node_of :: "registry_tree \<Rightarrow> nat \<Rightarrow> (hs_device_type \<times> vtable_id \<times> string) option" where
  "node_of T e =
     (if rt_conf T e ''IOSerialBSDClient''
      then map_option (\<lambda>p. (HS_DEVICE_TYPE_SERIAL, Hs_posix_device_vtable, p)) (string_at T e ''IOCalloutDevice'')
      else if rt_conf T e ''IOHIDDevice''
      then map_option (\<lambda>p. (HS_DEVICE_TYPE_HID, Hs_darwin_hid_vtable, p)) (rt_path T kIOServicePlane e)
      else None)"

text \<open>
  The device an entry of the registry stands for: it belongs to an interface of a USB device, whose numbers,
  location and strings it takes; its node is a property of a serial device, and the path of the entry of a
  HID device.
\<close>

definition describe_darwin :: "'w iokit \<Rightarrow> registry_tree \<Rightarrow> controllers \<Rightarrow> nat \<Rightarrow> hs_device option" where
  "describe_darwin K T cs e = do {
     let iface = parent_of_class T ''IOUSBInterface'' e;
     let usb = parent_of_class T ''IOUSBDevice'' iface;
     c_assert (iface \<noteq> 0 \<and> usb \<noteq> 0);
     (session, vid, pid, n) \<leftarrow> numbers_at K T usb iface;
     loc \<leftarrow> location_of K T cs usb;
     (ty, vt, path) \<leftarrow> node_of T e;
     Some \<lparr>d_monitor = NULL, refcount = 1, d_key = Some (session_key session), d_type = ty, d_vtable = vt,
       d_state = HS_DEVICE_STATUS_DISCONNECTED, d_location = Some loc, d_path = Some path, d_vid = vid, d_pid = pid,
       d_manufacturer = string_at T usb ''USB Vendor Name'', d_product = string_at T usb ''USB Product Name'',
       d_serial = string_at T usb ''USB Serial Number'', d_iface = n\<rparr>
   }"

lemma get_property_number_run:
  assumes w: "io_works K T g live" and run: "get_property_number K e k s = (r, n, s')"
  shows "moved g live 0 s s'"
    and "if r then n = number_at K T e k kCFNumberSInt64Type \<and> n \<noteq> None else number_at K T e k kCFNumberSInt64Type = None"
    and "n = Some x \<Longrightarrow> \<exists>m. rt_prop T e k = Some (CF_Number m) \<and> x = snd (dw_number (io_os K) kCFNumberSInt64Type m)"
proof -
  obtain r1 n1 s1 where v: "get_ioregistry_value_number K e k kCFNumberSInt64Type s = (r1, n1, s1)"
    by (cases "get_ioregistry_value_number K e k kCFNumberSInt64Type s")
  note vr = value_number_run [OF w v]
  have eq: "r1 = r" "n1 = n" "s' = (if r then s1 else warn (''Missing property '' @ sq k @ '', ignoring device'') s1)"
    using run v by (auto simp: get_property_number_def Let_def split: if_splits)
  show "moved g live 0 s s'" using vr eq(3) by simp
  show "if r then n = number_at K T e k kCFNumberSInt64Type \<and> n \<noteq> None else number_at K T e k kCFNumberSInt64Type = None"
    using vr eq(1,2) by auto
  show "n = Some x \<Longrightarrow> \<exists>m. rt_prop T e k = Some (CF_Number m) \<and> x = snd (dw_number (io_os K) kCFNumberSInt64Type m)"
    using vr eq(2) by auto
qed

lemma put_pid_run:
  assumes "\<And>x. n = Some x \<Longrightarrow> 0 \<le> x \<and> x < 2 ^ 16"
  shows "put_pid n d = Some (case n of None \<Rightarrow> d | Some x \<Rightarrow> d\<lparr>d_pid := word_of_int x\<rparr>)"
proof (cases n)
  case (Some x)
  have x: "0 \<le> x" "x < 2 ^ 16" using assms [OF Some] by simp_all
  have "take_bit 64 x = x" "drop_bit 48 x = 0"
    using x by (simp_all add: take_bit_int_eq_self drop_bit_eq_div)
  then have "drop_bit 48 (word_of_int x :: uint64) = word_of_int 0"
    by (intro word_uint_eqI) (simp add: unsigned_drop_bit_eq uint_word_of_int_eq del: drop_bit_eq_div)
  then have "drop_bit 48 (word_of_int x :: uint64) = 0" by simp
  with Some show ?thesis by (simp add: put_pid_def)
qed (simp add: put_pid_def)

lemma fill_numbers_run:
  assumes w: "io_works K T g live"
  shows "\<exists>session d' s'. fill_numbers K usb iface d s = Some (session, d', s') \<and> moved g live 0 s s' \<and> refcount d' = refcount d \<and>
     (case numbers_at K T usb iface of
        None \<Rightarrow> session = None
      | Some (sess, vid, pid, n) \<Rightarrow> session = Some sess \<and> d' = d\<lparr>d_vid := vid, d_pid := pid, d_iface := n\<rparr>)"
proof -
  let ?n = "\<lambda>e k. number_at K T e k kCFNumberSInt64Type"
  obtain r1 n1 s1 where 1: "get_property_number K usb ''sessionID'' s = (r1, n1, s1)" by (cases "get_property_number K usb ''sessionID'' s")
  obtain r2 n2 s2 where 2: "get_property_number K usb ''idVendor'' s1 = (r2, n2, s2)" by (cases "get_property_number K usb ''idVendor'' s1")
  obtain r3 n3 s3 where 3: "get_property_number K usb ''idProduct'' s2 = (r3, n3, s3)" by (cases "get_property_number K usb ''idProduct'' s2")
  obtain r4 n4 s4 where 4: "get_property_number K iface ''bInterfaceNumber'' s3 = (r4, n4, s4)"
    by (cases "get_property_number K iface ''bInterfaceNumber'' s3")
  note g1 = get_property_number_run [OF w 1] and g2 = get_property_number_run [OF w 2]
    and g3 = get_property_number_run [OF w 3] and g4 = get_property_number_run [OF w 4]
  have m: "moved g live 0 s s1" "moved g live 0 s s2" "moved g live 0 s s3" "moved g live 0 s s4"
    using g1(1) g2(1) g3(1) g4(1) by (simp_all add: moved_def)
  have "\<And>x. n3 = Some x \<Longrightarrow> 0 \<le> x \<and> x < 2 ^ 16"
    using g3(3) w by (auto simp: io_works_def registry_sound_def)
  then have put: "put_pid n3 d' = Some (case n3 of None \<Rightarrow> d' | Some x \<Rightarrow> d'\<lparr>d_pid := word_of_int x\<rparr>)" for d'
    by (rule put_pid_run)
  have rc: "refcount (put_vid n d') = refcount d'" "refcount (put_iface n d') = refcount d'" for n d'
    by (simp_all add: put_vid_def put_iface_def split: option.splits)
  consider (a) "\<not> r1" | (b) "r1" "\<not> r2" | (c) "r1" "r2" "\<not> r3" | (d) "r1" "r2" "r3" "\<not> r4" | (e) "r1" "r2" "r3" "r4" by blast
  then show ?thesis
  proof cases
    case a
    with 1 g1(2) m show ?thesis by (simp add: fill_numbers_def numbers_at_def)
  next
    case b
    with 1 2 g1(2) g2(2) m rc show ?thesis by (auto simp: fill_numbers_def numbers_at_def)
  next
    case c
    with 1 2 3 g1(2) g2(2) g3(2) m rc put show ?thesis
      by (auto simp: fill_numbers_def numbers_at_def split: option.splits)
  next
    case d
    with 1 2 3 4 g1(2) g2(2) g3(2) g4(2) m rc put show ?thesis
      by (auto simp: fill_numbers_def numbers_at_def split: option.splits)
  next
    case e
    then obtain x y z u where v: "n1 = Some x" "n2 = Some y" "n3 = Some z" "n4 = Some u"
        "?n usb ''sessionID'' = Some x" "?n usb ''idVendor'' = Some y" "?n usb ''idProduct'' = Some z"
        "?n iface ''bInterfaceNumber'' = Some u"
      using g1(2) g2(2) g3(2) g4(2) by auto
    have "numbers_at K T usb iface = Some (word_of_int x, word_of_int y, word_of_int z, word_of_int u)"
      by (simp add: numbers_at_def v)
    moreover have "fill_numbers K usb iface d s = Some (Some (word_of_int x), put_iface n4 ((put_vid n2 d)\<lparr>d_pid := word_of_int z\<rparr>), s4)"
      using e 1 2 3 4 v(1,3) put by (simp add: fill_numbers_def)
    ultimately show ?thesis using m(4) rc v by (simp add: put_vid_def put_iface_def)
  qed
qed

lemma get_property_string_run:
  assumes w: "io_works K T g live" and run: "get_property_string K e k upd d s = (r, d', s')"
    and upd: "\<And>x. refcount (upd x d) = refcount d" "upd None d = d"
  shows "moved g live 0 s s' \<and> refcount d' = refcount d \<and> (r = 0 \<and> d' = upd (string_at T e k) d \<or> r < 0)"
proof -
  obtain r1 x s1 where v: "get_ioregistry_value_string K e k s = (r1, x, s1)" by (cases "get_ioregistry_value_string K e k s")
  with value_string_run [OF w v] run upd show ?thesis
    by (auto simp: get_property_string_def text_result_def)
qed

lemma fill_strings_darwin_run:
  assumes w: "io_works K T g live" and run: "fill_strings_darwin K usb d s = (r, d', s')"
    and none: "d_manufacturer d = None" "d_product d = None" "d_serial d = None"
  shows "moved g live 0 s s' \<and> refcount d' = refcount d \<and> (r < 0 \<or> r = 0 \<and>
     d' = d\<lparr>d_manufacturer := string_at T usb ''USB Vendor Name'', d_product := string_at T usb ''USB Product Name'',
       d_serial := string_at T usb ''USB Serial Number''\<rparr>)"
proof -
  let ?s = "string_at T usb"
  note get = get_property_string_run [OF w]
  obtain r1 d1 s1 where p1: "get_property_string K usb ''USB Vendor Name'' (\<lambda>x d. d\<lparr>d_manufacturer := x\<rparr>) d s = (r1, d1, s1)"
    by (cases "get_property_string K usb ''USB Vendor Name'' (\<lambda>x d. d\<lparr>d_manufacturer := x\<rparr>) d s")
  have e1: "moved g live 0 s s1" "refcount d1 = refcount d" "r1 = 0 \<and> d1 = d\<lparr>d_manufacturer := ?s ''USB Vendor Name''\<rparr> \<or> r1 < 0"
    using get [OF p1] none by simp_all
  show ?thesis
  proof (cases "r1 < 0")
    case True
    with e1 p1 run show ?thesis by (simp add: fill_strings_darwin_def)
  next
    case f1: False
    then have d1: "d1 = d\<lparr>d_manufacturer := ?s ''USB Vendor Name''\<rparr>" using e1(3) by simp
    obtain r2 d2 s2 where p2: "get_property_string K usb ''USB Product Name'' (\<lambda>x d. d\<lparr>d_product := x\<rparr>) d1 s1 = (r2, d2, s2)"
      by (cases "get_property_string K usb ''USB Product Name'' (\<lambda>x d. d\<lparr>d_product := x\<rparr>) d1 s1")
    have e2: "moved g live 0 s1 s2" "refcount d2 = refcount d" "r2 = 0 \<and> d2 = d1\<lparr>d_product := ?s ''USB Product Name''\<rparr> \<or> r2 < 0"
      using get [OF p2] none by (simp_all add: d1)
    have m2: "moved g live 0 s s2" using moved_trans [OF e1(1) e2(1)] by simp
    show ?thesis
    proof (cases "r2 < 0")
      case True
      with f1 e2(2) m2 p1 p2 run show ?thesis by (simp add: fill_strings_darwin_def)
    next
      case f2: False
      then have d2: "d2 = d1\<lparr>d_product := ?s ''USB Product Name''\<rparr>" using e2(3) by simp
      have p3: "get_property_string K usb ''USB Serial Number'' (\<lambda>x d. d\<lparr>d_serial := x\<rparr>) d2 s2 = (r, d', s')"
        using f1 f2 p1 p2 run by (simp add: fill_strings_darwin_def)
      have "moved g live 0 s2 s'" "refcount d' = refcount d" "r = 0 \<and> d' = d2\<lparr>d_serial := ?s ''USB Serial Number''\<rparr> \<or> r < 0"
        using get [OF p3] none by (simp_all add: d1 d2)
      then show ?thesis using moved_trans [OF m2, of 0 s'] by (auto simp: d1 d2)
    qed
  qed
qed

lemma find_device_node_darwin_run:
  assumes w: "io_works K T g live" and run: "find_device_node_darwin K d e s = (r, d', s')"
  shows "moved g live 0 s s' \<and> refcount d' = refcount d \<and>
     (case node_of T e of
        None \<Rightarrow> r \<le> 0
      | Some (ty, vt, path) \<Rightarrow> r = 1 \<and> d' = d\<lparr>d_type := ty, d_vtable := vt, d_path := Some path\<rparr> \<or> r < 0)"
proof -
  obtain b1 s1 where 1: "sys (io_conforms K e ''IOSerialBSDClient'') s = (b1, s1)" by (cases "sys (io_conforms K e ''IOSerialBSDClient'') s")
  note c1 = io_works_step(2) [OF w 1]
  show ?thesis
  proof (cases b1)
    case True
    obtain r2 x s2 where 2: "get_ioregistry_value_string K e ''IOCalloutDevice'' s1 = (r2, x, s2)"
      by (cases "get_ioregistry_value_string K e ''IOCalloutDevice'' s1")
    note v = value_string_run [OF w 2]
    have "moved g live 0 s s2" using moved_trans [of g live 0 s s1 0 s2] c1 v by simp
    with True 1 2 c1 v run show ?thesis
      by (cases "string_at T e ''IOCalloutDevice''") (auto simp: find_device_node_darwin_def node_of_def text_result_def Let_def)
  next
    case False
    obtain b2 s2 where 2: "sys (io_conforms K e ''IOHIDDevice'') s1 = (b2, s2)" by (cases "sys (io_conforms K e ''IOHIDDevice'') s1")
    note c2 = io_works_step(2) [OF w 2]
    obtain r3 x s3 where 3: "get_ioregistry_entry_path K e s2 = (r3, x, s3)" by (cases "get_ioregistry_entry_path K e s2")
    note v = entry_path_run [OF w 3]
    have m: "moved g live 0 s s2" "moved g live 0 s s3" using c1 c2 v by (simp_all add: moved_def)
    show ?thesis
    proof (cases b2)
      case True
      with False 1 2 3 c1 c2 v m run show ?thesis
        by (cases "rt_path T kIOServicePlane e") (auto simp: find_device_node_darwin_def node_of_def split: if_splits)
    next
      case f2: False
      with False 1 2 c1 c2 m run show ?thesis by (auto simp: find_device_node_darwin_def node_of_def)
    qed
  qed
qed

text \<open>A device in the making: described by \<open>X\<close>, none, or an error.\<close>

definition made :: "int \<Rightarrow> hs_device \<Rightarrow> hs_device option \<Rightarrow> bool" where
  "made r d X \<longleftrightarrow> refcount d = 1 \<and> (r = 1 \<and> X = Some d \<or> r = 0 \<and> X = None \<or> r < 0)"


lemma describe_darwin_eq:
  assumes "iface = parent_of_class T ''IOUSBInterface'' e" and "usb = parent_of_class T ''IOUSBDevice'' iface"
    and "iface \<noteq> 0" and "usb \<noteq> 0"
  shows "describe_darwin K T cs e =
     (case numbers_at K T usb iface of
        None \<Rightarrow> None
      | Some (session, vid, pid, n) \<Rightarrow>
         (case location_of K T cs usb of
            None \<Rightarrow> None
          | Some loc \<Rightarrow>
             (case node_of T e of
                None \<Rightarrow> None
              | Some (ty, vt, path) \<Rightarrow>
                 Some (zero_device\<lparr>refcount := 1, d_vid := vid, d_pid := pid, d_iface := n, d_key := Some (session_key session),
                   d_manufacturer := string_at T usb ''USB Vendor Name'', d_product := string_at T usb ''USB Product Name'',
                   d_serial := string_at T usb ''USB Serial Number'', d_location := Some loc,
                   d_type := ty, d_vtable := vt, d_path := Some path\<rparr>))))"
  using assms by (simp add: describe_darwin_def zero_device_def Let_def bind_split split: option.splits)

lemma fill_darwin_device_run:
  assumes w: "io_works K T g live" and usb: "iface = parent_of_class T ''IOUSBInterface'' e" "usb = parent_of_class T ''IOUSBDevice'' iface"
    "iface \<noteq> 0" "usb \<noteq> 0"
  shows "\<exists>r d s'. fill_darwin_device K cs e usb iface (zero_device\<lparr>refcount := 1\<rparr>) s = Some (r, d, s') \<and> moved g live 0 s s' \<and>
     made r d (describe_darwin K T cs e)"
proof -
  let ?d0 = "zero_device\<lparr>refcount := 1\<rparr>"
  note describe = describe_darwin_eq [OF usb, of K cs]
  obtain session d1 s1 where n: "fill_numbers K usb iface ?d0 s = Some (session, d1, s1)" "moved g live 0 s s1" "refcount d1 = 1"
      "case numbers_at K T usb iface of None \<Rightarrow> session = None
       | Some (sess, vid, pid, n) \<Rightarrow> session = Some sess \<and> d1 = ?d0\<lparr>d_vid := vid, d_pid := pid, d_iface := n\<rparr>"
    using fill_numbers_run [OF w, of usb iface ?d0 s] by auto
  show ?thesis
  proof (cases "numbers_at K T usb iface")
    case None
    with n describe show ?thesis by (simp add: fill_darwin_device_def made_def)
  next
    case (Some q)
    obtain sess vid pid m where q: "q = (sess, vid, pid, m)" by (cases q) auto
    have d1: "session = Some sess" "d1 = ?d0\<lparr>d_vid := vid, d_pid := pid, d_iface := m\<rparr>" using n(4) Some q by simp_all
    let ?d1 = "d1\<lparr>d_key := Some (session_key sess)\<rparr>"
    obtain ok s2 where a: "sys (dw_malloc (io_os K) (length (session_key sess) + 1)) s1 = (ok, s2)"
      by (cases "sys (dw_malloc (io_os K) (length (session_key sess) + 1)) s1")
    have m2: "moved g live 0 s s2" using moved_trans [OF n(2) io_works_step(5) [OF w a]] by simp
    obtain r3 s3 where f: "fail_with HS_ERROR_MEMORY None s2 = (r3, s3)" by (cases "fail_with HS_ERROR_MEMORY None s2")
    have f3: "moved g live 0 s s3" "r3 < 0"
      using moved_fail [OF f, where g = g and live = live] moved_trans [OF m2, of 0 s3] by simp_all
    obtain r4 d4 s4 where st: "fill_strings_darwin K usb ?d1 s2 = (r4, d4, s4)" by (cases "fill_strings_darwin K usb ?d1 s2")
    have "d_manufacturer ?d1 = None" "d_product ?d1 = None" "d_serial ?d1 = None" by (simp_all add: d1(2) zero_device_def)
    note sr = fill_strings_darwin_run [OF w st this]
    have s4: "moved g live 0 s s4" "refcount d4 = 1" using moved_trans [OF m2, of 0 s4] sr n(3) by simp_all
    obtain r5 loc s5 where l: "resolve_device_location_darwin K cs usb s4 = Some (r5, loc, s5)" "moved g live 0 s4 s5"
        "text_result r5 loc (location_of K T cs usb)" using resolve_location_run [OF w usb(4)] by blast
    have s5: "moved g live 0 s s5" using moved_trans [OF s4(1) l(2)] by simp
    note run = fill_darwin_device_def n(1) d1(1) a [simplified]
    consider "\<not> ok" | "ok" "r4 < 0" | "ok" "\<not> r4 < 0" "r5 \<le> 0" | "ok" "\<not> r4 < 0" "0 < r5" by linarith
    then show ?thesis
    proof cases
      case 1
      with f f3 n(3) show ?thesis by (simp add: run made_def)
    next
      case 2
      with s4 st show ?thesis by (simp add: run made_def)
    next
      case 3
      then have "r5 < 0 \<or> r5 = 0 \<and> describe_darwin K T cs e = None"
        using l(3) describe Some q by (auto simp: text_result_def)
      with 3 s4 s5 st l(1) show ?thesis by (auto simp: run made_def)
    next
      case 4
      then have loc: "location_of K T cs usb = loc" "loc \<noteq> None" using l(3) by (auto simp: text_result_def)
      let ?d5 = "d4\<lparr>d_location := loc\<rparr>"
      obtain r6 d6 s6 where nd: "find_device_node_darwin K ?d5 e s5 = (r6, d6, s6)" by (cases "find_device_node_darwin K ?d5 e s5")
      note nr = find_device_node_darwin_run [OF w nd]
      have s6: "moved g live 0 s s6" "refcount d6 = 1" using moved_trans [OF s5, of 0 s6] nr s4(2) by simp_all
      have d4: "d4 = ?d1\<lparr>d_manufacturer := string_at T usb ''USB Vendor Name'', d_product := string_at T usb ''USB Product Name'',
          d_serial := string_at T usb ''USB Serial Number''\<rparr>" using sr 4(2) by auto
      have "made r6 d6 (describe_darwin K T cs e)"
        using nr s6(2) loc describe Some q
        by (auto simp: made_def d4 d1(2) split: option.splits)
      with 4 st l(1) nd s6(1) show ?thesis by (simp add: run)
    qed
  qed
qed

text \<open>
  The course of \<open>process_darwin_device\<close>: a new device that the registry describes, no device because it
  describes none, or an error. No reference is left behind.
\<close>

definition processed ::
  "('w \<Rightarrow> 'g) \<Rightarrow> ('w \<Rightarrow> int) \<Rightarrow> 'w hs_state \<Rightarrow> hs_device option \<Rightarrow> int \<Rightarrow> addr \<Rightarrow> 'w hs_state \<Rightarrow> bool" where
  "processed g live s X r p s' \<longleftrightarrow> (\<exists>s1. moved g live 0 s s1 \<and>
     ((\<exists>d. r = 1 \<and> X = Some d \<and> new_device s1 p d \<and> s' = device_alloc p d s1) \<or>
      r \<le> 0 \<and> p = NULL \<and> s' = s1 \<and> (r = 0 \<longrightarrow> X = None)))"

lemma describe_darwin_new:
  assumes "describe_darwin K T cs e = Some d"
  shows "refcount d = 1 \<and> d_state d = HS_DEVICE_STATUS_DISCONNECTED \<and>
     (\<exists>n. number_at K T (parent_of_class T ''IOUSBDevice'' (parent_of_class T ''IOUSBInterface'' e)) ''sessionID'' kCFNumberSInt64Type = Some n \<and>
        d_key d = Some (session_key (word_of_int n)))"
  using assms by (auto simp: describe_darwin_def numbers_at_def Let_def split: bind_splits)

lemma release_alloc: "io_release K e (device_alloc p d s) = device_alloc p d (io_release K e s)"
  by (simp add: io_release_def sys_do_def device_alloc_def)

lemma process_darwin_run:
  assumes w: "io_works K T g live" and al: "allocates alloc"
  shows "\<exists>r p s'. process_darwin_device K alloc cs e s = Some (r, p, s') \<and> processed g live s (describe_darwin K T cs e) r p s'"
proof -
  let ?i = "parent_of_class T ''IOUSBInterface'' e"
  let ?u = "parent_of_class T ''IOUSBDevice'' ?i"
  obtain s1 where 1: "find_conforming_parent K e ''IOUSBInterface'' s = Some (?i, s1)" "moved g live (if ?i = 0 then 0 else 1) s s1"
    using find_conforming_parent_run [OF w] by blast
  obtain s2 where 2: "find_conforming_parent K ?i ''IOUSBDevice'' s1 = Some (?u, s2)" "moved g live (if ?u = 0 then 0 else 1) s1 s2"
    using find_conforming_parent_run [OF w] by blast
  show ?thesis
  proof (cases "?i = 0 \<or> ?u = 0")
    case True
    then have none: "describe_darwin K T cs e = None" by (auto simp: describe_darwin_def Let_def)
    show ?thesis
    proof (cases "?i = 0")
      case True
      with 1 none show ?thesis by (auto simp: process_darwin_device_def processed_def)
    next
      case i: False
      then have u: "?u = 0" using True by simp
      have "moved g live (1 + 0 + -1) s (io_release K ?i s2)"
        using moved_trans [OF moved_trans [OF 1(2) 2(2)] io_works_step(8) [OF w]] i u by simp
      with i u 1(1) 2(1) none show ?thesis by (simp add: process_darwin_device_def processed_def)
    qed
  next
    case False
    then have iu: "?i \<noteq> 0" "?u \<noteq> 0" by simp_all
    have m2: "moved g live 2 s s2" using moved_trans [OF 1(2) 2(2)] iu by simp
    have gives: "moved g live 0 s (io_release K ?i (io_release K ?u s3))" if "moved g live 0 s2 s3" for s3
    proof -
      have "moved g live (2 + 0) s s3" by (rule moved_trans [OF m2 that])
      from moved_trans [OF moved_trans [OF this io_works_step(8) [OF w]] io_works_step(8) [OF w]] show ?thesis by simp
    qed
    show ?thesis
    proof (cases "alloc s2 = NULL")
      case True
      obtain r3 s3 where f: "fail_with HS_ERROR_MEMORY None s2 = (r3, s3)" by (cases "fail_with HS_ERROR_MEMORY None s2")
      note f3 = moved_fail [OF f, where g = g and live = live]
      with gives [of s3] True iu 1(1) 2(1) f show ?thesis by (auto simp: process_darwin_device_def processed_def)
    next
      case False
      then have v: "vacant s2 (alloc s2)" by (rule allocatesD [OF al])
      obtain r d s3 where p: "fill_darwin_device K cs e ?u ?i (zero_device\<lparr>refcount := 1\<rparr>) s2 = Some (r, d, s3)" "moved g live 0 s2 s3"
          "made r d (describe_darwin K T cs e)" using fill_darwin_device_run [OF w refl refl iu] by blast
      have v3: "vacant s3 (alloc s2)" using vacant_idle [OF v] moved_idle [OF p(2)] by simp
      let ?s4 = "io_release K ?i (io_release K ?u s3)"
      have v4: "vacant ?s4 (alloc s2)" using v3 by (simp add: io_release_def sys_do_def vacant_def)
      note run = process_darwin_device_def 1(1) 2(1) p(1)
      show ?thesis
      proof (cases "r \<le> 0")
        case True
        have "hs_device_unref (alloc s2) (device_alloc (alloc s2) d s3) = Some s3"
          by (rule unref_unannounced [OF v3]) (use p(3) in \<open>simp add: made_def\<close>)
        with True False iu p(3) gives [OF p(2)] show ?thesis by (auto simp: run processed_def made_def)
      next
        case r: False
        then have d: "r = 1" "describe_darwin K T cs e = Some d" using p(3) by (auto simp: made_def)
        have "new_device ?s4 (alloc s2) d"
          using v4 describe_darwin_new [OF d(2)] by (auto simp: new_device_def vacant_def)
        then have "processed g live s (describe_darwin K T cs e) 1 (alloc s2) (device_alloc (alloc s2) d ?s4)"
          using d gives [OF p(2)] unfolding processed_def by blast
        with False iu d(1) show ?thesis by (simp add: run release_alloc Let_def)
      qed
    qed
  qed
qed

end
