(* ===== verification/FeedDarwin.thy ===== *)
theory FeedDarwin
  imports DescribeDarwin "HOL-Library.Sublist"
begin

text \<open>
  What the iterators and messages of IOKit feed to the monitor on macOS: an iterator of new entries gives the
  arrivals of the devices they describe, one of entries that are gone the departures of their sessions. A
  refresh works off the messages in their order.
\<close>

section \<open>Iterators\<close>

text \<open>
  The entries an iterator still gives, for every iterator, are a part \<open>its\<close> of the world; the rest the library
  must not disturb is \<open>msgs\<close>, the messages that have not been received.
\<close>

definition iterators_work :: "'w iokit \<Rightarrow> ('w \<Rightarrow> nat \<Rightarrow> nat list) \<Rightarrow> ('w \<Rightarrow> 'm) \<Rightarrow> ('w \<Rightarrow> int) \<Rightarrow> bool" where
  "iterators_work K its msgs live \<longleftrightarrow>
     (\<forall>it w. msgs (snd (io_next K it w)) = msgs w \<and>
       (case its w it of
          [] \<Rightarrow> fst (io_next K it w) = 0 \<and> its (snd (io_next K it w)) = its w \<and> live (snd (io_next K it w)) = live w
        | e # es \<Rightarrow> fst (io_next K it w) = e \<and> e \<noteq> 0 \<and> its (snd (io_next K it w)) = (its w)(it := es) \<and>
            live (snd (io_next K it w)) = live w + 1))"

definition both :: "('w \<Rightarrow> 'a) \<Rightarrow> ('w \<Rightarrow> 'b) \<Rightarrow> 'w \<Rightarrow> 'a \<times> 'b" where
  "both f g w = (f w, g w)"

lemma next_run:
  assumes k: "iterators_work K its msgs live" and run: "sys (io_next K it) s = (e, s')"
  shows "its (ext s) it = [] \<Longrightarrow> e = 0 \<and> moved (both its msgs) live 0 s s'"
    and "its (ext s) it = x # es \<Longrightarrow> e = x \<and> e \<noteq> 0 \<and> idle s s' \<and> its (ext s') = (its (ext s))(it := es) \<and>
      msgs (ext s') = msgs (ext s) \<and> live (ext s') = live (ext s) + 1"
proof -
  have s': "e = fst (io_next K it (ext s))" "s' = s\<lparr>ext := snd (io_next K it (ext s))\<rparr>" using run by (simp_all add: sys_eq)
  have k1: "msgs (snd (io_next K it (ext s))) = msgs (ext s)"
    "case its (ext s) it of
          [] \<Rightarrow> fst (io_next K it (ext s)) = 0 \<and> its (snd (io_next K it (ext s))) = its (ext s) \<and> live (snd (io_next K it (ext s))) = live (ext s)
        | e # es \<Rightarrow> fst (io_next K it (ext s)) = e \<and> e \<noteq> 0 \<and> its (snd (io_next K it (ext s))) = (its (ext s))(it := es) \<and>
            live (snd (io_next K it (ext s))) = live (ext s) + 1"
    using k unfolding iterators_work_def by blast+
  show "its (ext s) it = [] \<Longrightarrow> e = 0 \<and> moved (both its msgs) live 0 s s'"
    using k1 s' by (simp add: moved_def obs_def both_def)
  show "its (ext s) it = x # es \<Longrightarrow> e = x \<and> e \<noteq> 0 \<and> idle s s' \<and> its (ext s') = (its (ext s))(it := es) \<and>
      msgs (ext s') = msgs (ext s) \<and> live (ext s') = live (ext s) + 1"
    using k1 s' by (simp add: idle_def)
qed

text \<open>What is the same before and after, given the iterators after.\<close>

definition drained ::
  "('w \<Rightarrow> nat \<Rightarrow> nat list) \<Rightarrow> ('w \<Rightarrow> 'm) \<Rightarrow> ('w \<Rightarrow> int) \<Rightarrow> (nat \<Rightarrow> nat list) \<Rightarrow> int \<Rightarrow> 'w hs_state \<Rightarrow> 'w hs_state \<Rightarrow> bool" where
  "drained its msgs live I n s s' \<longleftrightarrow> its (ext s') = I \<and> msgs (ext s') = msgs (ext s) \<and> live (ext s') = live (ext s) + n"

lemma drained_trans:
  "drained its msgs live I m s s1 \<Longrightarrow> drained its msgs live J n s1 s2 \<Longrightarrow> drained its msgs live J (m + n) s s2"
  by (simp add: drained_def)

lemma moved_drained: "moved (both its msgs) live n s s' \<Longrightarrow> drained its msgs live (its (ext s)) n s s'"
  by (simp add: moved_def obs_def both_def drained_def)

section \<open>Arrivals\<close>

definition arrivals :: "'w iokit \<Rightarrow> registry_tree \<Rightarrow> controllers \<Rightarrow> nat list \<Rightarrow> feed_event list" where
  "arrivals K T cs es = List.map_filter (\<lambda>e. map_option (\<lambda>d. Arrive (d_key d, d_iface d)) (describe_darwin K T cs e)) es"

lemma arrivals_simps [simp]:
  "arrivals K T cs [] = []"
  "arrivals K T cs (e # es) =
     (case describe_darwin K T cs e of None \<Rightarrow> [] | Some d \<Rightarrow> [Arrive (d_key d, d_iface d)]) @ arrivals K T cs es"
  by (simp_all add: arrivals_def List.map_filter_simps split: option.splits)

text \<open>
  The outcome of going through an iterator with the entries \<open>es\<close>: all have arrived, or one failed, those before
  it have arrived and those behind it are still to come.
\<close>

definition went_through ::
  "('w \<Rightarrow> nat \<Rightarrow> nat list) \<Rightarrow> ('w \<Rightarrow> 'm) \<Rightarrow> ('w \<Rightarrow> int) \<Rightarrow> (nat list \<Rightarrow> feed_event list) \<Rightarrow> nat list \<Rightarrow> nat
     \<Rightarrow> (feed_event list \<Rightarrow> 'w hs_state \<Rightarrow> bool) \<Rightarrow> 'w hs_state \<Rightarrow> int \<Rightarrow> 'w hs_state \<Rightarrow> bool" where
  "went_through its msgs live arr es it fed s r s' \<longleftrightarrow>
     r = 0 \<and> fed (arr es) s' \<and> drained its msgs live ((its (ext s))(it := [])) 0 s s' \<or>
     r < 0 \<and> (\<exists>n < length es. fed (arr (take n es)) s' \<and>
       drained its msgs live ((its (ext s))(it := drop (Suc n) es)) 0 s s')"

lemma process_iterator_run:
  assumes w: "io_works K T (both its msgs) live" and k: "iterators_work K its msgs live" and al: "allocates alloc"
    and kp: "keeps (both its msgs) call" "keeps live call"
  shows "knows call mp s I \<Longrightarrow> its (ext s) it = es \<Longrightarrow>
     \<exists>r s'. process_iterator_devices K alloc cs (hs_monitor_add call mp) it s = Some (r, s') \<and>
       went_through its msgs live (arrivals K T cs) es it (monitor_feeds call mp s) s r s'"
proof (induction es arbitrary: s I)
  case Nil
  obtain e s1 where n: "sys (io_next K it) s = (e, s1)" by (cases "sys (io_next K it) s")
  have e: "e = 0" "moved (both its msgs) live 0 s s1" using next_run(1) [OF k n Nil(2)] by simp_all
  have f: "monitor_feeds call mp s [] s1" by (rule monitor_feeds_idle) (use moved_idle [OF e(2)] in simp)
  have "(its (ext s))(it := []) = its (ext s)" using Nil(2) by (simp add: fun_upd_idem)
  then have "drained its msgs live ((its (ext s))(it := [])) 0 s s1" using moved_drained [OF e(2)] by simp
  with f n e(1) show ?case
    by (subst process_iterator_devices.simps) (simp add: went_through_def)
next
  case (Cons x es)
  obtain e s1 where n: "sys (io_next K it) s = (e, s1)" by (cases "sys (io_next K it) s")
  have e: "e = x" "x \<noteq> 0" "idle s s1" "drained its msgs live ((its (ext s))(it := es)) 1 s s1"
    using next_run(2) [OF k n Cons.prems(2)] by (simp_all add: drained_def)
  obtain r p s2 where pr: "process_darwin_device K alloc cs x s1 = Some (r, p, s2)"
      "processed (both its msgs) live s1 (describe_darwin K T cs x) r p s2"
    using process_darwin_run [OF w al] by blast
  then obtain s3 where s3: "moved (both its msgs) live 0 s1 s3"
      "(\<exists>d. r = 1 \<and> describe_darwin K T cs x = Some d \<and> new_device s3 p d \<and> s2 = device_alloc p d s3) \<or>
       r \<le> 0 \<and> p = NULL \<and> s2 = s3 \<and> (r = 0 \<longrightarrow> describe_darwin K T cs x = None)"
    unfolding processed_def by blast
  let ?s4 = "io_release K x s3"
  have m4: "moved (both its msgs) live (-1) s1 ?s4" using moved_trans [OF s3(1) io_works_step(8) [OF w]] by simp
  have i4: "idle s ?s4" by (rule idle_trans [OF e(3)]) (use moved_idle [OF m4] in simp)
  have d4: "drained its msgs live ((its (ext s))(it := es)) 0 s ?s4"
    using drained_trans [OF e(4) moved_drained [OF m4]] e(4) by (simp add: drained_def)
  have k4: "knows call mp ?s4 I" by (rule knows_idle [OF Cons.prems(1) i4])
  have its4: "its (ext ?s4) it = es" using d4 by (simp add: drained_def)
  have upd: "its (ext s') = its (ext ?s4) \<Longrightarrow> (its (ext s'))(it := l) = (its (ext s))(it := l)" for s' l
    using d4 by (simp add: drained_def)
  note simps = process_iterator_devices.simps [of K alloc cs "hs_monitor_add call mp" it s]
  have step: "\<exists>r s'. process_iterator_devices K alloc cs (hs_monitor_add call mp) it s = Some (r, s') \<and>
       went_through its msgs live (arrivals K T cs) (x # es) it (monitor_feeds call mp s) s r s'"
    if f5: "monitor_feeds call mp s (arrivals K T cs [x]) s5" and d5: "drained its msgs live ((its (ext s))(it := es)) 0 s s5"
      and k5: "knows call mp s5 I5"
      and run: "process_iterator_devices K alloc cs (hs_monitor_add call mp) it s =
        process_iterator_devices K alloc cs (hs_monitor_add call mp) it s5" for s5 I5
  proof -
    have its5: "its (ext s5) it = es" "\<And>l. (its (ext s5))(it := l) = (its (ext s))(it := l)" using d5 by (simp_all add: drained_def)
    obtain r' s' where ih: "process_iterator_devices K alloc cs (hs_monitor_add call mp) it s5 = Some (r', s')"
        "went_through its msgs live (arrivals K T cs) es it (monitor_feeds call mp s5) s5 r' s'"
      using Cons.IH [OF k5 its5(1)] by blast
    have app: "monitor_feeds call mp s5 (arrivals K T cs l) s' \<Longrightarrow> monitor_feeds call mp s (arrivals K T cs (x # l)) s'" for l
      using feeds_append [OF f5, of "arrivals K T cs l" s'] by simp
    have dr: "drained its msgs live J 0 s5 s' \<Longrightarrow> drained its msgs live J 0 s s'" for J
      using drained_trans [OF d5] by fastforce
    from ih(2) consider "r' = 0" "monitor_feeds call mp s5 (arrivals K T cs es) s'" "drained its msgs live ((its (ext s))(it := [])) 0 s5 s'"
      | n where "r' < 0" "n < length es" "monitor_feeds call mp s5 (arrivals K T cs (take n es)) s'"
          "drained its msgs live ((its (ext s))(it := drop (Suc n) es)) 0 s5 s'"
      unfolding went_through_def its5(2) by blast
    then have "went_through its msgs live (arrivals K T cs) (x # es) it (monitor_feeds call mp s) s r' s'"
    proof cases
      case 1
      with app [of es] dr show ?thesis by (simp add: went_through_def)
    next
      case 2
      have "Suc n < length (x # es)" "monitor_feeds call mp s (arrivals K T cs (take (Suc n) (x # es))) s'"
        "drained its msgs live ((its (ext s))(it := drop (Suc (Suc n)) (x # es))) 0 s s'"
        using 2 app [of "take n es"] dr by simp_all
      with 2(1) show ?thesis unfolding went_through_def by blast
    qed
    with ih(1) run show ?thesis by auto
  qed
  from s3(2) consider "r < 0" "s2 = s3" | "r = 0" "s2 = s3" "describe_darwin K T cs x = None"
    | d where "r = 1" "describe_darwin K T cs x = Some d" "new_device s3 p d" "s2 = device_alloc p d s3" by force
  then show ?case
  proof cases
    case 1
    have "monitor_feeds call mp s (arrivals K T cs (take 0 (x # es))) ?s4"
      using monitor_feeds_idle [OF i4] by simp
    moreover have "drained its msgs live ((its (ext s))(it := drop (Suc 0) (x # es))) 0 s ?s4" using d4 by simp
    ultimately have "went_through its msgs live (arrivals K T cs) (x # es) it (monitor_feeds call mp s) s r ?s4"
      unfolding went_through_def using 1(1) by blast
    moreover have "process_iterator_devices K alloc cs (hs_monitor_add call mp) it s = Some (r, ?s4)"
      using simps n e(1,2) pr(1) 1 by simp
    ultimately show ?thesis by blast
  next
    case 2
    show ?thesis
      by (rule step [OF _ d4 k4]) (use simps n e(1,2) pr(1) 2 monitor_feeds_idle [OF i4] in simp_all)
  next
    case 3
    have nd: "new_device ?s4 p d" using 3(3) by (simp add: new_device_def io_release_def sys_do_def)
    obtain s5 where s5: "announce call mp p d ?s4 = Some (0, s5)" using announce_run [OF k4 nd] by blast
    have f: "monitor_feeds call mp s [Arrive (d_key d, d_iface d)] s5" by (rule monitor_feeds_arrive [OF i4 nd s5])
    have "both its msgs (ext s5) = both its msgs (ext ?s4)" "live (ext s5) = live (ext ?s4)"
      using announce_ext [OF kp(1) s5] announce_ext [OF kp(2) s5] by simp_all
    then have d5: "drained its msgs live ((its (ext s))(it := es)) 0 s s5" using d4 by (simp add: drained_def both_def)
    obtain s6 where s6: "hs_monitor_add call mp p (device_alloc p d ?s4) = Some (0, s6)" "hs_device_unref p s6 = Some s5"
      using s5 by (auto simp: announce_def split: bind_splits)
    show ?thesis
      by (rule step [OF _ d5 mon.feeds_known [OF f Cons.prems(1)]])
        (use simps n e(1,2) pr(1) 3 f s6 in \<open>simp_all add: release_alloc\<close>)
  qed
qed

section \<open>Departures\<close>

text \<open>The key \<open>remove_device\<close> makes of a session fits its buffer, so at most 15 characters of it are left.\<close>

definition departures :: "'w iokit \<Rightarrow> registry_tree \<Rightarrow> nat list \<Rightarrow> feed_event list" where
  "departures K T es =
     List.map_filter (\<lambda>e. map_option (\<lambda>n. Depart (take 15 (session_key (word_of_int n))))
       (number_at K T e ''sessionID'' kCFNumberSInt64Type)) es"

lemma departures_simps [simp]:
  "departures K T [] = []"
  "departures K T (e # es) =
     (case number_at K T e ''sessionID'' kCFNumberSInt64Type of
        None \<Rightarrow> [] | Some n \<Rightarrow> [Depart (take 15 (session_key (word_of_int n)))]) @ departures K T es"
  by (simp_all add: departures_def List.map_filter_simps split: option.splits)

lemma remove_device_run:
  assumes w: "io_works (dn_kit N) T (both its msgs) live" and kp: "keeps (both its msgs) call" "keeps live call"
    and kn: "knows call mp s I"
  shows "\<exists>s'. remove_device N call mp e s = Some s' \<and> monitor_feeds call mp s (departures (dn_kit N) T [e]) s' \<and>
     both its msgs (ext s') = both its msgs (ext s) \<and> live (ext s') = live (ext s)"
proof -
  obtain r n s1 where v: "get_ioregistry_value_number (dn_kit N) e ''sessionID'' kCFNumberSInt64Type s = (r, n, s1)"
    by (cases "get_ioregistry_value_number (dn_kit N) e ''sessionID'' kCFNumberSInt64Type s")
  note vr = value_number_run [OF w v]
  have i1: "idle s s1" "both its msgs (ext s1) = both its msgs (ext s)" "live (ext s1) = live (ext s)"
    using vr moved_idle [of "both its msgs" live 0 s s1] by (simp_all add: moved_def)
  show ?thesis
  proof (cases r)
    case False
    with v vr i1 monitor_feeds_idle [OF i1(1), of call mp] show ?thesis by (auto simp: remove_device_def)
  next
    case True
    then obtain x where x: "n = Some x" "number_at (dn_kit N) T e ''sessionID'' kCFNumberSInt64Type = Some x" using vr by auto
    let ?key = "take 15 (session_key (word_of_int x))"
    obtain s' where s': "hs_monitor_remove call mp ?key s1 = Some s'" using withdraw_run [OF knows_idle [OF kn i1(1)]] by blast
    have "monitor_feeds call mp s [Depart ?key] s'"
      using feeds_append [OF monitor_feeds_idle [OF i1(1)] monitor_feeds_depart [OF s']] by simp
    moreover have "both its msgs (ext s') = both its msgs (ext s)" "live (ext s') = live (ext s)"
      using hs_monitor_remove_ext [OF kp(1) s'] hs_monitor_remove_ext [OF kp(2) s'] i1 by simp_all
    ultimately show ?thesis using True v x s' by (auto simp: remove_device_def)
  qed
qed

lemma detached_run:
  assumes w: "io_works (dn_kit N) T (both its msgs) live" and k: "iterators_work (dn_kit N) its msgs live"
    and kp: "keeps (both its msgs) call" "keeps live call"
  shows "knows call mp s I \<Longrightarrow> its (ext s) it = es \<Longrightarrow>
     \<exists>s'. darwin_devices_detached N call mp it s = Some s' \<and> monitor_feeds call mp s (departures (dn_kit N) T es) s' \<and>
       drained its msgs live ((its (ext s))(it := [])) 0 s s'"
proof (induction es arbitrary: s I)
  case Nil
  obtain e s1 where n: "sys (io_next (dn_kit N) it) s = (e, s1)" by (cases "sys (io_next (dn_kit N) it) s")
  have e: "e = 0" "moved (both its msgs) live 0 s s1" using next_run(1) [OF k n Nil(2)] by simp_all
  have f: "monitor_feeds call mp s [] s1" by (rule monitor_feeds_idle) (use moved_idle [OF e(2)] in simp)
  have "(its (ext s))(it := []) = its (ext s)" using Nil(2) by (simp add: fun_upd_idem)
  then have "drained its msgs live ((its (ext s))(it := [])) 0 s s1" using moved_drained [OF e(2)] by simp
  with f n e(1) show ?case by (subst darwin_devices_detached.simps) simp
next
  case (Cons x es)
  obtain e s1 where n: "sys (io_next (dn_kit N) it) s = (e, s1)" by (cases "sys (io_next (dn_kit N) it) s")
  have e: "e = x" "x \<noteq> 0" "idle s s1" "drained its msgs live ((its (ext s))(it := es)) 1 s s1"
    using next_run(2) [OF k n Cons.prems(2)] by (simp_all add: drained_def)
  have k1: "knows call mp s1 I" by (rule knows_idle [OF Cons.prems(1) e(3)])
  obtain s2 where s2: "remove_device N call mp x s1 = Some s2" "monitor_feeds call mp s1 (departures (dn_kit N) T [x]) s2"
      "both its msgs (ext s2) = both its msgs (ext s1)" "live (ext s2) = live (ext s1)"
    using remove_device_run [OF w kp k1] by blast
  let ?s3 = "io_release (dn_kit N) x s2"
  have m3: "moved (both its msgs) live (-1) s2 ?s3" by (rule io_works_step(8) [OF w])
  have f3: "monitor_feeds call mp s (departures (dn_kit N) T [x]) ?s3"
    using feeds_append [OF feeds_append [OF monitor_feeds_idle [OF e(3)] s2(2)] monitor_feeds_idle [of s2 ?s3]] moved_idle [OF m3]
    by simp
  have d3: "drained its msgs live ((its (ext s))(it := es)) 0 s ?s3"
    using e(4) s2(3,4) moved_drained [OF m3] by (simp add: drained_def both_def)
  then have i3: "its (ext ?s3) it = es" "(its (ext ?s3))(it := []) = (its (ext s))(it := [])" by (simp_all add: drained_def)
  obtain s' where ih: "darwin_devices_detached N call mp it ?s3 = Some s'" "monitor_feeds call mp ?s3 (departures (dn_kit N) T es) s'"
      "drained its msgs live ((its (ext ?s3))(it := [])) 0 ?s3 s'"
    using Cons.IH [OF mon.feeds_known [OF f3 Cons.prems(1)] i3(1)] by blast
  have "darwin_devices_detached N call mp it s = Some s'"
    using n e(1,2) s2(1) ih(1) by (subst darwin_devices_detached.simps) simp
  moreover have "drained its msgs live ((its (ext s))(it := [])) 0 s s'" using drained_trans [OF d3 ih(3) [unfolded i3(2)]] by simp
  moreover have "monitor_feeds call mp s (departures (dn_kit N) T (x # es)) s'"
    using feeds_append [OF f3 ih(2)] by simp
  ultimately show ?case by blast
qed

section \<open>Messages\<close>

text \<open>
  What is assumed of the two calls of a refresh: an event is pending if there is a message, and a message is
  received once, in their order; either call may fail.
\<close>

definition messages_work :: "'w darwin_notify \<Rightarrow> ('w \<Rightarrow> nat \<Rightarrow> nat list) \<Rightarrow> ('w \<Rightarrow> callout list) \<Rightarrow> ('w \<Rightarrow> int) \<Rightarrow> bool" where
  "messages_work N its msgs live \<longleftrightarrow>
     (\<forall>fd w. both its msgs (snd (dn_kevent N fd w)) = both its msgs w \<and> live (snd (dn_kevent N fd w)) = live w \<and>
       (\<forall>x. fst (dn_kevent N fd w) = Inr x \<longrightarrow> x = None \<and> msgs w = [] \<or> x = Some EVFILT_MACHPORT)) \<and>
     (\<forall>p w. its (snd (dn_receive N p w)) = its w \<and> live (snd (dn_receive N p w)) = live w \<and>
       (fst (dn_receive N p w) = MACH_RCV_FAILED \<and> msgs (snd (dn_receive N p w)) = msgs w \<or>
        (case msgs w of
           [] \<Rightarrow> fst (dn_receive N p w) = MACH_RCV_TIMED_OUT \<and> msgs (snd (dn_receive N p w)) = []
         | m # ms \<Rightarrow> fst (dn_receive N p w) = MACH_MSG_SUCCESS m \<and> msgs (snd (dn_receive N p w)) = ms)))"

fun callout_iterator :: "callout \<Rightarrow> nat" where
  "callout_iterator (Devices_attached it) = it"
| "callout_iterator (Devices_detached it) = it"

fun callout_events :: "'w iokit \<Rightarrow> registry_tree \<Rightarrow> controllers \<Rightarrow> (nat \<Rightarrow> nat list) \<Rightarrow> callout \<Rightarrow> feed_event list" where
  "callout_events K T cs I (Devices_attached it) = arrivals K T cs (I it)"
| "callout_events K T cs I (Devices_detached it) = departures K T (I it)"

text \<open>The events a sequence of messages stands for, from the entries the iterators give at the start.\<close>

fun refresh_events :: "'w iokit \<Rightarrow> registry_tree \<Rightarrow> controllers \<Rightarrow> (nat \<Rightarrow> nat list) \<Rightarrow> callout list \<Rightarrow> feed_event list" where
  "refresh_events K T cs I [] = []"
| "refresh_events K T cs I (m # ms) =
     callout_events K T cs I m @ refresh_events K T cs (I(callout_iterator m := [])) ms"

lemma prefix_arrivals: "prefix (arrivals K T cs (take n es)) (arrivals K T cs es)"
proof -
  have app: "arrivals K T cs (xs @ ys) = arrivals K T cs xs @ arrivals K T cs ys" for xs ys
    by (induction xs) simp_all
  have "arrivals K T cs es = arrivals K T cs (take n es) @ arrivals K T cs (drop n es)"
    using app [of "take n es" "drop n es"] by simp
  then show ?thesis by (simp add: prefix_def)
qed

text \<open>One message: all its events, or an error after some of them.\<close>

lemma dispatch_callout_run:
  fixes c :: callout
  assumes w: "io_works (dn_kit N) T (both its msgs) live" and k: "iterators_work (dn_kit N) its msgs live"
    and al: "allocates alloc" and kp: "keeps (both its msgs) call" "keeps live call"
    and kn: "knows call mp s I" and m: "dv_mons v mp = Some m" "dm_notify_ret m = 0"
  defines "E \<equiv> callout_events (dn_kit N) T (dv_controllers v) (its (ext s)) c"
  shows "\<exists>r es s'. dispatch_callout N alloc call mp c (v, s) = Some (set_mon mp (m\<lparr>dm_notify_ret := r\<rparr>) v, s') \<and> r \<le> 0 \<and>
     monitor_feeds call mp s es s' \<and> prefix es E \<and> msgs (ext s') = msgs (ext s) \<and> live (ext s') = live (ext s) \<and>
     (r = 0 \<longrightarrow> es = E \<and> its (ext s') = (its (ext s))(callout_iterator c := []))"
proof (cases c)
  case (Devices_attached it)
  obtain r s' where p: "process_iterator_devices (dn_kit N) alloc (dv_controllers v) (hs_monitor_add call mp) it s = Some (r, s')"
      "went_through its msgs live (arrivals (dn_kit N) T (dv_controllers v)) (its (ext s) it) it (monitor_feeds call mp s) s r s'"
    using process_iterator_run [OF w k al kp kn refl] by blast
  have run: "dispatch_callout N alloc call mp c (v, s) = Some (set_mon mp (m\<lparr>dm_notify_ret := r\<rparr>) v, s')"
    using p(1) m(1) Devices_attached by (simp add: dispatch_callout_def darwin_devices_attached_def)
  from p(2) show ?thesis
    unfolding went_through_def
  proof (elim disjE conjE exE)
    assume a: "r = 0" "monitor_feeds call mp s (arrivals (dn_kit N) T (dv_controllers v) (its (ext s) it)) s'"
      "drained its msgs live ((its (ext s))(it := [])) 0 s s'"
    then show ?thesis using run Devices_attached
      by (intro exI [of _ r] exI [of _ E] exI [of _ s']) (simp add: E_def drained_def)
  next
    fix n
    assume a: "r < 0" "monitor_feeds call mp s (arrivals (dn_kit N) T (dv_controllers v) (take n (its (ext s) it))) s'"
      "drained its msgs live ((its (ext s))(it := drop (Suc n) (its (ext s) it))) 0 s s'"
    then show ?thesis using run Devices_attached prefix_arrivals
      by (intro exI [of _ r] exI [of _ "arrivals (dn_kit N) T (dv_controllers v) (take n (its (ext s) it))"] exI [of _ s'])
        (simp add: E_def drained_def)
  qed
next
  case (Devices_detached it)
  obtain s' where d: "darwin_devices_detached N call mp it s = Some s'"
      "monitor_feeds call mp s (departures (dn_kit N) T (its (ext s) it)) s'" "drained its msgs live ((its (ext s))(it := [])) 0 s s'"
    using detached_run [OF w k kp kn refl] by blast
  have "m\<lparr>dm_notify_ret := 0\<rparr> = m" using m(2) by (cases m) simp
  then have "set_mon mp (m\<lparr>dm_notify_ret := 0\<rparr>) v = v" using m(1) by (cases v) (simp add: set_mon_def fun_upd_idem)
  then have "dispatch_callout N alloc call mp c (v, s) = Some (set_mon mp (m\<lparr>dm_notify_ret := 0\<rparr>) v, s')"
    using d(1) Devices_detached by (simp add: dispatch_callout_def)
  with d(2,3) show ?thesis using Devices_detached
    by (intro exI [of _ 0] exI [of _ E] exI [of _ s']) (simp add: E_def drained_def)
qed

section \<open>Refreshing\<close>

lemma set_mon_same:
  assumes "dv_mons v mp = Some m" and "dm_notify_ret m = 0"
  shows "set_mon mp (m\<lparr>dm_notify_ret := 0\<rparr>) v = v"
    "set_mon mp (m\<lparr>dm_notify_ret := 0\<rparr>) (set_mon mp (m\<lparr>dm_notify_ret := r\<rparr>) v) = v"
proof -
  have "m\<lparr>dm_notify_ret := 0\<rparr> = m" using assms(2) by (cases m) simp
  then show "set_mon mp (m\<lparr>dm_notify_ret := 0\<rparr>) v = v"
    "set_mon mp (m\<lparr>dm_notify_ret := 0\<rparr>) (set_mon mp (m\<lparr>dm_notify_ret := r\<rparr>) v) = v"
    using assms(1) by (cases v; simp add: set_mon_def fun_upd_idem)+
qed

text \<open>The outcome of a refresh: all events, or an error after some of them.\<close>

definition refreshed_darwin ::
  "'w callback_fun \<Rightarrow> addr \<Rightarrow> ('w \<Rightarrow> callout list) \<Rightarrow> ('w \<Rightarrow> int) \<Rightarrow> feed_event list \<Rightarrow> 'w hs_state \<Rightarrow> int \<Rightarrow> 'w hs_state \<Rightarrow> bool"
where
  "refreshed_darwin call mp msgs live all s r s' \<longleftrightarrow> r \<le> 0 \<and> live (ext s') = live (ext s) \<and>
     (\<exists>es. monitor_feeds call mp s es s' \<and> prefix es all \<and> (r = 0 \<longrightarrow> es = all \<and> msgs (ext s') = []))"

lemma refreshed_idle:
  "idle s s' \<Longrightarrow> live (ext s') = live (ext s) \<Longrightarrow> r < 0 \<Longrightarrow> refreshed_darwin call mp msgs live all s r s'"
  "idle s s' \<Longrightarrow> live (ext s') = live (ext s) \<Longrightarrow> msgs (ext s') = [] \<Longrightarrow> refreshed_darwin call mp msgs live [] s 0 s'"
  unfolding refreshed_darwin_def by (auto dest: monitor_feeds_idle [of s s' call mp])

lemma receive_run:
  assumes mw: "messages_work N its msgs live" and run: "sys (dn_receive N ps) s = (x, s')"
  shows "idle s s' \<and> its (ext s') = its (ext s) \<and> live (ext s') = live (ext s) \<and>
     (x = MACH_RCV_FAILED \<and> msgs (ext s') = msgs (ext s) \<or>
      (case msgs (ext s) of
         [] \<Rightarrow> x = MACH_RCV_TIMED_OUT \<and> msgs (ext s') = [] | m # ms \<Rightarrow> x = MACH_MSG_SUCCESS m \<and> msgs (ext s') = ms))"
proof -
  let ?w = "ext s"
  have s': "x = fst (dn_receive N ps ?w)" "s' = s\<lparr>ext := snd (dn_receive N ps ?w)\<rparr>" using run by (simp_all add: sys_eq)
  have "its (snd (dn_receive N ps ?w)) = its ?w \<and> live (snd (dn_receive N ps ?w)) = live ?w \<and>
       (fst (dn_receive N ps ?w) = MACH_RCV_FAILED \<and> msgs (snd (dn_receive N ps ?w)) = msgs ?w \<or>
        (case msgs ?w of
           [] \<Rightarrow> fst (dn_receive N ps ?w) = MACH_RCV_TIMED_OUT \<and> msgs (snd (dn_receive N ps ?w)) = []
         | m # ms \<Rightarrow> fst (dn_receive N ps ?w) = MACH_MSG_SUCCESS m \<and> msgs (snd (dn_receive N ps ?w)) = ms))"
    using mw unfolding messages_work_def by blast
  then show ?thesis unfolding s' by (simp add: idle_def split: list.splits)
qed

lemma receive_loop_run:
  assumes w: "io_works (dn_kit N) T (both its msgs) live" and k: "iterators_work (dn_kit N) its msgs live"
    and al: "allocates alloc" and kp: "keeps (both its msgs) call" "keeps live call"
    and mw: "messages_work N its msgs live" and m: "dv_mons v mp = Some m" "dm_notify_ret m = 0"
  shows "msgs (ext s) = ms \<Longrightarrow> knows call mp s I \<Longrightarrow>
     \<exists>r s'. receive_loop N alloc call mp ps (v, s) = Some (r, v, s') \<and>
       refreshed_darwin call mp msgs live (refresh_events (dn_kit N) T (dv_controllers v) (its (ext s)) ms) s r s'"
proof (induction ms arbitrary: s I)
  case Nil
  obtain x s1 where x: "sys (dn_receive N ps) s = (x, s1)" by (cases "sys (dn_receive N ps) s")
  note rr = receive_run [OF mw x]
  obtain r2 s2 where f: "kernel_error ''mach_msg() failed'' s1 = (r2, s2)" by (cases "kernel_error ''mach_msg() failed'' s1")
  then have f2: "idle s1 s2" "ext s2 = ext s1" "r2 < 0" by (auto simp: kernel_error_def fail_with_eq idle_def)
  show ?case
  proof (cases "x = MACH_RCV_FAILED")
    case True
    with x f rr f2 show ?thesis
      by (subst receive_loop.simps) (auto intro!: refreshed_idle(1) intro: idle_trans)
  next
    case False
    with x rr Nil show ?thesis by (subst receive_loop.simps) (auto intro!: refreshed_idle(2))
  qed
next
  case (Cons c ms)
  let ?K = "dn_kit N" and ?cs = "dv_controllers v"
  obtain x s1 where x: "sys (dn_receive N ps) s = (x, s1)" by (cases "sys (dn_receive N ps) s")
  note rr = receive_run [OF mw x]
  show ?case
  proof (cases "x = MACH_RCV_FAILED")
    case True
    obtain r2 s2 where f: "kernel_error ''mach_msg() failed'' s1 = (r2, s2)" by (cases "kernel_error ''mach_msg() failed'' s1")
    then have f2: "idle s1 s2" "ext s2 = ext s1" "r2 < 0" by (auto simp: kernel_error_def fail_with_eq idle_def)
    with True x f rr show ?thesis by (subst receive_loop.simps) (auto intro!: refreshed_idle(1) intro: idle_trans)
  next
    case False
    then have s1: "x = MACH_MSG_SUCCESS c" "msgs (ext s1) = ms" "idle s s1" "its (ext s1) = its (ext s)" "live (ext s1) = live (ext s)"
      using rr Cons.prems(1) by auto
    let ?E = "callout_events ?K T ?cs (its (ext s)) c" and ?I = "(its (ext s))(callout_iterator c := [])"
    obtain r es s2 where d: "dispatch_callout N alloc call mp c (v, s1) = Some (set_mon mp (m\<lparr>dm_notify_ret := r\<rparr>) v, s2)" "r \<le> 0"
        "monitor_feeds call mp s1 es s2" "prefix es ?E" "msgs (ext s2) = msgs (ext s1)" "live (ext s2) = live (ext s1)"
        "r = 0 \<longrightarrow> es = ?E \<and> its (ext s2) = ?I"
      using dispatch_callout_run [OF w k al kp knows_idle [OF Cons.prems(2) s1(3)] m, of c] unfolding s1(4) by blast
    have fs: "monitor_feeds call mp s es s2" using feeds_append [OF monitor_feeds_idle [OF s1(3)] d(3)] by simp
    have step: "receive_loop N alloc call mp ps (v, s) =
        (if r \<noteq> 0 then Some (r, v, s2) else receive_loop N alloc call mp ps (v, s2))"
      using x s1(1) d(1) set_mon_same [OF m] by (subst receive_loop.simps) (auto simp: set_mon_def)
    show ?thesis
    proof (cases "r = 0")
      case False
      have "prefix es (refresh_events ?K T ?cs (its (ext s)) (c # ms))" using d(4) by simp
      then have "refreshed_darwin call mp msgs live (refresh_events ?K T ?cs (its (ext s)) (c # ms)) s r s2"
        unfolding refreshed_darwin_def using False fs d(2,6) s1(5) by auto
      with step False show ?thesis by auto
    next
      case True
      then have es: "es = ?E" "its (ext s2) = ?I" using d(7) by simp_all
      have kn: "knows call mp s2 (foldl known_after I es)" by (rule mon.feeds_known [OF fs Cons.prems(2)])
      obtain r' s' where ih: "receive_loop N alloc call mp ps (v, s2) = Some (r', v, s')"
          "refreshed_darwin call mp msgs live (refresh_events ?K T ?cs ?I ms) s2 r' s'"
        using Cons.IH [OF d(5) [unfolded s1(2)] kn] unfolding es(2) by blast
      then obtain es' where es': "monitor_feeds call mp s2 es' s'" "prefix es' (refresh_events ?K T ?cs ?I ms)" "r' \<le> 0"
          "live (ext s') = live (ext s2)" "r' = 0 \<longrightarrow> es' = refresh_events ?K T ?cs ?I ms \<and> msgs (ext s') = []"
        unfolding refreshed_darwin_def by blast
      have "refreshed_darwin call mp msgs live (refresh_events ?K T ?cs (its (ext s)) (c # ms)) s r' s'"
        unfolding refreshed_darwin_def using es' feeds_append [OF fs es'(1)] es(1) d(6) s1(5)
        by (intro conjI exI [of _ "es @ es'"]) simp_all
      with step True ih(1) show ?thesis by auto
    qed
  qed
qed

lemma refresh_darwin_run:
  assumes w: "io_works (dn_kit N) T (both its msgs) live" and k: "iterators_work (dn_kit N) its msgs live"
    and al: "allocates alloc" and kp: "keeps (both its msgs) call" "keeps live call"
    and mw: "messages_work N its msgs live" and m: "dv_mons v mp = Some m" "dm_notify_ret m = 0"
    and kn: "knows call mp s I"
  shows "\<exists>r s'. hs_monitor_refresh_darwin N alloc call mp (v, s) = Some (r, v, s') \<and>
     refreshed_darwin call mp msgs live (refresh_events (dn_kit N) T (dv_controllers v) (its (ext s)) (msgs (ext s))) s r s'"
proof -
  have mp: "mp \<noteq> NULL" using kn by (simp add: knows_def)
  obtain x s1 where x: "sys (dn_kevent N (dm_kqfd m)) s = (x, s1)" by (cases "sys (dn_kevent N (dm_kqfd m)) s")
  have s1: "idle s s1" "its (ext s1) = its (ext s)" "msgs (ext s1) = msgs (ext s)" "live (ext s1) = live (ext s)"
      "\<forall>y. x = Inr y \<longrightarrow> y = None \<and> msgs (ext s) = [] \<or> y = Some EVFILT_MACHPORT"
    using mw x unfolding messages_work_def by (auto simp: sys_eq idle_def both_def)
  show ?thesis
  proof (cases x)
    case (Inl e)
    let ?msg = "''kevent() failed: '' @ os_strerror (dn_os N) e"
    obtain r2 s2 where f: "kernel_error ?msg s1 = (r2, s2)" by (cases "kernel_error ?msg s1")
    then have f2: "idle s s2" "ext s2 = ext s1" "r2 < 0" using s1(1) by (auto simp: kernel_error_def fail_with_eq idle_def)
    have "hs_monitor_refresh_darwin N alloc call mp (v, s) = Some (r2, v, s2)"
      using Inl x f mp m(1) by (simp add: hs_monitor_refresh_darwin_def)
    with f2 s1(4) show ?thesis by (auto intro!: refreshed_idle(1))
  next
    case (Inr y)
    show ?thesis
    proof (cases y)
      case None
      with Inr s1 have "msgs (ext s) = []" by auto
      with None Inr x mp m(1) s1 show ?thesis
        by (auto simp: hs_monitor_refresh_darwin_def intro!: refreshed_idle(2))
    next
      case (Some flt)
      with Inr s1 have flt: "flt = EVFILT_MACHPORT" by auto
      obtain r s' where l: "receive_loop N alloc call mp (dm_port_set m) (v, s1) = Some (r, v, s')"
          "refreshed_darwin call mp msgs live (refresh_events (dn_kit N) T (dv_controllers v) (its (ext s1)) (msgs (ext s1))) s1 r s'"
        using receive_loop_run [OF w k al kp mw m refl knows_idle [OF kn s1(1)]] by blast
      then obtain es where es: "monitor_feeds call mp s1 es s'" "r \<le> 0" "live (ext s') = live (ext s1)"
          "prefix es (refresh_events (dn_kit N) T (dv_controllers v) (its (ext s1)) (msgs (ext s1)))"
          "r = 0 \<longrightarrow> es = refresh_events (dn_kit N) T (dv_controllers v) (its (ext s1)) (msgs (ext s1)) \<and> msgs (ext s') = []"
        unfolding refreshed_darwin_def by blast
      have "refreshed_darwin call mp msgs live (refresh_events (dn_kit N) T (dv_controllers v) (its (ext s)) (msgs (ext s))) s r s'"
        unfolding refreshed_darwin_def using es feeds_append [OF monitor_feeds_idle [OF s1(1)] es(1)] s1(2-4)
        by (intro conjI exI [of _ es]) simp_all
      moreover have "hs_monitor_refresh_darwin N alloc call mp (v, s) = Some (r, v, s')"
        using Some Inr flt x mp m(1) l(1) by (simp add: hs_monitor_refresh_darwin_def)
      ultimately show ?thesis by blast
    qed
  qed
qed

end
