(* ===== verification/LifecycleDarwin.thy ===== *)
theory LifecycleDarwin
  imports FeedDarwin
begin

text \<open>
  The life of a monitor of \<open>src/monitor_darwin.c\<close>: the controllers and the enumeration, what \<open>hs_monitor_new\<close>
  leaves behind when it succeeds and when it fails, and \<open>hs_monitor_free\<close>. The references and ports the process
  holds are counted.
\<close>

section \<open>Releasing leaves the world alone\<close>

lemma htable_outer_preserves:
  assumes body: "\<And>x s fl s'. body x s = Some (fl, s') \<Longrightarrow> \<phi> s' = \<phi> s"
    and run: "htable_outer mem t body head cur s = Some z"
  shows "\<phi> (snd z) = \<phi> s"
proof -
  have "t' = t \<and> b = body \<longrightarrow> \<phi> (snd z) = \<phi> s" if "htable_outer mem t' b head cur s = Some z" for t' b
  proof (rule htable_outer.raw_induct [where P = "\<lambda>mem t' b h c s z. t' = t \<and> b = body \<longrightarrow> \<phi> (snd z) = \<phi> s", OF _ that], intro impI)
    fix rec mem t' b h c s z
    assume ih: "\<And>mem t' b h c s z. rec mem t' b h c s = Some z \<Longrightarrow> t' = t \<and> b = body \<longrightarrow> \<phi> (snd z) = \<phi> s"
      and tb: "t' = t \<and> b = body"
      and r: "(if c = h \<and> h < ht_heads t' + unat (ht_size t')
        then h_next (mem s) c \<bind> (\<lambda>cur. h_next (mem s) cur \<bind> (\<lambda>nxt.
          ring_loop (\<lambda>s. h_next (mem s)) b h cur nxt s \<bind> (\<lambda>(cur, fl, s). case fl of
            Return r \<Rightarrow> Some (Return r, s)
          | Break \<Rightarrow> rec mem t' b (h + 1) (cur + 1) s
          | Continue \<Rightarrow> rec mem t' b (h + 1) (cur + 1) s)))
        else Some (Continue, s)) = Some z"
    have loop: "\<phi> (snd (snd y)) = \<phi> s0" if "ring_loop nx body h' c' n' s0 = Some y" for nx h' c' n' s0 y
      by (rule ring_loop_preserves [OF body that])
    show "\<phi> (snd z) = \<phi> s"
      using r tb by (auto split: if_splits bind_splits flow.splits dest!: loop ih)
  qed
  with run show ?thesis by blast
qed

lemma release_ext:
  assumes "hs_monitor_release p s = Some s'"
  shows "ext s' = ext s"
proof -
  have cb: "ext s' = ext s" if "release_callback_body x s = Some (fl, s')" for x s fl s'
    using that by (auto simp: release_callback_body_def callback_free_def split: bind_splits)
  have dev: "ext s' = ext s" if "release_device_body x s = Some (fl, s')" for x s fl s'
    using that by (auto simp: release_device_body_def Let_def split: bind_splits dest!: hs_device_unref_ext)
  have loop: "ext (snd (snd z)) = ext s0" if "ring_loop nx release_callback_body h c n s0 = Some z"
    for nx h c n s0 z by (rule ring_loop_preserves [OF cb that])
  have outer: "ext (snd z) = ext s0" if "htable_outer mem t release_device_body h c s0 = Some z" for mem t h c s0 z
    by (rule htable_outer_preserves [OF dev that])
  show ?thesis
    using assms by (auto simp: hs_monitor_release_def hs_list_foreach_def hs_htable_foreach_def
        split: bind_splits if_splits dest!: loop outer)
qed

section \<open>Draining\<close>

lemma clear_iterator_run:
  assumes w: "io_works K T (both its msgs) live" and k: "iterators_work K its msgs live"
  shows "its (ext s) it = es \<Longrightarrow>
     \<exists>s'. clear_iterator K it s = Some s' \<and> idle s s' \<and> drained its msgs live ((its (ext s))(it := [])) 0 s s'"
proof (induction es arbitrary: s)
  case Nil
  obtain e s1 where n: "sys (io_next K it) s = (e, s1)" by (cases "sys (io_next K it) s")
  have e: "e = 0" "moved (both its msgs) live 0 s s1" using next_run(1) [OF k n Nil] by simp_all
  have "(its (ext s))(it := []) = its (ext s)" using Nil by (simp add: fun_upd_idem)
  then have "drained its msgs live ((its (ext s))(it := [])) 0 s s1" using moved_drained [OF e(2)] by simp
  with n e(1) moved_idle [OF e(2)] show ?case by (subst clear_iterator.simps) simp
next
  case (Cons x es)
  obtain e s1 where n: "sys (io_next K it) s = (e, s1)" by (cases "sys (io_next K it) s")
  have e: "e = x" "x \<noteq> 0" "idle s s1" "drained its msgs live ((its (ext s))(it := es)) 1 s s1"
    using next_run(2) [OF k n Cons.prems] by (simp_all add: drained_def)
  let ?s2 = "io_release K x s1"
  have m2: "moved (both its msgs) live (-1) s1 ?s2" by (rule io_works_step(8) [OF w])
  have d2: "drained its msgs live ((its (ext s))(it := es)) 0 s ?s2" "idle s ?s2"
    using e(4) moved_drained [OF m2] idle_trans [OF e(3)] moved_idle [OF m2] by (simp_all add: drained_def)
  then have i2: "its (ext ?s2) it = es" "(its (ext ?s2))(it := []) = (its (ext s))(it := [])" by (simp_all add: drained_def)
  obtain s' where ih: "clear_iterator K it ?s2 = Some s'" "idle ?s2 s'" "drained its msgs live ((its (ext ?s2))(it := [])) 0 ?s2 s'"
    using Cons.IH [OF i2(1)] by blast
  have "clear_iterator K it s = Some s'" using n e(1,2) ih(1) by (subst clear_iterator.simps) simp
  moreover have "drained its msgs live ((its (ext s))(it := [])) 0 s s'" using drained_trans [OF d2(1) ih(3) [unfolded i2(2)]] by simp
  ultimately show ?case using idle_trans [OF d2(2) ih(2)] by blast
qed

text \<open>Steps after which only the contents of iterators and the number of references differ.\<close>

definition settled :: "('w \<Rightarrow> 'm) \<Rightarrow> ('w \<Rightarrow> int) \<Rightarrow> int \<Rightarrow> 'w hs_state \<Rightarrow> 'w hs_state \<Rightarrow> bool" where
  "settled msgs live n s s' \<longleftrightarrow> idle s s' \<and> msgs (ext s') = msgs (ext s) \<and> live (ext s') = live (ext s) + n"

lemma settled_refl [simp]: "settled msgs live 0 s s"
  by (simp add: settled_def)

lemma settled_trans: "settled msgs live m s s1 \<Longrightarrow> settled msgs live n s1 s2 \<Longrightarrow> settled msgs live (m + n) s s2"
  by (auto simp: settled_def intro: idle_trans)

lemma settled_drained: "idle s s' \<Longrightarrow> drained its msgs live I n s s' \<Longrightarrow> settled msgs live n s s'"
  by (simp add: settled_def drained_def)

lemma settled_moved: "moved (both its msgs) live n s s' \<Longrightarrow> settled msgs live n s s'"
  using moved_idle [of "both its msgs" live n s s'] by (simp add: settled_def moved_def both_def)

lemma settled_fail: "fail_with e m s = (r, s') \<Longrightarrow> settled msgs live 0 s s' \<and> r < 0"
  by (auto simp: settled_def fail_with_eq idle_def)

lemma drop_iterator_run:
  assumes w: "io_works K T (both its msgs) live" and k: "iterators_work K its msgs live"
  shows "\<exists>s'. drop_iterator K it s = Some s' \<and> settled msgs live (-1) s s'"
proof -
  obtain s1 where c: "clear_iterator K it s = Some s1" "idle s s1" "drained its msgs live ((its (ext s))(it := [])) 0 s s1"
    using clear_iterator_run [OF w k refl] by blast
  have "settled msgs live (0 + -1) s (io_release K it s1)"
    by (rule settled_trans [OF settled_drained [OF c(2,3)] settled_moved [OF io_works_step(8) [OF w]]])
  with c(1) show ?thesis by (simp add: drop_iterator_def)
qed

lemma drop_iterators_run:
  assumes w: "io_works K T (both its msgs) live" and k: "iterators_work K its msgs live"
  shows "\<exists>s'. drop_iterators K l s = Some s' \<and> settled msgs live (- int (length l)) s s'"
proof (induction l arbitrary: s)
  case (Cons it l)
  obtain s1 where s1: "drop_iterator K it s = Some s1" "settled msgs live (-1) s s1" using drop_iterator_run [OF w k] by blast
  obtain s2 where s2: "drop_iterators K l s1 = Some s2" "settled msgs live (- int (length l)) s1 s2" using Cons.IH by blast
  from settled_trans [OF s1(2) s2(2)] s1(1) s2(1) show ?case by simp
qed simp

section \<open>Controllers\<close>

text \<open>
  What is assumed of the two ways to obtain an iterator: it gives the entries of the class, \<open>listed\<close>. There are
  at most 255 controllers, and their paths fit the buffer \<open>add_controller\<close> has for them.
\<close>

definition listing_works ::
  "'w iokit \<Rightarrow> ('w \<Rightarrow> nat \<Rightarrow> nat list) \<Rightarrow> ('w \<Rightarrow> 'm) \<Rightarrow> ('w \<Rightarrow> int) \<Rightarrow> (string \<Rightarrow> nat list) \<Rightarrow> bool" where
  "listing_works K its msgs live listed \<longleftrightarrow>
     (\<forall>cls w. msgs (snd (io_matching K cls w)) = msgs w \<and>
       (case fst (io_matching K cls w) of
          None \<Rightarrow> live (snd (io_matching K cls w)) = live w
        | Some it \<Rightarrow> it \<noteq> 0 \<and> its (snd (io_matching K cls w)) = (its w)(it := listed cls) \<and>
            live (snd (io_matching K cls w)) = live w + 1)) \<and>
     length (listed (hub_class K)) \<le> 255"

definition short_paths :: "'w iokit \<Rightarrow> registry_tree \<Rightarrow> (string \<Rightarrow> nat list) \<Rightarrow> bool" where
  "short_paths K T listed \<longleftrightarrow>
     (\<forall>e path. e \<in> set (listed (hub_class K)) \<longrightarrow> rt_path T (usb_plane K) e = Some path \<longrightarrow> length path < 128)"

text \<open>The controllers in the order of their list: the last one first.\<close>

fun numbered :: "(nat \<Rightarrow> string option) \<Rightarrow> uint8 \<Rightarrow> nat list \<Rightarrow> controllers \<Rightarrow> controllers" where
  "numbered path i [] cs = cs"
| "numbered path i (e # es) cs =
     numbered path (i + 1) es (case path e of None \<Rightarrow> cs | Some p \<Rightarrow> (p, i + 1) # cs)"

lemma add_controller_run:
  assumes w: "io_works K T (both its msgs) live" and p: "\<And>path. rt_path T (usb_plane K) e = Some path \<Longrightarrow> length path < 128"
  shows "\<exists>r cs' s'. add_controller_darwin K e i cs s = Some (r, cs', s') \<and> moved (both its msgs) live 0 s s' \<and>
     (0 \<le> r \<and> cs' = (case rt_path T (usb_plane K) e of None \<Rightarrow> cs | Some p \<Rightarrow> (p, i) # cs) \<or> r < 0)"
proof -
  obtain x s1 where x: "sys (io_path K e (usb_plane K)) s = (x, s1)" by (cases "sys (io_path K e (usb_plane K)) s")
  note st = io_works_step(4) [OF w x]
  show ?thesis
  proof (cases x)
    case (Inl c)
    with x st show ?thesis by (simp add: add_controller_darwin_def)
  next
    case (Inr path)
    then have pt: "rt_path T (usb_plane K) e = Some path" "length path < 128" using st p by (simp_all split: sum.splits)
    obtain ok s2 where m: "sys (dw_malloc (io_os K) 536) s1 = (ok, s2)" by (cases "sys (dw_malloc (io_os K) 536) s1")
    have m2: "moved (both its msgs) live 0 s s2" using moved_trans [OF _ io_works_step(5) [OF w m], of 0 s] st by simp
    obtain r3 s3 where f: "fail_with HS_ERROR_MEMORY None s2 = (r3, s3)" by (cases "fail_with HS_ERROR_MEMORY None s2")
    have f3: "moved (both its msgs) live 0 s s3" "r3 < 0"
      using moved_fail [OF f, where g = "both its msgs" and live = live] moved_trans [OF m2, of 0 s3] by simp_all
    show ?thesis using Inr x pt m m2 f f3 by (cases ok) (simp_all add: add_controller_darwin_def)
  qed
qed

lemma controllers_loop_darwin_run:
  assumes w: "io_works K T (both its msgs) live" and k: "iterators_work K its msgs live"
  shows "its (ext s) it = es \<Longrightarrow> unat i + length es \<le> 255 \<Longrightarrow>
     \<forall>e \<in> set es. \<forall>path. rt_path T (usb_plane K) e = Some path \<longrightarrow> length path < 128 \<Longrightarrow>
     \<exists>r cs' s'. controllers_loop_darwin K it i cs s = Some (r, cs', s') \<and> settled msgs live 0 s s' \<and>
       (r = 0 \<and> cs' = numbered (rt_path T (usb_plane K)) i es cs \<or> r < 0)"
proof (induction es arbitrary: s i cs)
  case Nil
  obtain e s1 where n: "sys (io_next K it) s = (e, s1)" by (cases "sys (io_next K it) s")
  have e: "e = 0" "moved (both its msgs) live 0 s s1" using next_run(1) [OF k n Nil(1)] by simp_all
  with n settled_moved [OF e(2)] show ?case by (subst controllers_loop_darwin.simps) simp
next
  case (Cons x es)
  obtain e s1 where n: "sys (io_next K it) s = (e, s1)" by (cases "sys (io_next K it) s")
  have e: "e = x" "x \<noteq> 0" "settled msgs live 1 s s1" "its (ext s1) it = es"
    using next_run(2) [OF k n Cons.prems(1)] by (simp_all add: settled_def)
  have "i \<noteq> 255" using Cons.prems(2) by auto
  then have i: "i \<noteq> 255" "unat (i + 1) = Suc (unat i)"
    using Cons.prems(2) unat_word_ariths(1) [of i 1] by simp_all
  obtain r cs1 s2 where a: "add_controller_darwin K x (i + 1) cs s1 = Some (r, cs1, s2)" "moved (both its msgs) live 0 s1 s2"
      "0 \<le> r \<and> cs1 = (case rt_path T (usb_plane K) x of None \<Rightarrow> cs | Some p \<Rightarrow> (p, i + 1) # cs) \<or> r < 0"
    using add_controller_run [OF w, of x "i + 1" cs s1] Cons.prems(3) by auto
  let ?s3 = "io_release K x s2"
  have m3: "moved (both its msgs) live (-1) s1 ?s3" using moved_trans [OF a(2) io_works_step(8) [OF w]] by simp
  have s3: "settled msgs live 0 s ?s3" "its (ext ?s3) it = es"
    using settled_trans [OF e(3) settled_moved [OF m3]] e(4) m3 by (simp_all add: moved_def obs_def both_def)
  show ?case
  proof (cases "r < 0")
    case True
    with n e(1,2) i(1) a(1) s3(1) show ?thesis by (subst controllers_loop_darwin.simps) simp
  next
    case False
    have "unat (i + 1) + length es \<le> 255" "\<forall>e \<in> set es. \<forall>path. rt_path T (usb_plane K) e = Some path \<longrightarrow> length path < 128"
      using Cons.prems(2,3) i(2) by simp_all
    from Cons.IH [OF s3(2) this] obtain r' cs' s' where ih: "controllers_loop_darwin K it (i + 1) cs1 ?s3 = Some (r', cs', s')"
        "settled msgs live 0 ?s3 s'" "r' = 0 \<and> cs' = numbered (rt_path T (usb_plane K)) (i + 1) es cs1 \<or> r' < 0" by blast
    have "controllers_loop_darwin K it i cs s = Some (r', cs', s')"
      using n e(1,2) i(1) a(1) False ih(1) by (subst controllers_loop_darwin.simps) simp
    moreover have "settled msgs live 0 s s'" using settled_trans [OF s3(1) ih(2)] by simp
    ultimately show ?thesis using ih(3) a(3) False by auto
  qed
qed

text \<open>The controllers once they have been found.\<close>

definition all_controllers :: "'w iokit \<Rightarrow> registry_tree \<Rightarrow> (string \<Rightarrow> nat list) \<Rightarrow> controllers" where
  "all_controllers K T listed = numbered (rt_path T (usb_plane K)) 0 (listed (hub_class K)) []"

lemma matching_run:
  assumes l: "listing_works K its msgs live listed" and run: "sys (io_matching K cls) s = (x, s')"
  shows "settled msgs live (if x = None then 0 else 1) s s' \<and> (\<forall>it. x = Some it \<longrightarrow> it \<noteq> 0 \<and> its (ext s') it = listed cls)"
proof -
  let ?m = "io_matching K cls (ext s)"
  have s': "x = fst ?m" "s' = s\<lparr>ext := snd ?m\<rparr>" using run by (simp_all add: sys_eq)
  have "msgs (snd ?m) = msgs (ext s) \<and>
       (case fst ?m of
          None \<Rightarrow> live (snd ?m) = live (ext s)
        | Some it \<Rightarrow> it \<noteq> 0 \<and> its (snd ?m) = (its (ext s))(it := listed cls) \<and> live (snd ?m) = live (ext s) + 1)"
    using l unfolding listing_works_def by blast
  then show ?thesis unfolding s' by (cases "fst ?m") (simp_all add: settled_def idle_def)
qed

lemma populate_run:
  assumes w: "io_works K T (both its msgs) live" and k: "iterators_work K its msgs live"
    and l: "listing_works K its msgs live listed" and p: "short_paths K T listed"
  shows "\<exists>r cs' s'. populate_controllers_darwin K cs s = Some (r, cs', s') \<and> settled msgs live 0 s s' \<and>
     (r = 0 \<and> cs' = (if cs = [] then all_controllers K T listed else cs) \<or> r < 0)"
proof (cases "cs = []")
  case True
  obtain x s1 where x: "sys (io_matching K (hub_class K)) s = (x, s1)" by (cases "sys (io_matching K (hub_class K)) s")
  note st = matching_run [OF l x]
  show ?thesis
  proof (cases x)
    case None
    obtain r2 s2 where f: "fail_with HS_ERROR_SYSTEM (Some ''IOServiceGetMatchingServices() failed'') s1 = (r2, s2)"
      by (cases "fail_with HS_ERROR_SYSTEM (Some ''IOServiceGetMatchingServices() failed'') s1")
    note f2 = settled_fail [OF f, where msgs = msgs and live = live]
    have "settled msgs live 0 s s2" using settled_trans [of msgs live 0 s s1 0 s2] st f2 None by simp
    with True x None f f2 show ?thesis by (simp add: populate_controllers_darwin_def)
  next
    case (Some it)
    have it: "it \<noteq> 0" "its (ext s1) it = listed (hub_class K)" "settled msgs live 1 s s1" using st Some by simp_all
    have fits: "unat (0 :: uint8) + length (listed (hub_class K)) \<le> 255"
      "\<forall>e \<in> set (listed (hub_class K)). \<forall>path. rt_path T (usb_plane K) e = Some path \<longrightarrow> length path < 128"
      using l p by (simp_all add: listing_works_def short_paths_def)
    obtain r cs' s2 where c: "controllers_loop_darwin K it 0 [] s1 = Some (r, cs', s2)" "settled msgs live 0 s1 s2"
        "r = 0 \<and> cs' = all_controllers K T listed \<or> r < 0"
      using controllers_loop_darwin_run [OF w k it(2) fits, of "[]"] unfolding all_controllers_def by blast
    obtain s3 where d: "drop_iterator K it s2 = Some s3" "settled msgs live (-1) s2 s3" using drop_iterator_run [OF w k] by blast
    have "settled msgs live (1 + 0 + -1) s s3" by (rule settled_trans [OF settled_trans [OF it(3) c(2)] d(2)])
    with True x Some it(1) c(1,3) d(1) show ?thesis by (auto simp: populate_controllers_darwin_def)
  qed
qed (simp add: populate_controllers_darwin_def)

section \<open>Notifications\<close>

text \<open>
  What is assumed of the objects of a monitor: a notification comes with an iterator, whose first contents are
  the entries there are; ports, descriptors and iterators count as references. Closing the descriptor -1 has
  no effect.
\<close>

definition notify_works ::
  "'w darwin_notify \<Rightarrow> ('w \<Rightarrow> nat \<Rightarrow> nat list) \<Rightarrow> ('w \<Rightarrow> 'm) \<Rightarrow> ('w \<Rightarrow> int) \<Rightarrow> (string \<Rightarrow> nat list) \<Rightarrow> bool" where
  "notify_works N its msgs live listed \<longleftrightarrow>
     (\<forall>p ty cls f w. msgs (snd (dn_notify N p ty cls f w)) = msgs w \<and>
       (case fst (dn_notify N p ty cls f w) of
          None \<Rightarrow> live (snd (dn_notify N p ty cls f w)) = live w
        | Some it \<Rightarrow> live (snd (dn_notify N p ty cls f w)) = live w + 1 \<and>
            (ty = kIOFirstMatchNotification \<longrightarrow> its (snd (dn_notify N p ty cls f w)) it = listed cls)))"

definition ports_work :: "'w darwin_notify \<Rightarrow> ('w \<Rightarrow> 'm) \<Rightarrow> ('w \<Rightarrow> int) \<Rightarrow> bool" where
  "ports_work N msgs live \<longleftrightarrow>
     (\<forall>w. msgs (snd (dn_port_create N w)) = msgs w \<and>
        live (snd (dn_port_create N w)) = live w + (if fst (dn_port_create N w) = 0 then 0 else 1)) \<and>
     (\<forall>p w. msgs (dn_port_destroy N p w) = msgs w \<and> live (dn_port_destroy N p w) = live w - 1) \<and>
     (\<forall>w. msgs (snd (dn_kqueue N w)) = msgs w \<and>
        (case fst (dn_kqueue N w) of
           Inl _ \<Rightarrow> live (snd (dn_kqueue N w)) = live w | Inr fd \<Rightarrow> 0 \<le> fd \<and> live (snd (dn_kqueue N w)) = live w + 1)) \<and>
     (\<forall>fd w. msgs (os_close (dn_os N) fd w) = msgs w \<and> live (os_close (dn_os N) fd w) = live w - (if fd < 0 then 0 else 1)) \<and>
     (\<forall>w. msgs (snd (dn_set_allocate N w)) = msgs w \<and>
        (case fst (dn_set_allocate N w) of
           None \<Rightarrow> live (snd (dn_set_allocate N w)) = live w
         | Some p \<Rightarrow> p \<noteq> 0 \<and> live (snd (dn_set_allocate N w)) = live w + 1)) \<and>
     (\<forall>p w. msgs (dn_set_deallocate N p w) = msgs w \<and> live (dn_set_deallocate N p w) = live w - 1) \<and>
     (\<forall>p q w. msgs (snd (dn_insert_member N p q w)) = msgs w \<and> live (snd (dn_insert_member N p q w)) = live w) \<and>
     (\<forall>fd p w. msgs (snd (dn_kevent_add N fd p w)) = msgs w \<and> live (snd (dn_kevent_add N fd p w)) = live w)"

text \<open>The references a monitor holds.\<close>

definition held :: "darwin_monitor \<Rightarrow> int" where
  "held m = (if dm_port m = 0 then 0 else 1) + (if dm_port_set m = 0 then 0 else 1) + (if dm_kqfd m < 0 then 0 else 1) +
     int (length (dm_iterators m))"

lemma settled_sys:
  "sys f s = (x, s') \<Longrightarrow> msgs (snd (f (ext s))) = msgs (ext s) \<Longrightarrow> live (snd (f (ext s))) = live (ext s) + n \<Longrightarrow>
     settled msgs live n s s'"
  by (auto simp: settled_def idle_def sys_eq)

lemma settled_sys_do:
  "msgs (f (ext s)) = msgs (ext s) \<Longrightarrow> live (f (ext s)) = live (ext s) + n \<Longrightarrow> settled msgs live n s (sys_do f s)"
  by (auto simp: settled_def idle_def sys_do_def)

lemma ports_step:
  assumes "ports_work N msgs live"
  shows "sys (dn_port_create N) s = (p, s') \<Longrightarrow> settled msgs live (if p = 0 then 0 else 1) s s'"
    and "settled msgs live (-1) s (sys_do (dn_port_destroy N q) s)"
    and "sys (dn_kqueue N) s = (x, s') \<Longrightarrow>
      case x of Inl _ \<Rightarrow> settled msgs live 0 s s' | Inr fd \<Rightarrow> 0 \<le> fd \<and> settled msgs live 1 s s'"
    and "settled msgs live (if fd < 0 then 0 else -1) s (sys_do (os_close (dn_os N) fd) s)"
    and "sys (dn_set_allocate N) s = (y, s') \<Longrightarrow>
      case y of None \<Rightarrow> settled msgs live 0 s s' | Some p \<Rightarrow> p \<noteq> 0 \<and> settled msgs live 1 s s'"
    and "settled msgs live (-1) s (sys_do (dn_set_deallocate N q) s)"
    and "sys (dn_insert_member N q q2) s = (b, s') \<Longrightarrow> settled msgs live 0 s s'"
    and "sys (dn_kevent_add N fd q) s = (e, s') \<Longrightarrow> settled msgs live 0 s s'"
proof -
  note a = assms [unfolded ports_work_def]
  show "sys (dn_port_create N) s = (p, s') \<Longrightarrow> settled msgs live (if p = 0 then 0 else 1) s s'"
    "sys (dn_insert_member N q q2) s = (b, s') \<Longrightarrow> settled msgs live 0 s s'"
    "sys (dn_kevent_add N fd q) s = (e, s') \<Longrightarrow> settled msgs live 0 s s'"
    using a by (auto simp: settled_def idle_def sys_eq)
  show "settled msgs live (-1) s (sys_do (dn_port_destroy N q) s)"
    "settled msgs live (-1) s (sys_do (dn_set_deallocate N q) s)"
    "settled msgs live (if fd < 0 then 0 else -1) s (sys_do (os_close (dn_os N) fd) s)"
    using a by (auto intro!: settled_sys_do)
  have k: "msgs (snd (dn_kqueue N (ext s))) = msgs (ext s)"
      "case fst (dn_kqueue N (ext s)) of Inl _ \<Rightarrow> live (snd (dn_kqueue N (ext s))) = live (ext s)
       | Inr fd \<Rightarrow> 0 \<le> fd \<and> live (snd (dn_kqueue N (ext s))) = live (ext s) + 1"
    and c: "msgs (snd (dn_set_allocate N (ext s))) = msgs (ext s)"
      "case fst (dn_set_allocate N (ext s)) of None \<Rightarrow> live (snd (dn_set_allocate N (ext s))) = live (ext s)
       | Some p \<Rightarrow> p \<noteq> 0 \<and> live (snd (dn_set_allocate N (ext s))) = live (ext s) + 1"
    using a by blast+
  show "case x of Inl _ \<Rightarrow> settled msgs live 0 s s' | Inr fd \<Rightarrow> 0 \<le> fd \<and> settled msgs live 1 s s'" if "sys (dn_kqueue N) s = (x, s')"
    using k that by (auto simp: settled_def idle_def sys_eq split: sum.splits)
  show "case y of None \<Rightarrow> settled msgs live 0 s s' | Some p \<Rightarrow> p \<noteq> 0 \<and> settled msgs live 1 s s'" if "sys (dn_set_allocate N) s = (y, s')"
    using c that by (auto simp: settled_def idle_def sys_eq split: option.splits)
qed

lemma add_notification_run:
  assumes nw: "notify_works N its msgs live listed" and m: "dv_mons v mp = Some m" "length (dm_iterators m) < 8"
  shows "\<exists>r it v' s'. add_notification N mp cls ty f (v, s) = Some (r, it, v', s') \<and>
     (r = 0 \<and> v' = set_mon mp (m\<lparr>dm_iterators := dm_iterators m @ [it]\<rparr>) v \<and> settled msgs live 1 s s' \<and>
        (ty = kIOFirstMatchNotification \<longrightarrow> its (ext s') it = listed cls) \<or>
      r < 0 \<and> v' = v \<and> settled msgs live 0 s s')"
proof -
  let ?n = "dn_notify N (dm_port m) ty cls f"
  obtain x s1 where x: "sys ?n s = (x, s1)" by (cases "sys ?n s")
  have x': "x = fst (?n (ext s))" "s1 = s\<lparr>ext := snd (?n (ext s))\<rparr>" using x by (simp_all add: sys_eq)
  have n: "msgs (snd (?n (ext s))) = msgs (ext s)"
      "case fst (?n (ext s)) of None \<Rightarrow> live (snd (?n (ext s))) = live (ext s)
       | Some it \<Rightarrow> live (snd (?n (ext s))) = live (ext s) + 1 \<and>
           (ty = kIOFirstMatchNotification \<longrightarrow> its (snd (?n (ext s))) it = listed cls)"
    using nw unfolding notify_works_def by blast+
  show ?thesis
  proof (cases x)
    case None
    let ?msg = "Some (''IOServiceAddMatchingNotification('' @ sq cls @ '') failed'')"
    obtain r2 s2 where f: "fail_with HS_ERROR_SYSTEM ?msg s1 = (r2, s2)" by (cases "fail_with HS_ERROR_SYSTEM ?msg s1")
    note f2 = settled_fail [OF f, where msgs = msgs and live = live]
    have "settled msgs live 0 s s1" using n x' None by (simp add: settled_def idle_def)
    with f2 have "settled msgs live 0 s s2" using settled_trans [of msgs live 0 s s1 0 s2] by simp
    with None x m(1) f f2 show ?thesis by (simp add: add_notification_def)
  next
    case (Some it)
    then have "settled msgs live 1 s s1" "ty = kIOFirstMatchNotification \<longrightarrow> its (ext s1) it = listed cls"
      using n x' by (simp_all add: settled_def idle_def)
    with Some x m show ?thesis by (simp add: add_notification_def)
  qed
qed

section \<open>Watching\<close>

text \<open>The identities of the devices that are there.\<close>

definition present :: "'w iokit \<Rightarrow> registry_tree \<Rightarrow> controllers \<Rightarrow> nat list \<Rightarrow> identity set" where
  "present K T cs es = {(d_key d, d_iface d) | e d. e \<in> set es \<and> describe_darwin K T cs e = Some d}"

lemma known_arrivals: "foldl known_after I (arrivals K T cs es) = I \<union> present K T cs es"
proof (induction es arbitrary: I)
  case (Cons e es)
  have "present K T cs (e # es) =
      (case describe_darwin K T cs e of None \<Rightarrow> {} | Some d \<Rightarrow> {(d_key d, d_iface d)}) \<union> present K T cs es"
    by (auto simp: present_def split: option.splits)
  with Cons show ?case by (simp split: option.splits)
qed (simp add: present_def)

definition class_devices ::
  "'w iokit \<Rightarrow> registry_tree \<Rightarrow> controllers \<Rightarrow> (string \<Rightarrow> nat list) \<Rightarrow> (string \<times> string) list \<Rightarrow> identity set" where
  "class_devices K T cs listed ks = (\<Union>(old_stack, new_stack) \<in> set ks. present K T cs (listed (correct_class K new_stack old_stack)))"

text \<open>How far the loop has come: the iterators of the notifications so far are in the monitor.\<close>

definition watching ::
  "'w callback_fun \<Rightarrow> addr \<Rightarrow> ('w \<Rightarrow> int) \<Rightarrow> darwin_vars \<Rightarrow> darwin_monitor \<Rightarrow> 'w hs_state \<Rightarrow> nat
     \<Rightarrow> darwin_vars \<Rightarrow> 'w hs_state \<Rightarrow> identity set \<Rightarrow> bool" where
  "watching call mp live v m s n v' s' I \<longleftrightarrow> knows call mp s' I \<and>
     (\<exists>l. length l \<le> n \<and> v' = set_mon mp (m\<lparr>dm_iterators := dm_iterators m @ l\<rparr>) v \<and> live (ext s') = live (ext s) + int (length l))"

lemma set_mon_id: "dv_mons v mp = Some m \<Longrightarrow> set_mon mp m v = v"
  by (cases v) (simp add: set_mon_def fun_upd_idem)

lemma watching_start:
  "knows call mp s' I \<Longrightarrow> dv_mons v mp = Some m \<Longrightarrow> live (ext s') = live (ext s) \<Longrightarrow> watching call mp live v m s n v s' I"
  unfolding watching_def by (intro conjI exI [of _ "[]"]) (simp_all add: set_mon_id)

lemma watching_next:
  assumes "watching call mp live (set_mon mp (m\<lparr>dm_iterators := dm_iterators m @ [it]\<rparr>) v) (m\<lparr>dm_iterators := dm_iterators m @ [it]\<rparr>)
     s1 n v' s' I" and "live (ext s1) = live (ext s) + 1"
  shows "watching call mp live v m s (Suc n) v' s' I"
proof -
  from assms(1) obtain l where "knows call mp s' I" "length l \<le> n"
      "v' = set_mon mp (m\<lparr>dm_iterators := dm_iterators m @ it # l\<rparr>) v" "live (ext s') = live (ext s1) + int (length l)"
    unfolding watching_def by (auto simp: set_mon_def)
  with assms(2) show ?thesis unfolding watching_def by (intro conjI exI [of _ "it # l"]) simp_all
qed

lemma watch_classes_run:
  assumes w: "io_works (dn_kit N) T (both its msgs) live" and k: "iterators_work (dn_kit N) its msgs live"
    and al: "allocates alloc" and kp: "keeps (both its msgs) call" "keeps live call" and nw: "notify_works N its msgs live listed"
  shows "dv_mons v mp = Some m \<Longrightarrow> length (dm_iterators m) + length ks \<le> 8 \<Longrightarrow> knows call mp s I \<Longrightarrow>
     \<exists>r v' s' I'. watch_classes N alloc call mp ks (v, s) = Some (r, v', s') \<and> watching call mp live v m s (length ks) v' s' I' \<and>
       (r = 0 \<and> I' = I \<union> class_devices (dn_kit N) T (dv_controllers v) listed ks \<and>
          (\<exists>l. length l = length ks \<and> v' = set_mon mp (m\<lparr>dm_iterators := dm_iterators m @ l\<rparr>) v) \<or> r < 0)"
proof (induction ks arbitrary: v m s I)
  case Nil
  then show ?case
    by (intro exI [of _ 0] exI [of _ v] exI [of _ s] exI [of _ I])
      (simp add: watching_start class_devices_def set_mon_id)
next
  case (Cons c ks)
  obtain old_stack new_stack where c: "c = (old_stack, new_stack)" by (cases c)
  let ?K = "dn_kit N" and ?cls = "correct_class (dn_kit N) new_stack old_stack"
  have len: "length (dm_iterators m) < 8" using Cons.prems(2) by simp
  obtain r it v1 s1 where a: "add_notification N mp ?cls kIOFirstMatchNotification Devices_attached (v, s) = Some (r, it, v1, s1)"
      "r = 0 \<and> v1 = set_mon mp (m\<lparr>dm_iterators := dm_iterators m @ [it]\<rparr>) v \<and> settled msgs live 1 s s1 \<and> its (ext s1) it = listed ?cls \<or>
       r < 0 \<and> v1 = v \<and> settled msgs live 0 s s1"
    using add_notification_run [OF nw Cons.prems(1) len, of ?cls kIOFirstMatchNotification Devices_attached s] by auto
  show ?case
  proof (cases "r < 0")
    case True
    then have "v1 = v" "knows call mp s1 I" "live (ext s1) = live (ext s)"
      using a(2) Cons.prems(3) by (auto simp: settled_def intro: knows_idle)
    with True a(1) c watching_start [OF _ Cons.prems(1), of call s1 I] show ?thesis by auto
  next
    case False
    let ?m1 = "m\<lparr>dm_iterators := dm_iterators m @ [it]\<rparr>"
    have a1: "r = 0" "v1 = set_mon mp ?m1 v" "idle s s1" "live (ext s1) = live (ext s) + 1" "its (ext s1) it = listed ?cls"
      using a(2) False by (auto simp: settled_def)
    have k1: "knows call mp s1 I" by (rule knows_idle [OF Cons.prems(3) a1(3)])
    have v1: "dv_mons v1 mp = Some ?m1" "dv_controllers v1 = dv_controllers v" by (simp_all add: a1(2) set_mon_def)
    obtain r2 s2 where p: "process_iterator_devices ?K alloc (dv_controllers v) (hs_monitor_add call mp) it s1 = Some (r2, s2)"
        "went_through its msgs live (arrivals ?K T (dv_controllers v)) (listed ?cls) it (monitor_feeds call mp s1) s1 r2 s2"
      using process_iterator_run [OF w k al kp k1 a1(5)] by blast
    have live2: "live (ext s2) = live (ext s1)" using p(2) by (auto simp: went_through_def drained_def)
    show ?thesis
    proof (cases "r2 < 0")
      case True
      then obtain es where "monitor_feeds call mp s1 es s2" using p(2) by (auto simp: went_through_def)
      then have k2: "knows call mp s2 (foldl known_after I es)" using k1 by (rule mon.feeds_known)
      have "watching call mp live v m s (Suc (length ks)) v1 s2 (foldl known_after I es)"
        by (rule watching_next [of _ _ _ _ it _ s1]) (use watching_start [OF k2 v1(1) live2] a1(2,4) in simp_all)
      with True a(1) a1(1) c p(1) v1(2) show ?thesis by auto
    next
      case f2: False
      then have "r2 = 0" "monitor_feeds call mp s1 (arrivals ?K T (dv_controllers v) (listed ?cls)) s2"
        using p(2) by (auto simp: went_through_def)
      then have k2: "knows call mp s2 (I \<union> present ?K T (dv_controllers v) (listed ?cls))"
        using mon.feeds_known [OF _ k1] known_arrivals by metis
      have "length (dm_iterators ?m1) + length ks \<le> 8" using Cons.prems(2) by simp
      from Cons.IH [OF v1(1) this k2] obtain r3 v3 s3 I3 where ih:
        "watch_classes N alloc call mp ks (v1, s2) = Some (r3, v3, s3)" "watching call mp live v1 ?m1 s2 (length ks) v3 s3 I3"
        "r3 = 0 \<and> I3 = I \<union> present ?K T (dv_controllers v) (listed ?cls) \<union> class_devices ?K T (dv_controllers v) listed ks \<and>
           (\<exists>l. length l = length ks \<and> v3 = set_mon mp (?m1\<lparr>dm_iterators := dm_iterators ?m1 @ l\<rparr>) v1) \<or> r3 < 0"
        unfolding v1(2) by blast
      have "watching call mp live v m s (Suc (length ks)) v3 s3 I3"
        by (rule watching_next [of _ _ _ _ it _ s2]) (use ih(2) a1(2,4) live2 in simp_all)
      moreover have "watch_classes N alloc call mp (c # ks) (v, s) = Some (r3, v3, s3)"
        using a(1) a1(1) c p(1) \<open>r2 = 0\<close> v1(2) ih(1) by simp
      moreover have "\<exists>l. length l = length (c # ks) \<and> v3 = set_mon mp (m\<lparr>dm_iterators := dm_iterators m @ l\<rparr>) v"
        if "length l = length ks" "v3 = set_mon mp (?m1\<lparr>dm_iterators := dm_iterators ?m1 @ l\<rparr>) v1" for l
        using that by (intro exI [of _ "it # l"]) (simp add: a1(2) set_mon_def)
      moreover have "class_devices ?K T (dv_controllers v) listed (c # ks) =
          present ?K T (dv_controllers v) (listed ?cls) \<union> class_devices ?K T (dv_controllers v) listed ks"
        by (simp add: class_devices_def c)
      ultimately show ?thesis using ih(3) by (auto simp: Un_assoc)
    qed
  qed
qed

lemma watch_devices_run:
  assumes w: "io_works (dn_kit N) T (both its msgs) live" and k: "iterators_work (dn_kit N) its msgs live"
    and al: "allocates alloc" and kp: "keeps (both its msgs) call" "keeps live call" and nw: "notify_works N its msgs live listed"
    and m: "dv_mons v mp = Some m" "dm_iterators m = []" and kn: "knows call mp s I"
  shows "\<exists>r v' s' I' l. watch_devices N alloc call mp (v, s) = Some (r, v', s') \<and> knows call mp s' I' \<and>
     v' = set_mon mp (m\<lparr>dm_iterators := l\<rparr>) v \<and> live (ext s') = live (ext s) + int (length l) \<and>
     (r = 0 \<and> I' = I \<union> class_devices (dn_kit N) T (dv_controllers v) listed device_classes_darwin \<and> length l = 3 \<or> r < 0)"
proof -
  let ?cls = "correct_class (dn_kit N) ''IOUSBHostDevice'' ''IOUSBDevice''"
  have two: "length device_classes_darwin = 2" by (simp add: device_classes_darwin_def)
  have len: "length (dm_iterators m) + length device_classes_darwin \<le> 8" using m(2) two by simp
  obtain r v1 s1 I1 where c: "watch_classes N alloc call mp device_classes_darwin (v, s) = Some (r, v1, s1)"
      "watching call mp live v m s (length device_classes_darwin) v1 s1 I1"
      "r = 0 \<and> I1 = I \<union> class_devices (dn_kit N) T (dv_controllers v) listed device_classes_darwin \<and>
         (\<exists>l. length l = length device_classes_darwin \<and> v1 = set_mon mp (m\<lparr>dm_iterators := dm_iterators m @ l\<rparr>) v) \<or> r < 0"
    using watch_classes_run [OF w k al kp nw m(1) len kn] by blast
  obtain l where l: "knows call mp s1 I1" "length l \<le> 2" "v1 = set_mon mp (m\<lparr>dm_iterators := l\<rparr>) v"
      "live (ext s1) = live (ext s) + int (length l)"
    using c(2) m(2) two by (auto simp: watching_def)
  show ?thesis
  proof (cases "r < 0")
    case True
    with c(1) l show ?thesis by (auto simp: watch_devices_def)
  next
    case False
    then have l2: "length l = 2" using c(3) l(3) m(2) two
      by (auto simp: set_mon_def dest!: arg_cong [of _ _ "\<lambda>v. dm_iterators (the (dv_mons v mp))"])
    let ?m1 = "m\<lparr>dm_iterators := l\<rparr>"
    have v1: "dv_mons v1 mp = Some ?m1" "length (dm_iterators ?m1) < 8" using l2 by (simp_all add: l(3) set_mon_def)
    obtain r2 it v2 s2 where a: "add_notification N mp ?cls kIOTerminatedNotification Devices_detached (v1, s1) = Some (r2, it, v2, s2)"
        "r2 = 0 \<and> v2 = set_mon mp (?m1\<lparr>dm_iterators := dm_iterators ?m1 @ [it]\<rparr>) v1 \<and> settled msgs live 1 s1 s2 \<or>
         r2 < 0 \<and> v2 = v1 \<and> settled msgs live 0 s1 s2"
      using add_notification_run [OF nw v1, of ?cls kIOTerminatedNotification Devices_detached s1] by auto
    have r: "r = 0" using c(3) False by simp
    show ?thesis
    proof (cases "r2 < 0")
      case True
      then have "v2 = v1" "knows call mp s2 I1" "live (ext s2) = live (ext s1)"
        using a(2) l(1) by (auto simp: settled_def intro: knows_idle)
      with True a(1) r c(1) l show ?thesis by (auto simp: watch_devices_def)
    next
      case f2: False
      then have a2: "r2 = 0" "v2 = set_mon mp (m\<lparr>dm_iterators := l @ [it]\<rparr>) v" "idle s1 s2" "live (ext s2) = live (ext s1) + 1"
        using a(2) by (auto simp: settled_def l(3) set_mon_def)
      obtain s3 where cl: "clear_iterator (dn_kit N) it s2 = Some s3" "idle s2 s3" "live (ext s3) = live (ext s2)"
        using clear_iterator_run [where s = s2 and it = it, OF w k refl] by (auto simp: drained_def)
      have "knows call mp s3 I1" using knows_idle [OF knows_idle [OF l(1) a2(3)] cl(2)] .
      moreover have "live (ext s3) = live (ext s) + int (length (l @ [it]))" using cl(3) a2(4) l(4) by simp
      ultimately show ?thesis using r a(1) c(1,3) a2(1,2) cl(1) l2
        by (intro exI [of _ 0] exI [of _ v2] exI [of _ s3] exI [of _ I1] exI [of _ "l @ [it]"])
          (auto simp: watch_devices_def)
    qed
  qed
qed

section \<open>Creating and freeing\<close>

lemma settled_kernel_error: "kernel_error msg s = (r, s') \<Longrightarrow> settled msgs live 0 s s' \<and> r < 0"
  unfolding kernel_error_def by (rule settled_fail)

lemma kernel_error_neg: "kernel_error msg s = (r, s') \<Longrightarrow> r < 0"
  by (auto simp: kernel_error_def fail_with_eq)

lemma set_mon_twice [simp]: "set_mon p m2 (set_mon p m1 v) = set_mon p m2 v"
  by (simp add: set_mon_def)

lemma dv_set_mon [simp]: "dv_mons (set_mon p m v) p = Some m" "dv_controllers (set_mon p m v) = dv_controllers v"
  by (simp_all add: set_mon_def)

text \<open>Part of the objects: the monitor holds what has been created, all three of them at the end.\<close>

definition opened ::
  "('w \<Rightarrow> 'm) \<Rightarrow> ('w \<Rightarrow> int) \<Rightarrow> addr \<Rightarrow> darwin_vars \<Rightarrow> 'w hs_state \<Rightarrow> int \<Rightarrow> darwin_vars \<Rightarrow> 'w hs_state \<Rightarrow> bool" where
  "opened msgs live p v s r v' s' \<longleftrightarrow> (\<exists>m. v' = set_mon p m v \<and> dm_iterators m = [] \<and> dm_notify_ret m = 0 \<and>
     settled msgs live (held m) s s' \<and> (r = 0 \<and> held m = 3 \<or> r < 0))"

lemma openedI:
  "settled msgs live n s s' \<Longrightarrow> dm_iterators m = [] \<Longrightarrow> dm_notify_ret m = 0 \<Longrightarrow> held m = n \<Longrightarrow> r = 0 \<and> n = 3 \<or> r < 0 \<Longrightarrow>
     opened msgs live p v s r (set_mon p m v) s'"
  unfolding opened_def by blast

lemma connect_queue_run:
  assumes pw: "ports_work N msgs live" and m: "dv_mons v p = Some m" "dm_iterators m = []" "dm_notify_ret m = 0"
    "dm_port m \<noteq> 0" "dm_port_set m = 0" "0 \<le> dm_kqfd m" and s: "settled msgs live 2 s0 s"
  shows "\<exists>r v' s'. connect_queue N p (v, s) = Some (r, v', s') \<and> opened msgs live p v s0 r v' s'"
proof -
  obtain x s1 where x: "sys (dn_set_allocate N) s = (x, s1)" by (cases "sys (dn_set_allocate N) s")
  note st = ports_step(5) [OF pw x]
  have v: "v = set_mon p m v" using set_mon_id [OF m(1)] by simp
  show ?thesis
  proof (cases x)
    case None
    let ?msg = "''mach_port_allocate() failed''"
    obtain r2 s2 where f: "kernel_error ?msg s1 = (r2, s2)" by (cases "kernel_error ?msg s1")
    note f2 = settled_kernel_error [OF f, where msgs = msgs and live = live]
    have "settled msgs live (2 + 0 + 0) s0 s2" using settled_trans [OF settled_trans [OF s] ] st f2 None by fastforce
    then have "opened msgs live p v s0 r2 (set_mon p m v) s2" by (rule openedI) (use m f2 in \<open>simp_all add: held_def\<close>)
    then have "opened msgs live p v s0 r2 v s2" by (simp add: v [symmetric])
    with None x m(1) f show ?thesis by (auto simp: connect_queue_def)
  next
    case (Some q)
    let ?m = "m\<lparr>dm_port_set := q\<rparr>"
    have q: "q \<noteq> 0" "settled msgs live 3 s0 s1" using st Some settled_trans [OF s, of 1 s1] by simp_all
    have held: "held ?m = 3" using m q by (simp add: held_def)
    obtain ok s2 where i: "sys (dn_insert_member N (dm_port m) q) s1 = (ok, s2)" by (cases "sys (dn_insert_member N (dm_port m) q) s1")
    have s2: "settled msgs live 3 s0 s2" using settled_trans [OF q(2) ports_step(7) [OF pw i]] by simp
    obtain e s3 where k: "sys (dn_kevent_add N (dm_kqfd m) q) s2 = (e, s3)" by (cases "sys (dn_kevent_add N (dm_kqfd m) q) s2")
    have s3: "settled msgs live 3 s0 s3" using settled_trans [OF s2 ports_step(8) [OF pw k]] by simp
    have err: "opened msgs live p v s0 r' (set_mon p ?m v) s'" if "kernel_error msg t = (r', s')" "settled msgs live 3 s0 t" for msg t r' s'
    proof (rule openedI [OF _ _ _ held])
      show "settled msgs live 3 s0 s'" using settled_trans [OF that(2), of 0 s'] settled_kernel_error [OF that(1), where msgs = msgs and live = live] by simp
    qed (use m kernel_error_neg [OF that(1)] in simp_all)
    have ok: "opened msgs live p v s0 0 (set_mon p ?m v) s3" by (rule openedI [OF s3 _ _ held]) (use m in simp_all)
    show ?thesis
      using Some x i k m(1) ok err [OF _ s2] err [OF _ s3]
      by (cases ok; cases e) (auto simp: connect_queue_def split: prod.splits)
  qed
qed

lemma open_ports_run:
  assumes pw: "ports_work N msgs live"
  shows "\<exists>r v' s'. open_ports N p (set_mon p zero_darwin_monitor v, s) = Some (r, v', s') \<and> opened msgs live p v s r v' s'"
proof -
  let ?z = zero_darwin_monitor
  obtain port s1 where c: "sys (dn_port_create N) s = (port, s1)" by (cases "sys (dn_port_create N) s")
  note c1 = ports_step(1) [OF pw c]
  let ?m = "?z\<lparr>dm_port := port\<rparr>"
  have sel: "dm_iterators ?m = []" "dm_notify_ret ?m = 0" "held ?m = (if port = 0 then 0 else 1)"
    by (simp_all add: zero_darwin_monitor_def held_def)
  have err: "opened msgs live p v s r' (set_mon p ?m v) s'"
    if "kernel_error msg t = (r', s')" "settled msgs live (if port = 0 then 0 else 1) s t" for msg t r' s'
  proof (rule openedI [OF _ sel])
    show "settled msgs live (if port = 0 then 0 else 1) s s'"
      using settled_trans [OF that(2), of 0 s'] settled_kernel_error [OF that(1), where msgs = msgs and live = live] by simp
  qed (use kernel_error_neg [OF that(1)] in simp)
  show ?thesis
  proof (cases "port = 0")
    case True
    with c err [OF _ c1] show ?thesis by (auto simp: open_ports_def split: prod.splits)
  next
    case port: False
    obtain x s2 where k: "sys (dn_kqueue N) s1 = (x, s2)" by (cases "sys (dn_kqueue N) s1")
    note k2 = ports_step(3) [OF pw k]
    show ?thesis
    proof (cases x)
      case (Inl e)
      have "settled msgs live (if port = 0 then 0 else 1) s s2" using settled_trans [OF c1, of 0 s2] k2 Inl by simp
      with port c k Inl err [of _ s2] show ?thesis by (auto simp: open_ports_def split: prod.splits)
    next
      case (Inr fd)
      let ?m2 = "?m\<lparr>dm_kqfd := fd\<rparr>"
      have "settled msgs live 2 s s2" "0 \<le> fd" using settled_trans [OF c1, of 1 s2] k2 Inr port by simp_all
      then obtain r v' s' where q: "connect_queue N p (set_mon p ?m2 v, s2) = Some (r, v', s')"
          "opened msgs live p (set_mon p ?m2 v) s r v' s'"
        using connect_queue_run [OF pw, of "set_mon p ?m2 v" p ?m2 s s2] port by (auto simp: zero_darwin_monitor_def)
      have "opened msgs live p v s r v' s'" using q(2) by (simp add: opened_def)
      with q(1) port c k Inr show ?thesis by (simp add: open_ports_def)
    qed
  qed
qed

lemma free_darwin_run:
  assumes w: "io_works (dn_kit N) T (both its msgs) live" and k: "iterators_work (dn_kit N) its msgs live"
    and pw: "ports_work N msgs live" and p: "p \<noteq> NULL" and rel: "\<exists>s1. hs_monitor_release p s = Some s1"
    and m: "dv_mons v p = Some m"
  shows "\<exists>v' s'. hs_monitor_free_darwin N p (v, s) = Some (v', s') \<and> dv_mons v' p = None \<and> mons s' p = None \<and>
     live (ext s') = live (ext s) - held m"
proof -
  obtain s1 where s1: "hs_monitor_release p s = Some s1" using rel by blast
  have e1: "ext s1 = ext s" by (rule release_ext [OF s1])
  let ?s2 = "sys_do (os_close (dn_os N) (dm_kqfd m)) s1"
  have m2: "live (ext ?s2) = live (ext s) + (if dm_kqfd m < 0 then 0 else -1)"
    using ports_step(4) [OF pw, of "dm_kqfd m" s1] e1 by (simp add: settled_def)
  let ?s3 = "if dm_port_set m \<noteq> 0 then sys_do (dn_set_deallocate N (dm_port_set m)) ?s2 else ?s2"
  have m3: "live (ext ?s3) = live (ext ?s2) + (if dm_port_set m = 0 then 0 else -1)"
    using ports_step(6) [OF pw, of ?s2 "dm_port_set m"] by (simp add: settled_def)
  obtain s4 where d: "drop_iterators (dn_kit N) (dm_iterators m) ?s3 = Some s4" "live (ext s4) = live (ext ?s3) - int (length (dm_iterators m))"
    using drop_iterators_run [OF w k, of "dm_iterators m" ?s3] by (auto simp: settled_def)
  let ?s5 = "if dm_port m \<noteq> 0 then sys_do (dn_port_destroy N (dm_port m)) s4 else s4"
  have m5: "live (ext ?s5) = live (ext s4) + (if dm_port m = 0 then 0 else -1)"
    using ports_step(2) [OF pw, of s4 "dm_port m"] by (simp add: settled_def)
  have "hs_monitor_free_darwin N p (v, s) = Some (v\<lparr>dv_mons := (dv_mons v)(p := None)\<rparr>, monitor_free p ?s5)"
    using p s1 m d(1) unfolding hs_monitor_free_darwin_def Let_def by simp
  moreover have "live (ext (monitor_free p ?s5)) = live (ext s) - held m"
    using m2 m3 d(2) m5 by (simp add: monitor_free_def held_def)
  ultimately show ?thesis by (simp add: monitor_free_def)
qed

lemma set_up_run:
  assumes w: "io_works (dn_kit N) T (both its msgs) live" and k: "iterators_work (dn_kit N) its msgs live"
    and al: "allocates alloc" and kp: "keeps (both its msgs) call" "keeps live call" and nw: "notify_works N its msgs live listed"
    and pw: "ports_work N msgs live" and fr: "friendly call"
    and z: "mons s p = Some zero_monitor" "list_allocated (lists s) p" "l_next (lists s) p = Some NULL"
    and hp: "{hp ..< hp + 64} \<inter> dom (devs s) = {}"
  shows "\<exists>r s' m. monitor_set_up N alloc call p hp (set_mon p zero_darwin_monitor v, s) = Some (r, set_mon p m v, s') \<and>
     dm_notify_ret m = 0 \<and> live (ext s') = live (ext s) + held m \<and>
     (r = 0 \<and> held m = 6 \<and> knows call p s' (class_devices (dn_kit N) T (dv_controllers v) listed device_classes_darwin) \<or>
      r < 0 \<and> (\<exists>s''. hs_monitor_release p s' = Some s''))"
proof -
  have p: "p \<noteq> NULL" using z(2) by (simp add: list_allocated_def)
  obtain r1 v1 s1 where o: "open_ports N p (set_mon p zero_darwin_monitor v, s) = Some (r1, v1, s1)" "opened msgs live p v s r1 v1 s1"
    using open_ports_run [OF pw] by blast
  then obtain m where m: "v1 = set_mon p m v" "dm_iterators m = []" "dm_notify_ret m = 0" "settled msgs live (held m) s s1"
      "r1 = 0 \<and> held m = 3 \<or> r1 < 0" unfolding opened_def by blast
  have i1: "idle s s1" "live (ext s1) = live (ext s) + held m" using m(4) by (simp_all add: settled_def)
  then have z1: "mons s1 p = Some zero_monitor" "list_allocated (lists s1) p" "l_next (lists s1) p = Some NULL"
      "{hp ..< hp + 64} \<inter> dom (devs s1) = {}" using z hp by (simp_all add: idle_def)
  show ?thesis
  proof (cases "r1 < 0")
    case True
    have "\<exists>s''. hs_monitor_release p s1 = Some s''"
      by (rule release_empty [OF z1(1) _ p]) (use z1(3) in \<open>simp_all add: zero_monitor_def\<close>)
    with True o(1) m(1,3) i1(2) show ?thesis by (auto simp: monitor_set_up_def)
  next
    case False
    obtain r2 s2 where i: "hs_monitor_init hp p s1 = Some (r2, s2)" "ext s2 = ext s1"
        "hp \<noteq> NULL \<and> r2 = 0 \<and> knows call p s2 {} \<or> hp = NULL \<and> r2 < 0 \<and> (\<exists>s''. hs_monitor_release p s2 = Some s'')"
      using monitor_init_run [OF z1(1,2) fr z1(4)] by blast
    show ?thesis
    proof (cases "r2 < 0")
      case True
      then have "\<exists>s''. hs_monitor_release p s2 = Some s''" using i(3) by auto
      with True False o(1) m(1,3) i(1,2) i1(2) show ?thesis by (auto simp: monitor_set_up_def)
    next
      case f2: False
      then have k2: "knows call p s2 {}" using i(3) by auto
      have m1: "dv_mons v1 p = Some m" "dv_controllers v1 = dv_controllers v" by (simp_all add: m(1))
      obtain r3 v3 s3 I3 l where wd: "watch_devices N alloc call p (v1, s2) = Some (r3, v3, s3)" "knows call p s3 I3"
          "v3 = set_mon p (m\<lparr>dm_iterators := l\<rparr>) v1" "live (ext s3) = live (ext s2) + int (length l)"
          "r3 = 0 \<and> I3 = {} \<union> class_devices (dn_kit N) T (dv_controllers v) listed device_classes_darwin \<and> length l = 3 \<or> r3 < 0"
        using watch_devices_run [OF w k al kp nw m1(1) m(2) k2] unfolding m1(2) by blast
      let ?m = "m\<lparr>dm_iterators := l\<rparr>"
      have h: "held ?m = held m + int (length l)" "held m = 3" using m(2,5) False by (auto simp: held_def)
      have "monitor_set_up N alloc call p hp (set_mon p zero_darwin_monitor v, s) = Some (r3, set_mon p ?m v, s3)"
        using False f2 o(1) i(1) wd(1,3) by (simp add: monitor_set_up_def m(1))
      moreover have "live (ext s3) = live (ext s) + held ?m" using wd(4) i(2) i1(2) h(1) by simp
      moreover have "r3 < 0 \<longrightarrow> (\<exists>s''. hs_monitor_release p s3 = Some s'')" using release_knows [OF wd(2)] by simp
      ultimately show ?thesis using wd(2,5) m(3) h
        by (intro exI [of _ r3] exI [of _ s3] exI [of _ ?m]) auto
    qed
  qed
qed

lemma monitor_new_darwin_run:
  assumes w: "io_works (dn_kit N) T (both its msgs) live" and k: "iterators_work (dn_kit N) its msgs live"
    and al: "allocates alloc" and kp: "keeps (both its msgs) call" "keeps live call" and nw: "notify_works N its msgs live listed"
    and pw: "ports_work N msgs live" and lw: "listing_works (dn_kit N) its msgs live listed" "short_paths (dn_kit N) T listed"
    and fr: "friendly call"
    and new: "mons s p = None" "dv_mons v p = None" "{hp ..< hp + 64} \<inter> dom (devs s) = {}"
  defines "cs \<equiv> if dv_controllers v = [] then all_controllers (dn_kit N) T listed else dv_controllers v"
  shows "(\<exists>v' s' m. hs_monitor_new_darwin N alloc call p hp (v, s) = Some (0, Some p, v', s') \<and> dv_mons v' p = Some m \<and>
       dm_notify_ret m = 0 \<and> dv_controllers v' = cs \<and> held m = 6 \<and> live (ext s') = live (ext s) + 6 \<and>
       knows call p s' (class_devices (dn_kit N) T cs listed device_classes_darwin)) \<or>
     (\<exists>r v' s'. hs_monitor_new_darwin N alloc call p hp (v, s) = Some (r, None, v', s') \<and> r < 0 \<and>
       dv_mons v' p = None \<and> mons s' p = None \<and> live (ext s') = live (ext s))"
proof -
  let ?new = "hs_monitor_new_darwin N alloc call p hp (v, s)"
  obtain r1 cs1 s1 where c: "populate_controllers_darwin (dn_kit N) (dv_controllers v) s = Some (r1, cs1, s1)" "settled msgs live 0 s s1"
      "r1 = 0 \<and> cs1 = cs \<or> r1 < 0" using populate_run [OF w k lw] unfolding cs_def by blast
  have s1: "mons s1 p = None" "live (ext s1) = live (ext s)" "devs s1 = devs s"
    using c(2) new(1) by (simp_all add: settled_def idle_def)
  show ?thesis
  proof (cases "r1 < 0 \<or> p = NULL")
    case True
    have "\<exists>r v' s'. ?new = Some (r, None, v', s') \<and> r < 0 \<and> dv_mons v' p = None \<and> mons s' p = None \<and> live (ext s') = live (ext s)"
      using True c(1) s1 new(2)
      by (cases "r1 < 0") (simp_all add: hs_monitor_new_darwin_def monitor_new_fail_darwin_def hs_monitor_free_darwin_def fail_with_eq)
    then show ?thesis ..
  next
    case False
    then have cs1: "cs1 = cs" using c(3) by auto
    let ?v = "v\<lparr>dv_controllers := cs\<rparr>" and ?s2 = "monitor_alloc p s1"
    have z: "mons ?s2 p = Some zero_monitor" "list_allocated (lists ?s2) p" "l_next (lists ?s2) p = Some NULL"
        "{hp ..< hp + 64} \<inter> dom (devs ?s2) = {}" "ext ?s2 = ext s1"
      using False new(3) s1(3) by (auto simp: monitor_alloc_def list_allocated_def list_alloc_def)
    obtain r s' m where u: "monitor_set_up N alloc call p hp (set_mon p zero_darwin_monitor ?v, ?s2) = Some (r, set_mon p m ?v, s')"
        "dm_notify_ret m = 0" "live (ext s') = live (ext ?s2) + held m"
        "r = 0 \<and> held m = 6 \<and> knows call p s' (class_devices (dn_kit N) T (dv_controllers ?v) listed device_classes_darwin) \<or>
         r < 0 \<and> (\<exists>s''. hs_monitor_release p s' = Some s'')"
      using set_up_run [OF w k al kp nw pw fr z(1-4), of ?v] by blast
    have run: "?new = (if r < 0 then monitor_new_fail_darwin N p r (set_mon p m ?v, s') else Some (0, Some p, set_mon p m ?v, s'))"
      using False c(1) cs1 u(1) by (simp add: hs_monitor_new_darwin_def)
    show ?thesis
    proof (cases "r < 0")
      case True
      then have "\<exists>s''. hs_monitor_release p s' = Some s''" using u(4) by simp
      from free_darwin_run [OF w k pw _ this, of "set_mon p m ?v" m] obtain v'' s'' where
        "hs_monitor_free_darwin N p (set_mon p m ?v, s') = Some (v'', s'')" "dv_mons v'' p = None" "mons s'' p = None"
        "live (ext s'') = live (ext s') - held m" using False by auto
      with True run u(3) z(5) s1(2) have "?new = Some (r, None, v'', s'') \<and> r < 0 \<and> dv_mons v'' p = None \<and> mons s'' p = None \<and>
          live (ext s'') = live (ext s)" by (simp add: monitor_new_fail_darwin_def)
      then show ?thesis by blast
    next
      case f: False
      with u run z(5) s1(2) show ?thesis by (auto intro!: disjI1)
    qed
  qed
qed

section \<open>Enumerating\<close>

text \<open>The enumeration of the classes, with the monitor's own function as callback.\<close>

lemma enumerate_classes_darwin_run:
  assumes w: "io_works K T (both its msgs) live" and k: "iterators_work K its msgs live" and al: "allocates alloc"
    and kp: "keeps (both its msgs) call" "keeps live call" and lw: "listing_works K its msgs live listed"
  shows "knows call mp s I \<Longrightarrow>
     \<exists>r s' I'. enumerate_classes_darwin K alloc cs (hs_monitor_add call mp) ks s = Some (r, s') \<and> knows call mp s' I' \<and>
       live (ext s') = live (ext s) \<and> (r = 0 \<and> I' = I \<union> class_devices K T cs listed ks \<or> r < 0)"
proof (induction ks arbitrary: s I)
  case Nil
  then show ?case by (auto simp: class_devices_def)
next
  case (Cons c ks)
  obtain old_stack new_stack where c: "c = (old_stack, new_stack)" by (cases c)
  let ?cls = "correct_class K new_stack old_stack"
  obtain x s1 where x: "sys (io_matching K ?cls) s = (x, s1)" by (cases "sys (io_matching K ?cls) s")
  note st = matching_run [OF lw x]
  have k1: "knows call mp s1 I" using st knows_idle [OF Cons.prems] by (simp add: settled_def)
  show ?case
  proof (cases x)
    case None
    let ?msg = "Some (''IOServiceGetMatchingServices('' @ sq ?cls @ '') failed'')"
    obtain r2 s2 where f: "fail_with HS_ERROR_SYSTEM ?msg s1 = (r2, s2)" by (cases "fail_with HS_ERROR_SYSTEM ?msg s1")
    note f2 = settled_fail [OF f, where msgs = msgs and live = live]
    have "knows call mp s2 I" using knows_idle [OF k1] f2 by (simp add: settled_def)
    with None c x f f2 st show ?thesis by (auto simp: settled_def)
  next
    case (Some it)
    have it: "it \<noteq> 0" "its (ext s1) it = listed ?cls" "live (ext s1) = live (ext s) + 1" using st Some by (simp_all add: settled_def)
    obtain r s2 where p: "process_iterator_devices K alloc cs (hs_monitor_add call mp) it s1 = Some (r, s2)"
        "went_through its msgs live (arrivals K T cs) (listed ?cls) it (monitor_feeds call mp s1) s1 r s2"
      using process_iterator_run [OF w k al kp k1 it(2)] by blast
    have live2: "live (ext s2) = live (ext s1)" using p(2) by (auto simp: went_through_def drained_def)
    show ?thesis
    proof (cases "r = 0")
      case False
      then obtain es where "r < 0" "monitor_feeds call mp s1 es s2" using p(2) by (auto simp: went_through_def)
      then have k2: "knows call mp s2 (foldl known_after I es)" using mon.feeds_known [OF _ k1] by blast
      obtain s3 where d: "drop_iterator K it s2 = Some s3" "settled msgs live (-1) s2 s3" using drop_iterator_run [OF w k] by blast
      have "knows call mp s3 (foldl known_after I es)" "live (ext s3) = live (ext s)"
        using knows_idle [OF k2] d(2) live2 it(3) by (simp_all add: settled_def)
      with False \<open>r < 0\<close> c x Some it(1) p(1) d(1) show ?thesis by auto
    next
      case True
      then have "monitor_feeds call mp s1 (arrivals K T cs (listed ?cls)) s2" using p(2) by (auto simp: went_through_def)
      then have k2: "knows call mp s2 (I \<union> present K T cs (listed ?cls))" using mon.feeds_known [OF _ k1] known_arrivals by metis
      let ?s3 = "io_release K it s2"
      have m3: "settled msgs live (-1) s2 ?s3" by (rule settled_moved [OF io_works_step(8) [OF w]])
      have k3: "knows call mp ?s3 (I \<union> present K T cs (listed ?cls))" using knows_idle [OF k2] m3 by (simp add: settled_def)
      obtain r' s' I' where ih: "enumerate_classes_darwin K alloc cs (hs_monitor_add call mp) ks ?s3 = Some (r', s')"
          "knows call mp s' I'" "live (ext s') = live (ext ?s3)"
          "r' = 0 \<and> I' = I \<union> present K T cs (listed ?cls) \<union> class_devices K T cs listed ks \<or> r' < 0"
        using Cons.IH [OF k3] by blast
      have "class_devices K T cs listed (c # ks) = present K T cs (listed ?cls) \<union> class_devices K T cs listed ks"
        by (simp add: class_devices_def c)
      moreover have "live (ext s') = live (ext s)" using ih(3) m3 live2 it(3) by (simp add: settled_def)
      ultimately show ?thesis using ih True c x Some p(1) by (auto simp: Un_assoc)
    qed
  qed
qed

lemma enumerate_darwin_run:
  fixes cs :: controllers
  assumes w: "io_works K T (both its msgs) live" and k: "iterators_work K its msgs live" and al: "allocates alloc"
    and kp: "keeps (both its msgs) call" "keeps live call"
    and lw: "listing_works K its msgs live listed" "short_paths K T listed" and kn: "knows call mp s I" and f: "f \<noteq> NULL"
  defines "cs' \<equiv> if cs = [] then all_controllers K T listed else cs"
  shows "\<exists>r cs1 s' I'. hs_enumerate_darwin K alloc (\<lambda>f dev u. hs_monitor_add call mp dev) f u cs s = Some (r, cs1, s') \<and>
     knows call mp s' I' \<and> live (ext s') = live (ext s) \<and>
     (r = 0 \<and> cs1 = cs' \<and> I' = I \<union> class_devices K T cs' listed device_classes_darwin \<or> r < 0)"
proof -
  obtain r1 cs1 s1 where c: "populate_controllers_darwin K cs s = Some (r1, cs1, s1)" "settled msgs live 0 s s1"
      "r1 = 0 \<and> cs1 = cs' \<or> r1 < 0" using populate_run [OF w k lw] unfolding cs'_def by blast
  have k1: "knows call mp s1 I" "live (ext s1) = live (ext s)" using knows_idle [OF kn] c(2) by (simp_all add: settled_def)
  show ?thesis
  proof (cases "r1 < 0")
    case True
    with c(1) k1 f show ?thesis by (auto simp: hs_enumerate_darwin_def)
  next
    case False
    then have cs1: "cs1 = cs'" using c(3) by simp
    obtain r s' I' where e: "enumerate_classes_darwin K alloc cs' (hs_monitor_add call mp) device_classes_darwin s1 = Some (r, s')"
        "knows call mp s' I'" "live (ext s') = live (ext s1)"
        "r = 0 \<and> I' = I \<union> class_devices K T cs' listed device_classes_darwin \<or> r < 0"
      using enumerate_classes_darwin_run [OF w k al kp lw(1) k1(1)] by blast
    from False c(1) cs1 e k1(2) f show ?thesis by (auto simp: hs_enumerate_darwin_def)
  qed
qed

end
