(* ===== verification/ExampleMonitorDarwin.thy ===== *)
theory ExampleMonitorDarwin
  imports LifecycleDarwin ExampleFeed
begin

text \<open>
  An example of the registry and the notifications of macOS, for the witnesses. The world is what the iterators
  still give, the messages that have not been received and the number of references. There is one serial device:
  the entry 2, below the interface 3 of the device 4 at port 2 of the controller 5. Every call succeeds.
\<close>

text \<open>Entries are numbers above 0, so that the iterators hold their predecessors.\<close>

type_synonym ex_kit_world = "(nat \<Rightarrow> nat list) \<times> callout list \<times> int"

definition ex_live :: "ex_kit_world \<Rightarrow> int" where
  "ex_live w = snd (snd w)"

definition ex_its :: "ex_kit_world \<Rightarrow> nat \<Rightarrow> nat list" where
  "ex_its w it = map Suc (fst w it)"

definition ex_msgs :: "ex_kit_world \<Rightarrow> callout list" where
  "ex_msgs w = fst (snd w)"

definition ex_count :: "int \<Rightarrow> ex_kit_world \<Rightarrow> ex_kit_world" where
  "ex_count n w = (fst w, ex_msgs w, ex_live w + n)"

definition ex_fill :: "nat \<Rightarrow> nat list \<Rightarrow> int \<Rightarrow> ex_kit_world \<Rightarrow> ex_kit_world" where
  "ex_fill it es n w = ((fst w)(it := es), ex_msgs w, ex_live w + n)"

lemma ex_world_simps [simp]:
  "ex_its (ex_count n w) = ex_its w" "ex_msgs (ex_count n w) = ex_msgs w" "ex_live (ex_count n w) = ex_live w + n"
  "ex_its (ex_fill it es n w) = (ex_its w)(it := map Suc es)" "ex_msgs (ex_fill it es n w) = ex_msgs w"
  "ex_live (ex_fill it es n w) = ex_live w + n"
  "ex_msgs (i, m, l) = m" "ex_live (i, m, l) = l"
  by (auto simp: ex_count_def ex_fill_def ex_its_def ex_msgs_def ex_live_def)

lemma ex_both_count [simp]: "both ex_its ex_msgs (ex_count n w) = both ex_its ex_msgs w"
  by (simp add: both_def)

section \<open>The registry\<close>

fun ex_prop :: "int \<Rightarrow> nat \<Rightarrow> string \<Rightarrow> cf_value option" where
  "ex_prop session e k =
     (if e = 4 then
        map_of [(''sessionID'', CF_Number session), (''idVendor'', CF_Number 0x16c0), (''idProduct'', CF_Number 0x483),
          (''USB Product Name'', CF_String 18 (Some ''Teensy'')), (''port'', CF_Data [2, 0, 0, 0])] k
      else if e = 3 then map_of [(''bInterfaceNumber'', CF_Number 0)] k
      else if e = 2 then map_of [(''IOCalloutDevice'', CF_String 48 (Some ''/dev/cu.usb1''))] k
      else None)"

declare ex_prop.simps [simp del]

definition ex_conf :: "nat \<Rightarrow> string \<Rightarrow> bool" where
  "ex_conf e c \<longleftrightarrow> (e, c) \<in> {(2, ''IOSerialBSDClient''), (3, ''IOUSBInterface''), (4, ''IOUSBDevice''), (5, ''AppleUSBHostController'')}"

definition ex_up :: "nat \<Rightarrow> nat option" where
  "ex_up e = (if e \<in> {2, 3, 4} then Some (e + 1) else None)"

definition ex_path :: "nat \<Rightarrow> string option" where
  "ex_path e = (if e = 5 then Some ''IOService:/hub'' else None)"

definition ex_registry :: "int \<Rightarrow> registry_tree" where
  "ex_registry session = \<lparr>rt_prop = ex_prop session, rt_conf = ex_conf, rt_up = \<lambda>p. ex_up, rt_path = \<lambda>p. ex_path,
     rt_level = \<lambda>p e. if e \<in> {2, 3, 4} then 5 - e else 0\<rparr>"

definition ex_listed :: "string \<Rightarrow> nat list" where
  "ex_listed cls = (if cls = ''AppleUSBHostController'' then [5] else if cls = ''IOSerialBSDClient'' then [2] else [])"

section \<open>The system\<close>

definition ex_kit_posix :: "ex_kit_world posix_os" where
  "ex_kit_posix = \<lparr>os_open = \<lambda>p fl w. (Inl ENOENT, w), os_close = \<lambda>fd. ex_count (if fd < 0 then 0 else -1),
     os_poll = \<lambda>pfd t w. (Inr (0, [0]), w), os_read = \<lambda>fd n w. (Inl EAGAIN, w), os_write = \<lambda>fd b w. (Inl EAGAIN, w),
     os_hidiocgrdescsize = \<lambda>fd w. (Inl EINVAL, w), os_hidiocgrdesc = \<lambda>fd n w. (Inl EINVAL, w),
     os_hidiocgfeature = \<lambda>fd b w. (Inl EINVAL, w), os_hidiocsfeature = \<lambda>fd b w. (Inl EINVAL, w),
     os_tcgetattr = \<lambda>fd w. (Inl EINVAL, w), os_tcsetattr = \<lambda>fd t w. (Inl EINVAL, w),
     os_tiocsdtr = \<lambda>fd w. w, os_usleep = \<lambda>n w. w, os_clock = \<lambda>w. (Some (0, 0), w),
     os_strerror = \<lambda>e. ''error'', os_uname_release = ''15.0.0''\<rparr>"

definition ex_kit_os :: "ex_kit_world darwin_os" where
  "ex_kit_os = \<lparr>dw_posix = ex_kit_posix, dw_timebase = (1, 1), dw_absolute_time = \<lambda>w. (0, w),
     dw_select = \<lambda>fds t w. (Inr [], w), dw_malloc = \<lambda>n w. (True, w),
     dw_number = \<lambda>t v. (True, v), dw_entry_from_path = \<lambda>p w. (0, w), dw_object_release = \<lambda>x. ex_count (-1), dw_release = \<lambda>x. ex_count (-1),
     dw_hid_create = \<lambda>x w. (0, w), dw_hid_open = \<lambda>x w. (True, w), dw_hid_close = \<lambda>x w. w,
     dw_property = \<lambda>x p w. (Some 2, w), dw_hid_register = \<lambda>x w. w, dw_set_report = \<lambda>x t i b w. (True, w),
     dw_get_report = \<lambda>x i n w. (None, w), dw_pipe = \<lambda>w. (Inr (3, 4), w), dw_set_nonblock = \<lambda>fd w. w,
     dw_mutex_init = \<lambda>w. (0, w), dw_mutex_destroy = \<lambda>w. w, dw_cond_init = \<lambda>w. (0, w), dw_cond_destroy = \<lambda>w. w,
     dw_thread_create = \<lambda>w. (0, w), dw_thread_join = \<lambda>w. w,
     dw_current_loop = \<lambda>w. (21, w), dw_source_create = \<lambda>l w. (0, w), dw_schedule = \<lambda>x l w. w, dw_unschedule = \<lambda>x l w. w,
     dw_source_signal = \<lambda>x w. w, dw_loop_wake_up = \<lambda>l w. w\<rparr>"

definition ex_kit :: "int \<Rightarrow> ex_kit_world iokit" where
  "ex_kit session = \<lparr>io_os = ex_kit_os,
     io_property = \<lambda>e k w. (case ex_prop session e k of None \<Rightarrow> (None, w) | Some v \<Rightarrow> (Some (1, v), ex_count 1 w)),
     io_conforms = \<lambda>e c w. (ex_conf e c, w),
     io_path = \<lambda>e p w. (case ex_path e of None \<Rightarrow> (Inl (-1), w) | Some x \<Rightarrow> (Inr x, w)),
     io_parent = \<lambda>e p w. (case ex_up e of None \<Rightarrow> (None, w) | Some q \<Rightarrow> (Some q, ex_count 1 w)),
     io_retain = \<lambda>e. ex_count 1,
     io_next = \<lambda>it w. (case fst w it of [] \<Rightarrow> (0, w) | e # es \<Rightarrow> (Suc e, ex_fill it es 1 w)),
     io_matching = \<lambda>cls w. (Some 9, ex_fill 9 (map (\<lambda>e. e - 1) (ex_listed cls)) 1 w)\<rparr>"

definition ex_notify :: "int \<Rightarrow> ex_kit_world darwin_notify" where
  "ex_notify session = \<lparr>dn_kit = ex_kit session,
     dn_port_create = \<lambda>w. (6, ex_count 1 w), dn_port_destroy = \<lambda>p. ex_count (-1),
     dn_notify = \<lambda>p ty cls f w. (Some 7, ex_fill 7 (map (\<lambda>e. e - 1) (ex_listed cls)) 1 w),
     dn_kqueue = \<lambda>w. (Inr 5, ex_count 1 w),
     dn_set_allocate = \<lambda>w. (Some 8, ex_count 1 w), dn_set_deallocate = \<lambda>p. ex_count (-1),
     dn_insert_member = \<lambda>p q w. (True, w), dn_kevent_add = \<lambda>fd p w. (None, w),
     dn_kevent = \<lambda>fd w. (Inr (if ex_msgs w = [] then None else Some EVFILT_MACHPORT), w),
     dn_receive = \<lambda>p w. (case ex_msgs w of [] \<Rightarrow> (MACH_RCV_TIMED_OUT, w) | c # cs \<Rightarrow> (MACH_MSG_SUCCESS c, fst w, cs, ex_live w)),
     dn_errno = \<lambda>e. 0\<rparr>"

section \<open>It works\<close>

lemma ex_listed_pred [simp]: "map (Suc \<circ> (\<lambda>e. e - Suc 0)) (ex_listed cls) = ex_listed cls"
  by (simp add: ex_listed_def)

lemma ex_kit_sel [simp]: "io_os (ex_kit session) = ex_kit_os" "dn_kit (ex_notify session) = ex_kit session"
  by (simp_all add: ex_kit_def ex_notify_def)

lemma ex_kit_new_stack [simp]: "uses_new_stack (ex_kit session)"
proof -
  have "hs_darwin_version ex_kit_os 0 = 150000"
    unfolding hs_darwin_version_def by (simp add: ex_kit_os_def ex_kit_posix_def) code_simp
  then show ?thesis by (simp add: uses_new_stack_def)
qed

lemma ex_kit_reads: "registry_reads (ex_kit session) (ex_registry session)"
  by (auto simp: registry_reads_def ex_kit_def ex_registry_def split: option.splits)

lemma ex_kit_sound: "registry_sound (ex_kit session) (ex_registry session)"
  by (auto simp: registry_sound_def ex_registry_def ex_up_def ex_prop.simps ex_kit_os_def split: if_splits)

lemma ex_kit_works: "io_works (ex_kit session) (ex_registry session) (both ex_its ex_msgs) ex_live"
proof -
  have "io_keeps (ex_kit session) (both ex_its ex_msgs)" "io_counts (ex_kit session) ex_live"
    by (auto simp: io_keeps_def io_counts_def ex_kit_def ex_kit_os_def split: option.splits)
  then show ?thesis by (simp add: io_works_def ex_kit_reads ex_kit_sound)
qed

lemma ex_kit_iterators: "iterators_work (ex_kit session) ex_its ex_msgs ex_live"
  by (auto simp: iterators_work_def ex_kit_def ex_its_def [of _ "_ :: nat"] split: list.splits)

lemma ex_kit_messages: "messages_work (ex_notify session) ex_its ex_msgs ex_live"
  by (auto simp: messages_work_def ex_notify_def ex_its_def split: list.splits)

lemma ex_kit_listing: "listing_works (ex_kit session) ex_its ex_msgs ex_live ex_listed"
proof -
  have "length (ex_listed cls) \<le> 255" for cls by (simp add: ex_listed_def)
  then show ?thesis by (simp add: listing_works_def) (simp add: ex_kit_def)
qed

lemma ex_kit_paths: "short_paths (ex_kit session) (ex_registry session) ex_listed"
  by (simp add: short_paths_def ex_registry_def ex_path_def)

lemma ex_kit_notifications: "notify_works (ex_notify session) ex_its ex_msgs ex_live ex_listed"
  by (auto simp: notify_works_def ex_notify_def)

lemma ex_kit_ports: "ports_work (ex_notify session) ex_msgs ex_live"
  by (auto simp: ports_work_def ex_notify_def ex_kit_os_def ex_kit_posix_def ex_kit_def)

lemmas ex_kit_facts = ex_kit_works ex_kit_iterators ex_kit_messages ex_kit_listing ex_kit_paths ex_kit_notifications ex_kit_ports

end
