(* ===== verification/DarwinMonitorProperties.thy ===== *)
theory DarwinMonitorProperties
  imports ExampleMonitorDarwin
begin

text \<open>
  The properties of the macOS monitor: what a device structure says, its location, what a monitor knows after
  its creation, a refresh and an enumeration, and what a removal withdraws.
\<close>

section \<open>Sessions\<close>

text \<open>A number of 60 bits has at most 15 digits; a larger one has 16, so that its key does not fit the buffer.\<close>

lemma digits_nat_bound: "\<forall>c \<in> set xs. digit_val c < b \<Longrightarrow> digits_nat b v xs < (v + 1) * b ^ length xs"
proof (induction xs arbitrary: v)
  case (Cons c xs)
  have "digits_nat b v (c # xs) < (v * b + digit_val c + 1) * b ^ length xs" using Cons by simp
  also have "v * b + digit_val c + 1 \<le> (v + 1) * b" using Cons.prems by simp
  then have "(v * b + digit_val c + 1) * b ^ length xs \<le> (v + 1) * b * b ^ length xs" by (rule mult_right_mono) simp
  finally show ?case by (simp only: digits_nat.simps list.size power_Suc mult.assoc add_Suc_right add_0_right)
qed simp

lemma session_key_fits: "take 15 (session_key session) = session_key session \<longleftrightarrow> unat session < 2 ^ 60"
proof
  assume "unat session < 2 ^ 60"
  then have "length (session_key session) \<le> 15"
    unfolding session_key_def using show_nat_length [of 16 "unat session" 15] by simp
  then show "take 15 (session_key session) = session_key session" by simp
next
  assume "take 15 (session_key session) = session_key session"
  then have l: "length (session_key session) \<le> 15" by (metis length_take min.cobounded2)
  have "unat session < 16 ^ length (session_key session)"
    using digits_nat_bound [of "session_key session" 16 0] show_nat_digits [of 16 _ "unat session"]
    by (simp add: session_key_def digits_nat_show)
  also have "\<dots> \<le> 16 ^ 15" by (rule power_increasing [OF l]) simp
  finally show "unat session < 2 ^ 60" by simp
qed

section \<open>An example\<close>

abbreviation ex_hub :: controllers where
  "ex_hub \<equiv> [(''IOService:/hub'', 1)]"

definition ex_teensy :: hs_device where
  "ex_teensy = \<lparr>d_monitor = NULL, refcount = 1, d_key = Some ''beef'', d_type = HS_DEVICE_TYPE_SERIAL,
     d_vtable = Hs_posix_device_vtable, d_state = HS_DEVICE_STATUS_DISCONNECTED, d_location = Some ''usb-1-2'',
     d_path = Some ''/dev/cu.usb1'', d_vid = 0x16c0, d_pid = 0x483, d_manufacturer = None, d_product = Some ''Teensy'',
     d_serial = None, d_iface = 0\<rparr>"

lemma ex_class: "correct_class (ex_kit session) new_stack old_stack = new_stack"
  by (simp add: correct_class_def)

lemma ex_registry_sel [simp]:
  "rt_prop (ex_registry session) = ex_prop session" "rt_conf (ex_registry session) = ex_conf"
  "rt_up (ex_registry session) p = ex_up" "rt_path (ex_registry session) p = ex_path"
  "rt_level (ex_registry session) p e = (if e \<in> {2, 3, 4} then 5 - e else 0)"
  by (simp_all add: ex_registry_def)

lemma ex_parents: "parent_of_class (ex_registry session) ''IOUSBInterface'' 2 = 3"
    "parent_of_class (ex_registry session) ''IOUSBDevice'' 3 = 4"
  by (simp_all add: parent_of_class_def numeral_2_eq_2 numeral_3_eq_3 ex_up_def ex_conf_def)

lemma ex_numbers: "numbers_at (ex_kit session) (ex_registry session) 4 3 = Some (word_of_int session, 0x16c0, 0x483, 0)"
  by (simp add: numbers_at_def number_at_def ex_prop.simps ex_kit_os_def)

lemma ex_device_ports: "ports_of (ex_kit session) (ex_registry session) ex_hub 4 = Some [1, 2]"
  by (simp add: ports_of_def ex_class port_at_def data_at_def ex_prop.simps ex_up_def ex_conf_def ex_path_def)

lemma ex_session_key: "session_key 0xbeef = ''beef''"
proof -
  have "digit_char 11 = CHR ''b''" "digit_char 14 = CHR ''e''" "digit_char 15 = CHR ''f''" by code_simp+
  then show ?thesis by (simp add: session_key_def show_nat.simps)
qed

lemma ex_device_described: "describe_darwin (ex_kit 0xbeef) (ex_registry 0xbeef) ex_hub 2 = Some ex_teensy"
proof -
  have "digit_char 1 = CHR ''1''" "digit_char 2 = CHR ''2''" by code_simp+
  then have "location_string [1, 2] (Suc (Suc 0)) = Some ''usb-1-2''"
    by (simp add: location_string_def show_nat.simps)
  then show ?thesis
    by (simp add: describe_darwin_def ex_parents ex_numbers location_of_def ex_device_ports node_of_def ex_conf_def
        string_at_def ex_prop.simps ex_teensy_def ex_session_key)
qed

lemma ex_all_controllers: "all_controllers (ex_kit session) (ex_registry session) ex_listed = ex_hub"
  by (simp add: all_controllers_def ex_class ex_listed_def ex_path_def)

lemma ex_kit_plain: "io_works (ex_kit session) (ex_registry session) (\<lambda>w. ()) ex_live"
proof -
  have "io_counts (ex_kit session) ex_live" using ex_kit_works by (simp add: io_works_def)
  then show ?thesis by (simp add: io_works_def ex_kit_reads ex_kit_sound io_keeps_def)
qed

text \<open>The world where the iterator 7 still gives the entries after those of \<open>es\<close>.\<close>

abbreviation ex_pending :: "nat list \<Rightarrow> callout list \<Rightarrow> ex_kit_world" where
  "ex_pending es cs \<equiv> ((\<lambda>it. [])(7 := es), cs, 0)"

definition ex_darwin_mon :: darwin_monitor where
  "ex_darwin_mon = \<lparr>dm_port = 6, dm_iterators = [7], dm_notify_ret = 0, dm_kqfd = 5, dm_port_set = 8\<rparr>"

definition ex_darwin_vars :: darwin_vars where
  "ex_darwin_vars = \<lparr>dv_controllers = ex_hub, dv_mons = [10 \<mapsto> ex_darwin_mon]\<rparr>"

lemma ex_darwin_vars_sel: "dv_mons ex_darwin_vars 10 = Some ex_darwin_mon" "dm_notify_ret ex_darwin_mon = 0"
    "dv_controllers ex_darwin_vars = ex_hub"
  by (simp_all add: ex_darwin_vars_def ex_darwin_mon_def)

section \<open>Properties\<close>

text \<open>
  C12: on macOS an entry of the registry becomes the device structure that \<open>describe_darwin\<close> makes of the
  registry: its key is the session of its USB device in hexadecimal, and its numbers, strings, location and
  node are those of the entries it belongs to. An entry that describes no device is skipped; otherwise there
  may be an error. The walk up the registry ends, nothing else in the library changes, and every reference
  that was taken has been given back, on all paths.
\<close>

theorem darwin_device_described:
  assumes "io_works K T (\<lambda>w. ()) live" and "allocates alloc"
  shows "\<exists>r p s'. process_darwin_device K alloc cs e s = Some (r, p, s') \<and> live (ext s') = live (ext s) \<and>
     (case describe_darwin K T cs e of
        None \<Rightarrow> r \<le> 0
      | Some d \<Rightarrow> r = 1 \<and> p \<noteq> NULL \<and> devs s p = None \<and> devs s' = (devs s)(p \<mapsto> d) \<or> r < 0) \<and>
     (r \<le> 0 \<longrightarrow> p = NULL \<and> idle s s')"
proof -
  obtain r p s' where r: "process_darwin_device K alloc cs e s = Some (r, p, s')"
      "processed (\<lambda>w. ()) live s (describe_darwin K T cs e) r p s'"
    using process_darwin_run [OF assms] by blast
  then obtain s1 where s1: "moved (\<lambda>w. ()) live 0 s s1"
      "(\<exists>d. r = 1 \<and> describe_darwin K T cs e = Some d \<and> new_device s1 p d \<and> s' = device_alloc p d s1) \<or>
       r \<le> 0 \<and> p = NULL \<and> s' = s1 \<and> (r = 0 \<longrightarrow> describe_darwin K T cs e = None)"
    unfolding processed_def by blast
  have i: "idle s s1" "devs s1 = devs s" "live (ext s1) = live (ext s)"
    using moved_idle [OF s1(1)] s1(1) by (simp_all add: moved_def idle_def)
  from s1(2) i r(1) show ?thesis
    by (elim disjE) (auto simp: new_device_def device_alloc_def split: option.splits)
qed

theorem darwin_device_described_witness:
  "\<exists>r p s'. process_darwin_device (ex_kit 0xbeef) ex_calloc ex_hub 2 (ex_empty (ex_pending [] [])) = Some (r, p, s') \<and>
     ex_live (ext s') = 0 \<and> (r = 1 \<and> devs s' p = Some ex_teensy \<or> r < 0)"
  using darwin_device_described [OF ex_kit_plain [of "0xbeef"] ex_calloc_allocates,
      of ex_hub 2 "ex_empty (ex_pending [] [])"]
  by (auto simp: ex_device_described ex_empty_def)

text \<open>
  C13: resolving the location of a USB device on macOS always returns and never leaves its arrays, however deep
  the registry is. The result is a text which reads back as the number of the controller and the ports from
  there down to the device, as the registry has them; there is none when no port is known, when there are
  16 or more of them, or when the controller is unknown.
\<close>

theorem darwin_location:
  assumes "io_works K T (\<lambda>w. ()) live" and "e \<noteq> 0"
  shows "\<exists>r loc s'. resolve_device_location_darwin K cs e s = Some (r, loc, s') \<and> live (ext s') = live (ext s) \<and> idle s s' \<and>
     (case ports_of K T cs e of
        None \<Rightarrow> r \<le> 0
      | Some ports \<Rightarrow> r = 1 \<and> (\<exists>str. loc = Some str \<and> length str < 256 \<and> location_ports str = ports) \<or> r < 0)"
proof -
  obtain r loc s' where r: "resolve_device_location_darwin K cs e s = Some (r, loc, s')" "moved (\<lambda>w. ()) live 0 s s'"
      "text_result r loc (location_of K T cs e)" using resolve_location_run [OF assms] by blast
  have s': "idle s s'" "live (ext s') = live (ext s)" using moved_idle [OF r(2)] r(2) by (simp_all add: moved_def)
  show ?thesis
  proof (cases "ports_of K T cs e")
    case None
    with r s' show ?thesis by (auto simp: text_result_def location_of_def)
  next
    case (Some ports)
    then have "length ports \<le> 63"
      by (auto simp: ports_of_def Let_def split: prod.splits if_splits bind_splits)
    then obtain str where "location_string ports (length ports) = Some str" "length str < 256" "location_ports str = ports"
      using location_string_run [of "length ports" ports] by auto
    with Some r s' show ?thesis by (auto simp: text_result_def location_of_def)
  qed
qed

theorem darwin_location_witness:
  "\<exists>r loc s'. resolve_device_location_darwin (ex_kit 1) ex_hub 4 (ex_empty (ex_pending [] [])) = Some (r, loc, s') \<and>
     (r = 1 \<and> (\<exists>str. loc = Some str \<and> location_ports str = [1, 2]) \<or> r < 0)"
  using darwin_location [OF ex_kit_plain [of 1], of 4 ex_hub "ex_empty (ex_pending [] [])"] by (auto simp: ex_device_ports)

text \<open>
  C10: a refresh of the macOS monitor always returns. It works off the messages in their order: an iterator of
  new entries announces the devices they describe, one by one, and one of entries that are gone withdraws
  their sessions. Without an error all messages have been handled; after one a prefix of the events has been.
  The monitor knows exactly the devices that result, and no reference is lost.
\<close>

theorem darwin_refresh_tracks:
  assumes "io_works (dn_kit N) T (both its msgs) live" and "iterators_work (dn_kit N) its msgs live"
    and "allocates alloc" and "keeps (both its msgs) call" and "keeps live call"
    and "messages_work N its msgs live" and "dv_mons v mp = Some m" and "dm_notify_ret m = 0"
    and "knows call mp s I"
  shows "\<exists>r s' es. hs_monitor_refresh_darwin N alloc call mp (v, s) = Some (r, v, s') \<and> r \<le> 0 \<and>
     monitor_feeds call mp s es s' \<and> knows call mp s' (foldl known_after I es) \<and>
     prefix es (refresh_events (dn_kit N) T (dv_controllers v) (its (ext s)) (msgs (ext s))) \<and>
     (r = 0 \<longrightarrow> es = refresh_events (dn_kit N) T (dv_controllers v) (its (ext s)) (msgs (ext s)) \<and> msgs (ext s') = []) \<and>
     live (ext s') = live (ext s)"
proof -
  obtain r s' where r: "hs_monitor_refresh_darwin N alloc call mp (v, s) = Some (r, v, s')"
      "refreshed_darwin call mp msgs live (refresh_events (dn_kit N) T (dv_controllers v) (its (ext s)) (msgs (ext s))) s r s'"
    using refresh_darwin_run [OF assms] by blast
  with mon.feeds_known [OF _ assms(9)] show ?thesis unfolding refreshed_darwin_def by blast
qed

theorem darwin_refresh_tracks_witness:
  "\<exists>s r s' es. knows ex_accept 10 s {} \<and>
     hs_monitor_refresh_darwin (ex_notify 0xbeef) ex_calloc ex_accept 10 (ex_darwin_vars, s) = Some (r, ex_darwin_vars, s') \<and>
     knows ex_accept 10 s' (foldl known_after {} es) \<and> prefix es [Arrive (Some ''beef'', 0)] \<and>
     (r = 0 \<longrightarrow> es = [Arrive (Some ''beef'', 0)] \<and> ex_msgs (ext s') = [])"
proof -
  obtain s where s: "knows ex_accept 10 s {}" "ext s = ex_pending [1] [Devices_attached 7]"
    using ex_known [of "ex_pending [1] [Devices_attached 7]"] by blast
  have ev: "refresh_events (ex_kit 0xbeef) (ex_registry 0xbeef) ex_hub (ex_its (ext s)) (ex_msgs (ext s)) =
      [Arrive (Some ''beef'', 0)]"
    using s(2) ex_device_described by (simp add: ex_its_def numeral_2_eq_2 ex_teensy_def)
  have w: "io_works (dn_kit (ex_notify 0xbeef)) (ex_registry 0xbeef) (both ex_its ex_msgs) ex_live"
    "iterators_work (dn_kit (ex_notify 0xbeef)) ex_its ex_msgs ex_live"
    using ex_kit_facts(1,2) by simp_all
  from darwin_refresh_tracks [OF w ex_calloc_allocates ex_accept_friendly(2) ex_accept_friendly(2) ex_kit_facts(3)
      ex_darwin_vars_sel(1,2) s(1)] s(1)
  show ?thesis by (auto simp: ex_darwin_vars_sel ev)
qed

text \<open>
  C11: \<open>hs_monitor_new\<close> on macOS always returns. When it succeeds the monitor knows exactly the devices that
  the entries of the two classes describe, with the controllers that have been found, and it holds six
  references, which \<open>hs_monitor_free\<close> gives back. When it fails at any point the monitor is gone, and all
  references that were taken on the way are given back.
\<close>

theorem darwin_monitor_new:
  assumes "io_works (dn_kit N) T (both its msgs) live" and "iterators_work (dn_kit N) its msgs live"
    and "allocates alloc" and "keeps (both its msgs) call" and "keeps live call" and "notify_works N its msgs live listed"
    and "ports_work N msgs live" and "listing_works (dn_kit N) its msgs live listed" and "short_paths (dn_kit N) T listed"
    and "friendly call"
    and "mons s p = None" and "dv_mons v p = None" and "{hp ..< hp + 64} \<inter> dom (devs s) = {}"
    and "cs = (if dv_controllers v = [] then all_controllers (dn_kit N) T listed else dv_controllers v)"
  shows "(\<exists>v' s' v'' s''. hs_monitor_new_darwin N alloc call p hp (v, s) = Some (0, Some p, v', s') \<and>
       dv_controllers v' = cs \<and> dv_mons v' p \<noteq> None \<and> live (ext s') = live (ext s) + 6 \<and>
       knows call p s' (class_devices (dn_kit N) T cs listed device_classes_darwin) \<and>
       hs_monitor_free_darwin N p (v', s') = Some (v'', s'') \<and> dv_mons v'' p = None \<and> mons s'' p = None \<and>
       live (ext s'') = live (ext s)) \<or>
     (\<exists>r v' s'. hs_monitor_new_darwin N alloc call p hp (v, s) = Some (r, None, v', s') \<and> r < 0 \<and>
       dv_mons v' p = None \<and> mons s' p = None \<and> live (ext s') = live (ext s))"
  using monitor_new_darwin_run [OF assms(1-13), folded assms(14)]
proof (elim disjE exE conjE)
  fix v' s' m
  assume n: "hs_monitor_new_darwin N alloc call p hp (v, s) = Some (0, Some p, v', s')" "dv_mons v' p = Some m"
    "dv_controllers v' = cs" "held m = 6" "live (ext s') = live (ext s) + 6"
    "knows call p s' (class_devices (dn_kit N) T cs listed device_classes_darwin)"
  have "p \<noteq> NULL" using n(6) by (simp add: knows_def)
  from free_darwin_run [OF assms(1,2,7) this release_knows [OF n(6)] n(2)] n show ?thesis by auto
qed blast

theorem darwin_monitor_new_witness:
  "(\<exists>v' s' v'' s''. hs_monitor_new_darwin (ex_notify 0xbeef) ex_calloc ex_accept 10 100
         (\<lparr>dv_controllers = [], dv_mons = Map.empty\<rparr>, ex_empty (ex_pending [] [])) = Some (0, Some 10, v', s') \<and>
       knows ex_accept 10 s' {(Some ''beef'', 0)} \<and> hs_monitor_free_darwin (ex_notify 0xbeef) 10 (v', s') = Some (v'', s'') \<and>
       ex_live (ext s'') = 0) \<or>
     (\<exists>r v' s'. hs_monitor_new_darwin (ex_notify 0xbeef) ex_calloc ex_accept 10 100
         (\<lparr>dv_controllers = [], dv_mons = Map.empty\<rparr>, ex_empty (ex_pending [] [])) = Some (r, None, v', s') \<and> r < 0 \<and>
       ex_live (ext s') = 0)"
proof -
  let ?N = "ex_notify 0xbeef" and ?s = "ex_empty (ex_pending [] [])"
  have "class_devices (ex_kit 0xbeef) (ex_registry 0xbeef) ex_hub ex_listed device_classes_darwin = {(Some ''beef'', 0)}"
    using ex_device_described
    by (auto simp: class_devices_def device_classes_darwin_def ex_class ex_listed_def present_def ex_teensy_def)
  moreover have w: "io_works (dn_kit ?N) (ex_registry 0xbeef) (both ex_its ex_msgs) ex_live"
    "iterators_work (dn_kit ?N) ex_its ex_msgs ex_live" "listing_works (dn_kit ?N) ex_its ex_msgs ex_live ex_listed"
    "short_paths (dn_kit ?N) (ex_registry 0xbeef) ex_listed"
    using ex_kit_facts(1,2,4,5) by simp_all
  have new: "mons ?s 10 = None" "dv_mons \<lparr>dv_controllers = [], dv_mons = Map.empty\<rparr> 10 = None"
      "{100 ..< 100 + 64} \<inter> dom (devs ?s) = {}" "ext ?s = ex_pending [] []"
    by (simp_all add: ex_empty_def)
  have "ex_hub = (if dv_controllers \<lparr>dv_controllers = [], dv_mons = Map.empty\<rparr> = [] then all_controllers (dn_kit ?N) (ex_registry 0xbeef) ex_listed
      else dv_controllers \<lparr>dv_controllers = [], dv_mons = Map.empty\<rparr>)" by (simp add: ex_all_controllers)
  note darwin_monitor_new [OF w(1,2) ex_calloc_allocates ex_accept_friendly(2) ex_accept_friendly(2) ex_kit_facts(6,7) w(3,4)
      ex_accept_friendly(1) new(1-3) this]
  ultimately show ?thesis using new(4) by auto
qed

text \<open>
  C14: the callback for entries that are gone withdraws the devices of a session of less than 60 bits, and no
  others. The key of a larger session does not fit its buffer: its devices stay known although they are gone.
\<close>

theorem darwin_remove_session:
  assumes "io_works (dn_kit N) T (both its msgs) live" and "keeps (both its msgs) call" and "keeps live call"
    and "knows call mp s I" and "number_at (dn_kit N) T e ''sessionID'' kCFNumberSInt64Type = Some n"
    and "key = session_key (word_of_int n)"
  shows "\<exists>s' I'. remove_device N call mp e s = Some s' \<and> knows call mp s' I' \<and> live (ext s') = live (ext s) \<and>
     (if unat (word_of_int n :: uint64) < 2 ^ 60 then I' = {i \<in> I. fst i \<noteq> Some key}
      else \<forall>i \<in> I. fst i = Some key \<longrightarrow> i \<in> I')"
proof -
  obtain s' where r: "remove_device N call mp e s = Some s'" "monitor_feeds call mp s (departures (dn_kit N) T [e]) s'"
      "live (ext s') = live (ext s)" using remove_device_run [OF assms(1-4)] by blast
  have "departures (dn_kit N) T [e] = [Depart (take 15 key)]" by (simp add: assms(5,6))
  then have k: "knows call mp s' {i \<in> I. fst i \<noteq> Some (take 15 key)}" using mon.feeds_known [OF r(2) assms(4)] by simp
  have "take 15 key = key \<longleftrightarrow> unat (word_of_int n :: uint64) < 2 ^ 60" unfolding assms(6) by (rule session_key_fits)
  then show ?thesis using r(1,3) k
    by (cases "take 15 key = key") (auto simp del: take_all_iff intro!: exI [of _ "{i \<in> I. fst i \<noteq> Some (take 15 key)}"])
qed

theorem darwin_remove_session_witness:
  "(\<exists>s s'. knows ex_accept 10 s {(Some ''beef'', 0)} \<and> remove_device (ex_notify 0xbeef) ex_accept 10 4 s = Some s' \<and>
      knows ex_accept 10 s' {}) \<and>
   (\<exists>s s' I. knows ex_accept 10 s {(Some ''1000000000000000'', 0)} \<and>
      remove_device (ex_notify (2 ^ 60)) ex_accept 10 4 s = Some s' \<and> knows ex_accept 10 s' I \<and>
      (Some ''1000000000000000'', 0) \<in> I)"
proof -
  have w: "io_works (dn_kit (ex_notify n)) (ex_registry n) (both ex_its ex_msgs) ex_live" for n using ex_kit_facts(1) by simp
  have n: "number_at (dn_kit (ex_notify n)) (ex_registry n) 4 ''sessionID'' kCFNumberSInt64Type = Some n" for n
    by (simp add: number_at_def ex_prop.simps ex_kit_os_def)
  note run = darwin_remove_session [OF w ex_accept_friendly(2) ex_accept_friendly(2) _ n refl]
  obtain s :: "ex_kit_world hs_state" where s: "knows ex_accept 10 s {(Some ''beef'', 0)}"
    using ex_known_device [of ex_teensy "ex_pending [] []"] by (auto simp: ex_teensy_def)
  have "digit_char 0 = CHR ''0''" "digit_char 1 = CHR ''1''" by code_simp+
  then have key: "session_key 1152921504606846976 = ''1000000000000000''" by (simp add: session_key_def show_nat.simps)
  obtain s2 :: "ex_kit_world hs_state" where s2: "knows ex_accept 10 s2 {(Some ''1000000000000000'', 0)}"
    using ex_known_device [of "ex_teensy\<lparr>d_key := Some ''1000000000000000''\<rparr>" "ex_pending [] []"] by (auto simp: ex_teensy_def)
  have none: "{i :: identity. i = (Some ''beef'', 0) \<and> fst i \<noteq> Some ''beef''} = {}" by auto
  obtain t where "remove_device (ex_notify 0xbeef) ex_accept 10 4 s = Some t" "knows ex_accept 10 t {}"
    using run [OF s, of "0xbeef"] by (auto simp: ex_session_key none)
  moreover obtain t2 I where "remove_device (ex_notify (2 ^ 60)) ex_accept 10 4 s2 = Some t2" "knows ex_accept 10 t2 I"
      "(Some ''1000000000000000'', 0) \<in> I"
    using run [OF s2, of "2 ^ 60"] by (auto simp: key)
  ultimately show ?thesis using s s2 by blast
qed

end
