(* ===== verification/Spec2Isabelle.thy ===== *)
theory Spec2Isabelle
  imports Compat HTable ListHead MonitorProperties PosixProperties HidProperties LinuxProperties Win32Properties
    Win32MonitorProperties DarwinProperties DarwinMonitorProperties
begin

text \<open>
  Verification library of libhs, a C library that lists, watches and talks to USB serial and HID devices.

  \<^bold>\<open>The program.\<close> A program creates a monitor (\<open>hs_monitor_new\<close>), registers callbacks with it and refreshes it
  whenever its descriptor is readable (\<open>hs_poll\<close>). The platform half of the monitor (\<open>monitor_linux.c\<close>,
  \<open>monitor_win32.c\<close>, \<open>monitor_darwin.c\<close>) asks the system which devices there are, fills a device structure for each and
  announces it to the platform independent half (\<open>monitor.c\<close>), which keeps the known devices in an
  intrusive hash table (\<open>htable.h\<close>) and calls the callbacks, which are in an intrusive list (\<open>list.h\<close>).
  Devices are counted references (\<open>device.c\<close>); opening one goes through the vtable of its driver
  (\<open>device_posix.c\<close>, \<open>hid_linux.c\<close>, \<open>device_win32.c\<close>, \<open>hid_darwin.c\<close>), and the handle is what the input and
  output functions (\<open>serial_*.c\<close>, \<open>hid_*.c\<close>) work on. Errors are negative codes; \<open>hs_error\<close> logs them unless they are masked
  (\<open>common.c\<close>).

  \<^bold>\<open>How it is modelled.\<close> The state of the library is the record \<open>hs_state\<close> (\<open>Device\<close>): the stores of list
  and table nodes, devices, callbacks and monitors by address, the log, and the outside world \<open>'w\<close>, an
  arbitrary type. A C function is a function from this state to an option: \<open>None\<close> is a failed assertion,
  a null or dangling pointer, or a write out of bounds, or a loop that does not end (\<open>partial_function\<close>);
  errors are the negative results of the code. The system (POSIX, libudev, the Win32 API, IOKit and Mach) is a record of
  functions on the world: \<open>posix_os\<close>, \<open>udev_api\<close>, \<open>win32_os\<close>, \<open>win32_setup\<close>, \<open>win32_window\<close>,
  \<open>darwin_os\<close>, \<open>iokit\<close>, \<open>darwin_notify\<close>. What is assumed of it is a named predicate in the properties that
  need it. The result of \<open>calloc\<close> for an object with an identity is an argument, null when memory runs out.

  \<^bold>\<open>Theories.\<close>
  \<^item> \<open>Prelude\<close>, \<open>Strings\<close>, \<open>Compat\<close>: the option monad, buffers, the conversions of the C library, \<open>compat.c\<close>.
  \<^item> \<open>Common\<close>: \<open>common.c\<close>, log and errors. The mask is a stack of at most 32 codes.
  \<^item> \<open>Iteration\<close>, \<open>ListHead\<close>, \<open>HTable\<close>: the iteration macros as a partial function, and when they are a fold;
    \<open>list.h\<close> refines lists (\<open>ring\<close>), \<open>htable.c\<close> and \<open>htable.h\<close> refine maps (\<open>htable_rep\<close>). The locale
    \<open>intrusive_list\<close> is the contract of the list.
  \<^item> \<open>Device\<close>, \<open>Monitor\<close>, \<open>Registry\<close>, \<open>Lifecycle\<close>, with \<open>MonitorProperties\<close>: \<open>device.c\<close> and \<open>monitor.c\<close>. The
    notification of the callbacks is specified by \<open>notified\<close>, the table of devices by the map \<open>registry\<close>, the
    reachable states of a monitor by a step relation with the invariant \<open>monitor_inv\<close>.
  \<^item> \<open>Platform\<close>, \<open>Posix\<close>, \<open>Driver\<close>, \<open>DevicePosix\<close>, \<open>SerialPosix\<close>, with \<open>PosixProperties\<close>: \<open>platform.c\<close>,
    \<open>platform_posix.c\<close>, the contract of the drivers as a locale, \<open>device_posix.c\<close>, \<open>serial_posix.c\<close>.
  \<^item> \<open>HidLinux\<close>, with \<open>HidProperties\<close>: \<open>hid_linux.c\<close>; the parser of report descriptors against a reference.
  \<^item> \<open>DeviceFeed\<close>, \<open>PlatformFeed\<close>: the interface between the two halves of the monitor. The locale
    \<open>device_registry\<close> says what announcing and withdrawing devices do to the set of identities a monitor
    knows (\<open>knows\<close>); \<open>feeds\<close> is a course of them. \<open>ExampleFeed\<close> has the examples the
    platforms share, \<open>Locations\<close> the texts of locations and the lists of controllers.
  \<^item> \<open>MonitorLinux\<close>, \<open>LinuxFeed\<close>, with \<open>LinuxProperties\<close>: \<open>monitor_linux.c\<close>. \<open>describe\<close> is the device structure a
    udev device specifies.
  \<^item> \<open>PlatformWin32\<close>, \<open>DeviceWin32\<close>, \<open>HidWin32\<close>, \<open>SerialWin32\<close>, with \<open>Win32Properties\<close>: \<open>platform_win32.c\<close>,
    \<open>device_win32.c\<close> with its asynchronous read request, \<open>hid_win32.c\<close>, \<open>serial_win32.c\<close>.
  \<^item> \<open>PathsWin32\<close>, \<open>SetupWin32\<close>, \<open>MonitorWin32\<close>: \<open>monitor_win32.c\<close>, its string functions, the reading of the
    device tree and the enumeration, the background thread with its queue and the monitor. \<open>SetupFeed\<close>: a
    node becomes a complete device or nothing. \<open>LocationWin32\<close>: the location as a function of the tree.
    \<open>RefreshWin32\<close>: the queue and the refresh. \<open>EnumWin32\<close>, \<open>LifecycleWin32\<close>: enumeration, creation, release.
    \<open>ExampleWin32\<close>, \<open>Win32MonitorProperties\<close>: an example tree, and the properties.
  \<^item> \<open>PlatformDarwin\<close>, \<open>HidDarwin\<close>: \<open>platform_darwin.c\<close> and \<open>hid_darwin.c\<close>. \<open>QueueDarwin\<close>: the two linked lists of
    reports as one queue (\<open>queue_of\<close>). \<open>ReadersDarwin\<close>: the callbacks of the thread and the reader interleaved.
    \<open>DriverDarwin\<close>: opening and closing, with the objects of the system counted. \<open>WaitDarwin\<close>: polling and
    waiting. \<open>ExampleDarwin\<close>, \<open>DarwinProperties\<close>: an example system, and the properties.
  \<^item> \<open>RegistryDarwin\<close>, \<open>MonitorDarwin\<close>: \<open>monitor_darwin.c\<close>, the reading of the registry of IOKit and the
    enumeration, the notifications and the monitor. \<open>DescribeDarwin\<close>: an entry becomes the device that
    \<open>describe_darwin\<close> makes of the registry. \<open>FeedDarwin\<close>: what iterators and messages feed to the monitor.
    \<open>LifecycleDarwin\<close>: enumeration, creation, release, with the references counted. \<open>ExampleMonitorDarwin\<close>,
    \<open>DarwinMonitorProperties\<close>: an example registry, and the properties.

  \<^bold>\<open>What is proved.\<close> For the lists and the table: every operation is defined on a represented structure,
  refines its abstract counterpart and leaves other addresses alone. For the monitor: adding and
  removing refine updates of the registry and notify the callbacks in their order, every reachable
  state satisfies the invariant, nothing a program may do gets stuck, and the release frees
  everything. For the three platforms: a refresh works off the events of the system in their order, and the
  monitor knows exactly the devices that result; on Windows, besides, the event is signalled whenever a
  notification is queued, and on macOS no reference is lost. For the drivers: opening and closing balance the references; reads return
  what the system delivered and lose nothing; settings set exactly the fields they name. For
  descriptor sets, timeouts and the clock: bounds and the refinement of sequences.

  \<^bold>\<open>Interleaving.\<close> The Windows monitor has a background thread. Its critical sections and those of the
  caller are atomic steps; the messages the thread handles between two steps of the caller are a list,
  an argument of the caller's function, so that every statement holds for every such list.
  \<open>win32_course\<close> is an arbitrary sequence of messages and refreshes. The handle of a HID device on macOS is
  shared with a thread in the same way; there the callback writes to the pipe after it has left its critical
  section, so \<open>darwin_course\<close> has that write as a step of its own.

  \<^bold>\<open>Bounds and termination.\<close> There is no fuel: loops that follow pointers or ask the system are partial
  functions, and each property that says that a function returns proves that its value is defined. The
  measures are the length of the ring, the number of events or of nodes to come, the height of a node
  in the device tree (\<open>device_tree\<close>) or in the registry (\<open>rt_level\<close>), and the number of interruptions of a system call. Machine integers
  have their width where they can wrap around: reference counts, sizes, ports, clocks.

  \<^bold>\<open>Assumptions.\<close> Callbacks leave the lists alone while they run (\<open>well_behaved\<close>) and, for a refresh, accept
  every device (\<open>friendly\<close>). \<open>calloc\<close> returns null or a free address (\<open>allocates\<close>, \<open>note_allocates\<close>). The
  predicates on the system (\<open>udev_events\<close>, \<open>udev_scan\<close>, \<open>setup_keeps\<close>, \<open>device_tree\<close>, \<open>vista_tree\<close>,
  \<open>enum_ends\<close>, \<open>event_works\<close>, \<open>locatable\<close>, \<open>reads_fit\<close>, \<open>pipe_works\<close>, \<open>counted\<close>, \<open>darwin_waits_end\<close>,
  \<open>select_ok\<close>, \<open>io_works\<close>, \<open>iterators_work\<close>, \<open>messages_work\<close>, \<open>listing_works\<close>, \<open>short_paths\<close>, \<open>notify_works\<close>,
  \<open>ports_work\<close>) state what the documentation of the calls promises; each is shown to hold for an example. The
  registry of IOKit does not change while a function of the library runs.

  \<^bold>\<open>Not modelled.\<close> The text of messages and keys is the string they format to, so that the variable
  arguments of \<open>hs_log\<close> and \<open>hs_error\<close> have no counterpart. The atomics of MSVC and the handlers \<open>_HS_INIT\<close> and \<open>_HS_EXIT\<close> other than
  that of udev only call the compiler and the system. The examples print what the library reports.
\<close>

end
